(* ===== verification/Prelude.thy ===== *)
theory Prelude
  imports Main "HOL-Library.Word" "HOL-Library.List_Lexorder" "HOL-Library.Char_ord"
begin

text \<open>
  Shared vocabulary of the development: machine integers with the saturating
  operations the Rust sources call, \<open>Result\<close> values and the loops over them, the
  iterator adaptors \<open>find_map\<close> and \<open>filter_map\<close>, and the text operations
  (\<open>trim\<close>, decimal formatting).

  Text. A Rust \<open>str\<close> is a list of Isabelle characters, one per code point, restricted
  to U+0000..U+00FF. On that fragment the order of \<open>str\<close> (by UTF-8 bytes) is the order
  by code point, which is the lexicographic order \<open>List_Lexorder\<close> gives.
\<close>

named_theorems run_simps \<open>defining equations of the run-time operations\<close>
named_theorems check_simps \<open>defining equations of the structural checks\<close>

section \<open>Machine integers\<close>

type_synonym u8 = "8 word"
type_synonym u32 = "32 word"
type_synonym u64 = "64 word"

text \<open>\<open>i64\<close> and \<open>i128\<close> values are integers; the saturation of \<open>i64\<close> is written out.\<close>

type_synonym i64 = int
type_synonym i128 = int

definition i64_min :: i64 where "i64_min = - (2 ^ 63)"
definition i64_max :: i64 where "i64_max = 2 ^ 63 - 1"

definition i64_saturating_sub :: "i64 \<Rightarrow> i64 \<Rightarrow> i64" where
  "i64_saturating_sub a b = max i64_min (min i64_max (a - b))"

definition saturating_add :: "'a::len word \<Rightarrow> 'a word \<Rightarrow> 'a word" where
  "saturating_add a b = (if unat a + unat b < 2 ^ LENGTH('a) then a + b else - 1)"

text \<open>\<open>u64::try_from\<close> on an \<open>i64\<close>: fails exactly on negative values.\<close>

definition u64_try_from_i64 :: "i64 \<Rightarrow> u64 option" where
  "u64_try_from_i64 n = (if n < 0 then None else Some (word_of_int n))"

text \<open>\<open>u32::try_from\<close> on a \<open>usize\<close>.\<close>

definition u32_try_from_usize :: "nat \<Rightarrow> u32 option" where
  "u32_try_from_usize n = (if n < 2 ^ 32 then Some (of_nat n) else None)"

lemma unat_saturating_add:
  "unat (saturating_add a (b :: 'a::len word)) = min (unat a + unat b) (2 ^ LENGTH('a) - 1)"
proof (cases "unat a + unat b < 2 ^ LENGTH('a)")
  case True
  then show ?thesis by (simp add: saturating_add_def unat_word_ariths)
next
  case False
  moreover have "unat (- 1 :: 'a word) = 2 ^ LENGTH('a) - 1"
    by (simp add: unsigned_minus_1_eq_mask mask_eq_exp_minus_1)
  ultimately show ?thesis by (simp add: saturating_add_def)
qed

lemma unat_le_pred: "unat (a :: 'a::len word) \<le> 2 ^ LENGTH('a) - 1"
proof -
  have "unat a < 2 ^ LENGTH('a)" by (rule unsigned_less)
  then show ?thesis by linarith
qed

lemma saturating_add_mono: "a \<le> saturating_add a b"
  using unat_le_pred [of a] by (simp add: word_le_nat_alt unat_saturating_add)

lemma saturating_add_gt:
  "a < c \<Longrightarrow> 0 < b \<Longrightarrow> a < saturating_add a (b :: 'a::len word)"
  using unat_le_pred [of c]
  by (simp add: word_less_nat_alt unat_saturating_add)

text \<open>The same operations on words and integers only, for evaluation.\<close>

lemma saturating_add_code [code]: "saturating_add a b = (if a + b < a then - 1 else a + (b :: 'a::len word))"
proof (cases "unat a + unat b < 2 ^ LENGTH('a)")
  case True
  then have "unat (a + b) = unat a + unat b" by (simp add: unat_word_ariths)
  then show ?thesis using True by (simp add: saturating_add_def word_less_nat_alt)
next
  case False
  have b: "unat b < 2 ^ LENGTH('a)" and a: "unat a < 2 ^ LENGTH('a)" by (rule unsigned_less)+
  have "unat (a + b) = (unat a + unat b) mod 2 ^ LENGTH('a)" by (simp add: unat_word_ariths)
  also have "\<dots> = (unat a + unat b - 2 ^ LENGTH('a)) mod 2 ^ LENGTH('a)"
    using False by (intro le_mod_geq) simp
  also have "\<dots> = unat a + unat b - 2 ^ LENGTH('a)"
    using a b by (intro mod_less) linarith
  finally have "a + b < a" unfolding word_less_nat_alt using False b by linarith
  then show ?thesis using False by (simp add: saturating_add_def)
qed

lemma u32_try_from_usize_code [code]:
  "u32_try_from_usize n = (if int n < 4294967296 then Some (word_of_int (int n)) else None)"
  by (simp add: u32_try_from_usize_def)

section \<open>Results\<close>

type_synonym ('e, 'a) result = "'e + 'a"

abbreviation Ok :: "'a \<Rightarrow> ('e, 'a) result" where "Ok \<equiv> Inr"
abbreviation Err :: "'e \<Rightarrow> ('e, 'a) result" where "Err \<equiv> Inl"

text \<open>The \<open>?\<close> operator, and \<open>map_err\<close>.\<close>

fun and_then :: "('e, 'a) result \<Rightarrow> ('a \<Rightarrow> ('e, 'b) result) \<Rightarrow> ('e, 'b) result" where
  "and_then (Inl e) f = Inl e"
| "and_then (Inr a) f = f a"

fun map_err :: "('e \<Rightarrow> 'f) \<Rightarrow> ('e, 'a) result \<Rightarrow> ('f, 'a) result" where
  "map_err f (Inl e) = Inl (f e)"
| "map_err f (Inr a) = Inr a"

fun ok :: "('e, 'a) result \<Rightarrow> 'a option" where
  "ok (Inl e) = None"
| "ok (Inr a) = Some a"

fun ok_or :: "'e \<Rightarrow> 'a option \<Rightarrow> ('e, 'a) result" where
  "ok_or e None = Inl e"
| "ok_or e (Some a) = Inr a"

fun is_ok :: "('e, 'a) result \<Rightarrow> bool" where
  "is_ok (Inl e) = False"
| "is_ok (Inr a) = True"

text \<open>A \<open>for\<close> loop whose body may leave the function with an error, and the same loop
  over a mutable accumulator.\<close>

fun try_for_each :: "('a \<Rightarrow> ('e, unit) result) \<Rightarrow> 'a list \<Rightarrow> ('e, unit) result" where
  "try_for_each f [] = Inr ()"
| "try_for_each f (x # xs) = (case f x of Inl e \<Rightarrow> Inl e | Inr u \<Rightarrow> try_for_each f xs)"

fun try_fold :: "('s \<Rightarrow> 'a \<Rightarrow> ('e, 's) result) \<Rightarrow> 's \<Rightarrow> 'a list \<Rightarrow> ('e, 's) result" where
  "try_fold f s [] = Inr s"
| "try_fold f s (x # xs) = (case f s x of Inl e \<Rightarrow> Inl e | Inr s' \<Rightarrow> try_fold f s' xs)"

lemma and_then_eq_Inr [simp]: "and_then r f = Inr b \<longleftrightarrow> (\<exists>a. r = Inr a \<and> f a = Inr b)"
  by (cases r) auto

lemma map_err_eq_Inr [simp]: "map_err f r = Inr a \<longleftrightarrow> r = Inr a"
  by (cases r) auto

lemma ok_or_eq_Inr [simp]: "ok_or e x = Inr a \<longleftrightarrow> x = Some a"
  by (cases x) auto

lemma ok_eq_Some [simp]: "ok r = Some a \<longleftrightarrow> r = Inr a"
  by (cases r) auto

lemma try_for_each_cong [fundef_cong]:
  "xs = ys \<Longrightarrow> (\<And>x. x \<in> set ys \<Longrightarrow> f x = g x) \<Longrightarrow> try_for_each f xs = try_for_each g ys"
  by (induction ys arbitrary: xs) (auto split: sum.splits)

lemma try_for_each_eq_Inr: "try_for_each f xs = Inr u \<longleftrightarrow> (\<forall>x \<in> set xs. f x = Inr ())"
  by (induction xs) (auto split: sum.splits)

lemma try_for_each_InrD: "try_for_each f xs = Inr u \<Longrightarrow> x \<in> set xs \<Longrightarrow> f x = Inr ()"
  by (simp add: try_for_each_eq_Inr)

lemma try_fold_append:
  "try_fold f s (xs @ ys) = and_then (try_fold f s xs) (\<lambda>s'. try_fold f s' ys)"
  by (induction xs arbitrary: s) (auto split: sum.splits)

lemma try_fold_step_Ok: "try_fold f s xs = Inr s' \<Longrightarrow> x \<in> set xs \<Longrightarrow> \<exists>a b. f a x = Inr b"
  by (induction xs arbitrary: s) (auto split: sum.splits)

text \<open>An invariant of the body is an invariant of the loop.\<close>

lemma try_fold_invariant:
  assumes "try_fold f s xs = Inr s'" "P s"
    and "\<And>a x b. P a \<Longrightarrow> x \<in> set xs \<Longrightarrow> f a x = Inr b \<Longrightarrow> P b"
  shows "P s'"
  using assms
proof (induction xs arbitrary: s)
  case Nil
  then show ?case by simp
next
  case (Cons x xs)
  from Cons.prems(1) obtain t where t: "f s x = Inr t" and rest: "try_fold f t xs = Inr s'"
    by (simp split: sum.splits)
  have "P t" by (rule Cons.prems(3) [OF Cons.prems(2) _ t]) simp
  from rest this show ?case
    by (rule Cons.IH) (rule Cons.prems(3), simp_all)
qed

text \<open>\<open>map\<close> followed by \<open>collect\<close> into a result.\<close>

fun try_map :: "('a \<Rightarrow> ('e, 'b) result) \<Rightarrow> 'a list \<Rightarrow> ('e, 'b list) result" where
  "try_map f [] = Ok []"
| "try_map f (x # xs) = and_then (f x) (\<lambda>y. and_then (try_map f xs) (\<lambda>ys. Ok (y # ys)))"

lemma try_map_cong [fundef_cong]:
  "xs = ys \<Longrightarrow> (\<And>x. x \<in> set ys \<Longrightarrow> f x = g x) \<Longrightarrow> try_map f xs = try_map g ys"
  by (induction ys arbitrary: xs) auto

lemma try_map_Ok: "(\<And>x. x \<in> set xs \<Longrightarrow> f x = Ok (g x)) \<Longrightarrow> try_map f xs = Ok (map g xs)"
  by (induction xs) auto

lemma try_map_set: "try_map f xs = Ok ys \<Longrightarrow> y \<in> set ys \<Longrightarrow> \<exists>x \<in> set xs. f x = Ok y"
  by (induction xs arbitrary: ys) auto

section \<open>Iterator adaptors\<close>

fun find_map :: "('a \<Rightarrow> 'b option) \<Rightarrow> 'a list \<Rightarrow> 'b option" where
  "find_map f [] = None"
| "find_map f (x # xs) = (case f x of None \<Rightarrow> find_map f xs | Some b \<Rightarrow> Some b)"

fun filter_map :: "('a \<Rightarrow> 'b option) \<Rightarrow> 'a list \<Rightarrow> 'b list" where
  "filter_map f [] = []"
| "filter_map f (x # xs) = (case f x of None \<Rightarrow> filter_map f xs | Some b \<Rightarrow> b # filter_map f xs)"

fun first :: "'a list \<Rightarrow> 'a option" where
  "first [] = None"
| "first (x # xs) = Some x"

lemma find_map_SomeD: "find_map f xs = Some b \<Longrightarrow> \<exists>x \<in> set xs. f x = Some b"
  by (induction xs) (auto split: option.splits)

lemma find_map_eq_None: "find_map f xs = None \<longleftrightarrow> (\<forall>x \<in> set xs. f x = None)"
  by (induction xs) (auto split: option.splits)

lemma set_filter_map: "set (filter_map f xs) = {b. \<exists>x \<in> set xs. f x = Some b}"
  by (induction xs) (auto split: option.splits)

lemma filter_map_append: "filter_map f (xs @ ys) = filter_map f xs @ filter_map f ys"
  by (induction xs) (auto split: option.splits)

lemma first_eq_None [simp]: "first xs = None \<longleftrightarrow> xs = []"
  by (cases xs) auto

lemma first_SomeD: "first xs = Some x \<Longrightarrow> x \<in> set xs"
  by (cases xs) auto

lemma find_SomeD: "find P xs = Some x \<Longrightarrow> x \<in> set xs \<and> P x"
  by (auto simp: find_Some_iff)

section \<open>Text\<close>

text \<open>The Unicode white space below U+0100, which \<open>str::trim\<close> removes at both ends.\<close>

definition is_whitespace :: "char \<Rightarrow> bool" where
  "is_whitespace c = (let n = of_char c :: nat in 9 \<le> n \<and> n \<le> 13 \<or> n = 32 \<or> n = 133 \<or> n = 160)"

definition trim :: "string \<Rightarrow> string" where
  "trim s = rev (dropWhile is_whitespace (rev (dropWhile is_whitespace s)))"

text \<open>Decimal formatting of an unsigned integer.\<close>

definition digit_char :: "nat \<Rightarrow> char" where
  "digit_char d = char_of (48 + d)"

fun fmt_nat :: "nat \<Rightarrow> string" where
  "fmt_nat n = (if n < 10 then [digit_char n] else fmt_nat (n div 10) @ [digit_char (n mod 10)])"

declare fmt_nat.simps [simp del]

lemma of_char_digit: "d < 10 \<Longrightarrow> (of_char (digit_char d) :: nat) = 48 + d"
  by (simp add: digit_char_def)

lemma fmt_nat_nonempty: "fmt_nat n \<noteq> []"
  by (subst fmt_nat.simps) simp

lemma fmt_nat_digits: "c \<in> set (fmt_nat n) \<Longrightarrow> \<exists>d < 10. c = digit_char d"
proof (induction n rule: fmt_nat.induct)
  case (1 n)
  show ?case
  proof (cases "n < 10")
    case True
    with "1.prems" show ?thesis by (subst (asm) fmt_nat.simps) auto
  next
    case False
    with "1.prems" consider "c \<in> set (fmt_nat (n div 10))" | "c = digit_char (n mod 10)"
      by (subst (asm) fmt_nat.simps) auto
    then show ?thesis using False "1.IH" by cases (auto intro: exI [of _ "n mod 10"])
  qed
qed

lemma digit_char_inj: "d < 10 \<Longrightarrow> e < 10 \<Longrightarrow> digit_char d = digit_char e \<Longrightarrow> d = e"
  using of_char_digit by (metis add_left_cancel)

lemma fmt_nat_inj: "fmt_nat m = fmt_nat n \<Longrightarrow> m = n"
proof (induction m arbitrary: n rule: fmt_nat.induct)
  case (1 m)
  have len: "length (fmt_nat k) = 1 \<longleftrightarrow> k < 10" for k
    by (subst fmt_nat.simps) (simp add: fmt_nat_nonempty)
  have iff: "m < 10 \<longleftrightarrow> n < 10"
    using len [of m] len [of n] "1.prems" by simp
  show ?case
  proof (cases "m < 10")
    case True
    with iff "1.prems" show ?thesis
      by (simp add: fmt_nat.simps [of m] fmt_nat.simps [of n] digit_char_inj)
  next
    case False
    with iff "1.prems" have eq: "fmt_nat (m div 10) = fmt_nat (n div 10)"
      and last: "digit_char (m mod 10) = digit_char (n mod 10)"
      by (simp_all add: fmt_nat.simps [of m] fmt_nat.simps [of n])
    from False eq have "m div 10 = n div 10" by (rule "1.IH")
    moreover have "m mod 10 = n mod 10" using last by (simp add: digit_char_inj)
    ultimately show ?thesis by (metis div_mult_mod_eq)
  qed
qed

text \<open>Rust's \<open>format!\<close> of an unsigned machine integer.\<close>

definition fmt_u :: "'a::len word \<Rightarrow> string" where
  "fmt_u w = fmt_nat (unat w)"

lemma fmt_u_inj: "fmt_u a = fmt_u b \<Longrightarrow> a = b"
  by (simp add: fmt_u_def word_unat_eq_iff fmt_nat_inj)

text \<open>\<open>format!\<close> of a signed integer.\<close>

definition fmt_int :: "int \<Rightarrow> string" where
  "fmt_int n = (if n < 0 then CHR ''-'' # fmt_nat (nat (- n)) else fmt_nat (nat n))"

end
