(* ===== verification/Ordered_Map.thy ===== *)
theory Ordered_Map
  imports Prelude
begin

text \<open>
  The ordered collections of the standard library that the sources use:
  \<open>BTreeMap\<close> as an association list sorted by key and \<open>BTreeSet\<close> as a sorted list.
  Iteration order is observable in the sources (the first ready node, the first region
  with something to do), so it is part of the model. The contract the components rely on
  is the locale \<open>ordered_map\<close>; the sorted association list is its provider.
\<close>

section \<open>The contract of an ordered map\<close>

locale ordered_map =
  fixes empty_map :: "'m"
    and insert_map :: "'k::linorder \<Rightarrow> 'v \<Rightarrow> 'm \<Rightarrow> 'm"
    and remove_map :: "'k \<Rightarrow> 'm \<Rightarrow> 'm"
    and get :: "'m \<Rightarrow> 'k \<Rightarrow> 'v option"
    and keys :: "'m \<Rightarrow> 'k list"
    and invar :: "'m \<Rightarrow> bool"
  assumes get_empty: "get empty_map = Map.empty"
    and get_insert: "invar m \<Longrightarrow> get (insert_map k v m) = (get m)(k \<mapsto> v)"
    and get_remove: "invar m \<Longrightarrow> get (remove_map k m) = (get m)(k := None)"
    and set_keys: "invar m \<Longrightarrow> set (keys m) = dom (get m)"
    and keys_sorted: "invar m \<Longrightarrow> sorted_wrt (<) (keys m)"
    and invar_empty: "invar empty_map"
    and invar_insert: "invar m \<Longrightarrow> invar (insert_map k v m)"
    and invar_remove: "invar m \<Longrightarrow> invar (remove_map k m)"
    and canonical: "invar m \<Longrightarrow> invar m' \<Longrightarrow> get m = get m' \<Longrightarrow> m = m'"
begin

definition build :: "('k \<times> 'v) list \<Rightarrow> 'm \<Rightarrow> 'm" where
  "build = fold (\<lambda>(k, v). insert_map k v)"

lemma invar_build: "invar m \<Longrightarrow> invar (build kvs m)"
  unfolding build_def by (induction kvs arbitrary: m) (auto simp: invar_insert)

lemma insert_commute:
  assumes "invar m" "k \<noteq> k'"
  shows "insert_map k v (insert_map k' v' m) = insert_map k' v' (insert_map k v m)"
  using assms by (intro canonical) (simp_all add: invar_insert get_insert fun_upd_twist)

lemma insert_remove:
  assumes "invar m"
  shows "insert_map k v (remove_map k m) = insert_map k v m"
  using assms by (intro canonical) (simp_all add: invar_insert invar_remove get_insert get_remove)

lemma remove_insert_absent:
  assumes "invar m" "get m k = None"
  shows "remove_map k (insert_map k v m) = m"
  using assms
  by (intro canonical) (simp_all add: invar_insert invar_remove get_insert get_remove fun_upd_idem)

lemma keys_ext:
  assumes "invar m" "invar m'" "dom (get m) = dom (get m')"
  shows "keys m = keys m'"
proof (rule sorted_distinct_set_unique)
  show "sorted (keys m)" "sorted (keys m')"
    using assms keys_sorted by (simp_all add: strict_sorted_imp_sorted)
  show "distinct (keys m)" "distinct (keys m')"
    using assms keys_sorted by (simp_all add: strict_sorted_iff)
  show "set (keys m) = set (keys m')"
    using assms by (simp add: set_keys)
qed

lemma get_build:
  assumes "invar m" "distinct (map fst kvs)"
  shows "get (build kvs m) = get m ++ map_of kvs"
  using assms
proof (induction kvs arbitrary: m)
  case Nil
  then show ?case by (simp add: build_def)
next
  case (Cons kv kvs)
  obtain k v where kv: "kv = (k, v)" by fastforce
  from Cons.prems kv have fresh: "k \<notin> fst ` set kvs" by simp
  have "get (build (kv # kvs) m) = get (insert_map k v m) ++ map_of kvs"
    using Cons kv by (simp add: build_def invar_insert)
  also have "\<dots> = (get m)(k \<mapsto> v) ++ map_of kvs"
    using Cons.prems by (simp add: get_insert)
  also have "\<dots> = get m ++ map_of (kv # kvs)"
    using fresh kv map_add_upd_left [of k "map_of kvs" "get m" v]
    by (simp add: dom_map_of_conv_image_fst)
  finally show ?case .
qed

text \<open>Insertion order does not matter: two declarations of the same bindings build the
  same map.\<close>

lemma build_order_irrelevant:
  assumes "invar m" "distinct (map fst kvs)" "distinct (map fst kvs')" "set kvs = set kvs'"
  shows "build kvs m = build kvs' m"
proof (rule canonical)
  show "invar (build kvs m)" "invar (build kvs' m)" using assms(1) by (simp_all add: invar_build)
  have "map_of kvs = map_of kvs'"
    using assms(2-4) map_of_inject_set by blast
  then show "get (build kvs m) = get (build kvs' m)" using assms by (simp add: get_build)
qed

end

section \<open>BTreeMap as a sorted association list\<close>

type_synonym ('k, 'v) btree_map = "('k \<times> 'v) list"
type_synonym 'k btree_set = "'k list"

definition bt_wf :: "('k::linorder, 'v) btree_map \<Rightarrow> bool" where
  "bt_wf m = sorted_wrt (<) (map fst m)"

fun bt_insert :: "'k::linorder \<Rightarrow> 'v \<Rightarrow> ('k, 'v) btree_map \<Rightarrow> ('k, 'v) btree_map" where
  "bt_insert k v [] = [(k, v)]"
| "bt_insert k v (kv # m) =
     (if k < fst kv then (k, v) # kv # m
      else if k = fst kv then (k, v) # m
      else kv # bt_insert k v m)"

definition bt_remove :: "'k \<Rightarrow> ('k, 'v) btree_map \<Rightarrow> ('k, 'v) btree_map" where
  "bt_remove k m = filter (\<lambda>kv. fst kv \<noteq> k) m"

definition bt_keys :: "('k, 'v) btree_map \<Rightarrow> 'k list" where
  "bt_keys m = map fst m"

definition bt_values :: "('k, 'v) btree_map \<Rightarrow> 'v list" where
  "bt_values m = map snd m"

definition bt_contains :: "('k, 'v) btree_map \<Rightarrow> 'k \<Rightarrow> bool" where
  "bt_contains m k = (map_of m k \<noteq> None)"

text \<open>\<open>get(k).cloned().unwrap_or(d)\<close>, and \<open>entry(k).or_insert(d)\<close> followed by an update
  in place.\<close>

definition bt_get_or :: "'v \<Rightarrow> ('k, 'v) btree_map \<Rightarrow> 'k \<Rightarrow> 'v" where
  "bt_get_or d m k = (case map_of m k of None \<Rightarrow> d | Some v \<Rightarrow> v)"

definition bt_entry :: "'v \<Rightarrow> 'k::linorder \<Rightarrow> ('v \<Rightarrow> 'v) \<Rightarrow> ('k, 'v) btree_map \<Rightarrow> ('k, 'v) btree_map" where
  "bt_entry d k f m = bt_insert k (f (bt_get_or d m k)) m"

lemma map_of_bt_insert [simp]: "map_of (bt_insert k v m) = (map_of m)(k \<mapsto> v)"
  by (induction m) auto

lemma map_of_bt_remove [simp]: "map_of (bt_remove k m) = (map_of m)(k := None)"
  by (induction m) (auto simp: bt_remove_def)

lemma fst_set_bt_insert: "fst ` set (bt_insert k v m) = insert k (fst ` set m)"
  by (induction m) auto

lemma bt_wf_Nil [simp]: "bt_wf []"
  by (simp add: bt_wf_def)

lemma bt_wf_Cons: "bt_wf (kv # m) \<longleftrightarrow> bt_wf m \<and> (\<forall>k \<in> fst ` set m. fst kv < k)"
  by (auto simp: bt_wf_def)

lemma bt_wf_insert [simp]: "bt_wf m \<Longrightarrow> bt_wf (bt_insert k v m)"
proof (induction m)
  case Nil
  then show ?case by (simp add: bt_wf_def)
next
  case (Cons kv m)
  then show ?case by (auto simp: bt_wf_Cons fst_set_bt_insert)
qed

lemma bt_wf_filter: "bt_wf m \<Longrightarrow> bt_wf (filter P m)"
  by (induction m) (auto simp: bt_wf_Cons)

lemma bt_wf_remove [simp]: "bt_wf m \<Longrightarrow> bt_wf (bt_remove k m)"
  by (simp add: bt_remove_def bt_wf_filter)

lemma bt_wf_distinct: "bt_wf m \<Longrightarrow> distinct (map fst m)"
  by (simp add: bt_wf_def strict_sorted_iff)

lemma bt_wf_rebuild: "bt_wf m \<Longrightarrow> map (\<lambda>kv. (fst kv, the (map_of m (fst kv)))) m = m"
  by (rule map_idI) (auto simp: bt_wf_distinct)

lemma bt_wf_canonical:
  assumes "bt_wf m" "bt_wf m'" "map_of m = map_of m'"
  shows "m = m'"
proof -
  have doms: "set (map fst m) = set (map fst m')"
    using arg_cong [OF assms(3), of dom] by (simp add: dom_map_of_conv_image_fst)
  have keys: "map fst m = map fst m'"
  proof (rule sorted_distinct_set_unique [OF _ _ _ _ doms])
    show "sorted (map fst m)" "distinct (map fst m)" "sorted (map fst m')" "distinct (map fst m')"
      using assms(1,2) by (simp_all add: bt_wf_def strict_sorted_iff)
  qed
  have "m = map (\<lambda>k. (k, the (map_of m k))) (map fst m)"
    using assms(1) by (simp add: bt_wf_rebuild comp_def)
  also have "\<dots> = map (\<lambda>k. (k, the (map_of m' k))) (map fst m')"
    using keys assms(3) by simp
  also have "\<dots> = m'" using assms(2) by (simp add: bt_wf_rebuild comp_def)
  finally show ?thesis .
qed

interpretation btree: ordered_map "[] :: ('k::linorder \<times> 'v) list" bt_insert bt_remove map_of bt_keys bt_wf
proof unfold_locales
  fix m m' :: "('k \<times> 'v) list" and k :: 'k and v :: 'v
  show "map_of ([] :: ('k \<times> 'v) list) = Map.empty" by simp
  show "bt_wf m \<Longrightarrow> set (bt_keys m) = dom (map_of m)"
    by (simp add: bt_keys_def dom_map_of_conv_image_fst)
  show "bt_wf m \<Longrightarrow> sorted_wrt (<) (bt_keys m)"
    by (simp add: bt_keys_def bt_wf_def)
  show "bt_wf m \<Longrightarrow> bt_wf m' \<Longrightarrow> map_of m = map_of m' \<Longrightarrow> m = m'"
    by (rule bt_wf_canonical)
qed simp_all

lemma set_bt_values: "bt_wf m \<Longrightarrow> set (bt_values m) = ran (map_of m)"
  by (simp add: bt_values_def ran_distinct bt_wf_distinct)

lemma bt_get_or_insert [simp]:
  "bt_get_or d (bt_insert k v m) k' = (if k' = k then v else bt_get_or d m k')"
  by (simp add: bt_get_or_def)

lemma bt_get_or_entry [simp]:
  "bt_get_or d (bt_entry d k f m) k' = (if k' = k then f (bt_get_or d m k) else bt_get_or d m k')"
  by (simp add: bt_entry_def)

lemma bt_wf_entry [simp]: "bt_wf m \<Longrightarrow> bt_wf (bt_entry d k f m)"
  by (simp add: bt_entry_def)

lemma bt_contains_insert [simp]: "bt_contains (bt_insert k v m) k' \<longleftrightarrow> k' = k \<or> bt_contains m k'"
  by (simp add: bt_contains_def)

lemma bt_contains_remove [simp]: "bt_contains (bt_remove k m) k' \<longleftrightarrow> k' \<noteq> k \<and> bt_contains m k'"
  by (simp add: bt_contains_def)

lemma bt_contains_Nil [simp]: "\<not> bt_contains [] k"
  by (simp add: bt_contains_def)

text \<open>The constructors of the sources collect a list into a map and refuse a second binding
  of a key. They succeed exactly on distinct keys, and then build the map of the bindings.\<close>

definition bt_try_build ::
  "('a \<Rightarrow> 'e) \<Rightarrow> ('a \<Rightarrow> 'k::linorder) \<Rightarrow> ('a \<Rightarrow> 'v) \<Rightarrow> 'a list \<Rightarrow> ('e, ('k, 'v) btree_map) result" where
  "bt_try_build duplicate key val xs =
     try_fold (\<lambda>m x. if bt_contains m (key x) then Err (duplicate x)
                     else Ok (bt_insert (key x) (val x) m)) [] xs"

lemma bt_try_build_from:
  "try_fold (\<lambda>m x. if bt_contains m (key x) then Err (duplicate x)
                     else Ok (bt_insert (key x) (val x) m)) m xs = Ok s \<longleftrightarrow>
   distinct (map key xs) \<and> (\<forall>x \<in> set xs. \<not> bt_contains m (key x)) \<and>
   s = btree.build (map (\<lambda>x. (key x, val x)) xs) m"
proof (induction xs arbitrary: m)
  case Nil
  then show ?case by (auto simp: btree.build_def)
next
  case (Cons x xs)
  then show ?case by (auto simp: btree.build_def image_iff)
qed

lemma bt_try_build_eq_Ok:
  "bt_try_build duplicate key val xs = Ok s \<longleftrightarrow>
   distinct (map key xs) \<and> s = btree.build (map (\<lambda>x. (key x, val x)) xs) []"
  by (simp add: bt_try_build_def bt_try_build_from)

lemma bt_try_build_get:
  assumes "bt_try_build duplicate key val xs = Ok s"
  shows "bt_wf s \<and> map_of s = map_of (map (\<lambda>x. (key x, val x)) xs)"
proof -
  let ?kvs = "map (\<lambda>x. (key x, val x)) xs"
  from assms have d: "distinct (map fst ?kvs)" and s: "s = btree.build ?kvs []"
    by (simp_all add: bt_try_build_eq_Ok comp_def)
  show ?thesis using btree.invar_build [of "[]" ?kvs] btree.get_build [OF _ d, of "[]"] s by simp
qed

section \<open>BTreeSet as a sorted list\<close>

definition bs_wf :: "'k::linorder btree_set \<Rightarrow> bool" where
  "bs_wf s = sorted_wrt (<) s"

fun bs_insert :: "'k::linorder \<Rightarrow> 'k btree_set \<Rightarrow> 'k btree_set" where
  "bs_insert x [] = [x]"
| "bs_insert x (y # s) = (if x < y then x # y # s else if x = y then y # s else y # bs_insert x s)"

definition bs_collect :: "'k::linorder list \<Rightarrow> 'k btree_set" where
  "bs_collect xs = fold bs_insert xs []"

definition bs_remove :: "'k \<Rightarrow> 'k btree_set \<Rightarrow> 'k btree_set" where
  "bs_remove x s = filter (\<lambda>y. y \<noteq> x) s"

lemma set_bs_insert [simp]: "set (bs_insert x s) = insert x (set s)"
  by (induction s) auto

lemma set_bs_remove [simp]: "set (bs_remove x s) = set s - {x}"
  by (auto simp: bs_remove_def)

lemma bs_wf_insert: "bs_wf s \<Longrightarrow> bs_wf (bs_insert x s)"
  unfolding bs_wf_def by (induction s) auto

lemma set_fold_bs_insert: "set (fold bs_insert xs s) = set xs \<union> set s"
  by (induction xs arbitrary: s) auto

lemma set_bs_collect [simp]: "set (bs_collect xs) = set xs"
  by (simp add: bs_collect_def set_fold_bs_insert)

lemma bs_wf_collect: "bs_wf (bs_collect xs)"
proof -
  have "bs_wf s \<Longrightarrow> bs_wf (fold bs_insert xs s)" for s
    by (induction xs arbitrary: s) (auto simp: bs_wf_insert)
  then show ?thesis by (simp add: bs_collect_def bs_wf_def)
qed

lemma bs_wf_ext: "bs_wf s \<Longrightarrow> bs_wf t \<Longrightarrow> set s = set t \<Longrightarrow> s = t"
  unfolding bs_wf_def by (simp add: strict_sorted_equal)

end
