(* ===== verification/Identifiers.thy ===== *)
theory Identifiers
  imports Ordered_Map
begin

text \<open>
  The value types every document of the system is written in: validated identifiers
  (\<open>crates/ir/src/id.rs\<close>), content digests (\<open>digest.rs\<close>) and recorded times
  (\<open>correctness/evidence.rs\<close>). Identifiers are ordered by their text, as the derived
  \<open>Ord\<close> of the newtype is; that order is the canonical order of every keyed collection.
\<close>

section \<open>Identifiers\<close>

datatype ident = Identifier (as_str: string)

instantiation ident :: linorder
begin

definition less_eq_ident :: "ident \<Rightarrow> ident \<Rightarrow> bool" where
  "less_eq_ident a b = (as_str a \<le> as_str b)"

definition less_ident :: "ident \<Rightarrow> ident \<Rightarrow> bool" where
  "less_ident a b = (as_str a < as_str b)"

instance
  by standard (auto simp: less_eq_ident_def less_ident_def ident.expand)

end

datatype identifier_error =
    Empty
  | Padded string
  | Character string char
  | TooLong string nat

definition MAXIMUM_LENGTH :: nat where
  "MAXIMUM_LENGTH = 200"

definition is_ascii_alphanumeric :: "char \<Rightarrow> bool" where
  "is_ascii_alphanumeric c =
     (let n = of_char c :: nat in
        48 \<le> n \<and> n \<le> 57 \<or> 65 \<le> n \<and> n \<le> 90 \<or> 97 \<le> n \<and> n \<le> 122)"

definition is_allowed :: "char \<Rightarrow> bool" where
  "is_allowed c = (is_ascii_alphanumeric c \<or> c \<in> set ''_-.:/@+'')"

definition parse :: "string \<Rightarrow> (identifier_error, ident) result" where
  "parse value =
     (if value = [] then Err Empty
      else if trim value \<noteq> value then Err (Padded value)
      else if length value > MAXIMUM_LENGTH then Err (TooLong value MAXIMUM_LENGTH)
      else case find (\<lambda>c. \<not> is_allowed c) value of
             Some c \<Rightarrow> Err (Character value c)
           | None \<Rightarrow> Ok (Identifier value))"

text \<open>What the validation establishes, and that it depends on nothing else: the padding
  check never decides for text made of allowed characters.\<close>

definition valid_identifier :: "string \<Rightarrow> bool" where
  "valid_identifier s = (s \<noteq> [] \<and> length s \<le> MAXIMUM_LENGTH \<and> (\<forall>c \<in> set s. is_allowed c))"

lemma allowed_not_whitespace: "is_allowed c \<Longrightarrow> \<not> is_whitespace c"
  by (auto simp: is_allowed_def is_ascii_alphanumeric_def is_whitespace_def Let_def)

lemma trim_no_whitespace: "(\<forall>c \<in> set s. \<not> is_whitespace c) \<Longrightarrow> trim s = s"
  by (simp add: trim_def dropWhile_eq_self_iff)
     (metis dropWhile_eq_self_iff hd_in_set rev_rev_ident set_rev)

lemma parse_eq_Ok_iff: "parse s = Ok i \<longleftrightarrow> valid_identifier s \<and> i = Identifier s"
  by (auto simp: parse_def valid_identifier_def find_None_iff trim_no_whitespace
      allowed_not_whitespace split: option.splits if_splits)
     (auto simp: find_Some_iff)

lemma parse_as_str: "parse s = Ok i \<Longrightarrow> as_str i = s"
  by (simp add: parse_eq_Ok_iff)

section \<open>Digests and times\<close>

text \<open>A SHA-256 digest is 32 bytes. The hash itself is the \<open>sha2\<close> crate and the bytes it is
  taken over come from \<open>serde\<close>: where a digest of a document is computed, the function is
  a parameter of the model.\<close>

datatype digest = Digest (digest_bytes: "u8 list")

type_synonym recorded_time = i64

end
