(* ===== verification/Capability_Effect.thy ===== *)
theory Capability_Effect
  imports Identifiers
begin

text \<open>
  What a definition may reach and what a node does that the outside world can notice:
  capability grants and their narrowing (\<open>crates/ir/src/capability.rs\<close>), declared effects
  with their idempotency and reversibility, and protected boundaries
  (\<open>crates/ir/src/effect.rs\<close>).
\<close>

section \<open>Capabilities\<close>

datatype grant =
    ModelProvider ident "string list"
  | Tool ident
  | ContainerImage string digest
  | VerifierGrant ident string
  | Network "string list"
  | Filesystem "string list" bool
  | Secret "ident list"
  | MemorySpace ident bool
  | DataResidency "string list"

fun grant_kind_name :: "grant \<Rightarrow> string" where
  "grant_kind_name (ModelProvider p m) = ''a model provider''"
| "grant_kind_name (Tool t) = ''a tool''"
| "grant_kind_name (ContainerImage i d) = ''a container image''"
| "grant_kind_name (VerifierGrant i v) = ''a verifier identity''"
| "grant_kind_name (Network h) = ''network access''"
| "grant_kind_name (Filesystem p w) = ''filesystem access''"
| "grant_kind_name (Secret n) = ''secret access''"
| "grant_kind_name (MemorySpace s w) = ''a memory space''"
| "grant_kind_name (DataResidency r) = ''a data residency region''"

datatype capability_error =
    NotGranted ident ident
  | NotPermittedForKind ident string ident string
  | CapabilityDuplicate ident
  | WidensParent ident

record capability =
  capability_id :: ident
  capability_grant :: grant

type_synonym capability_set = "(ident, grant) btree_map"

definition capability_set_new :: "capability list \<Rightarrow> (capability_error, capability_set) result" where
  "capability_set_new capabilities =
     bt_try_build (\<lambda>c. CapabilityDuplicate (capability_id c)) capability_id capability_grant capabilities"

definition grant_of :: "capability_set \<Rightarrow> ident \<Rightarrow> grant option" where
  "grant_of s i = map_of s i"

definition check_narrows :: "capability_set \<Rightarrow> capability_set \<Rightarrow> (capability_error, unit) result" where
  "check_narrows self parent =
     try_for_each (\<lambda>(i, g). if grant_of parent i \<noteq> Some g then Err (WidensParent i) else Ok ()) self"

lemma capability_set_new_wf: "capability_set_new cs = Ok s \<Longrightarrow> bt_wf s"
  unfolding capability_set_new_def using bt_try_build_get by blast

lemma check_narrows_iff:
  assumes "bt_wf self"
  shows "check_narrows self parent = Ok u \<longleftrightarrow> map_of self \<subseteq>\<^sub>m map_of parent"
proof
  assume "check_narrows self parent = Ok u"
  then have "\<forall>(i, g) \<in> set self. map_of parent i = Some g"
    by (auto simp: check_narrows_def try_for_each_eq_Inr grant_of_def split: if_splits)
  then show "map_of self \<subseteq>\<^sub>m map_of parent"
    unfolding map_le_def dom_def using map_of_SomeD by fastforce
next
  assume le: "map_of self \<subseteq>\<^sub>m map_of parent"
  have "map_of parent i = Some g" if "(i, g) \<in> set self" for i g
  proof -
    from that assms have "map_of self i = Some g" by (simp add: bt_wf_distinct)
    then show ?thesis using le by (metis domI map_le_def)
  qed
  then show "check_narrows self parent = Ok u"
    by (auto simp: check_narrows_def try_for_each_eq_Inr grant_of_def)
qed

section \<open>Effects\<close>

datatype effect_error =
    Undeclared ident ident
  | MissingIdempotencyKey ident
  | MissingCompensation ident
  | EffectDuplicate ident ident

datatype effect_kind =
    EffNetwork | EffFilesystem | EffSecretAccess | EffPublication | EffMemoryWrite | EffExternalSideEffect

fun is_outward_facing :: "effect_kind \<Rightarrow> bool" where
  "is_outward_facing EffPublication = True"
| "is_outward_facing EffMemoryWrite = True"
| "is_outward_facing EffExternalSideEffect = True"
| "is_outward_facing k = False"

fun effect_kind_str :: "effect_kind \<Rightarrow> string" where
  "effect_kind_str EffNetwork = ''network''"
| "effect_kind_str EffFilesystem = ''filesystem''"
| "effect_kind_str EffSecretAccess = ''secret_access''"
| "effect_kind_str EffPublication = ''publication''"
| "effect_kind_str EffMemoryWrite = ''memory_write''"
| "effect_kind_str EffExternalSideEffect = ''external_side_effect''"

datatype idempotency = Idempotent | Keyed string | NonIdempotent

datatype reversibility = Reversible ident | Irreversible

record effect =
  effect_id :: ident
  effect_kind :: effect_kind
  effect_target :: string
  effect_capability :: ident
  effect_idempotency :: idempotency
  effect_reversibility :: reversibility

definition effect_check :: "effect \<Rightarrow> (effect_error, unit) result" where
  "effect_check e =
     (if (case effect_idempotency e of Keyed key_source \<Rightarrow> trim key_source = [] | _ \<Rightarrow> False)
      then Err (MissingIdempotencyKey (effect_id e))
      else if (case effect_reversibility e of Reversible c \<Rightarrow> as_str c = [] | _ \<Rightarrow> False)
      then Err (MissingCompensation (effect_id e))
      else Ok ())"

datatype crossing = CrossEffect ident | TrustTransition ident

record protected_boundary =
  boundary_id :: ident
  boundary_node :: ident
  boundary_crossing :: crossing
  boundary_description :: string

datatype boundary_error =
    BoundaryUnknownNode ident ident
  | NoSuchEffect ident ident ident
  | BoundaryDuplicate ident

end
