(* ===== verification/Value_Schema.thy ===== *)
theory Value_Schema
  imports Identifiers
begin

text \<open>
  Structural value schemas (\<open>crates/ir/src/value.rs\<close>): the schema datatype, the
  compatibility check \<open>check_at\<close> with its mismatch paths, and the opacity predicate.
  The lemmas reduce a successful check to the path-free relation \<open>satisfies\<close>.
\<close>

section \<open>Schemas\<close>

datatype schema_mismatch =
    Kind string string string
  | MissingField string string
  | UnexpectedVariant string string
  | MissingDiscriminant string string
  | NotAMember string string
  | OutOfRange string string string string
  | OpaqueNotAccepted string
  | Scale string u8 u8

record integer_range =
  range_minimum :: i128
  range_maximum :: i128

definition range_is_within :: "integer_range \<Rightarrow> integer_range \<Rightarrow> bool" where
  "range_is_within self required =
     (range_minimum self \<ge> range_minimum required \<and> range_maximum self \<le> range_maximum required)"

record length_bounds =
  length_minimum :: u32
  length_maximum :: u32

definition length_is_within :: "length_bounds \<Rightarrow> length_bounds \<Rightarrow> bool" where
  "length_is_within self required =
     (length_minimum self \<ge> length_minimum required \<and> length_maximum self \<le> length_maximum required)"

datatype value_schema =
    SUnit
  | SBool
  | SInteger integer_range
  | SDecimal u8
  | SText length_bounds
  | SBytesRef
  | SEnumeration "string list"
  | SList value_schema length_bounds
  | SRecord "(string \<times> field) list"
  | SUnion string "(string \<times> value_schema) list"
  | SArtifactRef "string option"
  | SJson string
and field = Field (field_schema: value_schema) (field_required: bool)

fun kind_name :: "value_schema \<Rightarrow> string" where
  "kind_name SUnit = ''unit''"
| "kind_name SBool = ''bool''"
| "kind_name (SInteger r) = ''integer''"
| "kind_name (SDecimal s) = ''decimal''"
| "kind_name (SText l) = ''text''"
| "kind_name SBytesRef = ''bytes reference''"
| "kind_name (SEnumeration m) = ''enumeration''"
| "kind_name (SList i l) = ''list''"
| "kind_name (SRecord f) = ''record''"
| "kind_name (SUnion d v) = ''union''"
| "kind_name (SArtifactRef c) = ''artifact reference''"
| "kind_name (SJson r) = ''opaque json''"

fun is_json :: "value_schema \<Rightarrow> bool" where
  "is_json (SJson r) = True"
| "is_json s = False"

text \<open>Sub-schemas are smaller, which is why the recursions below end.\<close>

lemma size_field_schema: "size (field_schema f) < size f"
  by (cases f) simp

lemma size_record_entry [termination_simp]:
  "(name, f) \<in> set flds \<Longrightarrow> size (field_schema f) < Suc (size_list (\<lambda>x. Suc (size (snd x))) flds)"
  using size_field_schema [of f] by (induction flds) auto

lemma size_union_entry [termination_simp]:
  "(name, v) \<in> set variants \<Longrightarrow> size v < Suc (size_list (\<lambda>x. Suc (size (snd x))) variants)"
  by (induction variants) auto

lemma size_entry: "size_list (size_prod (\<lambda>x. 0) size) xs = size_list (\<lambda>x. Suc (size (snd x))) xs"
  by (induction xs) (auto simp: size_prod_simp split: prod.splits)

fun carries_opacity :: "value_schema \<Rightarrow> bool" where
  "carries_opacity (SJson r) = True"
| "carries_opacity (SList item l) = carries_opacity item"
| "carries_opacity (SRecord flds) =
     list_ex (\<lambda>(name, f). carries_opacity (field_schema f)) flds"
| "carries_opacity (SUnion d variants) = list_ex (\<lambda>(name, v). carries_opacity v) variants"
| "carries_opacity s = False"

section \<open>The compatibility check\<close>

definition join :: "string \<Rightarrow> string \<Rightarrow> string" where
  "join path segment = (if path = [] then segment else path @ ''.'' @ segment)"

definition display_path :: "string \<Rightarrow> string" where
  "display_path path = (if path = [] then ''<root>'' else path)"

definition range_error :: "string \<Rightarrow> integer_range \<Rightarrow> integer_range \<Rightarrow> schema_mismatch" where
  "range_error path rng expected =
     OutOfRange (display_path path)
       (fmt_int (range_minimum rng) @ ''..='' @ fmt_int (range_maximum rng))
       (fmt_int (range_minimum expected)) (fmt_int (range_maximum expected))"

definition length_error :: "string \<Rightarrow> length_bounds \<Rightarrow> length_bounds \<Rightarrow> schema_mismatch" where
  "length_error path l expected =
     OutOfRange (display_path path)
       (fmt_u (length_minimum l) @ ''..='' @ fmt_u (length_maximum l))
       (fmt_u (length_minimum expected)) (fmt_u (length_maximum expected))"

text \<open>One branch per arm of the match, in the order of the source: an opaque requirement
  accepts everything, an opaque value satisfies nothing else, then the arms by kind.\<close>

function check_at :: "value_schema \<Rightarrow> string \<Rightarrow> value_schema \<Rightarrow> (schema_mismatch, unit) result" where
  "check_at self path required =
     (let mismatch = Kind (display_path path) (kind_name required) (kind_name self) in
      if is_json required then Ok ()
      else if is_json self then Err (OpaqueNotAccepted (display_path path))
      else case self of
        SUnit \<Rightarrow> (case required of SUnit \<Rightarrow> Ok () | _ \<Rightarrow> Err mismatch)
      | SBool \<Rightarrow> (case required of SBool \<Rightarrow> Ok () | _ \<Rightarrow> Err mismatch)
      | SBytesRef \<Rightarrow> (case required of SBytesRef \<Rightarrow> Ok () | _ \<Rightarrow> Err mismatch)
      | SInteger rng \<Rightarrow> (case required of
            SInteger expected \<Rightarrow>
              if range_is_within rng expected then Ok () else Err (range_error path rng expected)
          | _ \<Rightarrow> Err mismatch)
      | SDecimal scale \<Rightarrow> (case required of
            SDecimal expected \<Rightarrow>
              if scale = expected then Ok () else Err (Scale (display_path path) scale expected)
          | _ \<Rightarrow> Err mismatch)
      | SText l \<Rightarrow> (case required of
            SText expected \<Rightarrow>
              if length_is_within l expected then Ok () else Err (length_error path l expected)
          | _ \<Rightarrow> Err mismatch)
      | SEnumeration members \<Rightarrow> (case required of
            SEnumeration accepted \<Rightarrow>
              (case find (\<lambda>m. m \<notin> set accepted) members of
                 None \<Rightarrow> Ok ()
               | Some m \<Rightarrow> Err (NotAMember (display_path path) m))
          | _ \<Rightarrow> Err mismatch)
      | SList item l \<Rightarrow> (case required of
            SList expected_item expected_length \<Rightarrow>
              if \<not> length_is_within l expected_length
              then Err (length_error path l expected_length)
              else check_at item (join path ''[]'') expected_item
          | _ \<Rightarrow> Err mismatch)
      | SRecord flds \<Rightarrow> (case required of
            SRecord expected \<Rightarrow>
              try_for_each (\<lambda>(name, expected_field).
                case map_of flds name of
                  Some f \<Rightarrow>
                    if field_required expected_field \<and> \<not> field_required f
                    then Err (MissingField (display_path path) name)
                    else check_at (field_schema f) (join path name) (field_schema expected_field)
                | None \<Rightarrow>
                    if field_required expected_field
                    then Err (MissingField (display_path path) name) else Ok ()) expected
          | _ \<Rightarrow> Err mismatch)
      | SUnion discriminant variants \<Rightarrow> (case required of
            SUnion expected_discriminant expected_variants \<Rightarrow>
              if discriminant \<noteq> expected_discriminant
              then Err (MissingDiscriminant (display_path path) discriminant)
              else try_for_each (\<lambda>(name, variant).
                case map_of expected_variants name of
                  None \<Rightarrow> Err (UnexpectedVariant (display_path path) name)
                | Some expected_variant \<Rightarrow> check_at variant (join path name) expected_variant) variants
          | _ \<Rightarrow> Err mismatch)
      | SArtifactRef contract \<Rightarrow> (case required of
            SArtifactRef expected \<Rightarrow>
              (case expected of
                 None \<Rightarrow> Ok ()
               | Some e \<Rightarrow> if contract = Some e then Ok () else Err mismatch)
          | _ \<Rightarrow> Err mismatch)
      | SJson reason \<Rightarrow> Err mismatch)"
  by pat_completeness auto
termination
  by (relation "measure (\<lambda>(_, _, r). size r)")
     (auto dest!: map_of_SomeD intro: size_record_entry [folded size_entry] size_union_entry [folded size_entry])

declare check_at.simps [simp del]

definition check_satisfies :: "value_schema \<Rightarrow> value_schema \<Rightarrow> (schema_mismatch, unit) result" where
  "check_satisfies self required = check_at self [] required"

section \<open>The relation a successful check decides\<close>

text \<open>Where the check stands in the document never changes whether it succeeds.\<close>

definition satisfies :: "value_schema \<Rightarrow> value_schema \<Rightarrow> bool" where
  "satisfies self required = (check_satisfies self required = Ok ())"

lemma check_at_json [simp]: "is_json r \<Longrightarrow> check_at s p r = Ok ()"
  by (subst check_at.simps) (simp add: Let_def)

lemma check_at_opaque [simp]: "is_json s \<Longrightarrow> check_at s p r = Ok u \<longleftrightarrow> is_json r"
  by (subst check_at.simps) (simp add: Let_def)

lemma check_at_list [simp]:
  "check_at (SList i l) p (SList i' l') = Ok u \<longleftrightarrow>
     length_is_within l l' \<and> check_at i (join p ''[]'') i' = Ok ()"
  by (subst check_at.simps) (simp add: Let_def)

definition field_ok :: "(field \<Rightarrow> bool) \<Rightarrow> field option \<Rightarrow> field \<Rightarrow> bool" where
  "field_ok Q f e = (case f of None \<Rightarrow> \<not> field_required e
                     | Some x \<Rightarrow> (field_required e \<longrightarrow> field_required x) \<and> Q x)"

lemma check_at_record [simp]:
  "check_at (SRecord f) p (SRecord e) = Ok u \<longleftrightarrow>
     (\<forall>(n, ef) \<in> set e.
        field_ok (\<lambda>x. check_at (field_schema x) (join p n) (field_schema ef) = Ok ()) (map_of f n) ef)"
  by (subst check_at.simps)
     (auto simp: Let_def try_for_each_eq_Inr field_ok_def split: option.splits prod.splits)

lemma check_at_union [simp]:
  "check_at (SUnion d v) p (SUnion d' v') = Ok u \<longleftrightarrow>
     d = d' \<and> (\<forall>(n, x) \<in> set v. \<exists>y. map_of v' n = Some y \<and> check_at x (join p n) y = Ok ())"
proof -
  have variant: "(case map_of v' n of None \<Rightarrow> Err e | Some y \<Rightarrow> check_at x q y) = Ok () \<longleftrightarrow>
      (\<exists>y. map_of v' n = Some y \<and> check_at x q y = Ok ())" for e n x q
    by (simp split: option.splits)
  show ?thesis
    by (subst check_at.simps) (simp add: Let_def try_for_each_eq_Inr split_beta variant)
qed

text \<open>The remaining pairs of kinds involve no recursion.\<close>

fun flat_satisfies :: "value_schema \<Rightarrow> value_schema \<Rightarrow> bool" where
  "flat_satisfies s (SJson x) = True"
| "flat_satisfies SUnit SUnit = True"
| "flat_satisfies SBool SBool = True"
| "flat_satisfies SBytesRef SBytesRef = True"
| "flat_satisfies (SInteger a) (SInteger b) = range_is_within a b"
| "flat_satisfies (SDecimal a) (SDecimal b) = (a = b)"
| "flat_satisfies (SText a) (SText b) = length_is_within a b"
| "flat_satisfies (SEnumeration a) (SEnumeration b) = (set a \<subseteq> set b)"
| "flat_satisfies (SArtifactRef a) (SArtifactRef b) = (b = None \<or> a = b)"
| "flat_satisfies s r = False"

fun nested :: "value_schema \<Rightarrow> value_schema \<Rightarrow> bool" where
  "nested (SList i l) (SList i' l') = True"
| "nested (SRecord f) (SRecord e) = True"
| "nested (SUnion d v) (SUnion d' v') = True"
| "nested s r = False"

lemma check_at_flat: "\<not> nested s r \<Longrightarrow> check_at s p r = Ok u \<longleftrightarrow> flat_satisfies s r"
  by (subst check_at.simps; cases s; cases r)
     (auto simp: Let_def find_None_iff dest!: find_SomeD split: option.splits)

lemma check_at_path_irrelevant: "check_at s p r = Ok u \<longleftrightarrow> check_at s q r = Ok v"
proof (induction r arbitrary: s p q u v rule: measure_induct_rule [of size])
  case (less r)
  show ?case
  proof (cases "nested s r")
    case False
    then show ?thesis by (simp add: check_at_flat)
  next
    case True
    then consider (l) i k i' k' where "s = SList i k" "r = SList i' k'"
      | (rec) f e where "s = SRecord f" "r = SRecord e"
      | (un) d x d' y where "s = SUnion d x" "r = SUnion d' y"
      by (cases rule: nested.cases [of "(s, r)"]) auto
    then show ?thesis
    proof cases
      case l
      then have "check_at i (join p ''[]'') i' = Ok () \<longleftrightarrow> check_at i (join q ''[]'') i' = Ok ()"
        by (intro less) simp
      with l show ?thesis by simp
    next
      case rec
      have "check_at (field_schema x) (join p n) (field_schema ef) = Ok () \<longleftrightarrow>
            check_at (field_schema x) (join q n) (field_schema ef) = Ok ()"
        if "(n, ef) \<in> set e" for n ef x
        using that rec by (intro less) (simp add: size_entry size_record_entry)
      then show ?thesis using rec by (auto simp: field_ok_def split: option.splits)
    next
      case un
      have "check_at x (join p n) z = Ok () \<longleftrightarrow> check_at x (join q n) z = Ok ()"
        if "map_of y n = Some z" for n x z
        using un size_union_entry [OF map_of_SomeD [OF that]] by (intro less) (simp add: size_entry)
      then show ?thesis using un by fastforce
    qed
  qed
qed

lemma check_at_satisfies: "check_at s p r = Ok u \<longleftrightarrow> satisfies s r"
  unfolding satisfies_def check_satisfies_def by (rule check_at_path_irrelevant)

lemma satisfies_flat: "\<not> nested s r \<Longrightarrow> satisfies s r = flat_satisfies s r"
  by (simp add: satisfies_def check_satisfies_def check_at_flat)

lemma satisfies_list [simp]:
  "satisfies (SList i l) (SList i' l') \<longleftrightarrow> length_is_within l l' \<and> satisfies i i'"
  unfolding satisfies_def [of "SList i l"] check_satisfies_def
  unfolding check_at_list unfolding check_at_satisfies by (rule refl)

lemma satisfies_record [simp]:
  "satisfies (SRecord f) (SRecord e) \<longleftrightarrow>
     (\<forall>(n, ef) \<in> set e. field_ok (\<lambda>x. satisfies (field_schema x) (field_schema ef)) (map_of f n) ef)"
  unfolding satisfies_def [of "SRecord f"] check_satisfies_def
  unfolding check_at_record unfolding check_at_satisfies by (rule refl)

lemma satisfies_union [simp]:
  "satisfies (SUnion d v) (SUnion d' v') \<longleftrightarrow>
     d = d' \<and> (\<forall>(n, x) \<in> set v. \<exists>y. map_of v' n = Some y \<and> satisfies x y)"
  unfolding satisfies_def [of "SUnion d v"] check_satisfies_def
  unfolding check_at_union unfolding check_at_satisfies by (rule refl)

section \<open>Order properties\<close>

text \<open>Maps in a schema have distinct keys, at every depth.\<close>

fun schema_wf :: "value_schema \<Rightarrow> bool" where
  "schema_wf (SList item l) = schema_wf item"
| "schema_wf (SRecord flds) =
     (bt_wf flds \<and> (\<forall>(name, f) \<in> set flds. schema_wf (field_schema f)))"
| "schema_wf (SUnion d variants) = (bt_wf variants \<and> (\<forall>(name, v) \<in> set variants. schema_wf v))"
| "schema_wf s = True"

text \<open>No field is optional, at any depth.\<close>

fun all_required :: "value_schema \<Rightarrow> bool" where
  "all_required (SList item l) = all_required item"
| "all_required (SRecord flds) =
     (\<forall>(name, f) \<in> set flds. field_required f \<and> all_required (field_schema f))"
| "all_required (SUnion d variants) = (\<forall>(name, v) \<in> set variants. all_required v)"
| "all_required s = True"

lemma satisfies_refl: "schema_wf s \<Longrightarrow> satisfies s s"
proof (induction s rule: schema_wf.induct)
  case (1 item l)
  then show ?case by (simp add: length_is_within_def)
next
  case (2 flds)
  have "field_ok (\<lambda>x. satisfies (field_schema x) (field_schema f)) (map_of flds n) f"
    if "(n, f) \<in> set flds" for n f
  proof -
    from that "2.prems" have "map_of flds n = Some f" by (simp add: bt_wf_distinct)
    moreover from that "2.prems" have "schema_wf (field_schema f)" by auto
    then have "satisfies (field_schema f) (field_schema f)" by (rule "2.IH" [OF that refl])
    ultimately show ?thesis by (simp add: field_ok_def)
  qed
  then show ?case by auto
next
  case (3 d variants)
  have "map_of variants n = Some v \<and> satisfies v v" if "(n, v) \<in> set variants" for n v
  proof
    from that "3.prems" show "map_of variants n = Some v" by (simp add: bt_wf_distinct)
    from that "3.prems" have "schema_wf v" by auto
    then show "satisfies v v" by (rule "3.IH" [OF that refl])
  qed
  then show ?case by auto
qed (simp_all add: satisfies_flat range_is_within_def length_is_within_def)

lemma satisfies_json_left: "is_json b \<Longrightarrow> satisfies b c \<Longrightarrow> is_json c"
  by (cases b; cases c) (simp_all add: satisfies_flat)

lemma satisfies_to_json: "is_json c \<Longrightarrow> satisfies a c"
  by (simp add: satisfies_def check_satisfies_def)

lemma satisfies_list_shape: "satisfies b (SList i l) \<Longrightarrow> \<exists>j k. b = SList j k"
  by (cases b) (simp_all add: satisfies_flat)

lemma satisfies_record_shape: "satisfies b (SRecord e) \<Longrightarrow> \<exists>f. b = SRecord f"
  by (cases b) (simp_all add: satisfies_flat)

lemma satisfies_union_shape: "satisfies b (SUnion d v) \<Longrightarrow> \<exists>d' w. b = SUnion d' w"
  by (cases b) (simp_all add: satisfies_flat)

fun is_flat :: "value_schema \<Rightarrow> bool" where
  "is_flat (SList i l) = False"
| "is_flat (SRecord f) = False"
| "is_flat (SUnion d v) = False"
| "is_flat s = True"

lemma satisfies_flat_trans:
  assumes "is_flat c" "satisfies a b" "satisfies b c"
  shows "satisfies a c"
proof (cases "is_json c")
  case True
  then show ?thesis by (rule satisfies_to_json)
next
  case False
  then have "is_flat b" using assms(1,3) by (cases b; cases c) (simp_all add: satisfies_flat)
  with False assms show ?thesis
    by (cases c; cases b; simp add: satisfies_flat; cases a)
       (auto simp: satisfies_flat range_is_within_def length_is_within_def)
qed

lemma satisfies_trans:
  "all_required c \<Longrightarrow> satisfies a b \<Longrightarrow> satisfies b c \<Longrightarrow> satisfies a c"
proof (induction c arbitrary: a b rule: all_required.induct)
  case (1 i l)
  then obtain j k where b: "b = SList j k" using satisfies_list_shape by blast
  with 1 obtain h m where "a = SList h m" using satisfies_list_shape by blast
  with 1 b show ?case by (auto simp: length_is_within_def)
next
  case (2 e)
  then obtain f where b: "b = SRecord f" using satisfies_record_shape by blast
  with 2 obtain g where a: "a = SRecord g" using satisfies_record_shape by blast
  have "field_ok (\<lambda>x. satisfies (field_schema x) (field_schema ef)) (map_of g n) ef"
    if "(n, ef) \<in> set e" for n ef
  proof -
    from that "2.prems" have req: "field_required ef" "all_required (field_schema ef)" by auto
    with that "2.prems"(3) b obtain y where y: "map_of f n = Some y" "field_required y"
      "satisfies (field_schema y) (field_schema ef)"
      by (fastforce simp: field_ok_def split: option.splits)
    from y(1) have "(n, y) \<in> set f" by (rule map_of_SomeD)
    with "2.prems"(2) a b have "field_ok (\<lambda>x. satisfies (field_schema x) (field_schema y)) (map_of g n) y"
      by auto
    with y(2) obtain z where z: "map_of g n = Some z" "field_required z"
      "satisfies (field_schema z) (field_schema y)"
      by (auto simp: field_ok_def split: option.splits)
    have "satisfies (field_schema z) (field_schema ef)"
      by (rule "2.IH" [OF that refl req(2) z(3) y(3)])
    with z show ?thesis by (simp add: field_ok_def)
  qed
  then show ?case using a by auto
next
  case (3 d v)
  then obtain d' w where b: "b = SUnion d' w" using satisfies_union_shape by blast
  with 3 obtain d'' u where a: "a = SUnion d'' u" using satisfies_union_shape by blast
  have "\<exists>z. map_of v n = Some z \<and> satisfies x z" if "(n, x) \<in> set u" for n x
  proof -
    from that "3.prems"(2) a b obtain y where y: "map_of w n = Some y" "satisfies x y" by fastforce
    from y(1) have "(n, y) \<in> set w" by (rule map_of_SomeD)
    with "3.prems"(3) b obtain z where z: "map_of v n = Some z" "satisfies y z" by auto
    from z(1) have mem: "(n, z) \<in> set v" by (rule map_of_SomeD)
    with "3.prems"(1) have "all_required z" by auto
    then have "satisfies x z" by (rule "3.IH" [OF mem refl _ y(2) z(2)])
    with z show ?thesis by blast
  qed
  then show ?case using a b "3.prems"(2,3) by auto
qed (auto intro: satisfies_flat_trans)

section \<open>Properties\<close>

text \<open>Compatibility is a preorder on the schemas a consumer requires in full: every
  schema satisfies itself, and where the requirement has no optional field, a value that
  may stand in for a value that may stand in for the requirement may itself stand in for
  it. So a chain of accepted edges is as good as the single edge it replaces.\<close>

theorem check_satisfies_preorder:
  "(schema_wf s \<longrightarrow> check_satisfies s s = Ok ()) \<and>
   (all_required c \<and> check_satisfies a b = Ok () \<and> check_satisfies b c = Ok () \<longrightarrow>
      check_satisfies a c = Ok ())"
  using satisfies_refl satisfies_trans unfolding satisfies_def by blast

theorem check_satisfies_preorder_witness:
  "check_satisfies (SRecord [(''a'', Field SBool True), (''b'', Field SUnit True)])
                   (SRecord [(''a'', Field (SJson ''any'') True)]) = Ok ()"
proof -
  let ?a = "SRecord [(''a'', Field SBool True), (''b'', Field SUnit True)]"
  let ?b = "SRecord [(''a'', Field SBool True)]"
  let ?c = "SRecord [(''a'', Field (SJson ''any'') True)]"
  have "satisfies ?a ?b" and "satisfies ?b ?c"
    by (simp_all add: field_ok_def satisfies_flat)
  moreover have "all_required ?c" by simp
  ultimately show ?thesis
    using check_satisfies_preorder [of ?a ?c ?a ?b] by (simp add: satisfies_def)
qed

text \<open>With optional fields the chain breaks: a record whose field the middle schema
  does not mention is accepted at each of two hops although the final consumer, which
  declares the field optional with another type, refuses it when asked directly.\<close>

theorem check_satisfies_not_transitive:
  "\<exists>a b c. schema_wf a \<and> schema_wf b \<and> schema_wf c \<and>
     check_satisfies a b = Ok () \<and> check_satisfies b c = Ok () \<and>
     check_satisfies a c = Err (Kind ''x'' ''unit'' ''bool'')"
proof (intro exI conjI)
  let ?a = "SRecord [(''x'', Field SBool True)]"
  let ?c = "SRecord [(''x'', Field SUnit False)]"
  show "schema_wf ?a" "schema_wf (SRecord [])" "schema_wf ?c" by (simp_all add: bt_wf_def)
  have "satisfies ?a (SRecord [])" "satisfies (SRecord []) ?c" by (simp_all add: field_ok_def)
  then show "check_satisfies ?a (SRecord []) = Ok ()" "check_satisfies (SRecord []) ?c = Ok ()"
    by (simp_all add: satisfies_def)
  show "check_satisfies ?a ?c = Err (Kind ''x'' ''unit'' ''bool'')"
    by (simp add: check_satisfies_def check_at.simps Let_def join_def display_path_def)
qed

end
