(* ===== verification/Trust.thy ===== *)
theory Trust
  imports Value_Schema
begin

text \<open>
  Trust classes (\<open>crates/ir/src/trust.rs\<close>), the verdicts they are read from
  (\<open>correctness/certificate.rs\<close>) and the ports that carry them (\<open>port.rs\<close>). The rule of
  the module is that trust never strengthens by assertion: a class is what a record
  justifies, and every combination of values is at most as strong as each of them.
  \<open>VerificationRecord::admit\<close>, which resolves a certificate, is in theory \<open>Certificate\<close>.
\<close>

section \<open>Verdicts\<close>

datatype checker_verdict = CheckerAccepted | CheckerConditional | CheckerRejected

datatype assurance_verdict =
    VerdictUnverified | VerdictAccepted | VerdictConditional | VerdictRejected

fun verdict_str :: "assurance_verdict \<Rightarrow> string" where
  "verdict_str VerdictUnverified = ''unverified''"
| "verdict_str VerdictAccepted = ''accepted''"
| "verdict_str VerdictConditional = ''conditional''"
| "verdict_str VerdictRejected = ''rejected''"

fun checker_verdict_of :: "assurance_verdict \<Rightarrow> checker_verdict option" where
  "checker_verdict_of VerdictUnverified = None"
| "checker_verdict_of VerdictAccepted = Some CheckerAccepted"
| "checker_verdict_of VerdictConditional = Some CheckerConditional"
| "checker_verdict_of VerdictRejected = Some CheckerRejected"

fun from_checker_verdict :: "checker_verdict \<Rightarrow> assurance_verdict" where
  "from_checker_verdict CheckerAccepted = VerdictAccepted"
| "from_checker_verdict CheckerConditional = VerdictConditional"
| "from_checker_verdict CheckerRejected = VerdictRejected"

lemma checker_verdict_roundtrip: "checker_verdict_of (from_checker_verdict v) = Some v"
  by (cases v) auto

section \<open>Records and classes\<close>

datatype provenance = ProvenanceComplete | ProvenanceLost

record verification_record =
  record_contract :: string
  record_certificate :: digest
  record_verdict :: assurance_verdict
  record_residual_count :: u32
  record_provenance :: provenance

datatype trust_class =
    Unverified
  | Conditional (trust_record: verification_record)
  | Verified (trust_record: verification_record)

definition justifies :: "verification_record \<Rightarrow> trust_class" where
  "justifies r =
     (case record_verdict r of
        VerdictAccepted \<Rightarrow>
          if record_residual_count r = 0 \<and> record_provenance r = ProvenanceComplete
          then Verified r else Conditional r
      | VerdictConditional \<Rightarrow> Conditional r
      | VerdictRejected \<Rightarrow> Unverified
      | VerdictUnverified \<Rightarrow> Unverified)"

definition from_record :: "verification_record \<Rightarrow> trust_class" where
  "from_record r = justifies r"

fun weakened :: "trust_class \<Rightarrow> trust_class" where
  "weakened Unverified = Unverified"
| "weakened (Conditional r) = Unverified"
| "weakened (Verified r) = Conditional r"

fun level_name :: "trust_class \<Rightarrow> string" where
  "level_name Unverified = ''unverified''"
| "level_name (Conditional r) = ''conditional''"
| "level_name (Verified r) = ''verified''"

fun level :: "trust_class \<Rightarrow> u8" where
  "level Unverified = 0"
| "level (Conditional r) = 1"
| "level (Verified r) = 2"

fun class_contract :: "trust_class \<Rightarrow> string option" where
  "class_contract Unverified = None"
| "class_contract (Conditional r) = Some (record_contract r)"
| "class_contract (Verified r) = Some (record_contract r)"

definition trust_meet :: "trust_class \<Rightarrow> trust_class \<Rightarrow> trust_class" where
  "trust_meet self other =
     (case (class_contract self, class_contract other) of
        (Some left, Some right) \<Rightarrow>
          if left = right then (if level self \<le> level other then self else other)
          else Unverified
      | _ \<Rightarrow> Unverified)"

definition meet_all :: "trust_class list \<Rightarrow> trust_class" where
  "meet_all values =
     (case values of [] \<Rightarrow> Unverified
      | class # rest \<Rightarrow> foldl trust_meet class rest)"

record provenance_loss =
  loss_reason :: string
  lost_class :: string

definition after_opaque_hop :: "trust_class \<Rightarrow> string \<Rightarrow> trust_class \<times> provenance_loss" where
  "after_opaque_hop self reason =
     (Unverified, \<lparr>loss_reason = reason, lost_class = level_name self\<rparr>)"

section \<open>Levels and requirements\<close>

datatype trust_level = LevelUnverified | LevelConditional | LevelVerified

fun trust_level_rank :: "trust_level \<Rightarrow> nat" where
  "trust_level_rank LevelUnverified = 0"
| "trust_level_rank LevelConditional = 1"
| "trust_level_rank LevelVerified = 2"

lemma trust_level_rank_inj: "trust_level_rank a = trust_level_rank b \<Longrightarrow> a = b"
  by (cases a; cases b) auto

instantiation trust_level :: linorder
begin

definition less_eq_trust_level :: "trust_level \<Rightarrow> trust_level \<Rightarrow> bool" where
  "less_eq_trust_level a b = (trust_level_rank a \<le> trust_level_rank b)"

definition less_trust_level :: "trust_level \<Rightarrow> trust_level \<Rightarrow> bool" where
  "less_trust_level a b = (trust_level_rank a < trust_level_rank b)"

instance
  by standard (auto simp: less_eq_trust_level_def less_trust_level_def intro: trust_level_rank_inj)

end

fun level_of :: "trust_class \<Rightarrow> trust_level" where
  "level_of Unverified = LevelUnverified"
| "level_of (Conditional r) = LevelConditional"
| "level_of (Verified r) = LevelVerified"

fun trust_level_str :: "trust_level \<Rightarrow> string" where
  "trust_level_str LevelUnverified = ''unverified''"
| "trust_level_str LevelConditional = ''conditional''"
| "trust_level_str LevelVerified = ''verified''"

record trust_requirement =
  requirement_minimum :: trust_level
  requirement_contract :: "ident option"

definition requirement_none :: trust_requirement where
  "requirement_none = \<lparr>requirement_minimum = LevelUnverified, requirement_contract = None\<rparr>"

definition at_least :: "trust_level \<Rightarrow> ident \<Rightarrow> trust_requirement" where
  "at_least m c = \<lparr>requirement_minimum = m, requirement_contract = Some c\<rparr>"

definition is_satisfied_by :: "trust_requirement \<Rightarrow> trust_class \<Rightarrow> bool" where
  "is_satisfied_by self class =
     (if level_of class < requirement_minimum self then False
      else case (requirement_contract self, class_contract class) of
             (None, _) \<Rightarrow> True
           | (Some required, Some established) \<Rightarrow> as_str required = established
           | (Some required, None) \<Rightarrow> False)"

record input_port =
  input_id :: ident
  input_schema :: value_schema
  input_requires :: trust_requirement

definition input_port_new :: "ident \<Rightarrow> value_schema \<Rightarrow> input_port" where
  "input_port_new i s = \<lparr>input_id = i, input_schema = s, input_requires = requirement_none\<rparr>"

definition guarded :: "ident \<Rightarrow> value_schema \<Rightarrow> trust_requirement \<Rightarrow> input_port" where
  "guarded i s req = \<lparr>input_id = i, input_schema = s, input_requires = req\<rparr>"

record output_port =
  output_id :: ident
  output_schema :: value_schema
  produces :: trust_class

definition output_port_new :: "ident \<Rightarrow> value_schema \<Rightarrow> output_port" where
  "output_port_new i s = \<lparr>output_id = i, output_schema = s, produces = Unverified\<rparr>"

definition established :: "ident \<Rightarrow> value_schema \<Rightarrow> verification_record \<Rightarrow> output_port" where
  "established i s r = \<lparr>output_id = i, output_schema = s, produces = from_record r\<rparr>"

section \<open>The order of trust\<close>

text \<open>\<open>a\<close> is at most as strong as \<open>b\<close> when every requirement \<open>a\<close> satisfies, \<open>b\<close>
  satisfies too. It is the order the consumers see.\<close>

definition no_stronger :: "trust_class \<Rightarrow> trust_class \<Rightarrow> bool" where
  "no_stronger a b = (level a \<le> level b \<and> (a = Unverified \<or> class_contract a = class_contract b))"

lemma u8_two_le_one [simp]: "\<not> (2 :: u8) \<le> 1"
  by (simp add: word_le_nat_alt)

lemma level_eq_0_iff [simp]: "level c = 0 \<longleftrightarrow> c = Unverified"
  by (cases c) simp_all

lemma class_contract_eq_None [simp]: "class_contract c = None \<longleftrightarrow> c = Unverified"
  by (cases c) simp_all

lemma level_of_le_iff: "level_of a \<le> level_of b \<longleftrightarrow> level a \<le> level b"
  by (cases a; cases b) (simp_all add: less_eq_trust_level_def)

lemma no_stronger_refl [simp]: "no_stronger a a"
  by (simp add: no_stronger_def)

lemma no_stronger_Unverified [simp]: "no_stronger Unverified b"
  by (simp add: no_stronger_def)

lemma no_stronger_trans: "no_stronger a b \<Longrightarrow> no_stronger b c \<Longrightarrow> no_stronger a c"
  by (cases a; cases b; cases c) (simp_all add: no_stronger_def)

lemma trust_meet_left: "no_stronger (trust_meet a b) a"
  by (auto simp: trust_meet_def no_stronger_def split: option.splits)

lemma trust_meet_right: "no_stronger (trust_meet a b) b"
  by (auto simp: trust_meet_def no_stronger_def split: option.splits)

lemma weakened_no_stronger: "no_stronger (weakened a) a"
  by (cases a) (simp_all add: no_stronger_def)

text \<open>The contract every combination of assurances keeps, with the consequence for the
  combination of a whole list.\<close>

locale weakening_combination =
  fixes weaker :: "'a \<Rightarrow> 'a \<Rightarrow> bool"
    and combine :: "'a \<Rightarrow> 'a \<Rightarrow> 'a"
  assumes weaker_refl: "weaker a a"
    and weaker_trans: "weaker a b \<Longrightarrow> weaker b c \<Longrightarrow> weaker a c"
    and combine_left: "weaker (combine a b) a"
    and combine_right: "weaker (combine a b) b"
begin

lemma foldl_weaker_init: "weaker (foldl combine a xs) a"
proof (induction xs arbitrary: a)
  case Nil
  then show ?case by (simp add: weaker_refl)
next
  case (Cons x xs)
  have "weaker (foldl combine (combine a x) xs) (combine a x)" by (rule Cons.IH)
  then show ?case using weaker_trans combine_left by auto
qed

lemma foldl_weaker_member: "x \<in> set xs \<Longrightarrow> weaker (foldl combine a xs) x"
proof (induction xs arbitrary: a)
  case Nil
  then show ?case by simp
next
  case (Cons y xs)
  then consider "x = y" | "x \<in> set xs" by auto
  then show ?case
  proof cases
    case 1
    have "weaker (foldl combine (combine a y) xs) (combine a y)" by (rule foldl_weaker_init)
    then show ?thesis using 1 weaker_trans combine_right by auto
  next
    case 2
    then show ?thesis using Cons.IH by simp
  qed
qed

end

interpretation trust: weakening_combination no_stronger trust_meet
proof unfold_locales
  fix a b c
  show "no_stronger a a" by simp
  show "no_stronger a b \<Longrightarrow> no_stronger b c \<Longrightarrow> no_stronger a c" by (rule no_stronger_trans)
  show "no_stronger (trust_meet a b) a" by (rule trust_meet_left)
  show "no_stronger (trust_meet a b) b" by (rule trust_meet_right)
qed

lemma meet_all_no_stronger: "c \<in> set cs \<Longrightarrow> no_stronger (meet_all cs) c"
  by (cases cs) (auto simp: meet_all_def trust.foldl_weaker_init trust.foldl_weaker_member)

lemma is_satisfied_by_mono:
  assumes "is_satisfied_by req a" "no_stronger a b"
  shows "is_satisfied_by req b"
proof -
  have "requirement_minimum req \<le> level_of b"
    using assms level_of_le_iff [of a b]
    by (auto simp: is_satisfied_by_def no_stronger_def split: if_splits)
  moreover have "requirement_contract req = None \<or> class_contract a = class_contract b"
    using assms by (auto simp: is_satisfied_by_def no_stronger_def split: if_splits option.splits)
  ultimately show ?thesis
    using assms(1) by (auto simp: is_satisfied_by_def split: if_splits option.splits)
qed

text \<open>The order is exactly the one requirements can observe, on classes whose contracts are
  identifiers.\<close>

lemma no_stronger_iff_requirements:
  "no_stronger a b \<longleftrightarrow> (\<forall>req. is_satisfied_by req a \<longrightarrow> is_satisfied_by req b)"
proof
  assume "no_stronger a b"
  then show "\<forall>req. is_satisfied_by req a \<longrightarrow> is_satisfied_by req b"
    using is_satisfied_by_mono by blast
next
  assume all: "\<forall>req. is_satisfied_by req a \<longrightarrow> is_satisfied_by req b"
  have "level_of a \<le> level_of b"
    using all [rule_format, of "\<lparr>requirement_minimum = level_of a, requirement_contract = None\<rparr>"]
    by (simp add: is_satisfied_by_def split: if_splits)
  moreover have "a = Unverified \<or> class_contract a = class_contract b"
  proof (cases "class_contract a")
    case None
    then show ?thesis by simp
  next
    case (Some c)
    then have "is_satisfied_by (at_least LevelUnverified (Identifier c)) a"
      by (simp add: is_satisfied_by_def at_least_def less_trust_level_def)
    then have "is_satisfied_by (at_least LevelUnverified (Identifier c)) b" using all by blast
    then show ?thesis
      using Some by (simp add: is_satisfied_by_def at_least_def split: if_splits option.splits)
  qed
  ultimately show "no_stronger a b" by (simp add: no_stronger_def level_of_le_iff)
qed

lemma from_record_Verified_iff:
  "from_record r = Verified s \<longleftrightarrow>
     s = r \<and> record_verdict r = VerdictAccepted \<and> record_residual_count r = 0 \<and>
     record_provenance r = ProvenanceComplete"
  by (auto simp: from_record_def justifies_def split: assurance_verdict.splits if_splits)

text \<open>Combining values never strengthens trust: whatever a consumer requires, if the
  combination of a list of values satisfies it then every one of the combined values
  satisfies it on its own, so no caller can launder an unverified value by mixing it with
  a verified one; and a combination that is verified under a contract consists of values
  verified under that same contract.\<close>

theorem meet_all_never_strengthens:
  "(is_satisfied_by req (meet_all cs) \<longrightarrow> c \<in> set cs \<longrightarrow> is_satisfied_by req c) \<and>
   (meet_all cs = Verified r \<longrightarrow> c \<in> set cs \<longrightarrow> (\<exists>s. c = Verified s \<and> record_contract s = record_contract r))"
proof (intro conjI impI)
  assume "is_satisfied_by req (meet_all cs)" "c \<in> set cs"
  then show "is_satisfied_by req c" using meet_all_no_stronger is_satisfied_by_mono by blast
next
  assume "meet_all cs = Verified r" "c \<in> set cs"
  then have "no_stronger (Verified r) c" using meet_all_no_stronger by metis
  then show "\<exists>s. c = Verified s \<and> record_contract s = record_contract r"
    by (cases c) (simp_all add: no_stronger_def)
qed

text \<open>A witness: two values verified under one contract, of which one lost its provenance.\<close>

theorem meet_all_never_strengthens_witness:
  "let full = \<lparr>record_contract = ''c'', record_certificate = Digest [], record_verdict = VerdictAccepted,
               record_residual_count = 0, record_provenance = ProvenanceComplete\<rparr>;
       lost = full \<lparr>record_provenance := ProvenanceLost\<rparr>;
       cs = [from_record full, from_record lost];
       req = at_least LevelConditional (Identifier ''c'')
   in is_satisfied_by req (meet_all cs) \<and> is_satisfied_by req (from_record lost) \<and>
      meet_all [from_record full, from_record full] = Verified full"
proof -
  let ?full = "\<lparr>record_contract = ''c'', record_certificate = Digest [], record_verdict = VerdictAccepted,
               record_residual_count = 0, record_provenance = ProvenanceComplete\<rparr>"
  let ?lost = "?full \<lparr>record_provenance := ProvenanceLost\<rparr>"
  let ?cs = "[from_record ?full, from_record ?lost]"
  let ?req = "at_least LevelConditional (Identifier ''c'')"
  have sat: "is_satisfied_by ?req (meet_all ?cs)"
    by (simp add: is_satisfied_by_def meet_all_def trust_meet_def from_record_def justifies_def
        at_least_def less_trust_level_def)
  have "is_satisfied_by ?req (from_record ?lost)"
    using meet_all_never_strengthens [of ?req ?cs "from_record ?lost"] sat by simp
  moreover have "meet_all [from_record ?full, from_record ?full] = Verified ?full"
    by (simp add: meet_all_def trust_meet_def from_record_def justifies_def)
  ultimately show ?thesis using sat by (simp add: Let_def)
qed

end
