(* ===== verification/Node_Region.thy ===== *)
theory Node_Region
  imports Capability_Effect Trust
begin

text \<open>
  Nodes and what each kind of node may declare (\<open>crates/ir/src/node.rs\<close>), loop
  declarations with their budgets, invariants and repair routes (\<open>loop_region.rs\<close>), and
  the nested regions that hold them (\<open>region.rs\<close>).
\<close>

section \<open>Loop declarations\<close>

datatype loop_error =
    UnboundedBudget ident string
  | InvariantWithoutEvaluator ident ident
  | NodeOutsideLoop ident ident string
  | ContinuationNotBoolean ident ident ident
  | ProgressNotOrdered ident ident ident
  | DuplicateRoute ident string
  | RetryWithoutAttempts ident string

datatype budget_kind = Iterations | WallTime | Tokens | Cost | Effects

fun budget_kind_str :: "budget_kind \<Rightarrow> string" where
  "budget_kind_str Iterations = ''iterations''"
| "budget_kind_str WallTime = ''wall time''"
| "budget_kind_str Tokens = ''tokens''"
| "budget_kind_str Cost = ''cost''"
| "budget_kind_str Effects = ''effects''"

record loop_budget =
  max_iterations :: u32
  loop_wall_ms :: u64
  loop_tokens :: u64
  loop_cost_micro_units :: u64
  loop_effect_count :: u32

definition loop_budget_check :: "loop_budget \<Rightarrow> ident \<Rightarrow> (loop_error, unit) result" where
  "loop_budget_check b region =
     (if max_iterations b = 0 then Err (UnboundedBudget region ''iterations'')
      else if loop_wall_ms b = 0 then Err (UnboundedBudget region ''wall time'')
      else Ok ())"

datatype invariant_timing = BeforeIteration | AfterIteration | Both

record loop_invariant =
  invariant_id :: ident
  invariant_description :: string
  invariant_evaluator :: ident
  invariant_port :: ident
  invariant_timing :: invariant_timing

datatype progress_direction = StrictlyDecreasing | StrictlyIncreasing

record progress_measure =
  progress_id :: ident
  measured_by :: ident
  progress_port :: ident
  progress_direction :: progress_direction

datatype failure_kind =
    MissingEvidence | StaleReference | SchemaMismatchFailure | ArithmeticMismatch | VerifierUnavailable
  | PolicyDenial | BudgetExhaustion | NonProgress | UnsafeEffect | InterpretationResidual

fun failure_kind_str :: "failure_kind \<Rightarrow> string" where
  "failure_kind_str MissingEvidence = ''missing_evidence''"
| "failure_kind_str StaleReference = ''stale_reference''"
| "failure_kind_str SchemaMismatchFailure = ''schema_mismatch''"
| "failure_kind_str ArithmeticMismatch = ''arithmetic_mismatch''"
| "failure_kind_str VerifierUnavailable = ''verifier_unavailable''"
| "failure_kind_str PolicyDenial = ''policy_denial''"
| "failure_kind_str BudgetExhaustion = ''budget_exhaustion''"
| "failure_kind_str NonProgress = ''non_progress''"
| "failure_kind_str UnsafeEffect = ''unsafe_effect''"
| "failure_kind_str InterpretationResidual = ''interpretation_residual''"

datatype route =
    RouteRetry ident u32
  | RouteRepair ident
  | RouteEscalate ident
  | RouteReject

record repair_route =
  repair_failure :: failure_kind
  repair_route :: route

datatype stop_reason =
    ConditionFalse
  | BudgetExhausted budget_kind
  | InvariantFailed ident
  | StopNonProgress ident
  | RepairExhausted failure_kind
  | EscalationRequired ident
  | StopCancelled ident

fun is_completion :: "stop_reason \<Rightarrow> bool" where
  "is_completion ConditionFalse = True"
| "is_completion r = False"

fun stop_reason_str :: "stop_reason \<Rightarrow> string" where
  "stop_reason_str ConditionFalse = ''condition_false''"
| "stop_reason_str (BudgetExhausted b) = ''budget_exhausted''"
| "stop_reason_str (InvariantFailed i) = ''invariant_failed''"
| "stop_reason_str (StopNonProgress m) = ''non_progress''"
| "stop_reason_str (RepairExhausted f) = ''repair_exhausted''"
| "stop_reason_str (EscalationRequired t) = ''escalation_required''"
| "stop_reason_str (StopCancelled b) = ''cancelled''"

record continuation =
  evaluated_by :: ident
  continuation_port :: ident

record loop_spec =
  loop_state_schema :: "(string, value_schema) btree_map"
  loop_exit_schema :: "(string, value_schema) btree_map"
  loop_continuation :: continuation
  loop_budget :: loop_budget
  loop_invariants :: "loop_invariant list"
  loop_progress :: "progress_measure option"
  loop_repairs :: "repair_route list"

text \<open>The two loops of \<open>LoopSpec::check\<close>; the second one threads the list of failure kinds
  it has seen.\<close>

definition check_repair :: "ident \<Rightarrow> failure_kind list \<Rightarrow> repair_route \<Rightarrow> (loop_error, failure_kind list) result" where
  "check_repair region seen repair =
     (if repair_failure repair \<in> set seen
      then Err (DuplicateRoute region (failure_kind_str (repair_failure repair)))
      else let seen = seen @ [repair_failure repair] in
           case repair_route repair of
             RouteRetry n attempts \<Rightarrow>
               if attempts = 0
               then Err (RetryWithoutAttempts region (failure_kind_str (repair_failure repair)))
               else Ok seen
           | _ \<Rightarrow> Ok seen)"

definition loop_spec_check :: "loop_spec \<Rightarrow> ident \<Rightarrow> (loop_error, unit) result" where
  "loop_spec_check spec region =
     and_then (loop_budget_check (loop_budget spec) region) (\<lambda>_.
     and_then (try_for_each (\<lambda>i. if as_str (invariant_evaluator i) = []
                                then Err (InvariantWithoutEvaluator region (invariant_id i))
                                else Ok ()) (loop_invariants spec)) (\<lambda>_.
     and_then (try_fold (check_repair region) [] (loop_repairs spec)) (\<lambda>_. Ok ())))"

definition route_for :: "loop_spec \<Rightarrow> failure_kind \<Rightarrow> route option" where
  "route_for spec failure =
     map_option repair_route (find (\<lambda>r. repair_failure r = failure) (loop_repairs spec))"

record invariant_outcome =
  outcome_invariant :: ident
  outcome_held :: bool
  outcome_timing :: invariant_timing

record iteration_record =
  iteration_index :: u32
  iteration_state_in :: digest
  iteration_state_out :: digest
  iteration_invariants :: "invariant_outcome list"
  iteration_progress :: "i128 option"
  iteration_spent :: loop_budget

record loop_outcome =
  outcome_region :: ident
  outcome_iterations :: "iteration_record list"
  outcome_stopped :: stop_reason

definition loop_completed :: "loop_outcome \<Rightarrow> bool" where
  "loop_completed outcome = is_completion (outcome_stopped outcome)"

section \<open>Nodes\<close>

datatype node_kind =
    PureComputation | Proposer | Verifier | EffectNode | HumanGate | MemoryRead | MemoryWrite
  | SubWorkflow | RegionEntry | RegionExit

fun node_kind_str :: "node_kind \<Rightarrow> string" where
  "node_kind_str PureComputation = ''pure computation''"
| "node_kind_str Proposer = ''proposer''"
| "node_kind_str Verifier = ''verifier''"
| "node_kind_str EffectNode = ''effect node''"
| "node_kind_str HumanGate = ''human gate''"
| "node_kind_str MemoryRead = ''memory read''"
| "node_kind_str MemoryWrite = ''memory write''"
| "node_kind_str SubWorkflow = ''sub-workflow''"
| "node_kind_str RegionEntry = ''region entry''"
| "node_kind_str RegionExit = ''region exit''"

fun may_hold :: "node_kind \<Rightarrow> grant \<Rightarrow> bool" where
  "may_hold k (ModelProvider p ms) = (k = Proposer)"
| "may_hold k (Tool t) = (k \<in> {Proposer, EffectNode})"
| "may_hold k (ContainerImage i d) = (k \<in> {Proposer, Verifier, EffectNode})"
| "may_hold k (VerifierGrant i v) = (k = Verifier)"
| "may_hold k (Network hs) = (k \<in> {Proposer, Verifier, EffectNode})"
| "may_hold k (Filesystem ps w) = (k \<in> {Proposer, Verifier, EffectNode})"
| "may_hold k (Secret ns) = (k \<in> {Proposer, EffectNode})"
| "may_hold k (MemorySpace s w) = (k \<in> {MemoryRead, MemoryWrite})"
| "may_hold k (DataResidency rs) = True"

fun may_perform :: "node_kind \<Rightarrow> effect_kind \<Rightarrow> bool" where
  "may_perform EffectNode e = True"
| "may_perform MemoryWrite e = (e = EffMemoryWrite)"
| "may_perform Proposer e = (e \<in> {EffNetwork, EffFilesystem, EffSecretAccess})"
| "may_perform Verifier e = (e \<in> {EffNetwork, EffFilesystem, EffSecretAccess})"
| "may_perform k e = False"

fun permits_any_effect :: "node_kind \<Rightarrow> bool" where
  "permits_any_effect k = (k \<in> {EffectNode, MemoryWrite, Proposer, Verifier})"

fun requires_effect :: "node_kind \<Rightarrow> bool" where
  "requires_effect k = (k \<in> {EffectNode, MemoryWrite})"

record resource_budget =
  wall_ms :: u64
  tokens :: u64
  cost_micro_units :: u64
  effect_count :: u32

definition deterministic :: "u64 \<Rightarrow> resource_budget" where
  "deterministic wall = \<lparr>wall_ms = wall, tokens = 0, cost_micro_units = 0, effect_count = 0\<rparr>"

definition is_within :: "resource_budget \<Rightarrow> resource_budget \<Rightarrow> bool" where
  "is_within b parent =
     (wall_ms b \<le> wall_ms parent \<and> tokens b \<le> tokens parent \<and>
      cost_micro_units b \<le> cost_micro_units parent \<and> effect_count b \<le> effect_count parent)"

record provider_binding =
  provider_capability :: ident
  provider_selection :: string

record node =
  node_id :: ident
  node_name :: string
  node_kind :: node_kind
  node_inputs :: "input_port list"
  node_outputs :: "output_port list"
  node_capabilities :: "ident list"
  node_effects :: "effect list"
  node_budget :: resource_budget
  node_provider :: "provider_binding option"
  node_sub_workflow :: "ident option"

datatype node_error =
    EffectNotAllowed ident string
  | EffectRequired ident string
  | EffectKindNotAllowed ident string string
  | MissingSubWorkflow ident
  | EmptyBudget ident string
  | NodeCapability capability_error
  | NodeEffect effect_error

text \<open>\<open>Node::check\<close> in the order of the source: the capabilities, the provider, the effect
  a kind requires, each effect, the sub-workflow and the budgets.\<close>

definition check_node_capability :: "node \<Rightarrow> capability_set \<Rightarrow> ident \<Rightarrow> (node_error, unit) result" where
  "check_node_capability n granted capability =
     (case grant_of granted capability of
        None \<Rightarrow> Err (NodeCapability (NotGranted (node_id n) capability))
      | Some g \<Rightarrow>
          if \<not> may_hold (node_kind n) g
          then Err (NodeCapability (NotPermittedForKind (node_id n) (node_kind_str (node_kind n)) capability
                      (grant_kind_name g)))
          else Ok ())"

definition check_node_provider :: "node \<Rightarrow> (node_error, unit) result" where
  "check_node_provider n =
     (case node_provider n of
        Some p \<Rightarrow> if provider_capability p \<notin> set (node_capabilities n)
                  then Err (NodeCapability (NotGranted (node_id n) (provider_capability p)))
                  else Ok ()
      | None \<Rightarrow> Ok ())"

definition check_node_effect :: "node \<Rightarrow> ident list \<Rightarrow> effect \<Rightarrow> (node_error, ident list) result" where
  "check_node_effect n seen e =
     and_then (map_err NodeEffect (effect_check e)) (\<lambda>_.
       if effect_id e \<in> set seen then Err (NodeEffect (EffectDuplicate (node_id n) (effect_id e)))
       else if \<not> may_perform (node_kind n) (effect_kind e)
       then Err (if permits_any_effect (node_kind n)
                 then EffectKindNotAllowed (node_id n) (node_kind_str (node_kind n))
                        (effect_kind_str (effect_kind e))
                 else EffectNotAllowed (node_id n) (node_kind_str (node_kind n)))
       else if effect_capability e \<notin> set (node_capabilities n)
       then Err (NodeEffect (Undeclared (node_id n) (effect_id e)))
       else Ok (seen @ [effect_id e]))"

definition node_check :: "node \<Rightarrow> capability_set \<Rightarrow> (node_error, unit) result" where
  "node_check n granted =
     and_then (try_for_each (check_node_capability n granted) (node_capabilities n)) (\<lambda>_.
     and_then (check_node_provider n) (\<lambda>_.
       if requires_effect (node_kind n) \<and> node_effects n = []
       then Err (EffectRequired (node_id n) (node_kind_str (node_kind n)))
       else
         and_then (try_fold (check_node_effect n) [] (node_effects n)) (\<lambda>_.
           if node_kind n = SubWorkflow \<and> node_sub_workflow n = None
           then Err (MissingSubWorkflow (node_id n))
           else if node_effects n \<noteq> [] \<and> effect_count (node_budget n) = 0
           then Err (EmptyBudget (node_id n) ''effects'')
           else if node_kind n = Proposer \<and> tokens (node_budget n) = 0
           then Err (EmptyBudget (node_id n) ''tokens'')
           else Ok ())))"

section \<open>Regions\<close>

datatype region_error =
    RegionUnknownNode ident ident
  | WrongBoundaryKind ident ident string string
  | BoundaryOutsideRegion ident ident string
  | UnknownParent ident ident
  | OverlappingMembership ident ident ident
  | BudgetWidensParent ident
  | CyclicNesting ident
  | RegionCapability ident capability_error
  | RegionLoop loop_error

datatype region_kind = Plain | Loop loop_spec

fun permits_cycles :: "region_kind \<Rightarrow> bool" where
  "permits_cycles Plain = False"
| "permits_cycles (Loop spec) = True"

record region =
  region_id :: ident
  region_kind :: region_kind
  region_parent :: "ident option"
  region_entry :: ident
  region_exit :: ident
  region_nodes :: "ident btree_set"
  region_capabilities :: capability_set
  region_budget :: resource_budget

definition region_contains :: "region \<Rightarrow> ident \<Rightarrow> bool" where
  "region_contains r n = (n \<in> set (region_nodes r))"

definition check_against_parent :: "region \<Rightarrow> capability_set \<Rightarrow> resource_budget \<Rightarrow> (region_error, unit) result" where
  "check_against_parent r parent_capabilities parent_budget =
     and_then (map_err (RegionCapability (region_id r))
                 (check_narrows (region_capabilities r) parent_capabilities)) (\<lambda>_.
       if \<not> is_within (region_budget r) parent_budget then Err (BudgetWidensParent (region_id r))
       else Ok ())"

section \<open>What an admitted node is\<close>

lemma is_within_refl [simp]: "is_within b b"
  by (simp add: is_within_def)

lemma is_within_trans: "is_within a b \<Longrightarrow> is_within b c \<Longrightarrow> is_within a c"
  by (auto simp: is_within_def)

text \<open>The loop over the effects succeeds exactly when every effect is well formed, is one
  this kind may perform under a capability the node holds, and no name repeats.\<close>

definition effect_allowed :: "node \<Rightarrow> effect \<Rightarrow> bool" where
  "effect_allowed n e =
     (effect_check e = Ok () \<and> may_perform (node_kind n) (effect_kind e) \<and>
      effect_capability e \<in> set (node_capabilities n))"

lemma check_node_effect_eq_Ok:
  "check_node_effect n seen e = Ok s \<longleftrightarrow>
     effect_allowed n e \<and> effect_id e \<notin> set seen \<and> s = seen @ [effect_id e]"
  by (auto simp: check_node_effect_def effect_allowed_def)

lemma check_node_effects_eq_Ok:
  "try_fold (check_node_effect n) seen es = Ok s \<longleftrightarrow>
     (\<forall>e \<in> set es. effect_allowed n e \<and> effect_id e \<notin> set seen) \<and>
     distinct (map effect_id es) \<and> s = seen @ map effect_id es"
proof (induction es arbitrary: seen)
  case Nil
  then show ?case by auto
next
  case (Cons e es)
  show ?case
  proof (cases "check_node_effect n seen e")
    case (Inl a)
    then have "\<not> (effect_allowed n e \<and> effect_id e \<notin> set seen)"
      using check_node_effect_eq_Ok [of n seen e "seen @ [effect_id e]"] by auto
    then show ?thesis using Inl by auto
  next
    case (Inr t)
    then have "effect_allowed n e \<and> effect_id e \<notin> set seen \<and> t = seen @ [effect_id e]"
      by (simp add: check_node_effect_eq_Ok)
    then show ?thesis using Inr Cons.IH [of t] by (auto simp: image_iff)
  qed
qed

lemma check_node_capability_eq_Ok:
  "check_node_capability n granted c = Ok u \<longleftrightarrow>
     (\<exists>g. grant_of granted c = Some g \<and> may_hold (node_kind n) g)"
  by (auto simp: check_node_capability_def split: option.splits)

text \<open>A node passes its check exactly when it keeps the rules of its kind.\<close>

lemma node_check_eq_Ok:
  "node_check n granted = Ok () \<longleftrightarrow>
     (\<forall>c \<in> set (node_capabilities n). \<exists>g. grant_of granted c = Some g \<and> may_hold (node_kind n) g) \<and>
     (\<forall>p. node_provider n = Some p \<longrightarrow> provider_capability p \<in> set (node_capabilities n)) \<and>
     (requires_effect (node_kind n) \<longrightarrow> node_effects n \<noteq> []) \<and>
     (\<forall>e \<in> set (node_effects n). effect_allowed n e) \<and>
     distinct (map effect_id (node_effects n)) \<and>
     (node_kind n = SubWorkflow \<longrightarrow> node_sub_workflow n \<noteq> None) \<and>
     (node_effects n \<noteq> [] \<longrightarrow> effect_count (node_budget n) \<noteq> 0) \<and>
     (node_kind n = Proposer \<longrightarrow> tokens (node_budget n) \<noteq> 0)"
proof -
  have provider: "check_node_provider n = Ok () \<longleftrightarrow>
      (\<forall>p. node_provider n = Some p \<longrightarrow> provider_capability p \<in> set (node_capabilities n))"
    by (auto simp: check_node_provider_def split: option.splits)
  show ?thesis
    unfolding node_check_def
    by (simp add: try_for_each_eq_Inr check_node_capability_eq_Ok check_node_effects_eq_Ok provider
        del: requires_effect.simps)
qed

text \<open>Models propose, checkers decide: in a node that passes its check only a proposer
  holds a model provider, a verifier identity belongs to a verifier, an effect the outside
  world can notice is declared by an effect or a memory-write node, and every effect spends
  a capability that was granted to this node and that its kind may hold.\<close>

theorem node_check_separates_duties:
  assumes "node_check n granted = Ok ()"
  shows "(\<forall>c \<in> set (node_capabilities n). \<exists>g. grant_of granted c = Some g \<and>
            ((\<exists>p ms. g = ModelProvider p ms) \<longrightarrow> node_kind n = Proposer) \<and>
            ((\<exists>i v. g = VerifierGrant i v) \<longrightarrow> node_kind n = Verifier)) \<and>
         (\<forall>e \<in> set (node_effects n).
            (is_outward_facing (effect_kind e) \<longrightarrow> node_kind n \<in> {EffectNode, MemoryWrite}) \<and>
            (\<exists>g. grant_of granted (effect_capability e) = Some g \<and> may_hold (node_kind n) g))"
proof -
  from assms have caps: "\<forall>c \<in> set (node_capabilities n). \<exists>g. grant_of granted c = Some g \<and> may_hold (node_kind n) g"
    and effs: "\<forall>e \<in> set (node_effects n). effect_allowed n e"
    by (simp_all add: node_check_eq_Ok)
  have outward: "k \<in> {EffectNode, MemoryWrite}" if "may_perform k e" "is_outward_facing e" for k e
    using that by (cases k; cases e) auto
  show ?thesis
  proof (intro conjI ballI)
    fix c assume "c \<in> set (node_capabilities n)"
    then show "\<exists>g. grant_of granted c = Some g \<and>
            ((\<exists>p ms. g = ModelProvider p ms) \<longrightarrow> node_kind n = Proposer) \<and>
            ((\<exists>i v. g = VerifierGrant i v) \<longrightarrow> node_kind n = Verifier)"
      using caps by fastforce
  next
    fix e assume e: "e \<in> set (node_effects n)"
    then show "is_outward_facing (effect_kind e) \<longrightarrow> node_kind n \<in> {EffectNode, MemoryWrite}"
      using effs outward effect_allowed_def by blast
    show "\<exists>g. grant_of granted (effect_capability e) = Some g \<and> may_hold (node_kind n) g"
      using e effs caps by (simp add: effect_allowed_def)
  qed
qed

definition sample_publisher :: node where
  "sample_publisher =
     \<lparr>node_id = Identifier ''publish'', node_name = ''publish'', node_kind = EffectNode,
      node_inputs = [], node_outputs = [], node_capabilities = [Identifier ''net''],
      node_effects = [\<lparr>effect_id = Identifier ''post'', effect_kind = EffPublication, effect_target = ''t'',
         effect_capability = Identifier ''net'', effect_idempotency = NonIdempotent,
         effect_reversibility = Irreversible\<rparr>],
      node_budget = \<lparr>wall_ms = 1, tokens = 0, cost_micro_units = 0, effect_count = 1\<rparr>,
      node_provider = None, node_sub_workflow = None\<rparr>"

theorem node_check_separates_duties_witness:
  "node_check sample_publisher [(Identifier ''net'', Network [])] = Ok () \<and>
   (\<exists>g. grant_of [(Identifier ''net'', Network [])] (Identifier ''net'') = Some g \<and> may_hold EffectNode g)"
proof -
  have ok: "node_check sample_publisher [(Identifier ''net'', Network [])] = Ok ()"
    by (simp add: node_check_eq_Ok sample_publisher_def effect_allowed_def effect_check_def grant_of_def)
  then show ?thesis
    using node_check_separates_duties [OF ok] by (simp add: sample_publisher_def)
qed

end
