(* ===== verification/Graph.thy ===== *)
theory Graph
  imports Node_Region "HOL-Library.Multiset"
begin

text \<open>
  The typed graph (\<open>crates/ir/src/graph.rs\<close>): endpoints, hyperedges with their combination
  and trust derivation, control edges and branches, the keyed construction, the queries the
  runtime asks, and the structural checks on regions, loops, edges and branches. The cycle
  check is in theory \<open>Graph_Cycles\<close>.
\<close>

section \<open>Data\<close>

datatype endpoint =
    Port ident ident
  | GraphInput ident
  | GraphOutput ident

fun endpoint_node :: "endpoint \<Rightarrow> ident option" where
  "endpoint_node (Port n p) = Some n"
| "endpoint_node (GraphInput i) = None"
| "endpoint_node (GraphOutput i) = None"

datatype combine =
    Forward
  | CombineRecord "(string, nat) btree_map"
  | Concat
  | Select string "(string, nat) btree_map"

datatype trust_derivation = Weakest | Established ident ident

record trust_promise =
  promise_level :: trust_level
  promise_contract :: "ident option"

definition promise_satisfies :: "trust_promise \<Rightarrow> trust_requirement \<Rightarrow> bool" where
  "promise_satisfies self requirement =
     (if promise_level self < requirement_minimum requirement then False
      else case (requirement_contract requirement, promise_contract self) of
             (None, _) \<Rightarrow> True
           | (Some required, Some promised) \<Rightarrow> required = promised
           | (Some required, None) \<Rightarrow> False)"

record hyperedge =
  edge_id :: ident
  edge_sources :: "endpoint list"
  edge_targets :: "endpoint list"
  edge_combine :: combine
  edge_trust :: trust_derivation

text \<open>Control edges are kept in a \<open>BTreeSet\<close>, ordered by source and then target.\<close>

datatype control_edge = ControlEdge (control_from: ident) (control_to: ident)

instantiation control_edge :: linorder
begin

definition less_eq_control_edge :: "control_edge \<Rightarrow> control_edge \<Rightarrow> bool" where
  "less_eq_control_edge a b =
     (control_from a < control_from b \<or> control_from a = control_from b \<and> control_to a \<le> control_to b)"

definition less_control_edge :: "control_edge \<Rightarrow> control_edge \<Rightarrow> bool" where
  "less_control_edge a b =
     (control_from a < control_from b \<or> control_from a = control_from b \<and> control_to a < control_to b)"

instance
  by standard (auto simp: less_eq_control_edge_def less_control_edge_def control_edge.expand)

end

record conditional_branch =
  branch_id :: ident
  branch_selector :: endpoint
  branch_arms :: "(string, ident) btree_map"

datatype graph_error =
    Duplicate string ident
  | UnknownNode ident ident
  | UnknownPort ident ident ident string
  | UnknownGraphPort ident ident string
  | OutputUsedAsSource ident
  | InputUsedAsTarget ident
  | Dangling ident string
  | ForwardsMany ident nat
  | EdgeProvenanceLost ident nat nat
  | SelectionNotRecorded ident
  | SourceIndexOutOfRange ident nat
  | ConcatNotLists ident
  | Schema ident schema_mismatch
  | TrustTooWeak ident ident string string string
  | NotAVerifier ident ident
  | BranchNotSelectable ident
  | BranchNotExhaustive ident string
  | BranchArmUnreachable ident string
  | UndeclaredCycle string
  | ValueEscapesRegion ident ident
  | ValueBypassesRegionEntry ident ident
  | NodeErr node_error
  | RegionErr region_error

record graph =
  graph_nodes :: "(ident, node) btree_map"
  graph_edges :: "(ident, hyperedge) btree_map"
  graph_control :: "control_edge btree_set"
  graph_branches :: "(ident, conditional_branch) btree_map"
  graph_regions :: "(ident, region) btree_map"
  graph_inputs :: "(ident, output_port) btree_map"
  graph_outputs :: "(ident, input_port) btree_map"

record graph_builder =
  builder_nodes :: "node list"
  builder_edges :: "hyperedge list"
  builder_control :: "control_edge list"
  builder_branches :: "conditional_branch list"
  builder_regions :: "region list"
  builder_inputs :: "output_port list"
  builder_outputs :: "input_port list"

section \<open>Construction and queries\<close>

definition keyed :: "string \<Rightarrow> ('a \<Rightarrow> ident) \<Rightarrow> 'a list \<Rightarrow> (graph_error, (ident, 'a) btree_map) result" where
  "keyed what key values = bt_try_build (\<lambda>v. Duplicate what (key v)) key (\<lambda>v. v) values"

definition graph_new :: "graph_builder \<Rightarrow> (graph_error, graph) result" where
  "graph_new parts =
     and_then (keyed ''node'' node_id (builder_nodes parts)) (\<lambda>nodes.
     and_then (keyed ''edge'' edge_id (builder_edges parts)) (\<lambda>edges.
     and_then (keyed ''branch'' branch_id (builder_branches parts)) (\<lambda>branches.
     and_then (keyed ''region'' region_id (builder_regions parts)) (\<lambda>regions.
     and_then (keyed ''graph input'' output_id (builder_inputs parts)) (\<lambda>inputs.
     and_then (keyed ''graph output'' input_id (builder_outputs parts)) (\<lambda>outputs.
       Ok \<lparr>graph_nodes = nodes, graph_edges = edges, graph_control = bs_collect (builder_control parts),
           graph_branches = branches, graph_regions = regions, graph_inputs = inputs,
           graph_outputs = outputs\<rparr>))))))"

definition nodes :: "graph \<Rightarrow> node list" where
  "nodes g = bt_values (graph_nodes g)"

definition edges :: "graph \<Rightarrow> hyperedge list" where
  "edges g = bt_values (graph_edges g)"

definition regions :: "graph \<Rightarrow> region list" where
  "regions g = bt_values (graph_regions g)"

definition branches :: "graph \<Rightarrow> conditional_branch list" where
  "branches g = bt_values (graph_branches g)"

definition graph_node :: "graph \<Rightarrow> ident \<Rightarrow> node option" where
  "graph_node g i = map_of (graph_nodes g) i"

definition region_of_node :: "graph \<Rightarrow> ident \<Rightarrow> region option" where
  "region_of_node g n = find (\<lambda>r. region_contains r n) (regions g)"

definition edge_feeds :: "hyperedge \<Rightarrow> ident \<Rightarrow> bool" where
  "edge_feeds e n = list_ex (\<lambda>t. t = n) (filter_map endpoint_node (edge_targets e))"

definition predecessors_of :: "graph \<Rightarrow> ident \<Rightarrow> ident btree_set" where
  "predecessors_of g n =
     (let from_edges = foldl (\<lambda>acc e. if edge_feeds e n
                                     then fold bs_insert (filter_map endpoint_node (edge_sources e)) acc
                                     else acc) [] (edges g);
          from_control = foldl (\<lambda>acc c. if control_to c = n then bs_insert (control_from c) acc else acc)
                           from_edges (graph_control g)
      in bs_remove n from_control)"

section \<open>Regions and loops\<close>

definition check_region_boundary ::
  "graph \<Rightarrow> region \<Rightarrow> ident \<Rightarrow> string \<Rightarrow> node_kind \<Rightarrow> (graph_error, unit) result" where
  "check_region_boundary g r n role expected =
     (if \<not> region_contains r n then Err (RegionErr (BoundaryOutsideRegion (region_id r) n role))
      else case graph_node g n of
             None \<Rightarrow> Err (RegionErr (RegionUnknownNode (region_id r) n))
           | Some declared \<Rightarrow>
               if node_kind declared \<noteq> expected
               then Err (RegionErr (WrongBoundaryKind (region_id r) n role (node_kind_str expected)))
               else Ok ())"

text \<open>The walk up the parents: every step adds a declared region to \<open>seen\<close> that was not
  there, so it ends.\<close>

function nesting_walk :: "graph \<Rightarrow> region \<Rightarrow> ident btree_set \<Rightarrow> region \<Rightarrow> (graph_error, unit) result" where
  "nesting_walk g r seen current =
     (case region_parent current of
        None \<Rightarrow> Ok ()
      | Some parent \<Rightarrow>
          if parent \<in> set seen then Err (RegionErr (CyclicNesting (region_id r)))
          else if parent = region_id r then Err (RegionErr (CyclicNesting (region_id r)))
          else case map_of (graph_regions g) parent of
                 None \<Rightarrow> Err (RegionErr (UnknownParent (region_id r) parent))
               | Some up \<Rightarrow> nesting_walk g r (bs_insert parent seen) up)"
  by pat_completeness auto
termination
proof (relation "measure (\<lambda>(g, r, seen, current). card (dom (map_of (graph_regions g)) - set seen))",
    goal_cases)
  case 1
  then show ?case by simp
next
  case (2 g r seen current parent up)
  have "dom (map_of (graph_regions g)) - set (bs_insert parent seen)
          \<subset> dom (map_of (graph_regions g)) - set seen"
    using 2 by (auto simp: set_bs_insert)
  moreover have "finite (dom (map_of (graph_regions g)) - set seen)" by (simp add: finite_dom_map_of)
  ultimately show ?case by (simp add: psubset_card_mono)
qed

declare nesting_walk.simps [simp del]

definition check_no_cyclic_nesting :: "graph \<Rightarrow> region \<Rightarrow> (graph_error, unit) result" where
  "check_no_cyclic_nesting g r = nesting_walk g r [] r"

definition loop_inside :: "region \<Rightarrow> ident \<Rightarrow> string \<Rightarrow> (graph_error, unit) result" where
  "loop_inside r n role =
     (if region_contains r n then Ok ()
      else Err (RegionErr (RegionLoop (NodeOutsideLoop (region_id r) n role))))"

definition output_of :: "graph \<Rightarrow> ident \<Rightarrow> ident \<Rightarrow> value_schema option" where
  "output_of g n p =
     (case graph_node g n of
        None \<Rightarrow> None
      | Some declared \<Rightarrow> map_option output_schema (find (\<lambda>o'. output_id o' = p) (node_outputs declared)))"

fun is_integer_schema :: "value_schema option \<Rightarrow> bool" where
  "is_integer_schema (Some (SInteger r)) = True"
| "is_integer_schema s = False"

definition check_loop :: "graph \<Rightarrow> region \<Rightarrow> loop_spec \<Rightarrow> (graph_error, unit) result" where
  "check_loop g r spec =
     (let c = loop_continuation spec;
          not_boolean = \<lambda>n p. Err (RegionErr (RegionLoop (ContinuationNotBoolean (region_id r) n p))) in
      and_then (map_err (\<lambda>e. RegionErr (RegionLoop e)) (loop_spec_check spec (region_id r))) (\<lambda>_.
      and_then (loop_inside r (evaluated_by c) ''continuation'') (\<lambda>_.
      if output_of g (evaluated_by c) (continuation_port c) \<noteq> Some SBool
      then not_boolean (evaluated_by c) (continuation_port c)
      else
      and_then (try_for_each (\<lambda>i.
                  and_then (loop_inside r (invariant_evaluator i) ''invariant evaluator'') (\<lambda>_.
                    if output_of g (invariant_evaluator i) (invariant_port i) \<noteq> Some SBool
                    then not_boolean (invariant_evaluator i) (invariant_port i)
                    else Ok ())) (loop_invariants spec)) (\<lambda>_.
      case loop_progress spec of
        None \<Rightarrow> Ok ()
      | Some p \<Rightarrow>
          and_then (loop_inside r (measured_by p) ''progress measure'') (\<lambda>_.
            if \<not> is_integer_schema (output_of g (measured_by p) (progress_port p))
            then Err (RegionErr (RegionLoop (ProgressNotOrdered (region_id r) (measured_by p) (progress_port p))))
            else Ok ())))))"

definition claim_member ::
  "graph \<Rightarrow> region \<Rightarrow> (ident, ident) btree_map \<Rightarrow> ident \<Rightarrow> (graph_error, (ident, ident) btree_map) result" where
  "claim_member g r owner n =
     (if \<not> bt_contains (graph_nodes g) n then Err (RegionErr (RegionUnknownNode (region_id r) n))
      else case map_of owner n of
             Some other \<Rightarrow> Err (RegionErr (OverlappingMembership (region_id r) other n))
           | None \<Rightarrow> Ok (bt_insert n (region_id r) owner))"

definition parent_scope ::
  "graph \<Rightarrow> capability_set \<Rightarrow> resource_budget \<Rightarrow> region \<Rightarrow> (graph_error, capability_set \<times> resource_budget) result" where
  "parent_scope g granted budget r =
     (case region_parent r of
        None \<Rightarrow> Ok (granted, budget)
      | Some parent \<Rightarrow>
          (case map_of (graph_regions g) parent of
             None \<Rightarrow> Err (RegionErr (UnknownParent (region_id r) parent))
           | Some p \<Rightarrow> Ok (region_capabilities p, region_budget p)))"

definition check_region ::
  "graph \<Rightarrow> capability_set \<Rightarrow> resource_budget \<Rightarrow> (ident, ident) btree_map \<Rightarrow> region
     \<Rightarrow> (graph_error, (ident, ident) btree_map) result" where
  "check_region g granted budget owner r =
     and_then (try_fold (claim_member g r) owner (region_nodes r)) (\<lambda>owner.
     and_then (check_region_boundary g r (region_entry r) ''entry'' RegionEntry) (\<lambda>_.
     and_then (check_region_boundary g r (region_exit r) ''exit'' RegionExit) (\<lambda>_.
     and_then (parent_scope g granted budget r) (\<lambda>(capabilities, bud).
     and_then (map_err RegionErr (check_against_parent r capabilities bud)) (\<lambda>_.
     and_then (check_no_cyclic_nesting g r) (\<lambda>_.
     case region_kind r of
       Loop spec \<Rightarrow> and_then (check_loop g r spec) (\<lambda>_. Ok owner)
     | Plain \<Rightarrow> Ok owner))))))"

definition check_regions :: "graph \<Rightarrow> capability_set \<Rightarrow> resource_budget \<Rightarrow> (graph_error, unit) result" where
  "check_regions g granted budget =
     and_then (try_fold (check_region g granted budget) [] (regions g)) (\<lambda>_. Ok ())"

section \<open>Edges\<close>

definition source_port :: "graph \<Rightarrow> hyperedge \<Rightarrow> endpoint \<Rightarrow> (graph_error, output_port) result" where
  "source_port g e endpoint =
     (case endpoint of
        Port n p \<Rightarrow>
          (case graph_node g n of
             None \<Rightarrow> Err (UnknownNode (edge_id e) n)
           | Some declared \<Rightarrow>
               ok_or (UnknownPort (edge_id e) n p ''output'')
                 (find (\<lambda>o'. output_id o' = p) (node_outputs declared)))
      | GraphInput name \<Rightarrow>
          ok_or (UnknownGraphPort (edge_id e) name ''input'') (map_of (graph_inputs g) name)
      | GraphOutput name \<Rightarrow> Err (OutputUsedAsSource (edge_id e)))"

definition target_port :: "graph \<Rightarrow> hyperedge \<Rightarrow> endpoint \<Rightarrow> (graph_error, input_port) result" where
  "target_port g e endpoint =
     (case endpoint of
        Port n p \<Rightarrow>
          (case graph_node g n of
             None \<Rightarrow> Err (UnknownNode (edge_id e) n)
           | Some declared \<Rightarrow>
               ok_or (UnknownPort (edge_id e) n p ''input'')
                 (find (\<lambda>i. input_id i = p) (node_inputs declared)))
      | GraphOutput name \<Rightarrow>
          ok_or (UnknownGraphPort (edge_id e) name ''output'') (map_of (graph_outputs g) name)
      | GraphInput name \<Rightarrow> Err (InputUsedAsTarget (edge_id e)))"

definition check_covers_every_source :: "hyperedge \<Rightarrow> nat \<Rightarrow> nat list \<Rightarrow> (graph_error, unit) result" where
  "check_covers_every_source e sources named =
     (let named = bs_collect named in
      and_then (try_for_each (\<lambda>position. if position \<ge> sources
                                       then Err (SourceIndexOutOfRange (edge_id e) position)
                                       else Ok ()) named) (\<lambda>_.
        if length named \<noteq> sources
        then Err (EdgeProvenanceLost (edge_id e) sources (length named))
        else Ok ()))"

definition source_at :: "hyperedge \<Rightarrow> output_port list \<Rightarrow> nat \<Rightarrow> (graph_error, output_port) result" where
  "source_at e sources position =
     (if position < length sources then Ok (sources ! position)
      else Err (SourceIndexOutOfRange (edge_id e) position))"

text \<open>The loop of the \<open>Concat\<close> arm over its accumulator: the item schema of the first
  source and the sums of the length bounds.\<close>

definition concat_step ::
  "hyperedge \<Rightarrow> value_schema option \<times> u32 \<times> u32 \<Rightarrow> output_port
     \<Rightarrow> (graph_error, value_schema option \<times> u32 \<times> u32) result" where
  "concat_step e acc source =
     (case acc of (item, minimum, maximum) \<Rightarrow>
       (case output_schema source of
          SList source_item len \<Rightarrow>
            (let minimum = saturating_add minimum (length_minimum len);
                 maximum = saturating_add maximum (length_maximum len) in
             case item of
               Some expected \<Rightarrow>
                 and_then (map_err (Schema (edge_id e)) (check_satisfies source_item expected)) (\<lambda>_.
                   Ok (item, minimum, maximum))
             | None \<Rightarrow> Ok (Some source_item, minimum, maximum))
        | _ \<Rightarrow> Err (ConcatNotLists (edge_id e))))"

definition delivered_schema :: "hyperedge \<Rightarrow> output_port list \<Rightarrow> (graph_error, value_schema) result" where
  "delivered_schema e sources =
     (case edge_combine e of
        Forward \<Rightarrow>
          if length sources \<noteq> 1 then Err (ForwardsMany (edge_id e) (length sources))
          else Ok (output_schema (hd sources))
      | CombineRecord flds \<Rightarrow>
          and_then (check_covers_every_source e (length sources) (bt_values flds)) (\<lambda>_.
          and_then (try_fold (\<lambda>rec (name, position).
                      and_then (source_at e sources position) (\<lambda>s.
                        Ok (bt_insert name (Field (output_schema s) True) rec))) [] flds) (\<lambda>rec.
            Ok (SRecord rec)))
      | Concat \<Rightarrow>
          and_then (try_fold (concat_step e) (None, 0, 0) sources) (\<lambda>(item, minimum, maximum).
            case item of
              None \<Rightarrow> Err (Dangling (edge_id e) ''sources'')
            | Some i \<Rightarrow> Ok (SList i \<lparr>length_minimum = minimum, length_maximum = maximum\<rparr>))
      | Select discriminant arms \<Rightarrow>
          if trim discriminant = [] then Err (SelectionNotRecorded (edge_id e))
          else
            and_then (check_covers_every_source e (length sources) (bt_values arms)) (\<lambda>_.
            and_then (try_fold (\<lambda>vs (name, position).
                        and_then (source_at e sources position) (\<lambda>s.
                          Ok (bt_insert name (output_schema s) vs))) [] arms) (\<lambda>vs.
              Ok (SUnion discriminant vs))))"

definition trust_promise_of :: "graph \<Rightarrow> hyperedge \<Rightarrow> output_port list \<Rightarrow> (graph_error, trust_promise) result" where
  "trust_promise_of g e sources =
     (case edge_trust e of
        Weakest \<Rightarrow>
          (let combined = meet_all (map produces sources) in
           Ok \<lparr>promise_level = level_of combined,
               promise_contract = (case class_contract combined of
                                     None \<Rightarrow> None | Some c \<Rightarrow> ok (parse c))\<rparr>)
      | Established contract verifier \<Rightarrow>
          (case graph_node g verifier of
             None \<Rightarrow> Err (UnknownNode (edge_id e) verifier)
           | Some n \<Rightarrow>
               if node_kind n \<noteq> Verifier then Err (NotAVerifier (edge_id e) verifier)
               else Ok \<lparr>promise_level = LevelVerified, promise_contract = Some contract\<rparr>))"

definition check_edge_regions :: "graph \<Rightarrow> hyperedge \<Rightarrow> (graph_error, unit) result" where
  "check_edge_regions g e =
     (let is_inside = \<lambda>r endpoint. (case endpoint_node endpoint of
                                      Some n \<Rightarrow> region_contains r n | None \<Rightarrow> False) in
      and_then (try_for_each (\<lambda>source.
        case endpoint_node source of None \<Rightarrow> Ok ()
        | Some n \<Rightarrow>
            (case region_of_node g n of None \<Rightarrow> Ok ()
             | Some r \<Rightarrow>
                 try_for_each (\<lambda>target.
                   if \<not> is_inside r target \<and> n \<noteq> region_exit r
                   then Err (ValueEscapesRegion (edge_id e) (region_id r)) else Ok ()) (edge_targets e)))
        (edge_sources e)) (\<lambda>_.
      try_for_each (\<lambda>target.
        case endpoint_node target of None \<Rightarrow> Ok ()
        | Some n \<Rightarrow>
            (case region_of_node g n of None \<Rightarrow> Ok ()
             | Some r \<Rightarrow>
                 try_for_each (\<lambda>source.
                   if \<not> is_inside r source \<and> n \<noteq> region_entry r
                   then Err (ValueBypassesRegionEntry (edge_id e) (region_id r)) else Ok ()) (edge_sources e)))
        (edge_targets e)))"

definition check_target ::
  "graph \<Rightarrow> hyperedge \<Rightarrow> value_schema \<Rightarrow> trust_promise \<Rightarrow> endpoint \<Rightarrow> (graph_error, unit) result" where
  "check_target g e delivered promise endpoint =
     and_then (target_port g e endpoint) (\<lambda>target.
     and_then (map_err (Schema (edge_id e)) (check_satisfies delivered (input_schema target))) (\<lambda>_.
       if \<not> promise_satisfies promise (input_requires target)
       then Err (TrustTooWeak (edge_id e) (input_id target) (trust_level_str (promise_level promise))
                   (trust_level_str (requirement_minimum (input_requires target)))
                   (case requirement_contract (input_requires target) of
                      None \<Rightarrow> []
                    | Some c \<Rightarrow> '' under contract `'' @ as_str c @ ''`''))
       else Ok ()))"

definition check_edge :: "graph \<Rightarrow> hyperedge \<Rightarrow> (graph_error, unit) result" where
  "check_edge g e =
     (if edge_sources e = [] then Err (Dangling (edge_id e) ''sources'')
      else if edge_targets e = [] then Err (Dangling (edge_id e) ''targets'')
      else
        and_then (try_fold (\<lambda>acc endpoint. and_then (source_port g e endpoint) (\<lambda>s. Ok (acc @ [s]))) []
                    (edge_sources e)) (\<lambda>sources.
        and_then (delivered_schema e sources) (\<lambda>delivered.
        and_then (trust_promise_of g e sources) (\<lambda>promise.
        and_then (try_for_each (check_target g e delivered promise) (edge_targets e)) (\<lambda>_.
          check_edge_regions g e)))))"

section \<open>Branches\<close>

definition selector_schema :: "graph \<Rightarrow> endpoint \<Rightarrow> value_schema option" where
  "selector_schema g selector =
     (case selector of
        Port n p \<Rightarrow> output_of g n p
      | GraphInput name \<Rightarrow> map_option output_schema (map_of (graph_inputs g) name)
      | GraphOutput name \<Rightarrow> None)"

definition check_branch :: "graph \<Rightarrow> conditional_branch \<Rightarrow> (graph_error, unit) result" where
  "check_branch g b =
     and_then (ok_or (BranchNotSelectable (branch_id b)) (selector_schema g (branch_selector b))) (\<lambda>selector.
     and_then (case selector of
                 SEnumeration members \<Rightarrow> Ok (bs_collect members)
               | SUnion d vs \<Rightarrow> Ok (bt_keys vs)
               | _ \<Rightarrow> Err (BranchNotSelectable (branch_id b))) (\<lambda>members.
     and_then (try_for_each (\<lambda>member. if \<not> bt_contains (branch_arms b) member
                                    then Err (BranchNotExhaustive (branch_id b) member) else Ok ())
                 members) (\<lambda>_.
     try_for_each (\<lambda>(member, n).
         if member \<notin> set members then Err (BranchArmUnreachable (branch_id b) member)
         else if \<not> bt_contains (graph_nodes g) n then Err (UnknownNode (branch_id b) n)
         else Ok ()) (branch_arms b))))"

definition check_branches :: "graph \<Rightarrow> (graph_error, unit) result" where
  "check_branches g = try_for_each (check_branch g) (branches g)"

section \<open>Construction does not depend on the order of declaration\<close>

lemma keyed_eq_Ok:
  "keyed what key xs = Ok m \<longleftrightarrow> distinct (map key xs) \<and> m = btree.build (map (\<lambda>x. (key x, x)) xs) []"
  by (simp add: keyed_def bt_try_build_eq_Ok)

lemma keyed_permute:
  assumes "keyed what key xs = Ok m" "mset ys = mset xs"
  shows "keyed what key ys = Ok m"
proof -
  from assms(1) have d: "distinct (map key xs)" and m: "m = btree.build (map (\<lambda>x. (key x, x)) xs) []"
    by (simp_all add: keyed_eq_Ok)
  from assms(2) have "mset (map key ys) = mset (map key xs)" by simp
  with d have d': "distinct (map key ys)" by (metis mset_eq_imp_distinct_iff)
  have "btree.build (map (\<lambda>x. (key x, x)) ys) [] = btree.build (map (\<lambda>x. (key x, x)) xs) []"
    using d d' mset_eq_setD [OF assms(2)]
    by (intro btree.build_order_irrelevant) (simp_all add: comp_def)
  with d' m show ?thesis by (simp add: keyed_eq_Ok)
qed

lemma keyed_get:
  assumes "keyed what key xs = Ok m"
  shows "bt_wf m \<and> (map_of m k = Some v \<longleftrightarrow> v \<in> set xs \<and> key v = k)"
proof -
  from assms have d: "distinct (map key xs)" and *: "bt_wf m" "map_of m = map_of (map (\<lambda>x. (key x, x)) xs)"
    using bt_try_build_get [of _ key "\<lambda>v. v" xs m] by (auto simp: keyed_def bt_try_build_eq_Ok)
  have "distinct (map fst (map (\<lambda>x. (key x, x)) xs))" using d by (simp add: comp_def)
  then show ?thesis using * by (auto simp: map_of_eq_Some_iff)
qed

text \<open>Two authors who declare the same parts in a different order build the same graph:
  if one order is accepted, every permutation of each list is accepted and gives the same
  keyed collections, so the canonical order does not depend on the author.\<close>

theorem graph_new_order_independent:
  assumes "graph_new p = Ok g"
    and "mset (builder_nodes q) = mset (builder_nodes p)"
    and "mset (builder_edges q) = mset (builder_edges p)"
    and "set (builder_control q) = set (builder_control p)"
    and "mset (builder_branches q) = mset (builder_branches p)"
    and "mset (builder_regions q) = mset (builder_regions p)"
    and "mset (builder_inputs q) = mset (builder_inputs p)"
    and "mset (builder_outputs q) = mset (builder_outputs p)"
  shows "graph_new q = Ok g"
proof -
  have control: "bs_collect (builder_control q) = bs_collect (builder_control p)"
    using assms(4) by (intro bs_wf_ext) (simp_all add: bs_wf_collect)
  from assms(1) obtain ns es bs rs ins os where
      parts: "keyed ''node'' node_id (builder_nodes p) = Ok ns" "keyed ''edge'' edge_id (builder_edges p) = Ok es"
        "keyed ''branch'' branch_id (builder_branches p) = Ok bs"
        "keyed ''region'' region_id (builder_regions p) = Ok rs"
        "keyed ''graph input'' output_id (builder_inputs p) = Ok ins"
        "keyed ''graph output'' input_id (builder_outputs p) = Ok os"
      and g: "g = \<lparr>graph_nodes = ns, graph_edges = es, graph_control = bs_collect (builder_control p),
                   graph_branches = bs, graph_regions = rs, graph_inputs = ins, graph_outputs = os\<rparr>"
    by (auto simp: graph_new_def)
  note same = keyed_permute [OF parts(1) assms(2)] keyed_permute [OF parts(2) assms(3)]
    keyed_permute [OF parts(3) assms(5)] keyed_permute [OF parts(4) assms(6)]
    keyed_permute [OF parts(5) assms(7)] keyed_permute [OF parts(6) assms(8)]
  show ?thesis by (simp add: graph_new_def same g control)
qed

definition sample_node :: "string \<Rightarrow> node" where
  "sample_node name =
     \<lparr>node_id = Identifier name, node_name = name, node_kind = PureComputation, node_inputs = [],
      node_outputs = [], node_capabilities = [], node_effects = [], node_budget = deterministic 1,
      node_provider = None, node_sub_workflow = None\<rparr>"

definition sample_parts :: "string list \<Rightarrow> graph_builder" where
  "sample_parts names =
     \<lparr>builder_nodes = map sample_node names, builder_edges = [],
      builder_control = [ControlEdge (Identifier ''a'') (Identifier ''b'')], builder_branches = [],
      builder_regions = [], builder_inputs = [], builder_outputs = []\<rparr>"

theorem graph_new_order_independent_witness:
  "\<exists>g. graph_new (sample_parts [''a'', ''b'']) = Ok g \<and> graph_new (sample_parts [''b'', ''a'']) = Ok g"
proof -
  obtain g where g: "graph_new (sample_parts [''a'', ''b'']) = Ok g"
    by (simp add: graph_new_def sample_parts_def sample_node_def keyed_eq_Ok)
  have "graph_new (sample_parts [''b'', ''a'']) = Ok g"
    by (rule graph_new_order_independent [OF g]) (simp_all add: sample_parts_def add_mset_commute)
  with g show ?thesis by blast
qed

section \<open>Predecessors\<close>

lemma Some_in_image: "Some m \<in> f ` S \<longleftrightarrow> (\<exists>x \<in> S. f x = Some m)"
  by (metis image_iff)

lemma edge_feeds_iff: "edge_feeds e n \<longleftrightarrow> Some n \<in> endpoint_node ` set (edge_targets e)"
  by (auto simp: edge_feeds_def list_ex_iff set_filter_map Some_in_image)

lemma set_fold_predecessor_edges:
  "set (foldl (\<lambda>acc e. if edge_feeds e n then fold bs_insert (filter_map endpoint_node (edge_sources e)) acc
                       else acc) s es) =
   set s \<union> {m. \<exists>e \<in> set es. edge_feeds e n \<and> Some m \<in> endpoint_node ` set (edge_sources e)}"
  by (induction es arbitrary: s) (auto simp: set_fold_bs_insert set_filter_map Some_in_image)

lemma set_fold_predecessor_control:
  "set (foldl (\<lambda>acc c. if control_to c = n then bs_insert (control_from c) acc else acc) s cs) =
   set s \<union> {m. \<exists>c \<in> set cs. control_to c = n \<and> control_from c = m}"
  by (induction cs arbitrary: s) auto

text \<open>The relation the scheduler orders nodes by: \<open>feeds g m n\<close> when data or control flows
  from \<open>m\<close> to \<open>n\<close>.\<close>

definition feeds :: "graph \<Rightarrow> ident \<Rightarrow> ident \<Rightarrow> bool" where
  "feeds g m n =
     ((\<exists>e \<in> set (edges g). Some m \<in> endpoint_node ` set (edge_sources e) \<and>
                           Some n \<in> endpoint_node ` set (edge_targets e)) \<or>
      (\<exists>c \<in> set (graph_control g). control_from c = m \<and> control_to c = n))"

lemma set_predecessors_of: "m \<in> set (predecessors_of g n) \<longleftrightarrow> m \<noteq> n \<and> feeds g m n"
  unfolding predecessors_of_def Let_def set_bs_remove set_fold_predecessor_control
    set_fold_predecessor_edges
  unfolding feeds_def edge_feeds_iff
  by auto

section \<open>Trust along an edge\<close>

lemma promise_satisfies_class:
  assumes "promise_satisfies \<lparr>promise_level = level_of c,
             promise_contract = (case class_contract c of None \<Rightarrow> None | Some s \<Rightarrow> ok (parse s))\<rparr> req"
  shows "is_satisfied_by req c"
proof (cases "requirement_contract req")
  case None
  then show ?thesis using assms
    by (auto simp: promise_satisfies_def is_satisfied_by_def split: if_splits option.splits)
next
  case (Some required)
  with assms obtain s i where "class_contract c = Some s" "parse s = Ok i" "i = required"
    by (auto simp: promise_satisfies_def split: if_splits option.splits)
  with assms Some show ?thesis
    using parse_as_str by (auto simp: promise_satisfies_def is_satisfied_by_def split: if_splits)
qed

lemma collect_sources:
  "try_fold (\<lambda>acc x. and_then (f x) (\<lambda>s. Ok (acc @ [s]))) acc xs = Ok out \<longleftrightarrow>
     (\<exists>ys. out = acc @ ys \<and> list_all2 (\<lambda>x y. f x = Ok y) xs ys)"
proof (induction xs arbitrary: acc)
  case Nil
  then show ?case by auto
next
  case (Cons x xs)
  show ?case
  proof (cases "f x")
    case (Inl e)
    then show ?thesis by (auto simp: list_all2_Cons1)
  next
    case (Inr y)
    then show ?thesis using Cons.IH by (auto simp: list_all2_Cons1)
  qed
qed

lemma check_edge_parts:
  assumes "check_edge g e = Ok ()"
  obtains sources delivered promise where
    "edge_sources e \<noteq> []" "edge_targets e \<noteq> []"
    "list_all2 (\<lambda>x y. source_port g e x = Ok y) (edge_sources e) sources"
    "delivered_schema e sources = Ok delivered"
    "trust_promise_of g e sources = Ok promise"
    "\<forall>t \<in> set (edge_targets e). check_target g e delivered promise t = Ok ()"
    "check_edge_regions g e = Ok ()"
  using assms by (auto simp: check_edge_def collect_sources try_for_each_eq_Inr split: if_splits)

lemma check_target_parts:
  "check_target g e delivered promise t = Ok u \<longleftrightarrow>
     (\<exists>p. target_port g e t = Ok p \<and> satisfies delivered (input_schema p) \<and>
          promise_satisfies promise (input_requires p))"
  by (auto simp: check_target_def check_satisfies_def check_at_satisfies)

text \<open>Trust along an edge is earned: on an edge that passes the check, a value is
  delivered only to ports that exist and accept its schema, and either the edge names a
  declared verifier node and the requirement is one a verified value under that contract
  meets, or every single source of the edge already satisfies what the target requires.\<close>

theorem check_edge_trust_is_earned:
  assumes "check_edge g e = Ok ()" "t \<in> set (edge_targets e)"
  shows "\<exists>p sources delivered.
           target_port g e t = Ok p \<and>
           list_all2 (\<lambda>x y. source_port g e x = Ok y) (edge_sources e) sources \<and>
           delivered_schema e sources = Ok delivered \<and> satisfies delivered (input_schema p) \<and>
           ((\<exists>contract verifier n. edge_trust e = Established contract verifier \<and>
               graph_node g verifier = Some n \<and> node_kind n = Verifier \<and>
               (\<forall>c. requirement_contract (input_requires p) = Some c \<longrightarrow> c = contract)) \<or>
            (\<forall>s \<in> set sources. is_satisfied_by (input_requires p) (produces s)))"
proof -
  from assms(1) obtain sources delivered promise where
      srcs: "list_all2 (\<lambda>x y. source_port g e x = Ok y) (edge_sources e) sources"
      and del: "delivered_schema e sources = Ok delivered"
      and prom: "trust_promise_of g e sources = Ok promise"
      and tgts: "\<forall>t \<in> set (edge_targets e). check_target g e delivered promise t = Ok ()"
    by (rule check_edge_parts)
  from tgts assms(2) obtain p where p: "target_port g e t = Ok p" "satisfies delivered (input_schema p)"
      and sat: "promise_satisfies promise (input_requires p)"
    by (auto simp: check_target_parts)
  have "(\<exists>contract verifier n. edge_trust e = Established contract verifier \<and>
               graph_node g verifier = Some n \<and> node_kind n = Verifier \<and>
               (\<forall>c. requirement_contract (input_requires p) = Some c \<longrightarrow> c = contract)) \<or>
            (\<forall>s \<in> set sources. is_satisfied_by (input_requires p) (produces s))"
  proof (cases "edge_trust e")
    case Weakest
    then have "is_satisfied_by (input_requires p) (meet_all (map produces sources))"
      using prom sat promise_satisfies_class by (auto simp: trust_promise_of_def Let_def)
    then have "\<forall>s \<in> set sources. is_satisfied_by (input_requires p) (produces s)"
      using meet_all_no_stronger is_satisfied_by_mono by (metis image_eqI list.set_map)
    then show ?thesis by blast
  next
    case (Established contract verifier)
    then show ?thesis using prom sat
      by (auto simp: trust_promise_of_def promise_satisfies_def split: option.splits if_splits)
  qed
  with p srcs del show ?thesis by blast
qed

definition sample_edge_graph :: graph where
  "sample_edge_graph =
     \<lparr>graph_nodes =
        [(Identifier ''a'', sample_node ''a'' \<lparr>node_outputs := [output_port_new (Identifier ''out'') SBool]\<rparr>),
         (Identifier ''b'', sample_node ''b'' \<lparr>node_inputs := [input_port_new (Identifier ''in'') SBool]\<rparr>)],
      graph_edges = [(Identifier ''e'',
        \<lparr>edge_id = Identifier ''e'', edge_sources = [Port (Identifier ''a'') (Identifier ''out'')],
         edge_targets = [Port (Identifier ''b'') (Identifier ''in'')], edge_combine = Forward,
         edge_trust = Weakest\<rparr>)],
      graph_control = [], graph_branches = [], graph_regions = [], graph_inputs = [], graph_outputs = []\<rparr>"

lemma satisfies_bool [simp]: "satisfies SBool SBool"
  by (simp add: satisfies_def check_satisfies_def check_at.simps)

lemma check_satisfies_bool [simp]: "check_satisfies SBool SBool = Ok ()"
  by (rule satisfies_bool [unfolded satisfies_def])

theorem check_edge_trust_is_earned_witness:
  "\<exists>e p. edges sample_edge_graph = [e] \<and> check_edge sample_edge_graph e = Ok () \<and>
     target_port sample_edge_graph e (Port (Identifier ''b'') (Identifier ''in'')) = Ok p \<and>
     input_schema p = SBool"
proof -
  let ?e = "snd (hd (graph_edges sample_edge_graph))"
  have ok: "check_edge sample_edge_graph ?e = Ok ()"
    by (simp add: check_edge_def sample_edge_graph_def source_port_def target_port_def graph_node_def
        delivered_schema_def trust_promise_of_def check_target_def check_edge_regions_def
        region_of_node_def regions_def bt_values_def meet_all_def promise_satisfies_def
        output_port_new_def input_port_new_def requirement_none_def)
  have t: "Port (Identifier ''b'') (Identifier ''in'') \<in> set (edge_targets ?e)"
    by (simp add: sample_edge_graph_def)
  obtain p where "target_port sample_edge_graph ?e (Port (Identifier ''b'') (Identifier ''in'')) = Ok p"
    using check_edge_trust_is_earned [OF ok t] by blast
  moreover from this have "input_schema p = SBool"
    by (auto simp: target_port_def sample_edge_graph_def graph_node_def input_port_new_def)
  moreover have "edges sample_edge_graph = [?e]"
    by (simp add: edges_def bt_values_def sample_edge_graph_def)
  ultimately show ?thesis using ok by blast
qed

section \<open>Regions narrow\<close>

lemma claim_member_eq_Ok:
  "claim_member g r owner n = Ok owner' \<longleftrightarrow>
     bt_contains (graph_nodes g) n \<and> map_of owner n = None \<and> owner' = bt_insert n (region_id r) owner"
  by (auto simp: claim_member_def split: if_splits option.splits)

lemma claim_members:
  "try_fold (claim_member g r) owner ns = Ok owner' \<Longrightarrow>
     distinct ns \<and> set ns \<inter> dom (map_of owner) = {} \<and> set ns \<subseteq> dom (map_of (graph_nodes g)) \<and>
     dom (map_of owner') = dom (map_of owner) \<union> set ns"
proof (induction ns arbitrary: owner)
  case Nil
  then show ?case by simp
next
  case (Cons n ns)
  then have "bt_contains (graph_nodes g) n" "map_of owner n = None"
      and rest: "try_fold (claim_member g r) (bt_insert n (region_id r) owner) ns = Ok owner'"
    by (auto simp: claim_member_eq_Ok split: sum.splits)
  with Cons.IH [OF rest] show ?case by (auto simp: bt_contains_def)
qed

lemma check_region_parts:
  assumes "check_region g granted budget owner r = Ok owner'"
  shows "try_fold (claim_member g r) owner (region_nodes r) = Ok owner' \<and>
         check_no_cyclic_nesting g r = Ok () \<and>
         (\<exists>cs b. parent_scope g granted budget r = Ok (cs, b) \<and> check_against_parent r cs b = Ok ()) \<and>
         (\<forall>spec. region_kind r = Loop spec \<longrightarrow> check_loop g r spec = Ok ())"
proof (cases "region_kind r")
  case Plain
  with assms show ?thesis by (auto simp: check_region_def)
next
  case (Loop spec)
  with assms show ?thesis by (auto simp: check_region_def)
qed

lemma check_regions_disjoint:
  "try_fold (check_region g granted budget) owner rs = Ok owner' \<Longrightarrow>
     distinct (concat (map region_nodes rs)) \<and>
     set (concat (map region_nodes rs)) \<inter> dom (map_of owner) = {} \<and>
     set (concat (map region_nodes rs)) \<subseteq> dom (map_of (graph_nodes g))"
proof (induction rs arbitrary: owner)
  case Nil
  then show ?case by simp
next
  case (Cons r rs)
  then obtain o1 where o1: "check_region g granted budget owner r = Ok o1"
      and rest: "try_fold (check_region g granted budget) o1 rs = Ok owner'"
    by (auto split: sum.splits)
  note claims = claim_members [OF conjunct1 [OF check_region_parts [OF o1]]]
  note IH = Cons.IH [OF rest]
  have "distinct (region_nodes r @ concat (map region_nodes rs))"
    using claims IH by auto
  moreover have "set (concat (map region_nodes rs)) \<inter> dom (map_of owner) = {}"
    using claims IH by blast
  ultimately show ?case using claims IH by auto
qed

lemma check_regions_each:
  assumes "check_regions g granted budget = Ok ()" "r \<in> set (regions g)"
  obtains owner owner' where "check_region g granted budget owner r = Ok owner'"
  using assms by (auto simp: check_regions_def dest: try_fold_step_Ok)

text \<open>\<open>narrows g granted budget r\<close>: the region holds no capability and no budget the
  definition did not grant.\<close>

definition narrows :: "capability_set \<Rightarrow> resource_budget \<Rightarrow> region \<Rightarrow> bool" where
  "narrows granted budget r =
     (map_of (region_capabilities r) \<subseteq>\<^sub>m map_of granted \<and> is_within (region_budget r) budget)"

lemma check_against_parent_narrows:
  assumes "bt_wf (region_capabilities r)"
  shows "check_against_parent r cs b = Ok u \<longleftrightarrow> narrows cs b r"
  by (simp add: check_against_parent_def narrows_def check_narrows_iff [OF assms])

text \<open>The walk to the outermost scope visits every ancestor, each of which narrows the next.\<close>

lemma nesting_walk_narrows:
  assumes "nesting_walk g r seen current = Ok ()"
    and "current \<in> set (regions g)"
    and "\<forall>q \<in> set (regions g). \<exists>cs b. parent_scope g granted budget q = Ok (cs, b) \<and> narrows cs b q"
  shows "narrows granted budget current"
  using assms
proof (induction g r seen current rule: nesting_walk.induct)
  case (1 g r seen current)
  from "1.prems" obtain cs b where scope: "parent_scope g granted budget current = Ok (cs, b)"
    and narrow: "narrows cs b current" by blast
  show ?case
  proof (cases "region_parent current")
    case None
    then show ?thesis using scope narrow by (simp add: parent_scope_def)
  next
    case (Some parent)
    with scope obtain up where up: "map_of (graph_regions g) parent = Some up"
        and cs: "cs = region_capabilities up" "b = region_budget up"
      by (auto simp: parent_scope_def split: option.splits)
    from "1.prems"(1) Some up have fresh: "parent \<notin> set seen" "parent \<noteq> region_id r"
      and walk: "nesting_walk g r (bs_insert parent seen) up = Ok ()"
      by (simp_all add: nesting_walk.simps [of g r seen current] split: if_splits)
    have member: "up \<in> set (regions g)"
      using map_of_SomeD [OF up] by (force simp: regions_def bt_values_def)
    have "narrows granted budget up"
      by (rule "1.IH" [OF Some fresh up walk member "1.prems"(3)])
    then show ?thesis
      using narrow unfolding cs narrows_def by (meson is_within_trans map_le_trans)
  qed
qed

text \<open>C40. Nesting narrows at every depth: in a graph whose regions pass the check, every
  region, however deeply nested, holds only capabilities the definition granted, with the
  grants it gave them, and fits in the definition's budget; no two regions share a node,
  every member is a declared node, and a loop's continuation is a boolean output of a node
  inside the loop under a non-zero iteration budget.\<close>

theorem check_regions_narrow:
  assumes "check_regions g granted budget = Ok ()"
    and "\<forall>r \<in> set (regions g). bt_wf (region_capabilities r)"
  shows "distinct (concat (map region_nodes (regions g))) \<and>
         (\<forall>r \<in> set (regions g).
            narrows granted budget r \<and> set (region_nodes r) \<subseteq> set (bt_keys (graph_nodes g)) \<and>
            (\<forall>spec. region_kind r = Loop spec \<longrightarrow>
               max_iterations (loop_budget spec) \<noteq> 0 \<and>
               region_contains r (evaluated_by (loop_continuation spec)) \<and>
               output_of g (evaluated_by (loop_continuation spec)) (continuation_port (loop_continuation spec))
                 = Some SBool))"
proof -
  have step: "\<forall>q \<in> set (regions g). \<exists>cs b. parent_scope g granted budget q = Ok (cs, b) \<and> narrows cs b q"
  proof
    fix q assume q: "q \<in> set (regions g)"
    then obtain owner owner' where "check_region g granted budget owner q = Ok owner'"
      using assms(1) check_regions_each by blast
    with check_region_parts assms(2) q
    show "\<exists>cs b. parent_scope g granted budget q = Ok (cs, b) \<and> narrows cs b q"
      by (metis check_against_parent_narrows)
  qed
  from assms(1) obtain final where "try_fold (check_region g granted budget) [] (regions g) = Ok final"
    by (auto simp: check_regions_def)
  note members = check_regions_disjoint [OF this]
  show ?thesis
  proof (intro conjI ballI)
    show "distinct (concat (map region_nodes (regions g)))" using members by simp
    fix r assume r: "r \<in> set (regions g)"
    then obtain owner owner' where cr: "check_region g granted budget owner r = Ok owner'"
      using assms(1) check_regions_each by blast
    note parts = check_region_parts [OF cr]
    show "narrows granted budget r"
      using parts nesting_walk_narrows [OF _ r step] by (auto simp: check_no_cyclic_nesting_def)
    show "set (region_nodes r) \<subseteq> set (bt_keys (graph_nodes g))"
      using members r by (auto simp: bt_keys_def dom_map_of_conv_image_fst)
    show "\<forall>spec. region_kind r = Loop spec \<longrightarrow>
               max_iterations (loop_budget spec) \<noteq> 0 \<and>
               region_contains r (evaluated_by (loop_continuation spec)) \<and>
               output_of g (evaluated_by (loop_continuation spec)) (continuation_port (loop_continuation spec))
                 = Some SBool"
      using parts
      by (auto simp: check_loop_def Let_def loop_spec_check_def loop_budget_check_def loop_inside_def
          split: if_splits)
  qed
qed

definition sample_spec :: loop_spec where
  "sample_spec =
     \<lparr>loop_state_schema = [], loop_exit_schema = [],
      loop_continuation = \<lparr>evaluated_by = Identifier ''work'', continuation_port = Identifier ''again''\<rparr>,
      loop_budget = \<lparr>max_iterations = 3, loop_wall_ms = 1000, loop_tokens = 10, loop_cost_micro_units = 10,
                     loop_effect_count = 0\<rparr>,
      loop_invariants = [], loop_progress = None, loop_repairs = []\<rparr>"

definition sample_region :: region where
  "sample_region =
     \<lparr>region_id = Identifier ''loop'', region_kind = Loop sample_spec, region_parent = None,
      region_entry = Identifier ''enter'', region_exit = Identifier ''leave'',
      region_nodes = [Identifier ''enter'', Identifier ''leave'', Identifier ''work''],
      region_capabilities = [], region_budget = deterministic 1\<rparr>"

definition sample_loop_graph :: graph where
  "sample_loop_graph =
     \<lparr>graph_nodes =
        [(Identifier ''enter'', sample_node ''enter'' \<lparr>node_kind := RegionEntry\<rparr>),
         (Identifier ''leave'', sample_node ''leave'' \<lparr>node_kind := RegionExit\<rparr>),
         (Identifier ''work'', sample_node ''work'' \<lparr>node_outputs := [output_port_new (Identifier ''again'') SBool]\<rparr>)],
      graph_edges = [],
      graph_control = [ControlEdge (Identifier ''enter'') (Identifier ''work''),
                       ControlEdge (Identifier ''work'') (Identifier ''leave'')],
      graph_branches = [], graph_regions = [(Identifier ''loop'', sample_region)],
      graph_inputs = [], graph_outputs = []\<rparr>"

lemma sample_regions: "regions sample_loop_graph = [sample_region]"
  by (simp add: regions_def bt_values_def sample_loop_graph_def)

theorem check_regions_narrow_witness:
  "check_regions sample_loop_graph [] (deterministic 5) = Ok () \<and>
   narrows [] (deterministic 5) sample_region"
proof -
  have ok: "check_regions sample_loop_graph [] (deterministic 5) = Ok ()"
    by code_simp
  moreover have "narrows [] (deterministic 5) sample_region"
    using check_regions_narrow [OF ok] by (simp add: sample_regions) (simp add: sample_region_def)
  ultimately show ?thesis by blast
qed

end
