(* ===== verification/Graph_Cycles.thy ===== *)
theory Graph_Cycles
  imports Graph
begin

text \<open>
  The cycle check of \<open>crates/ir/src/graph.rs\<close>: the adjacency of data and control flow, the
  depth-first search \<open>find_cycle\<close> with its visited set, stack and on-stack set, and
  \<open>check_cycles\<close>, followed by \<open>Graph::check\<close>. Without loop regions the check accepts
  exactly the graphs in which no declared node reaches itself; with loop regions it can
  miss a cycle, which \<open>check_cycles_misses_a_cycle\<close> exhibits.
\<close>

section \<open>The search\<close>

type_synonym adjacency = "(ident, ident btree_set) btree_map"

definition adjacency_of :: "graph \<Rightarrow> adjacency" where
  "adjacency_of g =
     (let from_edges =
            foldl (\<lambda>adj e.
              foldl (\<lambda>adj source.
                foldl (\<lambda>adj target. bt_entry [] source (bs_insert target) adj) adj
                  (filter_map endpoint_node (edge_targets e))) adj
                (filter_map endpoint_node (edge_sources e))) [] (edges g)
      in foldl (\<lambda>adj c. bt_entry [] (control_from c) (bs_insert (control_to c)) adj) from_edges
           (graph_control g))"

record search =
  visited :: "ident btree_set"
  stack :: "ident list"
  on_stack :: "ident btree_set"

definition enter_node :: "ident \<Rightarrow> search \<Rightarrow> search" where
  "enter_node n s = s \<lparr>visited := bs_insert n (visited s), stack := stack s @ [n],
                       on_stack := bs_insert n (on_stack s)\<rparr>"

definition leave_node :: "ident \<Rightarrow> search \<Rightarrow> search" where
  "leave_node n s = s \<lparr>stack := butlast (stack s), on_stack := bs_remove n (on_stack s)\<rparr>"

text \<open>\<open>stack[start..]\<close> from the first occurrence of the target, or from 0.\<close>

definition cycle_from :: "ident \<Rightarrow> ident list \<Rightarrow> ident list" where
  "cycle_from target st =
     (if target \<in> set st then dropWhile (\<lambda>x. x \<noteq> target) st else st)"

definition targets_of :: "adjacency \<Rightarrow> ident \<Rightarrow> ident list" where
  "targets_of adj n = bt_get_or [] adj n"

text \<open>The loop over the targets of one node. The recursive call of the source enters the
  target and runs the same loop over its own targets.\<close>

function find_cycle_targets ::
  "adjacency \<Rightarrow> ident \<Rightarrow> ident list \<Rightarrow> search \<Rightarrow> ident list option \<times> search" where
  "find_cycle_targets adj n [] s = (None, leave_node n s)"
| "find_cycle_targets adj n (target # rest) s =
     (if target \<in> set (on_stack s) then (Some (cycle_from target (stack s)), leave_node n s)
      else if target \<notin> set (visited s)
      then (case find_cycle_targets adj target (targets_of adj target) (enter_node target s) of
              (Some cycle, s') \<Rightarrow> (Some cycle, leave_node n s')
            | (None, s') \<Rightarrow> find_cycle_targets adj n rest s')
      else find_cycle_targets adj n rest s)"
  by pat_completeness auto

definition all_targets :: "adjacency \<Rightarrow> ident set" where
  "all_targets adj = (\<Union>(k, ts) \<in> set adj. set ts)"

lemma targets_of_subset: "set (targets_of adj n) \<subseteq> all_targets adj"
proof (cases "map_of adj n")
  case None
  then show ?thesis by (simp add: targets_of_def bt_get_or_def)
next
  case (Some ts)
  from map_of_SomeD [OF this] have "set ts \<subseteq> all_targets adj" by (force simp: all_targets_def)
  with Some show ?thesis by (simp add: targets_of_def bt_get_or_def)
qed

lemma finite_all_targets [simp]: "finite (all_targets adj)"
  by (auto simp: all_targets_def)

lemma visited_leave_node [simp]: "visited (leave_node n s) = visited s"
  by (simp add: leave_node_def)

lemma set_visited_enter [simp]: "set (visited (enter_node n s)) = insert n (set (visited s))"
  by (simp add: enter_node_def)

text \<open>The search only ever adds to the visited set; so every recursive call has fewer
  unvisited targets, or the same and a shorter list left.\<close>

lemma find_cycle_targets_visited:
  "find_cycle_targets_dom (adj, n, ts, s) \<Longrightarrow>
     set (visited s) \<subseteq> set (visited (snd (find_cycle_targets adj n ts s)))"
proof (induction rule: find_cycle_targets.pinduct)
  case (1 adj n s)
  then show ?case by (simp add: find_cycle_targets.psimps)
next
  case (2 adj n target rest s)
  show ?case
  proof (cases "target \<in> set (on_stack s) \<or> target \<in> set (visited s)")
    case True
    with 2 show ?thesis by (auto simp: find_cycle_targets.psimps)
  next
    case False
    obtain c s' where inner:
        "find_cycle_targets adj target (targets_of adj target) (enter_node target s) = (c, s')"
      by fastforce
    have sub: "set (visited s) \<subseteq> set (visited s')"
      using "2.IH"(1) False inner by auto
    show ?thesis
    proof (cases c)
      case None
      have "set (visited s') \<subseteq> set (visited (snd (find_cycle_targets adj n rest s')))"
        using "2.IH"(2) [OF _ _ inner [symmetric] None] False by auto
      with sub None False inner 2(1) show ?thesis by (auto simp: find_cycle_targets.psimps)
    next
      case (Some cyc)
      with sub False inner 2(1) show ?thesis by (auto simp: find_cycle_targets.psimps)
    qed
  qed
qed

termination find_cycle_targets
proof (relation "measures [\<lambda>(adj, n, ts, s). card ((all_targets adj \<union> set ts) - set (visited s)),
                           \<lambda>(adj, n, ts, s). length ts]", goal_cases)
  case 1
  then show ?case by simp
next
  case (2 adj n target rest s)
  have "(all_targets adj \<union> set (targets_of adj target)) - set (visited (enter_node target s))
          \<subset> (all_targets adj \<union> set (target # rest)) - set (visited s)"
    using 2 targets_of_subset [of adj target] by auto
  then have "card ((all_targets adj \<union> set (targets_of adj target)) - set (visited (enter_node target s)))
          < card ((all_targets adj \<union> set (target # rest)) - set (visited s))"
    by (intro psubset_card_mono) simp_all
  then show ?case by simp
next
  case (3 adj n target rest s c s')
  have "insert target (set (visited s)) \<subseteq> set (visited s')"
    using find_cycle_targets_visited [OF 3(5)] 3(3) by (metis set_visited_enter snd_conv)
  then have "card ((all_targets adj \<union> set rest) - set (visited s'))
          \<le> card ((all_targets adj \<union> set (target # rest)) - set (visited s))"
    by (intro card_mono) auto
  then show ?case by auto
next
  case (4 adj n target rest s)
  then have "card ((all_targets adj \<union> set rest) - set (visited s))
          \<le> card ((all_targets adj \<union> set (target # rest)) - set (visited s))"
    by (intro card_mono) auto
  then show ?case by auto
qed

text \<open>The four ways one target is dealt with.\<close>

lemma find_cycle_targets_cases:
  assumes "find_cycle_targets adj n (target # rest) s = (c, s')"
  obtains (cycle) "target \<in> set (on_stack s)" "c = Some (cycle_from target (stack s))" "s' = leave_node n s"
  | (skip) "target \<notin> set (on_stack s)" "target \<in> set (visited s)" "find_cycle_targets adj n rest s = (c, s')"
  | (found) cyc s1 where "target \<notin> set (on_stack s)" "target \<notin> set (visited s)"
      "find_cycle_targets adj target (targets_of adj target) (enter_node target s) = (Some cyc, s1)"
      "c = Some cyc" "s' = leave_node n s1"
  | (descend) s1 where "target \<notin> set (on_stack s)" "target \<notin> set (visited s)"
      "find_cycle_targets adj target (targets_of adj target) (enter_node target s) = (None, s1)"
      "find_cycle_targets adj n rest s1 = (c, s')"
proof -
  obtain d s1 where inner:
      "find_cycle_targets adj target (targets_of adj target) (enter_node target s) = (d, s1)"
    by fastforce
  with assms that show ?thesis by (cases d) (auto split: if_splits)
qed

declare find_cycle_targets.simps(2) [simp del]

definition find_cycle :: "adjacency \<Rightarrow> ident \<Rightarrow> search \<Rightarrow> ident list option \<times> search" where
  "find_cycle adj n s = find_cycle_targets adj n (targets_of adj n) (enter_node n s)"

fun join_arrows :: "string list \<Rightarrow> string" where
  "join_arrows [] = []"
| "join_arrows [x] = x"
| "join_arrows (x # xs) = x @ '' -> '' @ join_arrows xs"

definition render_cycle :: "ident list \<Rightarrow> string" where
  "render_cycle cycle = join_arrows (map (\<lambda>n. ''`'' @ as_str n @ ''`'') cycle)"

definition inside_one_loop :: "graph \<Rightarrow> ident list \<Rightarrow> bool" where
  "inside_one_loop g cycle =
     list_ex (\<lambda>r. permits_cycles (region_kind r) \<and> list_all (region_contains r) cycle) (regions g)"

definition check_cycles_from :: "graph \<Rightarrow> search \<Rightarrow> ident \<Rightarrow> (graph_error, search) result" where
  "check_cycles_from g s start =
     (if start \<in> set (visited s) then Ok s
      else case find_cycle (adjacency_of g) start s of
             (Some cycle, s') \<Rightarrow>
               if \<not> inside_one_loop g cycle then Err (UndeclaredCycle (render_cycle cycle)) else Ok s'
           | (None, s') \<Rightarrow> Ok s')"

definition check_cycles :: "graph \<Rightarrow> (graph_error, unit) result" where
  "check_cycles g =
     and_then (try_fold (check_cycles_from g) \<lparr>visited = [], stack = [], on_stack = []\<rparr>
                 (bt_keys (graph_nodes g))) (\<lambda>_. Ok ())"

definition graph_check :: "graph \<Rightarrow> capability_set \<Rightarrow> resource_budget \<Rightarrow> (graph_error, unit) result" where
  "graph_check g granted budget =
     and_then (try_for_each (\<lambda>n. map_err NodeErr (node_check n granted)) (nodes g)) (\<lambda>_.
     and_then (check_regions g granted budget) (\<lambda>_.
     and_then (try_for_each (check_edge g) (edges g)) (\<lambda>_.
     and_then (check_branches g) (\<lambda>_.
       check_cycles g))))"

section \<open>The adjacency is the flow relation\<close>

lemma targets_of_entry [simp]:
  "targets_of (bt_entry [] k (bs_insert t) adj) n = (if n = k then bs_insert t (targets_of adj k) else targets_of adj n)"
  by (simp add: targets_of_def)

lemma adjacency_targets:
  "set (targets_of (foldl (\<lambda>adj target. bt_entry [] a (bs_insert target) adj) adj ts) n) =
     set (targets_of adj n) \<union> (if n = a then set ts else {})"
  by (induction ts arbitrary: adj) auto

lemma adjacency_sources:
  "set (targets_of (foldl (\<lambda>adj source. foldl (\<lambda>adj target. bt_entry [] source (bs_insert target) adj) adj ts)
      adj ss) n) = set (targets_of adj n) \<union> (if n \<in> set ss then set ts else {})"
  by (induction ss arbitrary: adj) (auto simp: adjacency_targets)

lemma adjacency_edges:
  "set (targets_of (foldl (\<lambda>adj e. foldl (\<lambda>adj source.
          foldl (\<lambda>adj target. bt_entry [] source (bs_insert target) adj) adj
            (filter_map endpoint_node (edge_targets e))) adj (filter_map endpoint_node (edge_sources e)))
      adj es) n) =
   set (targets_of adj n) \<union>
     {t. \<exists>e \<in> set es. Some n \<in> endpoint_node ` set (edge_sources e) \<and>
                       Some t \<in> endpoint_node ` set (edge_targets e)}"
  by (induction es arbitrary: adj) (auto simp: adjacency_sources set_filter_map Some_in_image)

lemma adjacency_control:
  "set (targets_of (foldl (\<lambda>adj c. bt_entry [] (control_from c) (bs_insert (control_to c)) adj) adj cs) n) =
   set (targets_of adj n) \<union> {t. \<exists>c \<in> set cs. control_from c = n \<and> control_to c = t}"
  by (induction cs arbitrary: adj) auto

lemma set_targets_of_adjacency: "t \<in> set (targets_of (adjacency_of g) n) \<longleftrightarrow> feeds g n t"
  unfolding adjacency_of_def Let_def adjacency_control adjacency_edges
  unfolding feeds_def
  by (auto simp: targets_of_def bt_get_or_def)

section \<open>Correctness of the search\<close>

definition flow :: "adjacency \<Rightarrow> (ident \<times> ident) set" where
  "flow adj = {(a, b). b \<in> set (targets_of adj a)}"

definition stack_ok :: "search \<Rightarrow> bool" where
  "stack_ok s = (set (on_stack s) = set (stack s) \<and> distinct (stack s) \<and> set (stack s) \<subseteq> set (visited s))"

lemma stack_ok_enter: "stack_ok s \<Longrightarrow> n \<notin> set (visited s) \<Longrightarrow> stack_ok (enter_node n s)"
  by (auto simp: stack_ok_def enter_node_def)

lemma stack_ok_leave: "stack_ok s \<Longrightarrow> stack s = S @ [n] \<Longrightarrow> stack_ok (leave_node n s) \<and> stack (leave_node n s) = S"
  by (auto simp: stack_ok_def leave_node_def)

text \<open>Every return, with or without a cycle, leaves the stack as it was before the node was
  entered.\<close>

lemma find_cycle_targets_restores:
  "stack_ok s \<Longrightarrow> stack s = S @ [n] \<Longrightarrow> find_cycle_targets adj n ts s = (c, s') \<Longrightarrow>
     stack_ok s' \<and> stack s' = S"
proof (induction adj n ts s arbitrary: S c s' rule: find_cycle_targets.induct)
  case (1 adj n s)
  then show ?case using stack_ok_leave by auto
next
  case (2 adj n target rest s)
  from "2.prems"(3) show ?case
  proof (cases rule: find_cycle_targets_cases)
    case cycle
    then show ?thesis using stack_ok_leave [OF "2.prems"(1,2)] by simp
  next
    case skip
    then show ?thesis using "2.IH"(3) "2.prems"(1,2) by blast
  next
    case (found cyc s1)
    then show ?thesis
      using "2.IH"(1) [OF found(1,2) stack_ok_enter [OF "2.prems"(1) found(2)] _ found(3), of "S @ [n]"]
        "2.prems"(2) stack_ok_leave by (simp add: enter_node_def)
  next
    case (descend s1)
    then have "stack_ok s1 \<and> stack s1 = S @ [n]"
      using "2.IH"(1) [OF descend(1,2) stack_ok_enter [OF "2.prems"(1) descend(2)] _ descend(3), of "S @ [n]"]
        "2.prems"(2) by (simp add: enter_node_def)
    then show ?thesis using "2.IH"(2) [OF descend(1,2) descend(3) [symmetric] refl] descend(4) by blast
  qed
qed

text \<open>A cycle that is reported is one: its nodes follow each other along the flow and the
  last one flows to the first. All of them are on the stack, which is a path.\<close>

definition real_cycle :: "(ident \<times> ident) set \<Rightarrow> ident list \<Rightarrow> bool" where
  "real_cycle R c = (c \<noteq> [] \<and> successively (\<lambda>a b. (a, b) \<in> R) c \<and> (last c, hd c) \<in> R)"

lemma successively_suffix: "successively P (xs @ ys) \<Longrightarrow> successively P ys"
  by (induction xs) (auto simp: successively_Cons split: if_splits)

lemma cycle_from_real:
  assumes "successively (\<lambda>a b. (a, b) \<in> R) (S @ [n])" "target \<in> set (S @ [n])" "(n, target) \<in> R"
  shows "real_cycle R (cycle_from target (S @ [n])) \<and> set (cycle_from target (S @ [n])) \<subseteq> set (S @ [n])"
proof -
  let ?d = "dropWhile (\<lambda>x. x \<noteq> target) (S @ [n])"
  have ne: "?d \<noteq> []" using assms(2) by (simp only: dropWhile_eq_Nil_conv) blast
  have "hd ?d = target" using hd_dropWhile [OF ne] by simp
  moreover have "last ?d = n" using ne
    by (metis last_appendR last_snoc not_Cons_self2 takeWhile_dropWhile_id)
  moreover have "successively (\<lambda>a b. (a, b) \<in> R) ?d"
    using assms(1) successively_suffix by (metis takeWhile_dropWhile_id)
  moreover have "set ?d \<subseteq> set (S @ [n])" using set_dropWhileD by fast
  ultimately show ?thesis using ne assms(2,3) by (auto simp: real_cycle_def cycle_from_def)
qed

lemma stack_enter [simp]: "stack (enter_node t s) = stack s @ [t]"
  by (simp add: enter_node_def)

lemma find_cycle_targets_real:
  "stack_ok s \<Longrightarrow> stack s = S @ [n] \<Longrightarrow> successively (\<lambda>a b. (a, b) \<in> flow adj) (stack s) \<Longrightarrow>
   set ts \<subseteq> set (targets_of adj n) \<Longrightarrow> (start, n) \<in> (flow adj)\<^sup>* \<Longrightarrow>
   \<forall>m \<in> set (stack s). (start, m) \<in> (flow adj)\<^sup>* \<Longrightarrow>
   find_cycle_targets adj n ts s = (Some c, s') \<Longrightarrow>
     real_cycle (flow adj) c \<and> (\<forall>m \<in> set c. (start, m) \<in> (flow adj)\<^sup>*)"
proof (induction adj n ts s arbitrary: S c s' rule: find_cycle_targets.induct)
  case (1 adj n s)
  then show ?case by simp
next
  case (2 adj n target rest s)
  have arc: "(n, target) \<in> flow adj" using "2.prems"(4) by (auto simp: flow_def)
  then have reach: "(start, target) \<in> (flow adj)\<^sup>*"
    using "2.prems"(5) by (meson rtrancl.rtrancl_into_rtrancl)
  have path: "successively (\<lambda>a b. (a, b) \<in> flow adj) (stack (enter_node target s))"
    using "2.prems"(2,3) arc by (simp add: successively_append_iff)
  have deeper: "\<forall>m \<in> set (stack (enter_node target s)). (start, m) \<in> (flow adj)\<^sup>*"
    using "2.prems"(6) reach by auto
  from "2.prems"(7) show ?case
  proof (cases rule: find_cycle_targets_cases)
    case cycle
    then have "target \<in> set (S @ [n])" using "2.prems"(1,2) by (simp add: stack_ok_def)
    then show ?thesis
      using cycle_from_real [OF _ _ arc, of S] "2.prems"(2,3,6) cycle(2) by auto
  next
    case skip
    then show ?thesis using "2.IH"(3) [OF skip(1) _ "2.prems"(1-3) _ "2.prems"(5,6)] "2.prems"(4) by auto
  next
    case (found cyc s1)
    then show ?thesis
      using "2.IH"(1) [OF found(1,2) stack_ok_enter [OF "2.prems"(1) found(2)] _ path _ reach deeper found(3)]
        "2.prems"(2) by auto
  next
    case (descend s1)
    have s1: "stack_ok s1" "stack s1 = S @ [n]"
      using find_cycle_targets_restores [OF stack_ok_enter [OF "2.prems"(1) descend(2)] _ descend(3), of "S @ [n]"]
        "2.prems"(2) by auto
    have "successively (\<lambda>a b. (a, b) \<in> flow adj) (stack s1)" "\<forall>m \<in> set (stack s1). (start, m) \<in> (flow adj)\<^sup>*"
      using s1(2) "2.prems"(2,3,6) by auto
    then show ?thesis
      using "2.IH"(2) [OF descend(1,2) descend(3) [symmetric] refl s1 _ _ "2.prems"(5) _ descend(4)]
        "2.prems"(4) by auto
  qed
qed

text \<open>Nodes that are visited and off the stack are closed under the flow and on no cycle.\<close>

definition settled :: "search \<Rightarrow> ident set" where
  "settled s = set (visited s) - set (stack s)"

definition settled_ok :: "(ident \<times> ident) set \<Rightarrow> ident set \<Rightarrow> bool" where
  "settled_ok R B = (R `` B \<subseteq> B \<and> (\<forall>b \<in> B. (b, b) \<notin> R\<^sup>+))"

lemma closed_rtrancl: "R `` B \<subseteq> B \<Longrightarrow> b \<in> B \<Longrightarrow> (b, c) \<in> R\<^sup>* \<Longrightarrow> c \<in> B"
  by (rule rtrancl_induct) auto

lemma settled_ok_insert:
  assumes "settled_ok R B" "n \<notin> B" "R `` {n} \<subseteq> B"
  shows "settled_ok R (insert n B)"
proof -
  have "(n, n) \<notin> R\<^sup>+"
  proof
    assume "(n, n) \<in> R\<^sup>+"
    then obtain t where "(n, t) \<in> R" "(t, n) \<in> R\<^sup>*" by (meson tranclD)
    then show False using assms closed_rtrancl [of R B t n] by (auto simp: settled_ok_def)
  qed
  with assms show ?thesis by (auto simp: settled_ok_def)
qed

lemma settled_enter: "stack_ok s \<Longrightarrow> t \<notin> set (visited s) \<Longrightarrow> settled (enter_node t s) = settled s"
  by (auto simp: settled_def stack_ok_def)

lemma find_cycle_targets_None:
  "stack_ok s \<Longrightarrow> stack s = S @ [n] \<Longrightarrow> settled_ok (flow adj) (settled s) \<Longrightarrow>
   set (targets_of adj n) \<subseteq> set ts \<union> settled s \<Longrightarrow>
   find_cycle_targets adj n ts s = (None, s') \<Longrightarrow>
     settled_ok (flow adj) (settled s') \<and> insert n (settled s) \<subseteq> settled s'"
proof (induction adj n ts s arbitrary: S s' rule: find_cycle_targets.induct)
  case (1 adj n s)
  then have s': "s' = leave_node n s" by simp
  have n: "n \<notin> settled s" "n \<in> set (visited s)" using "1.prems"(1,2) by (auto simp: settled_def stack_ok_def)
  have "settled s' = insert n (settled s)"
    using "1.prems"(1,2) s' n by (auto simp: settled_def leave_node_def stack_ok_def)
  moreover have "flow adj `` {n} \<subseteq> settled s" using "1.prems"(4) by (auto simp: flow_def)
  ultimately show ?case using settled_ok_insert [OF "1.prems"(3) n(1)] by simp
next
  case (2 adj n target rest s)
  from "2.prems"(5) show ?case
  proof (cases rule: find_cycle_targets_cases)
    case skip
    then have "target \<in> settled s" using "2.prems"(1) by (simp add: settled_def stack_ok_def)
    then show ?thesis using "2.IH"(3) [OF skip(1) _ "2.prems"(1-3) _ skip(3)] "2.prems"(4) skip(2) by auto
  next
    case (descend s1)
    note entered = stack_ok_enter [OF "2.prems"(1) descend(2)] settled_enter [OF "2.prems"(1) descend(2)]
    have s1: "stack_ok s1" "stack s1 = S @ [n]"
      using find_cycle_targets_restores [OF entered(1) _ descend(3), of "S @ [n]"] "2.prems"(2) by auto
    have inner: "settled_ok (flow adj) (settled s1) \<and> insert target (settled s) \<subseteq> settled s1"
      using "2.IH"(1) [OF descend(1,2) entered(1) _ _ _ descend(3)] "2.prems"(2,3) entered(2) by auto
    then show ?thesis
      using "2.IH"(2) [OF descend(1,2) descend(3) [symmetric] refl s1 _ _ descend(4)] "2.prems"(4) by auto
  qed auto
qed

section \<open>What the cycle check decides\<close>

abbreviation graph_flow :: "graph \<Rightarrow> (ident \<times> ident) set" where
  "graph_flow g \<equiv> {(a, b). feeds g a b}"

lemma flow_adjacency [simp]: "flow (adjacency_of g) = graph_flow g"
  by (auto simp: flow_def set_targets_of_adjacency)

text \<open>Between two starts of the search the stack is empty.\<close>

definition idle :: "search \<Rightarrow> bool" where
  "idle s = (stack_ok s \<and> stack s = [])"

lemma find_cycle_idle: "idle s \<Longrightarrow> n \<notin> set (visited s) \<Longrightarrow> find_cycle adj n s = (c, s') \<Longrightarrow> idle s'"
  unfolding idle_def find_cycle_def
  using find_cycle_targets_restores [OF stack_ok_enter, of s n "[]"] by auto

lemma find_cycle_None:
  assumes "idle s" "n \<notin> set (visited s)" "find_cycle adj n s = (None, s')"
    and "settled_ok (flow adj) (set (visited s))"
  shows "settled_ok (flow adj) (set (visited s')) \<and> insert n (set (visited s)) \<subseteq> set (visited s')"
proof -
  have stacks: "stack s = []" "stack s' = []" "stack_ok s"
    using assms(1) find_cycle_idle [OF assms(1-3)] by (auto simp: idle_def)
  then have settled: "settled s = set (visited s)" "settled s' = set (visited s')" by (simp_all add: settled_def)
  show ?thesis
    using find_cycle_targets_None [OF stack_ok_enter [OF stacks(3) assms(2)], of "[]" n adj "targets_of adj n" s']
      assms(3,4) settled_enter [OF stacks(3) assms(2)] stacks settled by (simp add: find_cycle_def)
qed

lemma find_cycle_Some:
  assumes "idle s" "n \<notin> set (visited s)" "find_cycle adj n s = (Some c, s')"
  shows "real_cycle (flow adj) c \<and> (\<forall>m \<in> set c. (n, m) \<in> (flow adj)\<^sup>*)"
  using find_cycle_targets_real [OF stack_ok_enter [of s n], of "[]" n adj "targets_of adj n" n c s'] assms
  by (simp add: idle_def find_cycle_def)

lemma check_cycles_from_idle:
  "idle s \<Longrightarrow> check_cycles_from g s start = Ok s' \<Longrightarrow> idle s'"
  using find_cycle_idle by (auto simp: check_cycles_from_def split: if_splits prod.splits option.splits)

lemma real_cycle_trancl: "real_cycle R c \<Longrightarrow> (hd c, hd c) \<in> R\<^sup>+"
proof -
  assume c: "real_cycle R c"
  have "xs \<noteq> [] \<Longrightarrow> successively (\<lambda>a b. (a, b) \<in> R) xs \<Longrightarrow> (hd xs, last xs) \<in> R\<^sup>*" for xs
  proof (induction xs)
    case (Cons x xs)
    then show ?case by (cases xs) (auto intro: converse_rtrancl_into_rtrancl)
  qed simp
  then have "(hd c, last c) \<in> R\<^sup>*" "(last c, hd c) \<in> R" using c by (auto simp: real_cycle_def)
  then show ?thesis by (rule rtrancl_into_trancl1)
qed

lemma check_cycles_fold:
  assumes "try_fold (check_cycles_from g) s ns = Ok s'" "idle s"
    and "settled_ok (graph_flow g) (set (visited s))"
    and "\<forall>r \<in> set (regions g). \<not> permits_cycles (region_kind r)"
  shows "settled_ok (graph_flow g) (set (visited s')) \<and> set ns \<union> set (visited s) \<subseteq> set (visited s')"
  using assms(1-3)
proof (induction ns arbitrary: s)
  case Nil
  then show ?case by simp
next
  case (Cons n ns)
  then obtain t where t: "check_cycles_from g s n = Ok t" and rest: "try_fold (check_cycles_from g) t ns = Ok s'"
    by (auto split: sum.splits)
  have none: "\<not> inside_one_loop g c" for c using assms(4) by (auto simp: inside_one_loop_def list_ex_iff)
  have "settled_ok (graph_flow g) (set (visited t)) \<and> insert n (set (visited s)) \<subseteq> set (visited t)"
  proof (cases "n \<in> set (visited s)")
    case True
    then show ?thesis using t Cons.prems(3) by (auto simp: check_cycles_from_def)
  next
    case False
    with t none have "find_cycle (adjacency_of g) n s = (None, t)"
      by (auto simp: check_cycles_from_def split: prod.splits option.splits if_splits)
    then show ?thesis using find_cycle_None [OF Cons.prems(2) False, of "adjacency_of g" t] Cons.prems(3) by simp
  qed
  moreover have "idle t" using t Cons.prems(2) by (rule check_cycles_from_idle [rotated])
  ultimately show ?case using Cons.IH [OF rest] by auto
qed

lemma check_cycles_fold_error:
  assumes "try_fold (check_cycles_from g) s ns = Err err" "idle s"
  shows "\<exists>c n. err = UndeclaredCycle (render_cycle c) \<and> n \<in> set ns \<and> real_cycle (graph_flow g) c \<and>
               (\<forall>m \<in> set c. (n, m) \<in> (graph_flow g)\<^sup>*) \<and> \<not> inside_one_loop g c"
  using assms
proof (induction ns arbitrary: s)
  case Nil
  then show ?case by simp
next
  case (Cons n ns)
  show ?case
  proof (cases "check_cycles_from g s n")
    case (Inl e)
    then obtain c t where fresh: "n \<notin> set (visited s)" and found: "find_cycle (adjacency_of g) n s = (Some c, t)"
        and e: "e = UndeclaredCycle (render_cycle c)" "\<not> inside_one_loop g c"
      by (auto simp: check_cycles_from_def split: if_splits prod.splits option.splits)
    with find_cycle_Some [OF Cons.prems(2) fresh found] Inl Cons.prems(1) show ?thesis by auto
  next
    case (Inr t)
    then have "try_fold (check_cycles_from g) t ns = Err err" using Cons.prems(1) by simp
    moreover have "idle t" using Inr Cons.prems(2) by (rule check_cycles_from_idle [rotated])
    ultimately show ?thesis using Cons.IH by fastforce
  qed
qed

lemma idle_initial: "idle \<lparr>visited = [], stack = [], on_stack = []\<rparr>"
  by (simp add: idle_def stack_ok_def)

lemma check_cycles_acyclic:
  assumes "\<forall>r \<in> set (regions g). \<not> permits_cycles (region_kind r)" "check_cycles g = Ok ()"
    and "n \<in> set (bt_keys (graph_nodes g))" "(n, m) \<in> (graph_flow g)\<^sup>*"
  shows "(m, m) \<notin> (graph_flow g)\<^sup>+"
proof -
  from assms(2) obtain s' where "try_fold (check_cycles_from g) \<lparr>visited = [], stack = [], on_stack = []\<rparr>
                 (bt_keys (graph_nodes g)) = Ok s'"
    by (auto simp: check_cycles_def)
  from check_cycles_fold [OF this idle_initial _ assms(1)]
  have "settled_ok (graph_flow g) (set (visited s'))" "set (bt_keys (graph_nodes g)) \<subseteq> set (visited s')"
    by (auto simp: settled_ok_def)
  then show ?thesis using closed_rtrancl [of "graph_flow g" "set (visited s')"] assms(3,4) by (auto simp: settled_ok_def)
qed

lemma check_cycles_complete:
  assumes "\<forall>n \<in> set (bt_keys (graph_nodes g)). \<forall>m. (n, m) \<in> (graph_flow g)\<^sup>* \<longrightarrow> (m, m) \<notin> (graph_flow g)\<^sup>+"
  shows "check_cycles g = Ok ()"
proof (cases "try_fold (check_cycles_from g) \<lparr>visited = [], stack = [], on_stack = []\<rparr> (bt_keys (graph_nodes g))")
  case (Inl err)
  from check_cycles_fold_error [OF this idle_initial] obtain c n where
      n: "n \<in> set (bt_keys (graph_nodes g))" and c: "real_cycle (graph_flow g) c"
      and reach: "\<forall>m \<in> set c. (n, m) \<in> (graph_flow g)\<^sup>*"
    by blast
  from c have "hd c \<in> set c" by (simp add: real_cycle_def)
  then have "(hd c, hd c) \<notin> (graph_flow g)\<^sup>+" using assms n reach by blast
  then show ?thesis using real_cycle_trancl [OF c] by blast
qed (simp add: check_cycles_def)

text \<open>C38. Repetition must be declared: in a graph without loop regions the check accepts
  exactly when no cycle of data or control flow can be reached from a declared node.\<close>

theorem check_cycles_exact_without_loops:
  assumes "\<forall>r \<in> set (regions g). \<not> permits_cycles (region_kind r)"
  shows "check_cycles g = Ok () \<longleftrightarrow>
           (\<forall>n \<in> set (bt_keys (graph_nodes g)). \<forall>m.
              (n, m) \<in> {(a, b). feeds g a b}\<^sup>* \<longrightarrow> (m, m) \<notin> {(a, b). feeds g a b}\<^sup>+)"
  using check_cycles_acyclic [OF assms] check_cycles_complete [of g] by blast

theorem check_cycles_exact_without_loops_witness:
  "check_cycles sample_edge_graph = Ok () \<and>
   (Identifier ''a'', Identifier ''a'') \<notin> {(a, b). feeds sample_edge_graph a b}\<^sup>+"
proof -
  have none: "\<forall>r \<in> set (regions sample_edge_graph). \<not> permits_cycles (region_kind r)"
    by (simp add: regions_def bt_values_def sample_edge_graph_def)
  have ok: "check_cycles sample_edge_graph = Ok ()" by code_simp
  have "Identifier ''a'' \<in> set (bt_keys (graph_nodes sample_edge_graph))"
    by (simp add: bt_keys_def sample_edge_graph_def)
  then show ?thesis using check_cycles_exact_without_loops [OF none] ok by blast
qed

text \<open>C39. A refusal is never spurious: whatever the regions, the cycle the check reports is a
  real cycle of the flow, reachable from a declared node, and no single loop region
  contains it.\<close>

theorem check_cycles_error_is_real:
  assumes "check_cycles g = Err err"
  shows "\<exists>c n. err = UndeclaredCycle (render_cycle c) \<and> real_cycle {(a, b). feeds g a b} c \<and>
               n \<in> set (bt_keys (graph_nodes g)) \<and> (\<forall>m \<in> set c. (n, m) \<in> {(a, b). feeds g a b}\<^sup>*) \<and>
               \<not> inside_one_loop g c"
proof -
  from assms have "try_fold (check_cycles_from g) \<lparr>visited = [], stack = [], on_stack = []\<rparr>
                 (bt_keys (graph_nodes g)) = Err err"
    by (cases "try_fold (check_cycles_from g) \<lparr>visited = [], stack = [], on_stack = []\<rparr>
                 (bt_keys (graph_nodes g))") (auto simp: check_cycles_def)
  from check_cycles_fold_error [OF this idle_initial] show ?thesis by blast
qed

definition sample_cyclic_graph :: graph where
  "sample_cyclic_graph = sample_edge_graph \<lparr>graph_control := [ControlEdge (Identifier ''b'') (Identifier ''a'')]\<rparr>"

theorem check_cycles_error_is_real_witness:
  "check_cycles sample_cyclic_graph = Err (UndeclaredCycle ''`a` -> `b`'') \<and>
   (\<exists>c. real_cycle {(a, b). feeds sample_cyclic_graph a b} c)"
proof -
  have err: "check_cycles sample_cyclic_graph = Err (UndeclaredCycle ''`a` -> `b`'')" by code_simp
  from check_cycles_error_is_real [OF err] err show ?thesis by blast
qed

text \<open>With a loop region the search stops at the declared cycle and leaves its nodes
  visited, so a second cycle through them is not looked for. Here \<open>enter\<close> and \<open>work\<close> form
  the declared loop, and the cycle through \<open>work\<close> and \<open>zone\<close>, which lies outside the
  region, is accepted.\<close>

definition sample_missed_graph :: graph where
  "sample_missed_graph = sample_loop_graph
     \<lparr>graph_nodes := graph_nodes sample_loop_graph @ [(Identifier ''zone'', sample_node ''zone'')],
      graph_control := [ControlEdge (Identifier ''enter'') (Identifier ''work''),
                        ControlEdge (Identifier ''work'') (Identifier ''enter''),
                        ControlEdge (Identifier ''work'') (Identifier ''zone''),
                        ControlEdge (Identifier ''zone'') (Identifier ''work'')]\<rparr>"

text \<open>The check is incomplete once a loop is declared: there is a graph it accepts, all
  of whose other structural checks pass too, with a cycle of control flow that is inside no
  loop region.\<close>

theorem check_cycles_misses_a_cycle:
  "graph_check sample_missed_graph [] (deterministic 5) = Ok () \<and>
   real_cycle {(a, b). feeds sample_missed_graph a b} [Identifier ''work'', Identifier ''zone''] \<and>
   \<not> inside_one_loop sample_missed_graph [Identifier ''work'', Identifier ''zone'']"
proof (intro conjI)
  show "graph_check sample_missed_graph [] (deterministic 5) = Ok ()" by code_simp
  show "real_cycle {(a, b). feeds sample_missed_graph a b} [Identifier ''work'', Identifier ''zone'']"
    by (simp add: real_cycle_def feeds_def sample_missed_graph_def)
  show "\<not> inside_one_loop sample_missed_graph [Identifier ''work'', Identifier ''zone'']"
    by code_simp
qed

end
