(* ===== verification/Definitions.thy ===== *)
theory Definitions
  imports Graph_Cycles
begin

text \<open>
  Versioned workflow definitions (\<open>crates/ir/src/definition.rs\<close>) with the assurance modes
  they run under, the contracts and obligations they declare
  (\<open>correctness/obligation.rs\<close>), and schema versions (\<open>version.rs\<close>).
\<close>

section \<open>Assurance modes\<close>

datatype assurance_mode = Observe | Verify | Enforce

fun assurance_mode_rank :: "assurance_mode \<Rightarrow> nat" where
  "assurance_mode_rank Observe = 0"
| "assurance_mode_rank Verify = 1"
| "assurance_mode_rank Enforce = 2"

lemma assurance_mode_rank_inj: "assurance_mode_rank a = assurance_mode_rank b \<Longrightarrow> a = b"
  by (cases a; cases b) auto

instantiation assurance_mode :: linorder
begin

definition less_eq_assurance_mode :: "assurance_mode \<Rightarrow> assurance_mode \<Rightarrow> bool" where
  "less_eq_assurance_mode a b = (assurance_mode_rank a \<le> assurance_mode_rank b)"

definition less_assurance_mode :: "assurance_mode \<Rightarrow> assurance_mode \<Rightarrow> bool" where
  "less_assurance_mode a b = (assurance_mode_rank a < assurance_mode_rank b)"

instance
  by standard
     (auto simp: less_eq_assurance_mode_def less_assurance_mode_def intro: assurance_mode_rank_inj)

end

fun assurance_mode_str :: "assurance_mode \<Rightarrow> string" where
  "assurance_mode_str Observe = ''observe''"
| "assurance_mode_str Verify = ''verify''"
| "assurance_mode_str Enforce = ''enforce''"

fun evaluates_obligations :: "assurance_mode \<Rightarrow> bool" where
  "evaluates_obligations m = (m \<in> {Verify, Enforce})"

fun enforces_boundaries :: "assurance_mode \<Rightarrow> bool" where
  "enforces_boundaries m = (m = Enforce)"

definition strictest :: "assurance_mode \<Rightarrow> assurance_mode \<Rightarrow> assurance_mode" where
  "strictest self other = (if self \<ge> other then self else other)"

text \<open>Tightening is a combination in the sense of \<open>weakening_combination\<close>, with the order
  reversed: what is combined is at least as strict as each part.\<close>

interpretation tighten: weakening_combination "(\<ge>) :: assurance_mode \<Rightarrow> assurance_mode \<Rightarrow> bool" strictest
  by unfold_locales (auto simp: strictest_def)

lemma strictest_enforces: "enforces_boundaries a \<Longrightarrow> enforces_boundaries (strictest a b)"
  by (cases b) (auto simp: strictest_def less_eq_assurance_mode_def)

section \<open>Contracts and obligations\<close>

datatype repair_owner =
    AutoRepairable | OwnerRetrieval | OwnerProposer | OwnerVerifier | OwnerPolicy | OwnerRuntime | OwnerHuman

fun repair_owner_str :: "repair_owner \<Rightarrow> string" where
  "repair_owner_str AutoRepairable = ''auto_repairable''"
| "repair_owner_str OwnerRetrieval = ''retrieval''"
| "repair_owner_str OwnerProposer = ''proposer''"
| "repair_owner_str OwnerVerifier = ''verifier''"
| "repair_owner_str OwnerPolicy = ''policy''"
| "repair_owner_str OwnerRuntime = ''runtime''"
| "repair_owner_str OwnerHuman = ''human''"

record obligation_statement =
  statement_id :: ident
  statement_text :: string
  statement_owner :: repair_owner

record contract =
  contract_id :: ident
  contract_version :: string
  contract_inputs :: "(string, value_schema) btree_map"
  contract_outputs :: "(string, value_schema) btree_map"
  contract_allowed_effects :: "effect_kind list"
  contract_obligations :: "obligation_statement list"

definition contract_statement :: "contract \<Rightarrow> ident \<Rightarrow> obligation_statement option" where
  "contract_statement c i = find (\<lambda>s. statement_id s = i) (contract_obligations c)"

datatype discharge_state =
    Discharged ident "digest list"
  | Assumed string
  | Waived ident ident
  | Residual string "digest list"
  | DischargeFailed string repair_owner

fun discharge_str :: "discharge_state \<Rightarrow> string" where
  "discharge_str (Discharged b e) = ''discharged''"
| "discharge_str (Assumed r) = ''assumed''"
| "discharge_str (Waived p a) = ''waived''"
| "discharge_str (Residual r e) = ''residual''"
| "discharge_str (DischargeFailed r w) = ''failed''"

fun was_checked :: "discharge_state \<Rightarrow> bool" where
  "was_checked (Discharged b e) = True"
| "was_checked (DischargeFailed r w) = True"
| "was_checked s = False"

fun discharge_evidence :: "discharge_state \<Rightarrow> digest list" where
  "discharge_evidence (Discharged b e) = e"
| "discharge_evidence (Residual r e) = e"
| "discharge_evidence s = []"

record obligation =
  obligation_statement :: obligation_statement
  obligation_contract :: ident
  obligation_state :: discharge_state

fun state_is_outstanding :: "discharge_state \<Rightarrow> bool" where
  "state_is_outstanding (Assumed r) = True"
| "state_is_outstanding (Waived p a) = True"
| "state_is_outstanding (Residual r e) = True"
| "state_is_outstanding s = False"

definition is_outstanding :: "obligation \<Rightarrow> bool" where
  "is_outstanding ob = state_is_outstanding (obligation_state ob)"

fun state_has_failed :: "discharge_state \<Rightarrow> bool" where
  "state_has_failed (DischargeFailed r w) = True"
| "state_has_failed s = False"

definition has_failed :: "obligation \<Rightarrow> bool" where
  "has_failed ob = state_has_failed (obligation_state ob)"

text \<open>Every state is one of failed, outstanding or discharged, and no two at once.\<close>

lemma discharge_trichotomy:
  "(state_has_failed s \<or> state_is_outstanding s \<or> (\<exists>b e. s = Discharged b e)) \<and>
   \<not> (state_has_failed s \<and> state_is_outstanding s)"
  by (cases s) auto

section \<open>Definitions\<close>

record schema_version =
  schema_namespace :: string
  schema_major :: u32

definition IR_SCHEMA_VERSION :: schema_version where
  "IR_SCHEMA_VERSION = \<lparr>schema_namespace = ''capsulet.ir'', schema_major = 1\<rparr>"

record workflow =
  workflow_schema_version :: schema_version
  workflow_id :: ident
  workflow_version :: string
  workflow_name :: string
  workflow_assurance :: assurance_mode
  workflow_capabilities :: capability_set
  workflow_budget :: resource_budget
  workflow_graph :: graph
  workflow_boundaries :: "protected_boundary list"
  workflow_contracts :: "contract list"

definition workflow_contract :: "workflow \<Rightarrow> ident \<Rightarrow> contract option" where
  "workflow_contract d i = find (\<lambda>c. contract_id c = i) (workflow_contracts d)"

definition workflow_boundary :: "workflow \<Rightarrow> ident \<Rightarrow> protected_boundary option" where
  "workflow_boundary d i = find (\<lambda>b. boundary_id b = i) (workflow_boundaries d)"

end
