(* ===== verification/Run_History.thy ===== *)
theory Run_History
  imports Run_Log
begin

text \<open>
  What the folded state says about the log. Two contracts carry the development: a
  \<open>log_projection\<close> is a list component of the state that grows by what each event emits,
  and a \<open>log_counter\<close> is a saturating counter that ticks on some events. Their
  interpretations on \<open>apply_recorded\<close> identify the components of a folded state with
  readings of the log, so the incremental fold refines a declarative history.
\<close>

section \<open>Contracts of an event-sourced state\<close>

locale log_projection =
  fixes step :: "'s \<Rightarrow> 'e \<Rightarrow> ('x, 's) result"
    and view :: "'s \<Rightarrow> 'v list"
    and emit :: "'e \<Rightarrow> 'v option"
  assumes view_step: "step s e = Ok s' \<Longrightarrow> view s' = view s @ (case emit e of None \<Rightarrow> [] | Some v \<Rightarrow> [v])"
begin

lemma view_try_fold: "try_fold step s es = Ok s' \<Longrightarrow> view s' = view s @ filter_map emit es"
proof (induction es arbitrary: s)
  case Nil
  then show ?case by simp
next
  case (Cons e es)
  then obtain t where "step s e = Ok t" "try_fold step t es = Ok s'" by (auto split: sum.splits)
  then show ?case using Cons.IH [of t] view_step [of s e t] by (simp split: option.splits)
qed

end

locale log_counter =
  fixes step :: "'s \<Rightarrow> 'e \<Rightarrow> ('x, 's) result"
    and counter :: "'s \<Rightarrow> u32"
    and tick :: "'e \<Rightarrow> bool"
  assumes counter_step:
    "step s e = Ok s' \<Longrightarrow> counter s' = (if tick e then saturating_add (counter s) 1 else counter s)"
begin

lemma counter_try_fold:
  "try_fold step s es = Ok s' \<Longrightarrow>
     unat (counter s') = min (unat (counter s) + length (filter tick es)) (2 ^ 32 - 1)"
proof (induction es arbitrary: s)
  case Nil
  then show ?case using unat_le_pred [of "counter s"] by simp
next
  case (Cons e es)
  then obtain t where t: "step s e = Ok t" "try_fold step t es = Ok s'" by (auto split: sum.splits)
  have "unat (counter t) = min (unat (counter s) + (if tick e then 1 else 0)) (2 ^ 32 - 1)"
    using counter_step [OF t(1)] unat_le_pred [of "counter s"] by (simp add: unat_saturating_add)
  then show ?case using Cons.IH [OF t(2)] by auto
qed

end

section \<open>One event\<close>

lemma foldl_reset_member:
  "foldl reset_member s ms =
     s \<lparr>finished := filter (\<lambda>kv. fst kv \<notin> set ms) (finished s),
        running := filter (\<lambda>kv. fst kv \<notin> set ms) (running s),
        failures := filter (\<lambda>kv. fst kv \<notin> set ms) (failures s),
        control := filter (\<lambda>kv. fst (fst kv) \<notin> set ms) (control s)\<rparr>"
proof (induction ms arbitrary: s)
  case Nil
  then show ?case by simp
next
  case (Cons m ms)
  have swap: "filter (\<lambda>kv. f kv \<notin> set ms) (filter (\<lambda>kv. f kv \<noteq> m) xs) = filter (\<lambda>kv. f kv \<noteq> m \<and> f kv \<notin> set ms) xs"
    for f :: "'z \<Rightarrow> ident" and xs by (simp add: conj_commute)
  have eta: "(\<lambda>((n, p :: string), v :: control_value). n \<noteq> m) = (\<lambda>kv. fst (fst kv) \<noteq> m)" by auto
  show ?case by (simp add: Cons.IH reset_member_def [of s m] bt_remove_def swap eta)
qed

lemma apply_recorded_Ok:
  "apply_recorded s r = Ok s' \<longleftrightarrow>
     position r = next_position s \<and> \<not> status_is_terminal (status s) \<and>
     apply_event (s \<lparr>next_position := position r + 1, state_epoch := max (state_epoch s) (event_epoch r)\<rparr>)
       (event_at r) (the_event r) = Ok s'"
  by (auto simp: apply_recorded_def)

lemma bt_get_or_stopped:
  "loop_progress_of (s \<lparr>loops := bt_entry loop_progress_default r f (loops s)\<rparr>) r' =
     (if r' = r then f (loop_progress_of s r) else loop_progress_of s r')"
  by (simp add: loop_progress_of_def)

text \<open>The readings of one event.\<close>

fun finalized_of :: "run_event \<Rightarrow> (ident \<times> ident) option" where
  "finalized_of (EffectFinalized n e a r) = Some (n, e)"
| "finalized_of ev = None"

fun uncertain_of :: "run_event \<Rightarrow> (ident \<times> ident) option" where
  "uncertain_of (EffectUncertain n e a) = Some (n, e)"
| "uncertain_of ev = None"

fun is_claim :: "run_event \<Rightarrow> bool" where
  "is_claim (EffectClaimed n e a k) = True"
| "is_claim ev = False"

fun starts_iteration :: "ident \<Rightarrow> run_event \<Rightarrow> bool" where
  "starts_iteration r (IterationStarted q i ms) = (q = r)"
| "starts_iteration r ev = False"

fun finishes_iteration :: "ident \<Rightarrow> run_event \<Rightarrow> bool" where
  "finishes_iteration r (IterationFinished q rec) = (q = r)"
| "finishes_iteration r ev = False"

lemmas apply_event_splits = if_splits option.splits

lemma apply_event_finalized:
  "apply_event s at ev = Ok s' \<Longrightarrow> finalized_order s' = finalized_order s @ (case finalized_of ev of None \<Rightarrow> [] | Some v \<Rightarrow> [v])"
  by (cases ev) (auto simp: Let_def foldl_reset_member split: apply_event_splits)

lemma apply_event_uncertain:
  "apply_event s at ev = Ok s' \<Longrightarrow> uncertain s' = uncertain s @ (case uncertain_of ev of None \<Rightarrow> [] | Some v \<Rightarrow> [v])"
  by (cases ev) (auto simp: Let_def foldl_reset_member split: apply_event_splits)

lemma apply_event_claims:
  "apply_event s at ev = Ok s' \<Longrightarrow>
     spent_effects (state_spent s') =
       (if is_claim ev then saturating_add (spent_effects (state_spent s)) 1 else spent_effects (state_spent s))"
  by (cases ev) (auto simp: Let_def foldl_reset_member add_spent_def split: apply_event_splits)

lemma loop_progress_of_update [simp]:
  "loop_progress_of (s \<lparr>loops := bt_insert r p (loops s)\<rparr>) r' = (if r' = r then p else loop_progress_of s r')"
  by (simp add: loop_progress_of_def)

lemma close_iteration_simps [simp]:
  "started (close_iteration rec p) = started p"
  "finished_iterations (close_iteration rec p) = saturating_add (finished_iterations p) 1"
  "stopped (close_iteration rec p) = stopped p"
  by (simp_all add: close_iteration_def Let_def split: option.splits)

lemma open_iteration_simps [simp]:
  "started (open_iteration at p) = saturating_add (started p) 1"
  "finished_iterations (open_iteration at p) = finished_iterations p"
  "stopped (open_iteration at p) = stopped p"
  by (simp_all add: open_iteration_def)

lemma apply_event_started:
  "apply_event s at ev = Ok s' \<Longrightarrow>
     started (loop_progress_of s' r) =
       (if starts_iteration r ev then saturating_add (started (loop_progress_of s r)) 1
        else started (loop_progress_of s r))"
  by (cases ev)
     (auto simp: Let_def foldl_reset_member loop_progress_of_def split: apply_event_splits)

lemma apply_event_finished:
  "apply_event s at ev = Ok s' \<Longrightarrow>
     finished_iterations (loop_progress_of s' r) =
       (if finishes_iteration r ev then saturating_add (finished_iterations (loop_progress_of s r)) 1
        else finished_iterations (loop_progress_of s r))"
  by (cases ev)
     (auto simp: Let_def foldl_reset_member loop_progress_of_def split: apply_event_splits)

interpretation finalized: log_projection apply_recorded finalized_order "\<lambda>r. finalized_of (the_event r)"
  by unfold_locales (auto simp: apply_recorded_Ok dest: apply_event_finalized)

interpretation doubts: log_projection apply_recorded uncertain "\<lambda>r. uncertain_of (the_event r)"
  by unfold_locales (auto simp: apply_recorded_Ok dest: apply_event_uncertain)

interpretation claims: log_counter apply_recorded "\<lambda>s. spent_effects (state_spent s)" "\<lambda>r. is_claim (the_event r)"
  by unfold_locales (auto simp: apply_recorded_Ok dest: apply_event_claims)

interpretation begun: log_counter apply_recorded "\<lambda>s. started (loop_progress_of s region)"
    "\<lambda>r. starts_iteration region (the_event r)"
  for region
  by unfold_locales (auto simp: apply_recorded_Ok loop_progress_of_def dest: apply_event_started [of _ _ _ _ region])

interpretation ended: log_counter apply_recorded "\<lambda>s. finished_iterations (loop_progress_of s region)"
    "\<lambda>r. finishes_iteration region (the_event r)"
  for region
  by unfold_locales (auto simp: apply_recorded_Ok loop_progress_of_def dest: apply_event_finished [of _ _ _ _ region])

section \<open>Claims that nobody resolved\<close>

fun resolves :: "ident \<Rightarrow> ident \<Rightarrow> run_event \<Rightarrow> bool" where
  "resolves n e (EffectFinalized m f a r) = (m = n \<and> f = e)"
| "resolves n e (EffectAbandoned m f a r) = (m = n \<and> f = e)"
| "resolves n e (EffectUncertain m f a) = (m = n \<and> f = e)"
| "resolves n e ev = False"

fun claim_of :: "run_event \<Rightarrow> outstanding_effect option" where
  "claim_of (EffectClaimed n e a k) = Some \<lparr>claim_node = n, claim_effect = e, claim_attempt = a, claim_key = k\<rparr>"
| "claim_of ev = None"

definition unresolved_in :: "run_event list \<Rightarrow> outstanding_effect \<Rightarrow> bool" where
  "unresolved_in evs c = (\<forall>ev \<in> set evs. \<not> resolves (claim_node c) (claim_effect c) ev)"

text \<open>The claims of a history that no later event resolves.\<close>

fun open_claims :: "run_event list \<Rightarrow> outstanding_effect list" where
  "open_claims [] = []"
| "open_claims (ev # evs) =
     (case claim_of ev of
        Some c \<Rightarrow> if unresolved_in evs c then c # open_claims evs else open_claims evs
      | None \<Rightarrow> open_claims evs)"

lemma resolve_claims_None:
  assumes "ev \<in> {EffectFinalized n e a r, EffectAbandoned n e a d, EffectUncertain n e a}"
  shows "resolve_claims n e cs = filter (unresolved_in [ev]) cs"
  using assms unfolding resolve_claims_def
  by (intro filter_cong) (auto simp: unresolved_in_def same_claim_def)

lemma apply_event_outstanding:
  assumes "apply_event s at ev = Ok s'"
  shows "outstanding s' = filter (unresolved_in [ev]) (outstanding s) @
           (case claim_of ev of None \<Rightarrow> [] | Some c \<Rightarrow> [c])"
proof -
  have keep: "filter (unresolved_in [ev]) cs = cs" if "\<And>n e. \<not> resolves n e ev" for cs
    using that by (auto simp: unresolved_in_def)
  show ?thesis
    using assms
    by (cases ev)
       (auto simp: keep Let_def foldl_reset_member resolve_claims_def unresolved_in_def same_claim_def
             intro!: filter_cong split: apply_event_splits)
qed

lemma filter_unresolved:
  "filter (unresolved_in evs) (filter (unresolved_in [ev]) cs) = filter (unresolved_in (ev # evs)) cs"
  unfolding filter_filter by (rule filter_cong) (auto simp: unresolved_in_def)

lemma claims_try_fold:
  "try_fold apply_recorded s log = Ok s' \<Longrightarrow>
     outstanding s' = filter (unresolved_in (map the_event log)) (outstanding s) @ open_claims (map the_event log)"
proof (induction log arbitrary: s)
  case Nil
  then show ?case by (simp add: unresolved_in_def)
next
  case (Cons r log)
  then obtain t where t: "apply_recorded s r = Ok t" "try_fold apply_recorded t log = Ok s'"
    by (auto split: sum.splits)
  have "outstanding t = filter (unresolved_in [the_event r]) (outstanding s) @
          (case claim_of (the_event r) of None \<Rightarrow> [] | Some c \<Rightarrow> [c])"
    using t(1) apply_event_outstanding by (fastforce simp: apply_recorded_Ok)
  then show ?case
    using Cons.IH [OF t(2)] by (cases "claim_of (the_event r)") (simp_all add: filter_unresolved del: filter_filter)
qed

section \<open>The invariant of a folded state\<close>

definition run_wf :: "run_state \<Rightarrow> bool" where
  "run_wf s =
     (bt_wf (running s) \<and> bt_wf (finished s) \<and> bt_wf (loops s) \<and> bt_wf (failures s) \<and> bt_wf (control s) \<and>
      bs_wf (completed_effects s) \<and> bs_wf (compensated_effects s) \<and>
      set (completed_effects s) = set (finalized_order s) \<and>
      (status s = Waiting \<longrightarrow> waiting_on s \<noteq> None) \<and>
      (\<forall>r. finished_iterations (loop_progress_of s r) \<le> started (loop_progress_of s r) \<and>
           unat (started (loop_progress_of s r)) \<le> unat (finished_iterations (loop_progress_of s r)) + 1))"

lemma bt_wf_foldl_control:
  "bt_wf c \<Longrightarrow> bt_wf (foldl (\<lambda>c (port, value). bt_insert (n, port) value c) c ctl)"
  by (induction ctl arbitrary: c) auto

definition maps_wf :: "run_state \<Rightarrow> bool" where
  "maps_wf s =
     (bt_wf (running s) \<and> bt_wf (finished s) \<and> bt_wf (loops s) \<and> bt_wf (failures s) \<and> bt_wf (control s) \<and>
      bs_wf (completed_effects s) \<and> bs_wf (compensated_effects s))"

lemma apply_event_maps_wf: "apply_event s at ev = Ok s' \<Longrightarrow> maps_wf s \<Longrightarrow> maps_wf s'"
  by (cases ev)
     (auto simp: maps_wf_def Let_def foldl_reset_member bt_wf_filter bt_wf_foldl_control bs_wf_insert
           split: apply_event_splits)

lemma apply_event_completed:
  "apply_event s at ev = Ok s' \<Longrightarrow> set (completed_effects s) = set (finalized_order s) \<Longrightarrow>
     set (completed_effects s') = set (finalized_order s')"
  by (cases ev) (auto simp: Let_def foldl_reset_member split: apply_event_splits)

lemma apply_event_waiting:
  "apply_event s at ev = Ok s' \<Longrightarrow> status s = Waiting \<longrightarrow> waiting_on s \<noteq> None \<Longrightarrow>
     status s' = Waiting \<longrightarrow> waiting_on s' \<noteq> None"
  by (cases ev) (auto simp: Let_def foldl_reset_member split: apply_event_splits)

definition loop_counts_ok :: "loop_progress \<Rightarrow> bool" where
  "loop_counts_ok p = (finished_iterations p \<le> started p \<and> unat (started p) \<le> unat (finished_iterations p) + 1)"

lemma loop_counts_ok_open:
  "loop_counts_ok p \<Longrightarrow> \<not> started p > finished_iterations p \<Longrightarrow> loop_counts_ok (open_iteration at p)"
  using unat_le_pred [of "finished_iterations p"]
  by (auto simp: loop_counts_ok_def word_le_nat_alt word_less_nat_alt unat_saturating_add)

lemma loop_counts_ok_close:
  "loop_counts_ok p \<Longrightarrow> \<not> finished_iterations p \<ge> started p \<Longrightarrow> loop_counts_ok (close_iteration rec p)"
  using unat_le_pred [of "started p"]
  by (auto simp: loop_counts_ok_def word_le_nat_alt word_less_nat_alt unat_saturating_add)

lemma apply_event_counts:
  "apply_event s at ev = Ok s' \<Longrightarrow> loop_counts_ok (loop_progress_of s r) \<Longrightarrow> loop_counts_ok (loop_progress_of s' r)"
  by (cases ev)
     (auto simp: Let_def foldl_reset_member loop_progress_of_def loop_counts_ok_open loop_counts_ok_close
           loop_counts_ok_def [of "_ \<lparr>stopped := _\<rparr>"] split: apply_event_splits,
      auto simp: loop_counts_ok_def)

lemma run_wf_alt:
  "run_wf s \<longleftrightarrow> maps_wf s \<and> set (completed_effects s) = set (finalized_order s) \<and>
     (status s = Waiting \<longrightarrow> waiting_on s \<noteq> None) \<and> (\<forall>r. loop_counts_ok (loop_progress_of s r))"
  by (auto simp: run_wf_def maps_wf_def loop_counts_ok_def)

lemma run_wf_bookkeeping [simp]:
  "run_wf (s \<lparr>next_position := p, state_epoch := e\<rparr>) = run_wf s"
  by (simp add: run_wf_def loop_progress_of_def)

lemma apply_event_run_wf: "apply_event s at ev = Ok s' \<Longrightarrow> run_wf s \<Longrightarrow> run_wf s'"
  unfolding run_wf_alt
  using apply_event_maps_wf apply_event_completed apply_event_waiting apply_event_counts by blast

lemma apply_recorded_run_wf: "apply_recorded s r = Ok s' \<Longrightarrow> run_wf s \<Longrightarrow> run_wf s'"
  using apply_event_run_wf by (fastforce simp: apply_recorded_Ok)

lemma run_wf_initial: "run_wf (initial_state r d m)"
  by (simp add: run_wf_def initial_state_def loop_progress_of_def bt_get_or_def loop_progress_default_def bs_wf_def)

section \<open>The log and its folded state\<close>

lemma run_fold_Ok:
  "run_fold log = Ok s \<longleftrightarrow>
     (\<exists>r rest d m. log = r # rest \<and> the_event r = Admitted d m \<and> position r = 0 \<and>
        try_fold apply_recorded (initial_state r d m) rest = Ok s)"
  by (auto simp: run_fold_def split: list.splits run_event.splits if_splits)

lemma run_fold_append:
  assumes "xs \<noteq> []"
  shows "run_fold (xs @ ys) = and_then (run_fold xs) (\<lambda>s. try_fold apply_recorded s ys)"
proof -
  obtain r rest where "xs = r # rest" using assms by (cases xs) auto
  then show ?thesis by (simp add: run_fold_def try_fold_append split: run_event.splits)
qed

lemma run_fold_wf: "run_fold log = Ok s \<Longrightarrow> run_wf s"
  using try_fold_invariant [where P = run_wf] run_wf_initial apply_recorded_run_wf
  by (fastforce simp: run_fold_Ok)

lemma run_fold_snoc:
  "run_fold log = Ok s \<Longrightarrow> run_fold (log @ [r]) = apply_recorded s r"
proof -
  assume log: "run_fold log = Ok s"
  then have "log \<noteq> []" by (auto simp: run_fold_Ok)
  then show ?thesis using log by (simp add: run_fold_append split: sum.splits)
qed

definition sample_log :: "recorded_event list" where
  "sample_log =
     [\<lparr>position = 0, event_epoch = 1, event_at = 0, the_event = Admitted (Digest []) Observe\<rparr>,
      \<lparr>position = 1, event_epoch = 1, event_at = 5, the_event = Started (Identifier ''w'')\<rparr>,
      \<lparr>position = 2, event_epoch = 1, event_at = 6, the_event = NodeStarted (Identifier ''a'')\<rparr>,
      \<lparr>position = 3, event_epoch = 2, event_at = 9, the_event = NodeFinished (Identifier ''a'') [] []\<rparr>]"

lemma sample_log_folds: "is_ok (run_fold sample_log)"
  by code_simp

lemma is_ok_obtain: "is_ok r \<Longrightarrow> (\<And>a. r = Ok a \<Longrightarrow> P) \<Longrightarrow> P"
  by (cases r) auto

text \<open>The shape of the events that were applied.\<close>

lemma apply_event_status:
  "apply_event s at ev = Ok s' \<Longrightarrow> \<not> status_is_terminal (status s) \<Longrightarrow>
     (status_is_terminal (status s') \<longleftrightarrow> event_is_terminal ev) \<and>
     next_position s' = next_position s \<and> state_epoch s' = state_epoch s \<and>
     (\<forall>d m. ev \<noteq> Admitted d m)"
  by (cases ev) (auto simp: Let_def foldl_reset_member split: apply_event_splits)

lemma log_shape:
  assumes "try_fold apply_recorded s rs = Ok s'" "\<not> status_is_terminal (status s)"
  shows "(\<forall>i < length rs. position (rs ! i) = next_position s + of_nat i) \<and>
         next_position s' = next_position s + of_nat (length rs) \<and>
         state_epoch s' = Max (insert (state_epoch s) (event_epoch ` set rs)) \<and>
         (\<forall>r \<in> set rs. \<forall>d m. the_event r \<noteq> Admitted d m) \<and>
         (\<forall>r \<in> set (butlast rs). \<not> event_is_terminal (the_event r)) \<and>
         (rs \<noteq> [] \<longrightarrow> (status_is_terminal (status s') \<longleftrightarrow> event_is_terminal (the_event (last rs))))"
  using assms
proof (induction rs arbitrary: s)
  case Nil
  then show ?case by simp
next
  case (Cons r rs)
  then obtain t where t: "apply_recorded s r = Ok t" and rest: "try_fold apply_recorded t rs = Ok s'"
    by (auto split: sum.splits)
  have r: "position r = next_position s" "next_position t = next_position s + 1"
      "state_epoch t = max (state_epoch s) (event_epoch r)"
      "status_is_terminal (status t) \<longleftrightarrow> event_is_terminal (the_event r)"
      "\<forall>d m. the_event r \<noteq> Admitted d m"
  proof -
    let ?s = "s \<lparr>next_position := position r + 1, state_epoch := max (state_epoch s) (event_epoch r)\<rparr>"
    from t have p: "position r = next_position s" and ev: "apply_event ?s (event_at r) (the_event r) = Ok t"
      unfolding apply_recorded_Ok by blast+
    have "\<not> status_is_terminal (status ?s)" using Cons.prems(2) by simp
    from apply_event_status [OF ev this] p show "position r = next_position s"
      "next_position t = next_position s + 1" "state_epoch t = max (state_epoch s) (event_epoch r)"
      "status_is_terminal (status t) \<longleftrightarrow> event_is_terminal (the_event r)"
      "\<forall>d m. the_event r \<noteq> Admitted d m"
      by (simp_all del: status_is_terminal.simps)
  qed
  show ?case
  proof (cases "rs = []")
    case True
    then show ?thesis using rest r by (auto simp: max_def)
  next
    case False
    then obtain r1 rs1 where rs: "rs = r1 # rs1" by (cases rs) auto
    with rest have "\<not> status_is_terminal (status t)"
      by (auto simp: apply_recorded_def split: if_splits)
    note IH = Cons.IH [OF rest this]
    have pos: "position ((r # rs) ! i) = next_position s + of_nat i" if "i < length (r # rs)" for i
      using that r IH by (cases i) (auto simp: algebra_simps)
    have ep: "state_epoch s' = Max (insert (state_epoch s) (event_epoch ` set (r # rs)))"
    proof -
      have "state_epoch s' = Max (insert (max (state_epoch s) (event_epoch r)) (event_epoch ` set rs))"
        using IH r(3) by simp
      also have "\<dots> = Max (insert (state_epoch s) (insert (event_epoch r) (event_epoch ` set rs)))"
        using rs by (simp add: max.assoc)
      finally show ?thesis by simp
    qed
    from IH r pos ep False \<open>\<not> status_is_terminal (status t)\<close> show ?thesis
      by (auto simp: algebra_simps simp del: status_is_terminal.simps)
  qed
qed

text \<open>C34. A log that folds is a history: it opens with the admission and has no second one,
  the event at index \<open>i\<close> stands at position \<open>i\<close> with no gap and the next event must take
  the next position, the epoch of the state is the highest in the log, nothing follows a
  terminal event, and the run has ended exactly when its last event is terminal.\<close>

theorem folded_log_is_a_history:
  assumes "run_fold log = Ok s"
  shows "(\<exists>d m. the_event (hd log) = Admitted d m \<and> definition_digest s = d \<and> mode s = m) \<and>
         (\<forall>r \<in> set (tl log). \<forall>d m. the_event r \<noteq> Admitted d m) \<and>
         (\<forall>i < length log. position (log ! i) = of_nat i) \<and> next_position s = of_nat (length log) \<and>
         state_epoch s = Max (event_epoch ` set log) \<and>
         (\<forall>r \<in> set (butlast log). \<not> event_is_terminal (the_event r)) \<and>
         (status_is_terminal (status s) \<longleftrightarrow> event_is_terminal (the_event (last log)))"
proof -
  from assms obtain r rest d m where log: "log = r # rest" "the_event r = Admitted d m" "position r = 0"
      and fold: "try_fold apply_recorded (initial_state r d m) rest = Ok s"
    by (auto simp: run_fold_Ok)
  have fresh: "\<not> status_is_terminal (status (initial_state r d m))" by (simp add: initial_state_def)
  note shape = log_shape [OF fold fresh]
  have keep: "definition_digest s = d \<and> mode s = m"
  proof (rule try_fold_invariant [OF fold])
    show "definition_digest (initial_state r d m) = d \<and> mode (initial_state r d m) = m"
      by (simp add: initial_state_def)
    fix a x b assume "definition_digest a = d \<and> mode a = m" "apply_recorded a x = Ok b"
    then show "definition_digest b = d \<and> mode b = m"
      by (cases "the_event x") (auto simp: apply_recorded_Ok Let_def foldl_reset_member split: apply_event_splits)
  qed
  have pos: "position (log ! i) = of_nat i" if "i < length log" for i
    using that log shape by (cases i) (auto simp: initial_state_def)
  have ends: "status_is_terminal (status s) \<longleftrightarrow> event_is_terminal (the_event (last log))"
    using log shape fold fresh by (cases "rest = []") (auto simp del: status_is_terminal.simps)
  have inner: "\<forall>x \<in> set (butlast log). \<not> event_is_terminal (the_event x)"
    using log shape by auto
  have next_p: "next_position s = of_nat (length log)"
    using log shape by (simp add: initial_state_def)
  have ep: "state_epoch s = Max (event_epoch ` set log)"
    using log shape by (simp add: initial_state_def)
  show ?thesis using log shape keep pos ends inner next_p ep by auto
qed

theorem folded_log_is_a_history_witness:
  "\<exists>s. run_fold sample_log = Ok s \<and> next_position s = 4 \<and> state_epoch s = 2"
proof -
  obtain s where s: "run_fold sample_log = Ok s" using sample_log_folds by (rule is_ok_obtain)
  from folded_log_is_a_history [OF s]
  have "next_position s = of_nat (length sample_log)" "state_epoch s = Max (event_epoch ` set sample_log)"
    by blast+
  then show ?thesis using s by (auto simp: sample_log_def)
qed

text \<open>C30. The state is a reading of the log and nothing else: the finalized effects are the
  finalizations in order and the completed set is the same set, the effects in doubt are
  the ones recorded as uncertain, the open claims are the claims no later event resolved,
  a loop's counts are the numbers of iterations started and finished, saturating at the
  width of the counter, and the effects spent are the claims.\<close>

theorem state_is_a_reading_of_the_log:
  assumes "run_fold log = Ok s"
  shows "finalized_order s = filter_map (\<lambda>r. finalized_of (the_event r)) log \<and>
         set (completed_effects s) = set (finalized_order s) \<and>
         uncertain s = filter_map (\<lambda>r. uncertain_of (the_event r)) log \<and>
         outstanding s = open_claims (map the_event log) \<and>
         unat (started (loop_progress_of s region)) =
           min (length (filter (\<lambda>r. starts_iteration region (the_event r)) log)) (2 ^ 32 - 1) \<and>
         unat (finished_iterations (loop_progress_of s region)) =
           min (length (filter (\<lambda>r. finishes_iteration region (the_event r)) log)) (2 ^ 32 - 1) \<and>
         unat (spent_effects (state_spent s)) =
           min (length (filter (\<lambda>r. is_claim (the_event r)) log)) (2 ^ 32 - 1)"
proof -
  from assms obtain r rest d m where log: "log = r # rest" "the_event r = Admitted d m"
      and fold: "try_fold apply_recorded (initial_state r d m) rest = Ok s"
    by (auto simp: run_fold_Ok)
  have init: "finalized_order (initial_state r d m) = []" "uncertain (initial_state r d m) = []"
      "outstanding (initial_state r d m) = []" "started (loop_progress_of (initial_state r d m) region) = 0"
      "finished_iterations (loop_progress_of (initial_state r d m) region) = 0"
      "spent_effects (state_spent (initial_state r d m)) = 0"
    by (simp_all add: initial_state_def loop_progress_of_def bt_get_or_def loop_progress_default_def)
  show ?thesis
    using finalized.view_try_fold [OF fold] doubts.view_try_fold [OF fold] claims_try_fold [OF fold]
      begun.counter_try_fold [OF fold, of region] ended.counter_try_fold [OF fold, of region]
      claims.counter_try_fold [OF fold] run_fold_wf [OF assms] init log
    by (simp add: run_wf_def)
qed

theorem state_is_a_reading_of_the_log_witness:
  "\<exists>s. run_fold sample_log = Ok s \<and> outstanding s = [] \<and> finalized_order s = []"
proof -
  obtain s where s: "run_fold sample_log = Ok s" using sample_log_folds by (rule is_ok_obtain)
  from state_is_a_reading_of_the_log [OF s] s show ?thesis by (simp add: sample_log_def)
qed

text \<open>Every folded state is well formed: its keyed collections are in canonical order, a
  waiting run has something to wait for, and a loop never has more than one iteration open
  nor more iterations finished than started.\<close>

theorem folded_state_is_well_formed:
  assumes "run_fold log = Ok s"
  shows "bt_wf (running s) \<and> bt_wf (finished s) \<and> bt_wf (loops s) \<and> bt_wf (failures s) \<and> bt_wf (control s) \<and>
         (status s = Waiting \<longrightarrow> waiting_on s \<noteq> None) \<and>
         finished_iterations (loop_progress_of s r) \<le> started (loop_progress_of s r) \<and>
         unat (started (loop_progress_of s r)) \<le> unat (finished_iterations (loop_progress_of s r)) + 1"
  using run_fold_wf [OF assms] by (simp add: run_wf_def)

theorem folded_state_is_well_formed_witness:
  "\<exists>s. run_fold sample_log = Ok s \<and> bt_wf (finished s) \<and> bt_keys (finished s) = [Identifier ''a'']"
proof -
  obtain s where s: "run_fold sample_log = Ok s" using sample_log_folds by (rule is_ok_obtain)
  have "map_sum (\<lambda>_. ()) (\<lambda>t. bt_keys (finished t)) (run_fold sample_log) = Inr [Identifier ''a'']" by code_simp
  then show ?thesis using s folded_state_is_well_formed [OF s] by simp
qed

end
