(* ===== verification/Loop_Control.thy ===== *)
theory Loop_Control
  imports Run_History
begin

text \<open>
  Loop bounds, invariants, progress and repair routes read from the log
  (\<open>crates/runtime/src/loops.rs\<close>). What a loop has spent is counted by the fold, so the
  decisions here do not change when a worker restarts.
\<close>

datatype repair =
    RepairRetry ident u32
  | RepairHand ident
  | RepairEscalate ident
  | RepairReject
  | RepairAttemptsExhausted failure_kind

definition loops_route_for :: "loop_spec \<Rightarrow> failure_kind \<Rightarrow> route option" where
  "loops_route_for spec failure =
     map_option repair_route (find (\<lambda>declared. repair_failure declared = failure) (loop_repairs spec))"

definition repair_for :: "loop_spec \<Rightarrow> run_state \<Rightarrow> ident \<Rightarrow> failure_kind \<Rightarrow> repair option" where
  "repair_for spec s n failure =
     (case loops_route_for spec failure of
        None \<Rightarrow> None
      | Some r \<Rightarrow>
          (case r of
             RouteRetry target attempts \<Rightarrow>
               (let already = failure_count s n failure in
                if already > attempts then Some (RepairAttemptsExhausted failure)
                else Some (RepairRetry target already))
           | RouteRepair target \<Rightarrow> Some (RepairHand target)
           | RouteEscalate to \<Rightarrow> Some (RepairEscalate to)
           | RouteReject \<Rightarrow> Some RepairReject))"

definition exhausted :: "loop_spec \<Rightarrow> run_state \<Rightarrow> stop_reason option" where
  "exhausted spec s =
     (let sp = state_spent s; b = loop_budget spec in
      if spent_wall_ms sp \<ge> loop_wall_ms b then Some (BudgetExhausted WallTime)
      else if loop_tokens b > 0 \<and> spent_tokens sp \<ge> loop_tokens b then Some (BudgetExhausted Tokens)
      else if loop_cost_micro_units b > 0 \<and> spent_cost_micro_units sp \<ge> loop_cost_micro_units b
      then Some (BudgetExhausted Cost)
      else if loop_effect_count b > 0 \<and> spent_effects sp \<ge> loop_effect_count b
      then Some (BudgetExhausted Effects)
      else None)"

definition iterations_exhausted :: "loop_spec \<Rightarrow> loop_progress \<Rightarrow> stop_reason option" where
  "iterations_exhausted spec p =
     (if started p \<ge> max_iterations (loop_budget spec) then Some (BudgetExhausted Iterations) else None)"

definition invariant_failure :: "loop_progress \<Rightarrow> stop_reason option" where
  "invariant_failure p = map_option InvariantFailed (failed_invariant p)"

definition non_progress :: "progress_measure \<Rightarrow> loop_progress \<Rightarrow> stop_reason option" where
  "non_progress m p =
     (if stalled p \<ge> 2 then Some (StopNonProgress (progress_id m))
      else case (last_progress p, previous_progress p) of
             (Some last', Some previous) \<Rightarrow>
               (let moved_the_declared_way =
                      (case progress_direction m of
                         StrictlyDecreasing \<Rightarrow> last' < previous
                       | StrictlyIncreasing \<Rightarrow> last' > previous) in
                if \<not> moved_the_declared_way \<and> last' \<noteq> previous
                then Some (StopNonProgress (progress_id m)) else None)
           | _ \<Rightarrow> None)"

definition iteration_started_event :: "ident \<Rightarrow> u32 \<Rightarrow> ident btree_set \<Rightarrow> run_event" where
  "iteration_started_event r i members = IterationStarted r i members"

definition iteration_finished_event :: "ident \<Rightarrow> iteration_record \<Rightarrow> run_event" where
  "iteration_finished_event r rec = IterationFinished r rec"

definition loop_stopped_event :: "ident \<Rightarrow> stop_reason \<Rightarrow> run_event" where
  "loop_stopped_event r reason = LoopStopped r reason"

lemma exhausted_is_budget: "exhausted spec s = Some r \<Longrightarrow> \<exists>b. r = BudgetExhausted b"
  by (auto simp: exhausted_def Let_def split: if_splits)

lemma stop_not_completion:
  "exhausted spec s = Some r \<Longrightarrow> \<not> is_completion r"
  "iterations_exhausted spec p = Some r \<Longrightarrow> \<not> is_completion r"
  "invariant_failure p = Some r \<Longrightarrow> \<not> is_completion r"
  "non_progress m p = Some r \<Longrightarrow> \<not> is_completion r"
  by (auto simp: exhausted_def iterations_exhausted_def invariant_failure_def non_progress_def Let_def
      split: if_splits option.splits)

text \<open>Spending never goes down along a log, so a bound that was reached stays reached.\<close>

definition spent_le :: "spent \<Rightarrow> spent \<Rightarrow> bool" where
  "spent_le a b =
     (spent_wall_ms a \<le> spent_wall_ms b \<and> spent_tokens a \<le> spent_tokens b \<and>
      spent_cost_micro_units a \<le> spent_cost_micro_units b \<and> spent_effects a \<le> spent_effects b)"

lemma spent_le_refl [simp]: "spent_le a a"
  by (simp add: spent_le_def)

lemma spent_le_trans: "spent_le a b \<Longrightarrow> spent_le b c \<Longrightarrow> spent_le a c"
  by (auto simp: spent_le_def)

lemma apply_event_spent: "apply_event s at ev = Ok s' \<Longrightarrow> spent_le (state_spent s) (state_spent s')"
  by (cases ev)
     (auto simp: Let_def foldl_reset_member add_spent_def spent_le_def saturating_add_mono
           split: apply_event_splits)

lemma apply_recorded_spent: "apply_recorded s r = Ok s' \<Longrightarrow> spent_le (state_spent s) (state_spent s')"
  unfolding apply_recorded_Ok using apply_event_spent by fastforce

lemma try_fold_spent:
  "try_fold apply_recorded s log = Ok s' \<Longrightarrow> spent_le (state_spent s) (state_spent s')"
  by (rule try_fold_invariant [where P = "\<lambda>t. spent_le (state_spent s) (state_spent t)"])
     (auto intro: spent_le_trans apply_recorded_spent)

lemma exhausted_mono:
  assumes "spent_le (state_spent s) (state_spent t)" "exhausted spec s \<noteq> None"
  shows "exhausted spec t \<noteq> None"
  using assms by (auto simp: exhausted_def spent_le_def Let_def split: if_splits dest: order_trans)

lemma try_fold_started_mono:
  assumes "try_fold apply_recorded s log = Ok s'"
  shows "started (loop_progress_of s r) \<le> started (loop_progress_of s' r)"
  using begun.counter_try_fold [OF assms, of r] unat_le_pred [of "started (loop_progress_of s r)"]
  by (simp add: word_le_nat_alt)

text \<open>A bound that a restart hands back is not a bound: whatever is appended to a log, a
  budget the loop had exhausted is still exhausted in the longer log, and an iteration
  count that was used up stays used up.\<close>

theorem exhaustion_survives:
  assumes "run_fold log = Ok s" "run_fold (log @ more_log) = Ok t"
  shows "(exhausted spec s \<noteq> None \<longrightarrow> exhausted spec t \<noteq> None) \<and>
         (iterations_exhausted spec (loop_progress_of s r) \<noteq> None \<longrightarrow>
          iterations_exhausted spec (loop_progress_of t r) \<noteq> None)"
proof -
  have "log \<noteq> []" using assms(1) by (auto simp: run_fold_Ok)
  then have fold: "try_fold apply_recorded s more_log = Ok t"
    using assms run_fold_append [of log more_log] by simp
  show ?thesis
    using exhausted_mono [OF try_fold_spent [OF fold]] try_fold_started_mono [OF fold, of r]
    by (auto simp: iterations_exhausted_def)
qed

definition sample_budget_log :: "recorded_event list" where
  "sample_budget_log =
     [\<lparr>position = 0, event_epoch = 1, event_at = 0, the_event = Admitted (Digest []) Observe\<rparr>,
      \<lparr>position = 1, event_epoch = 1, event_at = 1, the_event = IterationStarted (Identifier ''loop'') 0 []\<rparr>]"

theorem exhaustion_survives_witness:
  "\<exists>s t. run_fold sample_budget_log = Ok s \<and>
     run_fold (sample_budget_log @
       [\<lparr>position = 2, event_epoch = 2, event_at = 3, the_event = Started (Identifier ''w'')\<rparr>]) = Ok t \<and>
     iterations_exhausted (sample_spec \<lparr>loop_budget := (loop_budget sample_spec) \<lparr>max_iterations := 1\<rparr>\<rparr>)
       (loop_progress_of t (Identifier ''loop'')) \<noteq> None"
proof -
  let ?more = "[\<lparr>position = 2, event_epoch = 2, event_at = 3, the_event = Started (Identifier ''w'')\<rparr>]"
  let ?spec = "sample_spec \<lparr>loop_budget := (loop_budget sample_spec) \<lparr>max_iterations := 1\<rparr>\<rparr>"
  have "map_sum (\<lambda>_. ()) (\<lambda>s. iterations_exhausted ?spec (loop_progress_of s (Identifier ''loop'')))
          (run_fold sample_budget_log) = Inr (Some (BudgetExhausted Iterations))" by code_simp
  then obtain s where s: "run_fold sample_budget_log = Ok s"
      and used: "iterations_exhausted ?spec (loop_progress_of s (Identifier ''loop'')) = Some (BudgetExhausted Iterations)"
    by (cases "run_fold sample_budget_log") auto
  have "is_ok (run_fold (sample_budget_log @ ?more))" by code_simp
  then obtain t where t: "run_fold (sample_budget_log @ ?more) = Ok t" by (rule is_ok_obtain)
  from exhaustion_survives [OF s t, of ?spec "Identifier ''loop''"] used s t show ?thesis by auto
qed

end
