(* ===== verification/Effect_Protocol.thy ===== *)
theory Effect_Protocol
  imports Run_History
begin

text \<open>
  Claim, perform, finalize (\<open>crates/runtime/src/effect.rs\<close>): the idempotency key an effect
  is performed under, the attempt that carries it, and the events around it. The keys of
  two attempts are the same only for the same attempt, provided no part of them contains
  the separator; identifiers may contain it, and then two different effects can share a key.
\<close>

section \<open>Keys and attempts\<close>

datatype key_source = KeyRun | KeyRunAndNode | KeyRunNodeAndAttempt

datatype claim_error = UnknownKeySource ident string

definition key_source_parse :: "ident \<Rightarrow> string \<Rightarrow> (claim_error, key_source) result" where
  "key_source_parse e declared =
     (if trim declared = ''run_id'' then Ok KeyRun
      else if trim declared = ''run_id+node_id'' then Ok KeyRunAndNode
      else if trim declared = ''run_id+node_id+attempt'' then Ok KeyRunNodeAndAttempt
      else Err (UnknownKeySource e (trim declared)))"

record effect_context =
  context_run :: string
  context_node :: ident
  context_attempt :: u32

definition key_for :: "key_source \<Rightarrow> effect \<Rightarrow> effect_context \<Rightarrow> string" where
  "key_for source declared ctx =
     (let run = context_run ctx; n = as_str (context_node ctx); e = as_str (effect_id declared) in
      case source of
        KeyRun \<Rightarrow> ''capsulet:'' @ run @ '':'' @ e
      | KeyRunAndNode \<Rightarrow> ''capsulet:'' @ run @ '':'' @ n @ '':'' @ e
      | KeyRunNodeAndAttempt \<Rightarrow>
          ''capsulet:'' @ run @ '':'' @ n @ '':'' @ e @ '':'' @ fmt_u (context_attempt ctx))"

record effect_attempt =
  attempt_node :: ident
  attempt_effect :: ident
  attempt_number :: u32
  attempt_key :: "string option"

definition claim_effect_attempt :: "effect \<Rightarrow> effect_context \<Rightarrow> (claim_error, effect_attempt) result" where
  "claim_effect_attempt declared ctx =
     and_then (case effect_idempotency declared of
                 Keyed source_text \<Rightarrow>
                   and_then (key_source_parse (effect_id declared) source_text) (\<lambda>source.
                     Ok (Some (key_for source declared ctx)))
               | Idempotent \<Rightarrow> Ok None
               | NonIdempotent \<Rightarrow> Ok None) (\<lambda>key.
       Ok \<lparr>attempt_node = context_node ctx, attempt_effect = effect_id declared,
           attempt_number = context_attempt ctx, attempt_key = key\<rparr>)"

definition recovered :: "outstanding_effect \<Rightarrow> u32 \<Rightarrow> effect_attempt" where
  "recovered c attempt =
     \<lparr>attempt_node = claim_node c, attempt_effect = claim_effect c, attempt_number = attempt,
      attempt_key = claim_key c\<rparr>"

definition claimed_event :: "effect_attempt \<Rightarrow> run_event" where
  "claimed_event a = EffectClaimed (attempt_node a) (attempt_effect a) (attempt_number a) (attempt_key a)"

definition finalized_event :: "effect_attempt \<Rightarrow> digest \<Rightarrow> run_event" where
  "finalized_event a receipt = EffectFinalized (attempt_node a) (attempt_effect a) (attempt_number a) receipt"

definition abandoned_event :: "effect_attempt \<Rightarrow> string \<Rightarrow> run_event" where
  "abandoned_event a reason = EffectAbandoned (attempt_node a) (attempt_effect a) (attempt_number a) reason"

definition uncertain_event :: "effect_attempt \<Rightarrow> run_event" where
  "uncertain_event a = EffectUncertain (attempt_node a) (attempt_effect a) (attempt_number a)"

definition check_effect_keys :: "workflow \<Rightarrow> (claim_error, unit) result" where
  "check_effect_keys d =
     try_for_each (\<lambda>n. try_for_each (\<lambda>e.
         case effect_idempotency e of
           Keyed source_text \<Rightarrow> and_then (key_source_parse (effect_id e) source_text) (\<lambda>_. Ok ())
         | _ \<Rightarrow> Ok ()) (node_effects n)) (nodes (workflow_graph d))"

section \<open>Separated text splits in one way\<close>

lemma append_separator_inj:
  assumes "c \<notin> set xs" "c \<notin> set xs'" "xs @ c # ys = xs' @ c # ys'"
  shows "xs = xs' \<and> ys = ys'"
proof -
  have "takeWhile (\<lambda>z. z \<noteq> c) (xs @ c # ys) = xs" "takeWhile (\<lambda>z. z \<noteq> c) (xs' @ c # ys') = xs'"
    using assms(1,2) by (auto simp: takeWhile_append)
  with assms(3) have "xs = xs'" by metis
  with assms(3) show ?thesis by simp
qed

definition no_colon :: "string \<Rightarrow> bool" where
  "no_colon s = (CHR '':'' \<notin> set s)"

lemma fmt_u_no_colon: "no_colon (fmt_u w)"
proof -
  have "digit_char d \<noteq> CHR '':''" if "d < 10" for d
  proof
    assume "digit_char d = CHR '':''"
    then have "(of_char CHR '':'' :: nat) = 48 + d" using of_char_digit [OF that] by simp
    then show False using that by simp
  qed
  then show ?thesis
    using fmt_nat_digits unfolding no_colon_def fmt_u_def by metis
qed

fun join_colon :: "string list \<Rightarrow> string" where
  "join_colon [] = []"
| "join_colon [x] = x"
| "join_colon (x # xs) = x @ CHR '':'' # join_colon xs"

lemma join_colon_inj:
  assumes "list_all no_colon xs" "list_all no_colon ys" "xs \<noteq> []" "ys \<noteq> []"
    and "join_colon xs = join_colon ys"
  shows "xs = ys"
  using assms
proof (induction xs arbitrary: ys rule: join_colon.induct)
  case 1
  then show ?case by simp
next
  case (2 x)
  then show ?case
    by (cases ys rule: join_colon.cases) (auto simp: no_colon_def)
next
  case (3 x v va)
  show ?case
  proof (cases ys rule: join_colon.cases)
    case (3 y w wa)
    then have "x = y \<and> join_colon (v # va) = join_colon (w # wa)"
      using "3.prems" append_separator_inj [of "CHR '':''" x y "join_colon (v # va)" "join_colon (w # wa)"]
      by (auto simp: no_colon_def)
    then show ?thesis using "3.IH" [of "w # wa"] "3.prems" 3 by auto
  qed (use "3.prems" in \<open>auto simp: no_colon_def\<close>)
qed

definition key_segments :: "key_source \<Rightarrow> effect \<Rightarrow> effect_context \<Rightarrow> string list" where
  "key_segments source declared ctx =
     (let run = context_run ctx; n = as_str (context_node ctx); e = as_str (effect_id declared) in
      case source of
        KeyRun \<Rightarrow> [run, e]
      | KeyRunAndNode \<Rightarrow> [run, n, e]
      | KeyRunNodeAndAttempt \<Rightarrow> [run, n, e, fmt_u (context_attempt ctx)])"

lemma key_for_segments: "key_for source declared ctx = ''capsulet:'' @ join_colon (key_segments source declared ctx)"
  by (cases source) (simp_all add: key_for_def key_segments_def)

lemma key_segments_nonempty: "key_segments source declared ctx \<noteq> []"
  by (cases source) (simp_all add: key_segments_def)

text \<open>The parts a key is made of, none of which contains the separator.\<close>

definition separable :: "effect \<Rightarrow> effect_context \<Rightarrow> bool" where
  "separable declared ctx =
     (no_colon (context_run ctx) \<and> no_colon (as_str (context_node ctx)) \<and> no_colon (as_str (effect_id declared)))"

lemma segments_no_colon: "separable declared ctx \<Longrightarrow> list_all no_colon (key_segments source declared ctx)"
  by (cases source) (simp_all add: separable_def key_segments_def fmt_u_no_colon)

text \<open>When no part contains the separator, a key names its attempt: two equal keys were
  derived from the same key source for the same run and effect, at the same node when the
  source names the node, and in the same attempt when it names the attempt.\<close>

theorem key_for_injective:
  assumes "separable d c" "separable d' c'" "key_for src d c = key_for src' d' c'"
  shows "src = src' \<and> context_run c = context_run c' \<and> effect_id d = effect_id d' \<and>
         (src \<noteq> KeyRun \<longrightarrow> context_node c = context_node c') \<and>
         (src = KeyRunNodeAndAttempt \<longrightarrow> context_attempt c = context_attempt c')"
proof -
  have "join_colon (key_segments src d c) = join_colon (key_segments src' d' c')"
    using assms(3) by (simp add: key_for_segments)
  then have "key_segments src d c = key_segments src' d' c'"
    using segments_no_colon [OF assms(1)] segments_no_colon [OF assms(2)]
    by (intro join_colon_inj) (simp_all add: key_segments_nonempty)
  then show ?thesis
    by (cases src; cases src') (auto simp: key_segments_def ident.expand dest: fmt_u_inj)
qed

definition sample_effect :: "string \<Rightarrow> effect" where
  "sample_effect e =
     \<lparr>effect_id = Identifier e, effect_kind = EffPublication, effect_target = ''t'',
      effect_capability = Identifier ''net'', effect_idempotency = Keyed ''run_id+node_id'',
      effect_reversibility = Irreversible\<rparr>"

definition sample_context :: "string \<Rightarrow> effect_context" where
  "sample_context n = \<lparr>context_run = ''r1'', context_node = Identifier n, context_attempt = 0\<rparr>"

theorem key_for_injective_witness:
  "separable (sample_effect ''post'') (sample_context ''a'') \<and>
   separable (sample_effect ''post'') (sample_context ''b'') \<and>
   key_for KeyRunAndNode (sample_effect ''post'') (sample_context ''a'') \<noteq>
     key_for KeyRunAndNode (sample_effect ''post'') (sample_context ''b'')"
proof -
  have sep: "separable (sample_effect ''post'') (sample_context ''a'')"
      "separable (sample_effect ''post'') (sample_context ''b'')"
    by (simp_all add: separable_def no_colon_def sample_effect_def sample_context_def)
  then show ?thesis
    using key_for_injective [OF sep, of KeyRunAndNode KeyRunAndNode] by (auto simp: sample_context_def)
qed

text \<open>Identifiers may contain the separator, and then two different effects at two
  different nodes of one run are performed under the same key, so the far side takes the
  second for a repetition of the first.\<close>

theorem keys_can_collide:
  "parse ''a:b'' = Ok (Identifier ''a:b'') \<and> parse ''b:c'' = Ok (Identifier ''b:c'') \<and>
   map_option attempt_key (ok (claim_effect_attempt (sample_effect ''c'') (sample_context ''a:b''))) =
   map_option attempt_key (ok (claim_effect_attempt (sample_effect ''b:c'') (sample_context ''a''))) \<and>
   ok (claim_effect_attempt (sample_effect ''c'') (sample_context ''a:b'')) \<noteq> None \<and>
   effect_id (sample_effect ''c'') \<noteq> effect_id (sample_effect ''b:c'')"
proof (intro conjI)
  show "parse ''a:b'' = Ok (Identifier ''a:b'')" "parse ''b:c'' = Ok (Identifier ''b:c'')"
    by (simp_all add: parse_eq_Ok_iff valid_identifier_def MAXIMUM_LENGTH_def is_allowed_def is_ascii_alphanumeric_def)
  have src: "key_source_parse e ''run_id+node_id'' = Ok KeyRunAndNode" for e
    by (simp add: key_source_parse_def trim_def is_whitespace_def)
  show "map_option attempt_key (ok (claim_effect_attempt (sample_effect ''c'') (sample_context ''a:b''))) =
      map_option attempt_key (ok (claim_effect_attempt (sample_effect ''b:c'') (sample_context ''a'')))"
    "ok (claim_effect_attempt (sample_effect ''c'') (sample_context ''a:b'')) \<noteq> None"
    by (simp_all add: claim_effect_attempt_def sample_effect_def sample_context_def src key_for_def)
  show "effect_id (sample_effect ''c'') \<noteq> effect_id (sample_effect ''b:c'')"
    by (simp add: sample_effect_def)
qed

section \<open>Recovery presents the key that was sent\<close>

lemma claim_of_claimed: "claim_of (claimed_event a) =
    Some \<lparr>claim_node = attempt_node a, claim_effect = attempt_effect a, claim_attempt = attempt_number a,
          claim_key = attempt_key a\<rparr>"
  by (simp add: claimed_event_def)

text \<open>A retry is the attempt that was written down: after a claim is appended the state
  holds it as its last open claim, and the attempt rebuilt from that claim under its own
  number is the attempt that was claimed, with the key the far side has already seen;
  a later attempt number changes nothing but the number.\<close>

theorem claim_recovers:
  assumes "apply_event s at (claimed_event a) = Ok s'"
  shows "outstanding s' \<noteq> [] \<and> recovered (last (outstanding s')) (attempt_number a) = a \<and>
         recovered (last (outstanding s')) k = a \<lparr>attempt_number := k\<rparr>"
  using assms by (auto simp: claimed_event_def recovered_def)

theorem claim_recovers_witness:
  "\<exists>s' a. apply_event (initial_state (hd sample_log) (Digest []) Observe) 3 (claimed_event a) = Ok s' \<and>
     attempt_key a = Some ''k'' \<and> recovered (last (outstanding s')) 9 = a \<lparr>attempt_number := 9\<rparr>"
proof -
  let ?a = "\<lparr>attempt_node = Identifier ''a'', attempt_effect = Identifier ''e'', attempt_number = 0,
             attempt_key = Some ''k''\<rparr>"
  obtain s' where s': "apply_event (initial_state (hd sample_log) (Digest []) Observe) 3 (claimed_event ?a) = Ok s'"
    by (simp add: claimed_event_def)
  from claim_recovers [OF s'] s' show ?thesis by (intro exI [of _ s'] exI [of _ ?a]) simp
qed

text \<open>Keys are checked before anything runs: after \<open>check_effect_keys\<close> accepts a
  definition, claiming any declared effect succeeds in every context, and the claim carries
  a key exactly when the effect is keyed.\<close>

theorem checked_keys_never_fail:
  assumes "check_effect_keys d = Ok ()" "n \<in> set (nodes (workflow_graph d))" "e \<in> set (node_effects n)"
  shows "\<exists>a. claim_effect_attempt e ctx = Ok a \<and> attempt_node a = context_node ctx \<and>
             attempt_effect a = effect_id e \<and> attempt_number a = context_attempt ctx \<and>
             (attempt_key a \<noteq> None \<longleftrightarrow> (\<exists>k. effect_idempotency e = Keyed k))"
proof -
  have keyed: "\<exists>src. key_source_parse (effect_id e) k = Ok src" if "effect_idempotency e = Keyed k" for k
  proof -
    have "\<forall>x \<in> set (node_effects n). (case effect_idempotency x of
        Keyed t \<Rightarrow> and_then (key_source_parse (effect_id x) t) (\<lambda>_. Ok ()) | _ \<Rightarrow> Ok ()) = Ok ()"
      using assms(1,2) by (simp add: check_effect_keys_def try_for_each_eq_Inr)
    from bspec [OF this assms(3)] that show ?thesis by simp
  qed
  show ?thesis
  proof (cases "effect_idempotency e")
    case (Keyed k)
    with keyed obtain src where "key_source_parse (effect_id e) k = Ok src" by blast
    with Keyed show ?thesis by (simp add: claim_effect_attempt_def)
  qed (simp_all add: claim_effect_attempt_def)
qed

definition sample_workflow :: workflow where
  "sample_workflow =
     \<lparr>workflow_schema_version = IR_SCHEMA_VERSION, workflow_id = Identifier ''wf'', workflow_version = ''1'',
      workflow_name = ''wf'', workflow_assurance = Observe, workflow_capabilities = [],
      workflow_budget = deterministic 100000,
      workflow_graph =
        \<lparr>graph_nodes = [(Identifier ''publish'', sample_publisher)], graph_edges = [], graph_control = [],
         graph_branches = [], graph_regions = [], graph_inputs = [], graph_outputs = []\<rparr>,
      workflow_boundaries = [], workflow_contracts = []\<rparr>"

theorem checked_keys_never_fail_witness:
  "check_effect_keys sample_workflow = Ok () \<and>
   (\<exists>a. claim_effect_attempt (hd (node_effects sample_publisher)) (sample_context ''publish'') = Ok a \<and>
        attempt_effect a = Identifier ''post'')"
proof -
  have ok: "check_effect_keys sample_workflow = Ok ()"
    by (simp add: check_effect_keys_def sample_workflow_def nodes_def bt_values_def sample_publisher_def)
  have n: "sample_publisher \<in> set (nodes (workflow_graph sample_workflow))"
    by (simp add: sample_workflow_def nodes_def bt_values_def)
  have e: "hd (node_effects sample_publisher) \<in> set (node_effects sample_publisher)"
    by (simp add: sample_publisher_def)
  from checked_keys_never_fail [OF ok n e, of "sample_context ''publish''"] ok show ?thesis
    by (auto simp: sample_publisher_def)
qed

end
