(* ===== verification/Stopping.thy ===== *)
theory Stopping
  imports Effect_Protocol "HOL-Library.Sublist"
begin

text \<open>
  Cancellation, deadlines and compensation (\<open>crates/runtime/src/failure.rs\<close>).
\<close>

record compensation =
  compensation_node :: ident
  compensation_effect :: ident
  compensation_route :: ident

record timed_out =
  timed_out_node_id :: ident
  timed_out_started_at :: recorded_time
  timed_out_deadline_ms :: u64

definition request_cancellation :: "ident \<Rightarrow> run_event" where
  "request_cancellation b = CancellationRequested b"

definition cancelled_event :: "ident \<Rightarrow> run_event" where
  "cancelled_event b = Cancelled b"

definition compensated_event :: "compensation \<Rightarrow> digest \<Rightarrow> run_event" where
  "compensated_event c receipt =
     Compensated (compensation_node c) (compensation_effect c) (compensation_route c) receipt"

definition safe_to_stop :: "run_state \<Rightarrow> bool" where
  "safe_to_stop s = (outstanding s = [])"

definition declared_effect :: "workflow \<Rightarrow> ident \<Rightarrow> ident \<Rightarrow> effect option" where
  "declared_effect d n e =
     (case graph_node (workflow_graph d) n of
        None \<Rightarrow> None
      | Some declared \<Rightarrow> find (\<lambda>each. effect_id each = e) (node_effects declared))"

definition compensation_for :: "workflow \<Rightarrow> ident \<times> ident \<Rightarrow> compensation option" where
  "compensation_for d ne =
     (case ne of (n, e) \<Rightarrow>
        (case declared_effect d n e of
           None \<Rightarrow> None
         | Some declared \<Rightarrow>
             (case effect_reversibility declared of
                Reversible c \<Rightarrow>
                  Some \<lparr>compensation_node = n, compensation_effect = e, compensation_route = c\<rparr>
              | Irreversible \<Rightarrow> None)))"

definition pending_compensations :: "workflow \<Rightarrow> run_state \<Rightarrow> compensation list" where
  "pending_compensations d s =
     filter_map (compensation_for d)
       (filter (\<lambda>(n, e). \<not> is_compensated s n e) (rev (finalized_order s)))"

definition elapsed_reaches :: "recorded_time \<Rightarrow> recorded_time \<Rightarrow> u64 \<Rightarrow> bool" where
  "elapsed_reaches now since deadline =
     (let elapsed = i64_saturating_sub now since in
      elapsed \<ge> 0 \<and> (case u64_try_from_i64 elapsed of Some e \<Rightarrow> e | None \<Rightarrow> - 1) \<ge> deadline)"

definition timed_out_node :: "workflow \<Rightarrow> run_state \<Rightarrow> recorded_time \<Rightarrow> timed_out option" where
  "timed_out_node d s now =
     find_map (\<lambda>(n, since).
       case graph_node (workflow_graph d) n of
         None \<Rightarrow> None
       | Some declared \<Rightarrow>
           (let deadline = wall_ms (node_budget declared) in
            if deadline = 0 then None
            else if elapsed_reaches now since deadline
            then Some \<lparr>timed_out_node_id = n, timed_out_started_at = since, timed_out_deadline_ms = deadline\<rparr>
            else None)) (running s)"

definition timed_out_event :: "timed_out \<Rightarrow> run_event" where
  "timed_out_event t =
     NodeFailed (timed_out_node_id t) BudgetExhaustion
       (''the node passed its declared wall-time budget of '' @ fmt_u (timed_out_deadline_ms t) @ ''ms'')"

definition run_deadline_passed :: "workflow \<Rightarrow> run_state \<Rightarrow> recorded_time \<Rightarrow> bool" where
  "run_deadline_passed d s now =
     (case started_at s of
        None \<Rightarrow> False
      | Some since \<Rightarrow>
          (let budget = wall_ms (workflow_budget d) in
           if budget = 0 then False else elapsed_reaches now since budget))"

section \<open>What is owed\<close>

lemma declared_effect_id: "declared_effect d n e = Some x \<Longrightarrow> effect_id x = e"
  by (auto simp: declared_effect_def split: option.splits dest: find_SomeD)

lemma pending_compensations_iff:
  "c \<in> set (pending_compensations d s) \<longleftrightarrow>
     (compensation_node c, compensation_effect c) \<in> set (finalized_order s) \<and>
     \<not> is_compensated s (compensation_node c) (compensation_effect c) \<and>
     (\<exists>x. declared_effect d (compensation_node c) (compensation_effect c) = Some x \<and>
          effect_reversibility x = Reversible (compensation_route c))"
proof -
  have "compensation_for d (n, e) = Some c \<longleftrightarrow>
      compensation_node c = n \<and> compensation_effect c = e \<and>
      (\<exists>x. declared_effect d n e = Some x \<and> effect_reversibility x = Reversible (compensation_route c))" for n e
    by (cases c) (auto simp: compensation_for_def split: option.splits reversibility.splits)
  then show ?thesis by (auto simp: pending_compensations_def set_filter_map)
qed

lemma compensated_settles:
  assumes "apply_event s at (compensated_event c receipt) = Ok s'"
  shows "set (pending_compensations d s') =
           set (pending_compensations d s) - {x. compensation_node x = compensation_node c \<and>
                                                  compensation_effect x = compensation_effect c}"
proof -
  have s': "finalized_order s' = finalized_order s"
      "is_compensated s' n e \<longleftrightarrow> (n, e) = (compensation_node c, compensation_effect c) \<or> is_compensated s n e" for n e
    using assms by (auto simp: compensated_event_def is_compensated_def)
  have "x \<in> set (pending_compensations d s') \<longleftrightarrow>
      x \<in> set (pending_compensations d s) \<and>
      \<not> (compensation_node x = compensation_node c \<and> compensation_effect x = compensation_effect c)" for x
    unfolding pending_compensations_iff by (simp add: s') blast
  then show ?thesis by blast
qed

lemma pending_subseq:
  "subseq (map (\<lambda>c. (compensation_node c, compensation_effect c)) (filter_map (compensation_for d) xs)) xs"
proof (induction xs)
  case Nil
  then show ?case by simp
next
  case (Cons ne xs)
  have "compensation_for d ne = Some c \<Longrightarrow> (compensation_node c, compensation_effect c) = ne" for c
    by (cases ne) (auto simp: compensation_for_def split: option.splits reversibility.splits)
  then show ?case using Cons by (auto split: option.splits)
qed

text \<open>A run owes exactly the reversible effects that happened and were not undone, by the
  route the definition declares, and it owes them in the reverse of the order in which they
  happened; recording a compensation settles that effect and nothing else.\<close>

theorem compensations_owed:
  "(c \<in> set (pending_compensations d s) \<longleftrightarrow>
      (compensation_node c, compensation_effect c) \<in> set (finalized_order s) \<and>
      \<not> is_compensated s (compensation_node c) (compensation_effect c) \<and>
      (\<exists>x. declared_effect d (compensation_node c) (compensation_effect c) = Some x \<and>
           effect_reversibility x = Reversible (compensation_route c))) \<and>
   subseq (map (\<lambda>c. (compensation_node c, compensation_effect c)) (pending_compensations d s))
     (rev (finalized_order s)) \<and>
   (apply_event s at (compensated_event b receipt) = Ok t \<longrightarrow>
      set (pending_compensations d t) =
        {x \<in> set (pending_compensations d s).
           (compensation_node x, compensation_effect x) \<noteq> (compensation_node b, compensation_effect b)})"
proof (intro conjI impI)
  show "c \<in> set (pending_compensations d s) \<longleftrightarrow>
      (compensation_node c, compensation_effect c) \<in> set (finalized_order s) \<and>
      \<not> is_compensated s (compensation_node c) (compensation_effect c) \<and>
      (\<exists>x. declared_effect d (compensation_node c) (compensation_effect c) = Some x \<and>
           effect_reversibility x = Reversible (compensation_route c))"
    by (rule pending_compensations_iff)
  show "subseq (map (\<lambda>c. (compensation_node c, compensation_effect c)) (pending_compensations d s))
     (rev (finalized_order s))"
    unfolding pending_compensations_def using pending_subseq subseq_filter_left subseq_order.trans by blast
  assume "apply_event s at (compensated_event b receipt) = Ok t"
  from compensated_settles [OF this] show "set (pending_compensations d t) =
        {x \<in> set (pending_compensations d s).
           (compensation_node x, compensation_effect x) \<noteq> (compensation_node b, compensation_effect b)}"
    by auto
qed

definition sample_reversible :: workflow where
  "sample_reversible =
     sample_workflow \<lparr>workflow_graph := (workflow_graph sample_workflow) \<lparr>graph_nodes :=
       [(Identifier ''publish'', sample_publisher \<lparr>node_effects :=
          [(sample_effect ''post'') \<lparr>effect_reversibility := Reversible (Identifier ''unpost'')\<rparr>]\<rparr>)]\<rparr>\<rparr>"

definition sample_finalized :: run_state where
  "sample_finalized =
     (initial_state (hd sample_log) (Digest []) Observe)
       \<lparr>finalized_order := [(Identifier ''publish'', Identifier ''post'')]\<rparr>"

theorem compensations_owed_witness:
  "\<exists>c t. pending_compensations sample_reversible sample_finalized = [c] \<and>
     compensation_route c = Identifier ''unpost'' \<and>
     apply_event sample_finalized 9 (compensated_event c (Digest [])) = Ok t \<and>
     pending_compensations sample_reversible t = []"
proof -
  let ?c = "\<lparr>compensation_node = Identifier ''publish'', compensation_effect = Identifier ''post'',
             compensation_route = Identifier ''unpost''\<rparr>"
  have one: "pending_compensations sample_reversible sample_finalized = [?c]"
    by (simp add: pending_compensations_def sample_reversible_def sample_finalized_def sample_workflow_def
        initial_state_def is_compensated_def compensation_for_def declared_effect_def graph_node_def
        sample_effect_def)
  obtain t where t: "apply_event sample_finalized 9 (compensated_event ?c (Digest [])) = Ok t"
    by (simp add: compensated_event_def)
  then have "set (pending_compensations sample_reversible t) = {}"
    using compensations_owed [THEN conjunct2, THEN conjunct2, rule_format, OF t, of sample_reversible]
    by (simp add: one)
  with one t show ?thesis by (intro exI [of _ ?c] exI [of _ t]) simp
qed

section \<open>Deadlines\<close>

lemma elapsed_reaches_iff:
  assumes "i64_min \<le> now" "now \<le> i64_max" "i64_min \<le> since" "since \<le> i64_max" "0 < deadline" "uint deadline \<le> i64_max"
  shows "elapsed_reaches now since deadline \<longleftrightarrow> now - since \<ge> uint deadline"
proof -
  let ?e = "i64_saturating_sub now since"
  have small: "uint (word_of_int ?e :: u64) = ?e" if "0 \<le> ?e"
    using that by (simp add: uint_word_of_int i64_saturating_sub_def i64_min_def i64_max_def take_bit_int_eq_self)
  have pos: "0 < uint deadline" using assms(5) by (simp add: word_less_def)
  have "elapsed_reaches now since deadline \<longleftrightarrow> 0 \<le> ?e \<and> uint deadline \<le> ?e"
    using small by (auto simp: elapsed_reaches_def Let_def u64_try_from_i64_def word_le_def)
  also have "\<dots> \<longleftrightarrow> now - since \<ge> uint deadline"
    using assms(6) pos by (auto simp: i64_saturating_sub_def i64_min_def i64_max_def)
  finally show ?thesis .
qed

lemma find_map_eq_Some_iff_ex: "find_map f xs \<noteq> None \<longleftrightarrow> (\<exists>x \<in> set xs. f x \<noteq> None)"
  using find_map_eq_None [of f xs] by auto

text \<open>The nodes past their deadline at a time.\<close>

definition past_deadline :: "workflow \<Rightarrow> recorded_time \<Rightarrow> ident \<Rightarrow> recorded_time \<Rightarrow> bool" where
  "past_deadline d now n since =
     (\<exists>declared. graph_node (workflow_graph d) n = Some declared \<and> wall_ms (node_budget declared) \<noteq> 0 \<and>
        elapsed_reaches now since (wall_ms (node_budget declared)))"

text \<open>Deadlines run from the time in the log: a node is timed out exactly when some
  running, declared node with a non-zero budget has reached it since the time its start was
  recorded, and in 64-bit milliseconds that is the exact difference of the two times,
  without wrapping, for every representable pair of times.\<close>

theorem timed_out_exactly_past_deadline:
  "(timed_out_node d s now \<noteq> None \<longleftrightarrow> (\<exists>(n, since) \<in> set (running s). past_deadline d now n since)) \<and>
   (timed_out_node d s now = Some t \<longrightarrow>
      (timed_out_node_id t, timed_out_started_at t) \<in> set (running s) \<and>
      past_deadline d now (timed_out_node_id t) (timed_out_started_at t)) \<and>
   (i64_min \<le> now \<and> now \<le> i64_max \<and> i64_min \<le> since \<and> since \<le> i64_max \<and> 0 < deadline \<and> uint deadline \<le> i64_max \<longrightarrow>
      (elapsed_reaches now since deadline \<longleftrightarrow> now - since \<ge> uint deadline))"
proof (intro conjI impI)
  show "timed_out_node d s now \<noteq> None \<longleftrightarrow> (\<exists>(n, since) \<in> set (running s). past_deadline d now n since)"
    unfolding timed_out_node_def find_map_eq_Some_iff_ex
    by (intro bex_cong refl) (auto simp: past_deadline_def Let_def split: option.splits if_splits)
  assume t: "timed_out_node d s now = Some t"
  show "(timed_out_node_id t, timed_out_started_at t) \<in> set (running s)"
    "past_deadline d now (timed_out_node_id t) (timed_out_started_at t)"
    using find_map_SomeD [OF t [unfolded timed_out_node_def]]
    by (auto simp: past_deadline_def Let_def split: option.splits if_splits)
next
  assume "i64_min \<le> now \<and> now \<le> i64_max \<and> i64_min \<le> since \<and> since \<le> i64_max \<and> 0 < deadline \<and> uint deadline \<le> i64_max"
  then show "elapsed_reaches now since deadline \<longleftrightarrow> now - since \<ge> uint deadline"
    using elapsed_reaches_iff by blast
qed

theorem timed_out_exactly_past_deadline_witness:
  "elapsed_reaches 1500 400 1000 \<and> \<not> elapsed_reaches 1300 400 1000"
  using timed_out_exactly_past_deadline [of sample_workflow sample_finalized 0 _ 400 1000]
    timed_out_exactly_past_deadline [where now = 1500 and since = 400 and deadline = 1000]
    timed_out_exactly_past_deadline [where now = 1300 and since = 400 and deadline = 1000]
  by (simp add: i64_min_def i64_max_def word_less_def)

end
