(* ===== verification/Waits.thy ===== *)
theory Waits
  imports Run_History
begin

text \<open>
  Durable waits and the signals that resume them (\<open>crates/runtime/src/wait.rs\<close>).
\<close>

datatype signal_kind = SignalEvent ident | HumanDecision ident | TimerElapsed

record signal =
  signal_kind :: signal_kind
  signal_by :: ident
  signal_authorities :: "ident btree_set"

definition signal_event :: "ident \<Rightarrow> ident \<Rightarrow> signal" where
  "signal_event name by' = \<lparr>signal_kind = SignalEvent name, signal_by = by', signal_authorities = []\<rparr>"

definition signal_decision :: "ident \<Rightarrow> ident \<Rightarrow> ident btree_set \<Rightarrow> signal" where
  "signal_decision ob by' authorities =
     \<lparr>signal_kind = HumanDecision ob, signal_by = by', signal_authorities = authorities\<rparr>"

definition signal_timer :: "ident \<Rightarrow> signal" where
  "signal_timer by' = \<lparr>signal_kind = TimerElapsed, signal_by = by', signal_authorities = []\<rparr>"

datatype wait_error =
    NotWaiting
  | Mismatch wait signal_kind
  | NotDue recorded_time recorded_time
  | Unauthorised ident ident

definition suspend :: "wait \<Rightarrow> run_event" where
  "suspend w = Suspended w"

fun timer_is_due :: "wait \<Rightarrow> recorded_time \<Rightarrow> bool" where
  "timer_is_due (Timer until) now = (until \<le> now)"
| "timer_is_due w now = False"

definition resume :: "wait option \<Rightarrow> signal \<Rightarrow> recorded_time \<Rightarrow> (wait_error, run_event) result" where
  "resume waiting sig now =
     and_then (ok_or NotWaiting waiting) (\<lambda>w.
     and_then
       (case (w, signal_kind sig) of
          (Timer until, TimerElapsed) \<Rightarrow> if until > now then Err (NotDue until now) else Ok ()
        | (WaitEvent name, SignalEvent arrived) \<Rightarrow>
            if name \<noteq> arrived then Err (Mismatch w (signal_kind sig)) else Ok ()
        | (WaitHumanGate n ob, HumanDecision decided) \<Rightarrow>
            if ob \<noteq> decided then Err (Mismatch w (signal_kind sig))
            else if ob \<notin> set (signal_authorities sig) then Err (Unauthorised ob (signal_by sig))
            else Ok ()
        | _ \<Rightarrow> Err (Mismatch w (signal_kind sig))) (\<lambda>_.
       Ok (Resumed w (signal_by sig))))"

text \<open>The waits a signal may resume at a time.\<close>

fun answers :: "signal \<Rightarrow> recorded_time \<Rightarrow> wait \<Rightarrow> bool" where
  "answers sig now (Timer until) = (signal_kind sig = TimerElapsed \<and> until \<le> now)"
| "answers sig now (WaitEvent name) = (signal_kind sig = SignalEvent name)"
| "answers sig now (WaitHumanGate n ob) =
     (signal_kind sig = HumanDecision ob \<and> ob \<in> set (signal_authorities sig))"

lemma resume_Some: "resume (Some w) sig now = Ok ev \<longleftrightarrow> answers sig now w \<and> ev = Resumed w (signal_by sig)"
  by (cases w; cases "signal_kind sig") (auto simp: resume_def)

lemma resume_None: "resume None sig now = Err NotWaiting"
  by (simp add: resume_def)

text \<open>C35. A signal resumes exactly the wait it answers: it is accepted when the run is
  suspended on that wait and the timer is due, the event has that name, or the deliverer
  decided that obligation and holds its authority. The event it produces names the wait
  the run was suspended on and applies to every state suspended on it, after which the run
  waits for nothing.\<close>

theorem resume_exactly_answers:
  "(resume waiting sig now = Ok ev \<longleftrightarrow>
      (\<exists>w. waiting = Some w \<and> answers sig now w \<and> ev = Resumed w (signal_by sig))) \<and>
   (resume (waiting_on s) sig now = Ok ev \<longrightarrow>
      apply_event s at ev = Ok (s \<lparr>waiting_on := None, status := Running\<rparr>))"
  by (cases waiting; cases "waiting_on s") (auto simp: resume_None resume_Some)

theorem resume_exactly_answers_witness:
  "resume (Some (WaitHumanGate (Identifier ''n'') (Identifier ''approve'')))
     (signal_decision (Identifier ''approve'') (Identifier ''ada'') [Identifier ''approve'']) 7 =
     Ok (Resumed (WaitHumanGate (Identifier ''n'') (Identifier ''approve'')) (Identifier ''ada'')) \<and>
   (\<forall>ev. resume (Some (WaitHumanGate (Identifier ''n'') (Identifier ''approve'')))
     (signal_decision (Identifier ''approve'') (Identifier ''eve'') []) 7 \<noteq> Ok ev)"
  using resume_exactly_answers [of "Some (WaitHumanGate (Identifier ''n'') (Identifier ''approve''))"]
  by (simp add: signal_decision_def)

end
