(* ===== verification/Decide.thy ===== *)
theory Decide
  imports Loop_Control Stopping Waits
begin

text \<open>
  The decision core (\<open>crates/runtime/src/decide.rs\<close>): what a worker may do next, as a
  function of the definition, the folded state and a supplied time. The lemmas invert each
  decision to the conditions under which it is taken.
\<close>

section \<open>Decisions\<close>

datatype decision =
    Start
  | StartNode ident
  | PerformEffect ident ident u32
  | RetryClaimedEffect ident ident u32
  | HaltUncertainEffect ident ident
  | StopLoop ident stop_reason
  | StartIteration ident u32
  | FinishIteration ident u32
  | Compensate compensation
  | Cancel ident
  | TimeOutNode ident
  | Suspend wait
  | ResumeWait wait
  | Complete
  | Fail run_failure
  | Idle

definition decide_outstanding_effect :: "workflow \<Rightarrow> run_state \<Rightarrow> decision option" where
  "decide_outstanding_effect d s =
     (case first (outstanding s) of
        None \<Rightarrow> None
      | Some claim \<Rightarrow>
          (case declared_effect d (claim_node claim) (claim_effect claim) of
             None \<Rightarrow> None
           | Some declared \<Rightarrow>
               (case effect_idempotency declared of
                  Idempotent \<Rightarrow>
                    Some (RetryClaimedEffect (claim_node claim) (claim_effect claim)
                            (saturating_add (claim_attempt claim) 1))
                | Keyed key_source \<Rightarrow>
                    Some (RetryClaimedEffect (claim_node claim) (claim_effect claim) (claim_attempt claim))
                | NonIdempotent \<Rightarrow>
                    Some (HaltUncertainEffect (claim_node claim) (claim_effect claim)))))"

text \<open>One turn of the loop over the regions in \<open>decide_loop\<close>; \<open>None\<close> goes on to the next.\<close>

definition decide_loop_region :: "run_state \<Rightarrow> region \<Rightarrow> decision option" where
  "decide_loop_region s r =
     (case region_kind r of
        Plain \<Rightarrow> None
      | Loop spec \<Rightarrow>
          (let p = loop_progress_of s (region_id r) in
           case stopped p of
             Some why \<Rightarrow>
               if is_completion why then None else Some (Fail (FailLoopStopped (region_id r) why))
           | None \<Rightarrow>
               (let reason =
                  (case exhausted spec s of
                     Some x \<Rightarrow> Some x
                   | None \<Rightarrow>
                       (case invariant_failure p of
                          Some x \<Rightarrow> Some x
                        | None \<Rightarrow>
                            (case loop_progress spec of
                               None \<Rightarrow> None
                             | Some m \<Rightarrow> non_progress m p))) in
                map_option (StopLoop (region_id r)) reason)))"

definition decide_loop :: "workflow \<Rightarrow> run_state \<Rightarrow> decision option" where
  "decide_loop d s = find_map (decide_loop_region s) (regions (workflow_graph d))"

fun apply_repair :: "repair \<Rightarrow> ident \<Rightarrow> ident \<Rightarrow> node_failure \<Rightarrow> decision" where
  "apply_repair (RepairRetry n a) region failed f = StartNode n"
| "apply_repair (RepairHand n) region failed f = StartNode n"
| "apply_repair (RepairEscalate to) region failed f = Suspend (WaitHumanGate failed to)"
| "apply_repair RepairReject region failed f = Fail (FailNode failed (failure_kind_of f) (failure_detail f))"
| "apply_repair (RepairAttemptsExhausted k) region failed f = StopLoop region (RepairExhausted k)"

definition decide_failure :: "workflow \<Rightarrow> run_state \<Rightarrow> decision option" where
  "decide_failure d s =
     (case first (unresolved_failures s) of
        None \<Rightarrow> None
      | Some (n, f) \<Rightarrow>
          (let stop = Some (Fail (FailNode n (failure_kind_of f) (failure_detail f))) in
           case region_of_node (workflow_graph d) n of
             None \<Rightarrow> stop
           | Some r \<Rightarrow>
               (case region_kind r of
                  Plain \<Rightarrow> stop
                | Loop spec \<Rightarrow>
                    if stopped (loop_progress_of s (region_id r)) \<noteq> None then stop
                    else (case repair_for spec s n (failure_kind_of f) of
                            None \<Rightarrow> stop
                          | Some rep \<Rightarrow> Some (apply_repair rep (region_id r) n f)))))"

definition region_is_reachable :: "workflow \<Rightarrow> run_state \<Rightarrow> region \<Rightarrow> bool" where
  "region_is_reachable d s r =
     list_all (has_finished s)
       (filter (\<lambda>n. n \<notin> set (region_nodes r)) (predecessors_of (workflow_graph d) (region_entry r)))"

definition decide_one_loop :: "workflow \<Rightarrow> run_state \<Rightarrow> region \<Rightarrow> loop_spec \<Rightarrow> decision option" where
  "decide_one_loop d s r spec =
     (let p = loop_progress_of s (region_id r) in
      if stopped p \<noteq> None then None
      else if started p > finished_iterations p
      then (if has_finished s (region_exit r)
            then Some (FinishIteration (region_id r) (finished_iterations p)) else None)
      else if finished_iterations p = 0
      then (if region_is_reachable d s r then Some (StartIteration (region_id r) 0) else None)
      else
        (let c = loop_continuation spec in
         case (case control_value_of s (evaluated_by c) (as_str (continuation_port c)) of
                 None \<Rightarrow> None | Some v \<Rightarrow> as_bool v) of
           None \<Rightarrow>
             Some (Fail (FailControlMissing (region_id r) (evaluated_by c) (as_str (continuation_port c))
                           ''a boolean continuation''))
         | Some keep_going \<Rightarrow>
             if \<not> keep_going then Some (StopLoop (region_id r) ConditionFalse)
             else (case iterations_exhausted spec p of
                     None \<Rightarrow> Some (StartIteration (region_id r) (finished_iterations p))
                   | Some reason \<Rightarrow> Some (StopLoop (region_id r) reason))))"

definition decide_iteration :: "workflow \<Rightarrow> run_state \<Rightarrow> decision option" where
  "decide_iteration d s =
     find_map (\<lambda>r. case region_kind r of Loop spec \<Rightarrow> decide_one_loop d s r spec | Plain \<Rightarrow> None)
       (regions (workflow_graph d))"

definition predecessor_is_settled :: "workflow \<Rightarrow> run_state \<Rightarrow> ident \<Rightarrow> ident \<Rightarrow> bool" where
  "predecessor_is_settled d s dependent predecessor =
     (if \<not> has_finished s predecessor then False
      else case region_of_node (workflow_graph d) predecessor of
             None \<Rightarrow> True
           | Some r \<Rightarrow>
               if \<not> permits_cycles (region_kind r) \<or> dependent \<in> set (region_nodes r) then True
               else stopped (loop_progress_of s (region_id r)) \<noteq> None)"

definition iteration_is_open_for :: "workflow \<Rightarrow> run_state \<Rightarrow> ident \<Rightarrow> bool" where
  "iteration_is_open_for d s n =
     (case region_of_node (workflow_graph d) n of
        None \<Rightarrow> True
      | Some r \<Rightarrow>
          if \<not> permits_cycles (region_kind r) then True
          else let p = loop_progress_of s (region_id r) in
               stopped p = None \<and> started p > finished_iterations p)"

definition node_is_ready :: "workflow \<Rightarrow> run_state \<Rightarrow> node \<Rightarrow> bool" where
  "node_is_ready d s n =
     (\<not> has_finished s (node_id n) \<and> \<not> bt_contains (running s) (node_id n) \<and>
      iteration_is_open_for d s (node_id n) \<and>
      list_all (predecessor_is_settled d s (node_id n)) (predecessors_of (workflow_graph d) (node_id n)))"

definition next_ready_node :: "workflow \<Rightarrow> run_state \<Rightarrow> ident option" where
  "next_ready_node d s = map_option node_id (find (node_is_ready d s) (nodes (workflow_graph d)))"

text \<open>The effect an effect node exists for, when it has not happened yet.\<close>

definition effect_to_perform :: "workflow \<Rightarrow> run_state \<Rightarrow> ident \<Rightarrow> ident option" where
  "effect_to_perform d s n =
     (case graph_node (workflow_graph d) n of
        None \<Rightarrow> None
      | Some declared \<Rightarrow>
          if node_kind declared \<noteq> EffectNode then None
          else (case first (node_effects declared) of
                  None \<Rightarrow> None
                | Some e \<Rightarrow> if effect_completed s n (effect_id e) then None else Some (effect_id e)))"

definition decide_work :: "workflow \<Rightarrow> run_state \<Rightarrow> decision" where
  "decide_work d s =
     (case next_ready_node d s of
        Some n \<Rightarrow>
          (case effect_to_perform d s n of
             Some e \<Rightarrow> PerformEffect n e 0
           | None \<Rightarrow> StartNode n)
      | None \<Rightarrow>
          if running s \<noteq> [] then Idle
          else if list_all (\<lambda>n. has_finished s (node_id n)) (nodes (workflow_graph d)) then Complete
          else Idle)"

definition decide_waiting :: "run_state \<Rightarrow> recorded_time \<Rightarrow> decision" where
  "decide_waiting s now =
     (case waiting_on s of
        Some (Timer until) \<Rightarrow> if until \<le> now then ResumeWait (Timer until) else Idle
      | _ \<Rightarrow> Idle)"

definition decide_cancellation :: "workflow \<Rightarrow> run_state \<Rightarrow> decision option" where
  "decide_cancellation d s =
     (case cancel_requested s of
        None \<Rightarrow> None
      | Some b \<Rightarrow>
          (case first (pending_compensations d s) of
             Some c \<Rightarrow> Some (Compensate c)
           | None \<Rightarrow> if safe_to_stop s then Some (Cancel b) else None))"

text \<open>The steps of \<open>decide_next\<close> after its checks on effects, cancellation and waits.\<close>

definition decide_active :: "workflow \<Rightarrow> run_state \<Rightarrow> recorded_time \<Rightarrow> decision" where
  "decide_active d s now =
     (case timed_out_node d s now of
        Some t \<Rightarrow> TimeOutNode (timed_out_node_id t)
      | None \<Rightarrow>
          if run_deadline_passed d s now then Fail (FailBudgetExhausted ''wall time'')
          else case decide_loop d s of
                 Some x \<Rightarrow> x
               | None \<Rightarrow>
                   (case decide_failure d s of
                      Some x \<Rightarrow> x
                    | None \<Rightarrow>
                        (case decide_iteration d s of
                           Some x \<Rightarrow> x
                         | None \<Rightarrow> decide_work d s)))"

definition decide_next :: "workflow \<Rightarrow> run_state \<Rightarrow> recorded_time \<Rightarrow> decision" where
  "decide_next d s now =
     (if status_is_terminal (status s) then Idle
      else case decide_outstanding_effect d s of
             Some x \<Rightarrow> x
           | None \<Rightarrow>
               (case first (uncertain s) of
                  Some (n, e) \<Rightarrow> Fail (FailEffectUncertain n e)
                | None \<Rightarrow>
                    (case decide_cancellation d s of
                       Some x \<Rightarrow> x
                     | None \<Rightarrow>
                         if status s = Waiting then decide_waiting s now
                         else if status s = Queued then Start
                         else decide_active d s now)))"

definition is_fail :: "decision \<Rightarrow> bool" where
  "is_fail x = (case x of Fail why \<Rightarrow> True | _ \<Rightarrow> False)"

definition decide :: "workflow \<Rightarrow> run_state \<Rightarrow> recorded_time \<Rightarrow> decision" where
  "decide d s now =
     (let next = decide_next d s now in
      if is_fail next
      then (case first (pending_compensations d s) of Some c \<Rightarrow> Compensate c | None \<Rightarrow> next)
      else next)"

section \<open>Where a decision comes from\<close>

lemma decide_next_cases:
  assumes "decide_next d s now = x"
  obtains (terminal) "status_is_terminal (status s)" "x = Idle"
  | (claim) "\<not> status_is_terminal (status s)" "decide_outstanding_effect d s = Some x"
  | (doubt) n e where "\<not> status_is_terminal (status s)" "decide_outstanding_effect d s = None"
      "first (uncertain s) = Some (n, e)" "x = Fail (FailEffectUncertain n e)"
  | (cancel) "\<not> status_is_terminal (status s)" "decide_outstanding_effect d s = None" "uncertain s = []"
      "decide_cancellation d s = Some x"
  | (waiting) "status s = Waiting" "decide_outstanding_effect d s = None" "uncertain s = []"
      "decide_cancellation d s = None" "x = decide_waiting s now"
  | (queued) "status s = Queued" "decide_outstanding_effect d s = None" "uncertain s = []"
      "decide_cancellation d s = None" "x = Start"
  | (active) "status s = Running" "decide_outstanding_effect d s = None" "uncertain s = []"
      "decide_cancellation d s = None" "x = decide_active d s now"
proof (cases "status_is_terminal (status s)")
  case True
  then show ?thesis using assms that(1) by (simp add: decide_next_def)
next
  case live: False
  show ?thesis
  proof (cases "decide_outstanding_effect d s")
    case (Some y)
    then show ?thesis using assms that(2) live by (simp add: decide_next_def)
  next
    case no_claim: None
    show ?thesis
    proof (cases "first (uncertain s)")
      case (Some ne)
      then show ?thesis using assms that(3) live no_claim by (cases ne) (simp add: decide_next_def)
    next
      case no_doubt: None
      show ?thesis
      proof (cases "decide_cancellation d s")
        case (Some y)
        then show ?thesis using assms that(4) live no_claim no_doubt by (simp add: decide_next_def)
      next
        case None
        then show ?thesis
          using assms that(5,6,7) live no_claim no_doubt by (cases "status s") (simp_all add: decide_next_def)
      qed
    qed
  qed
qed

lemma decide_active_cases:
  assumes "decide_active d s now = x"
  obtains (timeout) t where "timed_out_node d s now = Some t" "x = TimeOutNode (timed_out_node_id t)"
  | (deadline) "x = Fail (FailBudgetExhausted ''wall time'')"
  | (loop) "decide_loop d s = Some x"
  | (failure) "decide_loop d s = None" "decide_failure d s = Some x"
  | (iteration) "decide_loop d s = None" "decide_failure d s = None" "decide_iteration d s = Some x"
  | (work) "decide_loop d s = None" "decide_failure d s = None" "decide_iteration d s = None" "x = decide_work d s"
  using assms by (auto simp: decide_active_def split: option.splits if_splits)

lemma decide_outstanding_effect_Some:
  assumes "decide_outstanding_effect d s = Some x"
  obtains claim rest e where "outstanding s = claim # rest"
    "declared_effect d (claim_node claim) (claim_effect claim) = Some e"
    "x = (case effect_idempotency e of
            Idempotent \<Rightarrow> RetryClaimedEffect (claim_node claim) (claim_effect claim) (saturating_add (claim_attempt claim) 1)
          | Keyed k \<Rightarrow> RetryClaimedEffect (claim_node claim) (claim_effect claim) (claim_attempt claim)
          | NonIdempotent \<Rightarrow> HaltUncertainEffect (claim_node claim) (claim_effect claim))"
proof (cases "outstanding s")
  case Nil
  then show ?thesis using assms by (simp add: decide_outstanding_effect_def)
next
  case (Cons claim rest)
  with assms obtain e where e: "declared_effect d (claim_node claim) (claim_effect claim) = Some e"
    by (auto simp: decide_outstanding_effect_def split: option.splits)
  show ?thesis
    using that [OF Cons e] assms Cons e
    by (auto simp: decide_outstanding_effect_def split: idempotency.splits)
qed

lemma decide_outstanding_effect_None:
  "decide_outstanding_effect d s = None \<longleftrightarrow>
     outstanding s = [] \<or>
     declared_effect d (claim_node (hd (outstanding s))) (claim_effect (hd (outstanding s))) = None"
  by (cases "outstanding s") (auto simp: decide_outstanding_effect_def split: option.splits idempotency.splits)

lemma decide_cancellation_Some:
  "decide_cancellation d s = Some x \<longleftrightarrow>
     (\<exists>b. cancel_requested s = Some b \<and>
        ((\<exists>c. first (pending_compensations d s) = Some c \<and> x = Compensate c) \<or>
         (pending_compensations d s = [] \<and> safe_to_stop s \<and> x = Cancel b)))"
  by (auto simp: decide_cancellation_def split: option.splits)

lemma decide_loop_Some:
  assumes "decide_loop d s = Some x"
  obtains (failed) r spec why where "r \<in> set (regions (workflow_graph d))" "region_kind r = Loop spec"
      "stopped (loop_progress_of s (region_id r)) = Some why" "\<not> is_completion why"
      "x = Fail (FailLoopStopped (region_id r) why)"
  | (stop) r spec reason where "r \<in> set (regions (workflow_graph d))" "region_kind r = Loop spec"
      "stopped (loop_progress_of s (region_id r)) = None" "\<not> is_completion reason"
      "x = StopLoop (region_id r) reason"
proof -
  from find_map_SomeD [OF assms [unfolded decide_loop_def]] obtain r where
      r: "r \<in> set (regions (workflow_graph d))" "decide_loop_region s r = Some x" by blast
  then obtain spec where spec: "region_kind r = Loop spec"
    by (auto simp: decide_loop_region_def split: region_kind.splits)
  show ?thesis
  proof (cases "stopped (loop_progress_of s (region_id r))")
    case None
    with r(2) spec obtain reason where "x = StopLoop (region_id r) reason" "\<not> is_completion reason"
      by (auto simp: decide_loop_region_def Let_def stop_not_completion split: option.splits)
    then show ?thesis using that(2) [OF r(1) spec None] by blast
  next
    case (Some why)
    with r spec that(1) show ?thesis
      by (auto simp: decide_loop_region_def Let_def split: if_splits)
  qed
qed

lemma decide_failure_Some:
  assumes "decide_failure d s = Some x"
  obtains (fail) n f where "first (unresolved_failures s) = Some (n, f)"
      "x = Fail (FailNode n (failure_kind_of f) (failure_detail f))"
  | (repair) n f r spec rep where "first (unresolved_failures s) = Some (n, f)"
      "region_of_node (workflow_graph d) n = Some r" "region_kind r = Loop spec"
      "stopped (loop_progress_of s (region_id r)) = None"
      "repair_for spec s n (failure_kind_of f) = Some rep" "x = apply_repair rep (region_id r) n f"
  using assms
  by (auto simp: decide_failure_def Let_def split: option.splits region_kind.splits if_splits)

lemma decide_one_loop_Some:
  assumes "decide_one_loop d s r spec = Some x"
  shows "stopped (loop_progress_of s (region_id r)) = None \<and>
     (x = FinishIteration (region_id r) (finished_iterations (loop_progress_of s (region_id r))) \<and>
        started (loop_progress_of s (region_id r)) > finished_iterations (loop_progress_of s (region_id r)) \<and>
        has_finished s (region_exit r) \<or>
      x = StartIteration (region_id r) (finished_iterations (loop_progress_of s (region_id r))) \<and>
        \<not> started (loop_progress_of s (region_id r)) > finished_iterations (loop_progress_of s (region_id r)) \<and>
        (finished_iterations (loop_progress_of s (region_id r)) = 0 \<and> region_is_reachable d s r \<or>
         control_value_of s (evaluated_by (loop_continuation spec)) (as_str (continuation_port (loop_continuation spec)))
           = Some (ControlBool True) \<and>
         started (loop_progress_of s (region_id r)) < max_iterations (loop_budget spec)) \<or>
      (\<exists>why. x = Fail why) \<or> (\<exists>why. x = StopLoop (region_id r) why))"
proof -
  have as_bool_Some: "as_bool v = Some b \<longleftrightarrow> v = ControlBool b" for v b by (cases v) auto
  show ?thesis
    using assms
    by (auto simp: decide_one_loop_def Let_def iterations_exhausted_def as_bool_Some not_le
        split: if_splits option.splits)
qed

lemma decide_iteration_Some:
  assumes "decide_iteration d s = Some x"
  obtains r spec where "r \<in> set (regions (workflow_graph d))" "region_kind r = Loop spec"
    "decide_one_loop d s r spec = Some x"
proof -
  from find_map_SomeD [OF assms [unfolded decide_iteration_def]] obtain r where
      r: "r \<in> set (regions (workflow_graph d))"
        "(case region_kind r of Loop spec \<Rightarrow> decide_one_loop d s r spec | Plain \<Rightarrow> None) = Some x"
    by blast
  then show ?thesis using that by (cases "region_kind r") auto
qed

lemma next_ready_node_Some:
  assumes "next_ready_node d s = Some n"
  obtains declared where "declared \<in> set (nodes (workflow_graph d))" "node_id declared = n"
    "node_is_ready d s declared"
  using assms find_SomeD by (fastforce simp: next_ready_node_def)

section \<open>What each decision presupposes\<close>

lemma decide_not_fail:
  "decide d s now = x \<Longrightarrow> (\<And>c. x \<noteq> Compensate c) \<Longrightarrow> decide_next d s now = x"
  by (auto simp: decide_def Let_def split: if_splits option.splits)

lemma apply_repair_range:
  "(\<exists>n. apply_repair rep r n' f = StartNode n) \<or> (\<exists>w. apply_repair rep r n' f = Suspend w) \<or>
   (\<exists>why. apply_repair rep r n' f = Fail why) \<or> (\<exists>why. apply_repair rep r n' f = StopLoop r why)"
  by (cases rep) auto

lemma decide_loop_range:
  "decide_loop d s = Some x \<Longrightarrow> (\<exists>why. x = Fail why) \<or> (\<exists>r why. x = StopLoop r why)"
  by (erule decide_loop_Some) auto

lemma decide_failure_range:
  "decide_failure d s = Some x \<Longrightarrow>
     (\<exists>n. x = StartNode n) \<or> (\<exists>w. x = Suspend w) \<or> (\<exists>why. x = Fail why) \<or> (\<exists>r why. x = StopLoop r why)"
  using apply_repair_range by (elim decide_failure_Some) (auto, metis)

lemma decide_iteration_range:
  "decide_iteration d s = Some x \<Longrightarrow>
     (\<exists>r i. x = FinishIteration r i) \<or> (\<exists>r i. x = StartIteration r i) \<or> (\<exists>why. x = Fail why) \<or>
     (\<exists>r why. x = StopLoop r why)"
  by (elim decide_iteration_Some) (drule decide_one_loop_Some, auto)

lemma decide_work_range:
  "decide_work d s = Complete \<or> decide_work d s = Idle \<or> (\<exists>n. decide_work d s = StartNode n) \<or>
   (\<exists>n e. decide_work d s = PerformEffect n e 0)"
  by (auto simp: decide_work_def split: option.splits)

lemma decide_outstanding_range:
  "decide_outstanding_effect d s = Some x \<Longrightarrow>
     (\<exists>n e a. x = RetryClaimedEffect n e a) \<or> (\<exists>n e. x = HaltUncertainEffect n e)"
  by (erule decide_outstanding_effect_Some) (auto split: idempotency.splits)

lemma decide_waiting_range: "decide_waiting s now = Idle \<or> (\<exists>w. decide_waiting s now = ResumeWait w)"
  by (auto simp: decide_waiting_def split: option.splits wait.splits)

lemmas decide_ranges =
  decide_loop_range decide_failure_range decide_iteration_range decide_outstanding_range

text \<open>An effect node's work and the completion of the run come only from \<open>decide_work\<close>, with
  nothing more urgent left.\<close>

lemma from_work:
  assumes "decide_next d s now = x" "x = Complete \<or> (\<exists>n e a. x = PerformEffect n e a)"
  shows "status s = Running \<and> decide_outstanding_effect d s = None \<and> uncertain s = [] \<and>
         decide_cancellation d s = None \<and> decide_loop d s = None \<and> decide_failure d s = None \<and>
         decide_iteration d s = None \<and> x = decide_work d s"
  using assms(1)
proof (cases rule: decide_next_cases)
  case claim
  then show ?thesis using assms(2) decide_outstanding_range by blast
next
  case cancel
  then show ?thesis using assms(2) by (auto simp: decide_cancellation_Some)
next
  case waiting
  then show ?thesis using assms(2) decide_waiting_range [of s now] by auto
next
  case active
  from active(5) [symmetric] show ?thesis
  proof (cases rule: decide_active_cases)
    case work
    with active show ?thesis by blast
  qed (use assms(2) decide_ranges in blast)+
qed (use assms(2) in auto)

lemma decide_claim_cases:
  assumes "decide d s now = x" "(\<exists>n e a. x = RetryClaimedEffect n e a) \<or> (\<exists>n e. x = HaltUncertainEffect n e)"
  shows "decide_outstanding_effect d s = Some x"
proof -
  have "decide_next d s now = x" using assms(1) by (rule decide_not_fail) (use assms(2) in auto)
  then show ?thesis
  proof (cases rule: decide_next_cases)
    case active
    from active(5) [symmetric] show ?thesis
      using decide_work_range [of d s] assms(2) by (cases rule: decide_active_cases) (auto dest: decide_ranges)
  qed (use decide_waiting_range [of s now] assms(2) in \<open>auto simp: decide_cancellation_Some\<close>)
qed

lemma decide_retry:
  assumes "decide d s now = RetryClaimedEffect n e a"
  shows "\<exists>claim rest x. outstanding s = claim # rest \<and> claim_node claim = n \<and> claim_effect claim = e \<and>
         declared_effect d n e = Some x \<and>
         (effect_idempotency x = Idempotent \<and> a = saturating_add (claim_attempt claim) 1 \<or>
          (\<exists>k. effect_idempotency x = Keyed k) \<and> a = claim_attempt claim)"
  using decide_claim_cases [OF assms]
  by (rule decide_outstanding_effect_Some [OF _ ]) (auto split: idempotency.splits)

lemma decide_halt:
  assumes "decide d s now = HaltUncertainEffect n e"
  shows "\<exists>claim rest x. outstanding s = claim # rest \<and> claim_node claim = n \<and> claim_effect claim = e \<and>
         declared_effect d n e = Some x \<and> effect_idempotency x = NonIdempotent"
  using decide_claim_cases [OF assms]
  by (rule decide_outstanding_effect_Some [OF _ ]) (auto split: idempotency.splits)

lemma decide_perform:
  assumes "decide d s now = PerformEffect n e a"
  shows "a = 0 \<and> status s = Running \<and> uncertain s = [] \<and> \<not> effect_completed s n e \<and>
      decide_outstanding_effect d s = None \<and>
      (\<exists>declared x. graph_node (workflow_graph d) n = Some declared \<and> node_kind declared = EffectNode \<and>
         first (node_effects declared) = Some x \<and> effect_id x = e) \<and>
      (\<exists>ready \<in> set (nodes (workflow_graph d)). node_id ready = n \<and> node_is_ready d s ready)"
proof -
  from assms have "decide_next d s now = PerformEffect n e a" by (rule decide_not_fail) simp
  from from_work [OF this] have w: "status s = Running" "decide_outstanding_effect d s = None" "uncertain s = []"
      "decide_work d s = PerformEffect n e a" by auto
  from w(4) have ready: "next_ready_node d s = Some n" and eff: "effect_to_perform d s n = Some e" and a: "a = 0"
    by (auto simp: decide_work_def split: option.splits if_splits)
  have "\<not> effect_completed s n e \<and> (\<exists>declared x. graph_node (workflow_graph d) n = Some declared \<and>
      node_kind declared = EffectNode \<and> first (node_effects declared) = Some x \<and> effect_id x = e)"
    using eff by (auto simp: effect_to_perform_def split: option.splits if_splits)
  moreover from ready have "\<exists>ready \<in> set (nodes (workflow_graph d)). node_id ready = n \<and> node_is_ready d s ready"
    by (rule next_ready_node_Some) blast
  ultimately show ?thesis using w a by blast
qed

text \<open>C24. The decision core never repeats an effect on a guess. It re-attempts only the oldest
  open claim, and only when the definition declares the effect idempotent or keyed, a keyed
  one under the attempt number it was claimed with; and it starts a new effect only when the
  run is running, nothing is in doubt, no declared claim is the oldest one open, the node is
  ready, and the effect is the node's own and has not happened.\<close>

theorem effects_decided_safely:
  "(decide d s now = RetryClaimedEffect n e a \<longrightarrow>
      (\<exists>claim rest x. outstanding s = claim # rest \<and> claim_node claim = n \<and> claim_effect claim = e \<and>
         declared_effect d n e = Some x \<and>
         (effect_idempotency x = Idempotent \<and> a = saturating_add (claim_attempt claim) 1 \<or>
          (\<exists>k. effect_idempotency x = Keyed k) \<and> a = claim_attempt claim))) \<and>
   (decide d s now = PerformEffect n e a \<longrightarrow>
      a = 0 \<and> status s = Running \<and> uncertain s = [] \<and> \<not> effect_completed s n e \<and>
      decide_outstanding_effect d s = None \<and>
      (\<exists>declared x. graph_node (workflow_graph d) n = Some declared \<and> node_kind declared = EffectNode \<and>
         first (node_effects declared) = Some x \<and> effect_id x = e) \<and>
      (\<exists>ready \<in> set (nodes (workflow_graph d)). node_id ready = n \<and> node_is_ready d s ready))"
  using decide_retry decide_perform by blast

definition sample_running :: run_state where
  "sample_running = (initial_state (hd sample_log) (Digest []) Observe) \<lparr>status := Running\<rparr>"

definition sample_keyed :: workflow where
  "sample_keyed =
     sample_workflow \<lparr>workflow_graph := (workflow_graph sample_workflow) \<lparr>graph_nodes :=
       [(Identifier ''publish'', sample_publisher \<lparr>node_effects := [sample_effect ''post'']\<rparr>)]\<rparr>\<rparr>"

definition sample_claimed :: run_state where
  "sample_claimed = sample_running \<lparr>outstanding :=
     [\<lparr>claim_node = Identifier ''publish'', claim_effect = Identifier ''post'', claim_attempt = 4, claim_key = Some ''k''\<rparr>]\<rparr>"

theorem effects_decided_safely_witness:
  "decide sample_keyed sample_claimed 0 = RetryClaimedEffect (Identifier ''publish'') (Identifier ''post'') 4 \<and>
   (\<exists>claim rest. outstanding sample_claimed = claim # rest \<and> claim_attempt claim = 4) \<and>
   decide sample_workflow sample_claimed 0 = HaltUncertainEffect (Identifier ''publish'') (Identifier ''post'')"
proof -
  have retry: "decide sample_keyed sample_claimed 0 = RetryClaimedEffect (Identifier ''publish'') (Identifier ''post'') 4"
    by (simp add: decide_def decide_next_def decide_outstanding_effect_def declared_effect_def sample_keyed_def
        sample_claimed_def sample_running_def initial_state_def sample_workflow_def graph_node_def
        sample_effect_def is_fail_def)
  moreover have "decide sample_workflow sample_claimed 0 = HaltUncertainEffect (Identifier ''publish'') (Identifier ''post'')"
    by (simp add: decide_def decide_next_def decide_outstanding_effect_def declared_effect_def sample_publisher_def
        sample_claimed_def sample_running_def initial_state_def sample_workflow_def graph_node_def is_fail_def)
  ultimately show ?thesis
    using effects_decided_safely [of sample_keyed sample_claimed 0 "Identifier ''publish''" "Identifier ''post''" 4]
    by (auto simp: sample_claimed_def)
qed

text \<open>C31. A run ends only when it owes nothing. It completes when every declared node has
  finished, none is running and no effect is in doubt; it is cancelled only on request, with
  no claim open and nothing left to compensate; it fails only with nothing left to
  compensate; and once it has ended nothing is decided any more.\<close>

theorem runs_end_owing_nothing:
  "(decide d s now = Complete \<longrightarrow>
      status s = Running \<and> running s = [] \<and> uncertain s = [] \<and>
      (\<forall>n \<in> set (nodes (workflow_graph d)). has_finished s (node_id n)) \<and>
      (outstanding s = [] \<or>
       declared_effect d (claim_node (hd (outstanding s))) (claim_effect (hd (outstanding s))) = None)) \<and>
   (decide d s now = Cancel b \<longrightarrow>
      cancel_requested s = Some b \<and> outstanding s = [] \<and> uncertain s = [] \<and> pending_compensations d s = []) \<and>
   (decide d s now = Fail why \<longrightarrow> pending_compensations d s = []) \<and>
   (status_is_terminal (status s) \<longrightarrow> decide d s now = Idle)"
proof (intro conjI impI)
  assume "decide d s now = Complete"
  then have "decide_next d s now = Complete" by (rule decide_not_fail) simp
  from from_work [OF this] have w: "status s = Running" "decide_outstanding_effect d s = None" "uncertain s = []"
      "decide_work d s = Complete" by auto
  then show "status s = Running" "uncertain s = []" by auto
  from w(4) show "running s = []" "\<forall>n \<in> set (nodes (workflow_graph d)). has_finished s (node_id n)"
    by (auto simp: decide_work_def list_all_iff split: option.splits if_splits)
  from w(2) show "outstanding s = [] \<or>
       declared_effect d (claim_node (hd (outstanding s))) (claim_effect (hd (outstanding s))) = None"
    by (simp add: decide_outstanding_effect_None)
next
  assume "decide d s now = Cancel b"
  then have "decide_next d s now = Cancel b" by (rule decide_not_fail) simp
  then have "decide_cancellation d s = Some (Cancel b) \<and> uncertain s = []"
  proof (cases rule: decide_next_cases)
    case active
    from active(5) [symmetric] show ?thesis
      using decide_work_range [of d s] by (cases rule: decide_active_cases) (auto dest: decide_ranges)
  qed (use decide_waiting_range [of s now] in \<open>auto dest: decide_ranges\<close>)
  then show "cancel_requested s = Some b" "outstanding s = []" "uncertain s = []" "pending_compensations d s = []"
    by (auto simp: decide_cancellation_Some safe_to_stop_def)
next
  assume "decide d s now = Fail why"
  then show "pending_compensations d s = []"
    by (auto simp: decide_def Let_def is_fail_def split: option.splits if_splits)
next
  assume "status_is_terminal (status s)"
  then show "decide d s now = Idle" by (simp add: decide_def decide_next_def is_fail_def del: status_is_terminal.simps)
qed

theorem runs_end_owing_nothing_witness:
  "decide sample_workflow (sample_running \<lparr>cancel_requested := Some (Identifier ''ada'')\<rparr>) 0 = Cancel (Identifier ''ada'') \<and>
   outstanding sample_running = [] \<and>
   pending_compensations sample_workflow (sample_running \<lparr>cancel_requested := Some (Identifier ''ada'')\<rparr>) = []"
proof -
  let ?s = "sample_running \<lparr>cancel_requested := Some (Identifier ''ada'')\<rparr>"
  have "decide sample_workflow ?s 0 = Cancel (Identifier ''ada'')"
    by (simp add: decide_def decide_next_def decide_outstanding_effect_def decide_cancellation_def
        pending_compensations_def safe_to_stop_def sample_running_def initial_state_def is_fail_def)
  with runs_end_owing_nothing [of sample_workflow ?s 0 "Identifier ''ada''"] show ?thesis by simp
qed

end
