(* ===== verification/Run_Store.thy ===== *)
theory Run_Store
  imports Waits
begin

text \<open>
  Durable storage of runs (\<open>crates/postgres/src/ir_runs.rs\<close>, \<open>ir_effects.rs\<close>,
  \<open>ir_signals.rs\<close>) with the triggers of \<open>migrations/20260906*.sql\<close> that keep its
  projections. A table is the list of its rows; each statement is one step on the tables,
  as the database executes it. Columns of type \<open>BIGINT\<close> are integers within the 64-bit
  range, and a payload is the event itself: its JSON text is written and read by \<open>serde\<close>.
\<close>

section \<open>Tables\<close>

type_synonym run_key = "string \<times> string \<times> string"

datatype store_error =
    Sqlx
  | InvalidPersistedValue string
  | Overflow string
  | RunNotFound string
  | EpochSuperseded string u64 u64

record run_row =
  row_digest :: digest
  row_status :: string
  row_epoch :: i64
  row_owner :: "string option"
  row_expires :: "int option"
  row_next :: i64
  row_wake :: "i64 option"
  row_created :: int

record ir_run_record =
  run_tenant :: string
  run_project :: string
  run_id :: string
  run_definition :: digest
  run_status_text :: string
  run_epoch :: epoch
  run_owner :: "string option"
  run_next_position :: u64

record event_row =
  event_run :: run_key
  row_position :: i64
  row_event_epoch :: i64
  row_recorded_at :: i64
  row_event :: run_event

datatype ledger_outcome = LedgerClaimed | LedgerFinalized | LedgerAbandoned | LedgerUncertain

record ledger_row =
  ledger_run :: run_key
  ledger_node :: ident
  ledger_effect :: ident
  ledger_attempt :: u32
  ledger_key :: "string option"
  ledger_outcome :: ledger_outcome
  ledger_receipt :: "digest option"
  ledger_count :: nat
  ledger_epoch :: i64
  ledger_position :: i64

datatype signal_outcome = SignalResumed u64 | SignalRefused

record signal_row =
  signal_row_id :: i64
  signal_run :: run_key
  signal_row_signal :: signal
  signal_consumed :: "signal_outcome option"

record ir_store =
  ir_definition_versions :: "(string \<times> string \<times> digest) list"
  ir_runs :: "(run_key, run_row) btree_map"
  ir_run_events :: "event_row list"
  ir_effect_claims :: "ledger_row list"
  ir_run_signals :: "signal_row list"

section \<open>Triggers\<close>

text \<open>\<open>capsulet_ir_run_project_status\<close>: the status a kind of event projects, if any.\<close>

definition projected_status :: "string \<Rightarrow> string option" where
  "projected_status kind =
     (if kind \<in> {''started'', ''node_started'', ''resumed''} then Some ''running''
      else if kind = ''suspended'' then Some ''waiting''
      else if kind = ''completed'' then Some ''completed''
      else if kind = ''failed'' then Some ''failed''
      else if kind = ''cancelled'' then Some ''cancelled''
      else None)"

fun wake_of :: "run_event \<Rightarrow> i64 option" where
  "wake_of (Suspended (Timer until)) = Some until"
| "wake_of ev = None"

definition project_status :: "run_event \<Rightarrow> run_row \<Rightarrow> run_row" where
  "project_status ev row =
     (case projected_status (event_str ev) of
        None \<Rightarrow> row
      | Some text \<Rightarrow> row \<lparr>row_status := text, row_wake := wake_of ev\<rparr>)"

definition ledger_matches :: "run_key \<Rightarrow> ident \<Rightarrow> ident \<Rightarrow> u32 \<Rightarrow> ledger_row \<Rightarrow> bool" where
  "ledger_matches key n e a row =
     (ledger_run row = key \<and> ledger_node row = n \<and> ledger_effect row = e \<and> ledger_attempt row = a)"

text \<open>\<open>capsulet_ir_project_effect_claim\<close>: the ledger after an event, or the refusal of a claim
  on a finalized attempt. The attempt is cast to \<open>INTEGER\<close>, 32 bits signed.\<close>

definition ledger_claim ::
  "run_key \<Rightarrow> i64 \<Rightarrow> i64 \<Rightarrow> ident \<Rightarrow> ident \<Rightarrow> u32 \<Rightarrow> string option \<Rightarrow> ledger_row list \<Rightarrow>
   (store_error, ledger_row list) result" where
  "ledger_claim key ep pos n e a k ledger =
     (case find (ledger_matches key n e a) ledger of
        None \<Rightarrow>
          Ok (ledger @ [\<lparr>ledger_run = key, ledger_node = n, ledger_effect = e, ledger_attempt = a, ledger_key = k,
                        ledger_outcome = LedgerClaimed, ledger_receipt = None, ledger_count = 1,
                        ledger_epoch = ep, ledger_position = pos\<rparr>])
      | Some existing \<Rightarrow>
          if ledger_outcome existing = LedgerFinalized then Err Sqlx
          else Ok (map (\<lambda>row. if ledger_matches key n e a row
                             then row \<lparr>ledger_count := ledger_count row + 1, ledger_outcome := LedgerClaimed,
                                       ledger_epoch := ep, ledger_position := pos\<rparr>
                             else row) ledger))"

definition ledger_resolve ::
  "run_key \<Rightarrow> ident \<Rightarrow> ident \<Rightarrow> u32 \<Rightarrow> (ledger_row \<Rightarrow> ledger_row) \<Rightarrow> ledger_row list \<Rightarrow>
   (store_error, ledger_row list) result" where
  "ledger_resolve key n e a f ledger = Ok (map (\<lambda>row. if ledger_matches key n e a row then f row else row) ledger)"

definition integer_attempt :: "u32 \<Rightarrow> bool" where
  "integer_attempt a = (uint a \<le> 2147483647)"

fun project_effect_claim ::
  "run_key \<Rightarrow> i64 \<Rightarrow> i64 \<Rightarrow> run_event \<Rightarrow> ledger_row list \<Rightarrow> (store_error, ledger_row list) result" where
  "project_effect_claim key ep pos (EffectClaimed n e a k) ledger =
     (if integer_attempt a then ledger_claim key ep pos n e a k ledger else Err Sqlx)"
| "project_effect_claim key ep pos (EffectFinalized n e a r) ledger =
     (if integer_attempt a
      then ledger_resolve key n e a (\<lambda>row. row \<lparr>ledger_outcome := LedgerFinalized, ledger_receipt := Some r\<rparr>) ledger
      else Err Sqlx)"
| "project_effect_claim key ep pos (EffectAbandoned n e a r) ledger =
     (if integer_attempt a
      then ledger_resolve key n e a (\<lambda>row. row \<lparr>ledger_outcome := LedgerAbandoned\<rparr>) ledger else Err Sqlx)"
| "project_effect_claim key ep pos (EffectUncertain n e a) ledger =
     (if integer_attempt a
      then ledger_resolve key n e a (\<lambda>row. row \<lparr>ledger_outcome := LedgerUncertain\<rparr>) ledger else Err Sqlx)"
| "project_effect_claim key ep pos ev ledger = Ok ledger"

section \<open>Statements\<close>

definition u64_try_from :: "string \<Rightarrow> i64 \<Rightarrow> (store_error, u64) result" where
  "u64_try_from what v = ok_or (Overflow what) (u64_try_from_i64 v)"

definition i64_try_from :: "string \<Rightarrow> u64 \<Rightarrow> (store_error, i64) result" where
  "i64_try_from what v = (if uint v \<le> i64_max then Ok (uint v) else Err (Overflow what))"

text \<open>The one writing statement of the log: \<open>UPDATE ... RETURNING\<close> takes the position under the
  row's lock, \<open>INSERT\<close> writes the event and fires the triggers. A \<open>BIGINT\<close> that would leave its
  range, a position that is taken and a refusing trigger abort the whole statement.\<close>

definition insert_event ::
  "ir_store \<Rightarrow> run_key \<Rightarrow> run_row \<Rightarrow> i64 \<Rightarrow> run_event \<Rightarrow> recorded_time \<Rightarrow> (store_error, ir_store) result" where
  "insert_event st key row ep ev at =
     (let pos = row_next row in
      if pos + 1 > i64_max \<or> list_ex (\<lambda>r. event_run r = key \<and> row_position r = pos) (ir_run_events st)
      then Err Sqlx
      else
        and_then (project_effect_claim key ep pos ev (ir_effect_claims st)) (\<lambda>ledger.
          Ok (st \<lparr>ir_runs := bt_insert key (project_status ev (row \<lparr>row_next := pos + 1\<rparr>)) (ir_runs st),
                  ir_run_events := ir_run_events st @
                    [\<lparr>event_run = key, row_position = pos, row_event_epoch = ep, row_recorded_at = at, row_event = ev\<rparr>],
                  ir_effect_claims := ledger\<rparr>)))"

fun row_to_run :: "run_key \<Rightarrow> run_row \<Rightarrow> (store_error, ir_run_record) result" where
  "row_to_run (tenant, project, id') row =
     and_then (u64_try_from ''run epoch'' (row_epoch row)) (\<lambda>ep.
     and_then (u64_try_from ''log position'' (row_next row)) (\<lambda>next'.
       Ok \<lparr>run_tenant = tenant, run_project = project, run_id = id', run_definition = row_digest row,
           run_status_text = row_status row, run_epoch = ep, run_owner = row_owner row,
           run_next_position = next'\<rparr>))"

definition row_to_event :: "event_row \<Rightarrow> (store_error, recorded_event) result" where
  "row_to_event row =
     and_then (u64_try_from ''log position'' (row_position row)) (\<lambda>pos.
     and_then (u64_try_from ''run epoch'' (row_event_epoch row)) (\<lambda>ep.
       Ok \<lparr>position = pos, event_epoch = ep, event_at = row_recorded_at row, the_event = row_event row\<rparr>))"

definition get_ir_run :: "ir_store \<Rightarrow> run_key \<Rightarrow> (store_error, ir_run_record option) result" where
  "get_ir_run st key =
     (case map_of (ir_runs st) key of
        None \<Rightarrow> Ok None
      | Some row \<Rightarrow> and_then (row_to_run key row) (\<lambda>r. Ok (Some r)))"

fun create_ir_run ::
  "ir_store \<Rightarrow> run_key \<Rightarrow> digest \<Rightarrow> assurance_mode \<Rightarrow> recorded_time \<Rightarrow> int \<Rightarrow>
   (store_error, ir_run_record \<times> ir_store) result" where
  "create_ir_run st (tenant, project, id') digest' mode' at db_now =
     (let key = (tenant, project, id') in
      if bt_contains (ir_runs st) key \<or> (tenant, project, digest') \<notin> set (ir_definition_versions st) then Err Sqlx
      else
        (let row = \<lparr>row_digest = digest', row_status = ''queued'', row_epoch = 0, row_owner = None, row_expires = None,
                    row_next = 0, row_wake = None, row_created = db_now\<rparr> in
         and_then (insert_event (st \<lparr>ir_runs := bt_insert key row (ir_runs st)\<rparr>) key row 0 (Admitted digest' mode') at) (\<lambda>st'.
         and_then (get_ir_run st' key) (\<lambda>found.
         and_then (ok_or (RunNotFound id') found) (\<lambda>r. Ok (r, st'))))))"

definition run_name :: "run_key \<Rightarrow> string" where
  "run_name key = snd (snd key)"

definition append_ir_run_event ::
  "ir_store \<Rightarrow> run_key \<Rightarrow> epoch \<Rightarrow> run_event \<Rightarrow> recorded_time \<Rightarrow> (store_error, recorded_event \<times> ir_store) result" where
  "append_ir_run_event st key ep ev at =
     and_then (i64_try_from ''run epoch'' ep) (\<lambda>epoch_value.
       case map_of (ir_runs st) key of
         None \<Rightarrow> Err (RunNotFound (run_name key))
       | Some row \<Rightarrow>
           if row_epoch row = epoch_value
           then
             and_then (insert_event st key row epoch_value ev at) (\<lambda>st'.
             and_then (u64_try_from ''log position'' (row_next row)) (\<lambda>pos.
               Ok (\<lparr>position = pos, event_epoch = ep, event_at = at, the_event = ev\<rparr>, st')))
           else
             and_then (row_to_run key row) (\<lambda>r.
               Err (EpochSuperseded (run_name key) ep (run_epoch r))))"

definition collect :: "('a \<Rightarrow> ('e, 'b) result) \<Rightarrow> 'a list \<Rightarrow> ('e, 'b list) result" where
  "collect f xs = try_fold (\<lambda>acc x. and_then (f x) (\<lambda>y. Ok (acc @ [y]))) [] xs"

definition load_ir_run_events :: "ir_store \<Rightarrow> run_key \<Rightarrow> (store_error, recorded_event list) result" where
  "load_ir_run_events st key =
     collect row_to_event (sort_key row_position (filter (\<lambda>r. event_run r = key) (ir_run_events st)))"

text \<open>\<open>load_ir_run_state\<close>, with the text of the fold's refusal left to \<open>render\<close>.\<close>

definition load_ir_run_state ::
  "(fold_error \<Rightarrow> string) \<Rightarrow> ir_store \<Rightarrow> run_key \<Rightarrow> (store_error, run_state) result" where
  "load_ir_run_state render st key =
     and_then (load_ir_run_events st key) (\<lambda>events. map_err (\<lambda>e. InvalidPersistedValue (render e)) (run_fold events))"

section \<open>Leases\<close>

definition has_pending_signal :: "ir_store \<Rightarrow> run_key \<Rightarrow> bool" where
  "has_pending_signal st key =
     list_ex (\<lambda>s. signal_run s = key \<and> signal_consumed s = None) (ir_run_signals st)"

text \<open>The \<open>WHERE\<close> of the candidate; \<open>locked\<close> are the rows another transaction holds, which
  \<open>SKIP LOCKED\<close> passes over, and \<open>db_now\<close> is the database clock.\<close>

definition is_candidate ::
  "ir_store \<Rightarrow> run_key list \<Rightarrow> string option \<Rightarrow> i64 \<Rightarrow> int \<Rightarrow> run_key \<times> run_row \<Rightarrow> bool" where
  "is_candidate st locked tenant now_millis db_now = (\<lambda>(key, row).
     row_status row \<in> {''queued'', ''running'', ''waiting''} \<and>
     (case tenant of None \<Rightarrow> True | Some t \<Rightarrow> fst key = t) \<and>
     (case row_expires row of None \<Rightarrow> True | Some at \<Rightarrow> at \<le> db_now) \<and>
     (row_status row \<noteq> ''waiting'' \<or>
      (case row_wake row of None \<Rightarrow> False | Some w \<Rightarrow> w \<le> now_millis) \<or>
      has_pending_signal st key) \<and>
     key \<notin> set locked)"

definition lease_next_ir_run ::
  "ir_store \<Rightarrow> run_key list \<Rightarrow> string \<Rightarrow> int \<Rightarrow> string option \<Rightarrow> i64 \<Rightarrow> int \<Rightarrow>
   (store_error, ir_run_record option \<times> ir_store) result" where
  "lease_next_ir_run st locked worker lease_seconds tenant now_millis db_now =
     (case first (sort_key (\<lambda>(key, row). (row_created row, run_name key))
                    (filter (is_candidate st locked tenant now_millis db_now) (ir_runs st))) of
        None \<Rightarrow> Ok (None, st)
      | Some (key, row) \<Rightarrow>
          if row_epoch row + 1 > i64_max then Err Sqlx
          else
            (let leased = row \<lparr>row_owner := Some worker, row_expires := Some (db_now + lease_seconds),
                              row_epoch := row_epoch row + 1\<rparr> in
             and_then (row_to_run key leased) (\<lambda>r.
               Ok (Some r, st \<lparr>ir_runs := bt_insert key leased (ir_runs st)\<rparr>))))"

text \<open>The \<open>WHERE\<close> of a heartbeat and of a release.\<close>

definition holds_lease :: "run_row \<Rightarrow> string \<Rightarrow> i64 \<Rightarrow> bool" where
  "holds_lease row worker epoch_value = (row_owner row = Some worker \<and> row_epoch row = epoch_value)"

definition update_lease ::
  "ir_store \<Rightarrow> run_key \<Rightarrow> string \<Rightarrow> epoch \<Rightarrow> (run_row \<Rightarrow> run_row) \<Rightarrow> (store_error, bool \<times> ir_store) result" where
  "update_lease st key worker ep f =
     and_then (i64_try_from ''run epoch'' ep) (\<lambda>epoch_value.
       case map_of (ir_runs st) key of
         None \<Rightarrow> Ok (False, st)
       | Some row \<Rightarrow>
           if holds_lease row worker epoch_value
           then Ok (True, st \<lparr>ir_runs := bt_insert key (f row) (ir_runs st)\<rparr>) else Ok (False, st))"

definition heartbeat_ir_run ::
  "ir_store \<Rightarrow> run_key \<Rightarrow> string \<Rightarrow> epoch \<Rightarrow> int \<Rightarrow> int \<Rightarrow> (store_error, bool \<times> ir_store) result" where
  "heartbeat_ir_run st key worker ep lease_seconds db_now =
     update_lease st key worker ep (\<lambda>row. row \<lparr>row_expires := Some (db_now + lease_seconds)\<rparr>)"

definition release_ir_run_lease ::
  "ir_store \<Rightarrow> run_key \<Rightarrow> string \<Rightarrow> epoch \<Rightarrow> (store_error, bool \<times> ir_store) result" where
  "release_ir_run_lease st key worker ep =
     update_lease st key worker ep (\<lambda>row. row \<lparr>row_owner := None, row_expires := None\<rparr>)"

section \<open>Signals and the ledger\<close>

definition deliver_ir_run_signal ::
  "ir_store \<Rightarrow> run_key \<Rightarrow> signal \<Rightarrow> (store_error, i64 \<times> ir_store) result" where
  "deliver_ir_run_signal st key sig =
     (if \<not> bt_contains (ir_runs st) key then Err Sqlx
      else
        (let id' = int (length (ir_run_signals st)) + 1 in
         Ok (id', st \<lparr>ir_run_signals := ir_run_signals st @
               [\<lparr>signal_row_id = id', signal_run = key, signal_row_signal = sig, signal_consumed = None\<rparr>]\<rparr>)))"

definition pending_ir_run_signals :: "ir_store \<Rightarrow> run_key \<Rightarrow> signal_row list" where
  "pending_ir_run_signals st key =
     sort_key signal_row_id (filter (\<lambda>s. signal_run s = key \<and> signal_consumed s = None) (ir_run_signals st))"

definition consume_ir_run_signal ::
  "ir_store \<Rightarrow> i64 \<Rightarrow> signal_outcome \<Rightarrow> (store_error, bool \<times> ir_store) result" where
  "consume_ir_run_signal st id' outcome =
     and_then (case outcome of
                 SignalResumed pos \<Rightarrow> and_then (i64_try_from ''log position'' pos) (\<lambda>_. Ok ())
               | SignalRefused \<Rightarrow> Ok ()) (\<lambda>_.
       (let pending = (\<lambda>s. signal_row_id s = id' \<and> signal_consumed s = None) in
        Ok (list_ex pending (ir_run_signals st),
            st \<lparr>ir_run_signals := map (\<lambda>s. if pending s then s \<lparr>signal_consumed := Some outcome\<rparr> else s)
                                    (ir_run_signals st)\<rparr>)))"

definition list_outstanding_ir_effects :: "ir_store \<Rightarrow> string option \<Rightarrow> ledger_row list" where
  "list_outstanding_ir_effects st tenant =
     filter (\<lambda>row. ledger_outcome row = LedgerClaimed \<and>
                   (case tenant of None \<Rightarrow> True | Some t \<Rightarrow> fst (ledger_run row) = t)) (ir_effect_claims st)"

definition ir_effect_claims_for_run :: "ir_store \<Rightarrow> run_key \<Rightarrow> ledger_row list" where
  "ir_effect_claims_for_run st key =
     sort_key ledger_position (filter (\<lambda>row. ledger_run row = key) (ir_effect_claims st))"

end
