(* ===== verification/Store_Facts.thy ===== *)
theory Store_Facts
  imports Run_Store
begin

text \<open>
  What the run store keeps: a gapless log per run, an epoch that fences out superseded
  leases, and a status column that agrees with the fold. The store refines an abstract one
  in which a run is an epoch and a log (\<open>abs_run\<close>); clients use only that.
\<close>

section \<open>The abstract store\<close>

definition event_rows :: "ir_store \<Rightarrow> run_key \<Rightarrow> event_row list" where
  "event_rows st key = filter (\<lambda>r. event_run r = key) (ir_run_events st)"

definition decode_row :: "event_row \<Rightarrow> recorded_event" where
  "decode_row row =
     \<lparr>position = word_of_int (row_position row), event_epoch = word_of_int (row_event_epoch row),
      event_at = row_recorded_at row, the_event = row_event row\<rparr>"

definition stored_log :: "ir_store \<Rightarrow> run_key \<Rightarrow> recorded_event list" where
  "stored_log st key = map decode_row (event_rows st key)"

text \<open>A run of the abstract store: its current epoch and its log.\<close>

definition abs_run :: "ir_store \<Rightarrow> run_key \<Rightarrow> (epoch \<times> recorded_event list) option" where
  "abs_run st key =
     map_option (\<lambda>row. (word_of_int (row_epoch row), stored_log st key)) (map_of (ir_runs st) key)"

text \<open>What the projected columns say of a folded state.\<close>

definition timer_wait :: "wait option \<Rightarrow> i64 option" where
  "timer_wait w = (case w of Some (Timer until) \<Rightarrow> Some until | _ \<Rightarrow> None)"

definition columns_agree :: "run_row \<Rightarrow> run_state \<Rightarrow> bool" where
  "columns_agree row s =
     (row_status row = run_status_str (status s) \<and> row_digest row = definition_digest s \<and>
      row_wake row = (if status s = Waiting then timer_wait (waiting_on s) else None))"

definition row_ok :: "run_row \<Rightarrow> event_row list \<Rightarrow> bool" where
  "row_ok row evs =
     (map row_position evs = map int [0..<length evs] \<and> row_next row = int (length evs) \<and>
      int (length evs) \<le> i64_max \<and> 0 \<le> row_epoch row \<and> row_epoch row \<le> i64_max \<and>
      (\<forall>e \<in> set evs. 0 \<le> row_event_epoch e \<and> row_event_epoch e \<le> row_epoch row) \<and>
      (\<forall>s. run_fold (map decode_row evs) = Ok s \<longrightarrow> columns_agree row s))"

definition key_ok :: "ir_store \<Rightarrow> run_key \<Rightarrow> bool" where
  "key_ok st key =
     (case map_of (ir_runs st) key of
        None \<Rightarrow> event_rows st key = []
      | Some row \<Rightarrow> event_rows st key \<noteq> [] \<and> row_ok row (event_rows st key))"

definition store_wf :: "ir_store \<Rightarrow> bool" where
  "store_wf st = (bt_wf (ir_runs st) \<and> (\<forall>key. key_ok st key))"

lemma store_wf_key: "store_wf st \<Longrightarrow> key_ok st key"
  unfolding store_wf_def by blast

lemma store_wfD:
  "store_wf st \<Longrightarrow> map_of (ir_runs st) key = Some row \<Longrightarrow> event_rows st key \<noteq> [] \<and> row_ok row (event_rows st key)"
  "store_wf st \<Longrightarrow> map_of (ir_runs st) key = None \<Longrightarrow> event_rows st key = []"
  using store_wf_key [of st key] by (auto simp: key_ok_def)

section \<open>Loading\<close>

lemma collect_Ok: "(\<And>x. x \<in> set xs \<Longrightarrow> f x = Ok (g x)) \<Longrightarrow> collect f xs = Ok (map g xs)"
proof -
  have "(\<And>x. x \<in> set xs \<Longrightarrow> f x = Ok (g x)) \<Longrightarrow>
      try_fold (\<lambda>acc x. and_then (f x) (\<lambda>y. Ok (acc @ [y]))) acc xs = Ok (acc @ map g xs)" for acc
    by (induction xs arbitrary: acc) auto
  from this [of "[]"] show "(\<And>x. x \<in> set xs \<Longrightarrow> f x = Ok (g x)) \<Longrightarrow> collect f xs = Ok (map g xs)"
    by (simp add: collect_def)
qed

lemma row_ok_bounds:
  assumes "row_ok row evs" "e \<in> set evs"
  shows "0 \<le> row_position e \<and> 0 \<le> row_event_epoch e"
proof -
  have "row_position e \<in> set (map row_position evs)" using assms(2) by auto
  also have "\<dots> = int ` {0..<length evs}" using assms(1) by (simp add: row_ok_def)
  finally show ?thesis using assms by (auto simp: row_ok_def)
qed

lemma row_ok_sorted: "row_ok row evs \<Longrightarrow> sort_key row_position evs = evs"
  by (simp add: row_ok_def sort_key_id_if_sorted sorted_iff_nth_mono)

lemma store_wf_rows:
  assumes "store_wf st" "e \<in> set (event_rows st key)"
  shows "0 \<le> row_position e \<and> 0 \<le> row_event_epoch e"
  using assms store_wfD [OF assms(1), of key] row_ok_bounds by (cases "map_of (ir_runs st) key") auto

lemma row_to_event_Ok:
  "0 \<le> row_position e \<Longrightarrow> 0 \<le> row_event_epoch e \<Longrightarrow> row_to_event e = Ok (decode_row e)"
  by (simp add: row_to_event_def u64_try_from_def u64_try_from_i64_def decode_row_def not_less)

lemma load_Ok:
  assumes "store_wf st"
  shows "load_ir_run_events st key = Ok (stored_log st key)"
proof -
  have "sort_key row_position (event_rows st key) = event_rows st key"
    using store_wfD [OF assms, of key] row_ok_sorted by (cases "map_of (ir_runs st) key") auto
  moreover have "collect row_to_event (event_rows st key) = Ok (map decode_row (event_rows st key))"
    using store_wf_rows [OF assms] by (intro collect_Ok row_to_event_Ok) blast+
  ultimately show ?thesis by (simp add: load_ir_run_events_def event_rows_def stored_log_def)
qed

section \<open>Appending\<close>

lemma project_status_simps [simp]:
  "row_epoch (project_status ev row) = row_epoch row" "row_next (project_status ev row) = row_next row"
  "row_digest (project_status ev row) = row_digest row" "row_owner (project_status ev row) = row_owner row"
  by (simp_all add: project_status_def split: option.splits)

lemma apply_event_digest: "apply_event s at ev = Ok s' \<Longrightarrow> definition_digest s' = definition_digest s"
  by (cases ev) (auto simp: Let_def foldl_reset_member split: apply_event_splits)

lemma apply_event_waiting_on:
  "apply_event s at ev = Ok s' \<Longrightarrow>
     waiting_on s' = (case ev of Suspended w \<Rightarrow> Some w | Resumed w b \<Rightarrow> None | _ \<Rightarrow> waiting_on s)"
  by (cases ev) (auto simp: Let_def foldl_reset_member split: apply_event_splits)

lemma apply_event_new_status:
  "apply_event s at ev = Ok s' \<Longrightarrow>
     status s' = (case ev of
        Started b \<Rightarrow> Running | NodeStarted n \<Rightarrow> Running | Resumed w b \<Rightarrow> Running
      | Suspended w \<Rightarrow> Waiting | Completed outs \<Rightarrow> StatusCompleted | Failed why \<Rightarrow> StatusFailed
      | Cancelled b \<Rightarrow> StatusCancelled | _ \<Rightarrow> status s)"
  by (cases ev) (auto simp: Let_def foldl_reset_member split: apply_event_splits)

lemma columns_agree_step:
  assumes "columns_agree row s" "apply_event s at ev = Ok s'"
  shows "columns_agree (project_status ev (row \<lparr>row_next := k\<rparr>)) s'"
proof -
  have wake: "wake_of (Suspended w) = timer_wait (Some w)" for w by (cases w) (simp_all add: timer_wait_def)
  show ?thesis
    using assms(1) apply_event_digest [OF assms(2)] apply_event_waiting_on [OF assms(2)]
      apply_event_new_status [OF assms(2)]
    by (cases ev) (simp_all add: columns_agree_def project_status_def projected_status_def wake del: wake_of.simps(1))
qed

lemma run_fold_snocD:
  assumes "run_fold (xs @ [r]) = Ok s'" "xs \<noteq> []"
  shows "\<exists>s. run_fold xs = Ok s \<and> apply_recorded s r = Ok s'"
proof (cases "run_fold xs")
  case (Inl e)
  then show ?thesis using assms by (simp add: run_fold_append)
next
  case (Inr s)
  then show ?thesis using assms(1) run_fold_snoc [OF Inr] by simp
qed

lemma row_ok_snoc:
  assumes "row_ok row evs" "evs \<noteq> []" "row_epoch row = ep" "row_next row + 1 \<le> i64_max"
    and new: "new = \<lparr>event_run = key, row_position = row_next row, row_event_epoch = ep, row_recorded_at = at, row_event = ev\<rparr>"
  shows "row_ok (project_status ev (row \<lparr>row_next := row_next row + 1\<rparr>)) (evs @ [new])"
proof -
  have agree: "columns_agree (project_status ev (row \<lparr>row_next := row_next row + 1\<rparr>)) s'"
    if fold: "run_fold (map decode_row (evs @ [new])) = Ok s'" for s'
  proof -
    from fold obtain s where s: "run_fold (map decode_row evs) = Ok s" "apply_recorded s (decode_row new) = Ok s'"
      using run_fold_snocD [of "map decode_row evs" "decode_row new" s'] assms(2) by auto
    from s(1) assms(1) have "columns_agree row s" by (simp add: row_ok_def)
    then have "columns_agree row (s \<lparr>next_position := position (decode_row new) + 1,
        state_epoch := max (state_epoch s) (event_epoch (decode_row new))\<rparr>)" by (simp add: columns_agree_def)
    with s(2) show ?thesis unfolding apply_recorded_Ok by (auto simp: new decode_row_def intro: columns_agree_step)
  qed
  show ?thesis
    unfolding row_ok_def using assms agree by (auto simp: row_ok_def)
qed

lemma event_rows_snoc:
  "event_rows (st \<lparr>ir_runs := rs, ir_run_events := ir_run_events st @ [new], ir_effect_claims := l\<rparr>) key =
     event_rows st key @ (if event_run new = key then [new] else [])"
  by (simp add: event_rows_def)

lemma insert_event_Ok:
  "insert_event st key row ep ev at = Ok st' \<longleftrightarrow>
     row_next row + 1 \<le> i64_max \<and> \<not> list_ex (\<lambda>r. event_run r = key \<and> row_position r = row_next row) (ir_run_events st) \<and>
     (\<exists>ledger. project_effect_claim key ep (row_next row) ev (ir_effect_claims st) = Ok ledger \<and>
        st' = st \<lparr>ir_runs := bt_insert key (project_status ev (row \<lparr>row_next := row_next row + 1\<rparr>)) (ir_runs st),
                  ir_run_events := ir_run_events st @
                    [\<lparr>event_run = key, row_position = row_next row, row_event_epoch = ep, row_recorded_at = at, row_event = ev\<rparr>],
                  ir_effect_claims := ledger\<rparr>)"
  by (auto simp: insert_event_def Let_def)

lemma insert_event_wf:
  assumes "store_wf st" "map_of (ir_runs st) key = Some row" "insert_event st key row (row_epoch row) ev at = Ok st'"
  shows "store_wf st' \<and> (\<exists>row'. map_of (ir_runs st') key = Some row' \<and> row_epoch row' = row_epoch row) \<and>
         (\<forall>k. k \<noteq> key \<longrightarrow> map_of (ir_runs st') k = map_of (ir_runs st) k) \<and>
         stored_log st' key = stored_log st key @
           [\<lparr>position = word_of_int (row_next row), event_epoch = word_of_int (row_epoch row), event_at = at, the_event = ev\<rparr>] \<and>
         (\<forall>k. k \<noteq> key \<longrightarrow> stored_log st' k = stored_log st k)"
proof -
  from assms(3) obtain ledger where le: "row_next row + 1 \<le> i64_max" and
    st': "st' = st \<lparr>ir_runs := bt_insert key (project_status ev (row \<lparr>row_next := row_next row + 1\<rparr>)) (ir_runs st),
                  ir_run_events := ir_run_events st @
                    [\<lparr>event_run = key, row_position = row_next row, row_event_epoch = row_epoch row, row_recorded_at = at,
                      row_event = ev\<rparr>],
                  ir_effect_claims := ledger\<rparr>"
    by (auto simp: insert_event_Ok)
  have rows: "event_rows st' k = event_rows st k @ (if k = key then
      [\<lparr>event_run = key, row_position = row_next row, row_event_epoch = row_epoch row, row_recorded_at = at,
        row_event = ev\<rparr>] else [])" for k
    unfolding st' event_rows_snoc by simp
  have map: "map_of (ir_runs st') k = (if k = key
      then Some (project_status ev (row \<lparr>row_next := row_next row + 1\<rparr>)) else map_of (ir_runs st) k)" for k
    unfolding st' by simp
  have "key_ok st' k" for k
  proof (cases "k = key")
    case True
    then show ?thesis
      using store_wfD(1) [OF assms(1,2)] row_ok_snoc [OF _ _ refl le refl] by (simp add: key_ok_def map rows)
  next
    case False
    then show ?thesis
      using store_wf_key [OF assms(1), of k] by (cases "map_of (ir_runs st) k") (simp_all add: key_ok_def map rows)
  qed
  moreover have "bt_wf (ir_runs st')" using assms(1) by (simp add: st' store_wf_def)
  ultimately have "store_wf st'" unfolding store_wf_def by blast
  then show ?thesis by (simp add: map stored_log_def rows decode_row_def)
qed

lemma i64_try_from_Ok: "i64_try_from what ep = Ok v \<longleftrightarrow> v = uint ep \<and> uint ep \<le> i64_max"
  by (auto simp: i64_try_from_def)

lemma u64_try_from_Ok: "u64_try_from what v = Ok w \<longleftrightarrow> 0 \<le> v \<and> w = word_of_int v"
  by (auto simp: u64_try_from_def u64_try_from_i64_def)

lemma row_to_run_Ok:
  assumes "0 \<le> row_epoch row" "0 \<le> row_next row"
  obtains r where "row_to_run key row = Ok r" "run_epoch r = word_of_int (row_epoch row)"
    "(run_tenant r, run_project r, run_id r) = key"
  using assms that by (cases key) (auto simp: u64_try_from_def u64_try_from_i64_def)

lemma append_Ok:
  assumes "store_wf st" "append_ir_run_event st key ep ev at = Ok (r, st')"
  shows "store_wf st' \<and> (\<forall>k. k \<noteq> key \<longrightarrow> abs_run st' k = abs_run st k) \<and>
         (\<exists>log. abs_run st key = Some (ep, log) \<and> abs_run st' key = Some (ep, log @ [r]) \<and>
            r = \<lparr>position = of_nat (length log), event_epoch = ep, event_at = at, the_event = ev\<rparr>)"
proof -
  from assms(2) obtain row where row: "map_of (ir_runs st) key = Some row" "row_epoch row = uint ep"
      and ins: "insert_event st key row (uint ep) ev at = Ok st'"
      and r: "r = \<lparr>position = word_of_int (row_next row), event_epoch = ep, event_at = at, the_event = ev\<rparr>"
    by (auto simp: append_ir_run_event_def i64_try_from_Ok u64_try_from_Ok split: option.splits if_splits)
  note wf = insert_event_wf [OF assms(1) row(1) ins [folded row(2)]]
  from store_wfD(1) [OF assms(1) row(1)] have next': "row_next row = int (length (stored_log st key))"
    by (simp add: row_ok_def stored_log_def)
  obtain row' where row': "map_of (ir_runs st') key = Some row'" "row_epoch row' = row_epoch row" using wf by blast
  have "abs_run st key = Some (ep, stored_log st key)" using row by (simp add: abs_run_def)
  moreover have "abs_run st' key = Some (ep, stored_log st key @ [r])"
    using wf row row' r by (simp add: abs_run_def)
  moreover have "abs_run st' k = abs_run st k" if "k \<noteq> key" for k
  proof -
    have "map_of (ir_runs st') k = map_of (ir_runs st) k" "stored_log st' k = stored_log st k"
      using wf that by blast+
    then show ?thesis by (simp add: abs_run_def)
  qed
  moreover have "r = \<lparr>position = of_nat (length (stored_log st key)), event_epoch = ep, event_at = at, the_event = ev\<rparr>"
    using r next' by simp
  ultimately show ?thesis using wf by blast
qed

lemma append_stale:
  assumes "store_wf st" "abs_run st key = Some (current, log)" "ep \<noteq> current" "uint ep \<le> i64_max"
  shows "append_ir_run_event st key ep ev at = Err (EpochSuperseded (run_name key) ep current)"
proof -
  from assms(2) obtain row where row: "map_of (ir_runs st) key = Some row" "current = word_of_int (row_epoch row)"
    by (auto simp: abs_run_def)
  from store_wfD(1) [OF assms(1) row(1)] have ok: "0 \<le> row_epoch row" "0 \<le> row_next row"
    by (auto simp: row_ok_def)
  then obtain r where r: "row_to_run key row = Ok r" "run_epoch r = word_of_int (row_epoch row)"
    by (rule row_to_run_Ok)
  have "row_epoch row \<noteq> uint ep" using assms(3) row(2) by auto
  then show ?thesis using assms(4) row r by (simp add: append_ir_run_event_def i64_try_from_def)
qed

text \<open>The contract of the log a lease holder writes to: an append under the current epoch extends
  the log by exactly that event at the next position, and an append under any other epoch
  writes nothing.\<close>

locale fenced_log =
  fixes wf :: "'s \<Rightarrow> bool"
    and view :: "'s \<Rightarrow> (epoch \<times> recorded_event list) option"
    and append :: "'s \<Rightarrow> epoch \<Rightarrow> run_event \<Rightarrow> recorded_time \<Rightarrow> (store_error, recorded_event \<times> 's) result"
  assumes append_extends:
      "wf st \<Longrightarrow> append st ep ev at = Ok (r, st') \<Longrightarrow>
         wf st' \<and> (\<exists>log. view st = Some (ep, log) \<and> view st' = Some (ep, log @ [r]) \<and>
           r = \<lparr>position = of_nat (length log), event_epoch = ep, event_at = at, the_event = ev\<rparr>)"
    and append_refused:
      "wf st \<Longrightarrow> view st = Some (current, log) \<Longrightarrow> ep \<noteq> current \<Longrightarrow> \<exists>e. append st ep ev at = Err e"
begin

lemma append_current:
  assumes "wf st" "view st = Some (current, log)" "append st ep ev at = Ok (r, st')"
  shows "ep = current \<and> wf st' \<and> view st' = Some (ep, log @ [r]) \<and> the_event r = ev \<and> event_epoch r = ep \<and>
         position r = of_nat (length log) \<and> event_at r = at"
  using append_extends [OF assms(1,3)] assms(2) by auto

lemma append_folds:
  assumes "wf st" "view st = Some (current, log)" "append st ep ev at = Ok (r, st')"
    and "run_fold log = Ok s" "\<not> status_is_terminal (status s)" "next_position s = of_nat (length log)"
    and "apply_event (s \<lparr>next_position := next_position s + 1, state_epoch := max (state_epoch s) ep\<rparr>) at ev = Ok s'"
  shows "run_fold (log @ [r]) = Ok s'"
  using append_current [OF assms(1-3)] assms(4-7) run_fold_snoc [of log s r]
  by (simp add: apply_recorded_def)

end

interpretation irs: fenced_log store_wf "\<lambda>st. abs_run st key" "\<lambda>st. append_ir_run_event st key" for key
proof unfold_locales
  fix st ep ev at r st'
  assume "store_wf st" "append_ir_run_event st key ep ev at = Ok (r, st')"
  from append_Ok [OF this] show "store_wf st' \<and> (\<exists>log. abs_run st key = Some (ep, log) \<and>
      abs_run st' key = Some (ep, log @ [r]) \<and>
      r = \<lparr>position = of_nat (length log), event_epoch = ep, event_at = at, the_event = ev\<rparr>)" by blast
next
  fix st current log ep ev at
  assume "store_wf st" "abs_run st key = Some (current, log)" "ep \<noteq> current"
  then show "\<exists>e. append_ir_run_event st key ep ev at = Err e"
    using append_stale by (cases "uint ep \<le> i64_max") (auto simp: append_ir_run_event_def i64_try_from_def)
qed

section \<open>The other operations keep the store well formed\<close>

lemma store_wf_update:
  assumes "store_wf st" "map_of (ir_runs st) key = Some row"
    and "\<And>evs. row_ok row evs \<Longrightarrow> row_ok row' evs" "ir_run_events st' = ir_run_events st"
    and "ir_runs st' = bt_insert key row' (ir_runs st)"
  shows "store_wf st' \<and> stored_log st' k = stored_log st k \<and>
         map_of (ir_runs st') k = (if k = key then Some row' else map_of (ir_runs st) k)"
proof -
  have rows: "event_rows st' k = event_rows st k" for k using assms(4) by (simp add: event_rows_def)
  have "key_ok st' k" for k
  proof (cases "k = key")
    case True
    then show ?thesis using store_wfD(1) [OF assms(1,2)] assms(3,5) by (simp add: key_ok_def rows)
  next
    case False
    then show ?thesis
      using store_wf_key [OF assms(1), of k] assms(5)
      by (cases "map_of (ir_runs st) k") (simp_all add: key_ok_def rows)
  qed
  then show ?thesis using assms(1,5) rows by (simp add: store_wf_def stored_log_def)
qed

lemma row_ok_lease:
  "row_ok row evs \<Longrightarrow> row_epoch row \<le> ep \<Longrightarrow> ep \<le> i64_max \<Longrightarrow>
     row_ok (row \<lparr>row_owner := owner, row_expires := expires, row_epoch := ep\<rparr>) evs"
  "row_ok row evs \<Longrightarrow> row_ok (row \<lparr>row_expires := expires\<rparr>) evs"
  "row_ok row evs \<Longrightarrow> row_ok (row \<lparr>row_owner := owner, row_expires := expires\<rparr>) evs"
  by (auto simp: row_ok_def columns_agree_def)

lemma update_lease_wf:
  assumes "store_wf st" "update_lease st key worker ep f = Ok (b, st')"
    and "\<And>row evs. row_ok row evs \<Longrightarrow> row_ok (f row) evs" "\<And>row. row_epoch (f row) = row_epoch row"
  shows "store_wf st' \<and> abs_run st' k = abs_run st k"
proof (cases "st' = st")
  case True
  then show ?thesis using assms(1) by simp
next
  case False
  with assms(2) obtain row where row: "map_of (ir_runs st) key = Some row"
      and st': "st' = st \<lparr>ir_runs := bt_insert key (f row) (ir_runs st)\<rparr>"
    by (auto simp: update_lease_def split: option.splits if_splits)
  from store_wf_update [OF assms(1) row, of "f row" st' k] assms(3,4) st' row show ?thesis
    by (simp add: abs_run_def)
qed

lemma lease_wf:
  assumes "store_wf st" "lease_next_ir_run st locked worker secs tenant now_millis db_now = Ok (Some r, st')"
  obtains key row where "key = (run_tenant r, run_project r, run_id r)" "map_of (ir_runs st) key = Some row"
    "run_epoch r = word_of_int (row_epoch row + 1)" "row_epoch row + 1 \<le> i64_max" "0 \<le> row_epoch row" "store_wf st'"
    "abs_run st' key = Some (run_epoch r, stored_log st key)" "\<And>k. k \<noteq> key \<Longrightarrow> abs_run st' k = abs_run st k"
proof -
  from assms(2) obtain key row where
      mem: "first (sort_key (\<lambda>(key, row). (row_created row, run_name key))
         (filter (is_candidate st locked tenant now_millis db_now) (ir_runs st))) = Some (key, row)"
      and le: "row_epoch row + 1 \<le> i64_max"
      and r: "row_to_run key (row \<lparr>row_owner := Some worker, row_expires := Some (db_now + secs),
                 row_epoch := row_epoch row + 1\<rparr>) = Ok r"
      and st': "st' = st \<lparr>ir_runs := bt_insert key (row \<lparr>row_owner := Some worker, row_expires := Some (db_now + secs),
                 row_epoch := row_epoch row + 1\<rparr>) (ir_runs st)\<rparr>"
    by (auto simp: lease_next_ir_run_def Let_def not_less split: option.splits if_splits)
  have "(key, row) \<in> set (ir_runs st)" using first_SomeD [OF mem] by simp
  then have row: "map_of (ir_runs st) key = Some row"
    using assms(1) bt_wf_distinct [of "ir_runs st"] by (simp add: store_wf_def)
  from store_wfD(1) [OF assms(1) row] have ok: "0 \<le> row_epoch row" "0 \<le> row_next row" by (auto simp: row_ok_def)
  have rk: "key = (run_tenant r, run_project r, run_id r)" "run_epoch r = word_of_int (row_epoch row + 1)"
    using r by (cases key, auto simp: u64_try_from_Ok)+
  have upd: "store_wf st' \<and> stored_log st' k = stored_log st k \<and>
      map_of (ir_runs st') k = (if k = key then Some (row \<lparr>row_owner := Some worker, row_expires := Some (db_now + secs),
                 row_epoch := row_epoch row + 1\<rparr>) else map_of (ir_runs st) k)" for k
    using le by (intro store_wf_update [OF assms(1) row]) (auto simp: st' intro: row_ok_lease)
  show ?thesis
    using that [OF rk(1) row rk(2) le ok(1)] upd [of key] upd rk by (simp add: abs_run_def)
qed

lemma create_wf:
  assumes "store_wf st" "create_ir_run st key digest' mode' at db_now = Ok (r, st')"
  shows "store_wf st' \<and> (\<forall>k. k \<noteq> key \<longrightarrow> abs_run st' k = abs_run st k) \<and> abs_run st key = None \<and>
         abs_run st' key =
           Some (0, [\<lparr>position = 0, event_epoch = 0, event_at = at, the_event = Admitted digest' mode'\<rparr>])"
proof -
  let ?row = "\<lparr>row_digest = digest', row_status = ''queued'', row_epoch = 0, row_owner = None, row_expires = None,
               row_next = 0, row_wake = None, row_created = db_now\<rparr>"
  let ?new = "\<lparr>event_run = key, row_position = 0, row_event_epoch = 0, row_recorded_at = at,
               row_event = Admitted digest' mode'\<rparr>"
  obtain tenant project name where key: "key = (tenant, project, name)" by (cases key)
  from assms(2) have fresh: "\<not> bt_contains (ir_runs st) key"
      and ins: "insert_event (st \<lparr>ir_runs := bt_insert key ?row (ir_runs st)\<rparr>) key ?row 0 (Admitted digest' mode') at = Ok st'"
    unfolding key by (auto simp: Let_def split: if_splits)
  have none: "map_of (ir_runs st) key = None" using fresh by (simp add: bt_contains_def)
  have proj: "project_status (Admitted digest' mode') row = row" for row
    by (simp add: project_status_def projected_status_def)
  from ins have le: "(1::int) \<le> i64_max" and
    st': "st' = st \<lparr>ir_runs := bt_insert key (?row \<lparr>row_next := 1\<rparr>) (bt_insert key ?row (ir_runs st)),
                  ir_run_events := ir_run_events st @ [?new]\<rparr>"
    by (auto simp: insert_event_Ok proj)
  have rows: "event_rows st' k = event_rows st k @ (if k = key then [?new] else [])" for k
    by (simp add: st' event_rows_def)
  have map: "map_of (ir_runs st') k = (if k = key then Some (?row \<lparr>row_next := 1\<rparr>) else map_of (ir_runs st) k)" for k
    unfolding st' by simp
  have empty: "event_rows st key = []" using store_wfD(2) [OF assms(1) none] .
  have "key_ok st' k" for k
  proof (cases "k = key")
    case True
    have "columns_agree (?row \<lparr>row_next := 1\<rparr>) s" if "run_fold [decode_row ?new] = Ok s" for s
      using that by (auto simp: run_fold_def decode_row_def columns_agree_def initial_state_def)
    then show ?thesis using True empty le by (simp add: key_ok_def map rows row_ok_def)
  next
    case False
    then show ?thesis
      using store_wf_key [OF assms(1), of k] by (cases "map_of (ir_runs st) k") (simp_all add: key_ok_def map rows)
  qed
  moreover have "bt_wf (ir_runs st')" using assms(1) by (simp add: st' store_wf_def)
  ultimately have "store_wf st'" unfolding store_wf_def by blast
  then show ?thesis
    using none by (simp add: abs_run_def map stored_log_def rows empty decode_row_def)
qed

lemma store_wf_events:
  assumes "store_wf st" "ir_runs st' = ir_runs st" "ir_run_events st' = ir_run_events st"
  shows "store_wf st' \<and> abs_run st' k = abs_run st k"
proof -
  have rows: "event_rows st' key = event_rows st key" for key using assms(3) by (simp add: event_rows_def)
  have "key_ok st' key = key_ok st key" for key unfolding key_ok_def assms(2) rows ..
  then show ?thesis using assms(1,2) rows by (simp add: store_wf_def abs_run_def stored_log_def)
qed

section \<open>Reachable stores\<close>

inductive reachable_store :: "ir_store \<Rightarrow> bool" where
  empty: "reachable_store \<lparr>ir_definition_versions = vs, ir_runs = [], ir_run_events = [], ir_effect_claims = [],
            ir_run_signals = []\<rparr>"
| create: "reachable_store st \<Longrightarrow> create_ir_run st key d m at db_now = Ok (r, st') \<Longrightarrow> reachable_store st'"
| append: "reachable_store st \<Longrightarrow> append_ir_run_event st key ep ev at = Ok (rec, st') \<Longrightarrow> reachable_store st'"
| lease: "reachable_store st \<Longrightarrow> lease_next_ir_run st locked worker secs tenant now_millis db_now = Ok (found, st') \<Longrightarrow>
    reachable_store st'"
| heartbeat: "reachable_store st \<Longrightarrow> heartbeat_ir_run st key worker ep secs db_now = Ok (b, st') \<Longrightarrow> reachable_store st'"
| release: "reachable_store st \<Longrightarrow> release_ir_run_lease st key worker ep = Ok (b, st') \<Longrightarrow> reachable_store st'"
| deliver: "reachable_store st \<Longrightarrow> deliver_ir_run_signal st key sig = Ok (i, st') \<Longrightarrow> reachable_store st'"
| consume: "reachable_store st \<Longrightarrow> consume_ir_run_signal st i outcome = Ok (b, st') \<Longrightarrow> reachable_store st'"

lemma reachable_store_wf: "reachable_store st \<Longrightarrow> store_wf st"
proof (induction rule: reachable_store.induct)
  case (empty vs)
  then show ?case by (simp add: store_wf_def key_ok_def event_rows_def)
next
  case (create st key d m at db_now r st')
  then show ?case using create_wf by blast
next
  case (append st key ep ev at rec st')
  then show ?case using append_Ok by blast
next
  case (lease st locked worker secs tenant now_millis db_now found st')
  show ?case
  proof (cases found)
    case None
    then have "st' = st" using lease(2) by (auto simp: lease_next_ir_run_def Let_def split: option.splits if_splits)
    then show ?thesis using lease.IH by simp
  next
    case (Some r)
    then show ?thesis using lease_wf [OF lease.IH, of locked worker secs tenant now_millis db_now r st'] lease(2) by blast
  qed
next
  case (heartbeat st key worker ep secs db_now b st')
  then show ?case
    using update_lease_wf [OF heartbeat.IH heartbeat(2) [unfolded heartbeat_ir_run_def]] row_ok_lease(2) by simp
next
  case (release st key worker ep b st')
  then show ?case
    using update_lease_wf [OF release.IH release(2) [unfolded release_ir_run_lease_def]] row_ok_lease(3) by simp
next
  case (deliver st key sig i st')
  then show ?case using store_wf_events [of st st'] by (auto simp: deliver_ir_run_signal_def Let_def split: if_splits)
next
  case (consume st i outcome b st')
  then show ?case using store_wf_events [of st st'] by (auto simp: consume_ir_run_signal_def Let_def)
qed

text \<open>C23. What is stored can be read: in every store the operations can produce, loading the
  events of a run succeeds and gives its log in order, with positions from zero without a
  gap and epochs no higher than the run's own; and whenever the log folds, the status
  column, the wake-up time and the definition of the row are those of the folded state.\<close>

theorem stored_runs_stay_readable:
  assumes "reachable_store st" "map_of (ir_runs st) key = Some row"
  shows "\<exists>log. load_ir_run_events st key = Ok log \<and> log \<noteq> [] \<and> row_next row = int (length log) \<and>
           (\<forall>i < length log. position (log ! i) = of_nat i \<and> uint (event_epoch (log ! i)) \<le> row_epoch row) \<and>
           (\<forall>s. run_fold log = Ok s \<longrightarrow>
              row_status row = run_status_str (status s) \<and> row_digest row = definition_digest s \<and>
              row_wake row = (if status s = Waiting then timer_wait (waiting_on s) else None))"
proof -
  have wf: "store_wf st" by (rule reachable_store_wf [OF assms(1)])
  let ?evs = "event_rows st key"
  from store_wfD(1) [OF wf assms(2)] have ok: "?evs \<noteq> []" "row_ok row ?evs" by auto
  have pos: "position (stored_log st key ! i) = of_nat i \<and> uint (event_epoch (stored_log st key ! i)) \<le> row_epoch row"
    if i: "i < length ?evs" for i
  proof -
    have "map row_position ?evs ! i = int i" using ok(2) i by (simp add: row_ok_def)
    then have "row_position (?evs ! i) = int i" using i by simp
    moreover have "0 \<le> row_event_epoch (?evs ! i)" "row_event_epoch (?evs ! i) \<le> row_epoch row" "row_epoch row \<le> i64_max"
      using ok(2) nth_mem [OF i] by (auto simp: row_ok_def)
    ultimately show ?thesis using i by (simp add: stored_log_def decode_row_def uint_word_of_int_eq i64_max_def take_bit_int_eq_self)
  qed
  show ?thesis
    using ok pos by (intro exI [of _ "stored_log st key"])
      (auto simp: load_Ok [OF wf] stored_log_def row_ok_def columns_agree_def)
qed

definition sample_key :: run_key where
  "sample_key = (''t'', ''p'', ''r'')"

definition sample_created :: "(store_error, ir_run_record \<times> ir_store) result" where
  "sample_created = create_ir_run
     \<lparr>ir_definition_versions = [(''t'', ''p'', Digest [])], ir_runs = [], ir_run_events = [], ir_effect_claims = [],
      ir_run_signals = []\<rparr> sample_key (Digest []) Observe 0 0"

definition sample_leased :: "(store_error, ir_run_record option \<times> ir_store) result" where
  "sample_leased = and_then sample_created (\<lambda>(r, st). lease_next_ir_run st [] ''w'' 60 None 1 1)"

lemma sample_created_reachable: "sample_created = Ok (r, st) \<Longrightarrow> reachable_store st"
  unfolding sample_created_def by (rule reachable_store.create [OF reachable_store.empty])

lemma sample_leased_from:
  obtains r st r' st' where "sample_created = Ok (r, st)" "lease_next_ir_run st [] ''w'' 60 None 1 1 = Ok (Some r', st')"
    "(run_tenant r', run_project r', run_id r') = sample_key" "run_epoch r' = 1" "reachable_store st"
proof -
  have "case sample_leased of Inl e \<Rightarrow> False | Inr (found, st') \<Rightarrow> (case found of None \<Rightarrow> False | Some r' \<Rightarrow>
      (run_tenant r', run_project r', run_id r') = sample_key \<and> run_epoch r' = 1)"
    by code_simp
  then show ?thesis
    using that sample_created_reachable unfolding sample_leased_def
    by (cases sample_created) (auto split: sum.splits option.splits)
qed

theorem stored_runs_stay_readable_witness:
  "\<exists>st log. reachable_store st \<and> load_ir_run_events st sample_key = Ok log \<and> log \<noteq> []"
proof -
  obtain r st r' st' where c: "sample_created = Ok (r, st)" by (rule sample_leased_from)
  have reach: "reachable_store st" by (rule sample_created_reachable [OF c])
  have "case sample_created of Inl e \<Rightarrow> False | Inr (r, st) \<Rightarrow> map_of (ir_runs st) sample_key \<noteq> None" by code_simp
  then obtain row where "map_of (ir_runs st) sample_key = Some row" unfolding c by auto
  from stored_runs_stay_readable [OF reach this] reach show ?thesis by blast
qed

text \<open>C20. A lease fences out its predecessors: leasing a run gives it the next epoch and leaves
  every log as it was, and from then on an append under any other epoch is refused with the
  epoch that took over, while one under the leased epoch that succeeds adds exactly that
  event at the next position and touches no other run.\<close>

theorem lease_fences:
  assumes "reachable_store st" "lease_next_ir_run st locked worker secs tenant now_millis db_now = Ok (Some r, st')"
    and "key = (run_tenant r, run_project r, run_id r)"
  shows "\<exists>old log. abs_run st key = Some (old, log) \<and> run_epoch r = old + 1 \<and> old < run_epoch r \<and>
           abs_run st' key = Some (run_epoch r, log) \<and>
           (\<forall>ep ev at. ep \<noteq> run_epoch r \<and> uint ep \<le> i64_max \<longrightarrow>
              append_ir_run_event st' key ep ev at = Err (EpochSuperseded (run_id r) ep (run_epoch r))) \<and>
           (\<forall>ev at rec st''. append_ir_run_event st' key (run_epoch r) ev at = Ok (rec, st'') \<longrightarrow>
              abs_run st'' key = Some (run_epoch r, log @ [rec]) \<and> the_event rec = ev \<and>
              position rec = of_nat (length log) \<and> (\<forall>k. k \<noteq> key \<longrightarrow> abs_run st'' k = abs_run st k))"
proof -
  have wf: "store_wf st" by (rule reachable_store_wf [OF assms(1)])
  obtain key' row where key': "key' = (run_tenant r, run_project r, run_id r)" and
      row: "map_of (ir_runs st) key' = Some row" "run_epoch r = word_of_int (row_epoch row + 1)"
        "row_epoch row + 1 \<le> i64_max" "0 \<le> row_epoch row"
      and wf': "store_wf st'" and abs: "abs_run st' key' = Some (run_epoch r, stored_log st key')"
        "\<And>k. k \<noteq> key' \<Longrightarrow> abs_run st' k = abs_run st k"
    using lease_wf [OF wf assms(2)] by blast
  have key: "key' = key" using key' assms(3) by simp
  let ?old = "word_of_int (row_epoch row) :: u64"
  have old: "abs_run st key = Some (?old, stored_log st key)" using row(1) key by (simp add: abs_run_def)
  have up: "run_epoch r = ?old + 1" using row(2) by simp
  have "uint ?old = row_epoch row" "uint (run_epoch r) = row_epoch row + 1"
    unfolding row(2) uint_word_of_int_eq using row(3,4) by (intro take_bit_int_eq_self; simp add: i64_max_def)+
  then have less: "?old < run_epoch r" by (simp add: word_less_def)
  have name: "run_name key = run_id r" using assms(3) by (simp add: run_name_def)
  have refuse: "append_ir_run_event st' key ep ev at = Err (EpochSuperseded (run_id r) ep (run_epoch r))"
    if "ep \<noteq> run_epoch r" "uint ep \<le> i64_max" for ep ev at
    using append_stale [OF wf' abs(1) [unfolded key] that] name by simp
  have "abs_run st'' key = Some (run_epoch r, stored_log st key @ [rec]) \<and> the_event rec = ev \<and>
      position rec = of_nat (length (stored_log st key)) \<and> (\<forall>k. k \<noteq> key \<longrightarrow> abs_run st'' k = abs_run st k)"
    if app: "append_ir_run_event st' key (run_epoch r) ev at = Ok (rec, st'')" for ev at rec st''
    using append_Ok [OF wf' app] irs.append_current [OF wf' abs(1) [unfolded key] app] abs(2) [unfolded key] by auto
  then show ?thesis using old up less abs(1) [unfolded key] refuse by blast
qed

theorem lease_fences_witness:
  "\<exists>st. reachable_store st \<and> (\<exists>e. append_ir_run_event st sample_key 0 (Started (Identifier ''w'')) 5 = Err e)"
proof -
  obtain r st r' st' where l: "lease_next_ir_run st [] ''w'' 60 None 1 1 = Ok (Some r', st')"
      "(run_tenant r', run_project r', run_id r') = sample_key" "run_epoch r' = 1" "reachable_store st"
    by (rule sample_leased_from)
  have "append_ir_run_event st' sample_key 0 (Started (Identifier ''w'')) 5 = Err (EpochSuperseded (run_id r') 0 1)"
    using lease_fences [OF l(4,1) l(2) [symmetric]] l(3) by (auto simp: i64_max_def)
  moreover have "reachable_store st'" using l(4,1) by (rule reachable_store.lease)
  ultimately show ?thesis by blast
qed

section \<open>The ledger of effects\<close>

definition append_all :: "run_key \<Rightarrow> epoch \<Rightarrow> ir_store \<Rightarrow> run_event list \<Rightarrow> (store_error, ir_store) result" where
  "append_all key ep st evs =
     try_fold (\<lambda>st ev. and_then (append_ir_run_event st key ep ev 7) (\<lambda>(r, st'). Ok st')) st evs"

lemma append_all_reachable:
  assumes "append_all key ep st evs = Ok st'" "reachable_store st"
  shows "reachable_store st'"
  using assms(1) unfolding append_all_def
  by (rule try_fold_invariant [where P = reachable_store]) (auto intro: assms(2) reachable_store.append)

definition sample_retried :: "(store_error, ir_store) result" where
  "sample_retried = and_then sample_leased (\<lambda>(r, st). append_all sample_key 1 st
     [Started (Identifier ''w''), NodeStarted (Identifier ''n''),
      EffectClaimed (Identifier ''n'') (Identifier ''e'') 0 None,
      EffectClaimed (Identifier ''n'') (Identifier ''e'') 1 None,
      EffectFinalized (Identifier ''n'') (Identifier ''e'') 1 (Digest []),
      NodeFinished (Identifier ''n'') [] []])"

text \<open>The ledger of effects can disagree with the log. When an idempotent effect is retried
  under the next attempt number and that attempt is finalized, the fold has no open claim
  and counts the effect as completed, but the ledger resolves only the row of the later
  attempt and lists the first one as outstanding for good.\<close>

theorem ledger_disagrees_with_log:
  "\<exists>st log s. reachable_store st \<and> load_ir_run_events st sample_key = Ok log \<and> run_fold log = Ok s \<and>
     outstanding s = [] \<and> effect_completed s (Identifier ''n'') (Identifier ''e'') \<and>
     map (\<lambda>row. (ledger_effect row, ledger_attempt row)) (list_outstanding_ir_effects st None) = [(Identifier ''e'', 0)]"
proof -
  have eval: "case sample_retried of Inl e \<Rightarrow> False | Inr st \<Rightarrow>
      map (\<lambda>row. (ledger_effect row, ledger_attempt row)) (list_outstanding_ir_effects st None) = [(Identifier ''e'', 0)] \<and>
      (case load_ir_run_events st sample_key of Inl e \<Rightarrow> False | Inr log \<Rightarrow>
        (case run_fold log of Inl e \<Rightarrow> False | Inr s \<Rightarrow>
           outstanding s = [] \<and> effect_completed s (Identifier ''n'') (Identifier ''e'')))"
    by code_simp
  obtain st where st: "sample_retried = Ok st"
  proof (cases sample_retried)
    case (Inl e)
    from eval [unfolded Inl] show ?thesis by simp
  qed
  obtain r0 st0 r' st' where l: "sample_created = Ok (r0, st0)" "lease_next_ir_run st0 [] ''w'' 60 None 1 1 = Ok (Some r', st')"
      "reachable_store st0"
    by (rule sample_leased_from)
  then have leased: "sample_leased = Ok (Some r', st')" unfolding sample_leased_def l(1) by simp
  from st [unfolded sample_retried_def leased] have "reachable_store st"
    using append_all_reachable [OF _ reachable_store.lease [OF l(3,2)]] by simp
  then show ?thesis using eval unfolding st by (auto split: sum.splits)
qed

text \<open>A signal is answered once: consuming a pending signal reports success, takes it out of
  the pending ones and leaves every other signal and every log alone, and consuming it
  again reports that somebody was faster.\<close>

theorem signals_consumed_once:
  assumes "consume_ir_run_signal st i outcome = Ok (b, st')"
  shows "(b \<longleftrightarrow> (\<exists>s \<in> set (ir_run_signals st). signal_row_id s = i \<and> signal_consumed s = None)) \<and>
         (\<forall>key. abs_run st' key = abs_run st key \<and>
            pending_ir_run_signals st' key = filter (\<lambda>s. signal_row_id s \<noteq> i) (pending_ir_run_signals st key)) \<and>
         (\<forall>outcome'. is_ok (consume_ir_run_signal st i outcome') \<longrightarrow>
            consume_ir_run_signal st' i outcome' = Ok (False, st'))"
proof -
  let ?p = "\<lambda>s. signal_row_id s = i \<and> signal_consumed s = None"
  let ?f = "\<lambda>s. if ?p s then s \<lparr>signal_consumed := Some outcome\<rparr> else s"
  from assms have st': "st' = st \<lparr>ir_run_signals := map ?f (ir_run_signals st)\<rparr>"
      and b: "b = list_ex ?p (ir_run_signals st)"
    by (auto simp: consume_ir_run_signal_def Let_def)
  have pend: "filter (\<lambda>s. signal_run s = key \<and> signal_consumed s = None) (map ?f xs) =
      filter (\<lambda>s. signal_row_id s \<noteq> i) (filter (\<lambda>s. signal_run s = key \<and> signal_consumed s = None) xs)" for key xs
    by (induction xs) auto
  have sigs: "ir_run_signals st' = map ?f (ir_run_signals st)" by (simp add: st')
  have all: "\<not> ?p s" if "s \<in> set (ir_run_signals st')" for s
  proof -
    from that obtain t where "s = ?f t" unfolding sigs set_map by (rule imageE)
    then show ?thesis by simp
  qed
  have none: "\<not> list_ex ?p (ir_run_signals st')" "map (\<lambda>s. if ?p s then g s else s) (ir_run_signals st') = ir_run_signals st'" for g
    using all by (simp add: list_ex_iff) (rule map_idI, simp only: all if_False)
  have "pending_ir_run_signals st' key = filter (\<lambda>s. signal_row_id s \<noteq> i) (pending_ir_run_signals st key)" for key
    unfolding pending_ir_run_signals_def st' by (simp add: pend filter_sort)
  moreover have "abs_run st' key = abs_run st key" for key
    by (simp add: st' abs_run_def stored_log_def event_rows_def)
  moreover have "consume_ir_run_signal st' i outcome' = Ok (False, st')" if "is_ok (consume_ir_run_signal st i outcome')" for outcome'
  proof -
    have upd: "st' \<lparr>ir_run_signals := map (\<lambda>s. if ?p s then s \<lparr>signal_consumed := Some v\<rparr> else s) (ir_run_signals st')\<rparr> = st'" for v
      unfolding none(2) by simp
    have ex: "list_ex ?p (ir_run_signals st') = False" using none(1) by simp
    show ?thesis
      using that by (cases outcome') (simp_all add: consume_ir_run_signal_def Let_def i64_try_from_def upd ex split: if_splits)
  qed
  ultimately show ?thesis using b by (auto simp: list_ex_iff)
qed

theorem signals_consumed_once_witness:
  "\<exists>i st st'. deliver_ir_run_signal st sample_key (signal_timer (Identifier ''clock'')) = Ok (i, st') \<and>
     (\<exists>st''. consume_ir_run_signal st' i SignalRefused = Ok (True, st'') \<and>
        consume_ir_run_signal st'' i SignalRefused = Ok (False, st''))"
proof -
  obtain r st where c: "sample_created = Ok (r, st)" by (rule sample_leased_from)
  have "case sample_created of Inl e \<Rightarrow> False | Inr (r, st) \<Rightarrow> bt_contains (ir_runs st) sample_key" by code_simp
  then obtain i st' where d: "deliver_ir_run_signal st sample_key (signal_timer (Identifier ''clock'')) = Ok (i, st')"
      and i: "\<exists>s \<in> set (ir_run_signals st'). signal_row_id s = i \<and> signal_consumed s = None"
    unfolding c by (auto simp: deliver_ir_run_signal_def Let_def)
  obtain b st'' where u: "consume_ir_run_signal st' i SignalRefused = Ok (b, st'')"
    by (simp add: consume_ir_run_signal_def Let_def)
  then have "is_ok (consume_ir_run_signal st' i SignalRefused)" by simp
  with signals_consumed_once [OF u] have "b" "consume_ir_run_signal st'' i SignalRefused = Ok (False, st'')"
    using i by blast+
  moreover from this u have "consume_ir_run_signal st' i SignalRefused = Ok (True, st'')" by simp
  ultimately show ?thesis using d by blast
qed

end
