(* ===== verification/Graph_Worker.thy ===== *)
theory Graph_Worker
  imports Decide Store_Facts
begin

text \<open>
  The graph worker (\<open>crates/graph-worker/src/runtime.rs\<close> and \<open>execute.rs\<close>): lease, fold,
  decide, execute, append. Everything the worker does to the world outside its own memory
  (appending an event, asking the executor, reading the clock, consuming a signal) is an
  interaction; an \<open>async fn\<close> is the tree of its interactions, a \<open>script\<close>, whose
  continuations receive the answers. \<open>perform\<close> runs a script against a store and an
  environment; the interleaving of several workers is in \<open>Worker_Safety\<close>.
\<close>

section \<open>The executor's interface\<close>

record node_request =
  request_run :: string
  request_workflow :: workflow
  request_node :: node
  request_iteration :: "(ident \<times> u32) option"

datatype node_outcome =
    NodeFinishedWith "(string, digest) btree_map" "(string, control_value) btree_map"
  | NodeFailedWith failure_kind string

record effect_request =
  effect_run :: string
  effect_request_node :: ident
  effect_request_effect :: effect
  effect_request_attempt :: u32
  effect_request_key :: "string option"

datatype effect_outcome =
    Performed digest
  | EffectFailedWith failure_kind string
  | EffectUncertainWith string

record compensation_request =
  compensation_run :: string
  compensation_request_node :: ident
  compensation_request_effect :: effect
  compensation_request_route :: ident

definition node_outcome_finished :: "(string, digest) btree_map \<Rightarrow> node_outcome" where
  "node_outcome_finished outs = NodeFinishedWith outs []"

section \<open>Scripts\<close>

datatype progress = NothingToDo | Ended | SuspendedRun | StillRunning | LeaseLost

datatype worker_error =
    Storage store_error
  | UnknownDefinition string digest
  | Unfoldable string string
  | Undeliverable string claim_error
  | Inconsistent string string
  | ControlMissing string string

datatype 'a script =
    Return 'a
  | Raise worker_error
  | Emit run_event recorded_time "u64 option \<Rightarrow> 'a script"
  | RunNode node_request "node_outcome \<Rightarrow> 'a script"
  | CallEffect effect_request "effect_outcome \<Rightarrow> 'a script"
  | CallCompensate compensation_request "effect_outcome \<Rightarrow> 'a script"
  | ReadClock "recorded_time \<Rightarrow> 'a script"
  | Consume i64 signal_outcome "'a script"

primrec script_bind :: "'a script \<Rightarrow> ('a \<Rightarrow> 'b script) \<Rightarrow> 'b script" where
  "script_bind (Return x) f = f x"
| "script_bind (Raise e) f = Raise e"
| "script_bind (Emit ev at k) f = Emit ev at (\<lambda>p. script_bind (k p) f)"
| "script_bind (RunNode r k) f = RunNode r (\<lambda>v. script_bind (k v) f)"
| "script_bind (CallEffect r k) f = CallEffect r (\<lambda>v. script_bind (k v) f)"
| "script_bind (CallCompensate r k) f = CallCompensate r (\<lambda>v. script_bind (k v) f)"
| "script_bind (ReadClock k) f = ReadClock (\<lambda>v. script_bind (k v) f)"
| "script_bind (Consume i v k) f = Consume i v (script_bind k f)"

text \<open>\<open>append_recorded\<close> is the interaction itself; \<open>append\<close> keeps whether it was accepted, and
  \<open>append_then\<close> is the idiom that returns \<open>false\<close> at a refusal and goes on otherwise.\<close>

definition append_event :: "run_event \<Rightarrow> recorded_time \<Rightarrow> bool script" where
  "append_event ev at = Emit ev at (\<lambda>p. Return (p \<noteq> None))"

definition append_then :: "run_event \<Rightarrow> recorded_time \<Rightarrow> bool script \<Rightarrow> bool script" where
  "append_then ev at rest = Emit ev at (\<lambda>p. if p = None then Return False else rest)"

definition quoted :: "ident \<Rightarrow> string" where
  "quoted i = ''`'' @ as_str i @ ''`''"

section \<open>Carrying out a decision\<close>

definition iteration_of :: "workflow \<Rightarrow> run_state \<Rightarrow> ident \<Rightarrow> (ident \<times> u32) option" where
  "iteration_of d s n =
     (case region_of_node (workflow_graph d) n of
        None \<Rightarrow> None
      | Some r \<Rightarrow>
          (case region_kind r of
             Loop spec \<Rightarrow> Some (region_id r, finished_iterations (loop_progress_of s (region_id r)))
           | Plain \<Rightarrow> None))"

fun node_event :: "ident \<Rightarrow> node_outcome \<Rightarrow> run_event" where
  "node_event n (NodeFinishedWith outs ctl) = NodeFinished n outs ctl"
| "node_event n (NodeFailedWith f detail) = NodeFailed n f detail"

definition run_node :: "string \<Rightarrow> workflow \<Rightarrow> run_state \<Rightarrow> ident \<Rightarrow> recorded_time \<Rightarrow> bool script" where
  "run_node run d s n now =
     (case graph_node (workflow_graph d) n of
        None \<Rightarrow> Raise (Inconsistent run (quoted n @ '' is not in the definition''))
      | Some declared \<Rightarrow>
          append_then (NodeStarted n) now
            (RunNode \<lparr>request_run = run, request_workflow = d, request_node = declared,
                      request_iteration = iteration_of d s n\<rparr> (\<lambda>outcome.
             ReadClock (\<lambda>at. append_event (node_event n outcome) at))))"

text \<open>How an effect came out, as the events that record it.\<close>

fun record_effect :: "ident \<Rightarrow> effect_attempt \<Rightarrow> effect_outcome \<Rightarrow> recorded_time \<Rightarrow> bool script" where
  "record_effect n claim (Performed receipt) at =
     append_then (finalized_event claim receipt) at (append_event (NodeFinished n [] []) at)"
| "record_effect n claim (EffectFailedWith f detail) at =
     append_then (abandoned_event claim detail) at (append_event (NodeFailed n f detail) at)"
| "record_effect n claim (EffectUncertainWith detail) at = Return True"

text \<open>Claim, then perform.\<close>

definition claim_and_perform ::
  "string \<Rightarrow> ident \<Rightarrow> effect \<Rightarrow> effect_attempt \<Rightarrow> recorded_time \<Rightarrow> bool script" where
  "claim_and_perform run n declared claim now =
     append_then (claimed_event claim) now
       (CallEffect \<lparr>effect_run = run, effect_request_node = n, effect_request_effect = declared,
                    effect_request_attempt = attempt_number claim, effect_request_key = attempt_key claim\<rparr> (\<lambda>outcome.
        ReadClock (record_effect n claim outcome)))"

definition perform_effect ::
  "string \<Rightarrow> workflow \<Rightarrow> run_state \<Rightarrow> ident \<Rightarrow> ident \<Rightarrow> u32 \<Rightarrow> effect_attempt option \<Rightarrow> recorded_time \<Rightarrow> bool script" where
  "perform_effect run d s n e a rec now =
     (case declared_effect d n e of
        None \<Rightarrow> Raise (Inconsistent run (quoted e @ '' is not declared on '' @ quoted n))
      | Some declared \<Rightarrow>
          (case (case rec of
                   Some r \<Rightarrow> Ok r
                 | None \<Rightarrow>
                     claim_effect_attempt declared \<lparr>context_run = run, context_node = n, context_attempt = a\<rparr>) of
             Inl err \<Rightarrow> Raise (Undeliverable run err)
           | Inr claim \<Rightarrow>
               if bt_contains (running s) n then claim_and_perform run n declared claim now
               else append_then (NodeStarted n) now (claim_and_perform run n declared claim now)))"

definition start_iteration :: "workflow \<Rightarrow> ident \<Rightarrow> u32 \<Rightarrow> recorded_time \<Rightarrow> bool script" where
  "start_iteration d region index now =
     (let members = (case find (\<lambda>each. region_id each = region) (regions (workflow_graph d)) of
                       None \<Rightarrow> [] | Some r \<Rightarrow> region_nodes r) in
      append_event (iteration_started_event region index members) now)"

definition iteration_wall_ms :: "run_state \<Rightarrow> ident \<Rightarrow> recorded_time \<Rightarrow> u64" where
  "iteration_wall_ms s region now =
     (case opened_at (loop_progress_of s region) of
        None \<Rightarrow> 0
      | Some opened \<Rightarrow>
          (case u64_try_from_i64 (i64_saturating_sub now opened) of None \<Rightarrow> 0 | Some ms \<Rightarrow> ms))"

text \<open>One turn of the loop over the declared invariants.\<close>

definition read_invariant ::
  "string \<Rightarrow> run_state \<Rightarrow> loop_invariant \<Rightarrow> (worker_error, invariant_outcome) result" where
  "read_invariant run s i =
     and_then
       (ok_or (ControlMissing run (quoted (invariant_evaluator i) @ '' reported no boolean on '' @
                 quoted (invariant_port i) @ '' for invariant '' @ quoted (invariant_id i)))
          (Option.bind (control_value_of s (invariant_evaluator i) (as_str (invariant_port i))) as_bool))
       (\<lambda>held. Ok \<lparr>outcome_invariant = invariant_id i, outcome_held = held, outcome_timing = invariant_timing i\<rparr>)"

definition read_progress ::
  "string \<Rightarrow> run_state \<Rightarrow> progress_measure option \<Rightarrow> (worker_error, i128 option) result" where
  "read_progress run s m =
     (case m of
        None \<Rightarrow> Ok None
      | Some declared \<Rightarrow>
          and_then
            (ok_or (ControlMissing run (quoted (measured_by declared) @ '' reported no integer on '' @
                      quoted (progress_port declared) @ '' for measure '' @ quoted (progress_id declared)))
               (Option.bind (control_value_of s (measured_by declared) (as_str (progress_port declared))) as_integer))
            (\<lambda>v. Ok (Some v)))"

definition script_of :: "(worker_error, 'a) result \<Rightarrow> ('a \<Rightarrow> 'b script) \<Rightarrow> 'b script" where
  "script_of r k = (case r of Inl e \<Rightarrow> Raise e | Inr v \<Rightarrow> k v)"

text \<open>\<open>digest\<close> stands for the canonical encoding of a node's outputs followed by the hash, which
  \<open>outputs_digest\<close> applies.\<close>

definition finish_iteration ::
  "((string, digest) btree_map \<Rightarrow> digest) \<Rightarrow> string \<Rightarrow> workflow \<Rightarrow> run_state \<Rightarrow> ident \<Rightarrow> u32 \<Rightarrow> recorded_time \<Rightarrow> bool script" where
  "finish_iteration digest' run d s region index now =
     (case find (\<lambda>each. region_id each = region) (regions (workflow_graph d)) of
        None \<Rightarrow> Raise (Inconsistent run (quoted region @ '' is not a region of this definition''))
      | Some r \<Rightarrow>
          (case region_kind r of
             Plain \<Rightarrow> Raise (Inconsistent run (quoted region @ '' is not a loop''))
           | Loop spec \<Rightarrow>
               script_of (collect (read_invariant run s) (loop_invariants spec)) (\<lambda>invariants.
               script_of (read_progress run s (loop_progress spec)) (\<lambda>reading.
                 append_event (iteration_finished_event region
                   \<lparr>iteration_index = index, iteration_state_in = digest' (outputs_of s (region_entry r)),
                    iteration_state_out = digest' (outputs_of s (region_exit r)), iteration_invariants = invariants,
                    iteration_progress = reading,
                    iteration_spent = \<lparr>max_iterations = 1, loop_wall_ms = iteration_wall_ms s region now, loop_tokens = 0,
                                      loop_cost_micro_units = 0, loop_effect_count = 0\<rparr>\<rparr>) now))))"

definition compensate_effect :: "string \<Rightarrow> workflow \<Rightarrow> compensation \<Rightarrow> bool script" where
  "compensate_effect run d c =
     (case declared_effect d (compensation_node c) (compensation_effect c) of
        None \<Rightarrow>
          Raise (Inconsistent run (quoted (compensation_effect c) @ '' is not declared on '' @ quoted (compensation_node c)))
      | Some declared \<Rightarrow>
          CallCompensate \<lparr>compensation_run = run, compensation_request_node = compensation_node c,
                          compensation_request_effect = declared, compensation_request_route = compensation_route c\<rparr> (\<lambda>outcome.
          ReadClock (\<lambda>at.
            case outcome of
              Performed receipt \<Rightarrow> append_event (compensated_event c receipt) at
            | _ \<Rightarrow> append_event (Failed (FailEffectUncertain (compensation_node c) (compensation_effect c))) at)))"

text \<open>The open claim of an effect, as \<open>RetryClaimedEffect\<close> and \<open>HaltUncertainEffect\<close> look it up.\<close>

definition open_claim :: "run_state \<Rightarrow> ident \<Rightarrow> ident \<Rightarrow> outstanding_effect option" where
  "open_claim s n e = find (\<lambda>claim. claim_node claim = n \<and> claim_effect claim = e) (outstanding s)"

fun carry_out ::
  "((string, digest) btree_map \<Rightarrow> digest) \<Rightarrow> ident \<Rightarrow> string \<Rightarrow> workflow \<Rightarrow> run_state \<Rightarrow> recorded_time \<Rightarrow> decision \<Rightarrow> bool script" where
  "carry_out digest' worker run d s now Start = append_event (Started worker) now"
| "carry_out digest' worker run d s now (StartNode n) = run_node run d s n now"
| "carry_out digest' worker run d s now (PerformEffect n e a) = perform_effect run d s n e a None now"
| "carry_out digest' worker run d s now (RetryClaimedEffect n e a) =
     perform_effect run d s n e a (map_option (\<lambda>claim. recovered claim a) (open_claim s n e)) now"
| "carry_out digest' worker run d s now (HaltUncertainEffect n e) =
     append_event (EffectUncertain n e (case open_claim s n e of None \<Rightarrow> 0 | Some claim \<Rightarrow> claim_attempt claim)) now"
| "carry_out digest' worker run d s now (StopLoop region reason) = append_event (LoopStopped region reason) now"
| "carry_out digest' worker run d s now (StartIteration region index) = start_iteration d region index now"
| "carry_out digest' worker run d s now (FinishIteration region index) = finish_iteration digest' run d s region index now"
| "carry_out digest' worker run d s now (TimeOutNode n) =
     (case timed_out_node d s now of None \<Rightarrow> Return True | Some t \<Rightarrow> append_event (timed_out_event t) now)"
| "carry_out digest' worker run d s now (Compensate c) = compensate_effect run d c"
| "carry_out digest' worker run d s now (Cancel b) = append_event (cancelled_event b) now"
| "carry_out digest' worker run d s now (Suspend w) = append_event (Suspended w) now"
| "carry_out digest' worker run d s now (ResumeWait w) = append_event (Resumed w worker) now"
| "carry_out digest' worker run d s now Complete = append_event (Completed (outputs s)) now"
| "carry_out digest' worker run d s now (Fail reason) = append_event (Failed reason) now"
| "carry_out digest' worker run d s now Idle = Return True"

section \<open>Answering signals\<close>

fun answer_signals :: "run_state \<Rightarrow> recorded_time \<Rightarrow> bool \<Rightarrow> signal_row list \<Rightarrow> bool script" where
  "answer_signals s now resumed [] = Return resumed"
| "answer_signals s now resumed (sig # rest) =
     (if resumed then Consume (signal_row_id sig) SignalRefused (answer_signals s now resumed rest)
      else case resume (waiting_on s) (signal_row_signal sig) now of
             Inr ev \<Rightarrow>
               Emit ev now (\<lambda>p.
                 case p of
                   Some pos \<Rightarrow> Consume (signal_row_id sig) (SignalResumed pos) (answer_signals s now True rest)
                 | None \<Rightarrow> Return False)
           | Inl NotWaiting \<Rightarrow> answer_signals s now resumed rest
           | Inl err \<Rightarrow> Consume (signal_row_id sig) SignalRefused (answer_signals s now resumed rest))"

section \<open>The worker's loop\<close>

text \<open>How one turn of the loop in \<open>advance_leased\<close> ends: \<open>Again\<close> is its \<open>continue\<close>, \<open>Beat\<close> goes on
  to the heartbeat, \<open>Finish\<close> returns.\<close>

datatype turn = Again | Beat | Finish progress

definition idle_progress :: "run_state \<Rightarrow> progress" where
  "idle_progress s =
     (if status_is_terminal (status s) then Ended else if status s = Waiting then SuspendedRun else StillRunning)"

definition advance_turn ::
  "((string, digest) btree_map \<Rightarrow> digest) \<Rightarrow> ident \<Rightarrow> string \<Rightarrow> workflow \<Rightarrow> run_state \<Rightarrow> recorded_time \<Rightarrow>
   signal_row list \<Rightarrow> turn script" where
  "advance_turn digest' worker run d s now pending =
     script_bind (answer_signals s now False pending) (\<lambda>resumed.
       if resumed then Return Again
       else case decide d s now of
              Idle \<Rightarrow> Return (Finish (idle_progress s))
            | x \<Rightarrow> script_bind (carry_out digest' worker run d s now x) (\<lambda>owned.
                     Return (if owned then Beat else Finish LeaseLost)))"

definition identity :: "string \<Rightarrow> ident" where
  "identity worker_id = (case parse worker_id of Inr i \<Rightarrow> i | Inl e \<Rightarrow> Identifier ''graph-worker'')"

record worker_config =
  worker_id :: string
  config_tenant :: "string option"
  lease_seconds :: int
  idle_poll_ms :: u64
  steps_per_lease :: u32

definition worker_config_default :: worker_config where
  "worker_config_default =
     \<lparr>worker_id = ''capsulet-graph-worker'', config_tenant = None, lease_seconds = 60, idle_poll_ms = 2000,
      steps_per_lease = 64\<rparr>"

text \<open>The environment answers by the number of the interaction, so it may answer differently each
  time.\<close>

record environment =
  env_clock :: "nat \<Rightarrow> recorded_time"
  env_node :: "nat \<Rightarrow> node_request \<Rightarrow> node_outcome"
  env_effect :: "nat \<Rightarrow> effect_request \<Rightarrow> effect_outcome"
  env_compensate :: "nat \<Rightarrow> compensation_request \<Rightarrow> effect_outcome"
  env_db_now :: "nat \<Rightarrow> int"
  env_locked :: "nat \<Rightarrow> run_key list"
  env_digest :: "(string, digest) btree_map \<Rightarrow> digest"
  env_definition :: "ir_run_record \<Rightarrow> (worker_error, workflow) result"
  env_render :: "fold_error \<Rightarrow> string"

type_synonym world = "ir_store \<times> nat"

definition append_recorded ::
  "run_key \<Rightarrow> epoch \<Rightarrow> ir_store \<Rightarrow> run_event \<Rightarrow> recorded_time \<Rightarrow> (worker_error, u64 option \<times> ir_store) result" where
  "append_recorded key ep st ev at =
     (case append_ir_run_event st key ep ev at of
        Inr (r, st') \<Rightarrow> Ok (Some (position r), st')
      | Inl (EpochSuperseded run attempted current) \<Rightarrow> Ok (None, st)
      | Inl e \<Rightarrow> Err (Storage e))"

primrec perform :: "environment \<Rightarrow> run_key \<Rightarrow> epoch \<Rightarrow> 'a script \<Rightarrow> world \<Rightarrow> (worker_error, 'a) result \<times> world" where
  "perform env key ep (Return x) w = (Ok x, w)"
| "perform env key ep (Raise e) w = (Err e, w)"
| "perform env key ep (Emit ev at k) w =
     (case append_recorded key ep (fst w) ev at of
        Inl e \<Rightarrow> (Err e, w)
      | Inr (p, st') \<Rightarrow> perform env key ep (k p) (st', snd w + 1))"
| "perform env key ep (RunNode r k) w = perform env key ep (k (env_node env (snd w) r)) (fst w, snd w + 1)"
| "perform env key ep (CallEffect r k) w = perform env key ep (k (env_effect env (snd w) r)) (fst w, snd w + 1)"
| "perform env key ep (CallCompensate r k) w = perform env key ep (k (env_compensate env (snd w) r)) (fst w, snd w + 1)"
| "perform env key ep (ReadClock k) w = perform env key ep (k (env_clock env (snd w))) (fst w, snd w + 1)"
| "perform env key ep (Consume i v k) w =
     (case consume_ir_run_signal (fst w) i v of
        Inl e \<Rightarrow> (Err (Storage e), w)
      | Inr (b, st') \<Rightarrow> perform env key ep k (st', snd w + 1))"

definition fold_log :: "environment \<Rightarrow> run_key \<Rightarrow> ir_store \<Rightarrow> (worker_error, run_state) result" where
  "fold_log env key st =
     and_then (map_err Storage (load_ir_run_events st key)) (\<lambda>events.
       map_err (\<lambda>e. Unfoldable (run_name key) (env_render env e)) (run_fold events))"

fun advance_leased ::
  "environment \<Rightarrow> worker_config \<Rightarrow> run_key \<Rightarrow> epoch \<Rightarrow> workflow \<Rightarrow> nat \<Rightarrow> world \<Rightarrow> (worker_error, progress) result \<times> world" where
  "advance_leased env cfg key ep d 0 w = (Ok StillRunning, w)"
| "advance_leased env cfg key ep d (Suc steps) w =
     (case fold_log env key (fst w) of
        Inl e \<Rightarrow> (Err e, w)
      | Inr s \<Rightarrow>
          (case perform env key ep
                  (advance_turn (env_digest env) (identity (worker_id cfg)) (run_name key) d s (env_clock env (snd w))
                     (pending_ir_run_signals (fst w) key)) (fst w, snd w + 1) of
             (Inl e, w') \<Rightarrow> (Err e, w')
           | (Inr Again, w') \<Rightarrow> advance_leased env cfg key ep d steps w'
           | (Inr (Finish p), w') \<Rightarrow> (Ok p, w')
           | (Inr Beat, w') \<Rightarrow>
               (case heartbeat_ir_run (fst w') key (worker_id cfg) ep (lease_seconds cfg) (env_db_now env (snd w')) of
                  Inl e \<Rightarrow> (Err (Storage e), w')
                | Inr (False, st') \<Rightarrow> (Ok LeaseLost, (st', snd w' + 1))
                | Inr (True, st') \<Rightarrow> advance_leased env cfg key ep d steps (st', snd w' + 1))))"

definition advance_one :: "environment \<Rightarrow> worker_config \<Rightarrow> world \<Rightarrow> (worker_error, progress) result \<times> world" where
  "advance_one env cfg w =
     (case lease_next_ir_run (fst w) (env_locked env (snd w)) (worker_id cfg) (lease_seconds cfg) (config_tenant cfg)
             (env_clock env (snd w)) (env_db_now env (snd w)) of
        Inl e \<Rightarrow> (Err (Storage e), w)
      | Inr (None, st) \<Rightarrow> (Ok NothingToDo, (st, snd w + 1))
      | Inr (Some lease, st) \<Rightarrow>
          (case env_definition env lease of
             Inl e \<Rightarrow> (Err e, (st, snd w + 1))
           | Inr d \<Rightarrow>
               (let key = (run_tenant lease, run_project lease, run_id lease) in
                case advance_leased env cfg key (run_epoch lease) d (unat (steps_per_lease cfg)) (st, snd w + 1) of
                  (outcome, w') \<Rightarrow>
                    if outcome = Ok LeaseLost then (outcome, w')
                    else (case release_ir_run_lease (fst w') key (worker_id cfg) (run_epoch lease) of
                            Inl e \<Rightarrow> (Err (Storage e), w')
                          | Inr (b, st') \<Rightarrow> (outcome, (st', snd w' + 1))))))"

end
