(* ===== verification/Worker_System.thy ===== *)
theory Worker_System
  imports Graph_Worker
begin

text \<open>
  Several workers on one run. A session is what one lease of the run is used for, named by
  its epoch; sessions run the worker's scripts step by step and interleave in any order,
  lose the lease at any moment and stop at any moment. Leases are the store's own. What the
  executor is asked to perform is written down in the order of the calls.
\<close>

datatype session = Gone | Holding | Acting "turn script"

record system =
  sys_store :: ir_store
  sessions :: "epoch \<Rightarrow> session"
  performed :: "(epoch \<times> effect_request) list"

text \<open>\<open>elsewhere\<close> is every statement that leaves this run's epoch and log alone: heartbeats,
  releases, signals and the work on other runs. In \<open>turn\<close> the session loads and folds the
  log, as the loop of \<open>advance_leased\<close> does at its start.\<close>

inductive sys_step ::
  "((string, digest) btree_map \<Rightarrow> digest) \<Rightarrow> workflow \<Rightarrow> run_key \<Rightarrow> system \<Rightarrow> system \<Rightarrow> bool"
  for h :: "(string, digest) btree_map \<Rightarrow> digest" and d :: workflow and key :: run_key where
  lease: "lease_next_ir_run (sys_store S) locked worker secs tenant now_millis db_now = Ok (Some r, st') \<Longrightarrow>
    (run_tenant r, run_project r, run_id r) = key \<Longrightarrow>
    sys_step h d key S (S \<lparr>sys_store := st', sessions := (sessions S)(run_epoch r := Holding)\<rparr>)"
| elsewhere: "store_wf st' \<Longrightarrow> abs_run st' key = abs_run (sys_store S) key \<Longrightarrow>
    sys_step h d key S (S \<lparr>sys_store := st'\<rparr>)"
| turn: "sessions S ep = Holding \<Longrightarrow> load_ir_run_events (sys_store S) key = Ok log \<Longrightarrow> run_fold log = Ok s \<Longrightarrow>
    sys_step h d key S (S \<lparr>sessions := (sessions S)(ep :=
      Acting (advance_turn h worker (run_name key) d s now (pending_ir_run_signals (sys_store S) key)))\<rparr>)"
| emit: "sessions S ep = Acting (Emit ev at k) \<Longrightarrow> append_recorded key ep (sys_store S) ev at = Ok (p, st') \<Longrightarrow>
    sys_step h d key S (S \<lparr>sys_store := st', sessions := (sessions S)(ep := Acting (k p))\<rparr>)"
| node: "sessions S ep = Acting (RunNode req nk) \<Longrightarrow>
    sys_step h d key S (S \<lparr>sessions := (sessions S)(ep := Acting (nk node_answer))\<rparr>)"
| effect: "sessions S ep = Acting (CallEffect call ek) \<Longrightarrow>
    sys_step h d key S (S \<lparr>sessions := (sessions S)(ep := Acting (ek effect_answer)),
                         performed := performed S @ [(ep, call)]\<rparr>)"
| compensate: "sessions S ep = Acting (CallCompensate undo ck) \<Longrightarrow>
    sys_step h d key S (S \<lparr>sessions := (sessions S)(ep := Acting (ck effect_answer))\<rparr>)"
| clock: "sessions S ep = Acting (ReadClock tk) \<Longrightarrow>
    sys_step h d key S (S \<lparr>sessions := (sessions S)(ep := Acting (tk now))\<rparr>)"
| consume: "sessions S ep = Acting (Consume i v rest) \<Longrightarrow> consume_ir_run_signal (sys_store S) i v = Ok (b, st') \<Longrightarrow>
    sys_step h d key S (S \<lparr>sys_store := st', sessions := (sessions S)(ep := Acting rest)\<rparr>)"
| continue: "sessions S ep = Acting (Return t) \<Longrightarrow>
    sys_step h d key S (S \<lparr>sessions := (sessions S)(ep := (case t of Finish p \<Rightarrow> Gone | _ \<Rightarrow> Holding))\<rparr>)"
| stop: "sys_step h d key S (S \<lparr>sessions := (sessions S)(ep := Gone)\<rparr>)"

text \<open>A run starts as \<open>create_ir_run\<close> leaves it: epoch zero and the admission alone.\<close>

inductive reachable_sys ::
  "((string, digest) btree_map \<Rightarrow> digest) \<Rightarrow> workflow \<Rightarrow> run_key \<Rightarrow> system \<Rightarrow> bool"
  for h :: "(string, digest) btree_map \<Rightarrow> digest" and d :: workflow and key :: run_key where
  created: "reachable_store st \<Longrightarrow> create_ir_run st key digest' mode' at db_now = Ok (r, st') \<Longrightarrow>
    reachable_sys h d key \<lparr>sys_store = st', sessions = (\<lambda>ep. Gone), performed = []\<rparr>"
| step: "reachable_sys h d key S \<Longrightarrow> sys_step h d key S S' \<Longrightarrow> reachable_sys h d key S'"

section \<open>Monitors\<close>

text \<open>A monitor follows a script: it accepts or refuses each event and each call to the executor,
  and says how it goes on when an append is refused (\<open>None\<close>: it no longer watches).\<close>

record 'p monitor =
  on_event :: "run_event \<Rightarrow> recorded_time \<Rightarrow> 'p \<Rightarrow> 'p option"
  on_call :: "effect_request \<Rightarrow> 'p \<Rightarrow> 'p option"
  on_refusal :: "'p \<Rightarrow> 'p option"
  on_other :: "'p \<Rightarrow> 'p"

primrec obeys :: "'p monitor \<Rightarrow> 'a script \<Rightarrow> 'p \<Rightarrow> bool" where
  "obeys m (Return x) p = True"
| "obeys m (Raise e) p = True"
| "obeys m (Emit ev at k) p =
     ((\<forall>q. on_refusal m p = Some q \<longrightarrow> obeys m (k None) q) \<and>
      (\<exists>q. on_event m ev at p = Some q \<and> (\<forall>pos. obeys m (k (Some pos)) q)))"
| "obeys m (RunNode r k) p = (\<forall>v. obeys m (k v) (on_other m p))"
| "obeys m (CallEffect r k) p = (\<exists>q. on_call m r p = Some q \<and> (\<forall>v. obeys m (k v) q))"
| "obeys m (CallCompensate r k) p = (\<forall>v. obeys m (k v) (on_other m p))"
| "obeys m (ReadClock k) p = (\<forall>v. obeys m (k v) (on_other m p))"
| "obeys m (Consume i v k) p = obeys m k (on_other m p)"

lemma obeys_bind_Return: "obeys m (script_bind scr (\<lambda>x. Return (g x))) p = obeys m scr p"
  by (induction scr arbitrary: p) auto

lemma obeys_append_event [simp]:
  "obeys m (append_event ev at) p = (\<exists>q. on_event m ev at p = Some q)"
  by (simp add: append_event_def)

lemma obeys_append_then [simp]:
  "obeys m (append_then ev at rest) p = (\<exists>q. on_event m ev at p = Some q \<and> obeys m rest q)"
  by (simp add: append_then_def)

lemma append_recorded_Ok:
  "append_recorded key ep st ev at = Ok (p, st') \<longleftrightarrow>
     (\<exists>r. append_ir_run_event st key ep ev at = Ok (r, st') \<and> p = Some (position r)) \<or>
     (\<exists>run a c. append_ir_run_event st key ep ev at = Err (EpochSuperseded run a c) \<and> p = None \<and> st' = st)"
  by (cases "append_ir_run_event st key ep ev at")
     (auto simp: append_recorded_def split: store_error.splits)

lemma project_effect_claim_Err: "project_effect_claim key ep pos ev ledger = Err e \<Longrightarrow> e = Sqlx"
  by (cases ev) (auto simp: ledger_claim_def ledger_resolve_def split: if_splits option.splits)

lemma and_then_eq_Inl: "and_then r f = Err e \<longleftrightarrow> r = Err e \<or> (\<exists>a. r = Ok a \<and> f a = Err e)"
  by (cases r) auto

lemma current_not_superseded:
  assumes "store_wf st" "abs_run st key = Some (ep, log)"
  shows "append_ir_run_event st key ep ev at \<noteq> Err (EpochSuperseded run a c)"
proof -
  from assms(2) obtain row where row: "map_of (ir_runs st) key = Some row" "ep = word_of_int (row_epoch row)"
    by (auto simp: abs_run_def)
  from store_wfD(1) [OF assms(1) row(1)] row(2) have "row_epoch row = uint ep"
    by (simp add: row_ok_def uint_word_of_int_eq take_bit_int_eq_self i64_max_def)
  then show ?thesis
    using row(1)
    by (auto simp: append_ir_run_event_def insert_event_def Let_def i64_try_from_def u64_try_from_def and_then_eq_Inl
        u64_try_from_i64_def dest: project_effect_claim_Err split: if_splits)
qed

lemma consume_abs:
  assumes "store_wf st" "consume_ir_run_signal st i v = Ok (b, st')"
  shows "store_wf st' \<and> abs_run st' key = abs_run st key"
  using assms store_wf_events [of st st' key] by (auto simp: consume_ir_run_signal_def Let_def)

text \<open>Every reachable system has a well-formed store with the run in it.\<close>

lemma lease_abs:
  assumes "store_wf st" "lease_next_ir_run st locked worker secs tenant now_millis db_now = Ok (Some r, st')"
    and "(run_tenant r, run_project r, run_id r) = key"
  shows "store_wf st' \<and> (\<exists>old log. abs_run st key = Some (old, log) \<and> abs_run st' key = Some (run_epoch r, log))"
proof -
  obtain key' row where "key' = key" "map_of (ir_runs st) key' = Some row" "store_wf st'"
      "abs_run st' key' = Some (run_epoch r, stored_log st key')"
    using lease_wf [OF assms(1,2)] assms(3) by metis
  then show ?thesis by (simp add: abs_run_def)
qed

lemma reachable_sys_wf:
  "reachable_sys h d key S \<Longrightarrow> store_wf (sys_store S) \<and> (\<exists>cur log. abs_run (sys_store S) key = Some (cur, log))"
proof (induction rule: reachable_sys.induct)
  case (created st digest' mode' at db_now r st')
  then show ?case using create_wf [OF reachable_store_wf [OF created(1)] created(2)] by simp
next
  case (step S S')
  from step.hyps(2) step.IH show ?case
  proof (cases rule: sys_step.cases)
    case (lease locked worker secs tenant now_millis db_now r st')
    then show ?thesis using lease_abs step.IH by fastforce
  next
    case (emit ep ev at k p st')
    then show ?thesis
      using step.IH append_Ok [of "sys_store S" key ep ev at _ st'] by (auto simp: append_recorded_Ok)
  next
    case (consume ep i v rest b st')
    then show ?thesis using step.IH consume_abs [of "sys_store S" i v b st' key] by simp
  qed (auto simp: step.IH)
qed

section \<open>What the lease holder keeps true\<close>

text \<open>A monitor whose state is a reading of the log. The session that holds the current epoch is
  the only one that can append, so what it was allowed when it folded the log it is still
  allowed when it appends.\<close>

locale holder_monitor =
  fixes h :: "(string, digest) btree_map \<Rightarrow> digest" and d :: workflow and key :: run_key
    and m :: "'p monitor" and reads :: "recorded_event list \<Rightarrow> 'p \<Rightarrow> bool"
  assumes reads_created:
      "\<exists>p. reads [\<lparr>position = 0, event_epoch = 0, event_at = at, the_event = Admitted digest' mode'\<rparr>] p"
    and reads_event:
      "reads log p \<Longrightarrow> on_event m ev at p = Some q \<Longrightarrow>
         reads (log @ [\<lparr>position = of_nat (length log), event_epoch = ep, event_at = at, the_event = ev\<rparr>]) q"
    and reads_call: "reads log p \<Longrightarrow> on_call m r p = Some q \<Longrightarrow> reads log q"
    and reads_other: "reads log p \<Longrightarrow> reads log (on_other m p)"
    and turn_obeys:
      "reads log p \<Longrightarrow> run_fold log = Ok s \<Longrightarrow> obeys m (advance_turn h worker (run_name key) d s now pending) p"
begin

definition held :: "system \<Rightarrow> bool" where
  "held S =
     (\<exists>cur log p. abs_run (sys_store S) key = Some (cur, log) \<and> reads log p \<and>
        (\<forall>scr. sessions S cur = Acting scr \<longrightarrow> obeys m scr p))"

lemma held_other:
  assumes "held S" "abs_run (sys_store S') key = abs_run (sys_store S) key"
    and "\<And>cur log p scr'. abs_run (sys_store S) key = Some (cur, log) \<Longrightarrow> reads log p \<Longrightarrow>
           (\<forall>scr. sessions S cur = Acting scr \<longrightarrow> obeys m scr p) \<Longrightarrow>
           \<exists>q. reads log q \<and> (\<forall>scr. sessions S' cur = Acting scr \<longrightarrow> obeys m scr q)"
  shows "held S'"
  using assms unfolding held_def by metis

lemma held_session:
  assumes "held S" "sys_store S' = sys_store S" "sessions S' = (sessions S)(ep := new)"
    and "\<And>scr log p. new = Acting scr \<Longrightarrow> abs_run (sys_store S) key = Some (ep, log) \<Longrightarrow> reads log p \<Longrightarrow>
           (\<forall>old. sessions S ep = Acting old \<longrightarrow> obeys m old p) \<Longrightarrow> \<exists>q. reads log q \<and> obeys m scr q"
  shows "held S'"
proof (rule held_other [OF assms(1)])
  show "abs_run (sys_store S') key = abs_run (sys_store S) key" using assms(2) by simp
  fix cur log p
  assume *: "abs_run (sys_store S) key = Some (cur, log)" "reads log p"
    "\<forall>scr. sessions S cur = Acting scr \<longrightarrow> obeys m scr p"
  show "\<exists>q. reads log q \<and> (\<forall>scr. sessions S' cur = Acting scr \<longrightarrow> obeys m scr q)"
  proof (cases "cur = ep")
    case True
    then show ?thesis using assms(3,4) * by (cases new) auto
  next
    case False
    then show ?thesis using assms(3) * by auto
  qed
qed

lemma held_move:
  assumes "held S" "sessions S ep = Acting scr" "sys_store S' = sys_store S" "sessions S' = (sessions S)(ep := Acting scr')"
    and "\<And>log p. reads log p \<Longrightarrow> obeys m scr p \<Longrightarrow> \<exists>q. reads log q \<and> obeys m scr' q"
  shows "held S'"
  using assms by (intro held_session [OF assms(1,3,4)]) auto

lemma held_step:
  assumes "held S" "store_wf (sys_store S)" "sys_step h d key S S'"
  shows "held S'"
  using assms(3)
proof (cases rule: sys_step.cases)
  case (lease locked worker secs tenant now_millis db_now r st')
  from lease_abs [OF assms(2) lease(2,3)] assms(1) lease(1) show ?thesis
    by (auto simp: held_def)
next
  case (elsewhere st')
  then show ?thesis using assms(1) by (simp add: held_def)
next
  case (turn ep log s worker now)
  have "log' = log" if "abs_run (sys_store S) key = Some (ep, log')" for log'
    using that turn(3) load_Ok [OF assms(2), of key] by (auto simp: abs_run_def)
  then show ?thesis
    using turn turn_obeys by (intro held_session [OF assms(1)]) (auto intro!: exI)
next
  case (emit ep ev at k p st')
  from emit(3) consider
      (ok) r where "append_ir_run_event (sys_store S) key ep ev at = Ok (r, st')" "p = Some (position r)"
    | (refused) run a c where "append_ir_run_event (sys_store S) key ep ev at = Err (EpochSuperseded run a c)"
        "p = None" "st' = sys_store S"
    unfolding append_recorded_Ok by blast
  then show ?thesis
  proof cases
    case ok
    from irs.append_extends [OF assms(2) ok(1)] obtain log where log: "abs_run (sys_store S) key = Some (ep, log)"
        "abs_run st' key = Some (ep, log @ [r])"
        "r = \<lparr>position = of_nat (length log), event_epoch = ep, event_at = at, the_event = ev\<rparr>"
      by blast
    from assms(1) log(1) obtain q where q: "reads log q" "obeys m (Emit ev at k) q"
      using emit(2) by (auto simp: held_def)
    from q(2) obtain q' where q': "on_event m ev at q = Some q'" "\<And>pos. obeys m (k (Some pos)) q'" by auto
    from reads_event [OF q(1) q'(1), of ep] log q'(2) ok(2) emit(1) show ?thesis by (auto simp: held_def)
  next
    case refused
    have "abs_run (sys_store S) key \<noteq> Some (ep, log)" for log
      using current_not_superseded [OF assms(2)] refused(1) by blast
    then show ?thesis using emit(1) refused(3) by (intro held_session [OF assms(1)]) auto
  qed
next
  case (consume ep i v rest b st')
  have abs: "abs_run st' key = abs_run (sys_store S) key" using consume_abs [OF assms(2) consume(3)] by simp
  have "held (S \<lparr>sessions := (sessions S)(ep := Acting rest)\<rparr>)"
    by (rule held_move [OF assms(1) consume(2)]) (auto intro: reads_other)
  then show ?thesis using abs consume(1) by (simp add: held_def)
next
  case (node ep req nk node_answer)
  show ?thesis unfolding node(1) by (rule held_move [OF assms(1) node(2)]) (auto intro: reads_other)
next
  case (effect ep call ek effect_answer)
  show ?thesis unfolding effect(1) by (rule held_move [OF assms(1) effect(2)]) (auto intro: reads_call)
next
  case (compensate ep undo ck effect_answer)
  show ?thesis unfolding compensate(1) by (rule held_move [OF assms(1) compensate(2)]) (auto intro: reads_other)
next
  case (clock ep tk now)
  show ?thesis unfolding clock(1) by (rule held_move [OF assms(1) clock(2)]) (auto intro: reads_other)
next
  case (continue ep t)
  then show ?thesis by (intro held_session [OF assms(1)]) (auto split: turn.splits)
next
  case (stop ep)
  then show ?thesis by (intro held_session [OF assms(1)]) auto
qed

lemma reachable_held: "reachable_sys h d key S \<Longrightarrow> held S"
proof (induction rule: reachable_sys.induct)
  case (created st digest' mode' at db_now r st')
  from create_wf [OF reachable_store_wf [OF created(1)] created(2)] reads_created [of at digest' mode'] show ?case
    by (auto simp: held_def)
next
  case (step S S')
  then show ?case using held_step reachable_sys_wf by blast
qed

lemma reachable_reads:
  "reachable_sys h d key S \<Longrightarrow> abs_run (sys_store S) key = Some (cur, log) \<Longrightarrow> \<exists>p. reads log p"
  using reachable_held by (fastforce simp: held_def)

end

section \<open>What every session keeps true\<close>

text \<open>A monitor that watches every session, the ones that lost their lease too, with the log and
  the calls made so far.\<close>

locale session_monitor =
  fixes h :: "(string, digest) btree_map \<Rightarrow> digest" and d :: workflow and key :: run_key
    and m :: "'p monitor"
    and reads :: "epoch \<Rightarrow> recorded_event list \<Rightarrow> (epoch \<times> effect_request) list \<Rightarrow> 'p \<Rightarrow> bool" and rest :: 'p
  assumes reads_created:
      "reads ep [\<lparr>position = 0, event_epoch = 0, event_at = at, the_event = Admitted digest' mode'\<rparr>] [] rest"
    and reads_event:
      "reads ep log calls p \<Longrightarrow> on_event m ev at p = Some q \<Longrightarrow>
         r = \<lparr>position = of_nat (length log), event_epoch = ep, event_at = at, the_event = ev\<rparr> \<Longrightarrow>
         reads ep (log @ [r]) calls q \<and> (ep' \<noteq> ep \<longrightarrow> reads ep' log calls p' \<longrightarrow> reads ep' (log @ [r]) calls p')"
    and reads_call:
      "reads ep log calls p \<Longrightarrow> on_call m c p = Some q \<Longrightarrow>
         reads ep log (calls @ [(ep, c)]) q \<and>
         (ep' \<noteq> ep \<longrightarrow> reads ep' log calls p' \<longrightarrow> reads ep' log (calls @ [(ep, c)]) p')"
    and reads_refusal: "reads ep log calls p \<Longrightarrow> \<exists>q. on_refusal m p = Some q \<and> reads ep log calls q"
    and reads_other: "reads ep log calls p \<Longrightarrow> reads ep log calls (on_other m p)"
    and reads_rest: "reads ep log calls p \<Longrightarrow> reads ep log calls rest"
    and turn_obeys:
      "reads ep log calls rest \<Longrightarrow> run_fold log = Ok s \<Longrightarrow>
         obeys m (advance_turn h worker (run_name key) d s now pending) rest"
begin

definition follows :: "system \<Rightarrow> recorded_event list \<Rightarrow> epoch \<Rightarrow> bool" where
  "follows S log ep =
     (\<exists>p. reads ep log (performed S) p \<and> (\<forall>scr. sessions S ep = Acting scr \<longrightarrow> obeys m scr p))"

definition watched :: "system \<Rightarrow> bool" where
  "watched S = (\<exists>cur log. abs_run (sys_store S) key = Some (cur, log) \<and> (\<forall>ep. follows S log ep))"

lemma follows_rest: "follows S log ep \<Longrightarrow> reads ep log (performed S) rest"
  by (auto simp: follows_def intro: reads_rest)

lemma watched_session:
  assumes "watched S" "abs_run (sys_store S') key = abs_run (sys_store S) key"
    and "sessions S' = (sessions S)(ep := new)" "performed S' = performed S"
    and "\<And>cur log p scr. new = Acting scr \<Longrightarrow> abs_run (sys_store S) key = Some (cur, log) \<Longrightarrow>
           reads ep log (performed S) p \<Longrightarrow> (\<forall>old. sessions S ep = Acting old \<longrightarrow> obeys m old p) \<Longrightarrow>
           \<exists>q. reads ep log (performed S) q \<and> obeys m scr q"
  shows "watched S'"
proof -
  from assms(1) obtain cur log where abs: "abs_run (sys_store S) key = Some (cur, log)"
      and all: "\<And>ep. follows S log ep" by (auto simp: watched_def)
  have "follows S' log e" for e
  proof (cases "e = ep")
    case True
    from all [of ep] obtain p where p: "reads ep log (performed S) p" "\<forall>old. sessions S ep = Acting old \<longrightarrow> obeys m old p"
      by (auto simp: follows_def)
    then show ?thesis
      using assms(3,4) assms(5) [OF _ abs p] True by (cases new) (auto simp: follows_def)
  next
    case False
    then show ?thesis using all [of e] assms(3,4) by (simp add: follows_def)
  qed
  then show ?thesis using abs assms(2) by (auto simp: watched_def)
qed

lemma watched_move:
  assumes "watched S" "sessions S ep = Acting scr" "abs_run (sys_store S') key = abs_run (sys_store S) key"
    and "sessions S' = (sessions S)(ep := Acting scr')" "performed S' = performed S"
    and "\<And>log p. reads ep log (performed S) p \<Longrightarrow> obeys m scr p \<Longrightarrow> \<exists>q. reads ep log (performed S) q \<and> obeys m scr' q"
  shows "watched S'"
  using assms by (intro watched_session [OF assms(1,3-5)]) auto

lemma watched_emit:
  assumes "watched S" "store_wf (sys_store S)" "sessions S ep = Acting (Emit ev at k)"
    and "append_ir_run_event (sys_store S) key ep ev at = Ok (r, st')"
  shows "watched (S \<lparr>sys_store := st', sessions := (sessions S)(ep := Acting (k (Some (position r))))\<rparr>)"
proof -
  from irs.append_extends [OF assms(2,4)] obtain log where log: "abs_run (sys_store S) key = Some (ep, log)"
      "abs_run st' key = Some (ep, log @ [r])"
      "r = \<lparr>position = of_nat (length log), event_epoch = ep, event_at = at, the_event = ev\<rparr>"
    by blast
  from assms(1) log(1) have all: "\<And>e. follows S log e" by (auto simp: watched_def)
  from all [of ep] assms(3) obtain p where p: "reads ep log (performed S) p" "obeys m (Emit ev at k) p"
    by (auto simp: follows_def)
  from p(2) obtain q where q: "on_event m ev at p = Some q" "\<And>pos. obeys m (k (Some pos)) q" by auto
  have "follows (S \<lparr>sys_store := st', sessions := (sessions S)(ep := Acting (k (Some (position r))))\<rparr>) (log @ [r]) e" for e
  proof (cases "e = ep")
    case True
    then show ?thesis using reads_event [OF p(1) q(1) log(3)] q(2) by (auto simp: follows_def)
  next
    case False
    then show ?thesis using reads_event [OF p(1) q(1) log(3), of e] all [of e] by (auto simp: follows_def)
  qed
  then show ?thesis using log(2) by (auto simp: watched_def)
qed

lemma watched_call:
  assumes "watched S" "sessions S ep = Acting (CallEffect c k)"
  shows "watched (S \<lparr>sessions := (sessions S)(ep := Acting (k answer)), performed := performed S @ [(ep, c)]\<rparr>)"
proof -
  from assms(1) obtain cur log where abs: "abs_run (sys_store S) key = Some (cur, log)"
      and all: "\<And>e. follows S log e" by (auto simp: watched_def)
  from all [of ep] assms(2) obtain p where p: "reads ep log (performed S) p" "obeys m (CallEffect c k) p"
    by (auto simp: follows_def)
  from p(2) obtain q where q: "on_call m c p = Some q" "\<And>v. obeys m (k v) q" by auto
  have "follows (S \<lparr>sessions := (sessions S)(ep := Acting (k answer)), performed := performed S @ [(ep, c)]\<rparr>) log e" for e
  proof (cases "e = ep")
    case True
    then show ?thesis using reads_call [OF p(1) q(1)] q(2) by (auto simp: follows_def)
  next
    case False
    then show ?thesis using reads_call [OF p(1) q(1), of e] all [of e] by (auto simp: follows_def)
  qed
  then show ?thesis using abs by (auto simp: watched_def)
qed

lemma watched_step:
  assumes "watched S" "store_wf (sys_store S)" "sys_step h d key S S'"
  shows "watched S'"
  using assms(3)
proof (cases rule: sys_step.cases)
  case (lease locked worker secs tenant now_millis db_now r st')
  from lease_abs [OF assms(2) lease(2,3)] obtain old log where abs: "abs_run (sys_store S) key = Some (old, log)"
      "abs_run st' key = Some (run_epoch r, log)" by blast
  with assms(1) have all: "\<And>e. follows S log e" by (auto simp: watched_def)
  have "follows S' log e" for e
    using all [of e] follows_rest [OF all, of e] lease(1) by (auto simp: follows_def)
  then show ?thesis using abs(2) lease(1) by (auto simp: watched_def)
next
  case (elsewhere st')
  then show ?thesis using assms(1) by (simp add: watched_def follows_def)
next
  case (turn ep log s worker now)
  have "log' = log" if "abs_run (sys_store S) key = Some (cur, log')" for cur log'
    using that turn(3) load_Ok [OF assms(2), of key] by (auto simp: abs_run_def)
  then show ?thesis
    using turn by (intro watched_session [OF assms(1)]) (auto intro!: exI [of _ rest] reads_rest turn_obeys)
next
  case (emit ep ev at k p st')
  from emit(3) show ?thesis
    unfolding append_recorded_Ok
  proof (elim disjE exE conjE)
    fix r assume "append_ir_run_event (sys_store S) key ep ev at = Ok (r, st')" "p = Some (position r)"
    with watched_emit [OF assms(1,2) emit(2)] emit(1) show ?thesis by simp
  next
    assume refused: "p = None" "st' = sys_store S"
    have "\<exists>q. reads ep log (performed S) q \<and> obeys m (k None) q"
      if "reads ep log (performed S) p'" "obeys m (Emit ev at k) p'" for log p'
      using reads_refusal [OF that(1)] that(2) by auto
    with refused show ?thesis unfolding emit(1) by (intro watched_move [OF assms(1) emit(2)]) auto
  qed
next
  case (consume ep i v r b st')
  have "abs_run st' key = abs_run (sys_store S) key" using consume_abs [OF assms(2) consume(3)] by simp
  then show ?thesis unfolding consume(1) by (intro watched_move [OF assms(1) consume(2)]) (auto intro: reads_other)
next
  case (node ep req nk node_answer)
  show ?thesis unfolding node(1) by (rule watched_move [OF assms(1) node(2)]) (auto intro: reads_other)
next
  case (effect ep call ek effect_answer)
  show ?thesis unfolding effect(1) by (rule watched_call [OF assms(1) effect(2)])
next
  case (compensate ep undo ck effect_answer)
  show ?thesis unfolding compensate(1) by (rule watched_move [OF assms(1) compensate(2)]) (auto intro: reads_other)
next
  case (clock ep tk now)
  show ?thesis unfolding clock(1) by (rule watched_move [OF assms(1) clock(2)]) (auto intro: reads_other)
next
  case (continue ep t)
  then show ?thesis by (intro watched_session [OF assms(1)]) (auto split: turn.splits)
next
  case (stop ep)
  then show ?thesis by (intro watched_session [OF assms(1)]) auto
qed

lemma reachable_watched: "reachable_sys h d key S \<Longrightarrow> watched S"
proof (induction rule: reachable_sys.induct)
  case (created st digest' mode' at db_now r st')
  from create_wf [OF reachable_store_wf [OF created(1)] created(2)] reads_created [of _ at digest' mode'] show ?case
    by (auto simp: watched_def follows_def)
next
  case (step S S')
  then show ?case using watched_step reachable_sys_wf by blast
qed

lemma reachable_reads:
  assumes "reachable_sys h d key S" "abs_run (sys_store S) key = Some (cur, log)"
  shows "reads ep log (performed S) rest"
  using reachable_watched [OF assms(1)] assms(2) follows_rest by (auto simp: watched_def)

end

end
