(* ===== verification/Worker_Safety.thy ===== *)
theory Worker_Safety
  imports Worker_System "HOL-Library.Multiset"
begin

text \<open>
  What the worker guarantees under crashes and lost leases: an effect that must not be
  repeated is claimed again only after it was abandoned, the executor is asked to perform
  an effect only after its claim was accepted, and every performance of one effect in one
  run presents the same key.
\<close>

section \<open>Following a turn\<close>

lemma resume_event: "resume w sig now = Ok ev \<Longrightarrow> \<exists>v b. ev = Resumed v b"
  by (cases w) (auto simp: resume_None resume_Some)

lemma answer_signals_obeys:
  assumes "\<And>w b at. on_event m (Resumed w b) at p = Some p" "on_other m p = p"
    and "\<And>q. on_refusal m p = Some q \<Longrightarrow> q = p" "\<And>b. obeys m (f b) p"
  shows "obeys m (script_bind (answer_signals s now resumed pending) f) p"
proof (induction pending arbitrary: resumed)
  case Nil
  then show ?case using assms(4) by simp
next
  case (Cons sig rest)
  show ?case
  proof (cases "resumed")
    case True
    then show ?thesis using Cons assms(2) by simp
  next
    case False
    show ?thesis
    proof (cases "resume (waiting_on s) (signal_row_signal sig) now")
      case (Inl err)
      then show ?thesis using False Cons assms(2) by (cases err) simp_all
    next
      case (Inr ev)
      obtain v b where ev: "ev = Resumed v b" using resume_event [OF Inr] by blast
      show ?thesis using False Inr Cons assms by (auto simp: ev split: option.splits)
    qed
  qed
qed

lemma advance_turn_obeys:
  assumes "\<And>w b at. on_event m (Resumed w b) at p = Some p" "on_other m p = p"
    and "\<And>q. on_refusal m p = Some q \<Longrightarrow> q = p"
    and "decide d s now \<noteq> Idle \<Longrightarrow> obeys m (carry_out h worker run d s now (decide d s now)) p"
  shows "obeys m (advance_turn h worker run d s now pending) p"
  unfolding advance_turn_def
proof (rule answer_signals_obeys [OF assms(1-3)])
  fix b
  show "obeys m (if b then Return Again
       else case decide d s now of
              Idle \<Rightarrow> Return (Finish (idle_progress s))
            | x \<Rightarrow> script_bind (carry_out h worker run d s now x) (\<lambda>owned. Return (if owned then Beat else Finish LeaseLost))) p"
    using assms(4) by (cases b; cases "decide d s now") (simp_all only: decision.case if_True if_False obeys.simps obeys_bind_Return decision.distinct simp_thms)
qed

section \<open>The life of one effect\<close>

datatype effect_phase = Fresh | Claimed | Happened | InDoubt | Broken

definition same_effect :: "ident \<Rightarrow> ident \<Rightarrow> ident \<Rightarrow> ident \<Rightarrow> bool" where
  "same_effect n e n' e' = (n' = n \<and> e' = e)"

fun phase_step :: "ident \<Rightarrow> ident \<Rightarrow> effect_phase \<Rightarrow> run_event \<Rightarrow> effect_phase" where
  "phase_step n e ph (EffectClaimed n' e' a k) =
     (if same_effect n e n' e' then (if ph = Fresh then Claimed else Broken) else ph)"
| "phase_step n e ph (EffectFinalized n' e' a r) =
     (if same_effect n e n' e' then (if ph = Claimed then Happened else Broken) else ph)"
| "phase_step n e ph (EffectAbandoned n' e' a r) =
     (if same_effect n e n' e' then (if ph = Claimed then Fresh else Broken) else ph)"
| "phase_step n e ph (EffectUncertain n' e' a) =
     (if same_effect n e n' e' then (if ph = Claimed then InDoubt else Broken) else ph)"
| "phase_step n e ph ev = ph"

definition effect_phase_of :: "ident \<Rightarrow> ident \<Rightarrow> recorded_event list \<Rightarrow> effect_phase" where
  "effect_phase_of n e log = foldl (phase_step n e) Fresh (map the_event log)"

lemma effect_phase_of_snoc: "effect_phase_of n e (log @ [r]) = phase_step n e (effect_phase_of n e log) (the_event r)"
  by (simp add: effect_phase_of_def)

lemma phase_step_Broken: "phase_step n e Broken ev = Broken"
  by (cases ev) auto

definition phase_agrees :: "ident \<Rightarrow> ident \<Rightarrow> run_state \<Rightarrow> effect_phase \<Rightarrow> bool" where
  "phase_agrees n e s ph =
     ((ph = Claimed \<longleftrightarrow> (\<exists>c \<in> set (outstanding s). claim_node c = n \<and> claim_effect c = e)) \<and>
      (ph = Happened \<longleftrightarrow> effect_completed s n e) \<and> (ph = InDoubt \<longleftrightarrow> (n, e) \<in> set (uncertain s)))"

definition is_effect_event :: "run_event \<Rightarrow> bool" where
  "is_effect_event ev =
     (case ev of EffectClaimed n e a k \<Rightarrow> True | EffectFinalized n e a r \<Rightarrow> True | EffectAbandoned n e a r \<Rightarrow> True
      | EffectUncertain n e a \<Rightarrow> True | _ \<Rightarrow> False)"

lemma apply_event_no_effect:
  "apply_event s at ev = Ok s' \<Longrightarrow> \<not> is_effect_event ev \<Longrightarrow>
     outstanding s' = outstanding s \<and> completed_effects s' = completed_effects s \<and> uncertain s' = uncertain s"
  by (cases ev) (auto simp: is_effect_event_def Let_def foldl_reset_member split: apply_event_splits)

lemma phase_step_no_effect: "\<not> is_effect_event ev \<Longrightarrow> phase_step n e ph ev = ph"
  by (cases ev) (simp_all add: is_effect_event_def)

lemma phase_agrees_step:
  assumes "phase_agrees n e s ph" "apply_event s at ev = Ok s'" "phase_step n e ph ev \<noteq> Broken"
  shows "phase_agrees n e s' (phase_step n e ph ev)"
proof (cases "is_effect_event ev")
  case False
  then show ?thesis
    using assms(1) apply_event_no_effect [OF assms(2)]
    by (simp add: phase_step_no_effect phase_agrees_def effect_completed_def)
next
  case True
  have resolve: "c \<in> set (resolve_claims n' e' cs) \<longleftrightarrow> c \<in> set cs \<and> \<not> (claim_node c = n' \<and> claim_effect c = e')" for c n' e' cs
    by (auto simp: resolve_claims_def same_claim_def)
  show ?thesis
    using True assms
    by (cases ev)
       (auto simp: is_effect_event_def phase_agrees_def same_effect_def effect_completed_def resolve Let_def split: if_splits)
qed

lemma phase_agrees_fold:
  "run_fold log = Ok s \<Longrightarrow> effect_phase_of n e log \<noteq> Broken \<Longrightarrow> phase_agrees n e s (effect_phase_of n e log)"
proof (induction log arbitrary: s rule: rev_induct)
  case Nil
  then show ?case by (simp add: run_fold_def)
next
  case (snoc r log)
  show ?case
  proof (cases "log = []")
    case True
    with snoc.prems show ?thesis
      by (auto simp: run_fold_Ok effect_phase_of_def phase_agrees_def initial_state_def effect_completed_def)
  next
    case False
    from run_fold_snocD [OF snoc.prems(1) False] obtain t where t: "run_fold log = Ok t" "apply_recorded t r = Ok s"
      by blast
    have nb: "effect_phase_of n e log \<noteq> Broken"
      using snoc.prems(2) by (auto simp: effect_phase_of_snoc phase_step_Broken)
    have "phase_agrees n e (t \<lparr>next_position := position r + 1, state_epoch := max (state_epoch t) (event_epoch r)\<rparr>)
        (effect_phase_of n e log)"
      using snoc.IH [OF t(1) nb] by (simp add: phase_agrees_def effect_completed_def)
    moreover have "apply_event (t \<lparr>next_position := position r + 1, state_epoch := max (state_epoch t) (event_epoch r)\<rparr>)
        (event_at r) (the_event r) = Ok s"
      using t(2) unfolding apply_recorded_Ok by blast
    ultimately show ?thesis
      unfolding effect_phase_of_snoc using snoc.prems(2) [unfolded effect_phase_of_snoc] by (rule phase_agrees_step)
  qed
qed

text \<open>Every open claim was written to the log.\<close>

lemma outstanding_from_log:
  assumes "run_fold log = Ok s" "c \<in> set (outstanding s)"
  shows "\<exists>r \<in> set log. the_event r = EffectClaimed (claim_node c) (claim_effect c) (claim_attempt c) (claim_key c)"
  using assms
proof (induction log arbitrary: s rule: rev_induct)
  case Nil
  then show ?case by (simp add: run_fold_def)
next
  case (snoc r log)
  show ?case
  proof (cases "log = []")
    case True
    with snoc.prems show ?thesis by (auto simp: run_fold_Ok initial_state_def)
  next
    case False
    from run_fold_snocD [OF snoc.prems(1) False] obtain t where t: "run_fold log = Ok t" "apply_recorded t r = Ok s"
      by blast
    from t(2) have "c \<in> set (outstanding t) \<or>
        the_event r = EffectClaimed (claim_node c) (claim_effect c) (claim_attempt c) (claim_key c)"
    proof (cases "is_effect_event (the_event r)")
      case False
      then show ?thesis
        using t(2) snoc.prems(2) apply_event_no_effect unfolding apply_recorded_Ok by fastforce
    next
      case True
      then show ?thesis
        using t(2) snoc.prems(2) unfolding apply_recorded_Ok
        by (cases "the_event r") (auto simp: is_effect_event_def resolve_claims_def Let_def split: if_splits)
    qed
    then show ?thesis using snoc.IH [OF t(1)] by auto
  qed
qed

section \<open>A protected effect never breaks its protocol\<close>

definition protected :: "workflow \<Rightarrow> ident \<Rightarrow> ident \<Rightarrow> bool" where
  "protected d n e =
     (case declared_effect d n e of None \<Rightarrow> False | Some x \<Rightarrow> effect_idempotency x = NonIdempotent)"

definition claim_declared :: "workflow \<Rightarrow> run_event \<Rightarrow> bool" where
  "claim_declared d ev = (case ev of EffectClaimed n e a k \<Rightarrow> declared_effect d n e \<noteq> None | _ \<Rightarrow> True)"

definition phase_monitor :: "workflow \<Rightarrow> ident \<Rightarrow> ident \<Rightarrow> effect_phase monitor" where
  "phase_monitor d n e =
     \<lparr>on_event = (\<lambda>ev at ph. if claim_declared d ev \<and> (protected d n e \<longrightarrow> phase_step n e ph ev \<noteq> Broken)
                            then Some (phase_step n e ph ev) else None),
      on_call = (\<lambda>r ph. Some ph), on_refusal = (\<lambda>ph. None), on_other = (\<lambda>ph. ph)\<rparr>"

definition phase_reads :: "workflow \<Rightarrow> ident \<Rightarrow> ident \<Rightarrow> recorded_event list \<Rightarrow> effect_phase \<Rightarrow> bool" where
  "phase_reads d n e log ph =
     (ph = effect_phase_of n e log \<and> (protected d n e \<longrightarrow> ph \<noteq> Broken) \<and> (\<forall>r \<in> set log. claim_declared d (the_event r)))"

lemma phase_monitor_simps [simp]:
  "on_event (phase_monitor d n e) ev at ph =
     (if claim_declared d ev \<and> (protected d n e \<longrightarrow> phase_step n e ph ev \<noteq> Broken) then Some (phase_step n e ph ev) else None)"
  "on_call (phase_monitor d n e) r ph = Some ph" "on_refusal (phase_monitor d n e) ph = None"
  "on_other (phase_monitor d n e) ph = ph"
  by (simp_all add: phase_monitor_def)

lemma claim_declared_no_effect: "\<not> is_effect_event ev \<Longrightarrow> claim_declared d ev"
  by (cases ev) (simp_all add: claim_declared_def is_effect_event_def)

text \<open>Appending an event that is not about effects is always allowed.\<close>

lemma phase_allows_other [simp]:
  assumes "\<not> is_effect_event ev" "protected d n e \<longrightarrow> ph \<noteq> Broken"
  shows "on_event (phase_monitor d n e) ev at ph = Some ph"
  using assms by (simp add: phase_step_no_effect claim_declared_no_effect)

text \<open>The attempt a performance is made under: the recovered one, or a new claim.\<close>

definition attempt_for ::
  "string \<Rightarrow> effect \<Rightarrow> ident \<Rightarrow> u32 \<Rightarrow> effect_attempt option \<Rightarrow> (claim_error, effect_attempt) result" where
  "attempt_for run declared n a rec =
     (case rec of
        Some r \<Rightarrow> Ok r
      | None \<Rightarrow> claim_effect_attempt declared \<lparr>context_run = run, context_node = n, context_attempt = a\<rparr>)"

lemma claim_effect_attempt_id:
  "claim_effect_attempt x ctx = Ok a \<Longrightarrow>
     attempt_node a = context_node ctx \<and> attempt_effect a = effect_id x \<and> attempt_number a = context_attempt ctx"
  by (auto simp: claim_effect_attempt_def)

lemma attempt_for_id:
  assumes "attempt_for run declared n a rec = Ok claim" "effect_id declared = e"
    and "\<And>r. rec = Some r \<Longrightarrow> attempt_node r = n \<and> attempt_effect r = e"
  shows "attempt_node claim = n \<and> attempt_effect claim = e"
  using assms claim_effect_attempt_id [of declared _ claim] by (cases rec) (auto simp: attempt_for_def)

lemma perform_effect_obeys:
  assumes "\<And>declared claim. declared_effect d n e = Some declared \<Longrightarrow> attempt_for run declared n a rec = Ok claim \<Longrightarrow>
             (if bt_contains (running s) n then obeys m (claim_and_perform run n declared claim now) p
              else \<exists>q. on_event m (NodeStarted n) now p = Some q \<and> obeys m (claim_and_perform run n declared claim now) q)"
  shows "obeys m (perform_effect run d s n e a rec now) p"
  using assms unfolding perform_effect_def attempt_for_def [symmetric] by (auto split: option.splits sum.splits)

lemma recovered_id:
  assumes "map_option (\<lambda>claim. recovered claim a) (open_claim s n e) = Some r"
  shows "attempt_node r = n \<and> attempt_effect r = e"
proof -
  from assms obtain claim where c: "find (\<lambda>claim. claim_node claim = n \<and> claim_effect claim = e) (outstanding s) = Some claim"
      "r = recovered claim a" by (auto simp: open_claim_def)
  from find_SomeD [OF c(1)] c(2) show ?thesis by (simp add: recovered_def)
qed

lemma claim_and_perform_phase:
  assumes "attempt_node claim = n'" "attempt_effect claim = e'" "declared_effect d n' e' \<noteq> None"
    and "protected d n e \<longrightarrow> ph \<noteq> Broken" "protected d n e \<Longrightarrow> same_effect n e n' e' \<Longrightarrow> ph = Fresh"
  shows "obeys (phase_monitor d n e) (claim_and_perform run n' declared claim now) ph"
proof -
  have "obeys (phase_monitor d n e) (record_effect n' claim outcome at) (phase_step n e ph (claimed_event claim))" for outcome at
    using assms
    by (cases outcome)
       (auto simp: claimed_event_def finalized_event_def abandoned_event_def claim_declared_def)
  then show ?thesis
    using assms by (auto simp: claim_and_perform_def claimed_event_def claim_declared_def)
qed

lemma phase_perform:
  assumes "protected d n e \<longrightarrow> ph \<noteq> Broken" "protected d n e \<Longrightarrow> same_effect n e n' e' \<Longrightarrow> ph = Fresh"
    and "\<And>r. rec = Some r \<Longrightarrow> attempt_node r = n' \<and> attempt_effect r = e'"
  shows "obeys (phase_monitor d n e) (perform_effect run d s n' e' a rec now) ph"
proof (rule perform_effect_obeys)
  fix declared claim
  assume "declared_effect d n' e' = Some declared" "attempt_for run declared n' a rec = Ok claim"
  then have "obeys (phase_monitor d n e) (claim_and_perform run n' declared claim now) ph"
    using attempt_for_id [OF _ declared_effect_id assms(3)] assms(1,2) by (intro claim_and_perform_phase) auto
  then show "if bt_contains (running s) n' then obeys (phase_monitor d n e) (claim_and_perform run n' declared claim now) ph
      else \<exists>q. on_event (phase_monitor d n e) (NodeStarted n') now ph = Some q \<and>
             obeys (phase_monitor d n e) (claim_and_perform run n' declared claim now) q"
    using assms(1) by (simp add: claim_declared_def)
qed

lemma outstanding_declared:
  assumes "run_fold log = Ok s" "\<forall>r \<in> set log. claim_declared d (the_event r)" "decide_outstanding_effect d s = None"
  shows "outstanding s = []"
proof (rule ccontr)
  assume "outstanding s \<noteq> []"
  then obtain c rest where c: "outstanding s = c # rest" by (cases "outstanding s") auto
  from outstanding_from_log [OF assms(1), of c] c assms(2) have "declared_effect d (claim_node c) (claim_effect c) \<noteq> None"
    by (fastforce simp: claim_declared_def)
  with assms(3) c show False by (simp add: decide_outstanding_effect_None)
qed

lemma carry_out_phase:
  assumes reads: "phase_reads d n e log ph" and fold: "run_fold log = Ok s" and x: "decide d s now = x"
  shows "obeys (phase_monitor d n e) (carry_out h worker run d s now x) ph"
proof -
  from reads have ph: "ph = effect_phase_of n e log" "protected d n e \<longrightarrow> ph \<noteq> Broken"
      "\<forall>r \<in> set log. claim_declared d (the_event r)" by (auto simp: phase_reads_def)
  have agrees: "phase_agrees n e s ph" if "protected d n e" using that ph phase_agrees_fold [OF fold] by auto
  show ?thesis
  proof (cases x)
    case (PerformEffect n' e' a)
    have "ph = Fresh" if "protected d n e" "same_effect n e n' e'"
      using decide_perform [OF x [unfolded PerformEffect]] that agrees ph(2) outstanding_declared [OF fold ph(3)]
      by (cases ph) (auto simp: phase_agrees_def same_effect_def)
    then have "obeys (phase_monitor d n e) (perform_effect run d s n' e' a None now) ph"
      using ph(2) by (intro phase_perform) auto
    then show ?thesis using PerformEffect by simp
  next
    case (RetryClaimedEffect n' e' a)
    have "\<not> (protected d n e \<and> same_effect n e n' e')"
      using decide_retry [OF x [unfolded RetryClaimedEffect]] by (auto simp: protected_def same_effect_def)
    then have "obeys (phase_monitor d n e) (perform_effect run d s n' e' a
        (map_option (\<lambda>claim. recovered claim a) (open_claim s n' e')) now) ph"
      using ph(2) recovered_id by (intro phase_perform) blast+
    then show ?thesis using RetryClaimedEffect by simp
  next
    case (HaltUncertainEffect n' e')
    have "ph = Claimed" if "protected d n e" "same_effect n e n' e'"
      using decide_halt [OF x [unfolded HaltUncertainEffect]] that agrees by (auto simp: phase_agrees_def same_effect_def)
    then show ?thesis using HaltUncertainEffect ph(2) by (auto simp: claim_declared_def)
  next
    case (FinishIteration r i)
    then show ?thesis
      using ph(2) by (auto simp: finish_iteration_def script_of_def iteration_finished_event_def claim_declared_def
          split: option.splits region_kind.splits sum.splits)
  next
    case (Compensate c)
    then show ?thesis
      using ph(2) by (auto simp: compensate_effect_def compensated_event_def claim_declared_def
          split: option.splits effect_outcome.splits)
  next
    case (StartNode n')
    have "obeys (phase_monitor d n e) (append_event (node_event n' outcome) at) ph" for outcome at
      using ph(2) by (cases outcome) (auto simp: claim_declared_def)
    then show ?thesis using StartNode ph(2) by (auto simp: run_node_def claim_declared_def split: option.splits)
  qed (use ph(2) in \<open>auto simp: start_iteration_def iteration_started_event_def timed_out_event_def cancelled_event_def
      claim_declared_def Let_def split: option.splits\<close>)
qed

interpretation phases: holder_monitor h d key "phase_monitor d n e" "phase_reads d n e" for h d key n e
proof unfold_locales
  show "\<exists>p. phase_reads d n e [\<lparr>position = 0, event_epoch = 0, event_at = at, the_event = Admitted digest' mode'\<rparr>] p"
    for at digest' mode' by (simp add: phase_reads_def effect_phase_of_def claim_declared_def)
  show "phase_reads d n e log p \<Longrightarrow> on_event (phase_monitor d n e) ev at p = Some q \<Longrightarrow>
      phase_reads d n e (log @ [\<lparr>position = of_nat (length log), event_epoch = ep, event_at = at, the_event = ev\<rparr>]) q"
    for log p ev at q ep by (auto simp: phase_reads_def effect_phase_of_snoc split: if_splits)
  show "phase_reads d n e log p \<Longrightarrow> run_fold log = Ok s \<Longrightarrow>
      obeys (phase_monitor d n e) (advance_turn h worker (run_name key) d s now pending) p"
    for log p s worker now pending
    using carry_out_phase [of d n e log p s now]
    by (intro advance_turn_obeys) (auto simp: claim_declared_def phase_reads_def)
qed simp_all

section \<open>Calls follow claims\<close>

definition claims_effect :: "ident \<Rightarrow> ident \<Rightarrow> run_event \<Rightarrow> bool" where
  "claims_effect n e ev = (case ev of EffectClaimed n' e' a k \<Rightarrow> same_effect n e n' e' | _ \<Rightarrow> False)"

definition abandons_effect :: "ident \<Rightarrow> ident \<Rightarrow> run_event \<Rightarrow> bool" where
  "abandons_effect n e ev = (case ev of EffectAbandoned n' e' a r \<Rightarrow> same_effect n e n' e' | _ \<Rightarrow> False)"

definition calls_effect :: "ident \<Rightarrow> ident \<Rightarrow> effect_request \<Rightarrow> bool" where
  "calls_effect n e c = same_effect n e (effect_request_node c) (effect_id (effect_request_effect c))"

definition count_events :: "(run_event \<Rightarrow> bool) \<Rightarrow> recorded_event list \<Rightarrow> nat" where
  "count_events P log = length (filter (\<lambda>r. P (the_event r)) log)"

lemma phase_counts:
  "effect_phase_of n e log \<noteq> Broken \<Longrightarrow>
     count_events (claims_effect n e) log =
       count_events (abandons_effect n e) log + (if effect_phase_of n e log = Fresh then 0 else 1)"
proof (induction log rule: rev_induct)
  case Nil
  then show ?case by (simp add: count_events_def effect_phase_of_def)
next
  case (snoc r log)
  then have "effect_phase_of n e log \<noteq> Broken" by (auto simp: effect_phase_of_snoc phase_step_Broken)
  with snoc show ?case
    by (cases "the_event r")
       (auto simp: count_events_def effect_phase_of_snoc claims_effect_def abandons_effect_def split: if_splits)
qed

fun claimed_by :: "run_event \<Rightarrow> (ident \<times> ident) option" where
  "claimed_by (EffectClaimed n e a k) = Some (n, e)"
| "claimed_by ev = None"

definition guard_monitor :: "(ident \<times> ident) option monitor" where
  "guard_monitor =
     \<lparr>on_event = (\<lambda>ev at p. Some (claimed_by ev)),
      on_call = (\<lambda>c p. if p = Some (effect_request_node c, effect_id (effect_request_effect c)) then Some None else None),
      on_refusal = (\<lambda>p. Some None), on_other = (\<lambda>p. None)\<rparr>"

lemma guard_monitor_simps [simp]:
  "on_event guard_monitor ev at p = Some (claimed_by ev)"
  "on_call guard_monitor c p = (if p = Some (effect_request_node c, effect_id (effect_request_effect c)) then Some None else None)"
  "on_refusal guard_monitor p = Some None" "on_other guard_monitor p = None"
  by (simp_all add: guard_monitor_def)

definition guard_reads ::
  "ident \<Rightarrow> ident \<Rightarrow> epoch \<Rightarrow> recorded_event list \<Rightarrow> (epoch \<times> effect_request) list \<Rightarrow> (ident \<times> ident) option \<Rightarrow> bool" where
  "guard_reads n e ep log calls p =
     (length (filter (\<lambda>call. fst call = ep \<and> calls_effect n e (snd call)) calls) + (if p = Some (n, e) then 1 else 0) \<le>
      length (filter (\<lambda>r. event_epoch r = ep \<and> claims_effect n e (the_event r)) log))"

lemma guard_perform:
  assumes "\<And>r. rec = Some r \<Longrightarrow> attempt_node r = n \<and> attempt_effect r = e"
  shows "obeys guard_monitor (perform_effect run d s n e a rec now) p"
proof (rule perform_effect_obeys)
  fix declared claim
  assume "declared_effect d n e = Some declared" "attempt_for run declared n a rec = Ok claim"
  then have id: "attempt_node claim = n" "attempt_effect claim = e" "effect_id declared = e"
    using attempt_for_id [OF _ declared_effect_id assms] declared_effect_id by auto
  have rec: "obeys guard_monitor (record_effect n claim outcome at) None" for outcome at by (cases outcome) auto
  have "obeys guard_monitor (claim_and_perform run n declared claim now) q" for q
    using rec id by (simp add: claim_and_perform_def claimed_event_def)
  then show "if bt_contains (running s) n then obeys guard_monitor (claim_and_perform run n declared claim now) p
      else \<exists>q. on_event guard_monitor (NodeStarted n) now p = Some q \<and>
             obeys guard_monitor (claim_and_perform run n declared claim now) q" by simp
qed

lemma carry_out_guard: "obeys guard_monitor (carry_out h worker run d s now x) None"
proof (cases x)
  case (RetryClaimedEffect n e a)
  have "obeys guard_monitor (perform_effect run d s n e a
      (map_option (\<lambda>claim. recovered claim a) (open_claim s n e)) now) None"
    by (rule guard_perform) (rule recovered_id)
  then show ?thesis using RetryClaimedEffect by simp
next
  case (PerformEffect n e a)
  then show ?thesis using guard_perform [of None] by simp
qed (auto simp: run_node_def start_iteration_def finish_iteration_def script_of_def compensate_effect_def Let_def
     split: option.splits region_kind.splits sum.splits effect_outcome.splits)

interpretation guards: session_monitor h d key guard_monitor "guard_reads n e" None for h d key n e
proof unfold_locales
  show "guard_reads n e ep [\<lparr>position = 0, event_epoch = 0, event_at = at, the_event = Admitted digest' mode'\<rparr>] [] None"
    for ep at digest' mode' by (simp add: guard_reads_def)
  show "guard_reads n e ep (log @ [r]) calls q \<and>
      (ep' \<noteq> ep \<longrightarrow> guard_reads n e ep' log calls p' \<longrightarrow> guard_reads n e ep' (log @ [r]) calls p')"
    if "guard_reads n e ep log calls p" "on_event guard_monitor ev at p = Some q"
      "r = \<lparr>position = of_nat (length log), event_epoch = ep, event_at = at, the_event = ev\<rparr>"
    for ep log calls p ev at q r ep' p'
    using that by (cases ev) (auto simp: guard_reads_def claims_effect_def same_effect_def split: if_splits)
  show "guard_reads n e ep log (calls @ [(ep, c)]) q \<and>
      (ep' \<noteq> ep \<longrightarrow> guard_reads n e ep' log calls p' \<longrightarrow> guard_reads n e ep' log (calls @ [(ep, c)]) p')"
    if "guard_reads n e ep log calls p" "on_call guard_monitor c p = Some q" for ep log calls p c q ep' p'
    using that by (auto simp: guard_reads_def calls_effect_def same_effect_def split: if_splits)
  show "obeys guard_monitor (advance_turn h worker (run_name key) d s now pending) None" for s worker now pending
    by (rule advance_turn_obeys) (auto simp: carry_out_guard)
qed (auto simp: guard_reads_def split: if_splits)

text \<open>Counting by epoch gives the total.\<close>

lemma count_by_key: "count (mset (map f (filter P xs))) k = length (filter (\<lambda>x. f x = k \<and> P x) xs)"
  by (induction xs) auto

lemma filter_length_by_key:
  assumes "\<And>k. length (filter (\<lambda>x. f x = k \<and> P x) xs) \<le> length (filter (\<lambda>y. g y = k \<and> Q y) ys)"
  shows "length (filter P xs) \<le> length (filter Q ys)"
proof -
  have "mset (map f (filter P xs)) \<subseteq># mset (map g (filter Q ys))"
    using assms by (intro mset_subset_eqI) (simp only: count_by_key)
  then have "size (mset (map f (filter P xs))) \<le> size (mset (map g (filter Q ys)))" by (rule size_mset_mono)
  then show ?thesis by (simp only: size_mset length_map)
qed

text \<open>C1. At most once. However many workers take up a run, whenever they crash and whichever of
  them has lost its lease, an effect declared not idempotent is performed at most once more
  than it was abandoned, that is, than the far side said for certain it did not happen: the
  executor is called no more often than a claim was accepted, and a claim is accepted
  again only after the one before it was abandoned.\<close>

theorem at_most_once:
  assumes "reachable_sys h d key S" "declared_effect d n e = Some x" "effect_idempotency x = NonIdempotent"
    and "abs_run (sys_store S) key = Some (cur, log)"
  shows "length (filter (\<lambda>call. calls_effect n e (snd call)) (performed S)) \<le> count_events (claims_effect n e) log \<and>
         count_events (claims_effect n e) log \<le> count_events (abandons_effect n e) log + 1 \<and>
         effect_phase_of n e log \<noteq> Broken"
proof -
  have "protected d n e" using assms(2,3) by (simp add: protected_def)
  then have phase: "effect_phase_of n e log \<noteq> Broken"
    using phases.reachable_reads [OF assms(1,4)] by (auto simp: phase_reads_def)
  have "length (filter (\<lambda>call. calls_effect n e (snd call)) (performed S)) \<le>
      length (filter (\<lambda>r. claims_effect n e (the_event r)) log)"
  proof (rule filter_length_by_key [of fst _ _ event_epoch])
    fix ep
    show "length (filter (\<lambda>call. fst call = ep \<and> calls_effect n e (snd call)) (performed S)) \<le>
        length (filter (\<lambda>r. event_epoch r = ep \<and> claims_effect n e (the_event r)) log)"
      using guards.reachable_reads [OF assms(1,4), of n e ep] by (simp add: guard_reads_def)
  qed
  then show ?thesis using phase phase_counts [OF phase] by (simp add: count_events_def)
qed

section \<open>One key per effect\<close>

text \<open>The effect and the key of the first attempt at it in a run.\<close>

definition first_attempt :: "string \<Rightarrow> workflow \<Rightarrow> ident \<Rightarrow> ident \<Rightarrow> (effect \<times> string option) option" where
  "first_attempt run d n e =
     (case declared_effect d n e of
        None \<Rightarrow> None
      | Some x \<Rightarrow>
          map_option (\<lambda>a. (x, attempt_key a))
            (ok (claim_effect_attempt x \<lparr>context_run = run, context_node = n, context_attempt = 0\<rparr>)))"

definition claim_key_ok :: "string \<Rightarrow> workflow \<Rightarrow> ident \<Rightarrow> ident \<Rightarrow> run_event \<Rightarrow> bool" where
  "claim_key_ok run d n e ev =
     (case ev of
        EffectClaimed n' e' a k \<Rightarrow> same_effect n e n' e' \<longrightarrow> map_option snd (first_attempt run d n e) = Some k
      | _ \<Rightarrow> True)"

definition call_key_ok :: "string \<Rightarrow> workflow \<Rightarrow> ident \<Rightarrow> ident \<Rightarrow> effect_request \<Rightarrow> bool" where
  "call_key_ok run d n e c =
     (calls_effect n e c \<longrightarrow> first_attempt run d n e = Some (effect_request_effect c, effect_request_key c))"

definition key_monitor :: "string \<Rightarrow> workflow \<Rightarrow> ident \<Rightarrow> ident \<Rightarrow> unit monitor" where
  "key_monitor run d n e =
     \<lparr>on_event = (\<lambda>ev at p. if claim_key_ok run d n e ev then Some () else None),
      on_call = (\<lambda>c p. if call_key_ok run d n e c then Some () else None),
      on_refusal = (\<lambda>p. Some ()), on_other = (\<lambda>p. ())\<rparr>"

lemma key_monitor_simps [simp]:
  "on_event (key_monitor run d n e) ev at p = (if claim_key_ok run d n e ev then Some () else None)"
  "on_call (key_monitor run d n e) c p = (if call_key_ok run d n e c then Some () else None)"
  "on_refusal (key_monitor run d n e) p = Some ()" "on_other (key_monitor run d n e) p = ()"
  by (simp_all add: key_monitor_def)

definition key_reads ::
  "string \<Rightarrow> workflow \<Rightarrow> ident \<Rightarrow> ident \<Rightarrow> epoch \<Rightarrow> recorded_event list \<Rightarrow> (epoch \<times> effect_request) list \<Rightarrow> unit \<Rightarrow> bool" where
  "key_reads run d n e ep log calls p =
     ((\<forall>r \<in> set log. claim_key_ok run d n e (the_event r)) \<and> (\<forall>c \<in> set calls. call_key_ok run d n e (snd c)))"

lemma key_perform:
  assumes "\<And>r. rec = Some r \<Longrightarrow> attempt_node r = n' \<and> attempt_effect r = e' \<and>
             (same_effect n e n' e' \<longrightarrow> map_option snd (first_attempt run d n e) = Some (attempt_key r))"
    and "rec = None \<Longrightarrow> a = 0"
  shows "obeys (key_monitor run d n e) (perform_effect run d s n' e' a rec now) p"
proof (rule perform_effect_obeys)
  fix declared claim
  assume dec: "declared_effect d n' e' = Some declared" and att: "attempt_for run declared n' a rec = Ok claim"
  have id: "attempt_node claim = n'" "attempt_effect claim = e'" "effect_id declared = e'"
    using attempt_for_id [OF att declared_effect_id [OF dec]] assms(1) declared_effect_id [OF dec] by auto
  have key: "first_attempt run d n e = Some (declared, attempt_key claim)" if "same_effect n e n' e'"
    using that assms att dec
    by (cases rec) (auto simp: attempt_for_def first_attempt_def same_effect_def split: option.splits)
  have rec: "obeys (key_monitor run d n e) (record_effect n' claim outcome at) q" for outcome at q
    by (cases outcome) (auto simp: claim_key_ok_def finalized_event_def abandoned_event_def)
  have "obeys (key_monitor run d n e) (claim_and_perform run n' declared claim now) q" for q
    using rec id key
    by (auto simp: claim_and_perform_def claimed_event_def claim_key_ok_def call_key_ok_def calls_effect_def)
  then show "if bt_contains (running s) n' then obeys (key_monitor run d n e) (claim_and_perform run n' declared claim now) p
      else \<exists>q. on_event (key_monitor run d n e) (NodeStarted n') now p = Some q \<and>
             obeys (key_monitor run d n e) (claim_and_perform run n' declared claim now) q"
    by (simp add: claim_key_ok_def)
qed

lemma carry_out_key:
  assumes "\<forall>r \<in> set log. claim_key_ok run d n e (the_event r)" "run_fold log = Ok s" "decide d s now = x"
  shows "obeys (key_monitor run d n e) (carry_out h worker run d s now x) p"
proof (cases x)
  case (RetryClaimedEffect n' e' a)
  from decide_retry [OF assms(3) [unfolded RetryClaimedEffect]] obtain c rest where c: "outstanding s = c # rest"
      "claim_node c = n'" "claim_effect c = e'" by blast
  have "obeys (key_monitor run d n e) (perform_effect run d s n' e' a (Some (recovered c a)) now) p"
  proof (rule key_perform)
    fix r assume "Some (recovered c a) = Some r"
    then have r: "r = recovered c a" by simp
    from outstanding_from_log [OF assms(2), of c] c(1) obtain ev where "ev \<in> set log"
        "the_event ev = EffectClaimed (claim_node c) (claim_effect c) (claim_attempt c) (claim_key c)" by auto
    with assms(1) c have "same_effect n e n' e' \<longrightarrow> map_option snd (first_attempt run d n e) = Some (claim_key c)"
      by (fastforce simp: claim_key_ok_def)
    then show "attempt_node r = n' \<and> attempt_effect r = e' \<and>
        (same_effect n e n' e' \<longrightarrow> map_option snd (first_attempt run d n e) = Some (attempt_key r))"
      using c r by (simp add: recovered_def)
  qed simp
  then show ?thesis using RetryClaimedEffect c by (simp add: open_claim_def)
next
  case (PerformEffect n' e' a)
  have "a = 0" using decide_perform [OF assms(3) [unfolded PerformEffect]] by simp
  then have "obeys (key_monitor run d n e) (perform_effect run d s n' e' a None now) p" by (intro key_perform) auto
  then show ?thesis using PerformEffect by simp
next
  case (StartNode n')
  have "obeys (key_monitor run d n e) (append_event (node_event n' outcome) at) q" for outcome at q
    by (cases outcome) (auto simp: claim_key_ok_def)
  then show ?thesis using StartNode by (auto simp: run_node_def claim_key_ok_def split: option.splits)
qed (auto simp: start_iteration_def finish_iteration_def script_of_def compensate_effect_def Let_def claim_key_ok_def
     iteration_started_event_def iteration_finished_event_def compensated_event_def cancelled_event_def timed_out_event_def
     split: option.splits region_kind.splits sum.splits effect_outcome.splits)

interpretation keys: session_monitor h d key "key_monitor (run_name key) d n e" "key_reads (run_name key) d n e" "()" for h d key n e
proof unfold_locales
  show "obeys (key_monitor (run_name key) d n e) (advance_turn h worker (run_name key) d s now pending) ()"
    if "key_reads (run_name key) d n e ep log calls ()" "run_fold log = Ok s" for ep log calls s worker now pending
    using that carry_out_key [of log "run_name key" d n e s now]
    by (intro advance_turn_obeys) (auto simp: key_reads_def claim_key_ok_def)
qed (auto simp: key_reads_def claim_key_ok_def split: if_splits)

text \<open>C2. One key per effect. Whatever crashes, retries and lost leases happen, every call that
  performs one effect of one run is for the declared effect and presents the key its first
  attempt presented, so the far side can recognise every repetition of it.\<close>

theorem one_key_per_effect:
  assumes "reachable_sys h d key S" "declared_effect d n e = Some x"
    and "claim_effect_attempt x \<lparr>context_run = run_name key, context_node = n, context_attempt = 0\<rparr> = Ok a"
    and "(ep, c) \<in> set (performed S)" "effect_request_node c = n" "effect_id (effect_request_effect c) = e"
  shows "effect_request_effect c = x \<and> effect_request_key c = attempt_key a"
proof -
  from reachable_sys_wf [OF assms(1)] obtain cur log where "abs_run (sys_store S) key = Some (cur, log)" by blast
  from keys.reachable_reads [OF assms(1) this] assms(4) have "call_key_ok (run_name key) d n e c"
    by (fastforce simp: key_reads_def)
  then show ?thesis
    using assms(2,3,5,6) by (auto simp: call_key_ok_def calls_effect_def same_effect_def first_attempt_def)
qed

section \<open>A run in which an effect is performed\<close>

text \<open>The store after a lease and some appends under it, and the path of the session that made
  them: start the run, open the effect node, claim, call.\<close>

definition sample_stored :: "run_event list \<Rightarrow> (store_error, ir_store) result" where
  "sample_stored evs = and_then sample_leased (\<lambda>(r, st). append_all sample_key 1 st evs)"

lemma sample_stored_step:
  assumes "sample_stored (evs @ [ev]) = Ok st'"
  obtains st r where "sample_stored evs = Ok st" "append_ir_run_event st sample_key 1 ev 7 = Ok (r, st')"
proof -
  from assms obtain r0 st0 where leased: "sample_leased = Ok (r0, st0)"
      and all: "append_all sample_key 1 st0 (evs @ [ev]) = Ok st'"
    by (auto simp: sample_stored_def)
  from all obtain st where st: "append_all sample_key 1 st0 evs = Ok st"
      and last: "append_all sample_key 1 st [ev] = Ok st'"
    unfolding append_all_def try_fold_append by auto
  from last obtain r where "append_ir_run_event st sample_key 1 ev 7 = Ok (r, st')"
    unfolding append_all_def by (cases "append_ir_run_event st sample_key 1 ev 7") auto
  moreover have "sample_stored evs = Ok st" unfolding sample_stored_def leased using st by simp
  ultimately show ?thesis using that by blast
qed

definition sample_claim :: effect_attempt where
  "sample_claim = \<lparr>attempt_node = Identifier ''publish'', attempt_effect = Identifier ''post'', attempt_number = 0,
                  attempt_key = None\<rparr>"

abbreviation sample_events :: "run_event list" where
  "sample_events \<equiv> [Started (Identifier ''w''), NodeStarted (Identifier ''publish''), claimed_event sample_claim]"

definition sample_read :: "run_event list \<Rightarrow> (run_state \<Rightarrow> bool) \<Rightarrow> bool" where
  "sample_read evs P =
     (case sample_stored evs of
        Inl e \<Rightarrow> False
      | Inr st \<Rightarrow>
          pending_ir_run_signals st sample_key = [] \<and>
          (case load_ir_run_events st sample_key of
             Inl e \<Rightarrow> False
           | Inr log \<Rightarrow> (case run_fold log of Inl e \<Rightarrow> False | Inr s \<Rightarrow> P s)))"

lemma sample_readE:
  assumes "sample_read evs P" "sample_stored evs = Ok st"
  obtains log s where "load_ir_run_events st sample_key = Ok log" "run_fold log = Ok s" "P s"
    "pending_ir_run_signals st sample_key = []"
  using assms(1) that unfolding sample_read_def assms(2) by (auto split: sum.splits)

lemma sample_reads:
  "is_ok (sample_stored sample_events)"
  "sample_read [] (\<lambda>s. decide sample_workflow s 7 = Start)"
  "sample_read [Started (Identifier ''w'')]
     (\<lambda>s. decide sample_workflow s 7 = PerformEffect (Identifier ''publish'') (Identifier ''post'') 0 \<and> running s = [])"
  by code_simp+

lemma sample_system_reachable:
  assumes "sample_stored [] = Ok st"
  shows "reachable_sys h d sample_key \<lparr>sys_store = st, sessions = (\<lambda>ep. Gone)(1 := Holding), performed = []\<rparr>"
proof -
  obtain r st0 r' st' where l: "sample_created = Ok (r, st0)" "lease_next_ir_run st0 [] ''w'' 60 None 1 1 = Ok (Some r', st')"
      "(run_tenant r', run_project r', run_id r') = sample_key" "run_epoch r' = 1" "reachable_store st0"
    by (rule sample_leased_from)
  let ?S = "\<lparr>sys_store = st0, sessions = (\<lambda>ep. Gone), performed = []\<rparr>"
  have "reachable_sys h d sample_key ?S"
    by (rule reachable_sys.created [OF reachable_store.empty l(1) [unfolded sample_created_def]])
  then have "reachable_sys h d sample_key (?S \<lparr>sys_store := st', sessions := (sessions ?S)(run_epoch r' := Holding)\<rparr>)"
    by (rule reachable_sys.step) (rule sys_step.lease [of ?S], use l in simp_all)
  moreover have leased: "sample_leased = Ok (Some r', st')" unfolding sample_leased_def l(1) using l(2) by simp
  moreover have "st' = st" using assms unfolding sample_stored_def leased by (simp add: append_all_def)
  ultimately show ?thesis using l(4) by simp
qed

lemma emit_reachable:
  assumes "reachable_sys h d key S" "sessions S ep = Acting (Emit ev at k)"
    and "append_ir_run_event (sys_store S) key ep ev at = Ok (r, st')"
  shows "reachable_sys h d key (S \<lparr>sys_store := st', sessions := (sessions S)(ep := Acting (k (Some (position r))))\<rparr>)"
  using reachable_sys.step [OF assms(1) sys_step.emit [OF assms(2)]] assms(3) by (simp add: append_recorded_Ok)

lemma turn_reachable:
  assumes "reachable_sys h d key S" "sessions S ep = Holding" "load_ir_run_events (sys_store S) key = Ok log"
    and "run_fold log = Ok s" "pending_ir_run_signals (sys_store S) key = pending"
  shows "reachable_sys h d key (S \<lparr>sessions := (sessions S)(ep :=
           Acting (advance_turn h worker (run_name key) d s now pending))\<rparr>)"
  using reachable_sys.step [OF assms(1) sys_step.turn [OF assms(2-4)]] assms(5) by blast

lemma effect_reachable:
  assumes "reachable_sys h d key S" "sessions S ep = Acting (CallEffect c k)"
  shows "reachable_sys h d key (S \<lparr>sessions := (sessions S)(ep := Acting (k answer)), performed := performed S @ [(ep, c)]\<rparr>)"
  using reachable_sys.step [OF assms(1) sys_step.effect [OF assms(2)]] .

lemma sample_performed:
  obtains S c where "reachable_sys h sample_workflow sample_key S" "performed S = [(1, c)]"
    "effect_request_node c = Identifier ''publish''" "effect_request_key c = None"
    "effect_request_effect c = hd (node_effects sample_publisher)"
    "abs_run (sys_store S) sample_key = Some (1, map decode_row (event_rows (sys_store S) sample_key))"
proof -
  let ?started = "Started (Identifier ''w'')" and ?open = "NodeStarted (Identifier ''publish'')"
  obtain st3 where "sample_stored sample_events = Ok st3" using sample_reads(1) by (rule is_ok_obtain)
  then obtain st2 r2 where st2: "sample_stored [?started, ?open] = Ok st2"
      and claim: "append_ir_run_event st2 sample_key 1 (claimed_event sample_claim) 7 = Ok (r2, st3)"
    using sample_stored_step [of "[?started, ?open]" "claimed_event sample_claim" st3] by auto
  from st2 obtain st1 r1 where st1: "sample_stored [?started] = Ok st1"
      and opened: "append_ir_run_event st1 sample_key 1 ?open 7 = Ok (r1, st2)"
    using sample_stored_step [of "[?started]" ?open st2] by auto
  from st1 obtain st0 r0 where st0: "sample_stored [] = Ok st0"
      and started: "append_ir_run_event st0 sample_key 1 ?started 7 = Ok (r0, st1)"
    using sample_stored_step [of "[]" ?started st1] by auto
  let ?turn = "\<lambda>s. advance_turn h (Identifier ''w'') (run_name sample_key) sample_workflow s 7 []"
  let ?sys = "\<lambda>st session calls. \<lparr>sys_store = st, sessions = (\<lambda>ep. Gone)(1 := session), performed = calls\<rparr>"
  have turn: "reachable_sys h sample_workflow sample_key (?sys st (Acting (?turn s)) [])"
    if "reachable_sys h sample_workflow sample_key (?sys st Holding [])" "load_ir_run_events st sample_key = Ok log"
      "run_fold log = Ok s" "pending_ir_run_signals st sample_key = []" for st log s
    using turn_reachable [OF that(1), of 1 log s "[]" "Identifier ''w''" 7] that(2-4) by simp
  have emit: "reachable_sys h sample_workflow sample_key (?sys st' (Acting (k (Some (position r)))) [])"
    if "reachable_sys h sample_workflow sample_key (?sys st (Acting (Emit ev at k)) [])"
      "append_ir_run_event st sample_key 1 ev at = Ok (r, st')" for st ev at k r st'
    using emit_reachable [OF that(1), of 1] that(2) by simp
  obtain log0 s0 where read0: "load_ir_run_events st0 sample_key = Ok log0" "run_fold log0 = Ok s0"
      "decide sample_workflow s0 7 = Start" "pending_ir_run_signals st0 sample_key = []"
    using sample_readE [OF sample_reads(2) st0] by blast
  have "?turn s0 = Emit ?started 7 (\<lambda>p. Return (if p \<noteq> None then Beat else Finish LeaseLost))"
    using read0(3) by (simp add: advance_turn_def append_event_def)
  with turn [OF sample_system_reachable [OF st0] read0(1,2,4)] emit [OF _ started]
  have "reachable_sys h sample_workflow sample_key (?sys st1 (Acting (Return Beat)) [])" by fastforce
  from reachable_sys.step [OF this sys_step.continue [of _ 1]]
  have holding: "reachable_sys h sample_workflow sample_key (?sys st1 Holding [])" by simp
  obtain log1 s1 where read1: "load_ir_run_events st1 sample_key = Ok log1" "run_fold log1 = Ok s1"
      "decide sample_workflow s1 7 = PerformEffect (Identifier ''publish'') (Identifier ''post'') 0" "running s1 = []"
      "pending_ir_run_signals st1 sample_key = []"
    using sample_readE [OF sample_reads(3) st1] by blast
  define c where "c = \<lparr>effect_run = run_name sample_key, effect_request_node = Identifier ''publish'',
      effect_request_effect = hd (node_effects sample_publisher), effect_request_attempt = 0, effect_request_key = None\<rparr>"
  let ?x = "hd (node_effects sample_publisher)" and ?G = "\<lambda>owned. Return (if owned then Beat else Finish LeaseLost)"
  have dec: "declared_effect sample_workflow (Identifier ''publish'') (Identifier ''post'') = Some ?x"
    by (simp add: declared_effect_def sample_workflow_def graph_node_def sample_publisher_def)
  have att: "claim_effect_attempt ?x \<lparr>context_run = run_name sample_key, context_node = Identifier ''publish'',
      context_attempt = 0\<rparr> = Ok sample_claim"
    by (simp add: claim_effect_attempt_def sample_publisher_def sample_claim_def)
  have "?turn s1 = Emit ?open 7 (\<lambda>p. script_bind (if p = None then Return False
      else claim_and_perform (run_name sample_key) (Identifier ''publish'') ?x sample_claim 7) ?G)"
    using read1(3,4) by (simp add: advance_turn_def perform_effect_def dec att append_then_def bt_contains_def)
  with turn [OF holding read1(1,2,5)] emit [OF _ opened]
  have "reachable_sys h sample_workflow sample_key (?sys st2 (Acting (script_bind
      (claim_and_perform (run_name sample_key) (Identifier ''publish'') ?x sample_claim 7) ?G)) [])" by fastforce
  moreover have "script_bind (claim_and_perform (run_name sample_key) (Identifier ''publish'') ?x sample_claim 7) ?G =
      Emit (claimed_event sample_claim) 7 (\<lambda>p. script_bind (if p = None then Return False
        else CallEffect c (\<lambda>outcome. ReadClock (record_effect (Identifier ''publish'') sample_claim outcome))) ?G)"
  proof -
    have "attempt_number sample_claim = 0" "attempt_key sample_claim = None" by (simp_all add: sample_claim_def)
    then show ?thesis by (simp only: claim_and_perform_def append_then_def c_def script_bind.simps)
  qed
  ultimately have "reachable_sys h sample_workflow sample_key (?sys st3 (Acting (CallEffect c (\<lambda>outcome.
      script_bind (ReadClock (record_effect (Identifier ''publish'') sample_claim outcome)) ?G))) [])"
    using emit [OF _ claim] by fastforce
  from effect_reachable [OF this, of 1 c _ "EffectUncertainWith ''late''"]
  have final: "reachable_sys h sample_workflow sample_key (?sys st3 (Acting (ReadClock (\<lambda>at. Return Beat))) [(1, c)])"
    by simp
  have wf: "store_wf st2"
    using reachable_sys_wf [OF \<open>reachable_sys h sample_workflow sample_key (?sys st2 (Acting (script_bind
      (claim_and_perform (run_name sample_key) (Identifier ''publish'') ?x sample_claim 7) ?G)) [])\<close>] by simp
  have "\<exists>log. abs_run st3 sample_key = Some (1, log)" using irs.append_extends [OF wf claim] by blast
  then have "abs_run st3 sample_key = Some (1, map decode_row (event_rows st3 sample_key))"
    by (auto simp: abs_run_def stored_log_def)
  with that [OF final] show ?thesis by (simp add: c_def)
qed

theorem at_most_once_witness:
  "\<exists>S log. reachable_sys (\<lambda>outs. Digest []) sample_workflow sample_key S \<and> length (performed S) = 1 \<and>
     abs_run (sys_store S) sample_key = Some (1, log) \<and>
     1 \<le> count_events (claims_effect (Identifier ''publish'') (Identifier ''post'')) log"
proof -
  obtain S c where S: "reachable_sys (\<lambda>outs. Digest []) sample_workflow sample_key S" "performed S = [(1, c)]"
      "effect_request_node c = Identifier ''publish''" "effect_request_effect c = hd (node_effects sample_publisher)"
      "abs_run (sys_store S) sample_key = Some (1, map decode_row (event_rows (sys_store S) sample_key))"
    by (rule sample_performed)
  have x: "declared_effect sample_workflow (Identifier ''publish'') (Identifier ''post'') =
      Some (hd (node_effects sample_publisher))" "effect_idempotency (hd (node_effects sample_publisher)) = NonIdempotent"
    "effect_id (hd (node_effects sample_publisher)) = Identifier ''post''"
    by (simp_all add: declared_effect_def sample_workflow_def graph_node_def sample_publisher_def)
  from at_most_once [OF S(1) x(1,2) S(5)] S show ?thesis
    by (auto simp: calls_effect_def same_effect_def x(3))
qed

theorem one_key_per_effect_witness:
  "\<exists>S ep c. reachable_sys (\<lambda>outs. Digest []) sample_workflow sample_key S \<and> (ep, c) \<in> set (performed S) \<and>
     effect_request_key c = None \<and> effect_request_effect c = hd (node_effects sample_publisher)"
proof -
  obtain S c where S: "reachable_sys (\<lambda>outs. Digest []) sample_workflow sample_key S" "performed S = [(1, c)]"
      "effect_request_node c = Identifier ''publish''" "effect_request_effect c = hd (node_effects sample_publisher)"
    by (rule sample_performed)
  have x: "declared_effect sample_workflow (Identifier ''publish'') (Identifier ''post'') =
      Some (hd (node_effects sample_publisher))" "effect_id (hd (node_effects sample_publisher)) = Identifier ''post''"
    "claim_effect_attempt (hd (node_effects sample_publisher)) \<lparr>context_run = run_name sample_key,
      context_node = Identifier ''publish'', context_attempt = 0\<rparr> = Ok sample_claim"
    by (simp_all add: declared_effect_def sample_workflow_def graph_node_def sample_publisher_def
        claim_effect_attempt_def sample_claim_def)
  from one_key_per_effect [OF S(1) x(1,3), of 1 c] S x(2) show ?thesis by (auto simp: sample_claim_def)
qed

end
