(* ===== verification/Certificates.thy ===== *)
theory Certificates
  imports Run_Log
begin

text \<open>
  Structural admission (\<open>crates/ir/src/admission.rs\<close>), sealed certificates
  (\<open>correctness/certificate.rs\<close>, with \<open>under_mode\<close> of \<open>assurance.rs\<close>), coverage of a contract
  (\<open>coverage.rs\<close>), the admission of a verification record (\<open>trust.rs\<close>), and the assembly of a
  certificate from a run (\<open>crates/runtime/src/certify.rs\<close>, \<open>crates/kernel/src/workflow.rs\<close>).
  The digest of a document is its canonical encoding followed by SHA-256: both are outside
  the sources modelled, so the functions that compute digests are parameters. Where the
  source keeps the rendered text of an error, the model keeps the error.
\<close>

section \<open>Admission\<close>

datatype admission_code =
    GraphInvalid | PortIncompatible | EffectUndeclared | CapabilityUngranted | RepetitionUnbounded
  | BudgetInvalid | ProvenanceMissing | TrustEdgeIllegal | SchemaInvalid | BoundaryInvalid | ContractInvalid

fun admission_code_str :: "admission_code \<Rightarrow> string" where
  "admission_code_str GraphInvalid = ''graph_invalid''"
| "admission_code_str PortIncompatible = ''port_incompatible''"
| "admission_code_str EffectUndeclared = ''effect_undeclared''"
| "admission_code_str CapabilityUngranted = ''capability_ungranted''"
| "admission_code_str RepetitionUnbounded = ''repetition_unbounded''"
| "admission_code_str BudgetInvalid = ''budget_invalid''"
| "admission_code_str ProvenanceMissing = ''provenance_missing''"
| "admission_code_str TrustEdgeIllegal = ''trust_edge_illegal''"
| "admission_code_str SchemaInvalid = ''schema_invalid''"
| "admission_code_str BoundaryInvalid = ''boundary_invalid''"
| "admission_code_str ContractInvalid = ''contract_invalid''"

fun admission_owner :: "admission_code \<Rightarrow> repair_owner" where
  "admission_owner CapabilityUngranted = OwnerPolicy"
| "admission_owner TrustEdgeIllegal = OwnerVerifier"
| "admission_owner code = OwnerRuntime"

definition admission_codes :: "admission_code list" where
  "admission_codes =
     [GraphInvalid, PortIncompatible, EffectUndeclared, CapabilityUngranted, RepetitionUnbounded, BudgetInvalid,
      ProvenanceMissing, TrustEdgeIllegal, SchemaInvalid, BoundaryInvalid, ContractInvalid]"

datatype 'ce refusal_detail =
    NoCanonicalEncoding 'ce
  | GraphRefused graph_error
  | BoundaryRefused boundary_error
  | ContractTwice ident
  | StatementTwice ident ident

record 'ce admission_refusal =
  refusal_code :: admission_code
  refusal_owner :: repair_owner
  refusal_detail :: "'ce refusal_detail"

definition admission_refusal_new :: "admission_code \<Rightarrow> 'ce refusal_detail \<Rightarrow> 'ce admission_refusal" where
  "admission_refusal_new code detail =
     \<lparr>refusal_code = code, refusal_owner = admission_owner code, refusal_detail = detail\<rparr>"

record admission_record =
  admission_definition :: digest
  admission_rules :: "admission_code list"

fun code_for_node :: "node_error \<Rightarrow> admission_code" where
  "code_for_node (EffectNotAllowed n k) = EffectUndeclared"
| "code_for_node (EffectRequired n k) = EffectUndeclared"
| "code_for_node (EffectKindNotAllowed n k e) = EffectUndeclared"
| "code_for_node (NodeEffect e) = EffectUndeclared"
| "code_for_node (NodeCapability e) = CapabilityUngranted"
| "code_for_node (EmptyBudget n r) = BudgetInvalid"
| "code_for_node (MissingSubWorkflow n) = GraphInvalid"

fun code_for_region :: "region_error \<Rightarrow> admission_code" where
  "code_for_region (BudgetWidensParent r) = BudgetInvalid"
| "code_for_region (RegionCapability r e) = CapabilityUngranted"
| "code_for_region (RegionLoop e) = RepetitionUnbounded"
| "code_for_region e = GraphInvalid"

fun code_for_graph :: "graph_error \<Rightarrow> admission_code" where
  "code_for_graph (Schema e m) = PortIncompatible"
| "code_for_graph (ConcatNotLists e) = PortIncompatible"
| "code_for_graph (SourceIndexOutOfRange e i) = PortIncompatible"
| "code_for_graph (EdgeProvenanceLost e i j) = ProvenanceMissing"
| "code_for_graph (SelectionNotRecorded e) = ProvenanceMissing"
| "code_for_graph (TrustTooWeak e p a b c) = TrustEdgeIllegal"
| "code_for_graph (NotAVerifier e n) = TrustEdgeIllegal"
| "code_for_graph (UndeclaredCycle p) = RepetitionUnbounded"
| "code_for_graph (NodeErr e) = code_for_node e"
| "code_for_graph (RegionErr e) = code_for_region e"
| "code_for_graph e = GraphInvalid"

definition refusal_for_graph :: "graph_error \<Rightarrow> 'ce admission_refusal" where
  "refusal_for_graph e = admission_refusal_new (code_for_graph e) (GraphRefused e)"

text \<open>One turn of the loop in \<open>check_boundaries\<close>; the accumulator is \<open>seen\<close>.\<close>

definition check_boundary ::
  "workflow \<Rightarrow> ident list \<Rightarrow> protected_boundary \<Rightarrow> ('ce admission_refusal, ident list) result" where
  "check_boundary d seen b =
     (let refuse = (\<lambda>code e. Err (admission_refusal_new code (BoundaryRefused e))) in
      if boundary_id b \<in> set seen then refuse BoundaryInvalid (BoundaryDuplicate (boundary_id b))
      else case graph_node (workflow_graph d) (boundary_node b) of
             None \<Rightarrow> refuse BoundaryInvalid (BoundaryUnknownNode (boundary_id b) (boundary_node b))
           | Some n \<Rightarrow>
               (case boundary_crossing b of
                  CrossEffect e \<Rightarrow>
                    if list_ex (\<lambda>declared. effect_id declared = e) (node_effects n) then Ok (seen @ [boundary_id b])
                    else refuse EffectUndeclared (NoSuchEffect (boundary_id b) (boundary_node b) e)
                | TrustTransition t \<Rightarrow> Ok (seen @ [boundary_id b])))"

definition check_boundaries :: "workflow \<Rightarrow> ('ce admission_refusal, unit) result" where
  "check_boundaries d =
     and_then (try_fold (check_boundary d) [] (workflow_boundaries d)) (\<lambda>_. Ok ())"

definition check_statement ::
  "ident \<Rightarrow> ident list \<Rightarrow> obligation_statement \<Rightarrow> ('ce admission_refusal, ident list) result" where
  "check_statement c seen s =
     (if statement_id s \<in> set seen
      then Err (admission_refusal_new ContractInvalid (StatementTwice c (statement_id s)))
      else Ok (seen @ [statement_id s]))"

definition check_contract :: "ident list \<Rightarrow> contract \<Rightarrow> ('ce admission_refusal, ident list) result" where
  "check_contract seen c =
     (if contract_id c \<in> set seen then Err (admission_refusal_new ContractInvalid (ContractTwice (contract_id c)))
      else and_then (try_fold (check_statement (contract_id c)) [] (contract_obligations c)) (\<lambda>_.
             Ok (seen @ [contract_id c])))"

definition check_contracts :: "workflow \<Rightarrow> ('ce admission_refusal, unit) result" where
  "check_contracts d = and_then (try_fold check_contract [] (workflow_contracts d)) (\<lambda>_. Ok ())"

definition admit ::
  "(workflow \<Rightarrow> ('ce, digest) result) \<Rightarrow> workflow \<Rightarrow> ('ce admission_refusal, admission_record) result" where
  "admit digest_of d =
     and_then (map_err (\<lambda>e. admission_refusal_new SchemaInvalid (NoCanonicalEncoding e)) (digest_of d)) (\<lambda>digest'.
     and_then (map_err refusal_for_graph (graph_check (workflow_graph d) (workflow_capabilities d) (workflow_budget d))) (\<lambda>_.
     and_then (check_boundaries d) (\<lambda>_.
     and_then (check_contracts d) (\<lambda>_.
       Ok \<lparr>admission_definition = digest', admission_rules = admission_codes\<rparr>))))"

section \<open>Certificates\<close>

record identity_ref =
  identity_name :: ident
  identity_version :: string

datatype producer_kind = Model | Tool | Retrieval | Human | Deterministic

record producer =
  producer_kind_of :: producer_kind
  producer_identity :: identity_ref

record evidence_ref =
  evidence_id :: ident
  evidence_content :: digest
  evidence_media_type :: string
  evidence_byte_length :: u64
  evidence_producer :: producer
  evidence_captured_at :: recorded_time

datatype verifier_trust = DeterministicVerifier | DeclaredOracle string

record verifier_record =
  verifier_identity :: identity_ref
  verifier_environment :: digest
  verifier_inputs :: "digest list"
  verifier_outputs :: "digest list"
  verifier_trust :: verifier_trust
  verifier_verdict :: checker_verdict

record subject =
  subject_definition :: digest
  subject_definition_version :: string
  subject_run :: "ident option"
  subject_inputs :: "digest list"
  subject_outputs :: "digest list"

record certificate_body =
  body_schema_version :: schema_version
  body_id :: ident
  body_subject :: subject
  body_admission :: admission_record
  body_mode :: assurance_mode
  body_policy_version :: string
  body_kernel_version :: string
  body_contracts :: "ident list"
  body_verifiers :: "verifier_record list"
  body_evidence :: "evidence_ref list"
  body_obligations :: "obligation list"
  body_loops :: "loop_outcome list"
  body_verdict :: assurance_verdict

record certificate =
  certificate_body :: certificate_body
  replay_digest :: digest

datatype 'ce certificate_error =
    VerdictNotJustified ident string string
  | MissingEvidence ident digest
  | DuplicateObligation ident ident
  | SealBroken ident
  | Encoding 'ce

definition from_obligations :: "obligation list \<Rightarrow> assurance_verdict" where
  "from_obligations obs =
     (if obs = [] then VerdictUnverified
      else if list_ex has_failed obs then VerdictRejected
      else if list_ex is_outstanding obs then VerdictConditional
      else VerdictAccepted)"

definition under_mode :: "assurance_mode \<Rightarrow> obligation list \<Rightarrow> assurance_verdict" where
  "under_mode m obs = (if evaluates_obligations m then from_obligations obs else VerdictUnverified)"

definition carries :: "certificate_body \<Rightarrow> digest \<Rightarrow> bool" where
  "carries b dg = list_ex (\<lambda>e. evidence_content e = dg) (body_evidence b)"

definition residuals :: "certificate_body \<Rightarrow> obligation list" where
  "residuals b = filter is_outstanding (body_obligations b)"

definition incomplete_loops :: "certificate_body \<Rightarrow> stop_reason list" where
  "incomplete_loops b = map outcome_stopped (filter (\<lambda>l. \<not> loop_completed l) (body_loops b))"

definition obligation_key :: "obligation \<Rightarrow> ident \<times> ident" where
  "obligation_key ob = (obligation_contract ob, statement_id (obligation_statement ob))"

text \<open>One turn of the loop in \<open>CertificateBody::check\<close>.\<close>

definition check_obligation ::
  "certificate_body \<Rightarrow> (ident \<times> ident) list \<Rightarrow> obligation \<Rightarrow> ('ce certificate_error, (ident \<times> ident) list) result" where
  "check_obligation b seen ob =
     (if obligation_key ob \<in> set seen
      then Err (DuplicateObligation (body_id b) (statement_id (obligation_statement ob)))
      else
        and_then (try_for_each (\<lambda>dg. if carries b dg then Ok () else Err (MissingEvidence (body_id b) dg))
                   (discharge_evidence (obligation_state ob))) (\<lambda>_.
          Ok (seen @ [obligation_key ob])))"

definition body_check :: "certificate_body \<Rightarrow> ('ce certificate_error, unit) result" where
  "body_check b =
     (let justified = under_mode (body_mode b) (body_obligations b) in
      if justified \<noteq> body_verdict b
      then Err (VerdictNotJustified (body_id b) (verdict_str (body_verdict b)) (verdict_str justified))
      else and_then (try_fold (check_obligation b) [] (body_obligations b)) (\<lambda>_. Ok ()))"

definition seal ::
  "(certificate_body \<Rightarrow> ('ce, digest) result) \<Rightarrow> certificate_body \<Rightarrow> ('ce certificate_error, certificate) result" where
  "seal digest_of b =
     and_then (body_check b) (\<lambda>_.
     and_then (map_err Encoding (digest_of b)) (\<lambda>digest'.
       Ok \<lparr>certificate_body = b, replay_digest = digest'\<rparr>))"

definition verify_seal ::
  "(certificate_body \<Rightarrow> ('ce, digest) result) \<Rightarrow> certificate \<Rightarrow> ('ce certificate_error, unit) result" where
  "verify_seal digest_of c =
     and_then (map_err Encoding (digest_of (certificate_body c))) (\<lambda>recomputed.
       if recomputed = replay_digest c then Ok () else Err (SealBroken (body_id (certificate_body c))))"

text \<open>\<open>Deserialize\<close>, after the document has been read into its wire shape.\<close>

definition deserialize_certificate ::
  "(certificate_body \<Rightarrow> ('ce, digest) result) \<Rightarrow> certificate_body \<Rightarrow> digest \<Rightarrow> ('ce certificate_error, certificate) result" where
  "deserialize_certificate digest_of b dg =
     (let c = \<lparr>certificate_body = b, replay_digest = dg\<rparr> in
      and_then (verify_seal digest_of c) (\<lambda>_. and_then (body_check b) (\<lambda>_. Ok c)))"

section \<open>Coverage\<close>

datatype contract_coverage = CoverageComplete | CoverageNotInDefinition | CoverageMissing "ident list"

definition accounted_for :: "certificate_body \<Rightarrow> ident \<Rightarrow> ident \<Rightarrow> bool" where
  "accounted_for b c s =
     list_ex (\<lambda>ob. obligation_contract ob = c \<and> statement_id (obligation_statement ob) = s) (body_obligations b)"

definition coverage_of :: "contract \<Rightarrow> certificate_body \<Rightarrow> contract_coverage" where
  "coverage_of c b =
     (let missing = map statement_id
            (filter (\<lambda>s. \<not> accounted_for b (contract_id c) (statement_id s)) (contract_obligations c)) in
      if missing = [] then CoverageComplete else CoverageMissing missing)"

definition coverage :: "workflow \<Rightarrow> ident \<Rightarrow> certificate_body \<Rightarrow> contract_coverage" where
  "coverage d c b =
     (case workflow_contract d c of None \<Rightarrow> CoverageNotInDefinition | Some declared \<Rightarrow> coverage_of declared b)"

section \<open>Admission of a verification record\<close>

datatype trust_error =
    MissingContract
  | CertificateNotFound digest
  | ContractNotInDefinition string
  | ContractNotCovered string digest "ident list"
  | CertificateNotForThisDefinition digest

record raw_verification_record =
  raw_contract :: string
  raw_certificate :: digest

definition admit_record ::
  "(digest \<Rightarrow> certificate option) \<Rightarrow> (workflow \<Rightarrow> ('ce, digest) result) \<Rightarrow> workflow \<Rightarrow> provenance \<Rightarrow>
   raw_verification_record \<Rightarrow> (trust_error, verification_record) result" where
  "admit_record certificates digest_of d prov raw =
     (if trim (raw_contract raw) = [] then Err MissingContract
      else case certificates (raw_certificate raw) of
             None \<Rightarrow> Err (CertificateNotFound (raw_certificate raw))
           | Some c \<Rightarrow>
               (let b = certificate_body c in
                if (case digest_of d of Inr digest' \<Rightarrow> subject_definition (body_subject b) \<noteq> digest' | Inl e \<Rightarrow> False)
                then Err (CertificateNotForThisDefinition (raw_certificate raw))
                else case parse (raw_contract raw) of
                       Inl e \<Rightarrow> Err (ContractNotInDefinition (raw_contract raw))
                     | Inr contract' \<Rightarrow>
                         (case coverage d contract' b of
                            CoverageNotInDefinition \<Rightarrow> Err (ContractNotInDefinition (raw_contract raw))
                          | CoverageMissing missing \<Rightarrow>
                              Err (ContractNotCovered (raw_contract raw) (raw_certificate raw) missing)
                          | CoverageComplete \<Rightarrow>
                              Ok \<lparr>record_contract = raw_contract raw, record_certificate = raw_certificate raw,
                                  record_verdict = body_verdict b,
                                  record_residual_count =
                                    (case u32_try_from_usize (length (residuals b)) of Some n \<Rightarrow> n | None \<Rightarrow> - 1),
                                  record_provenance = prov\<rparr>)))"

section \<open>Assembly from a run\<close>

record run_evidence =
  evidence_subject :: subject
  evidence_loops :: "loop_outcome list"
  evidence_admission :: admission_record

text \<open>The regions a log speaks of, in the order it first does, and the iterations it records.\<close>

fun region_mentioned :: "run_event \<Rightarrow> ident option" where
  "region_mentioned (IterationStarted r i ms) = Some r"
| "region_mentioned (LoopStopped r why) = Some r"
| "region_mentioned (IterationFinished r rec) = Some r"
| "region_mentioned ev = None"

definition regions_mentioned :: "recorded_event list \<Rightarrow> ident list" where
  "regions_mentioned events =
     foldl (\<lambda>seen r. if r \<in> set seen then seen else seen @ [r]) []
       (filter_map (\<lambda>e. region_mentioned (the_event e)) events)"

fun iteration_recorded :: "run_event \<Rightarrow> (ident \<times> iteration_record) option" where
  "iteration_recorded (IterationFinished r rec) = Some (r, rec)"
| "iteration_recorded ev = None"

definition loop_outcomes :: "recorded_event list \<Rightarrow> run_state \<Rightarrow> loop_outcome list" where
  "loop_outcomes events s =
     (let iterations = filter_map (\<lambda>e. iteration_recorded (the_event e)) events in
      filter_map (\<lambda>r.
        map_option (\<lambda>why.
          \<lparr>outcome_region = r, outcome_iterations = map snd (filter (\<lambda>(each, rec). each = r) iterations),
           outcome_stopped = why\<rparr>) (stopped (loop_progress_of s r))) (regions_mentioned events))"

definition evidence_of ::
  "workflow \<Rightarrow> admission_record \<Rightarrow> ident \<Rightarrow> run_state \<Rightarrow> recorded_event list \<Rightarrow> digest list \<Rightarrow> run_evidence" where
  "evidence_of d adm run s events inputs =
     \<lparr>evidence_subject =
        \<lparr>subject_definition = definition_digest s, subject_definition_version = workflow_version d,
         subject_run = Some run, subject_inputs = inputs, subject_outputs = map snd (outputs s)\<rparr>,
      evidence_loops = loop_outcomes events s, evidence_admission = adm\<rparr>"

fun stop_recorded :: "run_event \<Rightarrow> (ident \<times> stop_reason) option" where
  "stop_recorded (LoopStopped r why) = Some (r, why)"
| "stop_recorded ev = None"

definition stop_reasons :: "recorded_event list \<Rightarrow> (ident \<times> stop_reason) list" where
  "stop_reasons events = filter_map (\<lambda>e. stop_recorded (the_event e)) events"

datatype certify_error = UnknownEvidence ident digest

definition check_obligations ::
  "obligation list \<Rightarrow> evidence_ref list \<Rightarrow> verifier_record list \<Rightarrow> (certify_error, unit) result" where
  "check_obligations obs evidence verifiers =
     (let carried = map evidence_content evidence @ concat (map verifier_outputs verifiers) in
      try_for_each (\<lambda>ob.
        try_for_each (\<lambda>dg.
          if dg \<in> set carried then Ok () else Err (UnknownEvidence (statement_id (obligation_statement ob)) dg))
          (discharge_evidence (obligation_state ob))) obs)"

record assembly =
  assembly_id :: ident
  assembly_admission :: admission_record
  assembly_mode :: assurance_mode
  assembly_subject :: subject
  assembly_policy_version :: string
  assembly_contracts :: "ident list"
  assembly_verifiers :: "verifier_record list"
  assembly_evidence :: "evidence_ref list"
  assembly_obligations :: "obligation list"
  assembly_loops :: "loop_outcome list"

definition CERTIFICATE_SCHEMA_VERSION :: schema_version where
  "CERTIFICATE_SCHEMA_VERSION = \<lparr>schema_namespace = ''capsulet.certificate'', schema_major = 1\<rparr>"

text \<open>\<open>certify\<close>; \<open>kernel_version\<close> is the package version of the build.\<close>

definition certify ::
  "(certificate_body \<Rightarrow> ('ce, digest) result) \<Rightarrow> string \<Rightarrow> assembly \<Rightarrow> ('ce certificate_error, certificate) result" where
  "certify digest_of kernel_version a =
     seal digest_of
       \<lparr>body_schema_version = CERTIFICATE_SCHEMA_VERSION, body_id = assembly_id a, body_subject = assembly_subject a,
        body_admission = assembly_admission a, body_mode = assembly_mode a,
        body_policy_version = assembly_policy_version a, body_kernel_version = kernel_version,
        body_contracts = assembly_contracts a, body_verifiers = assembly_verifiers a,
        body_evidence = assembly_evidence a, body_obligations = assembly_obligations a,
        body_loops = assembly_loops a, body_verdict = under_mode (assembly_mode a) (assembly_obligations a)\<rparr>"

section \<open>What a certificate value establishes\<close>

text \<open>The invariant of the type \<open>Certificate\<close>: its fields are private, and both ways of making one
  check the body and the seal.\<close>

definition certificate_wf :: "(certificate_body \<Rightarrow> ('ce, digest) result) \<Rightarrow> certificate \<Rightarrow> bool" where
  "certificate_wf digest_of c =
     (body_check (certificate_body c) = (Ok () :: ('ce certificate_error, unit) result) \<and>
      digest_of (certificate_body c) = Ok (replay_digest c))"

lemma seal_wf: "seal digest_of b = Ok c \<Longrightarrow> certificate_wf digest_of c \<and> certificate_body c = b"
  by (auto simp: seal_def certificate_wf_def)

lemma deserialize_wf:
  "deserialize_certificate digest_of b dg = Ok c \<Longrightarrow>
   certificate_wf digest_of c \<and> c = \<lparr>certificate_body = b, replay_digest = dg\<rparr>"
  by (auto simp: deserialize_certificate_def verify_seal_def certificate_wf_def Let_def split: if_splits)

text \<open>A loop that refuses repeated keys accepts exactly the lists without repetition.\<close>

lemma try_fold_distinct:
  assumes "\<And>seen x. step seen x = (if key x \<in> set seen then Err (e x) else and_then (f x) (\<lambda>_. Ok (seen @ [key x])))"
  shows "try_fold step seen xs = Ok seen' \<longleftrightarrow>
    seen' = seen @ map key xs \<and> distinct (map key xs) \<and> set seen \<inter> key ` set xs = {} \<and> (\<forall>x \<in> set xs. \<exists>u. f x = Ok u)"
proof (induction xs arbitrary: seen)
  case Nil
  then show ?case by auto
next
  case (Cons x xs)
  show ?case
  proof (cases "key x \<in> set seen \<or> (\<nexists>u. f x = Ok u)")
    case True
    then show ?thesis by (cases "f x") (auto simp: assms)
  next
    case False
    then obtain u where "f x = Ok u" by auto
    with False have "step seen x = Ok (seen @ [key x])" by (simp add: assms)
    then show ?thesis using Cons.IH [of "seen @ [key x]"] False \<open>f x = Ok u\<close> by auto
  qed
qed

lemma body_check_Ok:
  "body_check b = Ok () \<longleftrightarrow>
   body_verdict b = under_mode (body_mode b) (body_obligations b) \<and>
   distinct (map obligation_key (body_obligations b)) \<and>
   (\<forall>ob \<in> set (body_obligations b). \<forall>dg \<in> set (discharge_evidence (obligation_state ob)). carries b dg)"
  by (auto simp: body_check_def Let_def try_for_each_eq_Inr
      try_fold_distinct [of "check_obligation b" obligation_key, OF check_obligation_def])

definition is_discharged :: "obligation \<Rightarrow> bool" where
  "is_discharged ob = (case obligation_state ob of Discharged who evidence \<Rightarrow> True | _ \<Rightarrow> False)"

lemma is_discharged_iff: "is_discharged ob \<longleftrightarrow> \<not> has_failed ob \<and> \<not> is_outstanding ob"
  by (cases "obligation_state ob") (auto simp: is_discharged_def has_failed_def is_outstanding_def)

lemma from_obligations_Accepted:
  "from_obligations obs = VerdictAccepted \<longleftrightarrow> obs \<noteq> [] \<and> (\<forall>ob \<in> set obs. is_discharged ob)"
  by (auto simp: from_obligations_def list_ex_iff is_discharged_iff)

lemma coverage_Complete:
  "coverage d c b = CoverageComplete \<longleftrightarrow>
   (\<exists>declared. workflow_contract d c = Some declared \<and>
      (\<forall>s \<in> set (contract_obligations declared). accounted_for b (contract_id declared) (statement_id s)))"
  by (auto simp: coverage_def coverage_of_def Let_def filter_empty_conv split: option.splits)

text \<open>What covering a contract comes to when nothing the certificate carries is open: every statement
  of the declared contract is discharged under that contract's name.\<close>

lemma covered_discharged:
  assumes "coverage d c b = CoverageComplete" "\<forall>ob \<in> set (body_obligations b). obligation_contract ob = c \<longrightarrow> is_discharged ob"
  shows "\<exists>declared. workflow_contract d c = Some declared \<and>
    (\<forall>s \<in> set (contract_obligations declared). \<exists>ob \<in> set (body_obligations b).
       obligation_contract ob = c \<and> statement_id (obligation_statement ob) = statement_id s \<and> is_discharged ob)"
proof -
  from assms(1) obtain declared where declared: "workflow_contract d c = Some declared"
    and all: "\<forall>s \<in> set (contract_obligations declared). accounted_for b (contract_id declared) (statement_id s)"
    by (auto simp: coverage_Complete)
  have "contract_id declared = c" using declared by (auto simp: workflow_contract_def dest: find_SomeD)
  with declared all assms(2) show ?thesis by (auto simp: accounted_for_def list_ex_iff)
qed

lemma under_mode_Accepted:
  "under_mode m obs = VerdictAccepted \<longleftrightarrow>
   evaluates_obligations m \<and> obs \<noteq> [] \<and> (\<forall>ob \<in> set obs. is_discharged ob)"
  by (simp add: under_mode_def from_obligations_Accepted)

lemma admit_record_Ok:
  "admit_record certificates digest_of d prov raw = Ok r \<Longrightarrow>
   \<exists>c. certificates (raw_certificate raw) = Some c \<and>
     (\<forall>dg. digest_of d = Ok dg \<longrightarrow> subject_definition (body_subject (certificate_body c)) = dg) \<and>
     coverage d (Identifier (raw_contract raw)) (certificate_body c) = CoverageComplete \<and>
     record_contract r = raw_contract raw \<and> record_verdict r = body_verdict (certificate_body c) \<and>
     record_provenance r = prov"
  by (auto simp: admit_record_def Let_def parse_eq_Ok_iff split: if_splits option.splits sum.splits contract_coverage.splits)

text \<open>C14. A value is verified only when it was earned: if admitting a record against a source of
  certificates justifies the class \<open>Verified\<close>, then the certificate it names is about this
  definition, was decided in a mode that evaluates obligations, carries no obligation that is
  failed or open and all the evidence they rest on, and discharges, under that contract's name,
  every statement the definition declares for the contract.\<close>

theorem verified_is_earned:
  assumes admitted: "admit_record certificates digest_of d prov raw = Ok r" "justifies r = Verified r"
    and sealed: "\<forall>dg c. certificates dg = Some c \<longrightarrow> certificate_wf body_digest c"
    and digest: "digest_of d = Ok dd"
  shows "prov = ProvenanceComplete \<and>
    (\<exists>c declared. certificates (raw_certificate raw) = Some c \<and>
       subject_definition (body_subject (certificate_body c)) = dd \<and>
       evaluates_obligations (body_mode (certificate_body c)) \<and>
       (\<forall>ob \<in> set (body_obligations (certificate_body c)).
          is_discharged ob \<and> (\<forall>dg \<in> set (discharge_evidence (obligation_state ob)). carries (certificate_body c) dg)) \<and>
       workflow_contract d (Identifier (raw_contract raw)) = Some declared \<and>
       (\<forall>s \<in> set (contract_obligations declared). \<exists>ob \<in> set (body_obligations (certificate_body c)).
          obligation_contract ob = contract_id declared \<and>
          statement_id (obligation_statement ob) = statement_id s \<and> is_discharged ob))"
proof -
  from admit_record_Ok [OF admitted(1)] digest obtain c where c: "certificates (raw_certificate raw) = Some c"
    and about: "subject_definition (body_subject (certificate_body c)) = dd"
    and cov: "coverage d (Identifier (raw_contract raw)) (certificate_body c) = CoverageComplete"
    and r: "record_verdict r = body_verdict (certificate_body c)" "record_provenance r = prov"
    by auto
  have accepted: "body_verdict (certificate_body c) = VerdictAccepted" and prov: "prov = ProvenanceComplete"
    using admitted(2) r by (auto simp: justifies_def split: assurance_verdict.splits if_splits)
  have check: "body_verdict (certificate_body c) =
      under_mode (body_mode (certificate_body c)) (body_obligations (certificate_body c))"
    "\<forall>ob \<in> set (body_obligations (certificate_body c)). \<forall>dg \<in> set (discharge_evidence (obligation_state ob)).
       carries (certificate_body c) dg"
    using sealed c by (simp_all add: certificate_wf_def body_check_Ok)
  have "under_mode (body_mode (certificate_body c)) (body_obligations (certificate_body c)) = VerdictAccepted"
    using check(1) accepted by simp
  then have all: "evaluates_obligations (body_mode (certificate_body c))"
    "\<forall>ob \<in> set (body_obligations (certificate_body c)). is_discharged ob"
    unfolding under_mode_Accepted by blast+
  from covered_discharged [OF cov] all(2) obtain declared
    where declared: "workflow_contract d (Identifier (raw_contract raw)) = Some declared"
      and st: "\<forall>s \<in> set (contract_obligations declared). \<exists>ob \<in> set (body_obligations (certificate_body c)).
         obligation_contract ob = Identifier (raw_contract raw) \<and>
         statement_id (obligation_statement ob) = statement_id s \<and> is_discharged ob"
    by auto
  have "contract_id declared = Identifier (raw_contract raw)"
    using declared by (auto simp: workflow_contract_def dest: find_SomeD)
  with c about all declared st prov check(2) show ?thesis by auto
qed

text \<open>A definition with one contract, and a certificate of one discharged obligation.\<close>

definition sample_digest :: digest where
  "sample_digest = Digest [1]"

definition sample_statement :: obligation_statement where
  "sample_statement = \<lparr>statement_id = Identifier ''compiles'', statement_text = ''it compiles'', statement_owner = OwnerRuntime\<rparr>"

definition sample_contract :: contract where
  "sample_contract =
     \<lparr>contract_id = Identifier ''build'', contract_version = ''1'', contract_inputs = [], contract_outputs = [],
      contract_allowed_effects = [], contract_obligations = [sample_statement]\<rparr>"

definition sample_certified :: workflow where
  "sample_certified =
     \<lparr>workflow_schema_version = IR_SCHEMA_VERSION, workflow_id = Identifier ''w'', workflow_version = ''1'',
      workflow_name = ''w'', workflow_assurance = Enforce, workflow_capabilities = [],
      workflow_budget = deterministic 0,
      workflow_graph = \<lparr>graph_nodes = [], graph_edges = [], graph_control = [], graph_branches = [], graph_regions = [],
                        graph_inputs = [], graph_outputs = []\<rparr>,
      workflow_boundaries = [], workflow_contracts = [sample_contract]\<rparr>"

definition sample_evidence_ref :: "recorded_time \<Rightarrow> evidence_ref" where
  "sample_evidence_ref at =
     \<lparr>evidence_id = Identifier ''log'', evidence_content = Digest [2], evidence_media_type = ''text/plain'',
      evidence_byte_length = 3,
      evidence_producer = \<lparr>producer_kind_of = Tool,
        producer_identity = \<lparr>identity_name = Identifier ''rustc'', identity_version = ''1''\<rparr>\<rparr>,
      evidence_captured_at = at\<rparr>"

definition sample_assembly :: "ident \<Rightarrow> recorded_time \<Rightarrow> assembly" where
  "sample_assembly contract' at =
     \<lparr>assembly_id = Identifier ''c'',
      assembly_admission = \<lparr>admission_definition = sample_digest, admission_rules = admission_codes\<rparr>,
      assembly_mode = Enforce,
      assembly_subject = \<lparr>subject_definition = sample_digest, subject_definition_version = ''1'', subject_run = None,
        subject_inputs = [], subject_outputs = []\<rparr>,
      assembly_policy_version = ''1'', assembly_contracts = [], assembly_verifiers = [],
      assembly_evidence = [sample_evidence_ref at],
      assembly_obligations = [\<lparr>obligation_statement = sample_statement, obligation_contract = contract',
        obligation_state = Discharged (Identifier ''rustc'') [Digest [2]]\<rparr>],
      assembly_loops = []\<rparr>"

definition sample_certificate :: "ident \<Rightarrow> recorded_time \<Rightarrow> certificate" where
  "sample_certificate contract' at =
     (case certify (\<lambda>b. Ok (Digest [3]) :: (unit, digest) result) ''1'' (sample_assembly contract' at) of
        Inr c \<Rightarrow> c | Inl e \<Rightarrow> undefined)"

lemma sample_certified_Ok:
  "certify (\<lambda>b. Ok (Digest [3]) :: (unit, digest) result) ''1'' (sample_assembly contract' at) =
   Ok (sample_certificate contract' at)"
proof -
  have "\<exists>c. certify (\<lambda>b. Ok (Digest [3]) :: (unit, digest) result) ''1'' (sample_assembly contract' at) = Ok c"
    by (auto simp: certify_def seal_def sample_assembly_def body_check_def Let_def under_mode_def from_obligations_def
        check_obligation_def obligation_key_def carries_def sample_evidence_ref_def has_failed_def is_outstanding_def)
  then show ?thesis by (auto simp: sample_certificate_def)
qed

lemma sample_certificate_wf: "certificate_wf (\<lambda>b. Ok (Digest [3]) :: (unit, digest) result) (sample_certificate contract' at)"
  using sample_certified_Ok seal_wf by (fastforce simp: certify_def)

theorem verified_is_earned_witness:
  "\<exists>r. admit_record (\<lambda>dg. Some (sample_certificate (Identifier ''build'') 0)) (\<lambda>d. Ok sample_digest :: (unit, digest) result)
         sample_certified ProvenanceComplete \<lparr>raw_contract = ''build'', raw_certificate = Digest [3]\<rparr> = Ok r \<and>
       justifies r = Verified r \<and>
       (\<exists>c :: certificate. subject_definition (body_subject (certificate_body c)) = sample_digest \<and>
            (\<forall>ob \<in> set (body_obligations (certificate_body c)). is_discharged ob))"
proof -
  let ?raw = "\<lparr>raw_contract = ''build'', raw_certificate = Digest [3]\<rparr>"
  let ?admit = "admit_record (\<lambda>dg. Some (sample_certificate (Identifier ''build'') 0)) (\<lambda>d. Ok sample_digest :: (unit, digest) result)
    sample_certified ProvenanceComplete ?raw"
  have "is_ok ?admit \<and> (case ?admit of Inr r \<Rightarrow> justifies r = Verified r | Inl e \<Rightarrow> False)" by code_simp
  then obtain r where r: "?admit = Ok r" "justifies r = Verified r" by (auto split: sum.splits)
  have "\<forall>dg c. Some (sample_certificate (Identifier ''build'') 0) = Some c \<longrightarrow>
      certificate_wf (\<lambda>b. Ok (Digest [3]) :: (unit, digest) result) c"
    using sample_certificate_wf by auto
  from verified_is_earned [OF r this refl]
  obtain c :: certificate where "subject_definition (body_subject (certificate_body c)) = sample_digest"
    "\<forall>ob \<in> set (body_obligations (certificate_body c)). is_discharged ob"
    by blast
  then show ?thesis by (intro exI [of _ r] exI [of _ c] conjI r)
qed

end
