(* ===== verification/Assurance.thy ===== *)
theory Assurance
  imports Certificates
begin

text \<open>
  The assurance policy gate (\<open>crates/ir/src/assurance.rs\<close>): what a certificate has to say before
  a protected boundary is crossed or a value is routed. One decision procedure, in the order
  of the source, and the exact conditions under which it allows a crossing. Times are
  subtracted as the source subtracts them, with the wrap-around of \<open>i64\<close> in a release build.
\<close>

section \<open>Verdicts\<close>

fun verdict_rank :: "assurance_verdict \<Rightarrow> u8" where
  "verdict_rank VerdictRejected = 0"
| "verdict_rank VerdictUnverified = 1"
| "verdict_rank VerdictConditional = 2"
| "verdict_rank VerdictAccepted = 3"

definition verdict_satisfies :: "assurance_verdict \<Rightarrow> assurance_verdict \<Rightarrow> bool" where
  "verdict_satisfies v minimum = (verdict_rank v \<ge> verdict_rank minimum)"

definition for_contract :: "assurance_mode \<Rightarrow> ident \<Rightarrow> obligation list \<Rightarrow> assurance_verdict" where
  "for_contract m c obs =
     (if \<not> evaluates_obligations m then VerdictUnverified
      else if list_ex has_failed obs then VerdictRejected
      else
        (let (seen, outstanding') =
               foldl (\<lambda>(seen, out) ob. (True, out \<or> is_outstanding ob)) (False, False)
                 (filter (\<lambda>ob. obligation_contract ob = c) obs)
         in if \<not> seen then VerdictUnverified
            else if outstanding' then VerdictConditional
            else VerdictAccepted))"

section \<open>Policies\<close>

record verifier_requirement =
  requirement_name :: ident
  requirement_version :: "string option"
  requirement_environment :: "digest option"
  requirement_verdict :: assurance_verdict

definition requirement_named :: "ident \<Rightarrow> verifier_requirement" where
  "requirement_named n =
     \<lparr>requirement_name = n, requirement_version = None, requirement_environment = None,
      requirement_verdict = VerdictConditional\<rparr>"

record boundary_policy =
  policy_minimum :: assurance_verdict
  policy_contract :: "ident option"
  policy_requires_approval :: "ident option"
  policy_max_age_ms :: "i64 option"

record trust_route =
  route_into :: ident
  route_minimum :: trust_level
  route_contract :: "ident option"

record assurance_policy =
  policy_id :: ident
  policy_version :: string
  policy_mode :: assurance_mode
  required_contracts :: "ident list"
  required_verifiers :: "verifier_requirement list"
  policy_boundaries :: "(ident, boundary_policy) btree_map"
  waiver_authorities :: "ident list"
  trust_routes :: "trust_route list"

definition effective_mode :: "assurance_policy \<Rightarrow> assurance_mode \<Rightarrow> assurance_mode" where
  "effective_mode p declared = strictest (policy_mode p) declared"

definition policy_boundary :: "assurance_policy \<Rightarrow> ident \<Rightarrow> boundary_policy option" where
  "policy_boundary p b = map_of (policy_boundaries p) b"

record decision_context =
  context_now :: recorded_time
  context_revoked :: "digest list"

datatype denial_reason =
    NoCertificate assurance_verdict
  | VerdictBelowMinimum assurance_verdict assurance_verdict
  | DenyContractNotCovered ident "ident list"
  | DenyContractNotInDefinition ident
  | ContractMismatch ident "ident option"
  | MissingVerifier ident
  | VerifierDidNotPass ident assurance_verdict checker_verdict
  | VerifierVersionMismatch ident string "string list"
  | VerifierEnvironmentMismatch ident digest "digest list"
  | MissingApproval ident
  | WaiverNotAuthorised ident ident
  | CertificateStale i64 i64
  | CertificateUndatable
  | CertificateRevoked digest
  | DenyNotForThisDefinition
  | BoundaryNotGoverned ident

datatype boundary_decision =
    Allowed assurance_verdict
  | NotEnforced assurance_verdict assurance_mode
  | Denied denial_reason

fun permits_crossing :: "boundary_decision \<Rightarrow> bool" where
  "permits_crossing (Denied r) = False"
| "permits_crossing dc = True"

fun was_enforced :: "boundary_decision \<Rightarrow> bool" where
  "was_enforced (NotEnforced v m) = False"
| "was_enforced dc = True"

section \<open>The gate\<close>

definition newest_evidence :: "certificate_body \<Rightarrow> recorded_time option" where
  "newest_evidence b =
     (case map evidence_captured_at (body_evidence b) of [] \<Rightarrow> None | t # ts \<Rightarrow> Some (fold max ts t))"

definition i64_wrapping_sub :: "i64 \<Rightarrow> i64 \<Rightarrow> i64" where
  "i64_wrapping_sub a b = (a - b + 2 ^ 63) mod 2 ^ 64 - 2 ^ 63"

text \<open>Selection by name, version and environment, then judgement of every record selected.\<close>

definition select_version ::
  "verifier_requirement \<Rightarrow> verifier_record list \<Rightarrow> (denial_reason, verifier_record list) result" where
  "select_version q named =
     (case requirement_version q of
        None \<Rightarrow> Ok named
      | Some v \<Rightarrow>
          (let matching = filter (\<lambda>r. identity_version (verifier_identity r) = v) named in
           if matching = []
           then Err (VerifierVersionMismatch (requirement_name q) v
                       (map (\<lambda>r. identity_version (verifier_identity r)) named))
           else Ok matching))"

definition select_environment ::
  "verifier_requirement \<Rightarrow> verifier_record list \<Rightarrow> (denial_reason, verifier_record list) result" where
  "select_environment q at_version =
     (case requirement_environment q of
        None \<Rightarrow> Ok at_version
      | Some env \<Rightarrow>
          (let matching = filter (\<lambda>r. verifier_environment r = env) at_version in
           if matching = []
           then Err (VerifierEnvironmentMismatch (requirement_name q) env (map verifier_environment at_version))
           else Ok matching))"

definition unmet_verifier :: "verifier_requirement \<Rightarrow> verifier_record list \<Rightarrow> denial_reason option" where
  "unmet_verifier q records =
     (let named = filter (\<lambda>r. identity_name (verifier_identity r) = requirement_name q) records in
      if named = [] then Some (MissingVerifier (requirement_name q))
      else case and_then (select_version q named) (select_environment q) of
             Inl reason \<Rightarrow> Some reason
           | Inr selected \<Rightarrow>
               map_option (\<lambda>r. VerifierDidNotPass (requirement_name q) (requirement_verdict q) (verifier_verdict r))
                 (find (\<lambda>r. \<not> verdict_satisfies (from_checker_verdict (verifier_verdict r)) (requirement_verdict q))
                   selected))"

definition uncovered_reason :: "workflow \<Rightarrow> certificate_body \<Rightarrow> ident \<Rightarrow> denial_reason option" where
  "uncovered_reason d b c =
     (case coverage d c b of
        CoverageComplete \<Rightarrow> None
      | CoverageNotInDefinition \<Rightarrow> Some (DenyContractNotInDefinition c)
      | CoverageMissing missing \<Rightarrow> Some (DenyContractNotCovered c missing))"

definition unauthorised_waiver :: "assurance_policy \<Rightarrow> obligation \<Rightarrow> denial_reason option" where
  "unauthorised_waiver p ob =
     (case obligation_state ob of
        Waived policy' authority \<Rightarrow>
          if authority \<in> set (waiver_authorities p) then None
          else Some (WaiverNotAuthorised (statement_id (obligation_statement ob)) authority)
      | _ \<Rightarrow> None)"

definition stale :: "boundary_policy \<Rightarrow> recorded_time \<Rightarrow> certificate_body \<Rightarrow> denial_reason option" where
  "stale q now b =
     (case policy_max_age_ms q of
        None \<Rightarrow> None
      | Some max_age \<Rightarrow>
          (case newest_evidence b of
             None \<Rightarrow> Some CertificateUndatable
           | Some dated_at \<Rightarrow>
               (let age = i64_wrapping_sub now dated_at in
                if age > max_age then Some (CertificateStale age max_age) else None)))"

definition missing_approval :: "boundary_policy \<Rightarrow> certificate_body \<Rightarrow> denial_reason option" where
  "missing_approval q b =
     (case policy_requires_approval q of
        None \<Rightarrow> None
      | Some approval \<Rightarrow>
          if list_ex (\<lambda>ob. statement_id (obligation_statement ob) = approval \<and> is_discharged ob) (body_obligations b)
          then None else Some (MissingApproval approval))"

definition decide_boundary ::
  "(workflow \<Rightarrow> ('ce, digest) result) \<Rightarrow> assurance_policy \<Rightarrow> assurance_mode \<Rightarrow> workflow \<Rightarrow> certificate option \<Rightarrow>
   ident \<Rightarrow> decision_context \<Rightarrow> boundary_decision" where
  "decide_boundary digest_of p declared_mode d certificate' boundary ctx =
     (let m = effective_mode p declared_mode;
          verdict = (case certificate' of None \<Rightarrow> VerdictUnverified | Some c \<Rightarrow> body_verdict (certificate_body c)) in
      if \<not> enforces_boundaries m then NotEnforced verdict m
      else case policy_boundary p boundary of
             None \<Rightarrow> Denied (BoundaryNotGoverned boundary)
           | Some required \<Rightarrow>
               (case certificate' of
                  None \<Rightarrow> Denied (NoCertificate (policy_minimum required))
                | Some c \<Rightarrow>
                    (let b = certificate_body c in
                     case digest_of d of
                       Inl e \<Rightarrow> Denied DenyNotForThisDefinition
                     | Inr digest' \<Rightarrow>
                         if subject_definition (body_subject b) \<noteq> digest' then Denied DenyNotForThisDefinition
                         else if replay_digest c \<in> set (context_revoked ctx) then Denied (CertificateRevoked (replay_digest c))
                         else case stale required (context_now ctx) b of
                           Some reason \<Rightarrow> Denied reason
                         | None \<Rightarrow>
                           (case find_map (uncovered_reason d b)
                                   ((case policy_contract required of None \<Rightarrow> [] | Some c' \<Rightarrow> [c']) @ required_contracts p) of
                              Some reason \<Rightarrow> Denied reason
                            | None \<Rightarrow>
                              (case find_map (\<lambda>q. unmet_verifier q (body_verifiers b)) (required_verifiers p) of
                                 Some reason \<Rightarrow> Denied reason
                               | None \<Rightarrow>
                                 (case find_map (unauthorised_waiver p) (body_obligations b) of
                                    Some reason \<Rightarrow> Denied reason
                                  | None \<Rightarrow>
                                    (case missing_approval required b of
                                       Some reason \<Rightarrow> Denied reason
                                     | None \<Rightarrow>
                                       (let gated = (case policy_contract required of
                                                       Some c' \<Rightarrow> for_contract (body_mode b) c' (body_obligations b)
                                                     | None \<Rightarrow> verdict) in
                                        if verdict_satisfies gated (policy_minimum required) then Allowed gated
                                        else Denied (VerdictBelowMinimum (policy_minimum required) gated)))))))))"

fun verdict_of_level :: "trust_level \<Rightarrow> assurance_verdict" where
  "verdict_of_level LevelVerified = VerdictAccepted"
| "verdict_of_level LevelConditional = VerdictConditional"
| "verdict_of_level LevelUnverified = VerdictUnverified"

definition check_trust_route ::
  "assurance_policy \<Rightarrow> ident \<Rightarrow> trust_class \<Rightarrow> (denial_reason, unit) result" where
  "check_trust_route p into cls =
     (case find (\<lambda>r. route_into r = into) (trust_routes p) of
        None \<Rightarrow> Ok ()
      | Some r \<Rightarrow>
          if level_of cls < route_minimum r
          then Err (VerdictBelowMinimum (verdict_of_level (route_minimum r)) (verdict_of_level (level_of cls)))
          else
            (case route_contract r of
               None \<Rightarrow> Ok ()
             | Some required \<Rightarrow>
                 if class_contract cls = Some (as_str required) then Ok ()
                 else Err (ContractMismatch required (Option.bind (class_contract cls) (\<lambda>t. ok (parse t))))))"

section \<open>What a crossing establishes\<close>

lemma satisfies_Accepted: "verdict_satisfies v VerdictAccepted \<longleftrightarrow> v = VerdictAccepted"
  by (cases v) (simp_all add: verdict_satisfies_def word_le_nat_alt)

text \<open>The records a requirement speaks about, and when they meet it.\<close>

definition selects :: "verifier_requirement \<Rightarrow> verifier_record \<Rightarrow> bool" where
  "selects q r =
     (identity_name (verifier_identity r) = requirement_name q \<and>
      requirement_version q \<in> {None, Some (identity_version (verifier_identity r))} \<and>
      requirement_environment q \<in> {None, Some (verifier_environment r)})"

definition verifier_met :: "verifier_requirement \<Rightarrow> verifier_record list \<Rightarrow> bool" where
  "verifier_met q records =
     (list_ex (selects q) records \<and>
      list_all (\<lambda>r. selects q r \<longrightarrow>
        verdict_satisfies (from_checker_verdict (verifier_verdict r)) (requirement_verdict q)) records)"

lemma select_version_Ok:
  "named \<noteq> [] \<Longrightarrow> select_version q named = Ok xs \<longleftrightarrow>
   xs = filter (\<lambda>r. requirement_version q \<in> {None, Some (identity_version (verifier_identity r))}) named \<and> xs \<noteq> []"
  by (cases "requirement_version q") (auto simp: select_version_def Let_def eq_commute)

lemma select_environment_Ok:
  "named \<noteq> [] \<Longrightarrow> select_environment q named = Ok xs \<longleftrightarrow>
   xs = filter (\<lambda>r. requirement_environment q \<in> {None, Some (verifier_environment r)}) named \<and> xs \<noteq> []"
  by (cases "requirement_environment q") (auto simp: select_environment_def Let_def eq_commute)

lemma unmet_verifier_None: "unmet_verifier q records = None \<longleftrightarrow> verifier_met q records"
proof -
  let ?named = "filter (\<lambda>r. identity_name (verifier_identity r) = requirement_name q) records"
  let ?bad = "\<lambda>r. \<not> verdict_satisfies (from_checker_verdict (verifier_verdict r)) (requirement_verdict q)"
  let ?V = "\<lambda>r. requirement_version q \<in> {None, Some (identity_version (verifier_identity r))}"
  let ?E = "\<lambda>r. requirement_environment q \<in> {None, Some (verifier_environment r)}"
  have twice: "filter ?E (filter ?V ?named) = filter (selects q) records"
    unfolding filter_filter by (rule filter_cong [OF refl]) (auto simp: selects_def)
  have sel: "and_then (select_version q ?named) (select_environment q) = Ok xs \<longleftrightarrow>
      xs = filter (selects q) records \<and> xs \<noteq> []" if named: "?named \<noteq> []" for xs
  proof (cases "filter ?V ?named = []")
    case True
    then have "filter (selects q) records = []" unfolding twice [symmetric] by simp
    moreover have "\<nexists>ys. select_version q ?named = Ok ys" unfolding select_version_Ok [OF named] using True by blast
    ultimately show ?thesis unfolding and_then_eq_Inr by blast
  next
    case False
    have "and_then (select_version q ?named) (select_environment q) = select_environment q (filter ?V ?named)"
      using False select_version_Ok [OF named, of q "filter ?V ?named"] by simp
    then show ?thesis using select_environment_Ok [OF False, of q xs] by (simp only: twice)
  qed
  have "unmet_verifier q records = None \<longleftrightarrow>
      ?named \<noteq> [] \<and> (\<exists>xs. and_then (select_version q ?named) (select_environment q) = Ok xs \<and> find ?bad xs = None)"
    by (cases "and_then (select_version q ?named) (select_environment q)") (simp_all add: unmet_verifier_def Let_def del: and_then_eq_Inr)
  also have "\<dots> \<longleftrightarrow> ?named \<noteq> [] \<and> filter (selects q) records \<noteq> [] \<and> find ?bad (filter (selects q) records) = None"
  proof (cases "?named = []")
    case False
    then show ?thesis unfolding sel [OF False] by blast
  qed simp
  also have "\<dots> \<longleftrightarrow> verifier_met q records"
    by (auto simp: verifier_met_def list_ex_iff list_all_iff filter_empty_conv find_None_iff selects_def)
  finally show ?thesis .
qed

lemma uncovered_reason_None: "uncovered_reason d b c = None \<longleftrightarrow> coverage d c b = CoverageComplete"
  by (simp add: uncovered_reason_def split: contract_coverage.splits)

lemma unauthorised_waiver_None:
  "unauthorised_waiver p ob = None \<longleftrightarrow>
   (\<forall>policy' authority. obligation_state ob = Waived policy' authority \<longrightarrow> authority \<in> set (waiver_authorities p))"
  by (auto simp: unauthorised_waiver_def split: discharge_state.splits)

lemma contract_scan:
  "foldl (\<lambda>(seen, out) ob. (True, out \<or> is_outstanding ob)) (s, out) obs =
   (s \<or> obs \<noteq> [], out \<or> list_ex is_outstanding obs)"
  by (induction obs arbitrary: s out) auto

lemma for_contract_Accepted:
  "for_contract m c obs = VerdictAccepted \<longleftrightarrow>
   evaluates_obligations m \<and> (\<exists>ob \<in> set obs. obligation_contract ob = c) \<and> (\<forall>ob \<in> set obs. \<not> has_failed ob) \<and>
   (\<forall>ob \<in> set obs. obligation_contract ob = c \<longrightarrow> is_discharged ob)"
  by (auto simp: for_contract_def contract_scan list_ex_iff filter_empty_conv is_discharged_iff)

text \<open>The conditions of a crossing, each of them one clause of the policy.\<close>

definition crossing_conditions ::
  "assurance_policy \<Rightarrow> workflow \<Rightarrow> boundary_policy \<Rightarrow> decision_context \<Rightarrow> certificate \<Rightarrow> bool" where
  "crossing_conditions p d required ctx c =
     (let b = certificate_body c in
      replay_digest c \<notin> set (context_revoked ctx) \<and>
      stale required (context_now ctx) b = None \<and>
      (\<forall>c' \<in> set_option (policy_contract required) \<union> set (required_contracts p). coverage d c' b = CoverageComplete) \<and>
      (\<forall>q \<in> set (required_verifiers p). verifier_met q (body_verifiers b)) \<and>
      (\<forall>ob \<in> set (body_obligations b). \<forall>policy' authority.
         obligation_state ob = Waived policy' authority \<longrightarrow> authority \<in> set (waiver_authorities p)) \<and>
      (\<forall>approval. policy_requires_approval required = Some approval \<longrightarrow>
         (\<exists>ob \<in> set (body_obligations b). statement_id (obligation_statement ob) = approval \<and> is_discharged ob)))"

definition gated_verdict :: "boundary_policy \<Rightarrow> certificate_body \<Rightarrow> assurance_verdict" where
  "gated_verdict required b =
     (case policy_contract required of
        Some c \<Rightarrow> for_contract (body_mode b) c (body_obligations b)
      | None \<Rightarrow> body_verdict b)"

lemma missing_approval_None:
  "missing_approval required b = None \<longleftrightarrow>
   (\<forall>approval. policy_requires_approval required = Some approval \<longrightarrow>
      (\<exists>ob \<in> set (body_obligations b). statement_id (obligation_statement ob) = approval \<and> is_discharged ob))"
  by (auto simp: missing_approval_def list_ex_iff split: option.splits)

text \<open>A chain of refusals is passed exactly when every one of them is.\<close>

lemma no_denial:
  "(case x of Some reason \<Rightarrow> Denied reason | None \<Rightarrow> f) = Allowed v \<longleftrightarrow> x = None \<and> f = Allowed v"
  by (cases x) auto

lemma if_allowed:
  "(if P then Denied reason else f) = Allowed v \<longleftrightarrow> \<not> P \<and> f = Allowed v"
  "(if P then f else Denied reason) = Allowed v \<longleftrightarrow> P \<and> f = Allowed v"
  "(if P then NotEnforced w m else f) = Allowed v \<longleftrightarrow> \<not> P \<and> f = Allowed v"
  by auto

lemma all_contracts: "set ((case x of None \<Rightarrow> [] | Some c \<Rightarrow> [c]) @ xs) = set_option x \<union> set xs"
  by (auto split: option.splits)

lemmas gate_passes = no_denial if_allowed all_contracts uncovered_reason_None unmet_verifier_None unauthorised_waiver_None
  missing_approval_None find_map_eq_None

lemma boundary_allowed:
  "decide_boundary digest_of p declared_mode d certificate' boundary ctx = Allowed v \<longleftrightarrow>
   enforces_boundaries (effective_mode p declared_mode) \<and>
   (\<exists>required c. policy_boundary p boundary = Some required \<and> certificate' = Some c \<and>
      digest_of d = Ok (subject_definition (body_subject (certificate_body c))) \<and>
      crossing_conditions p d required ctx c \<and>
      v = gated_verdict required (certificate_body c) \<and> verdict_satisfies v (policy_minimum required))"
proof (cases "\<exists>required c dd. policy_boundary p boundary = Some required \<and> certificate' = Some c \<and> digest_of d = Ok dd")
  case False
  then show ?thesis
    by (cases "policy_boundary p boundary"; cases certificate'; cases "digest_of d")
       (auto simp: decide_boundary_def Let_def)
next
  case True
  then obtain required c dd
    where eqs: "policy_boundary p boundary = Some required" "certificate' = Some c" "digest_of d = Ok dd"
    by auto
  show ?thesis
    unfolding decide_boundary_def Let_def eqs option.case sum.case gate_passes
    by (auto simp only: crossing_conditions_def Let_def gated_verdict_def boundary_decision.inject option.inject
        sum.inject not_not simp_thms)
qed

section \<open>The policy, as it is documented\<close>

text \<open>The clauses of a policy without the code that reads them. Evidence is recent when one piece of it
  is no older than the bound, in whole numbers; a contract is answered when the definition declares it
  and every statement of it has an obligation under the contract's name; the standing of a contract
  is read from its obligations, a failure anywhere outranking the rest.\<close>

definition recent_evidence :: "boundary_policy \<Rightarrow> recorded_time \<Rightarrow> certificate_body \<Rightarrow> bool" where
  "recent_evidence required now b \<longleftrightarrow>
     (\<forall>max_age. policy_max_age_ms required = Some max_age \<longrightarrow>
        (\<exists>e \<in> set (body_evidence b). now - evidence_captured_at e \<le> max_age))"

definition contract_answered :: "workflow \<Rightarrow> certificate_body \<Rightarrow> ident \<Rightarrow> bool" where
  "contract_answered d b c \<longleftrightarrow>
     (\<exists>declared. workflow_contract d c = Some declared \<and>
        (\<forall>s \<in> set (contract_obligations declared). \<exists>ob \<in> set (body_obligations b).
           obligation_contract ob = c \<and> statement_id (obligation_statement ob) = statement_id s))"

definition contract_standing :: "certificate_body \<Rightarrow> ident \<Rightarrow> assurance_verdict" where
  "contract_standing b c =
     (if \<not> evaluates_obligations (body_mode b) then VerdictUnverified
      else if \<exists>ob \<in> set (body_obligations b). has_failed ob then VerdictRejected
      else if \<forall>ob \<in> set (body_obligations b). obligation_contract ob \<noteq> c then VerdictUnverified
      else if \<forall>ob \<in> set (body_obligations b). obligation_contract ob = c \<longrightarrow> is_discharged ob then VerdictAccepted
      else VerdictConditional)"

definition policy_satisfied ::
  "assurance_policy \<Rightarrow> workflow \<Rightarrow> boundary_policy \<Rightarrow> decision_context \<Rightarrow> certificate \<Rightarrow> bool" where
  "policy_satisfied p d required ctx c \<longleftrightarrow>
     (let b = certificate_body c in
      replay_digest c \<notin> set (context_revoked ctx) \<and>
      recent_evidence required (context_now ctx) b \<and>
      (\<forall>c' \<in> set_option (policy_contract required) \<union> set (required_contracts p). contract_answered d b c') \<and>
      (\<forall>q \<in> set (required_verifiers p). verifier_met q (body_verifiers b)) \<and>
      (\<forall>ob \<in> set (body_obligations b). \<forall>policy' authority.
         obligation_state ob = Waived policy' authority \<longrightarrow> authority \<in> set (waiver_authorities p)) \<and>
      (\<forall>approval. policy_requires_approval required = Some approval \<longrightarrow>
         (\<exists>ob \<in> set (body_obligations b). statement_id (obligation_statement ob) = approval \<and> is_discharged ob)) \<and>
      verdict_satisfies
        (case policy_contract required of None \<Rightarrow> body_verdict b | Some c' \<Rightarrow> contract_standing b c') (policy_minimum required))"

text \<open>The ages of the evidence fit into \<open>i64\<close>, as they do for times after the epoch.\<close>

definition ages_fit :: "decision_context \<Rightarrow> certificate \<Rightarrow> bool" where
  "ages_fit ctx c \<longleftrightarrow>
     (\<forall>e \<in> set (body_evidence (certificate_body c)).
        i64_min \<le> context_now ctx - evidence_captured_at e \<and> context_now ctx - evidence_captured_at e \<le> i64_max)"

lemma fold_max_Max: "fold max ts t = Max (insert t (set ts))" for t :: int
  by (metis Max.set_eq_fold list.simps(15))

lemma newest_evidence_Some:
  "newest_evidence b = Some t \<longleftrightarrow> body_evidence b \<noteq> [] \<and> t = Max (evidence_captured_at ` set (body_evidence b))"
  by (cases "body_evidence b") (auto simp: newest_evidence_def fold_max_Max)

lemma i64_wrapping_sub_exact: "i64_min \<le> a - b \<Longrightarrow> a - b \<le> i64_max \<Longrightarrow> i64_wrapping_sub a b = a - b"
  by (simp add: i64_wrapping_sub_def i64_min_def i64_max_def)

lemma stale_recent:
  assumes "ages_fit ctx c"
  shows "stale required (context_now ctx) (certificate_body c) = None \<longleftrightarrow>
    recent_evidence required (context_now ctx) (certificate_body c)"
proof (cases "body_evidence (certificate_body c) = []")
  case True
  then have "newest_evidence (certificate_body c) = None" by (simp add: newest_evidence_def)
  then show ?thesis using True by (auto simp: stale_def recent_evidence_def split: option.splits)
next
  case False
  let ?ts = "evidence_captured_at ` set (body_evidence (certificate_body c))"
  have newest: "newest_evidence (certificate_body c) = Some (Max ?ts)" using False by (simp add: newest_evidence_Some)
  have "Max ?ts \<in> ?ts" using False by (intro Max_in) auto
  then have exact: "i64_wrapping_sub (context_now ctx) (Max ?ts) = context_now ctx - Max ?ts"
    using assms by (auto simp: ages_fit_def intro!: i64_wrapping_sub_exact)
  have fresh: "context_now ctx - Max ?ts \<le> max_age \<longleftrightarrow> (\<exists>t \<in> ?ts. context_now ctx - t \<le> max_age)" for max_age
    using \<open>Max ?ts \<in> ?ts\<close> Max_ge [of ?ts] by (meson diff_left_mono finite_imageI List.finite_set order_trans)
  show ?thesis
  proof (cases "policy_max_age_ms required")
    case (Some max_age)
    then show ?thesis using fresh [of max_age] by (simp add: stale_def recent_evidence_def newest exact Let_def not_less [symmetric]) blast
  qed (simp add: stale_def recent_evidence_def)
qed

lemma coverage_answered: "coverage d c b = CoverageComplete \<longleftrightarrow> contract_answered d b c"
  by (auto simp: coverage_Complete contract_answered_def accounted_for_def list_ex_iff workflow_contract_def dest: find_SomeD)

lemma for_contract_standing: "for_contract (body_mode b) c (body_obligations b) = contract_standing b c"
  by (auto simp: for_contract_def contract_standing_def contract_scan list_ex_iff filter_empty_conv is_discharged_iff)

lemma policy_satisfied_iff:
  assumes "ages_fit ctx c"
  shows "policy_satisfied p d required ctx c \<longleftrightarrow>
    crossing_conditions p d required ctx c \<and> verdict_satisfies (gated_verdict required (certificate_body c)) (policy_minimum required)"
  by (simp add: policy_satisfied_def crossing_conditions_def Let_def stale_recent [OF assms, symmetric] coverage_answered
      gated_verdict_def for_contract_standing cong: option.case_cong)

text \<open>C4. The gate is exact: where the mode enforces boundaries, one is crossed exactly when the policy
  governs it and a certificate about this very definition satisfies every clause of the policy as it
  is documented: it is not revoked, has evidence no older than the bound, answers every statement of
  every required contract, satisfies every required verifier with every record the requirement
  selects, was waived only by an authorised party, carries the required approval, and reaches the
  minimum verdict. The hypothesis is that the age of the evidence fits into 64 bits; without it the
  subtraction wraps around (\<open>ancient_evidence_is_fresh\<close>) or, in a debug build, panics. A boundary the
  mode does not enforce is never in the way.\<close>

theorem boundary_allowed_exactly:
  assumes "\<And>c. certificate' = Some c \<Longrightarrow> ages_fit ctx c"
  shows "permits_crossing (decide_boundary digest_of p declared_mode d certificate' boundary ctx) \<longleftrightarrow>
   (if enforces_boundaries (effective_mode p declared_mode)
    then \<exists>required c. policy_boundary p boundary = Some required \<and> certificate' = Some c \<and>
           digest_of d = Ok (subject_definition (body_subject (certificate_body c))) \<and> policy_satisfied p d required ctx c
    else True)"
proof -
  have "decide_boundary digest_of p declared_mode d certificate' boundary ctx = NotEnforced v m \<Longrightarrow>
      \<not> enforces_boundaries (effective_mode p declared_mode)" for v m
    unfolding decide_boundary_def Let_def by (rule ccontr) (simp split: option.splits sum.splits if_splits)
  moreover have "\<not> enforces_boundaries (effective_mode p declared_mode) \<Longrightarrow>
      \<exists>v m. decide_boundary digest_of p declared_mode d certificate' boundary ctx = NotEnforced v m"
    by (simp add: decide_boundary_def Let_def)
  moreover have "(\<exists>v. decide_boundary digest_of p declared_mode d certificate' boundary ctx = Allowed v) \<longleftrightarrow>
      enforces_boundaries (effective_mode p declared_mode) \<and>
      (\<exists>required c. policy_boundary p boundary = Some required \<and> certificate' = Some c \<and>
         digest_of d = Ok (subject_definition (body_subject (certificate_body c))) \<and> policy_satisfied p d required ctx c)"
    unfolding boundary_allowed using policy_satisfied_iff [OF assms] by blast
  moreover have "permits_crossing dc \<longleftrightarrow> (\<exists>v. dc = Allowed v) \<or> (\<exists>v m. dc = NotEnforced v m)" for dc
    by (cases dc) auto
  ultimately show ?thesis by (cases "enforces_boundaries (effective_mode p declared_mode)") auto
qed

text \<open>C13. A boundary that demands acceptance under a contract is crossed, when it is enforced, only by
  a run in which nothing failed and every statement the definition declares for that contract
  was discharged under that contract's name.\<close>

theorem crossing_is_earned:
  assumes "decide_boundary digest_of p declared_mode d certificate' boundary ctx = Allowed v"
    and "policy_boundary p boundary = Some required" "policy_minimum required = VerdictAccepted"
    and "policy_contract required = Some c"
  shows "\<exists>cert declared. certificate' = Some cert \<and> workflow_contract d c = Some declared \<and>
    (\<forall>ob \<in> set (body_obligations (certificate_body cert)). \<not> has_failed ob) \<and>
    (\<forall>s \<in> set (contract_obligations declared). \<exists>ob \<in> set (body_obligations (certificate_body cert)).
       obligation_contract ob = c \<and> statement_id (obligation_statement ob) = statement_id s \<and> is_discharged ob)"
proof -
  from assms(1) obtain cert where cert: "certificate' = Some cert" and cond: "crossing_conditions p d required ctx cert"
    and sat: "verdict_satisfies (gated_verdict required (certificate_body cert)) (policy_minimum required)"
    unfolding boundary_allowed using assms(2) by auto
  have "gated_verdict required (certificate_body cert) = VerdictAccepted"
    using sat assms(3) by (simp add: satisfies_Accepted)
  then have acc: "(\<forall>ob \<in> set (body_obligations (certificate_body cert)). \<not> has_failed ob) \<and>
      (\<forall>ob \<in> set (body_obligations (certificate_body cert)). obligation_contract ob = c \<longrightarrow> is_discharged ob)"
    using assms(4) by (simp add: gated_verdict_def for_contract_Accepted)
  have "coverage d c (certificate_body cert) = CoverageComplete"
    using cond assms(4) by (simp add: crossing_conditions_def Let_def)
  from covered_discharged [OF this] acc cert show ?thesis by blast
qed

definition sample_policy :: "ident option \<Rightarrow> i64 option \<Rightarrow> assurance_policy" where
  "sample_policy approval age =
     \<lparr>policy_id = Identifier ''p'', policy_version = ''1'', policy_mode = Enforce, required_contracts = [],
      required_verifiers = [],
      policy_boundaries = [(Identifier ''publish'',
        \<lparr>policy_minimum = VerdictAccepted, policy_contract = Some (Identifier ''build''), policy_requires_approval = approval,
         policy_max_age_ms = age\<rparr>)],
      waiver_authorities = [], trust_routes = []\<rparr>"

definition publish_decision :: "recorded_time \<Rightarrow> boundary_decision" where
  "publish_decision now =
     decide_boundary (\<lambda>d. Ok sample_digest :: (unit, digest) result) (sample_policy None (Some 1000)) Observe sample_certified
       (Some (sample_certificate (Identifier ''build'') 0)) (Identifier ''publish'') \<lparr>context_now = now, context_revoked = []\<rparr>"

theorem boundary_allowed_exactly_witness:
  "\<exists>required. policy_boundary (sample_policy None (Some 1000)) (Identifier ''publish'') = Some required \<and>
     policy_satisfied (sample_policy None (Some 1000)) sample_certified required \<lparr>context_now = 500, context_revoked = []\<rparr>
       (sample_certificate (Identifier ''build'') 0) \<and>
     \<not> policy_satisfied (sample_policy None (Some 1000)) sample_certified required \<lparr>context_now = 1001, context_revoked = []\<rparr>
       (sample_certificate (Identifier ''build'') 0)"
proof -
  have decided: "permits_crossing (publish_decision 500)" "\<not> permits_crossing (publish_decision 1001)" by code_simp+
  have mode: "enforces_boundaries (effective_mode (sample_policy None (Some 1000)) Observe)" by code_simp
  have subject: "subject_definition (body_subject (certificate_body (sample_certificate (Identifier ''build'') 0))) = sample_digest"
    by code_simp
  have fit: "ages_fit \<lparr>context_now = now, context_revoked = []\<rparr> (sample_certificate (Identifier ''build'') 0)"
    if "now \<in> {500, 1001}" for now
  proof -
    have "body_evidence (certificate_body (sample_certificate (Identifier ''build'') 0)) = [sample_evidence_ref 0]" by code_simp
    then show ?thesis using that by (auto simp: ages_fit_def sample_evidence_ref_def i64_min_def i64_max_def)
  qed
  from boundary_allowed_exactly [of "Some (sample_certificate (Identifier ''build'') 0)" "\<lparr>context_now = 500, context_revoked = []\<rparr>"
      "\<lambda>d. Ok sample_digest :: (unit, digest) result" "sample_policy None (Some 1000)" Observe sample_certified "Identifier ''publish''"]
    boundary_allowed_exactly [of "Some (sample_certificate (Identifier ''build'') 0)" "\<lparr>context_now = 1001, context_revoked = []\<rparr>"
      "\<lambda>d. Ok sample_digest :: (unit, digest) result" "sample_policy None (Some 1000)" Observe sample_certified "Identifier ''publish''"]
  show ?thesis using decided fit mode subject by (auto simp: publish_decision_def)
qed

theorem crossing_is_earned_witness:
  "decide_boundary (\<lambda>d. Ok sample_digest :: (unit, digest) result) (sample_policy None (Some 1000)) Observe sample_certified
     (Some (sample_certificate (Identifier ''build'') 0)) (Identifier ''publish'')
     \<lparr>context_now = 500, context_revoked = []\<rparr> = Allowed VerdictAccepted \<and>
   (\<exists>cert :: certificate. \<forall>ob \<in> set (body_obligations (certificate_body cert)). \<not> has_failed ob)"
proof -
  have allowed: "decide_boundary (\<lambda>d. Ok sample_digest :: (unit, digest) result) (sample_policy None (Some 1000)) Observe
     sample_certified (Some (sample_certificate (Identifier ''build'') 0)) (Identifier ''publish'')
     \<lparr>context_now = 500, context_revoked = []\<rparr> = Allowed VerdictAccepted"
    by code_simp
  from crossing_is_earned [OF allowed, of "\<lparr>policy_minimum = VerdictAccepted, policy_contract = Some (Identifier ''build''),
      policy_requires_approval = None, policy_max_age_ms = Some 1000\<rparr>" "Identifier ''build''"]
  show ?thesis using allowed by (auto simp: policy_boundary_def sample_policy_def)
qed

text \<open>Freshness is decided on a difference that wraps around: evidence dated at the smallest
  64-bit time, older than any bound, is accepted as fresh by a boundary that allows one second.\<close>

theorem ancient_evidence_is_fresh:
  "decide_boundary (\<lambda>d. Ok sample_digest :: (unit, digest) result) (sample_policy None (Some 1000)) Observe sample_certified
     (Some (sample_certificate (Identifier ''build'') i64_min)) (Identifier ''publish'')
     \<lparr>context_now = 1700000000000, context_revoked = []\<rparr> = Allowed VerdictAccepted"
  by code_simp

end
