(* ===== verification/Quantity.thy ===== *)
theory Quantity
  imports Prelude Complex_Main
begin

text \<open>
  Exact fixed-point numbers (\<open>crates/kernel/src/quantity.rs\<close>) and the arithmetic the kernel
  recomputes (\<open>ArithOp\<close> in \<open>crates/kernel/src/ir.rs\<close>). A quantity is a 128-bit count of units
  and a scale; every operation that would leave the range answers \<open>None\<close>. The meaning of a
  quantity is a rational number, and the lemmas compare every operation with it.
\<close>

section \<open>Quantities\<close>

definition i128_min :: i128 where "i128_min = - (2 ^ 127)"
definition i128_max :: i128 where "i128_max = 2 ^ 127 - 1"

text \<open>The result of a checked operation on \<open>i128\<close>.\<close>

definition i128_checked :: "int \<Rightarrow> i128 option" where
  "i128_checked n = (if i128_min \<le> n \<and> n \<le> i128_max then Some n else None)"

definition MAX_SCALE :: u8 where
  "MAX_SCALE = 18"

datatype quantity_error =
    Malformed string
  | ScaleTooLarge string
  | OutOfRange

record quantity =
  units :: i128
  scale :: u8

definition quantity_integer :: "i128 \<Rightarrow> quantity" where
  "quantity_integer n = \<lparr>units = n, scale = 0\<rparr>"

definition quantity_new :: "i128 \<Rightarrow> u8 \<Rightarrow> (quantity_error, quantity) result" where
  "quantity_new n s =
     (if s > MAX_SCALE then Err (ScaleTooLarge (fmt_int n @ ''e-'' @ fmt_u s))
      else Ok \<lparr>units = n, scale = s\<rparr>)"

section \<open>Text\<close>

definition is_ascii_digit :: "char \<Rightarrow> bool" where
  "is_ascii_digit c = (let n = of_char c :: nat in 48 \<le> n \<and> n \<le> 57)"

definition digits_value :: "string \<Rightarrow> nat" where
  "digits_value s = foldl (\<lambda>acc c. 10 * acc + (of_char c - 48)) 0 s"

text \<open>\<open>str::split_once\<close> at a character.\<close>

definition split_once :: "char \<Rightarrow> string \<Rightarrow> (string \<times> string) option" where
  "split_once c s =
     (if c \<in> set s then Some (takeWhile (\<lambda>x. x \<noteq> c) s, tl (dropWhile (\<lambda>x. x \<noteq> c) s)) else None)"

definition quantity_parse :: "string \<Rightarrow> (quantity_error, quantity) result" where
  "quantity_parse text =
     (let negative = (first text = Some CHR ''-'');
          digits = (if negative then tl text else text);
          (integral, fractional) = (case split_once CHR ''.'' digits of Some p \<Rightarrow> p | None \<Rightarrow> (digits, []))
      in
        if integral = [] \<or> \<not> list_all is_ascii_digit integral then Err (Malformed text)
        else if length integral > 1 \<and> first integral = Some CHR ''0'' then Err (Malformed text)
        else if CHR ''.'' \<in> set digits \<and> (fractional = [] \<or> \<not> list_all is_ascii_digit fractional)
        then Err (Malformed text)
        else if length fractional > 255 then Err (ScaleTooLarge text)
        else if (of_nat (length fractional) :: u8) > MAX_SCALE then Err (ScaleTooLarge text)
        else
          (case i128_checked (int (digits_value (integral @ fractional))) of
             None \<Rightarrow> Err OutOfRange
           | Some n \<Rightarrow>
               Ok \<lparr>units = (if negative then - n else n), scale = of_nat (length fractional)\<rparr>))"

definition quantity_display :: "quantity \<Rightarrow> string" where
  "quantity_display q =
     (if scale q = 0 then fmt_int (units q)
      else
        (let sign = (if units q < 0 then ''-'' else []);
             digits = fmt_nat (nat \<bar>units q\<bar>);
             places = unat (scale q);
             padded = (if length digits \<le> places
                       then replicate (places - length digits + 1) CHR ''0'' @ digits else digits);
             split = length padded - places
         in sign @ take split padded @ ''.'' @ drop split padded))"

section \<open>Arithmetic\<close>

definition rescaled :: "quantity \<Rightarrow> u8 \<Rightarrow> quantity option" where
  "rescaled q s =
     (if s < scale q \<or> s > MAX_SCALE then None
      else
        Option.bind (i128_checked (10 ^ unat (s - scale q))) (\<lambda>factor.
        Option.bind (i128_checked (units q * factor)) (\<lambda>n. Some \<lparr>units = n, scale = s\<rparr>)))"

definition aligned :: "quantity \<Rightarrow> quantity \<Rightarrow> (i128 \<times> i128 \<times> u8) option" where
  "aligned q r =
     (let s = max (scale q) (scale r) in
      Option.bind (rescaled q s) (\<lambda>q'. Option.bind (rescaled r s) (\<lambda>r'. Some (units q', units r', s))))"

definition checked_add :: "quantity \<Rightarrow> quantity \<Rightarrow> quantity option" where
  "checked_add q r =
     Option.bind (aligned q r) (\<lambda>(left, right, s).
       Option.bind (i128_checked (left + right)) (\<lambda>n. Some \<lparr>units = n, scale = s\<rparr>))"

definition checked_sub :: "quantity \<Rightarrow> quantity \<Rightarrow> quantity option" where
  "checked_sub q r =
     Option.bind (aligned q r) (\<lambda>(left, right, s).
       Option.bind (i128_checked (left - right)) (\<lambda>n. Some \<lparr>units = n, scale = s\<rparr>))"

definition u8_checked_add :: "u8 \<Rightarrow> u8 \<Rightarrow> u8 option" where
  "u8_checked_add a b = (if unat a + unat b < 256 then Some (a + b) else None)"

definition checked_mul :: "quantity \<Rightarrow> quantity \<Rightarrow> quantity option" where
  "checked_mul q r =
     Option.bind (u8_checked_add (scale q) (scale r)) (\<lambda>s.
       if s > MAX_SCALE then None
       else Option.bind (i128_checked (units q * units r)) (\<lambda>n. Some \<lparr>units = n, scale = s\<rparr>))"

datatype ordering = OrdLess | OrdEqual | OrdGreater

definition cmp_int :: "int \<Rightarrow> int \<Rightarrow> ordering" where
  "cmp_int a b = (if a < b then OrdLess else if a = b then OrdEqual else OrdGreater)"

definition partial_cmp_exact :: "quantity \<Rightarrow> quantity \<Rightarrow> ordering option" where
  "partial_cmp_exact q r = map_option (\<lambda>(left, right, s). cmp_int left right) (aligned q r)"

text \<open>\<open>PartialEq\<close>: equality of values.\<close>

definition quantity_eq :: "quantity \<Rightarrow> quantity \<Rightarrow> bool" where
  "quantity_eq q r = (partial_cmp_exact q r = Some OrdEqual)"

datatype arith_op = Sum | Difference | Product | Minimum | Maximum

fun arith_op_str :: "arith_op \<Rightarrow> string" where
  "arith_op_str Sum = ''sum''"
| "arith_op_str Difference = ''difference''"
| "arith_op_str Product = ''product''"
| "arith_op_str Minimum = ''min''"
| "arith_op_str Maximum = ''max''"

text \<open>One turn of the loop over the operands.\<close>

fun arith_step :: "arith_op \<Rightarrow> quantity \<Rightarrow> quantity \<Rightarrow> quantity option" where
  "arith_step Sum acc x = checked_add acc x"
| "arith_step Difference acc x = checked_sub acc x"
| "arith_step Product acc x = checked_mul acc x"
| "arith_step Minimum acc x =
     map_option (\<lambda>ord. if ord = OrdGreater then x else acc) (partial_cmp_exact acc x)"
| "arith_step Maximum acc x =
     map_option (\<lambda>ord. if ord = OrdLess then x else acc) (partial_cmp_exact acc x)"

fun arith_loop :: "arith_op \<Rightarrow> quantity \<Rightarrow> quantity list \<Rightarrow> quantity option" where
  "arith_loop op acc [] = Some acc"
| "arith_loop op acc (x # xs) = Option.bind (arith_step op acc x) (\<lambda>acc'. arith_loop op acc' xs)"

fun arith_apply :: "arith_op \<Rightarrow> quantity list \<Rightarrow> quantity option" where
  "arith_apply op [] = None"
| "arith_apply op (q # qs) = arith_loop op q qs"

section \<open>Meaning\<close>

text \<open>The values the type can hold, and the rational number a quantity stands for.\<close>

definition quantity_wf :: "quantity \<Rightarrow> bool" where
  "quantity_wf q = (i128_min \<le> units q \<and> units q \<le> i128_max \<and> unat (scale q) \<le> 18)"

definition amount :: "quantity \<Rightarrow> rat" where
  "amount q = of_int (units q) / 10 ^ unat (scale q)"

text \<open>The operations on rational numbers, with nothing that can overflow.\<close>

fun arith_reference :: "arith_op \<Rightarrow> rat \<Rightarrow> rat \<Rightarrow> rat" where
  "arith_reference Sum a b = a + b"
| "arith_reference Difference a b = a - b"
| "arith_reference Product a b = a * b"
| "arith_reference Minimum a b = min a b"
| "arith_reference Maximum a b = max a b"

lemma i128_checked_Some [simp]:
  "i128_checked n = Some m \<longleftrightarrow> m = n \<and> i128_min \<le> n \<and> n \<le> i128_max"
  by (auto simp: i128_checked_def)

lemma MAX_SCALE_less [simp]: "MAX_SCALE < s \<longleftrightarrow> 18 < unat s"
  by (simp add: MAX_SCALE_def word_less_nat_alt)

lemma power_ten_fits: "k \<le> 18 \<Longrightarrow> i128_checked (10 ^ k) = Some (10 ^ k)"
proof -
  assume "k \<le> 18"
  then have "(10 :: int) ^ k \<le> 10 ^ 18" by (intro power_increasing) auto
  then have "10 ^ k \<le> i128_max" by (rule order_trans) (simp add: i128_max_def)
  moreover have "i128_min \<le> 10 ^ k" by (rule order_trans [of _ 0]) (simp_all add: i128_min_def)
  ultimately show ?thesis by simp
qed

text \<open>Bringing a quantity to a larger scale keeps its amount, and fails only for want of range.\<close>

lemma rescaled_Some:
  assumes "unat (scale q) \<le> unat s" "unat s \<le> 18"
  shows "rescaled q s = Some q' \<longleftrightarrow>
    (let n = units q * 10 ^ (unat s - unat (scale q)) in
     i128_min \<le> n \<and> n \<le> i128_max \<and> q' = \<lparr>units = n, scale = s\<rparr>)"
proof -
  have "unat (s - scale q) = unat s - unat (scale q)"
    using assms by (simp add: unat_sub word_le_nat_alt)
  moreover have "i128_checked (10 ^ (unat s - unat (scale q))) = Some (10 ^ (unat s - unat (scale q)))"
    using assms by (intro power_ten_fits) simp
  moreover have "\<not> s < scale q" using assms(1) by (simp add: word_less_nat_alt)
  moreover have "\<not> MAX_SCALE < s" using assms(2) by simp
  ultimately show ?thesis by (auto simp: rescaled_def Let_def i128_checked_def)
qed

lemma amount_rescaled:
  assumes "k \<le> s"
  shows "of_int (n * 10 ^ (s - k)) / 10 ^ s = (of_int n / 10 ^ k :: rat)"
proof -
  have "(10 :: rat) ^ s = 10 ^ (s - k) * 10 ^ k"
    using assms by (simp flip: power_add)
  then show ?thesis by simp
qed

lemma aligned_Some:
  assumes "quantity_wf q" "quantity_wf r" "aligned q r = Some (a, b, s)"
  shows "unat s \<le> 18" "amount q = of_int a / 10 ^ unat s" "amount r = of_int b / 10 ^ unat s"
proof -
  have max: "s = max (scale q) (scale r)"
    using assms(3) by (auto simp: aligned_def Let_def bind_eq_Some_conv)
  have le: "unat (scale q) \<le> unat s" "unat (scale r) \<le> unat s"
    by (simp_all add: max word_le_nat_alt [symmetric])
  have bound: "unat s \<le> 18"
    using assms(1,2) by (simp add: max max_def quantity_wf_def)
  show "unat s \<le> 18" by (fact bound)
  show "amount q = of_int a / 10 ^ unat s" "amount r = of_int b / 10 ^ unat s"
    using assms(3) le bound amount_rescaled
    by (auto simp: aligned_def Let_def bind_eq_Some_conv max [symmetric] rescaled_Some amount_def)
qed

text \<open>A single scale suffices for equal amounts: no comparison of equal values is refused.\<close>

lemma aligned_equal_le:
  assumes wf: "quantity_wf q" "quantity_wf r" and eq: "amount q = amount r"
    and le: "unat (scale q) \<le> unat (scale r)"
  shows "aligned q r = Some (units r, units r, scale r)"
proof -
  define k where "k = unat (scale r) - unat (scale q)"
  have "unat (scale r) = unat (scale q) + k" using le by (simp add: k_def)
  with eq have "of_int (units q) * 10 ^ k = (of_int (units r) :: rat)"
    by (simp add: amount_def field_simps power_add)
  then have "of_int (units q * 10 ^ k) = (of_int (units r) :: rat)" by simp
  then have n: "units q * 10 ^ k = units r" by (simp only: of_int_eq_iff)
  have m: "max (scale q) (scale r) = scale r" using le by (simp add: max_def word_le_nat_alt)
  have "rescaled q (scale r) = Some \<lparr>units = units r, scale = scale r\<rparr>"
    "rescaled r (scale r) = Some \<lparr>units = units r, scale = scale r\<rparr>"
    using wf le n by (simp_all add: rescaled_Some quantity_wf_def Let_def flip: k_def)
  then show ?thesis by (simp add: aligned_def m Let_def)
qed

lemma aligned_equal:
  assumes "quantity_wf q" "quantity_wf r" "amount q = amount r"
  shows "\<exists>a s. aligned q r = Some (a, a, s)"
proof (cases "unat (scale q) \<le> unat (scale r)")
  case True
  with assms show ?thesis by (blast intro: aligned_equal_le)
next
  case False
  with assms have "aligned r q = Some (units q, units q, scale q)" by (intro aligned_equal_le) auto
  then show ?thesis by (auto simp: aligned_def Let_def bind_eq_Some_conv max.commute)
qed

lemma amount_cmp:
  assumes "quantity_wf q" "quantity_wf r" "partial_cmp_exact q r = Some ord"
  shows "ord = OrdLess \<longleftrightarrow> amount q < amount r" "ord = OrdEqual \<longleftrightarrow> amount q = amount r"
    "ord = OrdGreater \<longleftrightarrow> amount q > amount r"
proof -
  obtain a b s where al: "aligned q r = Some (a, b, s)" and ord: "ord = cmp_int a b"
    using assms(3) by (auto simp: partial_cmp_exact_def)
  note am = aligned_Some(2,3) [OF assms(1,2) al]
  show "ord = OrdLess \<longleftrightarrow> amount q < amount r" "ord = OrdEqual \<longleftrightarrow> amount q = amount r"
    "ord = OrdGreater \<longleftrightarrow> amount q > amount r"
    by (simp_all add: am ord cmp_int_def divide_less_cancel)
qed

text \<open>Equality of quantities is equality of amounts, however each was spelled.\<close>

lemma quantity_eq_iff:
  assumes "quantity_wf q" "quantity_wf r"
  shows "quantity_eq q r \<longleftrightarrow> amount q = amount r"
proof
  assume "quantity_eq q r"
  then show "amount q = amount r"
    using amount_cmp(2) [OF assms] by (simp add: quantity_eq_def)
next
  assume "amount q = amount r"
  with aligned_equal [OF assms] show "quantity_eq q r"
    by (auto simp: quantity_eq_def partial_cmp_exact_def cmp_int_def)
qed

lemma checked_add_exact:
  assumes "quantity_wf q" "quantity_wf r" "checked_add q r = Some t"
  shows "quantity_wf t \<and> amount t = amount q + amount r"
proof -
  obtain a b s where al: "aligned q r = Some (a, b, s)" and t: "t = \<lparr>units = a + b, scale = s\<rparr>"
    and range: "i128_min \<le> a + b" "a + b \<le> i128_max"
    using assms(3) by (auto simp: checked_add_def bind_eq_Some_conv)
  show ?thesis
    using aligned_Some [OF assms(1,2) al] range by (simp add: t quantity_wf_def amount_def add_divide_distrib)
qed

lemma checked_sub_exact:
  assumes "quantity_wf q" "quantity_wf r" "checked_sub q r = Some t"
  shows "quantity_wf t \<and> amount t = amount q - amount r"
proof -
  obtain a b s where al: "aligned q r = Some (a, b, s)" and t: "t = \<lparr>units = a - b, scale = s\<rparr>"
    and range: "i128_min \<le> a - b" "a - b \<le> i128_max"
    using assms(3) by (auto simp: checked_sub_def bind_eq_Some_conv)
  show ?thesis
    using aligned_Some [OF assms(1,2) al] range by (simp add: t quantity_wf_def amount_def diff_divide_distrib)
qed

lemma checked_mul_exact:
  assumes "quantity_wf q" "quantity_wf r" "checked_mul q r = Some t"
  shows "quantity_wf t \<and> amount t = amount q * amount r"
proof -
  have sum: "unat (scale q + scale r) = unat (scale q) + unat (scale r)"
    using assms(1,2) by (simp add: quantity_wf_def unat_word_ariths)
  then show ?thesis
    using assms(3)
    by (auto simp: checked_mul_def u8_checked_add_def bind_eq_Some_conv quantity_wf_def amount_def power_add
        split: if_splits)
qed

lemma arith_step_exact:
  assumes "quantity_wf q" "quantity_wf r" "arith_step op q r = Some t"
  shows "quantity_wf t \<and> amount t = arith_reference op (amount q) (amount r)"
proof (cases op)
  case Minimum
  then obtain ord where ord: "partial_cmp_exact q r = Some ord" and t: "t = (if ord = OrdGreater then r else q)"
    using assms(3) by auto
  from amount_cmp(3) [OF assms(1,2) ord] show ?thesis using assms(1,2) Minimum by (simp add: t min_def)
next
  case Maximum
  then obtain ord where ord: "partial_cmp_exact q r = Some ord" and t: "t = (if ord = OrdLess then r else q)"
    using assms(3) by auto
  from amount_cmp(1) [OF assms(1,2) ord] show ?thesis using assms(1,2) Maximum by (simp add: t max_def)
next
  case Sum
  with assms checked_add_exact [OF assms(1,2)] show ?thesis by simp
next
  case Difference
  with assms checked_sub_exact [OF assms(1,2)] show ?thesis by simp
next
  case Product
  with assms checked_mul_exact [OF assms(1,2)] show ?thesis by simp
qed

lemma arith_loop_exact:
  assumes "arith_loop op q qs = Some t" "quantity_wf q" "\<forall>x \<in> set qs. quantity_wf x"
  shows "quantity_wf t \<and> amount t = foldl (arith_reference op) (amount q) (map amount qs)"
  using assms
proof (induction qs arbitrary: q)
  case (Cons x xs)
  then obtain u where u: "arith_step op q x = Some u" and rest: "arith_loop op u xs = Some t"
    by (auto simp: bind_eq_Some_conv)
  from Cons.prems u have "quantity_wf u \<and> amount u = arith_reference op (amount q) (amount x)"
    by (intro arith_step_exact) auto
  with Cons.IH [OF rest] Cons.prems(3) show ?case by simp
qed simp

text \<open>C36. Recomputed arithmetic is exact: a result of \<open>ArithOp::apply\<close> stands for the result of the
  same operations on rational numbers, in the order of the operands, and it equals a claimed
  quantity exactly when the claimed amount is that rational number. Nothing is rounded and no
  comparison of equal amounts is refused.\<close>

theorem arith_apply_exact:
  assumes "arith_apply op (q # qs) = Some t" "\<forall>x \<in> set (q # qs). quantity_wf x" "quantity_wf claimed"
  shows "amount t = foldl (arith_reference op) (amount q) (map amount qs) \<and>
         (quantity_eq t claimed \<longleftrightarrow> amount claimed = foldl (arith_reference op) (amount q) (map amount qs))"
proof -
  have t: "quantity_wf t \<and> amount t = foldl (arith_reference op) (amount q) (map amount qs)"
    using assms(1,2) by (intro arith_loop_exact) auto
  with quantity_eq_iff [of t claimed] assms(3) show ?thesis by auto
qed

theorem arith_apply_exact_witness:
  "quantity_eq \<lparr>units = 200, scale = 2\<rparr> \<lparr>units = 2, scale = 0\<rparr> \<and>
   amount \<lparr>units = 200, scale = 2\<rparr> =
     foldl (arith_reference Sum) (amount \<lparr>units = 150, scale = 2\<rparr>) (map amount [\<lparr>units = 5, scale = 1\<rparr>])"
proof -
  have app: "arith_apply Sum [\<lparr>units = 150, scale = 2\<rparr>, \<lparr>units = 5, scale = 1\<rparr>] = Some \<lparr>units = 200, scale = 2\<rparr>"
    by code_simp
  have eq: "quantity_eq \<lparr>units = 200, scale = 2\<rparr> \<lparr>units = 2, scale = 0\<rparr>" by code_simp
  have "\<forall>x \<in> set [\<lparr>units = 150, scale = 2\<rparr>, \<lparr>units = 5, scale = 1\<rparr>]. quantity_wf x"
    "quantity_wf \<lparr>units = 2, scale = 0\<rparr>"
    by (simp_all add: quantity_wf_def i128_min_def i128_max_def)
  from arith_apply_exact [OF app this] eq show ?thesis by simp
qed

section \<open>Reading back what was written\<close>

lemma is_ascii_digit_char: "d < 10 \<Longrightarrow> is_ascii_digit (digit_char d)"
  by (simp add: is_ascii_digit_def of_char_digit)

lemma fmt_nat_all_digits: "list_all is_ascii_digit (fmt_nat n)"
  using fmt_nat_digits is_ascii_digit_char by (fastforce simp: list_all_iff)

lemma digits_value_snoc: "digits_value (s @ [c]) = 10 * digits_value s + (of_char c - 48)"
  by (simp add: digits_value_def)

lemma digits_value_fmt_nat: "digits_value (fmt_nat n) = n"
proof (induction n rule: fmt_nat.induct)
  case (1 n)
  show ?case
  proof (cases "n < 10")
    case True
    then show ?thesis by (subst fmt_nat.simps) (simp add: digits_value_def of_char_digit)
  next
    case False
    then show ?thesis
      using 1 by (subst fmt_nat.simps) (simp add: digits_value_snoc of_char_digit)
  qed
qed

lemma digits_value_zeros: "digits_value (replicate k CHR ''0'' @ s) = digits_value s"
proof -
  have "foldl (\<lambda>acc c. 10 * acc + (of_char c - 48)) 0 (replicate k CHR ''0'') = (0 :: nat)"
    by (induction k) auto
  then show ?thesis by (simp add: digits_value_def)
qed

lemma fmt_nat_no_leading_zero: "length (fmt_nat n) > 1 \<Longrightarrow> first (fmt_nat n) \<noteq> Some CHR ''0''"
proof (induction n rule: fmt_nat.induct)
  case (1 n)
  then have big: "\<not> n < 10" by (subst (asm) fmt_nat.simps) (simp split: if_splits)
  then have snoc: "fmt_nat n = fmt_nat (n div 10) @ [digit_char (n mod 10)]" by (subst fmt_nat.simps) simp
  have head: "first (xs @ ys) = first xs" if "xs \<noteq> []" for xs ys :: string using that by (cases xs) auto
  show ?case
  proof (cases "n div 10 < 10")
    case True
    moreover have "0 < n div 10" using big by simp
    ultimately have "digit_char (n div 10) \<noteq> CHR ''0''"
      using of_char_digit [of "n div 10"] by auto
    with True snoc show ?thesis by (simp add: fmt_nat.simps [of "n div 10"])
  next
    case False
    then have "length (fmt_nat (n div 10)) > 1" by (subst fmt_nat.simps) (simp add: fmt_nat_nonempty)
    from "1.IH" [OF big this] snoc show ?thesis by (simp add: head fmt_nat_nonempty)
  qed
qed

lemma digit_not_sign: "list_all is_ascii_digit s \<Longrightarrow> CHR ''-'' \<notin> set s \<and> CHR ''.'' \<notin> set s"
  by (auto simp: list_all_iff is_ascii_digit_def Let_def)

lemma split_once_at: "c \<notin> set a \<Longrightarrow> split_once c (a @ c # b) = Some (a, b)"
  by (induction a) (auto simp: split_once_def)

text \<open>Text made of a sign, digits without a superfluous leading zero, and optional decimals, is read
  as those digits.\<close>

lemma parse_parts:
  fixes neg :: bool
  assumes "integral \<noteq> []" "list_all is_ascii_digit integral" "list_all is_ascii_digit fractional"
    and "length integral > 1 \<Longrightarrow> first integral \<noteq> Some CHR ''0''" "length fractional \<le> 18"
    and sc: "sc = of_nat (length fractional)"
  shows "quantity_parse ((if neg then ''-'' else []) @ integral @ (if fractional = [] then [] else CHR ''.'' # fractional)) =
    (case i128_checked (int (digits_value (integral @ fractional))) of
       None \<Rightarrow> Err OutOfRange
     | Some n \<Rightarrow> Ok \<lparr>units = (if neg then - n else n), scale = sc\<rparr>)"
proof -
  define rest where "rest = integral @ (if fractional = [] then [] else CHR ''.'' # fractional)"
  have no: "CHR ''-'' \<notin> set integral" "CHR ''.'' \<notin> set integral" "CHR ''.'' \<notin> set fractional"
    using digit_not_sign assms(2,3) by auto
  have head: "first rest \<noteq> Some CHR ''-''"
    using assms(1) no(1) by (cases integral) (auto simp: rest_def)
  have neg: "(first ((if neg then ''-'' else []) @ rest) = Some CHR ''-'') = neg"
    using head by simp
  have tail: "(if neg then tl ((if neg then ''-'' else []) @ rest) else (if neg then ''-'' else []) @ rest) = rest"
    by simp
  have split: "(case split_once CHR ''.'' rest of Some p \<Rightarrow> p | None \<Rightarrow> (rest, [])) = (integral, fractional)"
    using no by (cases "fractional = []") (auto simp: rest_def split_once_at, simp_all add: split_once_def rest_def)
  have dot: "CHR ''.'' \<in> set rest \<longleftrightarrow> fractional \<noteq> []" using no by (auto simp: rest_def)
  have "unat (of_nat (length fractional) :: u8) = length fractional"
    using assms(5) by (simp add: unat_of_nat)
  then have scale: "\<not> MAX_SCALE < (of_nat (length fractional) :: u8)" using assms(5) by simp
  have zero: "\<not> (length integral > 1 \<and> first integral = Some CHR ''0'')" using assms(4) by blast
  show ?thesis
    unfolding quantity_parse_def rest_def [symmetric] Let_def neg tail split prod.case dot sc if_not_P [OF zero]
    using assms(1-3,5) scale by simp
qed

lemma padded_digits:
  fixes n :: nat
  assumes "0 < places"
  defines "digits \<equiv> fmt_nat n"
  defines "padded \<equiv> (if length digits \<le> places then replicate (places - length digits + 1) CHR ''0'' @ digits else digits)"
  defines "split \<equiv> length padded - places"
  shows "take split padded \<noteq> []" "length (drop split padded) = places" "list_all is_ascii_digit padded"
    "digits_value padded = n" "length (take split padded) > 1 \<Longrightarrow> first (take split padded) \<noteq> Some CHR ''0''"
proof -
  have len: "places < length padded" by (auto simp: padded_def)
  show "take split padded \<noteq> []" "length (drop split padded) = places" using len by (auto simp: split_def)
  show "list_all is_ascii_digit padded"
    using fmt_nat_all_digits [of n] by (auto simp: padded_def digits_def list_all_iff is_ascii_digit_def)
  show "digits_value padded = n"
    by (simp add: padded_def digits_def digits_value_zeros digits_value_fmt_nat del: replicate_Suc replicate.simps)
  assume more: "length (take split padded) > 1"
  then have own: "padded = digits" by (auto simp: padded_def split_def split: if_splits)
  have "first (take k xs) = first xs" if "k > 0" for k and xs :: string using that by (cases xs; cases k) auto
  moreover have "length digits > 1" "split > 0" using more own by auto
  ultimately show "first (take split padded) \<noteq> Some CHR ''0''"
    using fmt_nat_no_leading_zero [of n] own by (simp add: digits_def)
qed

text \<open>C37. A quantity's text reads back as the same units and scale, with one exception: the most
  negative 128-bit count is written but refused when read, because its digits are read before
  its sign.\<close>

theorem quantity_parse_display:
  assumes "quantity_wf q"
  shows "quantity_parse (quantity_display q) = (if units q = i128_min then Err OutOfRange else Ok q)"
proof -
  define n where "n = nat \<bar>units q\<bar>"
  have checked: "(case i128_checked (int n) of None \<Rightarrow> Err OutOfRange
       | Some m \<Rightarrow> Ok \<lparr>units = (if units q < 0 then - m else m), scale = scale q\<rparr>) =
     (if units q = i128_min then Err OutOfRange else Ok q)"
    using assms by (auto simp: n_def i128_checked_def quantity_wf_def i128_min_def i128_max_def)
  show ?thesis
  proof (cases "scale q = 0")
    case True
    have "quantity_display q = (if units q < 0 then ''-'' else []) @ fmt_nat n @ (if [] = [] then [] else CHR ''.'' # [])"
      using True by (simp add: quantity_display_def fmt_int_def n_def)
    then show ?thesis
      using parse_parts [of "fmt_nat n" "[]" "scale q" "units q < 0"] checked True
      by (simp add: fmt_nat_nonempty fmt_nat_all_digits fmt_nat_no_leading_zero digits_value_fmt_nat)
  next
    case False
    define places where "places = unat (scale q)"
    have places: "0 < places" "places \<le> 18" "of_nat places = scale q"
      using False assms by (auto simp: places_def quantity_wf_def unat_gt_0)
    define padded where "padded = (if length (fmt_nat n) \<le> places
       then replicate (places - length (fmt_nat n) + 1) CHR ''0'' @ fmt_nat n else fmt_nat n)"
    define split where "split = length padded - places"
    note pad = padded_digits [OF places(1), of n, folded padded_def, folded split_def]
    have nonempty: "drop split padded \<noteq> []" using pad(2) places(1) by auto
    have "quantity_display q = (if units q < 0 then ''-'' else []) @ take split padded @
        (if drop split padded = [] then [] else CHR ''.'' # drop split padded)"
      using False nonempty
      by (simp add: quantity_display_def Let_def places_def n_def padded_def split_def)
    moreover have "list_all is_ascii_digit (take split padded)" "list_all is_ascii_digit (drop split padded)"
      using pad(3) by (metis append_take_drop_id list_all_append)+
    ultimately show ?thesis
      using parse_parts [of "take split padded" "drop split padded" "scale q" "units q < 0"] pad places checked by simp
  qed
qed

theorem quantity_parse_display_witness:
  "quantity_parse (quantity_display \<lparr>units = - 5, scale = 2\<rparr>) = Ok \<lparr>units = - 5, scale = 2\<rparr>"
  using quantity_parse_display [of "\<lparr>units = - 5, scale = 2\<rparr>"]
  by (simp add: quantity_wf_def i128_min_def i128_max_def)

section \<open>Order of the operands\<close>

text \<open>A sum that fits can be refused when its operands come in another order, because every partial sum
  has to fit as well.\<close>

theorem sum_depends_on_order:
  "arith_apply Sum [quantity_integer i128_max, quantity_integer 1, quantity_integer (- 1)] = None \<and>
   arith_apply Sum [quantity_integer i128_max, quantity_integer (- 1), quantity_integer 1] = Some (quantity_integer i128_max)"
  by (simp add: checked_add_def aligned_def rescaled_def quantity_integer_def i128_checked_def i128_max_def i128_min_def
      MAX_SCALE_def)

end
