(* ===== verification/Citation_Text.thy ===== *)
theory Citation_Text
  imports Quantity Ordered_Map
begin

text \<open>
  The text relation a citation is judged under (\<open>crates/kernel/src/text.rs\<close>). Cited text is
  any Unicode text, so here a Rust \<open>str\<close> is the list of its code points, and a byte offset is
  a sum of the UTF-8 lengths of code points. The tables of Unicode (default-ignorable code
  points, normalisation, case folding and segmentation) are crates outside the repository:
  they are the fields of \<open>unicode\<close>, a parameter of every definition that consults them.
\<close>

type_synonym utext = "nat list"

definition lit :: "string \<Rightarrow> utext" where
  "lit s = map of_char s"

record unicode =
  is_ignorable :: "nat \<Rightarrow> bool"
  nfd :: "utext \<Rightarrow> utext"
  fold_case :: "utext \<Rightarrow> utext"
  nfc :: "utext \<Rightarrow> utext"
  word_bound_indices :: "utext \<Rightarrow> nat list"
  sentence_bounds :: "utext \<Rightarrow> utext list"
  lowercase :: "utext \<Rightarrow> utext"
  is_alphanumeric :: "nat \<Rightarrow> bool"
  debug_text :: "utext \<Rightarrow> utext"

section \<open>Text and byte offsets\<close>

definition utf8_len :: "nat \<Rightarrow> nat" where
  "utf8_len c = (if c < 128 then 1 else if c < 2048 then 2 else if c < 65536 then 3 else 4)"

definition byte_len :: "utext \<Rightarrow> nat" where
  "byte_len t = sum_list (map utf8_len t)"

text \<open>\<open>&t[n..]\<close>: \<open>None\<close> where the source would panic, because \<open>n\<close> is past the end or inside a
  character.\<close>

fun skip_bytes :: "utext \<Rightarrow> nat \<Rightarrow> utext option" where
  "skip_bytes [] n = (if n = 0 then Some [] else None)"
| "skip_bytes (c # t) n =
     (if n = 0 then Some (c # t) else if utf8_len c \<le> n then skip_bytes t (n - utf8_len c) else None)"

fun take_bytes :: "utext \<Rightarrow> nat \<Rightarrow> utext option" where
  "take_bytes [] n = (if n = 0 then Some [] else None)"
| "take_bytes (c # t) n =
     (if n = 0 then Some []
      else if utf8_len c \<le> n then map_option ((#) c) (take_bytes t (n - utf8_len c)) else None)"

definition slice :: "utext \<Rightarrow> nat \<Rightarrow> nat \<Rightarrow> utext option" where
  "slice t a b = Option.bind (skip_bytes t a) (\<lambda>r. take_bytes r (b - a))"

definition is_char_boundary :: "utext \<Rightarrow> nat \<Rightarrow> bool" where
  "is_char_boundary t n = (skip_bytes t n \<noteq> None)"

text \<open>The property \<open>White_Space\<close>, which \<open>char::is_whitespace\<close>, \<open>trim\<close> and \<open>split_whitespace\<close> read.\<close>

definition is_white_space :: "nat \<Rightarrow> bool" where
  "is_white_space c =
     (9 \<le> c \<and> c \<le> 13 \<or> c = 32 \<or> c = 133 \<or> c = 160 \<or> c = 5760 \<or> 8192 \<le> c \<and> c \<le> 8202 \<or>
      c = 8232 \<or> c = 8233 \<or> c = 8239 \<or> c = 8287 \<or> c = 12288)"

definition trim_start :: "utext \<Rightarrow> utext" where
  "trim_start t = dropWhile is_white_space t"

definition trim_end_matches :: "(nat \<Rightarrow> bool) \<Rightarrow> utext \<Rightarrow> utext" where
  "trim_end_matches p t = rev (dropWhile p (rev t))"

definition trim_end :: "utext \<Rightarrow> utext" where
  "trim_end t = trim_end_matches is_white_space t"

definition utrim :: "utext \<Rightarrow> utext" where
  "utrim t = trim_end (trim_start t)"

fun split_at :: "(nat \<Rightarrow> bool) \<Rightarrow> utext \<Rightarrow> utext list" where
  "split_at p [] = [[]]"
| "split_at p (c # t) =
     (if p c then [] # split_at p t
      else case split_at p t of [] \<Rightarrow> [[c]] | w # ws \<Rightarrow> (c # w) # ws)"

definition split_whitespace :: "utext \<Rightarrow> utext list" where
  "split_whitespace t = filter (\<lambda>w. w \<noteq> []) (split_at is_white_space t)"

fun join_words :: "utext \<Rightarrow> utext list \<Rightarrow> utext" where
  "join_words sep [] = []"
| "join_words sep [w] = w"
| "join_words sep (w # ws) = w @ sep @ join_words sep ws"

fun starts_with :: "utext \<Rightarrow> utext \<Rightarrow> bool" where
  "starts_with t [] = True"
| "starts_with [] (c # p) = False"
| "starts_with (d # t) (c # p) = (c = d \<and> starts_with t p)"

definition strip_prefix :: "utext \<Rightarrow> utext \<Rightarrow> utext option" where
  "strip_prefix p t = (if starts_with t p then Some (drop (length p) t) else None)"

definition strip_suffix :: "utext \<Rightarrow> utext \<Rightarrow> utext option" where
  "strip_suffix p t = map_option rev (strip_prefix (rev p) (rev t))"

section \<open>The relation\<close>

definition plain_typography :: "nat \<Rightarrow> nat" where
  "plain_typography c =
     (if c \<in> {8216, 8217, 8218, 8219, 8242, 700} then 39
      else if c \<in> {8220, 8221, 8222, 8223, 8243} then 34
      else if c \<in> {8208, 8209, 8210, 8211, 8212, 8213, 8722} then 45
      else c)"

definition fold_text :: "unicode \<Rightarrow> utext \<Rightarrow> utext" where
  "fold_text u t =
     (let plain = map plain_typography (filter (\<lambda>c. \<not> is_ignorable u c) t);
          composed = nfc u (fold_case u (nfd u plain))
      in join_words [32] (split_whitespace composed))"

text \<open>The byte offsets of a character in a text.\<close>

fun match_offsets :: "nat \<Rightarrow> utext \<Rightarrow> nat \<Rightarrow> nat list" where
  "match_offsets c [] off = []"
| "match_offsets c (d # t) off = (if c = d then [off] else []) @ match_offsets c t (off + utf8_len d)"

definition word_boundaries :: "unicode \<Rightarrow> utext \<Rightarrow> nat list" where
  "word_boundaries u t =
     remdups (sort (word_bound_indices u t @ [byte_len t] @
       concat (map (\<lambda>off. [off, off + 1]) (match_offsets 39 t 0))))"

definition contains_folded :: "unicode \<Rightarrow> utext \<Rightarrow> utext \<Rightarrow> bool" where
  "contains_folded u t term' =
     (if term' = [] then False
      else
        (let boundaries = word_boundaries u t in
         list_ex (\<lambda>start. (case skip_bytes t start of None \<Rightarrow> False | Some rest \<Rightarrow> starts_with rest term') \<and>
                           start + byte_len term' \<in> set boundaries) boundaries))"

definition contains_term :: "unicode \<Rightarrow> utext \<Rightarrow> utext \<Rightarrow> bool" where
  "contains_term u t term' = contains_folded u (fold_text u t) (fold_text u term')"

section \<open>Whole words\<close>

lemma byte_len_simps [simp]:
  "byte_len [] = 0" "byte_len (c # t) = utf8_len c + byte_len t" "byte_len (s @ t) = byte_len s + byte_len t"
  by (simp_all add: byte_len_def)

lemma utf8_len_pos: "0 < utf8_len c"
  by (simp add: utf8_len_def)

text \<open>A slice is a part of the text at the byte offsets it names.\<close>

lemma skip_bytes_Some: "skip_bytes t n = Some r \<longleftrightarrow> (\<exists>p. t = p @ r \<and> byte_len p = n)"
proof (induction t n rule: skip_bytes.induct)
  case (2 c t n)
  show ?case
  proof (cases "n = 0")
    case True
    have "byte_len p = 0 \<longleftrightarrow> p = []" for p by (cases p) (auto simp: utf8_len_pos)
    with True show ?thesis by auto
  next
    case False
    have "(\<exists>p. c # t = p @ r \<and> byte_len p = n) \<longleftrightarrow> (\<exists>p. t = p @ r \<and> utf8_len c + byte_len p = n)"
      using False by (auto simp: Cons_eq_append_conv)
    with False 2 show ?thesis by auto
  qed
qed (auto simp: byte_len_def)

lemma take_bytes_append: "take_bytes (r @ q) (byte_len r) = Some r"
proof (induction r)
  case Nil
  then show ?case by (cases q) auto
next
  case (Cons c r)
  then show ?case using utf8_len_pos [of c] by auto
qed

lemma take_bytes_Some: "take_bytes t n = Some r \<longleftrightarrow> (\<exists>q. t = r @ q \<and> byte_len r = n)"
proof
  show "take_bytes t n = Some r \<Longrightarrow> \<exists>q. t = r @ q \<and> byte_len r = n"
    by (induction t n arbitrary: r rule: take_bytes.induct) (auto split: if_splits)
qed (auto simp: take_bytes_append)

lemma slice_Some: "slice t a b = Some r \<longleftrightarrow> (\<exists>p q. t = p @ r @ q \<and> byte_len p = a \<and> byte_len r = b - a)"
  by (auto simp: slice_def bind_eq_Some_conv skip_bytes_Some take_bytes_Some)

lemma starts_with_iff: "starts_with t p \<longleftrightarrow> (\<exists>r. t = p @ r)"
  by (induction t p rule: starts_with.induct) auto

lemma contains_folded_iff:
  "contains_folded u t term' \<longleftrightarrow>
   term' \<noteq> [] \<and> (\<exists>before after. t = before @ term' @ after \<and> byte_len before \<in> set (word_boundaries u t) \<and>
     byte_len before + byte_len term' \<in> set (word_boundaries u t))"
proof -
  have "(case skip_bytes t start of None \<Rightarrow> False | Some rest \<Rightarrow> starts_with rest term') \<longleftrightarrow>
      (\<exists>before after. t = before @ term' @ after \<and> byte_len before = start)" for start
  proof -
    have "(case x of None \<Rightarrow> False | Some rest \<Rightarrow> P rest) \<longleftrightarrow> (\<exists>rest. x = Some rest \<and> P rest)" for x :: "utext option" and P
      by (cases x) auto
    then show ?thesis by (auto simp: skip_bytes_Some starts_with_iff)
  qed
  then show ?thesis by (auto simp: contains_folded_def Let_def list_ex_iff)
qed

end
