(* ===== verification/Citation_Value.thy ===== *)
theory Citation_Value
  imports Citation_Text
begin

text \<open>
  Exact citation values (\<open>crates/kernel/src/value.rs\<close>): closed grammars of numbers, amounts of
  money and dates, and the search for an equal value in a cited text. A reading that policy
  does not settle is kept as a residual instead of being guessed.
\<close>

section \<open>Values\<close>

datatype value_type = NumberType | MoneyType | DateType

definition value_type_parse :: "string \<Rightarrow> value_type option" where
  "value_type_parse name =
     (if name = ''number'' then Some NumberType
      else if name = ''money'' then Some MoneyType
      else if name = ''date'' then Some DateType else None)"

fun value_type_str :: "value_type \<Rightarrow> string" where
  "value_type_str NumberType = ''number''"
| "value_type_str MoneyType = ''money''"
| "value_type_str DateType = ''date''"

datatype cited_value =
    CitedNumber quantity
  | CitedMoney string quantity
  | CitedDate nat nat nat

text \<open>The derived \<open>PartialEq\<close>, over the value equality of quantities.\<close>

fun cited_eq :: "cited_value \<Rightarrow> cited_value \<Rightarrow> bool" where
  "cited_eq (CitedNumber q) (CitedNumber r) = quantity_eq q r"
| "cited_eq (CitedMoney c q) (CitedMoney d r) = (c = d \<and> quantity_eq q r)"
| "cited_eq (CitedDate y m d) (CitedDate y' m' d') = (y = y' \<and> m = m' \<and> d = d')"
| "cited_eq v w = False"

definition pad_zeros :: "nat \<Rightarrow> nat \<Rightarrow> string" where
  "pad_zeros width n = (let s = fmt_nat n in replicate (width - length s) CHR ''0'' @ s)"

fun describe :: "cited_value \<Rightarrow> string" where
  "describe (CitedNumber q) = quantity_display q"
| "describe (CitedMoney c q) = c @ '' '' @ quantity_display q"
| "describe (CitedDate y m d) = pad_zeros 4 y @ ''-'' @ pad_zeros 2 m @ ''-'' @ pad_zeros 2 d"

section \<open>Grammars\<close>

definition is_digit :: "nat \<Rightarrow> bool" where
  "is_digit c = (48 \<le> c \<and> c \<le> 57)"

definition to_ascii_uppercase :: "utext \<Rightarrow> utext" where
  "to_ascii_uppercase t = map (\<lambda>c. if 97 \<le> c \<and> c \<le> 122 then c - 32 else c) t"

definition currency_codes :: "string list" where
  "currency_codes =
     [
      ''AED'', ''AFN'', ''ALL'', ''AMD'', ''AOA'', ''ARS'', ''AUD'', ''AWG'', ''AZN'', ''BAM'', ''BBD'', ''BDT'',
      ''BHD'', ''BIF'', ''BMD'', ''BND'', ''BOB'', ''BOV'', ''BRL'', ''BSD'', ''BTN'', ''BWP'', ''BYN'', ''BZD'',
      ''CAD'', ''CDF'', ''CHE'', ''CHF'', ''CHW'', ''CLF'', ''CLP'', ''CNY'', ''COP'', ''COU'', ''CRC'', ''CUP'',
      ''CVE'', ''CZK'', ''DJF'', ''DKK'', ''DOP'', ''DZD'', ''EGP'', ''ERN'', ''ETB'', ''EUR'', ''FJD'', ''FKP'',
      ''GBP'', ''GEL'', ''GHS'', ''GIP'', ''GMD'', ''GNF'', ''GTQ'', ''GYD'', ''HKD'', ''HNL'', ''HTG'', ''HUF'',
      ''IDR'', ''ILS'', ''INR'', ''IQD'', ''IRR'', ''ISK'', ''JMD'', ''JOD'', ''JPY'', ''KES'', ''KGS'', ''KHR'',
      ''KMF'', ''KPW'', ''KRW'', ''KWD'', ''KYD'', ''KZT'', ''LAK'', ''LBP'', ''LKR'', ''LRD'', ''LSL'', ''LYD'',
      ''MAD'', ''MDL'', ''MGA'', ''MKD'', ''MMK'', ''MNT'', ''MOP'', ''MRU'', ''MUR'', ''MVR'', ''MWK'', ''MXN'',
      ''MXV'', ''MYR'', ''MZN'', ''NAD'', ''NGN'', ''NIO'', ''NOK'', ''NPR'', ''NZD'', ''OMR'', ''PAB'', ''PEN'',
      ''PGK'', ''PHP'', ''PKR'', ''PLN'', ''PYG'', ''QAR'', ''RON'', ''RSD'', ''RUB'', ''RWF'', ''SAR'', ''SBD'',
      ''SCR'', ''SDG'', ''SEK'', ''SGD'', ''SHP'', ''SLE'', ''SOS'', ''SRD'', ''SSP'', ''STN'', ''SVC'', ''SYP'',
      ''SZL'', ''THB'', ''TJS'', ''TMT'', ''TND'', ''TOP'', ''TRY'', ''TTD'', ''TWD'', ''TZS'', ''UAH'', ''UGX'',
      ''USD'', ''USN'', ''UYI'', ''UYU'', ''UYW'', ''UZS'', ''VED'', ''VES'', ''VND'', ''VUV'', ''WST'', ''XAD'',
      ''XAF'', ''XAG'', ''XAU'', ''XBA'', ''XBB'', ''XBC'', ''XBD'', ''XCD'', ''XCG'', ''XDR'', ''XOF'', ''XPD'',
      ''XPF'', ''XPT'', ''XSU'', ''XUA'', ''YER'', ''ZAR'', ''ZMW'', ''ZWG''
     ]"

definition is_currency_code :: "utext \<Rightarrow> bool" where
  "is_currency_code code =
     (if byte_len code \<noteq> 3 \<or> \<not> list_all (\<lambda>c. 65 \<le> c \<and> c \<le> 90) code then False
      else code \<in> set (map lit currency_codes))"

text \<open>The characters of a code, which are ASCII by then.\<close>

definition ascii :: "utext \<Rightarrow> string" where
  "ascii t = map char_of t"

definition split_once_text :: "nat \<Rightarrow> utext \<Rightarrow> (utext \<times> utext) option" where
  "split_once_text c t =
     (if c \<in> set t then Some (takeWhile (\<lambda>x. x \<noteq> c) t, tl (dropWhile (\<lambda>x. x \<noteq> c) t)) else None)"

definition rsplit_once_text :: "nat \<Rightarrow> utext \<Rightarrow> (utext \<times> utext) option" where
  "rsplit_once_text c t = map_option (\<lambda>(after, before). (rev before, rev after)) (split_once_text c (rev t))"

text \<open>\<open>Quantity::parse\<close> on cited text: text outside ASCII is malformed.\<close>

definition quantity_parse_text :: "utext \<Rightarrow> quantity option" where
  "quantity_parse_text t = (if list_all (\<lambda>c. c < 128) t then ok (quantity_parse (ascii t)) else None)"

definition scale_word :: "utext \<Rightarrow> int option" where
  "scale_word w =
     (if w = lit ''thousand'' then Some 1000
      else if w = lit ''million'' then Some 1000000
      else if w = lit ''billion'' then Some 1000000000
      else if w = lit ''trillion'' then Some 1000000000000
      else None)"

definition grouping_ok :: "utext \<Rightarrow> bool" where
  "grouping_ok integral =
     (if 44 \<notin> set integral then True
      else
        (let groups = split_at (\<lambda>c. c = 44) integral; lead = hd groups in
         \<not> (lead = [] \<or> byte_len lead > 3 \<or> starts_with lead [48] \<or>
            \<not> list_all (list_all is_digit) groups \<or> \<not> list_all (\<lambda>g. byte_len g = 3) (tl groups))))"

definition number :: "utext \<Rightarrow> quantity option" where
  "number input =
     Option.bind
       (case rsplit_once_text 32 input of
          Some (digits, w) \<Rightarrow> map_option (\<lambda>m. (digits, m)) (scale_word w)
        | None \<Rightarrow> Some (input, 1)) (\<lambda>(unsigned, multiplier).
     (let (sign, digits) =
            (case strip_prefix [45] unsigned of
               Some rest \<Rightarrow> ([45], rest)
             | None \<Rightarrow> ([], case strip_prefix [43] unsigned of Some rest \<Rightarrow> rest | None \<Rightarrow> unsigned));
          integral = hd (split_at (\<lambda>c. c = 46) digits)
      in
        if \<not> grouping_ok integral then None
        else if (case split_once_text 46 digits of Some (i, fractional) \<Rightarrow> 44 \<in> set fractional | None \<Rightarrow> False) then None
        else
          Option.bind (quantity_parse_text (sign @ filter (\<lambda>c. c \<noteq> 44) digits)) (\<lambda>q.
            checked_mul q (quantity_integer multiplier))))"

definition currency_symbols :: "(nat \<times> string list) list" where
  "currency_symbols =
     [(36, [
        ''ARS'', ''AUD'', ''BBD'', ''BMD'', ''BND'', ''BSD'', ''BZD'', ''CAD'', ''CLP'', ''COP'', ''FJD'', ''GYD'',
        ''HKD'', ''JMD'', ''KYD'', ''LRD'', ''MXN'', ''NAD'', ''NZD'', ''SBD'', ''SGD'', ''SRD'', ''TTD'', ''TWD'',
        ''USD'', ''UYU'', ''XCD''
       ]),
      (8364, [''EUR'']), (163, [''FKP'', ''GBP'', ''GIP'', ''SHP'']), (165, [''CNY'', ''JPY'']), (8377, [''INR''])]"

text \<open>The loop over the symbols returns at the first one the input starts or ends with.\<close>

definition symbol_match :: "utext \<Rightarrow> (nat \<times> string list) \<Rightarrow> (utext \<times> string list) option" where
  "symbol_match input = (\<lambda>(symbol, currencies).
     map_option (\<lambda>rest. (rest, currencies))
       (case strip_prefix [symbol] input of Some rest \<Rightarrow> Some rest | None \<Rightarrow> strip_suffix [symbol] input))"

definition money_coded :: "utext \<Rightarrow> (cited_value list \<times> bool) option" where
  "money_coded input =
     Option.bind (split_once_text 32 input) (\<lambda>(first', rest).
       if is_currency_code (to_ascii_uppercase first')
       then map_option (\<lambda>q. ([CitedMoney (ascii (to_ascii_uppercase first')) q], False)) (number rest)
       else
         Option.bind (rsplit_once_text 32 input) (\<lambda>(amount', last').
           if is_currency_code (to_ascii_uppercase last')
           then map_option (\<lambda>q. ([CitedMoney (ascii (to_ascii_uppercase last')) q], False)) (number amount')
           else None))"

definition money :: "utext \<Rightarrow> string option \<Rightarrow> (cited_value list \<times> bool) option" where
  "money input default' =
     (case find_map (symbol_match input) currency_symbols of
        Some (rest, currencies) \<Rightarrow>
          map_option (\<lambda>q.
            (let selected = (case default' of
                               Some c \<Rightarrow> if c \<in> set currencies then [c] else currencies
                             | None \<Rightarrow> currencies)
             in (map (\<lambda>c. CitedMoney c q) selected, length selected > 1))) (number (utrim rest))
      | None \<Rightarrow> money_coded input)"

definition calendar :: "nat \<Rightarrow> nat \<Rightarrow> nat \<Rightarrow> cited_value option" where
  "calendar year month day =
     (let leap = (4 dvd year \<and> (\<not> 100 dvd year \<or> 400 dvd year));
          days = (if month \<in> {1, 3, 5, 7, 8, 10, 12} then 31
                  else if month \<in> {4, 6, 9, 11} then 30
                  else if month = 2 then (if leap then 29 else 28) else 0)
      in if 1 \<le> month \<and> month \<le> 12 \<and> year > 0 \<and> year \<le> 9999 \<and> day > 0 \<and> day \<le> days
         then Some (CitedDate year month day) else None)"

text \<open>\<open>parse\<close> of ASCII digits into an unsigned integer with the given maximum.\<close>

definition digits_upto :: "nat \<Rightarrow> utext \<Rightarrow> nat option" where
  "digits_upto bound t =
     (if t = [] \<or> \<not> list_all is_digit t then None
      else let n = foldl (\<lambda>acc c. 10 * acc + (c - 48)) 0 t in if n \<le> bound then Some n else None)"

definition months :: "string list" where
  "months =
     [
      ''january'', ''february'', ''march'', ''april'', ''may'', ''june'', ''july'', ''august'', ''september'',
      ''october'', ''november'', ''december''
     ]"

definition month_position :: "utext \<Rightarrow> nat option" where
  "month_position w = map_option fst (find (\<lambda>(i, m). lit m = w) (enumerate 0 months))"

definition named_or_iso_date :: "utext \<Rightarrow> cited_value option" where
  "named_or_iso_date input =
     (let parts = split_at (\<lambda>c. c = 45) input in
      if length parts = 3 \<and> map byte_len parts = [4, 2, 2] \<and> list_all (list_all is_digit) parts
      then
        Option.bind (digits_upto 65535 (parts ! 0)) (\<lambda>y.
        Option.bind (digits_upto 255 (parts ! 1)) (\<lambda>m.
        Option.bind (digits_upto 255 (parts ! 2)) (\<lambda>d. calendar y m d)))
      else
        (case split_whitespace input of
           [a, b, c] \<Rightarrow>
             (case month_position a of
                Some m \<Rightarrow>
                  if byte_len c \<noteq> 4 then None
                  else
                    Option.bind (digits_upto 65535 c) (\<lambda>y.
                    Option.bind (digits_upto 255 (case strip_suffix [44] b of Some b' \<Rightarrow> b' | None \<Rightarrow> b)) (\<lambda>d.
                      calendar y (m + 1) d))
              | None \<Rightarrow>
                  Option.bind (month_position b) (\<lambda>m.
                    if byte_len c \<noteq> 4 then None
                    else
                      Option.bind (digits_upto 65535 c) (\<lambda>y.
                      Option.bind (digits_upto 255 a) (\<lambda>d. calendar y (m + 1) d))))
         | _ \<Rightarrow> None))"

definition date :: "utext \<Rightarrow> string option \<Rightarrow> (cited_value list \<times> bool) option" where
  "date input order =
     (if 47 \<in> set input
      then
        (case split_at (\<lambda>c. c = 47) input of
           [a, b, c] \<Rightarrow>
             if byte_len c \<noteq> 4 \<or> a = [] \<or> byte_len a > 2 \<or> b = [] \<or> byte_len b > 2 \<or>
                \<not> list_all is_digit (a @ b @ c)
             then None
             else
               Option.bind (digits_upto 255 a) (\<lambda>first'.
               Option.bind (digits_upto 255 b) (\<lambda>second.
               Option.bind (digits_upto 65535 c) (\<lambda>year.
                 (let day_first = calendar year second first'; month_first = calendar year first' second in
                  if order = Some ''day_first'' then map_option (\<lambda>v. ([v], False)) day_first
                  else if order = Some ''month_first'' then map_option (\<lambda>v. ([v], False)) month_first
                  else
                    (let readings = (case day_first of None \<Rightarrow> [] | Some v \<Rightarrow> [v]);
                         readings' = (case month_first of
                                        Some v \<Rightarrow> if list_ex (cited_eq v) readings then readings else readings @ [v]
                                      | None \<Rightarrow> readings)
                     in if readings' = [] then None else Some (readings', True))))))
         | _ \<Rightarrow> None)
      else map_option (\<lambda>v. ([v], False)) (named_or_iso_date input))"

definition value_parse ::
  "value_type \<Rightarrow> utext \<Rightarrow> string option \<Rightarrow> string option \<Rightarrow> (cited_value list \<times> bool) option" where
  "value_parse kind input currency order =
     (if byte_len input > 128 then None
      else case kind of
             DateType \<Rightarrow> date input order
           | NumberType \<Rightarrow> map_option (\<lambda>q. ([CitedNumber q], False)) (number input)
           | MoneyType \<Rightarrow> money input currency)"

section \<open>Matching\<close>

record matcher =
  matcher_kind :: value_type
  matcher_wanted :: utext
  matcher_values :: "cited_value list"
  matcher_ambiguous :: bool
  matcher_currency :: "string option"
  matcher_order :: "string option"

definition matcher_new ::
  "unicode \<Rightarrow> value_type \<Rightarrow> utext \<Rightarrow> string option \<Rightarrow> string option \<Rightarrow> matcher option" where
  "matcher_new u kind wanted currency order =
     (let wanted' = fold_text u wanted in
      map_option (\<lambda>(values, ambiguous).
        \<lparr>matcher_kind = kind, matcher_wanted = wanted', matcher_values = values, matcher_ambiguous = ambiguous,
         matcher_currency = currency, matcher_order = order\<rparr>) (value_parse kind wanted' currency order))"

definition rationale_for :: "unicode \<Rightarrow> value_type \<Rightarrow> utext \<Rightarrow> cited_value list \<Rightarrow> utext" where
  "rationale_for u kind input readings =
     debug_text u input @ lit '' requires statement_policy '' @
     lit (if kind = MoneyType then ''default_currency'' else ''date_order'') @
     lit ''; possible readings: '' @ join_words (lit '' or '') (map (lit \<circ> describe) readings)"

definition compare_folded :: "unicode \<Rightarrow> matcher \<Rightarrow> utext \<Rightarrow> utext list option" where
  "compare_folded u m actual =
     (let actual' = utrim actual in
      Option.bind (value_parse (matcher_kind m) actual' (matcher_currency m) (matcher_order m)) (\<lambda>(values, ambiguous).
        if \<not> list_ex (\<lambda>a. list_ex (cited_eq a) (matcher_values m)) values then None
        else
          (let one = (if ambiguous then [rationale_for u (matcher_kind m) actual' values] else []);
               two = (if matcher_ambiguous m
                      then [rationale_for u (matcher_kind m) (matcher_wanted m) (matcher_values m)] else [])
           in Some (one @ filter (\<lambda>r. r \<notin> set one) two))))"

definition currency_sign :: "nat \<Rightarrow> bool" where
  "currency_sign c = (c \<in> {36, 8364, 163, 165, 8377})"

definition closed_region :: "utext \<Rightarrow> nat \<Rightarrow> nat \<Rightarrow> bool" where
  "closed_region t start stop =
     (case (take_bytes t start, skip_bytes t stop) of
        (Some before, Some after) \<Rightarrow>
          (let before' = trim_end before;
               next' = trim_end_matches (\<lambda>c. c \<in> {46, 44, 59})
                         (case split_whitespace after of [] \<Rightarrow> [] | w # ws \<Rightarrow> w);
               after' = trim_start after
           in \<not> (before' \<noteq> [] \<and> (currency_sign (last before') \<or> last before' \<in> {43, 45})) \<and>
              \<not> (split_whitespace before \<noteq> [] \<and>
                 is_currency_code (to_ascii_uppercase (last (split_whitespace before)))) \<and>
              \<not> (after \<noteq> [] \<and> hd after \<in> {47, 45}) \<and>
              \<not> (after \<noteq> [] \<and> hd after \<in> {46, 44} \<and> tl after \<noteq> [] \<and> is_digit (hd (tl after))) \<and>
              scale_word next' = None \<and> \<not> is_currency_code (to_ascii_uppercase next') \<and>
              \<not> (after' \<noteq> [] \<and> currency_sign (hd after')))
      | _ \<Rightarrow> False)"

text \<open>The ends a candidate may have: later boundaries within 128 bytes.\<close>

definition candidate_ends :: "nat list \<Rightarrow> nat \<Rightarrow> nat list" where
  "candidate_ends boundaries start =
     takeWhile (\<lambda>stop. stop - start \<le> 128) (filter (\<lambda>stop. stop > start) boundaries)"

fun find_scan :: "unicode \<Rightarrow> matcher \<Rightarrow> utext \<Rightarrow> (nat \<times> nat) list \<Rightarrow> utext list option \<Rightarrow> utext list option" where
  "find_scan u m folded [] ambiguous = ambiguous"
| "find_scan u m folded ((start, stop) # rest) ambiguous =
     (if (case take_bytes folded stop of Some p \<Rightarrow> p \<noteq> [] \<and> is_white_space (last p) | None \<Rightarrow> False) \<or>
         \<not> closed_region folded start stop
      then find_scan u m folded rest ambiguous
      else case Option.bind (slice folded start stop) (compare_folded u m) of
             None \<Rightarrow> find_scan u m folded rest ambiguous
           | Some found \<Rightarrow>
               if found = [] then Some []
               else find_scan u m folded rest (case ambiguous of None \<Rightarrow> Some found | Some a \<Rightarrow> Some a))"

definition find_value ::
  "unicode \<Rightarrow> value_type \<Rightarrow> utext \<Rightarrow> utext \<Rightarrow> string option \<Rightarrow> string option \<Rightarrow> utext list option" where
  "find_value u kind excerpt wanted currency order =
     Option.bind (matcher_new u kind wanted currency order) (\<lambda>m.
       (let folded = fold_text u excerpt;
            boundaries = word_boundaries u folded;
            starts = filter (\<lambda>start. case skip_bytes folded start of
                                       Some rest \<Rightarrow> \<not> (rest \<noteq> [] \<and> is_white_space (hd rest))
                                     | None \<Rightarrow> False) boundaries
        in find_scan u m folded
             (concat (map (\<lambda>start. map (\<lambda>stop. (start, stop)) (candidate_ends boundaries start)) starts)) None))"

section \<open>What a match means\<close>

text \<open>A match without a residual is one where neither side needed a policy to be read, and both
  readings are the same value.\<close>

lemma compare_folded_exact:
  assumes "compare_folded u m actual = Some []"
  shows "\<not> matcher_ambiguous m \<and>
    (\<exists>values v w. value_parse (matcher_kind m) (utrim actual) (matcher_currency m) (matcher_order m) = Some (values, False) \<and>
       v \<in> set values \<and> w \<in> set (matcher_values m) \<and> cited_eq v w)"
  using assms
  by (auto simp: compare_folded_def Let_def bind_eq_Some_conv list_ex_iff split: if_splits)

text \<open>Calendar dates are dates.\<close>

lemma calendar_Some:
  "calendar y m d = Some v \<Longrightarrow> v = CitedDate y m d \<and> 1 \<le> m \<and> m \<le> 12 \<and> 1 \<le> d \<and> d \<le> 31 \<and> 1 \<le> y \<and> y \<le> 9999"
  by (auto simp: calendar_def Let_def split: if_splits)

end
