(* ===== verification/Phrasing.thy ===== *)
theory Phrasing
  imports Citation_Value
begin

text \<open>
  Phrasings (\<open>crates/core/src/domain/phrasing.rs\<close>, \<open>crates/kernel/src/phrasing.rs\<close>): how a
  contract declares that a relation is stated in text, and when a cited excerpt states one. A
  statement is a declared phrasing, with the terms in their roles, inside one sentence that is
  no question and holds no cue against it.
\<close>

section \<open>Templates\<close>

record phrasing_error =
  error_template :: utext
  error_reason :: string

datatype phrasing = Phrasing (template: utext)

text \<open>\<open>str::matches(..).count()\<close> and \<open>str::replace\<close>: occurrences from the left, without overlap.\<close>

function count_matches :: "utext \<Rightarrow> utext \<Rightarrow> nat" where
  "count_matches p [] = 0"
| "count_matches p (c # t) =
     (if p \<noteq> [] \<and> starts_with (c # t) p then Suc (count_matches p (drop (length p) (c # t))) else count_matches p t)"
  by pat_completeness auto

termination count_matches
  by (relation "Wellfounded.measure (\<lambda>(p, t). length t)") (auto simp: less_Suc_eq_le neq_Nil_conv)

function replace :: "utext \<Rightarrow> utext \<Rightarrow> utext \<Rightarrow> utext" where
  "replace p by' [] = []"
| "replace p by' (c # t) =
     (if p \<noteq> [] \<and> starts_with (c # t) p then by' @ replace p by' (drop (length p) (c # t)) else c # replace p by' t)"
  by pat_completeness auto

termination replace
  by (relation "Wellfounded.measure (\<lambda>(p, b, t). length t)") (auto simp: less_Suc_eq_le neq_Nil_conv)

definition slot_from :: utext where "slot_from = lit ''{from}''"
definition slot_to :: utext where "slot_to = lit ''{to}''"

definition phrasing_parse :: "unicode \<Rightarrow> utext \<Rightarrow> (phrasing_error, phrasing) result" where
  "phrasing_parse u t =
     (let refuse = (\<lambda>reason. Err \<lparr>error_template = t, error_reason = reason\<rparr>);
          literal = replace slot_to [32] (replace slot_from [32] t)
      in
        if count_matches slot_from t \<noteq> 1 then refuse ''needs exactly one {from} slot''
        else if count_matches slot_to t \<noteq> 1 then refuse ''needs exactly one {to} slot''
        else if list_ex (\<lambda>c. c \<in> {123, 125}) literal then refuse ''has a brace that is not a slot''
        else if \<not> list_ex (is_alphanumeric u) literal
        then refuse ''has no literal word, so it would state any relation between its terms''
        else Ok (Phrasing t))"

function instantiate_from :: "utext \<Rightarrow> utext \<Rightarrow> utext \<Rightarrow> utext" where
  "instantiate_from from' to' [] = []"
| "instantiate_from from' to' (c # t) =
     (if c \<noteq> 123 then c # instantiate_from from' to' t
      else if starts_with (c # t) slot_from then utrim from' @ instantiate_from from' to' (drop 6 (c # t))
      else if starts_with (c # t) slot_to then utrim to' @ instantiate_from from' to' (drop 4 (c # t))
      else 123 # instantiate_from from' to' t)"
  by pat_completeness auto

termination instantiate_from
  by (relation "Wellfounded.measure (\<lambda>(a, b, t). length t)") auto

definition instantiate :: "phrasing \<Rightarrow> utext \<Rightarrow> utext \<Rightarrow> utext" where
  "instantiate p from' to' = instantiate_from from' to' (template p)"

section \<open>Phrasebooks\<close>

text \<open>\<open>[CHR 0x27]\<close> is the apostrophe.\<close>

definition DEFAULT_CUES :: "string list" where
  "DEFAULT_CUES =
     [
      ''not'', ''no'', ''never'', ''neither'', ''nor'', ''without'', ''cannot'', ''can'' @ [CHR 0x27] @ ''t'',
      ''don'' @ [CHR 0x27] @ ''t'', ''doesn'' @ [CHR 0x27] @ ''t'', ''didn'' @ [CHR 0x27] @ ''t'',
      ''isn'' @ [CHR 0x27] @ ''t'', ''aren'' @ [CHR 0x27] @ ''t'', ''wasn'' @ [CHR 0x27] @ ''t'',
      ''weren'' @ [CHR 0x27] @ ''t'', ''hasn'' @ [CHR 0x27] @ ''t'', ''haven'' @ [CHR 0x27] @ ''t'',
      ''hadn'' @ [CHR 0x27] @ ''t'', ''won'' @ [CHR 0x27] @ ''t'', ''wouldn'' @ [CHR 0x27] @ ''t'',
      ''couldn'' @ [CHR 0x27] @ ''t'', ''shouldn'' @ [CHR 0x27] @ ''t'', ''mustn'' @ [CHR 0x27] @ ''t'', ''deny'',
      ''denies'', ''denied'', ''false'', ''untrue'', ''if'', ''unless'', ''whether'', ''might'', ''could'',
      ''would'', ''should'', ''plans to'', ''planned to'', ''intends to'', ''intended to'', ''expects to'',
      ''expected to'', ''reportedly'', ''allegedly'', ''rumor'', ''rumors'', ''rumored'', ''rumour'', ''rumours'',
      ''rumoured''
     ]"

record statement =
  statement_phrasing :: utext
  statement_sentence :: utext
  statement_residuals :: "utext list"

record phrasebook =
  book_relations :: "(utext, phrasing list) btree_map"
  book_cues :: "utext list"
  book_object_types :: "(utext, value_type) btree_map"
  book_default_currency :: "string option"
  book_date_order :: "string option"

definition phrasebook_new :: phrasebook where
  "phrasebook_new =
     \<lparr>book_relations = [], book_cues = [], book_object_types = [], book_default_currency = None, book_date_order = None\<rparr>"

definition with_relation :: "phrasebook \<Rightarrow> utext \<Rightarrow> phrasing list \<Rightarrow> phrasebook" where
  "with_relation b relation ps =
     (let key = utrim relation in
      b \<lparr>book_relations := bt_insert key ((case map_of (book_relations b) key of None \<Rightarrow> [] | Some old \<Rightarrow> old) @ ps)
           (book_relations b)\<rparr>)"

definition with_cue :: "phrasebook \<Rightarrow> utext \<Rightarrow> phrasebook" where
  "with_cue b cue = b \<lparr>book_cues := book_cues b @ [cue]\<rparr>"

definition with_object_type :: "phrasebook \<Rightarrow> utext \<Rightarrow> value_type \<Rightarrow> phrasebook" where
  "with_object_type b relation kind = b \<lparr>book_object_types := bt_insert (utrim relation) kind (book_object_types b)\<rparr>"

definition with_value_policy ::
  "phrasebook \<Rightarrow> string option \<Rightarrow> string option \<Rightarrow> (string, phrasebook) result" where
  "with_value_policy b currency order =
     (if (case currency of Some c \<Rightarrow> \<not> is_currency_code (lit c) | None \<Rightarrow> False) then Err ''unknown default_currency''
      else if (case order of Some w \<Rightarrow> w \<noteq> ''day_first'' \<and> w \<noteq> ''month_first'' | None \<Rightarrow> False)
      then Err ''unknown date_order''
      else Ok (b \<lparr>book_default_currency := currency, book_date_order := order\<rparr>))"

definition phrasings :: "phrasebook \<Rightarrow> utext \<Rightarrow> phrasing list" where
  "phrasings b relation = (case map_of (book_relations b) (utrim relation) of None \<Rightarrow> [] | Some ps \<Rightarrow> ps)"

record kernel_proposition =
  prop_subject :: utext
  prop_predicate :: utext
  prop_object :: utext

definition object_type_of :: "phrasebook \<Rightarrow> kernel_proposition \<Rightarrow> value_type option" where
  "object_type_of b p = map_of (book_object_types b) (utrim (prop_predicate p))"

definition object_in :: "unicode \<Rightarrow> phrasebook \<Rightarrow> utext \<Rightarrow> kernel_proposition \<Rightarrow> utext list option" where
  "object_in u b excerpt p =
     (case object_type_of b p of
        Some kind \<Rightarrow> find_value u kind excerpt (prop_object p) (book_default_currency b) (book_date_order b)
      | None \<Rightarrow> if contains_term u excerpt (prop_object p) then Some [] else None)"

section \<open>Sentences\<close>

definition flush_whitespace :: "utext \<Rightarrow> utext \<Rightarrow> utext" where
  "flush_whitespace out run =
     (if run = [] then out
      else out @ (if length (filter (\<lambda>c. c \<in> {10, 8232, 8233}) run) \<ge> 2 then [10, 10] else [32]))"

fun unwrap_scan :: "utext \<Rightarrow> utext \<Rightarrow> utext \<Rightarrow> utext" where
  "unwrap_scan [] out run = flush_whitespace out run"
| "unwrap_scan (c # t) out run =
     (if is_white_space c then unwrap_scan t out (run @ [c])
      else unwrap_scan t (flush_whitespace out run @ [c]) [])"

definition unwrap_lines :: "utext \<Rightarrow> utext" where
  "unwrap_lines t = unwrap_scan (map (\<lambda>c. if c = 13 then 10 else c) (replace [13, 10] [10] t)) [] []"

definition sentences :: "unicode \<Rightarrow> utext \<Rightarrow> utext list" where
  "sentences u excerpt = sentence_bounds u (unwrap_lines excerpt)"

definition is_a_question :: "utext \<Rightarrow> bool" where
  "is_a_question sentence =
     (let bare = trim_end_matches (\<lambda>c. c \<in> {34, 39, 41, 93, 8221, 8217, 187}) (trim_end sentence) in
      bare \<noteq> [] \<and> last bare \<in> {63, 65311, 1567})"

section \<open>Statements\<close>

definition literal_text :: "unicode \<Rightarrow> utext \<Rightarrow> utext" where
  "literal_text u t =
     (case Option.bind (strip_prefix [35] (fold_text u ([35] @ t @ [35]))) (strip_suffix [35]) of
        None \<Rightarrow> [] | Some r \<Rightarrow> r)"

text \<open>\<open>split_once\<close> at a text.\<close>

fun split_once_at_text :: "utext \<Rightarrow> utext \<Rightarrow> (utext \<times> utext) option" where
  "split_once_at_text p [] = (if p = [] then Some ([], []) else None)"
| "split_once_at_text p (c # t) =
     (if starts_with (c # t) p then Some ([], drop (length p) (c # t))
      else map_option (\<lambda>(before, after). (c # before, after)) (split_once_at_text p t))"

definition typed_statement ::
  "unicode \<Rightarrow> utext \<Rightarrow> phrasing \<Rightarrow> kernel_proposition \<Rightarrow> value_type \<Rightarrow> string option \<Rightarrow> string option \<Rightarrow> utext list option" where
  "typed_statement u sentence p prop kind currency order =
     Option.bind (matcher_new u kind (prop_object prop) currency order) (\<lambda>m.
     Option.bind (split_once_at_text slot_to (template p)) (\<lambda>(before, after).
       (let prefix = literal_text u (replace slot_from (utrim (prop_subject prop)) before);
            suffix = literal_text u (replace slot_from (utrim (prop_subject prop)) after);
            boundaries = word_boundaries u sentence;
            starts = filter_map (\<lambda>off. case skip_bytes sentence off of
                                         Some rest \<Rightarrow>
                                           if starts_with rest prefix \<and> off + byte_len prefix \<in> set boundaries
                                           then Some (off + byte_len prefix) else None
                                       | None \<Rightarrow> None) boundaries;
            candidates = concat (map (\<lambda>start. map (\<lambda>stop. (start, stop)) (candidate_ends boundaries start)) starts)
        in find_map (\<lambda>(start, stop).
             if (case skip_bytes sentence stop of Some rest \<Rightarrow> starts_with rest suffix | None \<Rightarrow> False) \<and>
                stop + byte_len suffix \<in> set boundaries \<and> closed_region sentence start stop
             then Option.bind (slice sentence start stop) (compare_folded u m) else None) candidates)))"

definition all_cues :: "unicode \<Rightarrow> phrasebook \<Rightarrow> utext list" where
  "all_cues u b = filter (\<lambda>cue. cue \<noteq> []) (map (fold_text u) (map lit DEFAULT_CUES @ book_cues b))"

definition stated_by :: "unicode \<Rightarrow> phrasebook \<Rightarrow> kernel_proposition \<Rightarrow> utext \<Rightarrow> phrasing \<Rightarrow> utext list option" where
  "stated_by u b prop folded p =
     (case object_type_of b prop of
        Some kind \<Rightarrow> typed_statement u folded p prop kind (book_default_currency b) (book_date_order b)
      | None \<Rightarrow>
          if contains_folded u folded (fold_text u (instantiate p (prop_subject prop) (prop_object prop)))
          then Some [] else None)"

definition sentence_states :: "unicode \<Rightarrow> phrasebook \<Rightarrow> kernel_proposition \<Rightarrow> utext \<Rightarrow> statement option" where
  "sentence_states u b prop sentence =
     (let folded = fold_text u sentence in
      if is_a_question sentence \<or> list_ex (contains_folded u folded) (all_cues u b) then None
      else find_map (\<lambda>p. map_option (\<lambda>rs.
             \<lparr>statement_phrasing = template p, statement_sentence = utrim sentence, statement_residuals = rs\<rparr>)
             (stated_by u b prop folded p)) (phrasings b (prop_predicate prop)))"

definition statement_in :: "unicode \<Rightarrow> phrasebook \<Rightarrow> utext \<Rightarrow> kernel_proposition \<Rightarrow> statement option" where
  "statement_in u b excerpt prop =
     (if phrasings b (prop_predicate prop) = [] then None
      else find_map (sentence_states u b prop) (sentences u excerpt))"

section \<open>What a statement is\<close>

text \<open>A statement found in an excerpt is a declared phrasing of the predicate, in a sentence of the
  excerpt that asks nothing and holds no cue.\<close>

lemma statement_in_Some:
  assumes "statement_in u b excerpt prop = Some st"
  shows "\<exists>p sentence. p \<in> set (phrasings b (prop_predicate prop)) \<and> sentence \<in> set (sentences u excerpt) \<and>
    \<not> is_a_question sentence \<and> (\<forall>cue \<in> set (all_cues u b). \<not> contains_folded u (fold_text u sentence) cue) \<and>
    stated_by u b prop (fold_text u sentence) p = Some (statement_residuals st)"
  using assms
  by (auto simp: statement_in_def sentence_states_def Let_def list_ex_iff dest!: find_map_SomeD split: if_splits) blast

end
