(* ===== verification/Claim_Kernel.thy ===== *)
theory Claim_Kernel
  imports Phrasing
begin

text \<open>
  The correctness kernel (\<open>crates/kernel/src/lib.rs\<close>, \<open>ir.rs\<close>, \<open>error.rs\<close>, \<open>certificate.rs\<close>,
  \<open>snapshot.rs\<close>) with the provenance check it calls (\<open>crates/core/src/domain/memory.rs\<close>). A
  proposal is a goal and a derivation; the kernel walks the derivation against a snapshot and
  issues a certificate. Of the memory records the model has the fields the kernel reads; the
  text of an error is left to its \<open>Display\<close>.
\<close>

section \<open>Memory records\<close>

datatype authority = Low | Medium | High

fun authority_str :: "authority \<Rightarrow> string" where
  "authority_str Low = ''low''"
| "authority_str Medium = ''medium''"
| "authority_str High = ''high''"

datatype claim_status = Candidate | Active | ClaimRejected | Superseded | Contradicted | Expired

fun claim_status_str :: "claim_status \<Rightarrow> string" where
  "claim_status_str Candidate = ''candidate''"
| "claim_status_str Active = ''active''"
| "claim_status_str ClaimRejected = ''rejected''"
| "claim_status_str Superseded = ''superseded''"
| "claim_status_str Contradicted = ''contradicted''"
| "claim_status_str Expired = ''expired''"

record memory_source =
  memory_source_id :: utext
  memory_source_authority :: authority

record source_content =
  content_source_id :: utext
  content_text :: utext
  content_hash :: utext

record evidence_span =
  span_start :: nat
  span_end :: nat
  span_content_hash :: utext

record memory_evidence =
  cited_id :: utext
  cited_source_id :: utext
  cited_excerpt :: utext
  cited_span :: "evidence_span option"

record memory_claim =
  memory_claim_id :: utext
  memory_claim_subject :: utext
  memory_claim_predicate :: utext
  memory_claim_object :: utext
  memory_claim_authority :: authority
  memory_claim_status :: claim_status

datatype memory_error =
    EmptyField string
  | InvalidConfidence
  | MissingEvidence
  | InvalidSpan nat nat

definition non_empty :: "utext \<Rightarrow> string \<Rightarrow> (memory_error, utext) result" where
  "non_empty v field = (if utrim v = [] then Err (EmptyField field) else Ok v)"

definition evidence_span_new :: "nat \<Rightarrow> nat \<Rightarrow> utext \<Rightarrow> (memory_error, evidence_span) result" where
  "evidence_span_new start stop h =
     (if stop \<le> start then Err (InvalidSpan start stop)
      else
        and_then (non_empty h ''evidence source content hash'') (\<lambda>h'.
          Ok \<lparr>span_start = start, span_end = stop, span_content_hash = h'\<rparr>))"

datatype provenance_error =
    SpanMissing utext
  | SourceMismatch utext utext utext
  | ContentChanged utext utext utext
  | SpanOutOfBounds utext nat nat nat
  | SpanNotOnCharBoundary utext nat nat
  | ExcerptMismatch utext utext utext

definition verify_evidence_span :: "memory_evidence \<Rightarrow> source_content \<Rightarrow> (provenance_error, unit) result" where
  "verify_evidence_span e c =
     (if cited_source_id e \<noteq> content_source_id c
      then Err (SourceMismatch (cited_id e) (cited_source_id e) (content_source_id c))
      else case cited_span e of
             None \<Rightarrow> Err (SpanMissing (cited_id e))
           | Some s \<Rightarrow>
               if span_content_hash s \<noteq> content_hash c
               then Err (ContentChanged (cited_id e) (span_content_hash s) (content_hash c))
               else if span_end s > byte_len (content_text c)
               then Err (SpanOutOfBounds (cited_id e) (span_start s) (span_end s) (byte_len (content_text c)))
               else if \<not> is_char_boundary (content_text c) (span_start s) \<or> \<not> is_char_boundary (content_text c) (span_end s)
               then Err (SpanNotOnCharBoundary (cited_id e) (span_start s) (span_end s))
               else
                 (case slice (content_text c) (span_start s) (span_end s) of
                    None \<Rightarrow> Err (SpanNotOnCharBoundary (cited_id e) (span_start s) (span_end s))
                  | Some found \<Rightarrow>
                      if found \<noteq> cited_excerpt e then Err (ExcerptMismatch (cited_id e) (cited_excerpt e) found)
                      else Ok ()))"

section \<open>The language of derivations\<close>

definition escape_term :: "utext \<Rightarrow> utext" where
  "escape_term t =
     concat (map (\<lambda>c. if c = 124 then [92, 124] else [c])
       (concat (map (\<lambda>c. if c = 92 then [92, 92] else [c]) t)))"

definition prop_canonical :: "kernel_proposition \<Rightarrow> utext" where
  "prop_canonical p =
     escape_term (utrim (prop_subject p)) @ [124] @ escape_term (utrim (prop_predicate p)) @ [124] @
     escape_term (utrim (prop_object p))"

datatype kernel_judgment =
    Says utext kernel_proposition
  | Mentions utext kernel_proposition
  | Holds kernel_proposition

fun judgment_canonical :: "kernel_judgment \<Rightarrow> utext" where
  "judgment_canonical (Says s p) = lit ''says('' @ s @ lit '','' @ prop_canonical p @ lit '')''"
| "judgment_canonical (Mentions s p) = lit ''mentions('' @ s @ lit '','' @ prop_canonical p @ lit '')''"
| "judgment_canonical (Holds p) = lit ''holds('' @ prop_canonical p @ lit '')''"

datatype derivation =
    Cite utext kernel_proposition
  | Attest utext
  | TrustRule derivation utext
  | Arith arith_op "quantity list" quantity kernel_proposition
  | Interpret derivation kernel_proposition utext

fun rule_name :: "derivation \<Rightarrow> string" where
  "rule_name (Cite e p) = ''cite''"
| "rule_name (Attest c) = ''attest''"
| "rule_name (TrustRule d m) = ''trust''"
| "rule_name (Arith op qs c p) = ''arith''"
| "rule_name (Interpret d p r) = ''interpret''"

record kernel_proposal =
  proposal_goal :: kernel_proposition
  proposal_derivation :: derivation

record snapshot =
  snapshot_evidence :: "utext \<rightharpoonup> memory_evidence"
  snapshot_sources :: "utext \<rightharpoonup> memory_source"
  snapshot_contents :: "utext \<times> utext \<rightharpoonup> source_content"
  snapshot_claims :: "utext \<rightharpoonup> memory_claim"
  authority_floor :: authority
  snapshot_phrasebook :: phrasebook

definition snapshot_new :: snapshot where
  "snapshot_new =
     \<lparr>snapshot_evidence = Map.empty, snapshot_sources = Map.empty, snapshot_contents = Map.empty,
      snapshot_claims = Map.empty, authority_floor = Low, snapshot_phrasebook = phrasebook_new\<rparr>"

definition with_evidence :: "snapshot \<Rightarrow> memory_evidence \<Rightarrow> snapshot" where
  "with_evidence s e = s \<lparr>snapshot_evidence := (snapshot_evidence s)(cited_id e \<mapsto> e)\<rparr>"

definition with_source :: "snapshot \<Rightarrow> memory_source \<Rightarrow> snapshot" where
  "with_source s m = s \<lparr>snapshot_sources := (snapshot_sources s)(memory_source_id m \<mapsto> m)\<rparr>"

definition with_source_content :: "snapshot \<Rightarrow> source_content \<Rightarrow> snapshot" where
  "with_source_content s c =
     s \<lparr>snapshot_contents := (snapshot_contents s)((content_source_id c, content_hash c) \<mapsto> c)\<rparr>"

definition with_claim :: "snapshot \<Rightarrow> memory_claim \<Rightarrow> snapshot" where
  "with_claim s c = s \<lparr>snapshot_claims := (snapshot_claims s)(memory_claim_id c \<mapsto> c)\<rparr>"

definition with_authority_floor :: "snapshot \<Rightarrow> authority \<Rightarrow> snapshot" where
  "with_authority_floor s a = s \<lparr>authority_floor := a\<rparr>"

definition with_phrasebook :: "snapshot \<Rightarrow> phrasebook \<Rightarrow> snapshot" where
  "with_phrasebook s b = s \<lparr>snapshot_phrasebook := b\<rparr>"

definition authority_of :: "snapshot \<Rightarrow> utext \<Rightarrow> authority option" where
  "authority_of s source = map_option memory_source_authority (snapshot_sources s source)"

section \<open>Errors and certificates\<close>

datatype kernel_owner =
    KernelRetrieval | KernelIngestion | KernelMemory | KernelAutoRepairable | KernelPolicy | KernelProposer

fun kernel_owner_str :: "kernel_owner \<Rightarrow> string" where
  "kernel_owner_str KernelRetrieval = ''retrieval''"
| "kernel_owner_str KernelIngestion = ''ingestion''"
| "kernel_owner_str KernelMemory = ''memory''"
| "kernel_owner_str KernelAutoRepairable = ''auto_repairable''"
| "kernel_owner_str KernelPolicy = ''policy''"
| "kernel_owner_str KernelProposer = ''proposer''"

datatype check_error =
    DanglingEvidence utext
  | DanglingClaim utext
  | DanglingSource utext
  | SourceContentMissing utext utext
  | Provenance utext provenance_error
  | TermNotInSpan utext string utext utext
  | ClaimNotActive utext string
  | ArithMismatch string "quantity list" quantity quantity
  | ArithNotExact string "quantity list"
  | ArithNoOperands string
  | AuthorityBelowFloor utext string string
  | UnknownAuthority utext
  | TrustPremiseNotAttributed utext
  | RelationNotStated utext utext utext
  | InterpretationWithoutARationale utext utext
  | ProposalNotEncodable utext
  | DerivationTooDeep nat
  | CitedSpanTooLong utext nat nat
  | GoalNotDerived utext utext

fun error_owner :: "check_error \<Rightarrow> kernel_owner" where
  "error_owner (DanglingEvidence e) = KernelRetrieval"
| "error_owner (DanglingClaim c) = KernelRetrieval"
| "error_owner (DanglingSource s) = KernelRetrieval"
| "error_owner (SourceContentMissing s h) = KernelIngestion"
| "error_owner (Provenance e p) = KernelIngestion"
| "error_owner (ClaimNotActive c s) = KernelMemory"
| "error_owner (ArithMismatch op qs c r) = KernelAutoRepairable"
| "error_owner (AuthorityBelowFloor s a r) = KernelPolicy"
| "error_owner e = KernelProposer"

fun error_code :: "check_error \<Rightarrow> string" where
  "error_code (DanglingEvidence e) = ''dangling_evidence''"
| "error_code (DanglingClaim c) = ''dangling_claim''"
| "error_code (DanglingSource s) = ''dangling_source''"
| "error_code (SourceContentMissing s h) = ''source_content_missing''"
| "error_code (Provenance e p) = ''provenance_failed''"
| "error_code (TermNotInSpan e r t x) = ''term_not_in_span''"
| "error_code (ClaimNotActive c s) = ''claim_not_active''"
| "error_code (ArithMismatch op qs c r) = ''arith_mismatch''"
| "error_code (ArithNotExact op qs) = ''arith_not_exact''"
| "error_code (ArithNoOperands op) = ''arith_no_operands''"
| "error_code (AuthorityBelowFloor s a r) = ''authority_below_floor''"
| "error_code (UnknownAuthority v) = ''unknown_authority''"
| "error_code (TrustPremiseNotAttributed f) = ''trust_premise_not_attributed''"
| "error_code (RelationNotStated s p q) = ''relation_not_stated''"
| "error_code (InterpretationWithoutARationale f t) = ''interpretation_without_a_rationale''"
| "error_code (ProposalNotEncodable d) = ''proposal_not_encodable''"
| "error_code (DerivationTooDeep l) = ''derivation_too_deep''"
| "error_code (CitedSpanTooLong e l f) = ''cited_span_too_long''"
| "error_code (GoalNotDerived d g) = ''goal_not_derived''"

fun corrected_value :: "check_error \<Rightarrow> quantity option" where
  "corrected_value (ArithMismatch op qs c r) = Some r"
| "corrected_value e = None"

datatype verdict = Accepted | VerdictIsConditional | Rejected

fun kernel_verdict_str :: "verdict \<Rightarrow> string" where
  "kernel_verdict_str Accepted = ''accepted''"
| "kernel_verdict_str VerdictIsConditional = ''conditional''"
| "kernel_verdict_str Rejected = ''rejected''"

record discharged_step =
  step_rule :: string
  step_concluded :: utext
  step_detail :: utext

record kernel_residual =
  residual_from :: utext
  residual_to :: kernel_proposition
  residual_rationale :: utext
  residual_evidence_ids :: "utext list"

record kernel_certificate_error =
  cert_error_code :: string
  cert_error_source :: check_error
  cert_error_owner :: string
  cert_error_value :: "quantity option"

record kernel_certificate =
  kernel_verdict :: verdict
  kernel_goal :: kernel_proposition
  kernel_discharged :: "discharged_step list"
  kernel_residuals :: "kernel_residual list"
  kernel_errors :: "kernel_certificate_error list"
  kernel_replay_digest :: utext
  derivation_depth_limit :: "nat option"

definition certificate_error_of :: "check_error \<Rightarrow> kernel_certificate_error" where
  "certificate_error_of e =
     \<lparr>cert_error_code = error_code e, cert_error_source = e, cert_error_owner = kernel_owner_str (error_owner e),
      cert_error_value = corrected_value e\<rparr>"

text \<open>\<open>is_auto_repairable\<close>: every failure can be fixed without calling a model.\<close>

definition is_auto_repairable :: "kernel_certificate \<Rightarrow> bool" where
  "is_auto_repairable c =
     (kernel_errors c \<noteq> [] \<and>
      list_all (\<lambda>e. cert_error_owner e = kernel_owner_str KernelAutoRepairable) (kernel_errors c))"

section \<open>The state of a check\<close>

definition MAX_DERIVATION_DEPTH :: nat where "MAX_DERIVATION_DEPTH = 64"
definition MAX_CITED_EXCERPT_BYTES :: nat where "MAX_CITED_EXCERPT_BYTES = 4096"

record check_state =
  check_discharged :: "discharged_step list"
  check_residuals :: "kernel_residual list"
  check_errors :: "check_error list"

definition check_state_default :: check_state where
  "check_state_default = \<lparr>check_discharged = [], check_residuals = [], check_errors = []\<rparr>"

definition push_error :: "check_error \<Rightarrow> check_state \<Rightarrow> check_state" where
  "push_error e st = st \<lparr>check_errors := check_errors st @ [e]\<rparr>"

definition discharge_step :: "string \<Rightarrow> kernel_judgment \<Rightarrow> utext \<Rightarrow> check_state \<Rightarrow> check_state" where
  "discharge_step rule j detail st =
     st \<lparr>check_discharged := check_discharged st @
          [\<lparr>step_rule = rule, step_concluded = judgment_canonical j, step_detail = detail\<rparr>]\<rparr>"

definition record_value_residuals ::
  "utext list \<Rightarrow> utext \<Rightarrow> kernel_proposition \<Rightarrow> utext \<Rightarrow> check_state \<Rightarrow> check_state" where
  "record_value_residuals rationales source p evidence_id st =
     st \<lparr>check_residuals := check_residuals st @
          map (\<lambda>r. \<lparr>residual_from = judgment_canonical (Mentions source p), residual_to = p,
                     residual_rationale = r, residual_evidence_ids = [evidence_id]\<rparr>) rationales\<rparr>"

section \<open>Rules without a premise\<close>

definition derive_cite ::
  "unicode \<Rightarrow> utext \<Rightarrow> kernel_proposition \<Rightarrow> snapshot \<Rightarrow> check_state \<Rightarrow> kernel_judgment option \<times> check_state" where
  "derive_cite u evidence_id p s st =
     (case snapshot_evidence s evidence_id of
        None \<Rightarrow> (None, push_error (DanglingEvidence evidence_id) st)
      | Some e \<Rightarrow>
          (let source_id = cited_source_id e in
           case cited_span e of
             None \<Rightarrow> (None, push_error (Provenance evidence_id (SpanMissing evidence_id)) st)
           | Some sp \<Rightarrow>
               (case snapshot_contents s (source_id, span_content_hash sp) of
                  None \<Rightarrow> (None, push_error (SourceContentMissing source_id (span_content_hash sp)) st)
                | Some content \<Rightarrow>
                    (case verify_evidence_span e content of
                       Inl err \<Rightarrow> (None, push_error (Provenance evidence_id err) st)
                     | Inr _ \<Rightarrow>
                         (let excerpt = cited_excerpt e;
                              object_presence = object_in u (snapshot_phrasebook s) excerpt p;
                              provenance = lit ''excerpt re-derived from '' @ source_id @ lit '' bytes '' @
                                lit (fmt_nat (span_start sp)) @ lit ''..'' @ lit (fmt_nat (span_end sp))
                          in
                            if byte_len excerpt > MAX_CITED_EXCERPT_BYTES
                            then (None, push_error (CitedSpanTooLong evidence_id MAX_CITED_EXCERPT_BYTES (byte_len excerpt)) st)
                            else if \<not> contains_term u excerpt (prop_subject p)
                            then (None, push_error (TermNotInSpan evidence_id ''subject'' (prop_subject p) excerpt) st)
                            else if object_presence = None
                            then (None, push_error (TermNotInSpan evidence_id ''object'' (prop_object p) excerpt) st)
                            else
                              (let (j, detail, residuals) =
                                 (case statement_in u (snapshot_phrasebook s) excerpt p of
                                    Some statement \<Rightarrow>
                                      (Says source_id p,
                                       provenance @ lit ''; it states `'' @ utrim (prop_predicate p) @
                                         lit ''` in the declared phrasing '' @ debug_text u (statement_phrasing statement) @
                                         lit '': '' @ debug_text u (statement_sentence statement),
                                       statement_residuals statement)
                                  | None \<Rightarrow>
                                      (Mentions source_id p,
                                       provenance @ lit '' and contains the subject and the object; no declared phrasing of'' @
                                         replicate 18 32 @ lit ''`'' @ utrim (prop_predicate p) @
                                         lit ''` states the relation between them'',
                                       (case object_presence of None \<Rightarrow> [] | Some rs \<Rightarrow> rs)))
                               in (Some j,
                                   discharge_step ''cite'' j detail
                                     (record_value_residuals residuals source_id p evidence_id st))))))))"

definition derive_attest ::
  "utext \<Rightarrow> snapshot \<Rightarrow> check_state \<Rightarrow> kernel_judgment option \<times> check_state" where
  "derive_attest claim_id s st =
     (case snapshot_claims s claim_id of
        None \<Rightarrow> (None, push_error (DanglingClaim claim_id) st)
      | Some c \<Rightarrow>
          if memory_claim_status c \<noteq> Active
          then (None, push_error (ClaimNotActive claim_id (claim_status_str (memory_claim_status c))) st)
          else
            (let j = Holds \<lparr>prop_subject = memory_claim_subject c, prop_predicate = memory_claim_predicate c,
                            prop_object = memory_claim_object c\<rparr>
             in (Some j,
                 discharge_step ''attest'' j
                   (lit ''claim '' @ claim_id @ lit '' is active with authority '' @
                    lit (authority_str (memory_claim_authority c))) st)))"

text \<open>\<open>{:?}\<close> of a slice of quantities.\<close>

definition debug_quantity :: "quantity \<Rightarrow> string" where
  "debug_quantity q = ''Quantity { units: '' @ fmt_int (units q) @ '', scale: '' @ fmt_u (scale q) @ '' }''"

definition debug_quantities :: "quantity list \<Rightarrow> utext" where
  "debug_quantities qs = lit ''['' @ join_words (lit '', '') (map (\<lambda>q. lit (debug_quantity q)) qs) @ lit '']''"

definition derive_arith ::
  "arith_op \<Rightarrow> quantity list \<Rightarrow> quantity \<Rightarrow> kernel_proposition \<Rightarrow> check_state \<Rightarrow>
   kernel_judgment option \<times> check_state" where
  "derive_arith op operands claimed p st =
     (if operands = [] then (None, push_error (ArithNoOperands (arith_op_str op)) st)
      else
        (case arith_apply op operands of
           None \<Rightarrow> (None, push_error (ArithNotExact (arith_op_str op) operands) st)
         | Some computed \<Rightarrow>
             if \<not> quantity_eq computed claimed
             then (None, push_error (ArithMismatch (arith_op_str op) operands claimed computed) st)
             else
               (Some (Holds p),
                discharge_step ''arith'' (Holds p)
                  (lit (arith_op_str op) @ lit '' of '' @ debug_quantities operands @ lit '' recomputed as '' @
                   lit (quantity_display computed)) st)))"

section \<open>Rules over a premise\<close>

fun authority_rank :: "authority \<Rightarrow> nat" where
  "authority_rank Low = 0"
| "authority_rank Medium = 1"
| "authority_rank High = 2"

definition stricter :: "authority \<Rightarrow> authority \<Rightarrow> authority" where
  "stricter a b = (if authority_rank a \<ge> authority_rank b then a else b)"

definition parse_authority :: "unicode \<Rightarrow> utext \<Rightarrow> authority option" where
  "parse_authority u v =
     (let word = lowercase u (utrim v) in
      if word = lit ''low'' then Some Low
      else if word = lit ''medium'' then Some Medium
      else if word = lit ''high'' then Some High
      else None)"

text \<open>What \<open>derive_trust\<close> does with the judgement its premise came to.\<close>

definition trust_judgment ::
  "unicode \<Rightarrow> kernel_judgment \<Rightarrow> utext \<Rightarrow> snapshot \<Rightarrow> check_state \<Rightarrow> kernel_judgment option \<times> check_state" where
  "trust_judgment u inner min_authority s st =
     (case inner of
        Mentions source_id p \<Rightarrow>
          (None, push_error (RelationNotStated source_id (utrim (prop_predicate p)) (prop_canonical p)) st)
      | Holds p \<Rightarrow> (None, push_error (TrustPremiseNotAttributed (judgment_canonical inner)) st)
      | Says source_id p \<Rightarrow>
          (case parse_authority u min_authority of
             None \<Rightarrow> (None, push_error (UnknownAuthority min_authority) st)
           | Some asked \<Rightarrow>
               (let required = stricter asked (authority_floor s) in
                case authority_of s source_id of
                  None \<Rightarrow> (None, push_error (DanglingSource source_id) st)
                | Some actual \<Rightarrow>
                    if authority_rank actual < authority_rank required
                    then (None, push_error (AuthorityBelowFloor source_id (authority_str actual) (authority_str required)) st)
                    else
                      (Some (Holds p),
                       discharge_step ''trust'' (Holds p)
                         (lit ''source '' @ source_id @ lit '' authority '' @ lit (authority_str actual) @
                          lit '' meets the '' @ lit (authority_str required) @ lit '' floor'') st))))"

fun cited_evidence_ids :: "derivation \<Rightarrow> utext list" where
  "cited_evidence_ids (Cite e p) = [e]"
| "cited_evidence_ids (TrustRule d m) = cited_evidence_ids d"
| "cited_evidence_ids (Interpret d p r) = cited_evidence_ids d"
| "cited_evidence_ids (Attest c) = []"
| "cited_evidence_ids (Arith op qs c p) = []"

text \<open>What \<open>derive_interpret\<close> does with the judgement its premise came to.\<close>

definition interpret_judgment ::
  "derivation \<Rightarrow> kernel_judgment \<Rightarrow> kernel_proposition \<Rightarrow> utext \<Rightarrow> check_state \<Rightarrow>
   kernel_judgment option \<times> check_state" where
  "interpret_judgment premise inner p rationale st =
     (if utrim rationale = []
      then (None, push_error (InterpretationWithoutARationale (judgment_canonical inner) (prop_canonical p)) st)
      else
        (Some (Holds p),
         st \<lparr>check_residuals := check_residuals st @
              [\<lparr>residual_from = judgment_canonical inner, residual_to = p, residual_rationale = rationale,
                residual_evidence_ids = cited_evidence_ids premise\<rparr>]\<rparr>))"

fun derive ::
  "unicode \<Rightarrow> derivation \<Rightarrow> snapshot \<Rightarrow> check_state \<Rightarrow> nat \<Rightarrow> kernel_judgment option \<times> check_state" where
  "derive u (Cite e p) s st depth =
     (if depth > MAX_DERIVATION_DEPTH then (None, push_error (DerivationTooDeep MAX_DERIVATION_DEPTH) st)
      else derive_cite u e p s st)"
| "derive u (Attest c) s st depth =
     (if depth > MAX_DERIVATION_DEPTH then (None, push_error (DerivationTooDeep MAX_DERIVATION_DEPTH) st)
      else derive_attest c s st)"
| "derive u (TrustRule premise m) s st depth =
     (if depth > MAX_DERIVATION_DEPTH then (None, push_error (DerivationTooDeep MAX_DERIVATION_DEPTH) st)
      else
        (case derive u premise s st (depth + 1) of
           (None, st') \<Rightarrow> (None, st')
         | (Some inner, st') \<Rightarrow> trust_judgment u inner m s st'))"
| "derive u (Arith op qs c p) s st depth =
     (if depth > MAX_DERIVATION_DEPTH then (None, push_error (DerivationTooDeep MAX_DERIVATION_DEPTH) st)
      else derive_arith op qs c p st)"
| "derive u (Interpret premise p r) s st depth =
     (if depth > MAX_DERIVATION_DEPTH then (None, push_error (DerivationTooDeep MAX_DERIVATION_DEPTH) st)
      else
        (case derive u premise s st (depth + 1) of
           (None, st') \<Rightarrow> (None, st')
         | (Some inner, st') \<Rightarrow> interpret_judgment premise inner p r st'))"

section \<open>Deciding a proposal\<close>

definition reaches_goal :: "kernel_judgment \<Rightarrow> kernel_proposition \<Rightarrow> bool" where
  "reaches_goal j goal =
     (case j of
        Holds p \<Rightarrow>
          utrim (prop_subject p) = utrim (prop_subject goal) \<and>
          utrim (prop_predicate p) = utrim (prop_predicate goal) \<and>
          utrim (prop_object p) = utrim (prop_object goal)
      | _ \<Rightarrow> False)"

text \<open>The loop of \<open>exceeds_depth_bound\<close>, with its counter.\<close>

fun exceeds_from :: "derivation \<Rightarrow> nat \<Rightarrow> bool" where
  "exceeds_from (TrustRule premise m) depth =
     (if depth + 1 > MAX_DERIVATION_DEPTH then True else exceeds_from premise (depth + 1))"
| "exceeds_from (Interpret premise p r) depth =
     (if depth + 1 > MAX_DERIVATION_DEPTH then True else exceeds_from premise (depth + 1))"
| "exceeds_from (Cite e p) depth = False"
| "exceeds_from (Attest c) depth = False"
| "exceeds_from (Arith op qs c p) depth = False"

definition exceeds_depth_bound :: "derivation \<Rightarrow> bool" where
  "exceeds_depth_bound d = exceeds_from d 1"

text \<open>The digests are parameters: \<open>proposal_digest\<close> hashes the canonical encoding of a proposal, which
  can fail, and \<open>content_digest\<close> hashes a text.\<close>

record kernel_digests =
  proposal_digest :: "kernel_proposal \<Rightarrow> (utext, utext) result"
  content_digest :: "utext \<Rightarrow> utext"

definition kernel_refusal :: "kernel_digests \<Rightarrow> kernel_proposal \<Rightarrow> string \<Rightarrow> check_error \<Rightarrow> kernel_certificate" where
  "kernel_refusal h proposal reason e =
     \<lparr>kernel_verdict = Rejected, kernel_goal = proposal_goal proposal, kernel_discharged = [], kernel_residuals = [],
      kernel_errors = [certificate_error_of e],
      kernel_replay_digest = content_digest h (lit reason @ lit ''|'' @ prop_canonical (proposal_goal proposal)),
      derivation_depth_limit = Some MAX_DERIVATION_DEPTH\<rparr>"

definition refused_as_unencodable :: "kernel_digests \<Rightarrow> kernel_proposal \<Rightarrow> utext \<Rightarrow> kernel_certificate" where
  "refused_as_unencodable h proposal detail =
     kernel_refusal h proposal ''proposal-not-encodable'' (ProposalNotEncodable detail)"

definition refused_as_too_deep :: "kernel_digests \<Rightarrow> kernel_proposal \<Rightarrow> kernel_certificate" where
  "refused_as_too_deep h proposal =
     kernel_refusal h proposal ''derivation-too-deep'' (DerivationTooDeep MAX_DERIVATION_DEPTH)"

definition verdict_of_check :: "kernel_judgment option \<Rightarrow> check_state \<Rightarrow> verdict" where
  "verdict_of_check outcome st =
     (if outcome = None \<or> check_errors st \<noteq> [] then Rejected
      else if check_residuals st = [] then Accepted
      else VerdictIsConditional)"

definition check_proposal :: "unicode \<Rightarrow> kernel_digests \<Rightarrow> kernel_proposal \<Rightarrow> snapshot \<Rightarrow> kernel_certificate" where
  "check_proposal u h proposal s =
     (if exceeds_depth_bound (proposal_derivation proposal) then refused_as_too_deep h proposal
      else
        (case proposal_digest h proposal of
           Inl detail \<Rightarrow> refused_as_unencodable h proposal detail
         | Inr digest \<Rightarrow>
             (let (outcome, derived) = derive u (proposal_derivation proposal) s check_state_default 1;
                  st = (case outcome of
                          Some j \<Rightarrow>
                            if \<not> reaches_goal j (proposal_goal proposal)
                            then push_error (GoalNotDerived (judgment_canonical j)
                                   (judgment_canonical (Holds (proposal_goal proposal)))) derived
                            else derived
                        | None \<Rightarrow> derived)
              in \<lparr>kernel_verdict = verdict_of_check outcome st, kernel_goal = proposal_goal proposal,
                  kernel_discharged = check_discharged st, kernel_residuals = check_residuals st,
                  kernel_errors = map certificate_error_of (check_errors st), kernel_replay_digest = digest,
                  derivation_depth_limit = Some MAX_DERIVATION_DEPTH\<rparr>)))"

end
