(* ===== verification/Kernel_Soundness.thy ===== *)
theory Kernel_Soundness
  imports Claim_Kernel
begin

text \<open>
  What the verdicts of the correctness kernel mean. An inductive relation says, rule by rule,
  what a derivation establishes of a snapshot and which readings it leaves open, with no state
  and no error list, as the code has the rules; a second one keeps the rules that rest on stored
  evidence. A derivation from a citation is accepted exactly when the second concludes the goal with
  nothing left open.
\<close>

section \<open>An instance\<close>

text \<open>A small instance: the tables for plain English text, and a snapshot in which the source says
  that A owns B.\<close>

definition plain_unicode :: unicode where
  "plain_unicode =
     \<lparr>is_ignorable = (\<lambda>_. False), nfd = id, fold_case = id, nfc = id,
      word_bound_indices = (\<lambda>t. 0 # concat (map (\<lambda>off. [off, off + 1]) (match_offsets 32 t 0))),
      sentence_bounds = (\<lambda>t. [t]), lowercase = id, is_alphanumeric = (\<lambda>c. 97 \<le> c \<and> c \<le> 122), debug_text = id\<rparr>"

definition plain_digests :: kernel_digests where
  "plain_digests = \<lparr>proposal_digest = (\<lambda>_. Inr []), content_digest = id\<rparr>"

definition owns :: kernel_proposition where
  "owns = \<lparr>prop_subject = lit ''A'', prop_predicate = lit ''owner'', prop_object = lit ''B''\<rparr>"

definition owns_snapshot :: snapshot where
  "owns_snapshot =
     with_claim
       (with_source_content
         (with_source
           (with_evidence
             (with_phrasebook snapshot_new (with_relation phrasebook_new (lit ''owner'') [Phrasing (lit ''{from} owns {to}'')]))
             \<lparr>cited_id = lit ''e1'', cited_source_id = lit ''s1'', cited_excerpt = lit ''A owns B'',
              cited_span = Some \<lparr>span_start = 6, span_end = 14, span_content_hash = lit ''h''\<rparr>\<rparr>)
           \<lparr>memory_source_id = lit ''s1'', memory_source_authority = Medium\<rparr>)
         \<lparr>content_source_id = lit ''s1'', content_text = lit ''Note: A owns B. '', content_hash = lit ''h''\<rparr>)
       \<lparr>memory_claim_id = lit ''c1'', memory_claim_subject = lit ''A'', memory_claim_predicate = lit ''owner'',
        memory_claim_object = lit ''C'', memory_claim_authority = Low, memory_claim_status = Superseded\<rparr>"

lemma fold_plain: "\<forall>c \<in> set t. c < 128 \<Longrightarrow> fold_text plain_unicode t = join_words [32] (split_whitespace t)"
proof -
  assume "\<forall>c \<in> set t. c < 128"
  then have "map plain_typography t = t" by (intro map_idI) (auto simp: plain_typography_def)
  then show ?thesis by (simp add: fold_text_def plain_unicode_def)
qed

lemmas plain_eval = lit_def split_whitespace_def is_white_space_def utrim_def trim_start_def trim_end_def
  trim_end_matches_def utf8_len_def

lemma fold_owns:
  "fold_text plain_unicode (lit ''A owns B'') = lit ''A owns B''"
  "fold_text plain_unicode (lit ''A'') = lit ''A''" "fold_text plain_unicode (lit ''B'') = lit ''B''"
  by (subst fold_plain; simp add: plain_eval)+

lemma owns_boundaries: "word_boundaries plain_unicode (lit ''A owns B'') = [0, 1, 2, 6, 7, 8]"
  by (simp add: word_boundaries_def plain_unicode_def plain_eval)

text \<open>A text found in the sentence begins where a word or a space does; no cue begins so.\<close>

lemma owns_heads:
  "contains_folded plain_unicode (lit ''A owns B'') x \<Longrightarrow> hd x \<in> {65, 32, 111, 66}"
  unfolding contains_folded_def owns_boundaries
  by (cases x) (auto simp: lit_def utf8_len_def split: if_splits)

lemma cue_free: "\<not> list_ex (contains_folded plain_unicode (lit ''A owns B'')) (all_cues plain_unicode b)"
  if "book_cues b = []"
proof -
  have fold: "map (fold_text plain_unicode) (map lit DEFAULT_CUES) = map lit DEFAULT_CUES"
    by (simp add: DEFAULT_CUES_def fold_plain plain_eval)
  have "\<forall>x \<in> set (map lit DEFAULT_CUES). hd x \<notin> {65, 32, 111, 66}"
    by (simp add: DEFAULT_CUES_def lit_def)
  then show ?thesis
    using that fold owns_heads by (fastforce simp: all_cues_def list_ex_iff simp del: map_map)
qed

lemma owns_stated:
  "statement_in plain_unicode (snapshot_phrasebook owns_snapshot) (lit ''A owns B'') owns =
     Some \<lparr>statement_phrasing = lit ''{from} owns {to}'', statement_sentence = lit ''A owns B'', statement_residuals = []\<rparr>"
proof -
  define b where "b = snapshot_phrasebook owns_snapshot"
  have ph: "phrasings b (prop_predicate owns) = [Phrasing (lit ''{from} owns {to}'')]" "book_cues b = []"
    "object_type_of b owns = None"
    by (simp_all add: b_def owns_snapshot_def owns_def phrasings_def with_relation_def phrasebook_new_def snapshot_new_def
        with_claim_def with_source_content_def with_source_def with_evidence_def with_phrasebook_def object_type_of_def plain_eval)
  have sen: "sentences plain_unicode (lit ''A owns B'') = [lit ''A owns B'']"
    by (simp add: sentences_def plain_unicode_def unwrap_lines_def flush_whitespace_def plain_eval)
  have inst: "instantiate (Phrasing (lit ''{from} owns {to}'')) (prop_subject owns) (prop_object owns) = lit ''A owns B''"
    by (simp add: instantiate_def owns_def slot_from_def slot_to_def plain_eval)
  have "contains_folded plain_unicode (lit ''A owns B'') (lit ''A owns B'')"
    by (simp add: contains_folded_def Let_def owns_boundaries) (simp add: plain_eval)
  then have "stated_by plain_unicode b owns (lit ''A owns B'') (Phrasing (lit ''{from} owns {to}'')) = Some []"
    by (simp add: stated_by_def ph inst fold_owns)
  moreover have "\<not> is_a_question (lit ''A owns B'')" by (simp add: is_a_question_def plain_eval)
  moreover have "utrim (lit ''A owns B'') = lit ''A owns B''" by (simp add: plain_eval)
  ultimately have "statement_in plain_unicode b (lit ''A owns B'') owns =
     Some \<lparr>statement_phrasing = lit ''{from} owns {to}'', statement_sentence = lit ''A owns B'', statement_residuals = []\<rparr>"
    using cue_free [OF ph(2)] by (simp add: statement_in_def sen ph sentence_states_def fold_owns Let_def)
  then show ?thesis by (simp add: b_def)
qed

section \<open>Evidence\<close>

text \<open>An evidence span is genuine when the excerpt is the text at the named bytes of content that
  has the named hash.\<close>

definition genuine :: "memory_evidence \<Rightarrow> source_content \<Rightarrow> bool" where
  "genuine e c =
     (content_source_id c = cited_source_id e \<and>
      (\<exists>sp before after. cited_span e = Some sp \<and> span_content_hash sp = content_hash c \<and>
         content_text c = before @ cited_excerpt e @ after \<and> byte_len before = span_start sp \<and>
         byte_len (cited_excerpt e) = span_end sp - span_start sp \<and>
         is_char_boundary (content_text c) (span_end sp)))"

lemma byte_len_le_boundary: "is_char_boundary t n \<Longrightarrow> n \<le> byte_len t"
  by (auto simp: is_char_boundary_def skip_bytes_Some)

lemma verify_evidence_span_iff: "verify_evidence_span e c = Inr () \<longleftrightarrow> genuine e c"
proof (cases "cited_span e")
  case None
  then show ?thesis by (simp add: verify_evidence_span_def genuine_def)
next
  case (Some sp)
  have boundary: "is_char_boundary (a @ b) (byte_len a)" for a b
    by (auto simp: is_char_boundary_def skip_bytes_Some)
  have "verify_evidence_span e c = Inr () \<longleftrightarrow>
      content_source_id c = cited_source_id e \<and> span_content_hash sp = content_hash c \<and>
      is_char_boundary (content_text c) (span_start sp) \<and> is_char_boundary (content_text c) (span_end sp) \<and>
      slice (content_text c) (span_start sp) (span_end sp) = Some (cited_excerpt e)"
    using Some byte_len_le_boundary [of "content_text c" "span_end sp"]
    by (auto simp: verify_evidence_span_def split: option.splits)
  also have "\<dots> \<longleftrightarrow> genuine e c"
    using Some boundary by (auto simp: genuine_def slice_Some) metis
  finally show ?thesis .
qed

text \<open>The check of a citation, without what it records.\<close>

definition cited_in :: "unicode \<Rightarrow> snapshot \<Rightarrow> utext \<Rightarrow> kernel_proposition \<Rightarrow> memory_evidence \<Rightarrow> bool" where
  "cited_in u s evidence_id p e =
     (snapshot_evidence s evidence_id = Some e \<and>
      (\<exists>sp c. cited_span e = Some sp \<and> snapshot_contents s (cited_source_id e, span_content_hash sp) = Some c \<and>
         genuine e c) \<and>
      byte_len (cited_excerpt e) \<le> MAX_CITED_EXCERPT_BYTES \<and>
      contains_term u (cited_excerpt e) (prop_subject p) \<and>
      object_in u (snapshot_phrasebook s) (cited_excerpt e) p \<noteq> None)"

definition value_residual :: "utext \<Rightarrow> kernel_proposition \<Rightarrow> utext \<Rightarrow> utext \<Rightarrow> kernel_residual" where
  "value_residual source p evidence_id r =
     \<lparr>residual_from = judgment_canonical (Mentions source p), residual_to = p, residual_rationale = r,
      residual_evidence_ids = [evidence_id]\<rparr>"

section \<open>What a derivation establishes\<close>

inductive establishes :: "unicode \<Rightarrow> snapshot \<Rightarrow> derivation \<Rightarrow> kernel_judgment \<Rightarrow> kernel_residual list \<Rightarrow> bool"
  for u s where
  stated: "cited_in u s i p e \<Longrightarrow> statement_in u (snapshot_phrasebook s) (cited_excerpt e) p = Some stm \<Longrightarrow>
    establishes u s (Cite i p) (Says (cited_source_id e) p)
      (map (value_residual (cited_source_id e) p i) (statement_residuals stm))"
| mentioned: "cited_in u s i p e \<Longrightarrow> statement_in u (snapshot_phrasebook s) (cited_excerpt e) p = None \<Longrightarrow>
    object_in u (snapshot_phrasebook s) (cited_excerpt e) p = Some rs \<Longrightarrow>
    establishes u s (Cite i p) (Mentions (cited_source_id e) p) (map (value_residual (cited_source_id e) p i) rs)"
| attested: "snapshot_claims s i = Some c \<Longrightarrow> memory_claim_status c = Active \<Longrightarrow>
    establishes u s (Attest i)
      (Holds \<lparr>prop_subject = memory_claim_subject c, prop_predicate = memory_claim_predicate c,
              prop_object = memory_claim_object c\<rparr>) []"
| trusted: "establishes u s d (Says src p) rs \<Longrightarrow> parse_authority u m = Some asked \<Longrightarrow>
    authority_of s src = Some actual \<Longrightarrow> authority_rank asked \<le> authority_rank actual \<Longrightarrow>
    authority_rank (authority_floor s) \<le> authority_rank actual \<Longrightarrow>
    establishes u s (TrustRule d m) (Holds p) rs"
| recomputed: "arith_apply op qs = Some computed \<Longrightarrow> quantity_eq computed claimed \<Longrightarrow>
    establishes u s (Arith op qs claimed p) (Holds p) []"
| read: "establishes u s d j rs \<Longrightarrow> utrim r \<noteq> [] \<Longrightarrow>
    establishes u s (Interpret d p r) (Holds p)
      (rs @ [\<lparr>residual_from = judgment_canonical j, residual_to = p, residual_rationale = r,
              residual_evidence_ids = cited_evidence_ids d\<rparr>])"

inductive_simps establishes_simps:
  "establishes u s (Cite i p) j rs"
  "establishes u s (Attest i) j rs"
  "establishes u s (TrustRule d m) j rs"
  "establishes u s (Arith op qs c p) j rs"
  "establishes u s (Interpret d p r) j rs"

lemma stricter_le:
  "authority_rank (stricter a b) \<le> authority_rank c \<longleftrightarrow>
   authority_rank a \<le> authority_rank c \<and> authority_rank b \<le> authority_rank c"
  by (auto simp: stricter_def)

lemma less_stricter:
  "authority_rank c < authority_rank (stricter a b) \<longleftrightarrow>
   authority_rank c < authority_rank a \<or> authority_rank c < authority_rank b"
  by (auto simp: stricter_def)

lemma state_simps [simp]:
  "check_residuals (push_error e st) = check_residuals st"
  "check_errors (push_error e st) = check_errors st @ [e]"
  "check_residuals (discharge_step r j d st) = check_residuals st"
  "check_errors (discharge_step r j d st) = check_errors st"
  "check_errors (record_value_residuals rs src p i st) = check_errors st"
  "check_residuals (record_value_residuals rs src p i st) =
     check_residuals st @ map (value_residual src p i) rs"
  by (simp_all add: push_error_def discharge_step_def record_value_residuals_def value_residual_def)

text \<open>One judgement of the relation, as a step of the kernel leaves it: an outcome with the residuals
  it added and no error, or no outcome and exactly one error more.\<close>

definition step_ok ::
  "(kernel_judgment \<Rightarrow> kernel_residual list \<Rightarrow> bool) \<Rightarrow> check_state \<Rightarrow> kernel_judgment option \<times> check_state \<Rightarrow> bool" where
  "step_ok P st r =
     (case r of
        (Some j, st') \<Rightarrow>
          check_errors st' = check_errors st \<and>
          (\<exists>rs. check_residuals st' = check_residuals st @ rs \<and> (\<forall>k qs. P k qs \<longleftrightarrow> k = j \<and> qs = rs))
      | (None, st') \<Rightarrow> (\<forall>k rs. \<not> P k rs) \<and> (\<exists>e. check_errors st' = check_errors st @ [e]))"

lemma derive_cite_ok: "step_ok (establishes u s (Cite i p)) st (derive_cite u i p s st)"
proof (cases "\<exists>e. cited_in u s i p e")
  case True
  then obtain e sp c where e: "cited_in u s i p e" "snapshot_evidence s i = Some e" "cited_span e = Some sp"
    "snapshot_contents s (cited_source_id e, span_content_hash sp) = Some c" "verify_evidence_span e c = Inr ()"
    by (auto simp: cited_in_def verify_evidence_span_iff)
  obtain ob where ob: "object_in u (snapshot_phrasebook s) (cited_excerpt e) p = Some ob"
    using e(1) by (auto simp: cited_in_def)
  have long: "\<not> byte_len (cited_excerpt e) > MAX_CITED_EXCERPT_BYTES"
    and subj: "contains_term u (cited_excerpt e) (prop_subject p)"
    using e(1) by (auto simp: cited_in_def)
  have unique: "e' = e" if "cited_in u s i p e'" for e'
    using that e(2) by (simp add: cited_in_def)
  show ?thesis
    by (cases "statement_in u (snapshot_phrasebook s) (cited_excerpt e) p")
      (auto simp: step_ok_def derive_cite_def e(2-) long subj ob Let_def establishes_simps
        intro!: exI [of _ e] e(1) dest!: unique)
next
  case False
  then have none: "\<not> establishes u s (Cite i p) j rs" for j rs by (auto simp: establishes_simps)
  have "fst (derive_cite u i p s st) = None \<and> (\<exists>e. check_errors (snd (derive_cite u i p s st)) = check_errors st @ [e])"
    using False
    by (auto simp: derive_cite_def cited_in_def Let_def verify_evidence_span_iff [symmetric] split: option.splits sum.splits)
  with none show ?thesis by (auto simp: step_ok_def split: prod.splits option.splits)
qed

lemma derive_attest_ok: "step_ok (establishes u s (Attest i)) st (derive_attest i s st)"
  by (auto simp: step_ok_def derive_attest_def establishes_simps Let_def split: option.splits)

lemma derive_arith_ok: "step_ok (establishes u s (Arith op qs c p)) st (derive_arith op qs c p st)"
  by (auto simp: step_ok_def derive_arith_def establishes_simps split: option.splits)

lemma step_ok_premise:
  assumes "step_ok P st r"
    and "\<And>j rs st'. check_errors st' = check_errors st \<Longrightarrow> check_residuals st' = check_residuals st @ rs \<Longrightarrow>
      \<forall>k qs. P k qs \<longleftrightarrow> k = j \<and> qs = rs \<Longrightarrow> step_ok Q st (f j st')"
    and "\<And>j rs. Q j rs \<Longrightarrow> \<exists>k qs. P k qs"
  shows "step_ok Q st (case r of (None, st') \<Rightarrow> (None, st') | (Some j, st') \<Rightarrow> f j st')"
proof -
  obtain outcome st' where r: "r = (outcome, st')" by (cases r)
  show ?thesis
  proof (cases outcome)
    case None
    then have "\<And>j rs. \<not> Q j rs" using assms(1,3) r by (force simp: step_ok_def)
    then show ?thesis using assms(1) r None by (simp add: step_ok_def)
  next
    case (Some j)
    with assms(1) r obtain rs where "check_errors st' = check_errors st"
      "check_residuals st' = check_residuals st @ rs" "\<forall>k qs. P k qs \<longleftrightarrow> k = j \<and> qs = rs"
      by (auto simp: step_ok_def)
    then have "step_ok Q st (f j st')" by (rule assms(2))
    then show ?thesis using r Some by simp
  qed
qed

lemma trust_judgment_ok:
  assumes "check_errors st' = check_errors st" "check_residuals st' = check_residuals st @ rs"
    and "\<forall>k qs. establishes u s d k qs \<longleftrightarrow> k = j \<and> qs = rs"
  shows "step_ok (establishes u s (TrustRule d m)) st (trust_judgment u j m s st')"
  using assms
  by (cases j)
    (auto simp: step_ok_def trust_judgment_def establishes_simps Let_def not_less stricter_le less_stricter not_le split: option.splits)

lemma interpret_judgment_ok:
  assumes "check_errors st' = check_errors st" "check_residuals st' = check_residuals st @ rs"
    and "\<forall>k qs. establishes u s d k qs \<longleftrightarrow> k = j \<and> qs = rs"
  shows "step_ok (establishes u s (Interpret d p r)) st (interpret_judgment d j p r st')"
  using assms by (auto simp: step_ok_def interpret_judgment_def establishes_simps)

section \<open>Depth\<close>

fun derivation_depth :: "derivation \<Rightarrow> nat" where
  "derivation_depth (Cite e p) = 1"
| "derivation_depth (Attest c) = 1"
| "derivation_depth (TrustRule d m) = Suc (derivation_depth d)"
| "derivation_depth (Arith op qs c p) = 1"
| "derivation_depth (Interpret d p r) = Suc (derivation_depth d)"

lemma derivation_depth_pos: "0 < derivation_depth d"
  by (cases d) simp_all

lemma exceeds_from_iff:
  "n \<le> MAX_DERIVATION_DEPTH \<Longrightarrow> exceeds_from d n \<longleftrightarrow> derivation_depth d + n > Suc MAX_DERIVATION_DEPTH"
proof (induction d arbitrary: n)
  case (TrustRule d m)
  then show ?case using derivation_depth_pos [of d] by (cases "n = MAX_DERIVATION_DEPTH") auto
next
  case (Interpret d p r)
  then show ?case using derivation_depth_pos [of d] by (cases "n = MAX_DERIVATION_DEPTH") auto
qed auto

lemma exceeds_depth_bound_iff: "exceeds_depth_bound d \<longleftrightarrow> derivation_depth d > MAX_DERIVATION_DEPTH"
  by (simp add: exceeds_depth_bound_def exceeds_from_iff MAX_DERIVATION_DEPTH_def)

text \<open>Within the bound, the kernel's walk and the relation agree.\<close>

lemma derive_ok:
  "derivation_depth d + n \<le> Suc MAX_DERIVATION_DEPTH \<Longrightarrow> step_ok (establishes u s d) st (derive u d s st n)"
proof (induction d arbitrary: n)
  case (Cite i p)
  then show ?case using derive_cite_ok by simp
next
  case (Attest i)
  then show ?case using derive_attest_ok by simp
next
  case (Arith op qs c p)
  then show ?case using derive_arith_ok by simp
next
  case (TrustRule d m)
  have "step_ok (establishes u s (TrustRule d m)) st
      (case derive u d s st (n + 1) of (None, st') \<Rightarrow> (None, st') | (Some inner, st') \<Rightarrow> trust_judgment u inner m s st')"
    using TrustRule.prems
    by (intro step_ok_premise [OF TrustRule.IH] trust_judgment_ok) (auto simp: establishes_simps)
  then show ?case using TrustRule.prems derivation_depth_pos [of d] by simp
next
  case (Interpret d p r)
  have "step_ok (establishes u s (Interpret d p r)) st
      (case derive u d s st (n + 1) of (None, st') \<Rightarrow> (None, st') | (Some inner, st') \<Rightarrow> interpret_judgment d inner p r st')"
    using Interpret.prems
    by (intro step_ok_premise [OF Interpret.IH] interpret_judgment_ok) (auto simp: establishes_simps)
  then show ?case using Interpret.prems derivation_depth_pos [of d] by simp
qed

section \<open>The verdict\<close>

lemma check_proposal_walk:
  assumes "\<not> exceeds_depth_bound (proposal_derivation pr)" "proposal_digest h pr = Inr digest"
    and "derive u (proposal_derivation pr) s check_state_default 1 = (outcome, st)"
  shows "kernel_verdict (check_proposal u h pr s) =
      (case outcome of
         None \<Rightarrow> Rejected
       | Some j \<Rightarrow> if \<not> reaches_goal j (proposal_goal pr) \<or> check_errors st \<noteq> [] then Rejected
                  else if check_residuals st = [] then Accepted else VerdictIsConditional)"
    and "kernel_errors (check_proposal u h pr s) =
      map certificate_error_of (check_errors st @
        (case outcome of
           Some j \<Rightarrow> if reaches_goal j (proposal_goal pr) then []
                      else [GoalNotDerived (judgment_canonical j) (judgment_canonical (Holds (proposal_goal pr)))]
         | None \<Rightarrow> []))"
  using assms by (auto simp: check_proposal_def verdict_of_check_def split: option.splits)

lemma verdict_eq_iff:
  assumes "\<not> exceeds_depth_bound (proposal_derivation pr)" "proposal_digest h pr = Inr digest"
    and "v \<noteq> Rejected"
  shows "kernel_verdict (check_proposal u h pr s) = v \<longleftrightarrow>
    (\<exists>j rs. establishes u s (proposal_derivation pr) j rs \<and> reaches_goal j (proposal_goal pr) \<and>
            v = (if rs = [] then Accepted else VerdictIsConditional))"
proof -
  obtain outcome st where w: "derive u (proposal_derivation pr) s check_state_default 1 = (outcome, st)"
    by (cases "derive u (proposal_derivation pr) s check_state_default 1")
  have "step_ok (establishes u s (proposal_derivation pr)) check_state_default (outcome, st)"
    using derive_ok [of "proposal_derivation pr" 1 u s check_state_default] assms(1)
    by (simp add: w [simplified] exceeds_depth_bound_iff)
  with assms(3) check_proposal_walk(1) [OF assms(1,2) w] show ?thesis
    by (cases outcome) (auto simp: step_ok_def check_state_default_def)
qed

lemma accepted_establishes:
  assumes "kernel_verdict (check_proposal u h pr s) = Accepted"
  shows "\<exists>j. establishes u s (proposal_derivation pr) j [] \<and> reaches_goal j (proposal_goal pr)"
proof -
  have "\<not> exceeds_depth_bound (proposal_derivation pr)"
    using assms by (auto simp: check_proposal_def refused_as_too_deep_def kernel_refusal_def)
  moreover from this obtain digest where "proposal_digest h pr = Inr digest"
    using assms by (auto simp: check_proposal_def refused_as_unencodable_def kernel_refusal_def split: sum.splits)
  ultimately show ?thesis using verdict_eq_iff [of pr h digest Accepted u s] assms by (auto split: if_splits)
qed

text \<open>The verdict of the kernel is what the derivation establishes, by the rules as the code has them.\<close>

lemma verdict_establishes:
  "(kernel_verdict (check_proposal u h pr s) = Accepted \<longleftrightarrow>
      derivation_depth (proposal_derivation pr) \<le> MAX_DERIVATION_DEPTH \<and> (\<exists>digest. proposal_digest h pr = Inr digest) \<and>
      (\<exists>j. establishes u s (proposal_derivation pr) j [] \<and> reaches_goal j (proposal_goal pr))) \<and>
   (kernel_verdict (check_proposal u h pr s) = VerdictIsConditional \<longleftrightarrow>
      derivation_depth (proposal_derivation pr) \<le> MAX_DERIVATION_DEPTH \<and> (\<exists>digest. proposal_digest h pr = Inr digest) \<and>
      (\<exists>j rs. rs \<noteq> [] \<and> establishes u s (proposal_derivation pr) j rs \<and> reaches_goal j (proposal_goal pr)))"
proof (cases "exceeds_depth_bound (proposal_derivation pr)")
  case True
  then show ?thesis
    by (simp add: check_proposal_def refused_as_too_deep_def kernel_refusal_def) (simp add: exceeds_depth_bound_iff)
next
  case False
  then have depth: "derivation_depth (proposal_derivation pr) \<le> MAX_DERIVATION_DEPTH" by (simp add: exceeds_depth_bound_iff)
  show ?thesis
  proof (cases "proposal_digest h pr")
    case (Inl detail)
    with False show ?thesis by (simp add: check_proposal_def refused_as_unencodable_def kernel_refusal_def)
  next
    case (Inr digest)
    then show ?thesis
      using depth verdict_eq_iff [OF False Inr, of _ u s] by auto
  qed
qed

section \<open>What citations establish\<close>

text \<open>The rules of the design that rest on stored evidence: a citation says or mentions, a source is
  trusted for what it says, and a reading is left open. A derivation rests on a citation when its
  leaf is one. The other two leaves are taken at their word by the code (\<open>Arith\<close> for any proposition,
  \<open>Attest\<close> whatever the validity interval of the claim), and so are not among these rules.\<close>

inductive evidenced :: "unicode \<Rightarrow> snapshot \<Rightarrow> derivation \<Rightarrow> kernel_judgment \<Rightarrow> kernel_residual list \<Rightarrow> bool"
  for u s where
  says: "cited_in u s i p e \<Longrightarrow> statement_in u (snapshot_phrasebook s) (cited_excerpt e) p = Some stm \<Longrightarrow>
    evidenced u s (Cite i p) (Says (cited_source_id e) p)
      (map (value_residual (cited_source_id e) p i) (statement_residuals stm))"
| mentions: "cited_in u s i p e \<Longrightarrow> statement_in u (snapshot_phrasebook s) (cited_excerpt e) p = None \<Longrightarrow>
    object_in u (snapshot_phrasebook s) (cited_excerpt e) p = Some rs \<Longrightarrow>
    evidenced u s (Cite i p) (Mentions (cited_source_id e) p) (map (value_residual (cited_source_id e) p i) rs)"
| trusts: "evidenced u s d (Says src p) rs \<Longrightarrow> parse_authority u m = Some asked \<Longrightarrow>
    authority_of s src = Some actual \<Longrightarrow> authority_rank asked \<le> authority_rank actual \<Longrightarrow>
    authority_rank (authority_floor s) \<le> authority_rank actual \<Longrightarrow>
    evidenced u s (TrustRule d m) (Holds p) rs"
| reads: "evidenced u s d j rs \<Longrightarrow> utrim r \<noteq> [] \<Longrightarrow>
    evidenced u s (Interpret d p r) (Holds p)
      (rs @ [\<lparr>residual_from = judgment_canonical j, residual_to = p, residual_rationale = r,
              residual_evidence_ids = cited_evidence_ids d\<rparr>])"

inductive_simps evidenced_simps:
  "evidenced u s (Cite i p) j rs"
  "evidenced u s (TrustRule d m) j rs"
  "evidenced u s (Interpret d p r) j rs"

fun rests_on_citation :: "derivation \<Rightarrow> bool" where
  "rests_on_citation (Cite i p) = True"
| "rests_on_citation (TrustRule d m) = rests_on_citation d"
| "rests_on_citation (Interpret d p r) = rests_on_citation d"
| "rests_on_citation d = False"

lemma establishes_evidenced: "rests_on_citation d \<Longrightarrow> establishes u s d j rs \<longleftrightarrow> evidenced u s d j rs"
  by (induction d arbitrary: j rs) (simp_all add: establishes_simps evidenced_simps)

text \<open>C3. For a derivation that rests on a citation, the verdict of the kernel is exactly what the stored
  evidence supports. The proposal is accepted if and only if its derivation is within the depth
  bound, the proposal can be encoded, and the rules of \<open>evidenced\<close> lead from the cited text to an
  assertion of the goal with no reading left open; it is conditional exactly when the same holds with
  some reading left open. Derivations whose leaf is \<open>Arith\<close> or \<open>Attest\<close> are not covered: the first is
  accepted for any goal (\<open>arith_accepts_anything\<close>), the second asks only that the claim is active.\<close>

theorem citation_verdict_exact:
  assumes "rests_on_citation (proposal_derivation pr)"
  shows "(kernel_verdict (check_proposal u h pr s) = Accepted \<longleftrightarrow>
      derivation_depth (proposal_derivation pr) \<le> MAX_DERIVATION_DEPTH \<and> (\<exists>digest. proposal_digest h pr = Inr digest) \<and>
      (\<exists>j. evidenced u s (proposal_derivation pr) j [] \<and> reaches_goal j (proposal_goal pr))) \<and>
   (kernel_verdict (check_proposal u h pr s) = VerdictIsConditional \<longleftrightarrow>
      derivation_depth (proposal_derivation pr) \<le> MAX_DERIVATION_DEPTH \<and> (\<exists>digest. proposal_digest h pr = Inr digest) \<and>
      (\<exists>j rs. rs \<noteq> [] \<and> evidenced u s (proposal_derivation pr) j rs \<and> reaches_goal j (proposal_goal pr)))"
  using verdict_establishes [of u h pr s] by (simp add: establishes_evidenced [OF assms])

section \<open>Termination\<close>

text \<open>Only the depth guard of the walk reports a derivation as too deep.\<close>

definition not_depth :: "check_state \<Rightarrow> bool" where
  "not_depth st = (\<forall>e \<in> set (check_errors st). \<forall>l. e \<noteq> DerivationTooDeep l)"

lemma not_depth_simps [simp]:
  "not_depth (push_error e st) \<longleftrightarrow> not_depth st \<and> (\<forall>l. e \<noteq> DerivationTooDeep l)"
  "not_depth (discharge_step r j d st) = not_depth st"
  "not_depth (record_value_residuals rs src p i st) = not_depth st"
  "not_depth (st \<lparr>check_residuals := x\<rparr>) = not_depth st"
  "not_depth check_state_default"
  by (auto simp: not_depth_def check_state_default_def)

lemma derive_cite_not_depth: "not_depth st \<Longrightarrow> not_depth (snd (derive_cite u i p s st))"
  by (auto simp: derive_cite_def Let_def split: option.splits sum.splits)

lemma trust_judgment_not_depth: "not_depth st \<Longrightarrow> not_depth (snd (trust_judgment u j m s st))"
  by (auto simp: trust_judgment_def Let_def split: option.splits kernel_judgment.splits)

lemma derive_not_depth:
  "derivation_depth d + n \<le> Suc MAX_DERIVATION_DEPTH \<Longrightarrow> not_depth st \<Longrightarrow> not_depth (snd (derive u d s st n))"
proof (induction d arbitrary: n)
  case (TrustRule d m)
  then have "not_depth (snd (derive u d s st (Suc n)))" by simp
  with TrustRule.prems show ?case by (auto simp: trust_judgment_not_depth split: prod.splits option.splits)
next
  case (Interpret d p r)
  then have "not_depth (snd (derive u d s st (Suc n)))" by simp
  with Interpret.prems show ?case by (auto simp: interpret_judgment_def split: prod.splits option.splits)
qed (auto simp: derive_cite_not_depth derive_attest_def derive_arith_def Let_def split: option.splits)

lemma certificate_error_code_depth:
  "cert_error_code (certificate_error_of e) = ''derivation_too_deep'' \<longleftrightarrow> (\<exists>l. e = DerivationTooDeep l)"
  by (cases e) (simp_all add: certificate_error_of_def)

text \<open>C15. Every proposal gets a verdict, and a hostile one costs no more than the bound. A certificate
  reports a derivation as too deep exactly when it nests past 64 rules, and exactly then the
  certificate is the fixed refusal, which is computed from the goal alone: within the bound the
  walk never runs into its own depth guard, and past it nothing of the derivation is read.\<close>

theorem check_depth_exact:
  "((\<exists>e \<in> set (kernel_errors (check_proposal u h pr s)). cert_error_code e = ''derivation_too_deep'') \<longleftrightarrow>
      derivation_depth (proposal_derivation pr) > MAX_DERIVATION_DEPTH) \<and>
   (check_proposal u h pr s = refused_as_too_deep h (pr \<lparr>proposal_derivation := d'\<rparr>) \<longleftrightarrow>
      derivation_depth (proposal_derivation pr) > MAX_DERIVATION_DEPTH)"
proof -
  define refused where "refused = refused_as_too_deep h (pr \<lparr>proposal_derivation := d'\<rparr>)"
  have code: "\<exists>e \<in> set (kernel_errors refused). cert_error_code e = ''derivation_too_deep''"
    by (simp add: refused_def refused_as_too_deep_def kernel_refusal_def certificate_error_of_def)
  have deep: "check_proposal u h pr s = refused"
    if "derivation_depth (proposal_derivation pr) > MAX_DERIVATION_DEPTH"
    using that
    by (simp add: refused_def check_proposal_def exceeds_depth_bound_iff refused_as_too_deep_def kernel_refusal_def)
  have shallow: "cert_error_code e \<noteq> ''derivation_too_deep''"
    if le: "\<not> derivation_depth (proposal_derivation pr) > MAX_DERIVATION_DEPTH"
      and e: "e \<in> set (kernel_errors (check_proposal u h pr s))" for e
  proof (cases "proposal_digest h pr")
    case (Inl detail)
    with le e show ?thesis
      by (simp add: check_proposal_def exceeds_depth_bound_iff refused_as_unencodable_def kernel_refusal_def
          certificate_error_of_def)
  next
    case (Inr digest)
    obtain outcome st where w: "derive u (proposal_derivation pr) s check_state_default 1 = (outcome, st)"
      by (cases "derive u (proposal_derivation pr) s check_state_default 1")
    have "not_depth st"
      using derive_not_depth [of "proposal_derivation pr" 1 check_state_default u s] le by (simp add: w [simplified])
    moreover have "\<not> exceeds_depth_bound (proposal_derivation pr)" using le by (simp add: exceeds_depth_bound_iff)
    note check_proposal_walk(2) [OF this Inr w]
    ultimately show ?thesis
      using e by (auto simp: certificate_error_code_depth not_depth_def split: option.splits if_splits)
  qed
  from code deep shallow show ?thesis unfolding refused_def [symmetric] by metis
qed

section \<open>Renderings\<close>

text \<open>The two replacements of \<open>escape_term\<close>, in one pass.\<close>

definition escape_char :: "nat \<Rightarrow> utext" where
  "escape_char c = (if c = 92 then [92, 92] else if c = 124 then [92, 124] else [c])"

lemma escape_term_simps [simp]:
  "escape_term [] = []"
  "escape_term (c # t) = escape_char c @ escape_term t"
  by (simp_all add: escape_term_def escape_char_def)

lemma escape_term_cut:
  "escape_term x @ 124 # a = escape_term y @ 124 # b \<longleftrightarrow> x = y \<and> a = b"
proof (induction x arbitrary: y)
  case Nil
  then show ?case by (cases y) (auto simp: escape_char_def)
next
  case (Cons c x)
  show ?case
  proof (cases y)
    case (Cons d z)
    with Cons.IH [of z] show ?thesis by (auto simp: escape_char_def split: if_splits)
  qed (auto simp: escape_char_def)
qed

lemma escape_term_inj: "escape_term x = escape_term y \<longleftrightarrow> x = y"
  using escape_term_cut [of x "[]" y "[]"] by auto

text \<open>Two renderings are the same exactly when the propositions are: the text shown in
  certificates and errors is equal for two propositions if and only if the comparison of the goal
  check, field by field and trimmed, finds them equal, whatever separators their terms contain.\<close>

theorem canonical_names_one: "prop_canonical p = prop_canonical q \<longleftrightarrow> reaches_goal (Holds p) q"
  by (simp add: prop_canonical_def reaches_goal_def escape_term_cut escape_term_inj)

section \<open>Arithmetic proves anything\<close>

text \<open>An arithmetic step says nothing of its proposition. For every goal whatever, over every
  snapshot, the sum of the single number one, claimed to be one, is accepted as a derivation of that
  goal: the rule recomputes the numbers and never compares them with the proposition, and it has no
  premise.\<close>

theorem arith_accepts_anything:
  assumes "proposal_digest h \<lparr>proposal_goal = goal,
      proposal_derivation = Arith Sum [quantity_integer 1] (quantity_integer 1) goal\<rparr> = Inr digest"
  shows "kernel_verdict (check_proposal u h \<lparr>proposal_goal = goal,
      proposal_derivation = Arith Sum [quantity_integer 1] (quantity_integer 1) goal\<rparr> s) = Accepted"
proof -
  have "quantity_eq (quantity_integer 1) (quantity_integer 1)"
    by (simp add: quantity_eq_iff quantity_wf_def quantity_integer_def i128_min_def i128_max_def)
  then show ?thesis
    using assms
    by (simp add: check_proposal_def exceeds_depth_bound_def derive_arith_def MAX_DERIVATION_DEPTH_def
        verdict_of_check_def discharge_step_def check_state_default_def reaches_goal_def)
qed

theorem arith_accepts_anything_witness:
  "kernel_verdict (check_proposal plain_unicode plain_digests \<lparr>proposal_goal = owns,
      proposal_derivation = Arith Sum [quantity_integer 1] (quantity_integer 1) owns\<rparr> snapshot_new) = Accepted"
  by (rule arith_accepts_anything [where digest = "[]"]) (simp add: plain_digests_def)

section \<open>Accepted citations\<close>

text \<open>C12. What an accepted citation rests on. When a proposal that trusts a citation is accepted, the
  excerpt is the text at the cited bytes of content the snapshot holds under the cited hash; the
  subject occurs in it as whole words; one of its sentences, which is no question and holds no cue
  against it, states the goal's relation in a phrasing declared for it, exactly and with no value
  left to a reading; and the source has at least the authority the snapshot's policy asks for.\<close>

theorem accepted_citation:
  assumes "kernel_verdict (check_proposal u h \<lparr>proposal_goal = goal, proposal_derivation = TrustRule (Cite i p) m\<rparr> s) =
    Accepted"
  shows "reaches_goal (Holds p) goal \<and>
    (\<exists>e sp c before after actual sentence ph.
       snapshot_evidence s i = Some e \<and> cited_span e = Some sp \<and>
       snapshot_contents s (cited_source_id e, span_content_hash sp) = Some c \<and>
       content_text c = before @ cited_excerpt e @ after \<and> byte_len before = span_start sp \<and>
       contains_term u (cited_excerpt e) (prop_subject p) \<and>
       sentence \<in> set (sentences u (cited_excerpt e)) \<and> \<not> is_a_question sentence \<and>
       \<not> list_ex (contains_folded u (fold_text u sentence)) (all_cues u (snapshot_phrasebook s)) \<and>
       ph \<in> set (phrasings (snapshot_phrasebook s) (prop_predicate p)) \<and>
       stated_by u (snapshot_phrasebook s) p (fold_text u sentence) ph = Some [] \<and>
       authority_of s (cited_source_id e) = Some actual \<and>
       authority_rank (authority_floor s) \<le> authority_rank actual)"
proof -
  have reach: "reaches_goal (Holds p) goal" and est: "establishes u s (TrustRule (Cite i p) m) (Holds p) []"
    using accepted_establishes [OF assms] by (auto simp: establishes_simps)
  obtain e actual stm where e: "cited_in u s i p e"
    and st: "statement_in u (snapshot_phrasebook s) (cited_excerpt e) p = Some stm" "statement_residuals stm = []"
    and auth: "authority_of s (cited_source_id e) = Some actual" "authority_rank (authority_floor s) \<le> authority_rank actual"
    using est by (auto simp: establishes_simps)
  from statement_in_Some [OF st(1)] st(2) obtain ph sentence where
    sen: "ph \<in> set (phrasings (snapshot_phrasebook s) (prop_predicate p))"
    "sentence \<in> set (sentences u (cited_excerpt e))" "\<not> is_a_question sentence"
    "\<not> list_ex (contains_folded u (fold_text u sentence)) (all_cues u (snapshot_phrasebook s))"
    "stated_by u (snapshot_phrasebook s) p (fold_text u sentence) ph = Some []"
    by (auto simp: list_ex_iff)
  from e obtain sp c before after where
    "snapshot_evidence s i = Some e" "cited_span e = Some sp"
    "snapshot_contents s (cited_source_id e, span_content_hash sp) = Some c"
    "content_text c = before @ cited_excerpt e @ after" "byte_len before = span_start sp"
    "contains_term u (cited_excerpt e) (prop_subject p)"
    by (auto simp: cited_in_def genuine_def)
  with reach sen auth show ?thesis by blast
qed

lemma owns_accepted:
  "kernel_verdict (check_proposal plain_unicode plain_digests
     \<lparr>proposal_goal = owns, proposal_derivation = TrustRule (Cite (lit ''e1'') owns) (lit ''low'')\<rparr> owns_snapshot) = Accepted"
proof -
  let ?b = "snapshot_phrasebook owns_snapshot"
  let ?e = "\<lparr>cited_id = lit ''e1'', cited_source_id = lit ''s1'', cited_excerpt = lit ''A owns B'',
    cited_span = Some \<lparr>span_start = 6, span_end = 14, span_content_hash = lit ''h''\<rparr>\<rparr>"
  let ?c = "\<lparr>content_source_id = lit ''s1'', content_text = lit ''Note: A owns B. '', content_hash = lit ''h''\<rparr>"
  note snap = owns_snapshot_def with_claim_def with_source_content_def with_source_def with_evidence_def with_phrasebook_def snapshot_new_def
  have "verify_evidence_span ?e ?c = Inr ()"
    by (simp add: verify_evidence_span_def is_char_boundary_def slice_def lit_def utf8_len_def)
  then have genuine: "genuine ?e ?c" by (simp add: verify_evidence_span_iff)
  have terms: "contains_folded plain_unicode (lit ''A owns B'') (lit ''A'')"
    "contains_folded plain_unicode (lit ''A owns B'') (lit ''B'')"
    by (simp_all add: contains_folded_def Let_def owns_boundaries) (simp_all add: plain_eval)
  have untyped: "object_type_of ?b owns = None"
    by (simp add: snap object_type_of_def with_relation_def phrasebook_new_def)
  have "cited_in plain_unicode owns_snapshot (lit ''e1'') owns ?e"
    unfolding cited_in_def object_in_def untyped contains_term_def
    using genuine terms
    by (simp add: owns_def fold_owns) (simp add: snap lit_def utf8_len_def MAX_CITED_EXCERPT_BYTES_def)
  from stated [OF this] owns_stated
  have "establishes plain_unicode owns_snapshot (Cite (lit ''e1'') owns) (Says (lit ''s1'') owns) []" by simp
  moreover have "parse_authority plain_unicode (lit ''low'') = Some Low"
    by (simp add: parse_authority_def plain_unicode_def plain_eval)
  moreover have "authority_of owns_snapshot (lit ''s1'') = Some Medium" "authority_floor owns_snapshot = Low"
    by (simp_all add: authority_of_def snap)
  ultimately have "establishes plain_unicode owns_snapshot (TrustRule (Cite (lit ''e1'') owns) (lit ''low'')) (Holds owns) []"
    by (auto simp: establishes_simps(3))
  then show ?thesis
    by (subst verdict_eq_iff) (auto simp: exceeds_depth_bound_def MAX_DERIVATION_DEPTH_def plain_digests_def reaches_goal_def)
qed

theorem citation_verdict_exact_witness:
  "\<exists>j. evidenced plain_unicode owns_snapshot (TrustRule (Cite (lit ''e1'') owns) (lit ''low'')) j [] \<and> reaches_goal j owns"
  using citation_verdict_exact [of "\<lparr>proposal_goal = owns, proposal_derivation = TrustRule (Cite (lit ''e1'') owns) (lit ''low'')\<rparr>"
      plain_unicode plain_digests owns_snapshot] owns_accepted
  by simp

theorem accepted_citation_witness:
  "\<exists>e c before after. snapshot_evidence owns_snapshot (lit ''e1'') = Some e \<and>
     snapshot_contents owns_snapshot (cited_source_id e, lit ''h'') = Some c \<and>
     content_text c = before @ cited_excerpt e @ after \<and> authority_of owns_snapshot (cited_source_id e) \<noteq> None"
proof -
  from accepted_citation [OF owns_accepted] obtain e sp c before after where
    e: "snapshot_evidence owns_snapshot (lit ''e1'') = Some e" "cited_span e = Some sp"
    "snapshot_contents owns_snapshot (cited_source_id e, span_content_hash sp) = Some c"
    "content_text c = before @ cited_excerpt e @ after" "authority_of owns_snapshot (cited_source_id e) \<noteq> None"
    by fastforce
  moreover have "span_content_hash sp = lit ''h''"
    using e(1,2) by (auto simp: owns_snapshot_def with_claim_def with_source_content_def with_source_def with_evidence_def with_phrasebook_def)
  ultimately show ?thesis by auto
qed

end
