(* ===== verification/Wire_Text.thy ===== *)
theory Wire_Text
  imports Citation_Text Definitions
begin

text \<open>
  The text forms documents are identified by: digests (\<open>crates/ir/src/digest.rs\<close>) and schema
  versions (\<open>crates/ir/src/version.rs\<close>). A digest is read from any Unicode text, and the source
  slices that text at byte offsets, so reading answers \<open>None\<close> where the slice would panic.
\<close>

section \<open>The contract of a form with one spelling\<close>

text \<open>Digests, UTF-8 and canonical documents make the same promise: what is written reads back, and
  nothing else reads as it. Two values then never share a spelling.\<close>

locale one_spelling =
  fixes spell :: "'a \<Rightarrow> 'b"
    and read_back :: "'b \<Rightarrow> 'a option"
    and valid :: "'a \<Rightarrow> bool"
  assumes read_iff: "read_back t = Some x \<longleftrightarrow> valid x \<and> t = spell x"
begin

lemma read_spell: "valid x \<Longrightarrow> read_back (spell x) = Some x"
  by (simp add: read_iff)

lemma spell_inject: "valid x \<Longrightarrow> valid y \<Longrightarrow> spell x = spell y \<longleftrightarrow> x = y"
  using read_spell by (metis option.inject)

lemma one_text: "read_back t = Some x \<Longrightarrow> read_back t' = Some x \<Longrightarrow> t = t'"
  by (simp add: read_iff)

end

section \<open>Digests\<close>

definition DIGEST_PREFIX :: utext where
  "DIGEST_PREFIX = lit ''sha256:''"

datatype digest_error =
    MissingPrefix utext
  | DigestLength nat
  | NotLowercaseHex utext

definition hex_char :: "nat \<Rightarrow> nat" where
  "hex_char n = (if n < 10 then 48 + n else 87 + n)"

text \<open>\<open>{byte:02x}\<close>.\<close>

definition fmt_hex :: "u8 \<Rightarrow> utext" where
  "fmt_hex b = [hex_char (unat b div 16), hex_char (unat b mod 16)]"

definition digest_display :: "digest \<Rightarrow> utext" where
  "digest_display d = DIGEST_PREFIX @ concat (map fmt_hex (digest_bytes d))"

definition nibble_of :: "nat \<Rightarrow> u8 option" where
  "nibble_of c =
     (if 48 \<le> c \<and> c \<le> 57 then Some (of_nat c - 48)
      else if 97 \<le> c \<and> c \<le> 102 then Some (of_nat c - 97 + 10)
      else None)"

fun decode_hex :: "u8 \<Rightarrow> utext \<Rightarrow> u8 option" where
  "decode_hex v [] = Some v"
| "decode_hex v (c # t) = (case nibble_of c of None \<Rightarrow> None | Some n \<Rightarrow> decode_hex (v * 16 + n) t)"

definition decode_hex_pair :: "utext \<Rightarrow> u8 option" where
  "decode_hex_pair pair = decode_hex 0 pair"

text \<open>The loop over the \<open>n\<close> bytes still to be read, from byte \<open>i\<close>.\<close>

fun read_pairs :: "utext \<Rightarrow> nat \<Rightarrow> nat \<Rightarrow> (digest_error, u8 list) result option" where
  "read_pairs hex i 0 = Some (Ok [])"
| "read_pairs hex i (Suc n) =
     (case slice hex (i * 2) (i * 2 + 2) of
        None \<Rightarrow> None
      | Some pair \<Rightarrow>
          (case decode_hex_pair pair of
             None \<Rightarrow> Some (Err (NotLowercaseHex pair))
           | Some b \<Rightarrow>
               (case read_pairs hex (Suc i) n of
                  None \<Rightarrow> None
                | Some (Inl e) \<Rightarrow> Some (Err e)
                | Some (Inr bs) \<Rightarrow> Some (Ok (b # bs)))))"

definition digest_from_str :: "utext \<Rightarrow> (digest_error, digest) result option" where
  "digest_from_str t =
     (case strip_prefix DIGEST_PREFIX t of
        None \<Rightarrow> Some (Err (MissingPrefix t))
      | Some hex \<Rightarrow>
          if byte_len hex \<noteq> 64 then Some (Err (DigestLength (byte_len hex)))
          else
            (case read_pairs hex 0 32 of
               None \<Rightarrow> None
             | Some (Inl e) \<Rightarrow> Some (Err e)
             | Some (Inr bs) \<Rightarrow> Some (Ok (Digest bs))))"

section \<open>One spelling\<close>

lemma nibble_of_hex_char: "n < 16 \<Longrightarrow> nibble_of (hex_char n) = Some (of_nat n)"
  by (auto simp: nibble_of_def hex_char_def)

lemma nibble_of_Some: "nibble_of c = Some v \<longleftrightarrow> (\<exists>n < 16. c = hex_char n \<and> v = of_nat n)"
proof
  assume "nibble_of c = Some v"
  then have "c = hex_char (if c \<le> 57 then c - 48 else c - 87) \<and> (if c \<le> 57 then c - 48 else c - 87) < 16"
    by (auto simp: nibble_of_def hex_char_def split: if_splits)
  then obtain n where "n < 16" "c = hex_char n" by blast
  with \<open>nibble_of c = Some v\<close> show "\<exists>n < 16. c = hex_char n \<and> v = of_nat n" by (auto simp: nibble_of_hex_char)
qed (auto simp: nibble_of_hex_char)

lemma utf8_hex_char: "n < 16 \<Longrightarrow> utf8_len (hex_char n) = 1"
  by (simp add: hex_char_def utf8_len_def)

lemma u8_less: "unat (b :: u8) < 256"
  by (rule order_less_le_trans [OF unsigned_less]) simp

lemma fmt_hex_len [simp]: "byte_len (fmt_hex b) = 2"
  using u8_less [of b] by (simp add: fmt_hex_def utf8_hex_char)

lemma byte_of_nibbles:
  assumes "n < 16" "m < 16"
  shows "unat ((0 * 16 + of_nat n) * 16 + of_nat m :: u8) = n * 16 + m"
proof -
  have "((0 * 16 + of_nat n) * 16 + of_nat m :: u8) = of_nat (n * 16 + m)" by simp
  then show ?thesis using assms by (simp only: unat_of_nat) simp
qed

text \<open>Two bytes of text decode to a byte exactly when they are the byte's two digits.\<close>

lemma decode_hex_pair_iff:
  assumes "byte_len pair = 2"
  shows "decode_hex_pair pair = Some b \<longleftrightarrow> pair = fmt_hex b"
proof
  assume ok: "decode_hex_pair pair = Some b"
  have shape: "length pair = 2"
  proof (cases pair)
    case (Cons c t)
    with ok obtain n where n: "n < 16" "c = hex_char n"
      by (auto simp: decode_hex_pair_def nibble_of_Some split: option.splits)
    with Cons assms have "byte_len t = 1" by (simp add: utf8_hex_char)
    moreover obtain d r where "t = d # r" using \<open>byte_len t = 1\<close> by (cases t) auto
    ultimately have "r = []" using utf8_len_pos [of d] by (cases r) (auto simp: utf8_len_def split: if_splits)
    with Cons \<open>t = d # r\<close> show ?thesis by simp
  qed (use assms in simp)
  then obtain c d where pair: "pair = [c, d]" by (auto simp: numeral_2_eq_2 length_Suc_conv)
  with ok obtain n m where nm: "n < 16" "m < 16" "c = hex_char n" "d = hex_char m"
    and b: "b = (0 * 16 + of_nat n) * 16 + of_nat m"
    by (auto simp: decode_hex_pair_def nibble_of_Some split: option.splits)
  have "unat b = n * 16 + m" unfolding b by (rule byte_of_nibbles [OF nm(1,2)])
  with nm pair show "pair = fmt_hex b" by (simp add: fmt_hex_def)
next
  assume pair: "pair = fmt_hex b"
  have "unat b div 16 < 16" using u8_less [of b] by simp
  then have "decode_hex_pair pair = Some ((0 * 16 + of_nat (unat b div 16)) * 16 + of_nat (unat b mod 16))"
    by (simp add: pair decode_hex_pair_def fmt_hex_def nibble_of_hex_char)
  moreover have "unat ((0 * 16 + of_nat (unat b div 16)) * 16 + of_nat (unat b mod 16) :: u8) = unat b"
    using byte_of_nibbles [OF \<open>unat b div 16 < 16\<close>, of "unat b mod 16"] by simp
  ultimately show "decode_hex_pair pair = Some b" by (simp add: word_unat_eq_iff)
qed

text \<open>Reading pairs from the middle of a text.\<close>

lemma read_pairs_iff:
  assumes "byte_len p = i * 2" "byte_len r = n * 2"
  shows "read_pairs (p @ r) i n = Some (Ok bs) \<longleftrightarrow> r = concat (map fmt_hex bs) \<and> length bs = n"
  using assms
proof (induction n arbitrary: p r i bs)
  case 0
  then have "r = []" by (cases r) (auto simp: utf8_len_pos [THEN gr_implies_not0])
  then show ?case by auto
next
  case (Suc n)
  show ?case
  proof
    assume "read_pairs (p @ r) i (Suc n) = Some (Ok bs)"
    then obtain pair b bs' where sl: "slice (p @ r) (i * 2) (i * 2 + 2) = Some pair"
      and b: "decode_hex_pair pair = Some b" and rest: "read_pairs (p @ r) (Suc i) n = Some (Ok bs')" and bs: "bs = b # bs'"
      by (auto split: option.splits sum.splits)
    have "skip_bytes (p @ r) (i * 2) = Some r" using Suc.prems(1) by (auto simp: skip_bytes_Some)
    with sl obtain q where q: "r = pair @ q" "byte_len pair = 2"
      by (auto simp: slice_def take_bytes_Some)
    have "byte_len (p @ pair) = Suc i * 2" "byte_len q = n * 2" using q Suc.prems by auto
    from Suc.IH [OF this, of bs'] rest q(1) have "q = concat (map fmt_hex bs') \<and> length bs' = n" by simp
    with q bs b show "r = concat (map fmt_hex bs) \<and> length bs = Suc n" by (simp add: decode_hex_pair_iff)
  next
    assume r: "r = concat (map fmt_hex bs) \<and> length bs = Suc n"
    then obtain b bs' where bs: "bs = b # bs'" "length bs' = n" by (auto simp: length_Suc_conv)
    define q where "q = concat (map fmt_hex bs')"
    have rq: "r = fmt_hex b @ q" using r bs by (simp add: q_def)
    have sl: "slice (p @ r) (i * 2) (i * 2 + 2) = Some (fmt_hex b)"
      using Suc.prems(1) rq by (auto simp: slice_Some)
    have "byte_len (p @ fmt_hex b) = Suc i * 2" "byte_len q = n * 2" using Suc.prems rq by auto
    from Suc.IH [OF this, of bs'] have "read_pairs (p @ r) (Suc i) n = Some (Ok bs')" by (simp add: rq q_def bs(2))
    moreover have "decode_hex_pair (fmt_hex b) = Some b" by (subst decode_hex_pair_iff) simp_all
    ultimately show "read_pairs (p @ r) i (Suc n) = Some (Ok bs)" using sl by (simp add: bs(1))
  qed
qed

lemma digest_from_str_iff:
  "digest_from_str t = Some (Ok d) \<longleftrightarrow> t = digest_display d \<and> length (digest_bytes d) = 32"
proof -
  have strip: "strip_prefix DIGEST_PREFIX t = Some hex \<longleftrightarrow> t = DIGEST_PREFIX @ hex" for hex
    by (auto simp: strip_prefix_def starts_with_iff)
  have len: "length bs = 32 \<Longrightarrow> byte_len (concat (map fmt_hex bs)) = 64" for bs
  proof -
    have "byte_len (concat (map fmt_hex bs)) = length bs * 2" by (induction bs) auto
    then show "length bs = 32 \<Longrightarrow> ?thesis" by simp
  qed
  have "digest_from_str t = Some (Ok d) \<longleftrightarrow>
      (\<exists>hex. t = DIGEST_PREFIX @ hex \<and> byte_len hex = 64 \<and> read_pairs ([] @ hex) 0 32 = Some (Ok (digest_bytes d)))"
    unfolding strip [symmetric] digest_from_str_def
    by (cases d) (auto split: option.splits sum.splits)
  also have "\<dots> \<longleftrightarrow> (\<exists>hex. t = DIGEST_PREFIX @ hex \<and> hex = concat (map fmt_hex (digest_bytes d)) \<and> length (digest_bytes d) = 32)"
    using read_pairs_iff [of "[]" 0 _ 32] len by auto
  finally show ?thesis by (auto simp: digest_display_def)
qed

interpretation digest_text: one_spelling digest_display
  "\<lambda>t. case digest_from_str t of Some (Inr d) \<Rightarrow> Some d | _ \<Rightarrow> None" "\<lambda>d. length (digest_bytes d) = 32"
proof unfold_locales
  fix t x
  have "(case digest_from_str t of Some (Inr d) \<Rightarrow> Some d | _ \<Rightarrow> None) = Some x \<longleftrightarrow> digest_from_str t = Some (Ok x)"
    by (auto split: option.splits sum.splits)
  then show "(case digest_from_str t of Some (Inr d) \<Rightarrow> Some d | _ \<Rightarrow> None) = Some x \<longleftrightarrow>
      length (digest_bytes x) = 32 \<and> t = digest_display x"
    by (auto simp: digest_from_str_iff)
qed

text \<open>A digest has one spelling: a text reads as a digest exactly when it is the text the digest is
  written as, 64 lowercase digits behind the prefix. What is written reads back, and nothing else
  reads at all.\<close>

theorem digest_one_spelling:
  "digest_from_str t = Some (Ok d) \<longleftrightarrow> t = digest_display d \<and> length (digest_bytes d) = 32"
  by (rule digest_from_str_iff)

text \<open>Reading can fail to answer at all: 64 bytes of text in which a two-byte character starts at an odd
  offset are sliced inside that character.\<close>

theorem digest_read_panics: "digest_from_str (DIGEST_PREFIX @ [97] @ replicate 31 233 @ [97]) = None"
proof -
  have "read_pairs hex 0 32 = None" if "slice hex 0 2 = None" for hex
    using read_pairs.simps(2) [of hex 0 31] that by (simp add: numeral_2_eq_2)
  moreover have "slice ([97] @ replicate 31 233 @ [97]) 0 2 = None"
    by (simp add: slice_def utf8_len_def numeral_eq_Suc)
  moreover have "byte_len (replicate n 233) = 2 * n" for n by (induction n) (auto simp: utf8_len_def)
  ultimately show ?thesis
    by (simp add: digest_from_str_def strip_prefix_def starts_with_iff utf8_len_def)
qed

section \<open>Schema versions\<close>

datatype schema_version_error =
    VersionMalformed string
  | VersionNamespace string string
  | UnsupportedMajor u32 u32

definition schema_display :: "schema_version \<Rightarrow> string" where
  "schema_display v = schema_namespace v @ ''/v'' @ fmt_u (schema_major v)"

text \<open>\<open>rsplit_once("/v")\<close>, by a scan of the reversed text.\<close>

fun split_reversed :: "string \<Rightarrow> (string \<times> string) option" where
  "split_reversed [] = None"
| "split_reversed (c # t) =
     (if c = CHR ''v'' \<and> first t = Some CHR ''/'' then Some ([], tl t)
      else map_option (\<lambda>(after, before). (c # after, before)) (split_reversed t))"

definition rsplit_once_version :: "string \<Rightarrow> (string \<times> string) option" where
  "rsplit_once_version s = map_option (\<lambda>(after, before). (rev before, rev after)) (split_reversed (rev s))"

text \<open>\<open>u32::from_str\<close>: an optional plus sign and decimal digits in range.\<close>

definition u32_parse :: "string \<Rightarrow> u32 option" where
  "u32_parse s =
     (let digits = (if first s = Some CHR ''+'' then tl s else s) in
      if digits = [] \<or> \<not> list_all is_ascii_digit digits \<or> digits_value digits \<ge> 2 ^ 32 then None
      else Some (of_nat (digits_value digits)))"

definition schema_from_str :: "string \<Rightarrow> (schema_version_error, schema_version) result" where
  "schema_from_str s =
     (case rsplit_once_version s of
        None \<Rightarrow> Err (VersionMalformed s)
      | Some (namespace, major) \<Rightarrow>
          if namespace = [] \<or> major = [] then Err (VersionMalformed s)
          else
            (case u32_parse major of
               None \<Rightarrow> Err (VersionMalformed s)
             | Some m \<Rightarrow> Ok \<lparr>schema_namespace = namespace, schema_major = m\<rparr>))"

definition read_compatible :: "string \<Rightarrow> schema_version \<Rightarrow> (schema_version_error, schema_version) result" where
  "read_compatible found expected =
     and_then (schema_from_str found) (\<lambda>parsed.
       if schema_namespace parsed \<noteq> schema_namespace expected
       then Err (VersionNamespace (schema_namespace expected) (schema_namespace parsed))
       else if schema_major parsed \<noteq> schema_major expected
       then Err (UnsupportedMajor (schema_major parsed) (schema_major expected))
       else Ok parsed)"

lemma split_reversed_digits:
  "list_all is_ascii_digit a \<Longrightarrow> split_reversed (a @ CHR ''v'' # CHR ''/'' # b) = Some (a, b)"
proof (induction a)
  case (Cons c a)
  then have "c \<noteq> CHR ''v''" by (auto simp: is_ascii_digit_def Let_def)
  with Cons show ?case by simp
qed simp

lemma u32_parse_fmt: "u32_parse (fmt_u m) = Some m"
proof -
  have "first (fmt_nat n) \<noteq> Some CHR ''+''" for n
    using fmt_nat_all_digits [of n] by (cases "fmt_nat n") (auto simp: is_ascii_digit_def Let_def)
  moreover have "unat m < 2 ^ 32" by (rule order_less_le_trans [OF unsigned_less]) simp
  ultimately show ?thesis
    by (simp add: u32_parse_def fmt_u_def fmt_nat_nonempty fmt_nat_all_digits digits_value_fmt_nat)
qed

text \<open>The version a build writes is the version it reads, whatever its namespace contains, and no
  other version is taken for it.\<close>

lemma read_compatible_display:
  assumes "schema_namespace expected \<noteq> []"
  shows "read_compatible (schema_display v) expected = Ok w \<longleftrightarrow> w = expected \<and> v = expected"
proof (cases "schema_namespace v = []")
  case True
  have "rsplit_once_version (schema_display v) = Some ([], fmt_u (schema_major v))"
    using split_reversed_digits [of "rev (fmt_u (schema_major v))" "[]"]
    by (simp add: rsplit_once_version_def schema_display_def True fmt_u_def fmt_nat_all_digits list_all_rev)
  then show ?thesis using True assms by (auto simp: read_compatible_def schema_from_str_def)
next
  case False
  have "rsplit_once_version (schema_display v) = Some (schema_namespace v, fmt_u (schema_major v))"
    using split_reversed_digits [of "rev (fmt_u (schema_major v))" "rev (schema_namespace v)"]
    by (simp add: rsplit_once_version_def schema_display_def fmt_u_def fmt_nat_all_digits list_all_rev)
  then have "schema_from_str (schema_display v) = Ok v"
    using False by (simp add: schema_from_str_def u32_parse_fmt) (simp add: fmt_u_def fmt_nat_nonempty)
  then show ?thesis by (auto simp: read_compatible_def)
qed

end
