(* ===== verification/Replay.thy ===== *)
theory Replay
  imports Certificates Kernel_Soundness Wire_Text
begin

text \<open>
  Offline replay (\<open>crates/kernel/src/replay.rs\<close>, \<open>family.rs\<close>, \<open>snapshot_document.rs\<close>): does a
  certificate still justify its verdict, given the bytes it points at? Replay verifies the seal,
  digests every piece of evidence again, re-decides what the claim kernel decided from the inputs
  the certificate pins, and computes the verdict again. Parsing JSON, SHA-256 and the reading of
  a floating-point number are the fields of \<open>documents\<close>. A refusal carries what its message is
  made from, not the message.
\<close>

section \<open>Documents\<close>

record source_document =
  source_doc_id :: utext
  source_doc_tenant :: utext
  source_doc_project :: utext
  source_doc_kind :: utext
  source_doc_title :: utext
  source_doc_authority :: utext
  source_doc_content :: utext

record evidence_document =
  evidence_doc_id :: utext
  evidence_doc_tenant :: utext
  evidence_doc_project :: utext
  evidence_doc_source :: utext
  evidence_doc_locator :: utext
  evidence_doc_excerpt :: utext
  evidence_doc_observed_at :: utext
  evidence_doc_start :: "nat option"
  evidence_doc_end :: "nat option"
  evidence_doc_hash :: "utext option"

record claim_document =
  claim_doc_id :: utext
  claim_doc_tenant :: utext
  claim_doc_project :: utext
  claim_doc_subject :: utext
  claim_doc_predicate :: utext
  claim_doc_object :: utext
  claim_doc_evidence :: "utext list"
  claim_doc_confidence :: utext
  claim_doc_authority :: utext
  claim_doc_observed_at :: utext
  claim_doc_status :: utext

record relation_document =
  relation_doc_name :: utext
  relation_doc_stated_by :: "utext list"
  relation_doc_object_type :: "utext option"

record snapshot_document =
  doc_sources :: "source_document list"
  doc_evidence :: "evidence_document list"
  doc_claims :: "claim_document list"
  doc_authority_floor :: "utext option"
  doc_relations :: "relation_document list"
  doc_cues :: "utext list"
  doc_default_currency :: "utext option"
  doc_date_order :: "utext option"

record documents =
  json_header :: "u8 list \<Rightarrow> (utext, string option) result"
  json_proposal :: "u8 list \<Rightarrow> (utext, kernel_proposal) result"
  json_snapshot :: "u8 list \<Rightarrow> (utext, snapshot_document) result"
  confidence_in_range :: "utext \<Rightarrow> bool option"
  sha256 :: "u8 list \<Rightarrow> digest"
  body_digest :: "certificate_body \<Rightarrow> (utext, digest) result"

datatype rebuild_error =
    EmptyId string
  | RebuildMemory memory_error
  | RebuildPhrasing phrasing_error
  | RebuildText string
  | UnknownWord string utext

section \<open>Constructors of the domain\<close>

definition id_new :: "string \<Rightarrow> utext \<Rightarrow> (rebuild_error, utext) result" where
  "id_new name v = (if utrim v = [] then Err (EmptyId name) else Ok v)"

definition scope_new :: "utext \<Rightarrow> utext \<Rightarrow> (memory_error, unit) result" where
  "scope_new tenant project =
     and_then (non_empty tenant ''tenant id'') (\<lambda>_. and_then (non_empty project ''project id'') (\<lambda>_. Ok ()))"

definition source_new :: "utext \<Rightarrow> utext \<Rightarrow> utext \<Rightarrow> authority \<Rightarrow> (memory_error, memory_source) result" where
  "source_new i kind title a =
     and_then (non_empty kind ''source kind'') (\<lambda>_.
     and_then (non_empty title ''source title'') (\<lambda>_.
       Ok \<lparr>memory_source_id = i, memory_source_authority = a\<rparr>))"

definition source_content_new :: "kernel_digests \<Rightarrow> utext \<Rightarrow> utext \<Rightarrow> (memory_error, source_content) result" where
  "source_content_new h i t =
     and_then (non_empty t ''source content'') (\<lambda>t'.
       Ok \<lparr>content_source_id = i, content_text = t', content_hash = content_digest h t'\<rparr>)"

definition evidence_new ::
  "utext \<Rightarrow> utext \<Rightarrow> utext \<Rightarrow> utext \<Rightarrow> utext \<Rightarrow> (memory_error, memory_evidence) result" where
  "evidence_new i source locator excerpt observed_at =
     and_then (non_empty locator ''evidence locator'') (\<lambda>_.
     and_then (non_empty excerpt ''evidence excerpt'') (\<lambda>_.
     and_then (non_empty observed_at ''observed at'') (\<lambda>_.
       Ok \<lparr>cited_id = i, cited_source_id = source, cited_excerpt = excerpt, cited_span = None\<rparr>)))"

definition claim_new ::
  "utext \<Rightarrow> utext \<Rightarrow> utext \<Rightarrow> utext \<Rightarrow> utext list \<Rightarrow> authority \<Rightarrow> utext \<Rightarrow> (memory_error, memory_claim) result" where
  "claim_new i subject' predicate object' evidence_ids a observed_at =
     (if evidence_ids = [] then Err MissingEvidence
      else
        and_then (non_empty predicate ''claim predicate'') (\<lambda>_.
        and_then (non_empty object' ''claim object'') (\<lambda>_.
        and_then (non_empty observed_at ''observed at'') (\<lambda>_.
          Ok \<lparr>memory_claim_id = i, memory_claim_subject = subject', memory_claim_predicate = predicate,
              memory_claim_object = object', memory_claim_authority = a, memory_claim_status = Candidate\<rparr>))))"

section \<open>Rebuilding a snapshot\<close>

definition authority_word :: "utext \<Rightarrow> (rebuild_error, authority) result" where
  "authority_word v =
     (if v = lit ''low'' then Ok Low
      else if v = lit ''medium'' then Ok Medium
      else if v = lit ''high'' then Ok High
      else Err (UnknownWord ''authority'' v))"

definition status_word :: "utext \<Rightarrow> (rebuild_error, claim_status) result" where
  "status_word v =
     (if v = lit ''candidate'' then Ok Candidate
      else if v = lit ''active'' then Ok Active
      else if v = lit ''rejected'' then Ok ClaimRejected
      else if v = lit ''superseded'' then Ok Superseded
      else if v = lit ''contradicted'' then Ok Contradicted
      else if v = lit ''expired'' then Ok Expired
      else Err (UnknownWord ''claim status'' v))"

text \<open>The policy words of a phrasebook are ASCII; other text is refused as \<open>with_value_policy\<close> refuses it.\<close>

definition with_value_policy_text ::
  "phrasebook \<Rightarrow> utext option \<Rightarrow> utext option \<Rightarrow> (rebuild_error, phrasebook) result" where
  "with_value_policy_text b currency order =
     (let foreign = (\<lambda>w. case w of None \<Rightarrow> False | Some t \<Rightarrow> \<not> list_all (\<lambda>c. c < 128) t) in
      if foreign currency then Err (RebuildText ''unknown default_currency'')
      else if foreign order
      then and_then (map_err RebuildText (with_value_policy b (map_option ascii currency) None)) (\<lambda>_.
             Err (RebuildText ''unknown date_order''))
      else map_err RebuildText (with_value_policy b (map_option ascii currency) (map_option ascii order)))"

definition add_relation :: "unicode \<Rightarrow> phrasebook \<Rightarrow> relation_document \<Rightarrow> (rebuild_error, phrasebook) result" where
  "add_relation u b r =
     and_then (try_fold (\<lambda>ps t. map_err RebuildPhrasing (and_then (phrasing_parse u t) (\<lambda>p. Ok (ps @ [p])))) []
                 (relation_doc_stated_by r)) (\<lambda>ps.
       (let b' = with_relation b (relation_doc_name r) ps in
        case relation_doc_object_type r of
          None \<Rightarrow> Ok b'
        | Some kind \<Rightarrow>
            (case (if list_all (\<lambda>c. c < 128) kind then value_type_parse (ascii kind) else None) of
               None \<Rightarrow> Err (RebuildText ''unknown relation object_type'')
             | Some k \<Rightarrow> Ok (with_object_type b' (relation_doc_name r) k))))"

definition add_cue :: "phrasebook \<Rightarrow> utext \<Rightarrow> (rebuild_error, phrasebook) result" where
  "add_cue b cue = (if utrim cue = [] then Err (RebuildText ''a cue is empty'') else Ok (with_cue b cue))"

definition document_phrasebook :: "unicode \<Rightarrow> snapshot_document \<Rightarrow> (rebuild_error, phrasebook) result" where
  "document_phrasebook u d =
     and_then (try_fold (add_relation u) phrasebook_new (doc_relations d)) (\<lambda>b.
     and_then (try_fold add_cue b (doc_cues d)) (\<lambda>b'.
       with_value_policy_text b' (doc_default_currency d) (doc_date_order d)))"

definition add_source :: "kernel_digests \<Rightarrow> snapshot \<Rightarrow> source_document \<Rightarrow> (rebuild_error, snapshot) result" where
  "add_source h s d =
     and_then (id_new ''SourceId'' (source_doc_id d)) (\<lambda>i.
     and_then (map_err RebuildMemory (scope_new (source_doc_tenant d) (source_doc_project d))) (\<lambda>_.
     and_then (authority_word (source_doc_authority d)) (\<lambda>a.
     and_then (map_err RebuildMemory (source_new i (source_doc_kind d) (source_doc_title d) a)) (\<lambda>source.
     and_then (map_err RebuildMemory (source_content_new h i (source_doc_content d))) (\<lambda>content.
       Ok (with_source_content (with_source s source) content))))))"

definition add_evidence :: "snapshot \<Rightarrow> evidence_document \<Rightarrow> (rebuild_error, snapshot) result" where
  "add_evidence s d =
     and_then (id_new ''EvidenceId'' (evidence_doc_id d)) (\<lambda>i.
     and_then (map_err RebuildMemory (scope_new (evidence_doc_tenant d) (evidence_doc_project d))) (\<lambda>_.
     and_then (id_new ''SourceId'' (evidence_doc_source d)) (\<lambda>source.
     and_then (map_err RebuildMemory (evidence_new i source (evidence_doc_locator d) (evidence_doc_excerpt d)
                 (evidence_doc_observed_at d))) (\<lambda>e.
     and_then (case (evidence_doc_start d, evidence_doc_end d, evidence_doc_hash d) of
                 (Some start, Some stop, Some hash) \<Rightarrow>
                   map_err RebuildMemory (and_then (evidence_span_new start stop hash) (\<lambda>sp. Ok (e \<lparr>cited_span := Some sp\<rparr>)))
               | _ \<Rightarrow> Ok e) (\<lambda>e'.
       Ok (with_evidence s e'))))))"

definition add_claim :: "documents \<Rightarrow> snapshot \<Rightarrow> claim_document \<Rightarrow> (rebuild_error, snapshot) result" where
  "add_claim env s d =
     and_then (try_fold (\<lambda>ids i. and_then (id_new ''EvidenceId'' i) (\<lambda>i'. Ok (ids @ [i']))) [] (claim_doc_evidence d)) (\<lambda>ids.
     and_then (ok_or (RebuildText ''confidence is not a number'') (confidence_in_range env (claim_doc_confidence d))) (\<lambda>fits.
     and_then (id_new ''ClaimId'' (claim_doc_id d)) (\<lambda>i.
     and_then (map_err RebuildMemory (scope_new (claim_doc_tenant d) (claim_doc_project d))) (\<lambda>_.
     and_then (id_new ''EntityId'' (claim_doc_subject d)) (\<lambda>subject'.
     and_then (if fits then Ok () else Err (RebuildMemory InvalidConfidence)) (\<lambda>_.
     and_then (authority_word (claim_doc_authority d)) (\<lambda>a.
     and_then (map_err RebuildMemory (claim_new i subject' (claim_doc_predicate d) (claim_doc_object d) ids a
                 (claim_doc_observed_at d))) (\<lambda>c.
     and_then (status_word (claim_doc_status d)) (\<lambda>status.
       Ok (with_claim s (c \<lparr>memory_claim_status := status\<rparr>)))))))))))"

definition rebuild ::
  "unicode \<Rightarrow> kernel_digests \<Rightarrow> documents \<Rightarrow> snapshot_document \<Rightarrow> (rebuild_error, snapshot) result" where
  "rebuild u h env d =
     and_then (case doc_authority_floor d of
                 None \<Rightarrow> Ok snapshot_new
               | Some word \<Rightarrow> and_then (authority_word word) (\<lambda>a. Ok (with_authority_floor snapshot_new a))) (\<lambda>s.
     and_then (document_phrasebook u d) (\<lambda>b.
     and_then (try_fold (add_source h) (with_phrasebook s b) (doc_sources d)) (\<lambda>s.
     and_then (try_fold add_evidence s (doc_evidence d)) (\<lambda>s.
       try_fold (add_claim env) s (doc_claims d)))))"

section \<open>Families\<close>

definition CLAIM_REASONING :: string where
  "CLAIM_REASONING = ''capsulet-kernel/claim-reasoning''"

definition CLAIM_REASONING_RULES :: string where
  "CLAIM_REASONING_RULES = ''7''"

fun to_checker_verdict :: "verdict \<Rightarrow> checker_verdict" where
  "to_checker_verdict Accepted = CheckerAccepted"
| "to_checker_verdict VerdictIsConditional = CheckerConditional"
| "to_checker_verdict Rejected = CheckerRejected"

record family_decision =
  decision_verdict :: checker_verdict
  decision_claim :: "kernel_certificate option"

definition decide_claim :: "unicode \<Rightarrow> kernel_digests \<Rightarrow> kernel_proposal \<Rightarrow> snapshot \<Rightarrow> family_decision" where
  "decide_claim u h pr s =
     (let claim = check_proposal u h pr s in
      \<lparr>decision_verdict = to_checker_verdict (kernel_verdict claim), decision_claim = Some claim\<rparr>)"

definition deterministic_families :: "string list" where
  "deterministic_families = [CLAIM_REASONING]"

section \<open>Reading a proposal\<close>

definition PROPOSAL_SCHEMA_VERSION :: schema_version where
  "PROPOSAL_SCHEMA_VERSION = \<lparr>schema_namespace = ''capsulet.kernel.proposal'', schema_major = 1\<rparr>"

datatype proposal_read_error =
    ProposalSchema schema_version_error
  | ProposalMalformed utext

definition proposal_read :: "documents \<Rightarrow> u8 list \<Rightarrow> (proposal_read_error, kernel_proposal) result" where
  "proposal_read env bytes =
     and_then (map_err ProposalMalformed (json_header env bytes)) (\<lambda>version.
     and_then (map_err ProposalSchema
                 (read_compatible (case version of Some v \<Rightarrow> v | None \<Rightarrow> schema_display PROPOSAL_SCHEMA_VERSION)
                    PROPOSAL_SCHEMA_VERSION)) (\<lambda>_.
       map_err ProposalMalformed (json_proposal env bytes)))"

section \<open>Deciding again\<close>

datatype malformed_input =
    NotReDecidable string
  | WrongInputCount nat
  | ProposalUnread utext
  | SnapshotUnread utext
  | SnapshotUnbuilt rebuild_error

datatype redecision =
    InputsMissing
  | InputsMalformed malformed_input
  | InputsUnreadable schema_version_error
  | Redecided checker_verdict

type_synonym evidence_source = "digest \<Rightarrow> u8 list option"

text \<open>Replay's parameters: Unicode tables, kernel digests, documents and the version of the build.\<close>

record replay_env =
  env_unicode :: unicode
  env_digests :: kernel_digests
  env_documents :: documents
  env_kernel_version :: string

definition redecide :: "replay_env \<Rightarrow> string \<Rightarrow> digest list \<Rightarrow> evidence_source \<Rightarrow> redecision" where
  "redecide env identity inputs evidence =
     (if identity \<noteq> CLAIM_REASONING then InputsMalformed (NotReDecidable identity)
      else case inputs of
             [proposal, snap] \<Rightarrow>
               (case (evidence proposal, evidence snap) of
                  (Some proposal_bytes, Some snapshot_bytes) \<Rightarrow>
                    (case proposal_read (env_documents env) proposal_bytes of
                       Inl (ProposalSchema source) \<Rightarrow> InputsUnreadable source
                     | Inl (ProposalMalformed detail) \<Rightarrow> InputsMalformed (ProposalUnread detail)
                     | Inr pr \<Rightarrow>
                         (case json_snapshot (env_documents env) snapshot_bytes of
                            Inl detail \<Rightarrow> InputsMalformed (SnapshotUnread detail)
                          | Inr document \<Rightarrow>
                              (case rebuild (env_unicode env) (env_digests env) (env_documents env) document of
                                 Inl e \<Rightarrow> InputsMalformed (SnapshotUnbuilt e)
                               | Inr s \<Rightarrow>
                                   Redecided (decision_verdict (decide_claim (env_unicode env) (env_digests env) pr s)))))
                | _ \<Rightarrow> InputsMissing)
           | _ \<Rightarrow> InputsMalformed (WrongInputCount (length inputs)))"

section \<open>Replay\<close>

datatype replay_finding =
    FindingSealBroken
  | EvidenceMissing digest
  | EvidenceTampered digest digest
  | UnknownDeterministicVerifier string
  | FamilyDisagrees string checker_verdict checker_verdict
  | FamilyInputsMissing string
  | FamilyInputsMalformed string malformed_input
  | VerdictDiffers assurance_verdict assurance_verdict

datatype replay_note =
    OracleNotReExecuted string string
  | KernelVersionDiffers string string
  | FamilyReDecided string
  | FamilyRulesDiffer string string string
  | NothingWasReChecked

datatype replay_outcome =
    Reproduced assurance_verdict "replay_note list"
  | Diverged assurance_verdict assurance_verdict "replay_finding list" "replay_note list"
  | Unreadable schema_version_error

fun reproduced :: "replay_outcome \<Rightarrow> bool" where
  "reproduced (Reproduced v notes) = True"
| "reproduced o' = False"

fun outcome_verdict :: "replay_outcome \<Rightarrow> assurance_verdict option" where
  "outcome_verdict (Reproduced v notes) = Some v"
| "outcome_verdict o' = None"

fun recomputed_verdict :: "replay_outcome \<Rightarrow> assurance_verdict option" where
  "recomputed_verdict (Reproduced v notes) = Some v"
| "recomputed_verdict (Diverged recorded recomputed findings notes) = Some recomputed"
| "recomputed_verdict (Unreadable reason) = None"

text \<open>The findings and the unusable digests of one reference, in the order of the loop.\<close>

definition evidence_finding :: "documents \<Rightarrow> evidence_source \<Rightarrow> digest \<Rightarrow> replay_finding option" where
  "evidence_finding env evidence content =
     (case evidence content of
        None \<Rightarrow> Some (EvidenceMissing content)
      | Some bytes \<Rightarrow>
          (let found = sha256 env bytes in
           if found \<noteq> content then Some (EvidenceTampered content found) else None))"

definition check_evidence ::
  "documents \<Rightarrow> certificate_body \<Rightarrow> evidence_source \<Rightarrow> replay_finding list \<Rightarrow> digest list \<times> replay_finding list" where
  "check_evidence env b evidence findings =
     (let contents = map evidence_content (body_evidence b) in
      (filter (\<lambda>dg. evidence_finding env evidence dg \<noteq> None) contents,
       findings @ filter_map (evidence_finding env evidence) contents))"

definition rules_applied_by :: "string \<Rightarrow> string option" where
  "rules_applied_by identity = (if identity = CLAIM_REASONING then Some CLAIM_REASONING_RULES else None)"

fun check_verifiers ::
  "replay_env \<Rightarrow> evidence_source \<Rightarrow> verifier_record list \<Rightarrow> replay_finding list \<Rightarrow> replay_note list \<Rightarrow>
   (schema_version_error, replay_finding list \<times> replay_note list) result" where
  "check_verifiers env evidence [] findings notes = Ok (findings, notes)"
| "check_verifiers env evidence (r # rs) findings notes =
     (let identity = as_str (identity_name (verifier_identity r)) in
      case verifier_trust r of
        DeclaredOracle rationale \<Rightarrow>
          check_verifiers env evidence rs findings (notes @ [OracleNotReExecuted identity rationale])
      | DeterministicVerifier \<Rightarrow>
          if identity \<notin> set deterministic_families
          then check_verifiers env evidence rs (findings @ [UnknownDeterministicVerifier identity]) notes
          else
            (let notes' = (case rules_applied_by identity of
                             Some replaying \<Rightarrow>
                               if identity_version (verifier_identity r) \<noteq> replaying
                               then notes @ [FamilyRulesDiffer identity (identity_version (verifier_identity r)) replaying]
                               else notes
                           | None \<Rightarrow> notes)
             in case redecide env identity (verifier_inputs r) evidence of
                  InputsUnreadable source \<Rightarrow> Err source
                | InputsMissing \<Rightarrow> check_verifiers env evidence rs (findings @ [FamilyInputsMissing identity]) notes'
                | InputsMalformed detail \<Rightarrow>
                    check_verifiers env evidence rs (findings @ [FamilyInputsMalformed identity detail]) notes'
                | Redecided recomputed \<Rightarrow>
                    if recomputed \<noteq> verifier_verdict r
                    then check_verifiers env evidence rs
                           (findings @ [FamilyDisagrees identity (verifier_verdict r) recomputed]) notes'
                    else check_verifiers env evidence rs findings (notes' @ [FamilyReDecided identity])))"

fun is_disqualifying :: "replay_finding \<Rightarrow> bool" where
  "is_disqualifying FindingSealBroken = True"
| "is_disqualifying (UnknownDeterministicVerifier i) = True"
| "is_disqualifying (FamilyDisagrees i a b) = True"
| "is_disqualifying (FamilyInputsMalformed i d) = True"
| "is_disqualifying f = False"

definition downgrade_if_unusable :: "digest list \<Rightarrow> obligation \<Rightarrow> obligation" where
  "downgrade_if_unusable unusable ob =
     (if \<not> list_ex (\<lambda>dg. dg \<in> set unusable) (discharge_evidence (obligation_state ob)) then ob
      else ob \<lparr>obligation_state := DischargeFailed ''the evidence this rested on is missing or does not match its digest''
                 (statement_owner (obligation_statement ob))\<rparr>)"

definition replay :: "replay_env \<Rightarrow> certificate \<Rightarrow> evidence_source \<Rightarrow> replay_outcome" where
  "replay env c evidence =
     (let b = certificate_body c in
      case read_compatible (schema_display (body_schema_version b)) CERTIFICATE_SCHEMA_VERSION of
        Inl source \<Rightarrow> Unreadable source
      | Inr _ \<Rightarrow>
          (let findings = (case verify_seal (body_digest (env_documents env)) c of Inl e \<Rightarrow> [FindingSealBroken] | Inr _ \<Rightarrow> []);
               notes = (if body_kernel_version b \<noteq> env_kernel_version env
                        then [KernelVersionDiffers (body_kernel_version b) (env_kernel_version env)] else []);
               (unusable, findings) = check_evidence (env_documents env) b evidence findings
           in
             case check_verifiers env evidence (body_verifiers b) findings notes of
               Inl source \<Rightarrow> Unreadable source
             | Inr (findings, notes) \<Rightarrow>
                 (let notes = (if body_evidence b = [] \<and> body_verifiers b = [] then notes @ [NothingWasReChecked] else notes);
                      obligations = map (downgrade_if_unusable unusable) (body_obligations b);
                      recomputed = (if list_ex is_disqualifying findings then VerdictRejected
                                    else under_mode (body_mode b) obligations)
                  in
                    if recomputed = body_verdict b \<and> findings = [] then Reproduced recomputed notes
                    else
                      Diverged (body_verdict b) recomputed
                        (if recomputed \<noteq> body_verdict b then findings @ [VerdictDiffers (body_verdict b) recomputed]
                         else findings) notes)))"

section \<open>What a reproduced verdict means\<close>

text \<open>A verifier's record holds up when the kernel re-decides it to the recorded verdict; the word of an
  oracle is taken.\<close>

definition verifier_holds :: "replay_env \<Rightarrow> evidence_source \<Rightarrow> verifier_record \<Rightarrow> bool" where
  "verifier_holds env evidence r =
     (verifier_trust r = DeterministicVerifier \<longrightarrow>
        as_str (identity_name (verifier_identity r)) = CLAIM_REASONING \<and>
        redecide env CLAIM_REASONING (verifier_inputs r) evidence = Redecided (verifier_verdict r))"

definition still_justified :: "replay_env \<Rightarrow> certificate \<Rightarrow> evidence_source \<Rightarrow> bool" where
  "still_justified env c evidence =
     (let b = certificate_body c in
      body_schema_version b = CERTIFICATE_SCHEMA_VERSION \<and>
      body_digest (env_documents env) b = Ok (replay_digest c) \<and>
      (\<forall>e \<in> set (body_evidence b). \<exists>bytes.
         evidence (evidence_content e) = Some bytes \<and> sha256 (env_documents env) bytes = evidence_content e) \<and>
      (\<forall>r \<in> set (body_verifiers b). verifier_holds env evidence r) \<and>
      under_mode (body_mode b) (body_obligations b) = body_verdict b)"

lemma check_verifiers_clean:
  "(\<exists>ns'. check_verifiers env evidence rs findings ns = Ok ([], ns')) \<longleftrightarrow>
   findings = [] \<and> list_all (verifier_holds env evidence) rs"
proof (induction rs arbitrary: findings ns)
  case (Cons r rs)
  show ?case
  proof (cases "verifier_trust r")
    case DeterministicVerifier
    note simps = Cons.IH verifier_holds_def [of _ _ r] deterministic_families_def Let_def DeterministicVerifier
    show ?thesis
    proof (cases "as_str (identity_name (verifier_identity r)) = CLAIM_REASONING")
      case True
      show ?thesis
      proof (cases "redecide env CLAIM_REASONING (verifier_inputs r) evidence")
        case (Redecided w)
        then show ?thesis by (cases "w = verifier_verdict r") (simp_all add: simps True)
      qed (simp_all add: simps True)
    qed (simp add: simps)
  next
    case (DeclaredOracle rationale)
    then show ?thesis by (simp add: Cons.IH verifier_holds_def [of _ _ r] Let_def)
  qed
qed simp

lemma evidence_finding_None:
  "evidence_finding env evidence dg = None \<longleftrightarrow> (\<exists>bytes. evidence dg = Some bytes \<and> sha256 env bytes = dg)"
  by (auto simp: evidence_finding_def Let_def split: option.splits)

lemma downgrade_none: "map (downgrade_if_unusable []) obs = obs"
  by (induction obs) (auto simp: downgrade_if_unusable_def list_ex_iff)

text \<open>A certificate's version reads exactly when it is the one this build writes.\<close>

lemma certificate_version_reads:
  "(\<exists>v. read_compatible (schema_display w) CERTIFICATE_SCHEMA_VERSION = Ok v) \<longleftrightarrow> w = CERTIFICATE_SCHEMA_VERSION"
  using read_compatible_display [of CERTIFICATE_SCHEMA_VERSION w] by (auto simp: CERTIFICATE_SCHEMA_VERSION_def)

lemma verify_seal_Ok: "(\<exists>u. verify_seal digest_of c = Ok u) \<longleftrightarrow> digest_of (certificate_body c) = Ok (replay_digest c)"
  by (cases "digest_of (certificate_body c)") (auto simp: verify_seal_def)

lemma filter_map_Nil: "filter_map f xs = [] \<longleftrightarrow> (\<forall>x \<in> set xs. f x = None)"
  by (induction xs) (auto split: option.splits)

lemma replay_reproduced_iff:
  "(\<exists>ns. replay env c evidence = Reproduced v ns) \<longleftrightarrow>
   still_justified env c evidence \<and> v = body_verdict (certificate_body c)"
proof -
  define b where "b = certificate_body c"
  define sealed where "sealed = (case verify_seal (body_digest (env_documents env)) c of Inl e \<Rightarrow> [FindingSealBroken] | Inr _ \<Rightarrow> [])"
  define ns where "ns = (if body_kernel_version b \<noteq> env_kernel_version env
    then [KernelVersionDiffers (body_kernel_version b) (env_kernel_version env)] else [])"
  define missing where "missing = filter_map (evidence_finding (env_documents env) evidence) (map evidence_content (body_evidence b))"
  define unusable where "unusable = filter (\<lambda>dg. \<exists>y. evidence_finding (env_documents env) evidence dg = Some y) (map evidence_content (body_evidence b))"
  have sealed: "sealed = [] \<longleftrightarrow> body_digest (env_documents env) b = Ok (replay_digest c)"
    using verify_seal_Ok [of "body_digest (env_documents env)" c] by (auto simp: sealed_def b_def split: sum.splits)
  have missing: "missing = [] \<longleftrightarrow> (\<forall>e \<in> set (body_evidence b). \<exists>bytes.
      evidence (evidence_content e) = Some bytes \<and> sha256 (env_documents env) bytes = evidence_content e)"
    by (simp add: missing_def filter_map_Nil evidence_finding_None)
  have usable: "unusable = []" if "missing = []"
    using that by (auto simp: missing_def unusable_def filter_map_Nil filter_empty_conv)
  show ?thesis
  proof (cases "read_compatible (schema_display (body_schema_version b)) CERTIFICATE_SCHEMA_VERSION")
    case (Inl source)
    then have "body_schema_version b \<noteq> CERTIFICATE_SCHEMA_VERSION"
      using certificate_version_reads [of "body_schema_version b"] by auto
    then show ?thesis using Inl by (simp add: replay_def still_justified_def b_def)
  next
    case (Inr w)
    then have version: "body_schema_version b = CERTIFICATE_SCHEMA_VERSION"
      using certificate_version_reads [of "body_schema_version b"] by auto
    note clean = check_verifiers_clean [of env evidence "body_verifiers b" "sealed @ missing" ns]
    show ?thesis
    proof (cases "check_verifiers env evidence (body_verifiers b) (sealed @ missing) ns")
      case (Inl source)
      then show ?thesis
        using Inr clean
        by (auto simp: replay_def check_evidence_def still_justified_def Let_def list_all_iff sealed missing
            simp flip: b_def sealed_def ns_def missing_def)
    next
      case (Inr result)
      obtain findings ns' where result: "result = (findings, ns')" by (cases result)
      have eq: "findings = [] \<longleftrightarrow> sealed = [] \<and> missing = [] \<and> list_all (verifier_holds env evidence) (body_verifiers b)"
        using clean Inr result by auto
      show ?thesis
        using \<open>read_compatible _ _ = Inr w\<close> Inr result eq version usable
        by (auto simp: replay_def check_evidence_def still_justified_def Let_def list_all_iff sealed missing downgrade_none
            simp flip: b_def sealed_def ns_def missing_def unusable_def)
    qed
  qed
qed


lemma justified_reproduced:
  "still_justified env c evidence \<Longrightarrow> \<exists>ns. replay env c evidence = Reproduced (body_verdict (certificate_body c)) ns"
  using replay_reproduced_iff by blast

text \<open>C18. Replay reproduces a verdict exactly when the certificate still justifies it: its schema is
  this build's, its body digests to its seal, every piece of evidence it cites is present and is
  the bytes it cites, every verifier recorded as deterministic is one this kernel can run and
  reaches the recorded verdict again from the pinned inputs, and the recorded verdict is the one
  its obligations give under its mode.\<close>

theorem replay_reproduces_exactly:
  "(\<exists>ns. replay env c evidence = Reproduced v ns) \<longleftrightarrow>
   still_justified env c evidence \<and> v = body_verdict (certificate_body c)"
  by (rule replay_reproduced_iff)

section \<open>An instance\<close>

text \<open>A certificate with one claim-reasoning record, whose proposal attests an active claim.\<close>

definition sample_claim_document :: claim_document where
  "sample_claim_document =
     \<lparr>claim_doc_id = lit ''c1'', claim_doc_tenant = lit ''t'', claim_doc_project = lit ''p'', claim_doc_subject = lit ''A'',
      claim_doc_predicate = lit ''owner'', claim_doc_object = lit ''B'', claim_doc_evidence = [lit ''e1''],
      claim_doc_confidence = lit ''1'', claim_doc_authority = lit ''high'', claim_doc_observed_at = lit ''now'',
      claim_doc_status = lit ''active''\<rparr>"

definition sample_document :: snapshot_document where
  "sample_document =
     \<lparr>doc_sources = [], doc_evidence = [], doc_claims = [sample_claim_document], doc_authority_floor = Some (lit ''medium''),
      doc_relations = [], doc_cues = [], doc_default_currency = None, doc_date_order = None\<rparr>"

definition sample_env :: replay_env where
  "sample_env =
     \<lparr>env_unicode = plain_unicode, env_digests = plain_digests,
      env_documents =
        \<lparr>json_header = (\<lambda>_. Ok None),
         json_proposal = (\<lambda>_. Ok \<lparr>proposal_goal = owns, proposal_derivation = Attest (lit ''c1'')\<rparr>),
         json_snapshot = (\<lambda>_. Ok sample_document), confidence_in_range = (\<lambda>_. Some True), sha256 = Digest,
         body_digest = (\<lambda>_. Ok (Digest [3]))\<rparr>,
      env_kernel_version = ''capsulet-kernel 0.1.0''\<rparr>"

definition sample_claim_record :: verifier_record where
  "sample_claim_record =
     \<lparr>verifier_identity = \<lparr>identity_name = Identifier CLAIM_REASONING, identity_version = CLAIM_REASONING_RULES\<rparr>,
      verifier_environment = Digest [1], verifier_inputs = [Digest [10], Digest [11]], verifier_outputs = [],
      verifier_trust = DeterministicVerifier, verifier_verdict = CheckerAccepted\<rparr>"

definition sample_replayed :: certificate where
  "sample_replayed =
     \<lparr>certificate_body =
        \<lparr>body_schema_version = CERTIFICATE_SCHEMA_VERSION, body_id = Identifier ''c'',
         body_subject = \<lparr>subject_definition = sample_digest, subject_definition_version = ''1'', subject_run = None,
           subject_inputs = [], subject_outputs = []\<rparr>,
         body_admission = \<lparr>admission_definition = sample_digest, admission_rules = admission_codes\<rparr>,
         body_mode = Enforce, body_policy_version = ''1'', body_kernel_version = ''capsulet-kernel 0.1.0'',
         body_contracts = [], body_verifiers = [sample_claim_record],
         body_evidence = [(sample_evidence_ref 0)\<lparr>evidence_content := Digest [10]\<rparr>,
           (sample_evidence_ref 0)\<lparr>evidence_content := Digest [11]\<rparr>],
         body_obligations = [], body_loops = [], body_verdict = VerdictUnverified\<rparr>,
      replay_digest = Digest [3]\<rparr>"

lemma sample_rebuilds:
  "\<exists>s. rebuild plain_unicode plain_digests (env_documents sample_env) sample_document = Ok s \<and>
     snapshot_claims s (lit ''c1'') = Some \<lparr>memory_claim_id = lit ''c1'', memory_claim_subject = lit ''A'',
       memory_claim_predicate = lit ''owner'', memory_claim_object = lit ''B'', memory_claim_authority = High,
       memory_claim_status = Active\<rparr>"
  by (simp add: rebuild_def sample_document_def sample_claim_document_def document_phrasebook_def with_value_policy_text_def
      with_value_policy_def add_claim_def id_new_def scope_new_def non_empty_def claim_new_def authority_word_def
      status_word_def sample_env_def with_claim_def plain_eval)

lemma sample_redecides:
  "redecide sample_env CLAIM_REASONING [Digest [10], Digest [11]] (\<lambda>dg. Some (digest_bytes dg)) = Redecided CheckerAccepted"
proof -
  let ?pr = "\<lparr>proposal_goal = owns, proposal_derivation = Attest (lit ''c1'')\<rparr>"
  obtain s where s: "rebuild plain_unicode plain_digests (env_documents sample_env) sample_document = Ok s"
    "snapshot_claims s (lit ''c1'') = Some \<lparr>memory_claim_id = lit ''c1'', memory_claim_subject = lit ''A'',
       memory_claim_predicate = lit ''owner'', memory_claim_object = lit ''B'', memory_claim_authority = High,
       memory_claim_status = Active\<rparr>"
    using sample_rebuilds by blast
  have "establishes plain_unicode s (Attest (lit ''c1'')) (Holds owns) []"
    using s(2) by (auto simp: establishes_simps owns_def)
  then have "kernel_verdict (check_proposal plain_unicode plain_digests ?pr s) = Accepted"
    by (subst verdict_eq_iff) (auto simp: exceeds_depth_bound_def plain_digests_def reaches_goal_def)
  moreover have "proposal_read (env_documents sample_env) bytes = Ok ?pr" for bytes
    using read_compatible_display [of PROPOSAL_SCHEMA_VERSION PROPOSAL_SCHEMA_VERSION]
    by (simp add: proposal_read_def sample_env_def PROPOSAL_SCHEMA_VERSION_def)
  moreover have "env_unicode sample_env = plain_unicode" "env_digests sample_env = plain_digests"
    "json_snapshot (env_documents sample_env) bytes = Ok sample_document" for bytes
    by (simp_all add: sample_env_def)
  ultimately show ?thesis using s(1) by (simp add: redecide_def decide_claim_def Let_def)
qed

text \<open>The example is reproduced from its evidence.\<close>

lemma sample_reproduced: "reproduced (replay sample_env sample_replayed (\<lambda>dg. Some (digest_bytes dg)))"
proof -
  have "still_justified sample_env sample_replayed (\<lambda>dg. Some (digest_bytes dg))"
    using sample_redecides
    by (simp add: still_justified_def sample_replayed_def verifier_holds_def sample_claim_record_def Let_def
        under_mode_def from_obligations_def) (simp add: sample_env_def)
  then show ?thesis by (metis justified_reproduced reproduced.simps(1))
qed

end
