(* ===== verification/Bundles.thy ===== *)
theory Bundles
  imports Replay
begin

text \<open>
  Certificate bundles (\<open>crates/kernel/src/bundle.rs\<close>): a certificate with every byte it cites, as
  base64 text keyed by digest. A bundle is built from evidence, checked for completeness, and
  gives the evidence back for replay. Reading a key answers \<open>None\<close> where the source panics.
\<close>

unbundle bit_operations_syntax

section \<open>Base64\<close>

definition ALPHABET :: utext where
  "ALPHABET = lit ''ABCDEFGHIJKLMNOPQRSTUVWXYZabcdefghijklmnopqrstuvwxyz0123456789+/''"

definition sextet :: "u32 \<Rightarrow> nat \<Rightarrow> nat" where
  "sextet triple k = ALPHABET ! unat (drop_bit k triple AND 63)"

definition encode_chunk :: "u8 list \<Rightarrow> utext" where
  "encode_chunk chunk =
     (let b0 = ucast (chunk ! 0);
          b1 = (if length chunk > 1 then ucast (chunk ! 1) else 0);
          b2 = (if length chunk > 2 then ucast (chunk ! 2) else 0);
          triple = push_bit 16 b0 OR push_bit 8 b1 OR b2
      in [sextet triple 18, sextet triple 12,
          if length chunk > 1 then sextet triple 6 else 61,
          if length chunk > 2 then sextet triple 0 else 61])"

fun base64_encode :: "u8 list \<Rightarrow> utext" where
  "base64_encode (a # b # c # bytes) = encode_chunk [a, b, c] @ base64_encode bytes"
| "base64_encode [a, b] = encode_chunk [a, b]"
| "base64_encode [a] = encode_chunk [a]"
| "base64_encode [] = []"

fun position_in :: "nat list \<Rightarrow> nat \<Rightarrow> nat option" where
  "position_in [] c = None"
| "position_in (d # ds) c = (if d = c then Some 0 else map_option Suc (position_in ds c))"

fun decode_loop :: "utext \<Rightarrow> u32 \<Rightarrow> nat \<Rightarrow> u8 list \<Rightarrow> u8 list option" where
  "decode_loop [] buffer bits out = Some out"
| "decode_loop (c # t) buffer bits out =
     (if c = 61 then Some out
      else case position_in ALPHABET c of
             None \<Rightarrow> None
           | Some v \<Rightarrow>
               (let buffer = push_bit 6 buffer OR of_nat v; bits = bits + 6 in
                if bits \<ge> 8
                then decode_loop t buffer (bits - 8) (out @ [ucast (drop_bit (bits - 8) buffer AND 255)])
                else decode_loop t buffer bits out))"

definition base64_decode :: "utext \<Rightarrow> u8 list option" where
  "base64_decode t = decode_loop t 0 0 []"

lemma position_in_nth: "distinct xs \<Longrightarrow> k < length xs \<Longrightarrow> position_in xs (xs ! k) = Some k"
proof (induction xs arbitrary: k)
  case (Cons x xs)
  then show ?case by (cases k) (auto simp: nth_mem)
qed simp

lemma alphabet:
  "distinct ALPHABET" "length ALPHABET = 64" "61 \<notin> set ALPHABET"
  by (simp_all add: ALPHABET_def lit_def)

lemma sextet_index: "unat (x AND 63 :: u32) < 64"
proof -
  have "x AND 63 \<le> 63" by (rule word_and_le1)
  then show ?thesis by (simp add: word_le_nat_alt)
qed

lemma sextet_reads:
  "sextet triple k \<noteq> 61" "position_in ALPHABET (sextet triple k) = Some (unat (drop_bit k triple AND 63))"
proof -
  have less: "unat (drop_bit k triple AND 63) < length ALPHABET"
    using sextet_index [of "drop_bit k triple"] alphabet(2) by simp
  show "sextet triple k \<noteq> 61" using nth_mem [OF less] alphabet(3) by (metis sextet_def)
  show "position_in ALPHABET (sextet triple k) = Some (unat (drop_bit k triple AND 63))"
    unfolding sextet_def by (rule position_in_nth [OF alphabet(1) less])
qed

text \<open>The three bytes of a group, out of its sextets, whatever the buffer held before.\<close>

lemma masks: "(63 :: u32) = mask 6" "(255 :: u32) = mask 8"
  by (simp_all add: mask_eq_exp_minus_1)

lemma byte_eqI:
  fixes x y :: u8
  assumes "\<forall>n \<in> {0, 1, 2, 3, 4, 5, 6, 7}. bit x n = bit y n"
  shows "x = y"
proof (rule bit_word_eqI)
  fix n assume "n < LENGTH(8)"
  then have "n \<in> {0, 1, 2, 3, 4, 5, 6, 7}" by auto
  with assms show "bit x n = bit y n" by blast
qed

lemma u8_bit_high: "8 \<le> n \<Longrightarrow> \<not> bit (w :: u8) n"
  using bit_imp_le_length [of w n] by auto

definition triple_of :: "u8 \<Rightarrow> u8 \<Rightarrow> u8 \<Rightarrow> u32" where
  "triple_of a b c = push_bit 16 (ucast a) OR push_bit 8 (ucast b) OR ucast c"

definition after_two :: "u32 \<Rightarrow> u32 \<Rightarrow> u32" where
  "after_two triple buffer = push_bit 6 (push_bit 6 buffer OR (drop_bit 18 triple AND 63)) OR (drop_bit 12 triple AND 63)"

definition after_three :: "u32 \<Rightarrow> u32 \<Rightarrow> u32" where
  "after_three triple buffer = push_bit 6 (after_two triple buffer) OR (drop_bit 6 triple AND 63)"

definition after_four :: "u32 \<Rightarrow> u32 \<Rightarrow> u32" where
  "after_four triple buffer = push_bit 6 (after_three triple buffer) OR (drop_bit 0 triple AND 63)"

lemma group_bytes:
  "ucast (drop_bit 4 (after_two (triple_of a b c) buffer) AND 255) = a"
  "ucast (drop_bit 2 (after_three (triple_of a b c) buffer) AND 255) = b"
  "ucast (drop_bit 0 (after_four (triple_of a b c) buffer) AND 255) = c"
  unfolding after_four_def after_three_def after_two_def triple_of_def masks
  by (rule byte_eqI; simp add: bit_simps u8_bit_high; simp add: numeral_2_eq_2 numeral_3_eq_3)+

text \<open>A whole group is read back and leaves no bits behind; a short group ends the text.\<close>

lemma decode_sextet:
  "decode_loop (sextet triple k # t) buffer bits out =
     (let buffer = push_bit 6 buffer OR (drop_bit k triple AND 63) in
      if bits + 6 \<ge> 8
      then decode_loop t buffer (bits + 6 - 8) (out @ [ucast (drop_bit (bits + 6 - 8) buffer AND 255)])
      else decode_loop t buffer (bits + 6) out)"
  by (simp add: sextet_reads Let_def)

lemma decode_two:
  "decode_loop (sextet triple 18 # sextet triple 12 # t) buffer 0 out =
   decode_loop t (after_two triple buffer) 4 (out @ [ucast (drop_bit 4 (after_two triple buffer) AND 255)])"
  unfolding decode_sextet after_two_def by (simp add: Let_def del: decode_loop.simps)

lemma decode_three:
  "decode_loop (sextet triple 6 # t) (after_two triple buffer) 4 out =
   decode_loop t (after_three triple buffer) 2 (out @ [ucast (drop_bit 2 (after_three triple buffer) AND 255)])"
  unfolding decode_sextet after_three_def by (simp add: Let_def del: decode_loop.simps)

lemma decode_four:
  "decode_loop (sextet triple 0 # t) (after_three triple buffer) 2 out =
   decode_loop t (after_four triple buffer) 0 (out @ [ucast (drop_bit 0 (after_four triple buffer) AND 255)])"
  unfolding decode_sextet after_four_def by (simp add: Let_def del: decode_loop.simps)

lemma encode_chunk_simps:
  "encode_chunk [a, b, c] = [sextet (triple_of a b c) 18, sextet (triple_of a b c) 12, sextet (triple_of a b c) 6, sextet (triple_of a b c) 0]"
  "encode_chunk [a, b] = [sextet (triple_of a b 0) 18, sextet (triple_of a b 0) 12, sextet (triple_of a b 0) 6, 61]"
  "encode_chunk [a] = [sextet (triple_of a 0 0) 18, sextet (triple_of a 0 0) 12, 61, 61]"
  by (simp_all add: encode_chunk_def triple_of_def Let_def)

lemma decode_group:
  "decode_loop (encode_chunk [a, b, c] @ t) buffer 0 out =
   decode_loop t (after_four (triple_of a b c) buffer) 0 (out @ [a, b, c])"
  unfolding encode_chunk_simps append.simps decode_two decode_three decode_four group_bytes by simp

lemma decode_last:
  "decode_loop (encode_chunk [a, b]) buffer 0 out = Some (out @ [a, b])"
  "decode_loop (encode_chunk [a]) buffer 0 out = Some (out @ [a])"
  unfolding encode_chunk_simps decode_two decode_three group_bytes by simp_all

lemma decode_encode: "decode_loop (base64_encode bytes) buffer 0 out = Some (out @ bytes)"
proof (induction bytes arbitrary: buffer out rule: base64_encode.induct)
  case (1 a b c bytes)
  then show ?case by (simp add: decode_group)
qed (simp_all add: decode_last)

lemma base64_round_trip [simp]: "base64_decode (base64_encode bytes) = Some bytes"
  by (simp add: base64_decode_def decode_encode)

section \<open>Bundles\<close>

definition BUNDLE_SCHEMA_VERSION :: schema_version where
  "BUNDLE_SCHEMA_VERSION = \<lparr>schema_namespace = ''capsulet.bundle'', schema_major = 1\<rparr>"

datatype bundle_error =
    BundleMissingEvidence digest
  | UnreferencedBlob digest
  | BlobDigestMismatch digest digest
  | MalformedBlob digest
  | BundleMalformed utext
  | BundleSchemaVersion schema_version_error

record certificate_bundle =
  bundle_schema_version :: schema_version
  bundle_certificate :: certificate
  bundle_blobs :: "(utext, utext) btree_map"

text \<open>The UTF-8 bytes of a text.\<close>

definition utf8_bytes :: "nat \<Rightarrow> u8 list" where
  "utf8_bytes c =
     (if c < 128 then [of_nat c]
      else if c < 2048 then [of_nat (192 + c div 64), of_nat (128 + c mod 64)]
      else if c < 65536 then [of_nat (224 + c div 4096), of_nat (128 + c div 64 mod 64), of_nat (128 + c mod 64)]
      else [of_nat (240 + c div 262144), of_nat (128 + c div 4096 mod 64), of_nat (128 + c div 64 mod 64),
            of_nat (128 + c mod 64)])"

definition as_bytes :: "utext \<Rightarrow> u8 list" where
  "as_bytes t = concat (map utf8_bytes t)"

definition build_step ::
  "evidence_source \<Rightarrow> (utext, utext) btree_map \<Rightarrow> evidence_ref \<Rightarrow> (bundle_error, (utext, utext) btree_map) result" where
  "build_step evidence blobs e =
     and_then (ok_or (BundleMissingEvidence (evidence_content e)) (evidence (evidence_content e))) (\<lambda>bytes.
       Ok (bt_insert (digest_display (evidence_content e)) (base64_encode bytes) blobs))"

definition bundle_build :: "certificate \<Rightarrow> evidence_source \<Rightarrow> (bundle_error, certificate_bundle) result" where
  "bundle_build c evidence =
     and_then (try_fold (build_step evidence) [] (body_evidence (certificate_body c))) (\<lambda>blobs.
       Ok \<lparr>bundle_schema_version = BUNDLE_SCHEMA_VERSION, bundle_certificate = c, bundle_blobs = blobs\<rparr>)"

definition cited :: "certificate_bundle \<Rightarrow> digest list" where
  "cited b = map evidence_content (body_evidence (certificate_body (bundle_certificate b)))"

text \<open>\<open>key.parse()\<close>, with the error the bundle gives for it.\<close>

definition read_key :: "documents \<Rightarrow> utext \<Rightarrow> (bundle_error, digest) result option" where
  "read_key env key = map_option (map_err (\<lambda>_. MalformedBlob (sha256 env (as_bytes key)))) (digest_from_str key)"

fun check_keys :: "documents \<Rightarrow> digest list \<Rightarrow> utext list \<Rightarrow> (bundle_error, unit) result option" where
  "check_keys env digests [] = Some (Ok ())"
| "check_keys env digests (key # keys) =
     (case read_key env key of
        None \<Rightarrow> None
      | Some (Inl e) \<Rightarrow> Some (Err e)
      | Some (Inr recorded) \<Rightarrow>
          if recorded \<notin> set digests then Some (Err (UnreferencedBlob recorded)) else check_keys env digests keys)"

definition check_completeness :: "documents \<Rightarrow> certificate_bundle \<Rightarrow> (bundle_error, unit) result option" where
  "check_completeness env b =
     (case check_keys env (cited b) (bt_keys (bundle_blobs b)) of
        None \<Rightarrow> None
      | Some (Inl e) \<Rightarrow> Some (Err e)
      | Some (Inr _) \<Rightarrow>
          Some (try_for_each (\<lambda>dg. if bt_contains (bundle_blobs b) (digest_display dg) then Ok ()
                                   else Err (BundleMissingEvidence dg)) (cited b)))"

text \<open>Reading, after the document has been parsed.\<close>

definition bundle_read :: "documents \<Rightarrow> certificate_bundle \<Rightarrow> (bundle_error, certificate_bundle) result option" where
  "bundle_read env b =
     (case read_compatible (schema_display (bundle_schema_version b)) BUNDLE_SCHEMA_VERSION of
        Inl source \<Rightarrow> Some (Err (BundleSchemaVersion source))
      | Inr _ \<Rightarrow> map_option (\<lambda>r. and_then r (\<lambda>_. Ok b)) (check_completeness env b))"

fun check_blobs :: "documents \<Rightarrow> (utext \<times> utext) list \<Rightarrow> (bundle_error, unit) result option" where
  "check_blobs env [] = Some (Ok ())"
| "check_blobs env ((key, encoded) # blobs) =
     (case read_key env key of
        None \<Rightarrow> None
      | Some (Inl e) \<Rightarrow> Some (Err e)
      | Some (Inr recorded) \<Rightarrow>
          (case base64_decode encoded of
             None \<Rightarrow> Some (Err (MalformedBlob recorded))
           | Some bytes \<Rightarrow>
               if sha256 env bytes \<noteq> recorded then Some (Err (BlobDigestMismatch recorded (sha256 env bytes)))
               else check_blobs env blobs))"

definition bundle_check :: "documents \<Rightarrow> certificate_bundle \<Rightarrow> (bundle_error, unit) result option" where
  "bundle_check env b =
     (case check_completeness env b of
        None \<Rightarrow> None
      | Some (Inl e) \<Rightarrow> Some (Err e)
      | Some (Inr _) \<Rightarrow> check_blobs env (bundle_blobs b))"

fun collect_evidence ::
  "documents \<Rightarrow> (utext \<times> utext) list \<Rightarrow> evidence_source \<Rightarrow> (bundle_error, evidence_source) result option" where
  "collect_evidence env [] acc = Some (Ok acc)"
| "collect_evidence env ((key, encoded) # blobs) acc =
     (case read_key env key of
        None \<Rightarrow> None
      | Some (Inl e) \<Rightarrow> Some (Err e)
      | Some (Inr recorded) \<Rightarrow>
          (case base64_decode encoded of
             None \<Rightarrow> Some (Err (MalformedBlob recorded))
           | Some bytes \<Rightarrow> collect_evidence env blobs (acc(recorded \<mapsto> bytes))))"

definition bundle_evidence :: "documents \<Rightarrow> certificate_bundle \<Rightarrow> (bundle_error, evidence_source) result option" where
  "bundle_evidence env b = collect_evidence env (bundle_blobs b) Map.empty"

section \<open>A bundle carries what its certificate cites\<close>

lemma read_key_display: "length (digest_bytes dg) = 32 \<Longrightarrow> read_key env (digest_display dg) = Some (Ok dg)"
  using digest_from_str_iff [of "digest_display dg" dg] by (simp add: read_key_def)

lemma digest_display_inj:
  "digest_display x = digest_display y \<Longrightarrow> length (digest_bytes x) = 32 \<Longrightarrow> length (digest_bytes y) = 32 \<Longrightarrow> x = y"
  using digest_from_str_iff [of "digest_display x" x] digest_from_str_iff [of "digest_display y" y] by simp

text \<open>Every blob is the text of some evidence of the source, under the text of its digest.\<close>

definition blobs_of :: "evidence_source \<Rightarrow> (utext \<rightharpoonup> utext) \<Rightarrow> bool" where
  "blobs_of evidence m =
     (\<forall>k v. m k = Some v \<longrightarrow> (\<exists>dg bytes. k = digest_display dg \<and> length (digest_bytes dg) = 32 \<and>
        v = base64_encode bytes \<and> evidence dg = Some bytes))"

lemma build_step_ok:
  assumes "try_fold (build_step evidence) m es = Ok m'" "bt_wf m" "blobs_of evidence (map_of m)"
    and "\<forall>e \<in> set es. length (digest_bytes (evidence_content e)) = 32"
  shows "bt_wf m' \<and> blobs_of evidence (map_of m') \<and>
    dom (map_of m') = dom (map_of m) \<union> digest_display ` evidence_content ` set es"
  using assms
proof (induction es arbitrary: m)
  case (Cons e es)
  from Cons.prems(1) obtain bytes where bytes: "evidence (evidence_content e) = Some bytes"
    and rest: "try_fold (build_step evidence) (bt_insert (digest_display (evidence_content e)) (base64_encode bytes) m) es = Ok m'"
    by (cases "evidence (evidence_content e)") (auto simp: build_step_def [of _ _ e])
  let ?m = "bt_insert (digest_display (evidence_content e)) (base64_encode bytes) m"
  have get: "map_of ?m = (map_of m)(digest_display (evidence_content e) \<mapsto> base64_encode bytes)"
    using Cons.prems(2) by (rule btree.get_insert)
  have "blobs_of evidence (map_of ?m)"
    using Cons.prems(3,4) bytes unfolding get by (auto simp: blobs_of_def)
  from Cons.IH [OF rest _ this] Cons.prems show ?case unfolding get by auto
qed simp

lemma check_keys_ok:
  assumes "\<forall>k \<in> set ks. \<exists>dg \<in> set digests. k = digest_display dg \<and> length (digest_bytes dg) = 32"
  shows "check_keys env digests ks = Some (Ok ())"
  using assms by (induction ks) (auto simp: read_key_display)

lemma collect_evidence_ok:
  assumes "\<forall>(k, v) \<in> set blobs. \<exists>dg bytes. k = digest_display dg \<and> length (digest_bytes dg) = 32 \<and>
      v = base64_encode bytes \<and> evidence dg = Some bytes"
  shows "\<exists>found. collect_evidence env blobs acc = Some (Ok found) \<and>
    (\<forall>dg. found dg = (if length (digest_bytes dg) = 32 \<and> digest_display dg \<in> fst ` set blobs then evidence dg else acc dg))"
  using assms
proof (induction blobs arbitrary: acc)
  case (Cons kv blobs)
  obtain k v where kv: "kv = (k, v)" by (cases kv)
  with Cons.prems obtain dg bytes where dg: "k = digest_display dg" "length (digest_bytes dg) = 32"
    "v = base64_encode bytes" "evidence dg = Some bytes" by auto
  from Cons.prems have "\<forall>(k, v) \<in> set blobs. \<exists>dg bytes. k = digest_display dg \<and> length (digest_bytes dg) = 32 \<and>
      v = base64_encode bytes \<and> evidence dg = Some bytes" by auto
  from Cons.IH [OF this, of "acc(dg \<mapsto> bytes)"] obtain found where
    found: "collect_evidence env blobs (acc(dg \<mapsto> bytes)) = Some (Ok found)"
    "\<forall>x. found x = (if length (digest_bytes x) = 32 \<and> digest_display x \<in> fst ` set blobs then evidence x
       else (acc(dg \<mapsto> bytes)) x)"
    by blast
  have "found x = (if length (digest_bytes x) = 32 \<and> digest_display x \<in> fst ` set (kv # blobs) then evidence x else acc x)" for x
    using found(2) dg kv digest_display_inj [of x dg] by auto
  with found(1) dg kv show ?case by (auto simp: read_key_display)
qed simp

text \<open>Replay reads a source only at the digests the certificate cites and its deterministic verifiers pin.\<close>

lemma redecide_cong:
  assumes "\<forall>dg \<in> set inputs. evidence dg = evidence' dg"
  shows "redecide env i inputs evidence = redecide env i inputs evidence'"
proof (cases "\<exists>a b. inputs = [a, b]")
  case True
  then obtain a b where inputs: "inputs = [a, b]" by blast
  have "evidence a = evidence' a" "evidence b = evidence' b" using assms inputs by auto
  then show ?thesis unfolding redecide_def inputs list.case by (simp only:)
next
  case False
  then show ?thesis by (simp add: redecide_def split: list.splits)
qed

lemma check_verifiers_cong:
  assumes "\<forall>r \<in> set rs. \<forall>dg \<in> set (verifier_inputs r). verifier_trust r = DeterministicVerifier \<longrightarrow> evidence dg = evidence' dg"
  shows "check_verifiers env evidence rs findings ns = check_verifiers env evidence' rs findings ns"
  using assms
proof (induction rs arbitrary: findings ns)
  case (Cons r rs)
  have "redecide env i (verifier_inputs r) evidence = redecide env i (verifier_inputs r) evidence'"
    if "verifier_trust r = DeterministicVerifier" for i
    using Cons.prems that by (intro redecide_cong) auto
  with Cons show ?case by (cases "verifier_trust r") (simp_all add: Let_def split: redecision.splits)
qed simp

lemma filter_map_cong: "(\<And>x. x \<in> set xs \<Longrightarrow> f x = g x) \<Longrightarrow> filter_map f xs = filter_map g xs"
  by (induction xs) (auto split: option.splits)

lemma replay_cong:
  assumes "\<forall>e \<in> set (body_evidence (certificate_body c)). evidence (evidence_content e) = evidence' (evidence_content e)"
    and "\<forall>r \<in> set (body_verifiers (certificate_body c)). \<forall>dg \<in> set (verifier_inputs r).
      verifier_trust r = DeterministicVerifier \<longrightarrow> evidence dg = evidence' dg"
  shows "replay env c evidence = replay env c evidence'"
proof -
  let ?ds = "map evidence_content (body_evidence (certificate_body c))"
  have same: "evidence_finding env' evidence dg = evidence_finding env' evidence' dg" if "dg \<in> set ?ds" for env' dg
    using that assms(1) by (auto simp: evidence_finding_def)
  have checked: "check_evidence env' (certificate_body c) evidence fs = check_evidence env' (certificate_body c) evidence' fs" for env' fs
  proof -
    have kept: "filter (\<lambda>dg. evidence_finding env' evidence dg \<noteq> None) ?ds = filter (\<lambda>dg. evidence_finding env' evidence' dg \<noteq> None) ?ds"
      by (rule filter_cong [OF refl]) (simp only: same)
    have found: "filter_map (evidence_finding env' evidence) ?ds = filter_map (evidence_finding env' evidence') ?ds"
      by (rule filter_map_cong) (simp only: same)
    show ?thesis unfolding check_evidence_def Let_def kept found by (rule refl)
  qed
  show ?thesis unfolding replay_def Let_def checked check_verifiers_cong [OF assms(2)] by (rule refl)
qed

lemma check_blobs_ok:
  assumes "\<forall>(k, v) \<in> set blobs. \<exists>dg bytes. k = digest_display dg \<and> length (digest_bytes dg) = 32 \<and>
      v = base64_encode bytes \<and> sha256 env bytes = dg"
  shows "check_blobs env blobs = Some (Ok ())"
  using assms
proof (induction blobs)
  case (Cons kv blobs)
  obtain k v where kv: "kv = (k, v)" by (cases kv)
  with Cons.prems obtain dg bytes where "k = digest_display dg" "length (digest_bytes dg) = 32"
    "v = base64_encode bytes" "sha256 env bytes = dg" by auto
  moreover have "check_blobs env blobs = Some (Ok ())" using Cons by simp
  ultimately show ?case by (simp add: kv read_key_display)
qed simp

lemma intact_blobs:
  assumes entries: "\<forall>(k, v) \<in> set blobs. \<exists>dg bytes. k = digest_display dg \<and> length (digest_bytes dg) = 32 \<and>
      v = base64_encode bytes \<and> evidence dg = Some bytes"
    and keys: "fst ` set blobs = digest_display ` evidence_content ` set es"
    and digests: "\<forall>e \<in> set es. length (digest_bytes (evidence_content e)) = 32"
    and intact: "\<forall>e \<in> set es. \<forall>bytes. evidence (evidence_content e) = Some bytes \<longrightarrow> sha256 env bytes = evidence_content e"
  shows "check_blobs env blobs = Some (Ok ())"
proof -
  have digests_to: "sha256 env bytes = dg"
    if carried: "digest_display dg \<in> fst ` set blobs" "length (digest_bytes dg) = 32" "evidence dg = Some bytes" for dg bytes
  proof -
    obtain e where e: "e \<in> set es" "digest_display dg = digest_display (evidence_content e)"
      using carried(1) unfolding keys by auto
    have "dg = evidence_content e" using e digests carried(2) by (intro digest_display_inj) auto
    then show ?thesis using e(1) intact carried(3) by simp
  qed
  have "\<exists>dg bytes. k = digest_display dg \<and> length (digest_bytes dg) = 32 \<and> v = base64_encode bytes \<and>
      sha256 env bytes = dg" if kv: "(k, v) \<in> set blobs" for k v
  proof -
    obtain dg bytes where k: "k = digest_display dg" "length (digest_bytes dg) = 32" "v = base64_encode bytes" "evidence dg = Some bytes"
      using entries kv by blast
    moreover have "sha256 env bytes = dg" using kv k by (intro digests_to) force+
    ultimately show ?thesis by blast
  qed
  then show ?thesis by (intro check_blobs_ok) blast
qed

text \<open>C19. A bundle stands in for the evidence it was built from. Let every digest the certificate cites be
  one of 32 bytes, under which the source holds bytes that digest to it. Then the bundle is read back
  as complete, and checked as intact, without refusal or panic; it gives back for every digest the
  certificate cites the bytes the source had for it, and nothing else; and when the inputs of the
  deterministic verifiers are among what the certificate cites, replaying against the bundle gives
  exactly the outcome of replaying against the source. (A blob that does not match its digest is not
  refused by \<open>read\<close>, whose documentation says it is; \<open>check\<close> and replay report it.)\<close>

theorem bundle_stands_in:
  assumes build: "bundle_build c evidence = Ok b"
    and digests: "\<forall>e \<in> set (body_evidence (certificate_body c)). length (digest_bytes (evidence_content e)) = 32"
    and intact: "\<forall>e \<in> set (body_evidence (certificate_body c)). \<forall>bytes.
      evidence (evidence_content e) = Some bytes \<longrightarrow> sha256 (env_documents env) bytes = evidence_content e"
  shows "bundle_read (env_documents env) b = Some (Ok b) \<and> bundle_check (env_documents env) b = Some (Ok ()) \<and>
    (\<exists>found. bundle_evidence (env_documents env) b = Some (Ok found) \<and>
       (\<forall>dg. found dg = (if carries (certificate_body c) dg then evidence dg else None)) \<and>
       ((\<forall>r \<in> set (body_verifiers (certificate_body c)). \<forall>dg \<in> set (verifier_inputs r).
           verifier_trust r = DeterministicVerifier \<longrightarrow> carries (certificate_body c) dg) \<longrightarrow>
        replay env c found = replay env c evidence))"
proof -
  let ?es = "body_evidence (certificate_body c)"
  obtain blobs where fold: "try_fold (build_step evidence) [] ?es = Ok blobs"
    and b: "b = \<lparr>bundle_schema_version = BUNDLE_SCHEMA_VERSION, bundle_certificate = c, bundle_blobs = blobs\<rparr>"
    using build by (auto simp: bundle_build_def)
  have blobs: "bt_wf blobs" "blobs_of evidence (map_of blobs)" "dom (map_of blobs) = digest_display ` evidence_content ` set ?es"
    using build_step_ok [OF fold _ _ digests] by (auto simp: blobs_of_def)
  have keys: "fst ` set blobs = digest_display ` evidence_content ` set ?es"
    using blobs(3) by (simp add: dom_map_of_conv_image_fst)
  have entries: "\<forall>(k, v) \<in> set blobs. \<exists>dg bytes. k = digest_display dg \<and> length (digest_bytes dg) = 32 \<and>
      v = base64_encode bytes \<and> evidence dg = Some bytes"
    using blobs(2) map_of_is_SomeI [OF bt_wf_distinct [OF blobs(1)]] by (auto simp: blobs_of_def)
  have "check_keys (env_documents env) (cited b) (bt_keys blobs) = Some (Ok ())"
    using keys digests by (intro check_keys_ok) (auto simp: b cited_def bt_keys_def)
  moreover have "bt_contains blobs (digest_display dg)" if "dg \<in> set (cited b)" for dg
    using that blobs(3) by (auto simp: bt_contains_def b cited_def domIff)
  ultimately have complete: "check_completeness (env_documents env) b = Some (Ok ())"
    by (simp add: check_completeness_def b try_for_each_eq_Inr)
  have "read_compatible (schema_display BUNDLE_SCHEMA_VERSION) BUNDLE_SCHEMA_VERSION = Ok BUNDLE_SCHEMA_VERSION"
    using read_compatible_display [of BUNDLE_SCHEMA_VERSION BUNDLE_SCHEMA_VERSION] by (simp add: BUNDLE_SCHEMA_VERSION_def)
  with complete have read: "bundle_read (env_documents env) b = Some (Ok b)" by (simp add: bundle_read_def b)
  have "check_blobs (env_documents env) blobs = Some (Ok ())" by (rule intact_blobs [OF entries keys digests intact])
  with complete have checked: "bundle_check (env_documents env) b = Some (Ok ())" by (simp add: bundle_check_def b)
  from collect_evidence_ok [OF entries, of "env_documents env" Map.empty] obtain found where
    found: "bundle_evidence (env_documents env) b = Some (Ok found)"
    "\<forall>dg. found dg = (if length (digest_bytes dg) = 32 \<and> digest_display dg \<in> fst ` set blobs then evidence dg else None)"
    by (auto simp: bundle_evidence_def b)
  have "length (digest_bytes dg) = 32 \<and> digest_display dg \<in> fst ` set blobs \<longleftrightarrow> carries (certificate_body c) dg" for dg
    using digests digest_display_inj by (auto simp: keys carries_def list_ex_iff)
  then have bytes: "\<forall>dg. found dg = (if carries (certificate_body c) dg then evidence dg else None)"
    using found(2) by simp
  then have "\<forall>e \<in> set ?es. found (evidence_content e) = evidence (evidence_content e)"
    by (auto simp: carries_def list_ex_iff)
  with bytes have "replay env c found = replay env c evidence"
    if "\<forall>r \<in> set (body_verifiers (certificate_body c)). \<forall>dg \<in> set (verifier_inputs r).
          verifier_trust r = DeterministicVerifier \<longrightarrow> carries (certificate_body c) dg"
    using that by (intro replay_cong) auto
  with read checked found(1) bytes show ?thesis by blast
qed

text \<open>A certificate that cites one piece of evidence of three bytes, in an environment whose digest pads
  the bytes to 32.\<close>

definition padded_digest :: "u8 list \<Rightarrow> digest" where
  "padded_digest bytes = Digest (take 32 (bytes @ replicate 32 0))"

definition bundling_env :: replay_env where
  "bundling_env = sample_env\<lparr>env_documents := (env_documents sample_env)\<lparr>sha256 := padded_digest\<rparr>\<rparr>"

definition sample_bundled :: certificate where
  "sample_bundled =
     sample_replayed \<lparr>certificate_body := (certificate_body sample_replayed)
       \<lparr>body_evidence := [(sample_evidence_ref 0) \<lparr>evidence_content := padded_digest [1, 2, 3]\<rparr>], body_verifiers := []\<rparr>\<rparr>"

theorem bundle_stands_in_witness:
  "\<exists>b found. bundle_build sample_bundled [padded_digest [1, 2, 3] \<mapsto> [1, 2, 3]] = Ok b \<and>
     bundle_check (env_documents bundling_env) b = Some (Ok ()) \<and>
     bundle_evidence (env_documents bundling_env) b = Some (Ok found) \<and> found (padded_digest [1, 2, 3]) = Some [1, 2, 3] \<and>
     replay bundling_env sample_bundled found = replay bundling_env sample_bundled [padded_digest [1, 2, 3] \<mapsto> [1, 2, 3]]"
proof -
  let ?source = "[padded_digest [1, 2, 3] \<mapsto> [1, 2, 3]]"
  obtain b where build: "bundle_build sample_bundled ?source = Ok b"
    by (auto simp: bundle_build_def sample_bundled_def build_step_def)
  have digests: "\<forall>e \<in> set (body_evidence (certificate_body sample_bundled)). length (digest_bytes (evidence_content e)) = 32"
    by (simp add: sample_bundled_def padded_digest_def)
  have intact: "\<forall>e \<in> set (body_evidence (certificate_body sample_bundled)). \<forall>bytes.
      ?source (evidence_content e) = Some bytes \<longrightarrow> sha256 (env_documents bundling_env) bytes = evidence_content e"
    by (simp add: sample_bundled_def bundling_env_def)
  have "body_verifiers (certificate_body sample_bundled) = []" by (simp add: sample_bundled_def)
  with bundle_stands_in [OF build digests intact] obtain found where
    "bundle_check (env_documents bundling_env) b = Some (Ok ())"
    "bundle_evidence (env_documents bundling_env) b = Some (Ok found)"
    "\<forall>dg. found dg = (if carries (certificate_body sample_bundled) dg then ?source dg else None)"
    "replay bundling_env sample_bundled found = replay bundling_env sample_bundled ?source"
    by (metis empty_iff empty_set)
  moreover have "carries (certificate_body sample_bundled) (padded_digest [1, 2, 3])"
    by (simp add: carries_def sample_bundled_def)
  ultimately show ?thesis using build by (intro exI [of _ b] exI [of _ found] conjI) simp_all
qed

end
