(* ===== verification/Canonical.thy ===== *)
theory Canonical
  imports Wire_Text Citation_Value
begin

text \<open>
  The canonical encoding every digest is taken over (\<open>crates/ir/src/canonical.rs\<close>): the data model
  \<open>CanonicalValue\<close>, its one text, the UTF-8 bytes of that text, and the serializer that brings any
  value of the \<open>serde\<close> data model into it. A \<open>BTreeMap\<close> is a sorted association list, so the order
  of its keys is the order the text lists them in.

  Unicode normalisation is a crate outside the repository: \<open>nf\<close>, an argument of the definitions
  that consult it, stands for \<open>is_nfc\<close>. So is the message of the two methods of \<open>Serializer\<close> that
  \<open>KeySerializer\<close> inherits from \<open>serde\<close>: \<open>unsupported\<close>.
\<close>

section \<open>UTF-8\<close>

text \<open>Unicode scalar values, the values of \<open>char\<close>.\<close>

definition is_scalar :: "nat \<Rightarrow> bool" where
  "is_scalar c = (c < 55296 \<or> 57344 \<le> c \<and> c < 1114112)"

definition is_text :: "utext \<Rightarrow> bool" where
  "is_text t = list_all is_scalar t"

definition utf8_char :: "nat \<Rightarrow> nat list" where
  "utf8_char c =
     (if c < 128 then [c]
      else if c < 2048 then [192 + c div 64, 128 + c mod 64]
      else if c < 65536 then [224 + c div 4096, 128 + c div 64 mod 64, 128 + c mod 64]
      else [240 + c div 262144, 128 + c div 4096 mod 64, 128 + c div 64 mod 64, 128 + c mod 64])"

text \<open>\<open>String::into_bytes\<close>.\<close>

definition into_bytes :: "utext \<Rightarrow> u8 list" where
  "into_bytes t = map of_nat (concat (map utf8_char t))"

text \<open>\<open>str::from_utf8\<close>: every character in its shortest form, and a scalar value.\<close>

definition is_continuation :: "nat \<Rightarrow> bool" where
  "is_continuation b = (128 \<le> b \<and> b < 192)"

definition accept_char :: "nat \<Rightarrow> nat \<Rightarrow> nat option" where
  "accept_char n c = (if utf8_len c = n \<and> is_scalar c then Some c else None)"

fun next_char :: "nat list \<Rightarrow> (nat \<times> nat list) option" where
  "next_char [] = None"
| "next_char (a # bs) =
     (if a < 128 then Some (a, bs)
      else if 192 \<le> a \<and> a < 224 then
        (case bs of
           b # r \<Rightarrow>
             if is_continuation b
             then map_option (\<lambda>c. (c, r)) (accept_char 2 ((a - 192) * 64 + (b - 128))) else None
         | _ \<Rightarrow> None)
      else if 224 \<le> a \<and> a < 240 then
        (case bs of
           b # c # r \<Rightarrow>
             if is_continuation b \<and> is_continuation c
             then map_option (\<lambda>x. (x, r)) (accept_char 3 ((a - 224) * 4096 + (b - 128) * 64 + (c - 128))) else None
         | _ \<Rightarrow> None)
      else if 240 \<le> a \<and> a < 248 then
        (case bs of
           b # c # d # r \<Rightarrow>
             if is_continuation b \<and> is_continuation c \<and> is_continuation d
             then map_option (\<lambda>x. (x, r))
                    (accept_char 4 ((a - 240) * 262144 + (b - 128) * 4096 + (c - 128) * 64 + (d - 128))) else None
         | _ \<Rightarrow> None)
      else None)"

lemma next_char_shrinks: "next_char bs = Some (c, r) \<Longrightarrow> length r < length bs"
  by (cases bs) (auto split: if_splits list.splits)

function decode_utf8 :: "nat list \<Rightarrow> utext option" where
  "decode_utf8 bs =
     (if bs = [] then Some []
      else case next_char bs of
        None \<Rightarrow> None
      | Some (c, r) \<Rightarrow> map_option ((#) c) (decode_utf8 r))"
  by pat_completeness auto
termination
  by (relation "measure length") (auto dest: next_char_shrinks)

declare decode_utf8.simps [simp del]

definition from_utf8 :: "u8 list \<Rightarrow> utext option" where
  "from_utf8 bs = decode_utf8 (map unat bs)"

section \<open>Errors and decimals\<close>

datatype canonical_error =
    CFloat
  | IntegerRange utext
  | CDuplicateKey utext
  | NonTextKey string
  | NotNormalized utext
  | RawBytes
  | NotUtf8
  | Syntax nat utext
  | NotCanonical
  | CMessage utext

datatype decimal = Decimal utext

definition decimal_parse :: "utext \<Rightarrow> (canonical_error, decimal) result" where
  "decimal_parse t =
     (let invalid = CMessage (lit ''`'' @ t @ lit ''` is not a fixed-point decimal'');
          digits = (case strip_prefix [45] t of Some rest \<Rightarrow> rest | None \<Rightarrow> t);
          (integral, fractional) =
            (case split_once_text 46 digits of
               Some (integral, fractional) \<Rightarrow> (integral, Some fractional)
             | None \<Rightarrow> (digits, None))
      in
        if integral = [] \<or> \<not> list_all is_digit integral then Err invalid
        else if byte_len integral > 1 \<and> starts_with integral [48] then Err invalid
        else
          (case fractional of
             Some f \<Rightarrow> if f = [] \<or> \<not> list_all is_digit f then Err invalid else Ok (Decimal t)
           | None \<Rightarrow> Ok (Decimal t)))"

fun decimal_str :: "decimal \<Rightarrow> utext" where
  "decimal_str (Decimal t) = t"

section \<open>The canonical value and its text\<close>

datatype canonical_value =
    CNull
  | CBool bool
  | CInteger i128
  | CText utext
  | CList "canonical_value list"
  | CMap "(utext, canonical_value) btree_map"

definition canonical_text :: "(utext \<Rightarrow> bool) \<Rightarrow> utext \<Rightarrow> (canonical_error, canonical_value) result" where
  "canonical_text nf value = (if nf value then Ok (CText value) else Err (NotNormalized value))"

definition write_char :: "nat \<Rightarrow> utext" where
  "write_char c =
     (if c = 34 then [92, 34]
      else if c = 92 then [92, 92]
      else if c = 8 then [92, 98]
      else if c = 12 then [92, 102]
      else if c = 10 then [92, 110]
      else if c = 13 then [92, 114]
      else if c = 9 then [92, 116]
      else if c < 32 then
        [92, 117] @ map (\<lambda>shift. hex_char (drop_bit shift c mod 16)) [12, 8, 4, 0]
      else [c])"

definition write_text :: "utext \<Rightarrow> utext" where
  "write_text value = [34] @ concat (map write_char value) @ [34]"

fun write_value :: "canonical_value \<Rightarrow> utext" where
  "write_value CNull = lit ''null''"
| "write_value (CBool True) = lit ''true''"
| "write_value (CBool False) = lit ''false''"
| "write_value (CInteger n) = lit (fmt_int n)"
| "write_value (CText t) = write_text t"
| "write_value (CList vs) = [91] @ join_words [44] (map write_value vs) @ [93]"
| "write_value (CMap es) =
     [123] @ join_words [44] (map (\<lambda>e. write_text (fst e) @ [58] @ write_value (snd e)) es) @ [125]"

definition to_canonical_bytes :: "canonical_value \<Rightarrow> u8 list" where
  "to_canonical_bytes v = into_bytes (write_value v)"

section \<open>The serializer\<close>

text \<open>A value of the \<open>serde\<close> data model is the sequence of calls its \<open>Serialize\<close> makes. A map is
  driven one key and one value at a time, so it is a list of those calls.\<close>

datatype int_kind = I8 | I16 | I32 | I64 | I128 | U8 | U16 | U32 | U64 | U128

datatype serde_value =
    SBool bool
  | SInt int_kind int
  | SF32
  | SF64
  | SChar nat
  | SStr utext
  | SBytes "u8 list"
  | SNone
  | SSome serde_value
  | SUnit
  | SUnitStruct utext
  | SUnitVariant utext u32 utext
  | SNewtypeStruct utext serde_value
  | SNewtypeVariant utext u32 utext serde_value
  | SSeq "serde_value list"
  | STuple "serde_value list"
  | STupleStruct utext "serde_value list"
  | STupleVariant utext u32 utext "serde_value list"
  | SMap "map_call list"
  | SStruct utext "(utext \<times> serde_value) list"
  | SStructVariant utext u32 utext "(utext \<times> serde_value) list"
and map_call = MKey serde_value | MValue serde_value

text \<open>The keys of maps.\<close>

definition key_str :: "(utext \<Rightarrow> bool) \<Rightarrow> utext \<Rightarrow> (canonical_error, utext) result" where
  "key_str nf value = (if nf value then Ok value else Err (NotNormalized value))"

fun serialize_key ::
  "(utext \<Rightarrow> bool) \<Rightarrow> (int_kind \<Rightarrow> utext) \<Rightarrow> serde_value \<Rightarrow> (canonical_error, utext) result" where
  "serialize_key nf unsupported (SStr value) = key_str nf value"
| "serialize_key nf unsupported (SChar c) = key_str nf [c]"
| "serialize_key nf unsupported (SUnitVariant name index variant) = key_str nf variant"
| "serialize_key nf unsupported (SNewtypeStruct name value) = serialize_key nf unsupported value"
| "serialize_key nf unsupported (SBool b) = Err (NonTextKey ''a boolean'')"
| "serialize_key nf unsupported (SInt kind n) =
     (if kind = I128 \<or> kind = U128 then Err (CMessage (unsupported kind))
      else Err (NonTextKey ''an integer''))"
| "serialize_key nf unsupported SF32 = Err CFloat"
| "serialize_key nf unsupported SF64 = Err CFloat"
| "serialize_key nf unsupported (SBytes bs) = Err RawBytes"
| "serialize_key nf unsupported SNone = Err (NonTextKey ''null'')"
| "serialize_key nf unsupported (SSome value) = Err (NonTextKey ''an optional value'')"
| "serialize_key nf unsupported SUnit = Err (NonTextKey ''null'')"
| "serialize_key nf unsupported (SUnitStruct name) = Err (NonTextKey ''null'')"
| "serialize_key nf unsupported (SNewtypeVariant name index variant value) =
     Err (NonTextKey ''an enum variant with a payload'')"
| "serialize_key nf unsupported (SSeq vs) = Err (NonTextKey ''a list'')"
| "serialize_key nf unsupported (STuple vs) = Err (NonTextKey ''a tuple'')"
| "serialize_key nf unsupported (STupleStruct name vs) = Err (NonTextKey ''a tuple struct'')"
| "serialize_key nf unsupported (STupleVariant name index variant vs) = Err (NonTextKey ''a tuple variant'')"
| "serialize_key nf unsupported (SMap calls) = Err (NonTextKey ''a map'')"
| "serialize_key nf unsupported (SStruct name fs) = Err (NonTextKey ''a struct'')"
| "serialize_key nf unsupported (SStructVariant name index variant fs) = Err (NonTextKey ''a struct variant'')"

text \<open>The state of a map under construction.\<close>

record map_serializer =
  map_entries :: "(utext, canonical_value) btree_map"
  pending_key :: "utext option"

definition map_insert ::
  "utext \<Rightarrow> canonical_value \<Rightarrow> map_serializer \<Rightarrow> (canonical_error, map_serializer) result" where
  "map_insert key value m =
     (if bt_contains (map_entries m) key then Err (CDuplicateKey key)
      else Ok (m\<lparr>map_entries := bt_insert key value (map_entries m)\<rparr>))"

definition one_entry :: "utext \<Rightarrow> canonical_value \<Rightarrow> canonical_value" where
  "one_entry variant value = CMap (bt_insert variant value [])"

fun to_canonical_value ::
      "(utext \<Rightarrow> bool) \<Rightarrow> (int_kind \<Rightarrow> utext) \<Rightarrow> serde_value \<Rightarrow> (canonical_error, canonical_value) result"
  and serialize_elements ::
      "(utext \<Rightarrow> bool) \<Rightarrow> (int_kind \<Rightarrow> utext) \<Rightarrow> serde_value list \<Rightarrow> (canonical_error, canonical_value list) result"
  and serialize_calls ::
      "(utext \<Rightarrow> bool) \<Rightarrow> (int_kind \<Rightarrow> utext) \<Rightarrow> map_call list \<Rightarrow> map_serializer
       \<Rightarrow> (canonical_error, map_serializer) result"
  and serialize_struct_fields ::
      "(utext \<Rightarrow> bool) \<Rightarrow> (int_kind \<Rightarrow> utext) \<Rightarrow> (utext \<times> serde_value) list \<Rightarrow> map_serializer
       \<Rightarrow> (canonical_error, map_serializer) result"
  and serialize_variant_fields ::
      "(utext \<Rightarrow> bool) \<Rightarrow> (int_kind \<Rightarrow> utext) \<Rightarrow> (utext \<times> serde_value) list
       \<Rightarrow> (utext, canonical_value) btree_map \<Rightarrow> (canonical_error, (utext, canonical_value) btree_map) result" where
  "to_canonical_value nf us (SBool b) = Ok (CBool b)"
| "to_canonical_value nf us (SInt kind n) =
     (if kind = U128 \<and> n > i128_max then Err (IntegerRange (lit (fmt_int n))) else Ok (CInteger n))"
| "to_canonical_value nf us SF32 = Err CFloat"
| "to_canonical_value nf us SF64 = Err CFloat"
| "to_canonical_value nf us (SChar c) = canonical_text nf [c]"
| "to_canonical_value nf us (SStr value) = canonical_text nf value"
| "to_canonical_value nf us (SBytes bs) = Err RawBytes"
| "to_canonical_value nf us SNone = Ok CNull"
| "to_canonical_value nf us (SSome value) = to_canonical_value nf us value"
| "to_canonical_value nf us SUnit = Ok CNull"
| "to_canonical_value nf us (SUnitStruct name) = Ok CNull"
| "to_canonical_value nf us (SUnitVariant name index variant) = canonical_text nf variant"
| "to_canonical_value nf us (SNewtypeStruct name value) = to_canonical_value nf us value"
| "to_canonical_value nf us (SNewtypeVariant name index variant value) =
     and_then (to_canonical_value nf us value) (\<lambda>v. Ok (one_entry variant v))"
| "to_canonical_value nf us (SSeq vs) = and_then (serialize_elements nf us vs) (\<lambda>xs. Ok (CList xs))"
| "to_canonical_value nf us (STuple vs) = and_then (serialize_elements nf us vs) (\<lambda>xs. Ok (CList xs))"
| "to_canonical_value nf us (STupleStruct name vs) = and_then (serialize_elements nf us vs) (\<lambda>xs. Ok (CList xs))"
| "to_canonical_value nf us (STupleVariant name index variant vs) =
     and_then (serialize_elements nf us vs) (\<lambda>xs. Ok (one_entry variant (CList xs)))"
| "to_canonical_value nf us (SMap calls) =
     and_then (serialize_calls nf us calls \<lparr>map_entries = [], pending_key = None\<rparr>) (\<lambda>m. Ok (CMap (map_entries m)))"
| "to_canonical_value nf us (SStruct name fs) =
     and_then (serialize_struct_fields nf us fs \<lparr>map_entries = [], pending_key = None\<rparr>)
       (\<lambda>m. Ok (CMap (map_entries m)))"
| "to_canonical_value nf us (SStructVariant name index variant fs) =
     and_then (serialize_variant_fields nf us fs []) (\<lambda>es. Ok (one_entry variant (CMap es)))"
| "serialize_elements nf us [] = Ok []"
| "serialize_elements nf us (v # vs) =
     and_then (to_canonical_value nf us v) (\<lambda>x. and_then (serialize_elements nf us vs) (\<lambda>xs. Ok (x # xs)))"
| "serialize_calls nf us [] m = Ok m"
| "serialize_calls nf us (MKey key # calls) m =
     and_then (serialize_key nf us key) (\<lambda>k. serialize_calls nf us calls (m\<lparr>pending_key := Some k\<rparr>))"
| "serialize_calls nf us (MValue value # calls) m =
     (case pending_key m of
        None \<Rightarrow> Err (CMessage (lit ''map value serialized before its key''))
      | Some key \<Rightarrow>
          and_then (to_canonical_value nf us value)
            (\<lambda>v. and_then (map_insert key v (m\<lparr>pending_key := None\<rparr>)) (\<lambda>m'. serialize_calls nf us calls m')))"
| "serialize_struct_fields nf us [] m = Ok m"
| "serialize_struct_fields nf us ((key, value) # fs) m =
     and_then (to_canonical_value nf us value)
       (\<lambda>v. and_then (map_insert key v m) (\<lambda>m'. serialize_struct_fields nf us fs m'))"
| "serialize_variant_fields nf us [] es = Ok es"
| "serialize_variant_fields nf us ((key, value) # fs) es =
     (if bt_contains es key then Err (CDuplicateKey key)
      else and_then (to_canonical_value nf us value)
             (\<lambda>v. serialize_variant_fields nf us fs (bt_insert key v es)))"

definition canonical_bytes_of ::
  "(utext \<Rightarrow> bool) \<Rightarrow> (int_kind \<Rightarrow> utext) \<Rightarrow> serde_value \<Rightarrow> (canonical_error, u8 list) result" where
  "canonical_bytes_of nf us value = and_then (to_canonical_value nf us value) (\<lambda>v. Ok (to_canonical_bytes v))"

section \<open>Reading UTF-8 back\<close>

lemma accept_char_Some [simp]: "accept_char n c = Some d \<longleftrightarrow> d = c \<and> utf8_len c = n \<and> is_scalar c"
  by (auto simp: accept_char_def)

text \<open>A character as the base-64 digits of its bytes.\<close>

lemma base64_digit: "x < 64 \<Longrightarrow> (y * 64 + x) div 64 = y" "x < 64 \<Longrightarrow> (y * 64 + x) mod (64 :: nat) = x"
  by simp_all

lemma base64_split: "c div 4096 = c div 64 div 64" "c div 262144 = c div 64 div 64 div (64 :: nat)"
  by (simp_all add: div_mult2_eq [symmetric])

lemma base64_join:
  "c div 64 * 64 + c mod 64 = (c :: nat)"
  "c div 4096 * 4096 + c div 64 mod 64 * 64 + c mod 64 = c"
  "c div 262144 * 262144 + c div 4096 mod 64 * 4096 + c div 64 mod 64 * 64 + c mod 64 = c"
proof -
  have one: "c = 64 * (c div 64) + c mod 64" by simp
  have two: "c div 64 = 64 * (c div 64 div 64) + c div 64 mod 64" by simp
  have three: "c div 64 div 64 = 64 * (c div 64 div 64 div 64) + c div 64 div 64 mod 64" by simp
  show "c div 64 * 64 + c mod 64 = c" by simp
  show "c div 4096 * 4096 + c div 64 mod 64 * 64 + c mod 64 = c"
    unfolding base64_split using one two by linarith
  show "c div 262144 * 262144 + c div 4096 mod 64 * 4096 + c div 64 mod 64 * 64 + c mod 64 = c"
    unfolding base64_split using one two three by linarith
qed

lemma continuation_digit: "is_continuation b \<longleftrightarrow> (\<exists>x < 64. b = 128 + x)"
  by (auto simp: is_continuation_def intro: exI [of _ "b - 128"])

lemma next_char_encode:
  assumes "is_scalar c"
  shows "next_char (utf8_char c @ r) = Some (c, r)"
proof -
  have c: "c < 1114112" using assms by (auto simp: is_scalar_def)
  have bounds: "c < 2048 \<Longrightarrow> c div 64 < 32" "c < 65536 \<Longrightarrow> c div 4096 < 16" "c div 262144 < 8"
    using c by simp_all
  consider "c < 128" | "128 \<le> c" "c < 2048" | "2048 \<le> c" "c < 65536" | "65536 \<le> c" by linarith
  then show ?thesis
    using assms bounds base64_join [of c]
    by cases (simp_all add: utf8_char_def is_continuation_def accept_char_def utf8_len_def)
qed

lemma utf8_two:
  assumes "192 \<le> a" "is_continuation b" "utf8_len ((a - 192) * 64 + (b - 128)) = 2"
  shows "utf8_char ((a - 192) * 64 + (b - 128)) = [a, b]"
proof -
  obtain x where b: "b = 128 + x" "x < 64" using assms(2) by (auto simp: continuation_digit)
  let ?c = "(a - 192) * 64 + x"
  have "?c div 64 = a - 192" "?c mod 64 = x" by (rule base64_digit, rule b(2))+
  then show ?thesis using assms(1,3) unfolding b(1) by (simp add: utf8_char_def utf8_len_def split: if_splits)
qed

lemma utf8_three:
  assumes "224 \<le> a" "is_continuation b" "is_continuation d"
    and "utf8_len ((a - 224) * 4096 + (b - 128) * 64 + (d - 128)) = 3"
  shows "utf8_char ((a - 224) * 4096 + (b - 128) * 64 + (d - 128)) = [a, b, d]"
proof -
  obtain x y where b: "b = 128 + x" "x < 64" and d: "d = 128 + y" "y < 64"
    using assms(2,3) by (auto simp: continuation_digit)
  define c where "c = (a - 224) * 4096 + x * 64 + y"
  have c: "c = ((a - 224) * 64 + x) * 64 + y" by (simp add: c_def algebra_simps)
  have 1: "c div 64 = (a - 224) * 64 + x" "c mod 64 = y" unfolding c by (rule base64_digit, rule d(2))+
  have 2: "c div 4096 = a - 224" "c div 64 mod 64 = x"
    unfolding base64_split 1 by (rule base64_digit, rule b(2))+
  from 1 2 show ?thesis
    using assms(1,4) unfolding b(1) d(1) by (simp add: c_def [symmetric] utf8_char_def utf8_len_def split: if_splits)
qed

lemma utf8_four:
  assumes "240 \<le> a" "is_continuation b" "is_continuation d" "is_continuation e"
    and "utf8_len ((a - 240) * 262144 + (b - 128) * 4096 + (d - 128) * 64 + (e - 128)) = 4"
  shows "utf8_char ((a - 240) * 262144 + (b - 128) * 4096 + (d - 128) * 64 + (e - 128)) = [a, b, d, e]"
proof -
  obtain x y z where b: "b = 128 + x" "x < 64" and d: "d = 128 + y" "y < 64" and e: "e = 128 + z" "z < 64"
    using assms(2-4) by (auto simp: continuation_digit)
  define c where "c = (a - 240) * 262144 + x * 4096 + y * 64 + z"
  have c: "c = (((a - 240) * 64 + x) * 64 + y) * 64 + z" by (simp add: c_def algebra_simps)
  have 1: "c div 64 = ((a - 240) * 64 + x) * 64 + y" "c mod 64 = z" unfolding c by (rule base64_digit, rule e(2))+
  have 2: "c div 4096 = (a - 240) * 64 + x" "c div 64 mod 64 = y"
    unfolding base64_split 1 by (rule base64_digit, rule d(2))+
  have 3: "c div 262144 = a - 240" "c div 4096 mod 64 = x"
    unfolding base64_split(2) 1 2 base64_digit(1) [OF d(2)] by (rule base64_digit, rule b(2))+
  from 1 2 3 show ?thesis
    using assms(1,5) unfolding b(1) d(1) e(1)
    by (simp add: c_def [symmetric] utf8_char_def utf8_len_def split: if_splits)
qed

lemma next_char_Some: "next_char bs = Some (c, r) \<Longrightarrow> is_scalar c \<and> bs = utf8_char c @ r"
  by (cases bs)
     (auto split: if_splits list.splits simp: utf8_two utf8_three utf8_four,
      auto simp: is_scalar_def utf8_char_def)

lemma utf8_char_nonempty: "utf8_char c \<noteq> []"
  by (simp add: utf8_char_def)

lemma decode_utf8_iff: "decode_utf8 bs = Some t \<longleftrightarrow> is_text t \<and> bs = concat (map utf8_char t)"
proof (induction bs arbitrary: t rule: decode_utf8.induct)
  case (1 bs)
  show ?case
  proof (cases "bs = []")
    case True
    then show ?thesis by (subst decode_utf8.simps) (cases t; simp add: is_text_def utf8_char_nonempty)
  next
    case False
    show ?thesis
    proof
      assume "decode_utf8 bs = Some t"
      with False obtain c r t' where n: "next_char bs = Some (c, r)" and d: "decode_utf8 r = Some t'" and "t = c # t'"
        by (subst (asm) decode_utf8.simps) (auto split: option.splits)
      have "is_text t' \<and> r = concat (map utf8_char t')" using "1.IH" [OF False n refl] d by blast
      with next_char_Some [OF n] \<open>t = c # t'\<close> show "is_text t \<and> bs = concat (map utf8_char t)"
        by (simp add: is_text_def)
    next
      assume r: "is_text t \<and> bs = concat (map utf8_char t)"
      with False obtain c t' where t: "t = c # t'" by (cases t) auto
      with r have n: "next_char bs = Some (c, concat (map utf8_char t'))"
        by (simp add: is_text_def next_char_encode)
      with "1.IH" [OF False n refl] r t show "decode_utf8 bs = Some t"
        by (subst decode_utf8.simps) (simp add: False is_text_def utf8_char_nonempty)
    qed
  qed
qed

lemma utf8_char_bytes: "is_scalar c \<Longrightarrow> b \<in> set (utf8_char c) \<Longrightarrow> b < 256"
  by (auto simp: utf8_char_def is_scalar_def split: if_splits)

theorem from_utf8_iff: "from_utf8 bs = Some t \<longleftrightarrow> is_text t \<and> bs = into_bytes t"
proof -
  have "map unat bs = concat (map utf8_char t) \<longleftrightarrow> bs = into_bytes t" if "is_text t"
  proof -
    have "\<forall>b \<in> set (concat (map utf8_char t)). b < 256"
      using that utf8_char_bytes by (auto simp: is_text_def list_all_iff)
    then have "map unat (map of_nat (concat (map utf8_char t)) :: u8 list) = concat (map utf8_char t)"
      unfolding map_map by (intro map_idI) (simp only: o_apply unat_of_nat, simp del: set_concat)
    then show ?thesis unfolding into_bytes_def by (metis inj_map_eq_map inj_unsigned)
  qed
  then show ?thesis by (auto simp: from_utf8_def decode_utf8_iff)
qed

interpretation utf8: one_spelling into_bytes from_utf8 is_text
  by unfold_locales (rule from_utf8_iff)

end
