(* ===== verification/Json_Reader.thy ===== *)
theory Json_Reader
  imports Canonical
begin

text \<open>
  The reader of canonical documents (\<open>crates/ir/src/reader.rs\<close>). A \<open>Reader\<close> is its text and a byte
  offset into it; here it is the text from that offset on, and the offset, which the errors carry.
  The nesting depth is passed down instead of being counted up and down again, and the bound
  \<open>MAX_DEPTH\<close> is an argument \<open>bound\<close> of the recursive readers, so that their lemmas hold for every
  bound; \<open>from_json_slice\<close> calls them with 128. All readers are total functions: each consumes a
  part of the text or fails.
\<close>

definition MAX_DEPTH :: nat where
  "MAX_DEPTH = 128"

record reader =
  unread :: utext
  read_offset :: nat

definition reader_at :: "utext \<Rightarrow> nat \<Rightarrow> reader" where
  "reader_at t off = \<lparr>unread = t, read_offset = off\<rparr>"

definition syntax_error :: "reader \<Rightarrow> utext \<Rightarrow> canonical_error" where
  "syntax_error r reason = Syntax (read_offset r) reason"

definition peek :: "reader \<Rightarrow> nat option" where
  "peek r = first (unread r)"

definition bump :: "nat \<Rightarrow> reader \<Rightarrow> reader" where
  "bump c r = reader_at (tl (unread r)) (read_offset r + utf8_len c)"

text \<open>A loop that bumps while the next character satisfies \<open>p\<close>.\<close>

fun bump_while :: "(nat \<Rightarrow> bool) \<Rightarrow> utext \<Rightarrow> nat \<Rightarrow> reader" where
  "bump_while p [] off = reader_at [] off"
| "bump_while p (c # t) off = (if p c then bump_while p t (off + utf8_len c) else reader_at (c # t) off)"

definition is_json_space :: "nat \<Rightarrow> bool" where
  "is_json_space c = (c = 32 \<or> c = 9 \<or> c = 10 \<or> c = 13)"

definition skip_whitespace :: "reader \<Rightarrow> reader" where
  "skip_whitespace r = bump_while is_json_space (unread r) (read_offset r)"

definition expect :: "nat \<Rightarrow> reader \<Rightarrow> (canonical_error, reader) result" where
  "expect e r =
     (if peek r = Some e then Ok (bump e r)
      else Err (syntax_error r (lit ''expected `'' @ [e] @ lit ''`'')))"

definition read_literal ::
  "utext \<Rightarrow> canonical_value \<Rightarrow> reader \<Rightarrow> (canonical_error, canonical_value \<times> reader) result" where
  "read_literal l v r =
     (if starts_with (unread r) l
      then Ok (v, reader_at (drop (length l) (unread r)) (read_offset r + byte_len l))
      else Err (syntax_error r (lit ''expected `'' @ l @ lit ''`'')))"

definition read_number :: "reader \<Rightarrow> (canonical_error, canonical_value \<times> reader) result" where
  "read_number r =
     (let negative = (peek r = Some 45);
          r1 = (if negative then bump 45 r else r);
          r2 = bump_while is_digit (unread r1) (read_offset r1);
          integral = takeWhile is_digit (unread r1)
      in
        if integral = [] then Err (syntax_error r2 (lit ''expected a digit''))
        else if byte_len integral > 1 \<and> starts_with integral [48]
        then Err (syntax_error r2 (lit ''integers must not carry leading zeros''))
        else if peek r2 \<in> {Some 46, Some 101, Some 69} then Err CFloat
        else
          (let magnitude = int (digits_value (ascii integral)) in
           case i128_checked (if negative then - magnitude else magnitude) of
             Some n \<Rightarrow> Ok (CInteger n, r2)
           | None \<Rightarrow> Err (IntegerRange ((if negative then [45] else []) @ integral))))"

section \<open>Text\<close>

text \<open>\<open>u32::from_str_radix(_, 16)\<close>: an optional plus sign, then at least one digit. Four bytes
  never overflow.\<close>

definition hex_digit :: "nat \<Rightarrow> nat option" where
  "hex_digit c =
     (if 48 \<le> c \<and> c \<le> 57 then Some (c - 48)
      else if 97 \<le> c \<and> c \<le> 102 then Some (c - 87)
      else if 65 \<le> c \<and> c \<le> 70 then Some (c - 55)
      else None)"

fun hex_digits :: "nat \<Rightarrow> utext \<Rightarrow> nat option" where
  "hex_digits v [] = Some v"
| "hex_digits v (c # t) = (case hex_digit c of None \<Rightarrow> None | Some n \<Rightarrow> hex_digits (16 * v + n) t)"

definition from_str_radix_16 :: "utext \<Rightarrow> nat option" where
  "from_str_radix_16 t =
     (if t = [] \<or> t = [43] \<or> t = [45] then None
      else hex_digits 0 (case strip_prefix [43] t of Some rest \<Rightarrow> rest | None \<Rightarrow> t))"

definition read_code_unit :: "reader \<Rightarrow> (canonical_error, nat \<times> reader) result" where
  "read_code_unit r =
     (case (take_bytes (unread r) 4, skip_bytes (unread r) 4) of
        (Some digits, Some after) \<Rightarrow>
          (case from_str_radix_16 digits of
             None \<Rightarrow> Err (syntax_error r (lit ''invalid escape digits''))
           | Some v \<Rightarrow> Ok (v, reader_at after (read_offset r + 4)))
      | _ \<Rightarrow> Err (syntax_error r (lit ''truncated escape'')))"

definition char_from_u32 :: "nat \<Rightarrow> nat option" where
  "char_from_u32 n = (if is_scalar n then Some n else None)"

definition read_unicode_escape :: "reader \<Rightarrow> (canonical_error, nat \<times> reader) result" where
  "read_unicode_escape r =
     (case read_code_unit r of
        Inl e \<Rightarrow> Inl e
      | Inr (first_unit, r1) \<Rightarrow>
          if 55296 \<le> first_unit \<and> first_unit < 56320 then
            (if \<not> starts_with (unread r1) [92, 117] then Err (syntax_error r1 (lit ''expected a low surrogate''))
             else
               (case read_code_unit (reader_at (drop 2 (unread r1)) (read_offset r1 + 2)) of
                  Inl e \<Rightarrow> Inl e
                | Inr (second_unit, r2) \<Rightarrow>
                    if \<not> (56320 \<le> second_unit \<and> second_unit < 57344)
                    then Err (syntax_error r2 (lit ''expected a low surrogate''))
                    else
                      (case char_from_u32 (65536 + push_bit 10 (first_unit - 55296) + (second_unit - 56320)) of
                         None \<Rightarrow> Err (syntax_error r2 (lit ''invalid surrogate pair''))
                       | Some c \<Rightarrow> Ok (c, r2))))
          else
            (case char_from_u32 first_unit of
               None \<Rightarrow> Err (syntax_error r1 (lit ''invalid escape''))
             | Some c \<Rightarrow> Ok (c, r1)))"

definition simple_escape :: "nat \<Rightarrow> nat option" where
  "simple_escape c =
     (if c = 34 then Some 34
      else if c = 92 then Some 92
      else if c = 47 then Some 47
      else if c = 98 then Some 8
      else if c = 102 then Some 12
      else if c = 110 then Some 10
      else if c = 114 then Some 13
      else if c = 116 then Some 9
      else None)"

definition read_escape :: "reader \<Rightarrow> (canonical_error, nat \<times> reader) result" where
  "read_escape r =
     (case peek r of
        None \<Rightarrow> Err (syntax_error r (lit ''unterminated escape''))
      | Some escaped \<Rightarrow>
          (let r1 = bump escaped r in
           case simple_escape escaped of
             Some c \<Rightarrow> Ok (c, r1)
           | None \<Rightarrow>
               if escaped = 117 then read_unicode_escape r1
               else Err (syntax_error r1 (lit ''unknown escape `'' @ [92, escaped] @ lit ''`''))))"

text \<open>Every reader leaves less text than it found.\<close>

named_theorems consumes \<open>readers leave less text than they found\<close>

lemma unread_reader_at [simp]: "unread (reader_at t off) = t" "read_offset (reader_at t off) = off"
  by (simp_all add: reader_at_def)

lemma length_bump [simp]: "length (unread (bump c r)) = length (unread r) - 1"
  by (simp add: bump_def)

lemma peek_Some: "peek r = Some c \<longleftrightarrow> (\<exists>t. unread r = c # t)"
  by (cases "unread r") (auto simp: peek_def)

lemma unread_bump_while [simp]: "unread (bump_while p t off) = dropWhile p t"
  by (induction t arbitrary: off) auto

lemma length_skip_whitespace: "length (unread (skip_whitespace r)) \<le> length (unread r)"
  by (simp add: skip_whitespace_def length_dropWhile_le)

lemma skip_bytes_consumes: "skip_bytes t n = Some r \<Longrightarrow> length r \<le> length t"
  by (auto simp: skip_bytes_Some)

lemma read_code_unit_consumes: "read_code_unit r = Inr (c, r') \<Longrightarrow> length (unread r') \<le> length (unread r)"
  by (auto simp: read_code_unit_def split: option.splits dest: skip_bytes_consumes)

lemma read_unicode_escape_consumes:
  "read_unicode_escape r = Inr (c, r') \<Longrightarrow> length (unread r') \<le> length (unread r)"
  by (fastforce simp: read_unicode_escape_def split: sum.splits if_splits option.splits
      dest: read_code_unit_consumes)

lemma read_escape_consumes [consumes]: "read_escape r = Inr (c, r') \<Longrightarrow> length (unread r') < length (unread r)"
  by (fastforce simp: read_escape_def Let_def peek_Some split: option.splits if_splits
      dest: read_unicode_escape_consumes)

text \<open>The loop of \<open>read_string\<close>, after the opening quote, with the text read so far.\<close>

function read_chars :: "utext \<Rightarrow> reader \<Rightarrow> (canonical_error, utext \<times> reader) result" where
  "read_chars value r =
     (case unread r of
        [] \<Rightarrow> Err (syntax_error r (lit ''unterminated text''))
      | c # t \<Rightarrow>
          (let r1 = bump c r in
           if c = 34 then Ok (value, r1)
           else if c = 92 then
             (case read_escape r1 of
                Inl e \<Rightarrow> Inl e
              | Inr (d, r2) \<Rightarrow> read_chars (value @ [d]) r2)
           else if c < 32 then Err (syntax_error r1 (lit ''control characters must be escaped''))
           else read_chars (value @ [c]) r1))"
  by pat_completeness auto
termination
  by (relation "measure (\<lambda>(value, r). length (unread r))")
     (auto dest!: read_escape_consumes simp: bump_def)

declare read_chars.simps [simp del]

definition read_string :: "(utext \<Rightarrow> bool) \<Rightarrow> reader \<Rightarrow> (canonical_error, utext \<times> reader) result" where
  "read_string nf r =
     (case expect 34 r of
        Inl e \<Rightarrow> Inl e
      | Inr r1 \<Rightarrow>
          (case read_chars [] r1 of
             Inl e \<Rightarrow> Inl e
           | Inr (value, r2) \<Rightarrow> if nf value then Ok (value, r2) else Err (NotNormalized value)))"

lemma read_chars_consumes: "read_chars acc r = Inr (t, r') \<Longrightarrow> length (unread r') < length (unread r)"
proof (induction acc r rule: read_chars.induct)
  case (1 acc r)
  obtain c u where u: "unread r = c # u"
    using "1.prems" by (subst (asm) read_chars.simps) (auto split: list.splits)
  let ?r1 = "bump c r"
  have less: "length (unread ?r1) < length (unread r)" by (simp add: u)
  note step = "1.prems" [unfolded read_chars.simps [of acc r] u list.case Let_def]
  consider "c = 34" | "c = 92" | "c \<noteq> 34" "c \<noteq> 92" "\<not> c < 32"
    using step by (fastforce split: if_splits)
  then show ?case
  proof cases
    case 1
    then show ?thesis using step less by simp
  next
    case 2
    then obtain d r2 where d: "read_escape ?r1 = Inr (d, r2)" and rec: "read_chars (acc @ [d]) r2 = Inr (t, r')"
      using step by (auto split: sum.splits)
    have "length (unread r') < length (unread r2)" using "1.IH"(1) [OF u refl _ 2 d refl rec] 2 by simp
    then show ?thesis using read_escape_consumes [OF d] less by simp
  next
    case 3
    then have "length (unread r') < length (unread ?r1)" using "1.IH"(2) [OF u refl 3] step by simp
    then show ?thesis using less by simp
  qed
qed

lemma read_string_consumes [consumes]:
  "read_string nf r = Inr (t, r') \<Longrightarrow> length (unread r') < length (unread r)"
  by (fastforce simp: read_string_def expect_def peek_Some split: sum.splits if_splits dest: read_chars_consumes)

lemma read_literal_consumes [consumes]:
  "read_literal l v r = Inr (w, r') \<Longrightarrow> l \<noteq> [] \<Longrightarrow> length (unread r') < length (unread r)"
  by (auto simp: read_literal_def starts_with_iff split: if_splits)

lemma read_number_consumes [consumes]:
  assumes "read_number r = Inr (v, r')"
  shows "length (unread r') < length (unread r)"
proof -
  define r1 where "r1 = (if peek r = Some 45 then bump 45 r else r)"
  have "length (unread r1) \<le> length (unread r)" by (simp add: r1_def)
  moreover have "takeWhile is_digit (unread r1) \<noteq> []" "unread r' = dropWhile is_digit (unread r1)"
    using assms unfolding read_number_def Let_def r1_def by (auto split: if_splits option.splits)
  moreover have "length (takeWhile is_digit (unread r1)) + length (dropWhile is_digit (unread r1)) = length (unread r1)"
    by (metis length_append takeWhile_dropWhile_id)
  ultimately show ?thesis by (metis add_less_cancel_left add.right_neutral add.commute length_greater_0_conv
        less_le_trans)
qed

section \<open>Values\<close>

text \<open>\<open>list_items\<close> and \<open>map_items\<close> are the loops of \<open>read_list\<close> and \<open>read_map\<close>, entered with the
  values or entries read so far; \<open>d\<close> is the depth inside the collection there.\<close>

definition unexpected :: "reader \<Rightarrow> nat \<Rightarrow> (canonical_error, 'a) result" where
  "unexpected r c = Err (syntax_error r (lit ''unexpected `'' @ [c] @ lit ''`''))"

function (sequential, domintros)
      read_value :: "nat \<Rightarrow> (utext \<Rightarrow> bool) \<Rightarrow> nat \<Rightarrow> reader \<Rightarrow> (canonical_error, canonical_value \<times> reader) result"
  and list_items ::
      "nat \<Rightarrow> (utext \<Rightarrow> bool) \<Rightarrow> nat \<Rightarrow> canonical_value list \<Rightarrow> reader
       \<Rightarrow> (canonical_error, canonical_value \<times> reader) result"
  and map_items ::
      "nat \<Rightarrow> (utext \<Rightarrow> bool) \<Rightarrow> nat \<Rightarrow> (utext, canonical_value) btree_map \<Rightarrow> reader
       \<Rightarrow> (canonical_error, canonical_value \<times> reader) result" where
  "read_value bound nf d r =
     (if bound \<le> d then Err (syntax_error r (lit ''nesting is deeper than the reader accepts''))
      else case unread r of
        [] \<Rightarrow> Err (syntax_error r (lit ''unexpected end of input''))
      | c # t \<Rightarrow>
          if c = 110 then read_literal (lit ''null'') CNull r
          else if c = 116 then read_literal (lit ''true'') (CBool True) r
          else if c = 102 then read_literal (lit ''false'') (CBool False) r
          else if c = 34 then
            (case read_string nf r of Inl e \<Rightarrow> Inl e | Inr (s, r1) \<Rightarrow> Ok (CText s, r1))
          else if c = 91 then
            (let r1 = skip_whitespace (bump 91 r) in
             if peek r1 = Some 93 then Ok (CList [], bump 93 r1) else list_items bound nf (Suc d) [] r1)
          else if c = 123 then
            (let r1 = skip_whitespace (bump 123 r) in
             if peek r1 = Some 125 then Ok (CMap [], bump 125 r1) else map_items bound nf (Suc d) [] r1)
          else if c = 45 \<or> is_digit c then read_number r
          else unexpected r c)"
| "list_items bound nf d vs r =
     (case read_value bound nf d (skip_whitespace r) of
        Inl e \<Rightarrow> Inl e
      | Inr (v, r1) \<Rightarrow>
          (let r2 = skip_whitespace r1 in
           if peek r2 = Some 44 then list_items bound nf d (vs @ [v]) (bump 44 r2)
           else if peek r2 = Some 93 then Ok (CList (vs @ [v]), bump 93 r2)
           else Err (syntax_error r2 (lit ''expected `,` or `]`''))))"
| "map_items bound nf d es r =
     (case read_string nf (skip_whitespace r) of
        Inl e \<Rightarrow> Inl e
      | Inr (key, r1) \<Rightarrow>
          if bt_contains es key then Err (CDuplicateKey key)
          else
            (case expect 58 (skip_whitespace r1) of
               Inl e \<Rightarrow> Inl e
             | Inr r2 \<Rightarrow>
                 (case read_value bound nf d (skip_whitespace r2) of
                    Inl e \<Rightarrow> Inl e
                  | Inr (v, r3) \<Rightarrow>
                      (let es' = bt_insert key v es; r4 = skip_whitespace r3 in
                       if peek r4 = Some 44 then map_items bound nf d es' (bump 44 r4)
                       else if peek r4 = Some 125 then Ok (CMap es', bump 125 r4)
                       else Err (syntax_error r4 (lit ''expected `,` or `}`''))))))"
  by pat_completeness auto

lemma expect_consumes [consumes]: "expect c r = Inr r' \<Longrightarrow> length (unread r') < length (unread r)"
  by (auto simp: expect_def peek_Some split: if_splits)

abbreviation "read_dom \<equiv> read_value_list_items_map_items_dom"

lemma readers_consume:
  "read_dom (Inl (bound, nf, d, r)) \<Longrightarrow> read_value bound nf d r = Inr (v, r') \<Longrightarrow> length (unread r') < length (unread r)"
  "read_dom (Inr (Inl (bound, nf, d, vs, r))) \<Longrightarrow> list_items bound nf d vs r = Inr (v, r') \<Longrightarrow>
     length (unread r') < length (unread r)"
  "read_dom (Inr (Inr (bound, nf, d, es, r))) \<Longrightarrow> map_items bound nf d es r = Inr (v, r') \<Longrightarrow>
     length (unread r') < length (unread r)"
proof (induction bound nf d r and bound nf d vs r and bound nf d es r arbitrary: v r' and v r' and v r'
    rule: read_value_list_items_map_items.pinduct)
  case (1 bound nf d r)
  note step = "1.prems" [unfolded read_value.psimps [OF "1.hyps"] Let_def]
  obtain c u where u: "unread r = c # u" and d: "\<not> bound \<le> d"
    using step by (auto split: list.splits if_splits)
  have less: "length (unread (skip_whitespace (bump x r))) < length (unread r)" for x
    using length_skip_whitespace [of "bump x r"] by (simp add: u)
  have bumped: "length (unread (bump y (skip_whitespace (bump x r)))) < length (unread r)" for x y
    using less [of x] by simp
  consider "c = 91" | "c = 123" | "c \<noteq> 91" "c \<noteq> 123" by blast
  then show ?case
  proof cases
    case 1
    show ?thesis
    proof (cases "peek (skip_whitespace (bump 91 r)) = Some 93")
      case True
      then show ?thesis using step bumped d by (auto simp: 1 u)
    next
      case False
      then have "length (unread r') < length (unread (skip_whitespace (bump 91 r)))"
        using "1.IH"(1) [OF d u _ _ _ _ 1 refl False] step d by (simp add: 1 u)
      then show ?thesis using less by (rule less_trans)
    qed
  next
    case 2
    show ?thesis
    proof (cases "peek (skip_whitespace (bump 123 r)) = Some 125")
      case True
      then show ?thesis using step bumped d by (auto simp: 2 u)
    next
      case False
      then have "length (unread r') < length (unread (skip_whitespace (bump 123 r)))"
        using "1.IH"(2) [OF d u _ _ _ _ _ 2 refl False] step d by (simp add: 2 u)
      then show ?thesis using less by (rule less_trans)
    qed
  next
    case 3
    then show ?thesis
      using step [unfolded u list.case] d
      by (auto simp: unexpected_def lit_def split: if_splits sum.splits dest: consumes)
  qed
next
  case (2 bound nf d vs r)
  note step = "2.prems" [unfolded list_items.psimps [OF "2.hyps"] Let_def]
  obtain v1 r1 where r1: "read_value bound nf d (skip_whitespace r) = Inr (v1, r1)"
    using step by (auto split: sum.splits)
  have "length (unread r1) < length (unread r)"
    using "2.IH"(1) [OF r1] length_skip_whitespace [of r] by simp
  then have less: "length (unread (skip_whitespace r1)) < length (unread r)"
    using length_skip_whitespace [of r1] by simp
  show ?case
    using step less "2.IH"(2) [OF r1 refl refl] by (fastforce simp: r1 split: if_splits)
next
  case (3 bound nf d es r)
  note step = "3.prems" [unfolded map_items.psimps [OF "3.hyps"] Let_def]
  obtain key r1 where r1: "read_string nf (skip_whitespace r) = Inr (key, r1)" and fresh: "\<not> bt_contains es key"
    using step by (auto split: sum.splits if_splits)
  obtain r2 where r2: "expect 58 (skip_whitespace r1) = Inr r2"
    using step fresh by (auto simp: r1 split: sum.splits)
  obtain w r3 where r3: "read_value bound nf d (skip_whitespace r2) = Inr (w, r3)"
    using step fresh by (auto simp: r1 r2 split: sum.splits)
  have "length (unread r3) < length (unread r)"
    using read_string_consumes [OF r1] expect_consumes [OF r2] "3.IH"(1) [OF r1 refl fresh r2 r3]
      length_skip_whitespace [of r] length_skip_whitespace [of r1] length_skip_whitespace [of r2] by linarith
  then have less: "length (unread (skip_whitespace r3)) < length (unread r)"
    using length_skip_whitespace [of r3] by simp
  show ?case
    using step less fresh "3.IH"(2) [OF r1 refl fresh r2 r3 refl refl refl]
    by (fastforce simp: r1 r2 r3 split: if_splits)
qed

termination read_value
proof (relation "measure (\<lambda>x. case x of
      Inl (bound, nf, d, r) \<Rightarrow> 2 * length (unread r)
    | Inr (Inl (bound, nf, d, vs, r)) \<Rightarrow> 2 * length (unread r) + 1
    | Inr (Inr (bound, nf, d, es, r)) \<Rightarrow> 2 * length (unread r) + 1)", goal_cases)
  case (2 bound nf d r c t r1)
  then show ?case using length_skip_whitespace [of "bump 91 r"] by simp
next
  case (3 bound nf d r c t r1)
  then show ?case using length_skip_whitespace [of "bump 123 r"] by simp
next
  case (4 bound nf d vs r)
  then show ?case using length_skip_whitespace [of r] by simp
next
  case (5 bound nf d vs r p v r1 r2)
  then show ?case
    using readers_consume(1) [of bound nf d "skip_whitespace r" v r1]
      length_skip_whitespace [of r] length_skip_whitespace [of r1] by simp
next
  case (6 bound nf d es r p key r1 r2)
  then show ?case
    using read_string_consumes [of nf "skip_whitespace r" key r1] expect_consumes [of 58 "skip_whitespace r1" r2]
      length_skip_whitespace [of r] length_skip_whitespace [of r1] length_skip_whitespace [of r2] by simp
next
  case (7 bound nf d es r p key r1 r2 q w r3 es' r4)
  then show ?case
    using read_string_consumes [of nf "skip_whitespace r" key r1] expect_consumes [of 58 "skip_whitespace r1" r2]
      readers_consume(1) [of bound nf d "skip_whitespace r2" w r3]
      length_skip_whitespace [of r] length_skip_whitespace [of r1] length_skip_whitespace [of r2]
      length_skip_whitespace [of r3] by simp
qed simp

declare read_value.simps [simp del] list_items.simps [simp del] map_items.simps [simp del]

section \<open>Documents\<close>

definition from_json_slice ::
  "(utext \<Rightarrow> bool) \<Rightarrow> u8 list \<Rightarrow> (canonical_error, canonical_value) result" where
  "from_json_slice nf bytes =
     (case from_utf8 bytes of
        None \<Rightarrow> Err NotUtf8
      | Some t \<Rightarrow>
          (case read_value MAX_DEPTH nf 0 (skip_whitespace (reader_at t 0)) of
             Inl e \<Rightarrow> Inl e
           | Inr (v, r) \<Rightarrow>
               (let r1 = skip_whitespace r in
                if unread r1 \<noteq> [] then Err (syntax_error r1 (lit ''unexpected trailing content'')) else Ok v)))"

definition verify_canonical ::
  "(utext \<Rightarrow> bool) \<Rightarrow> u8 list \<Rightarrow> (canonical_error, canonical_value) result" where
  "verify_canonical nf bytes =
     (case from_json_slice nf bytes of
        Inl e \<Rightarrow> Inl e
      | Inr v \<Rightarrow> if to_canonical_bytes v = bytes then Ok v else Err NotCanonical)"

end
