(* ===== verification/Canonical_Facts.thy ===== *)
theory Canonical_Facts
  imports Json_Reader
begin

text \<open>
  What the encoder and the reader promise each other: a value is read back from the bytes it was
  written to, two values never share bytes, and \<open>verify_canonical\<close> accepts exactly the bytes of
  values the reader can hold.
\<close>

section \<open>The values of the data model\<close>

text \<open>What the Rust types guarantee: integers of \<open>i128\<close>, text of scalar values, maps in key order.\<close>

fun canonical_typed :: "canonical_value \<Rightarrow> bool" where
  "canonical_typed CNull = True"
| "canonical_typed (CBool b) = True"
| "canonical_typed (CInteger n) = (i128_min \<le> n \<and> n \<le> i128_max)"
| "canonical_typed (CText t) = is_text t"
| "canonical_typed (CList vs) = list_all canonical_typed vs"
| "canonical_typed (CMap es) = (bt_wf es \<and> list_all (\<lambda>e. is_text (fst e) \<and> canonical_typed (snd e)) es)"

text \<open>Every text of the value is normalised.\<close>

fun normalized :: "(utext \<Rightarrow> bool) \<Rightarrow> canonical_value \<Rightarrow> bool" where
  "normalized nf CNull = True"
| "normalized nf (CBool b) = True"
| "normalized nf (CInteger n) = True"
| "normalized nf (CText t) = nf t"
| "normalized nf (CList vs) = list_all (normalized nf) vs"
| "normalized nf (CMap es) = list_all (\<lambda>e. nf (fst e) \<and> normalized nf (snd e)) es"

text \<open>The number of values on the longest path from the root.\<close>

fun nesting :: "canonical_value \<Rightarrow> nat" where
  "nesting (CList vs) = Suc (foldr max (map nesting vs) 0)"
| "nesting (CMap es) = Suc (foldr max (map (\<lambda>e. nesting (snd e)) es) 0)"
| "nesting v = 1"

lemma foldr_max_upper: "x \<in> set xs \<Longrightarrow> x \<le> foldr max xs (0 :: nat)"
  by (induction xs) auto

lemma foldr_max_le: "foldr max xs 0 \<le> n \<longleftrightarrow> (\<forall>x \<in> set xs. x \<le> (n :: nat))"
  by (induction xs) auto

section \<open>Reading what was written\<close>

lemma bump_while_at: "bump_while p t off = reader_at (dropWhile p t) (off + byte_len (takeWhile p t))"
  by (induction t arbitrary: off) auto

lemma reader_at_simps [simp]:
  "bump c (reader_at (c # t) off) = reader_at t (off + utf8_len c)"
  "peek (reader_at t off) = first t"
  by (simp_all add: bump_def peek_def)

lemma skip_whitespace_at [simp]:
  "\<not> is_json_space c \<Longrightarrow> skip_whitespace (reader_at (c # t) off) = reader_at (c # t) off"
  "skip_whitespace (reader_at [] off) = reader_at [] off"
  by (simp_all add: skip_whitespace_def)

lemma expect_at [simp]: "expect c (reader_at (c # t) off) = Ok (reader_at t (off + utf8_len c))"
  by (simp add: expect_def)

subsection \<open>Text\<close>

lemma hex_digit_char: "n < 16 \<Longrightarrow> hex_digit (hex_char n) = Some n"
  by (auto simp: hex_digit_def hex_char_def)

lemma hex_char_ascii: "n < 16 \<Longrightarrow> utf8_len (hex_char n) = 1"
  by (simp add: utf8_len_def hex_char_def)

lemma hex_char_not_sign: "hex_char n \<noteq> 43"
  by (simp add: hex_char_def)

lemma read_code_unit_hex:
  assumes "a < 16" "b < 16" "c < 16" "d < 16"
  shows "read_code_unit (reader_at (map hex_char [a, b, c, d] @ t) off) =
         Ok (((a * 16 + b) * 16 + c) * 16 + d, reader_at t (off + 4))"
proof -
  let ?h = "map hex_char [a, b, c, d]"
  have len: "byte_len ?h = 4" using assms by (simp add: hex_char_ascii)
  have "take_bytes (?h @ t) 4 = Some ?h" using take_bytes_append [of ?h t] unfolding len .
  moreover have "skip_bytes (?h @ t) 4 = Some t" unfolding skip_bytes_Some using len by blast
  moreover have "strip_prefix [43] ?h = None"
    using hex_char_not_sign [of a] by (simp add: strip_prefix_def)
  ultimately show ?thesis
    using assms unfolding read_code_unit_def unread_reader_at
    by (simp add: from_str_radix_16_def hex_digit_char algebra_simps)
qed

lemma read_control_escape:
  assumes "c < 32"
  shows "read_escape (reader_at (117 # map (\<lambda>shift. hex_char (drop_bit shift c mod 16)) [12, 8, 4, 0] @ t) off) =
         Ok (c, reader_at t (off + 5))"
proof -
  have digits: "drop_bit 12 c mod 16 = 0" "drop_bit 8 c mod 16 = 0" "drop_bit 4 c mod 16 = c div 16"
    "drop_bit 0 c mod 16 = c mod 16"
    using assms by (simp_all add: drop_bit_eq_div)
  have "read_code_unit (reader_at (map hex_char [0, 0, c div 16, c mod 16] @ t) (off + 1)) = Ok (c, reader_at t (off + 5))"
    using assms read_code_unit_hex [of 0 0 "c div 16" "c mod 16" t "off + 1"] by simp
  moreover have "is_scalar c" using assms by (simp add: is_scalar_def)
  ultimately show ?thesis
    using assms
    by (simp add: read_escape_def simple_escape_def digits read_unicode_escape_def char_from_u32_def
        utf8_len_def del: map_append)
qed

lemma read_chars_plain:
  "c \<noteq> 34 \<Longrightarrow> c \<noteq> 92 \<Longrightarrow> \<not> c < 32 \<Longrightarrow>
   read_chars acc (reader_at (c # t) off) = read_chars (acc @ [c]) (reader_at t (off + utf8_len c))"
  by (subst read_chars.simps) simp

lemma read_chars_escaped:
  "read_escape (reader_at t (off + 1)) = Ok (c, r) \<Longrightarrow>
   read_chars acc (reader_at (92 # t) off) = read_chars (acc @ [c]) r"
  by (subst read_chars.simps) (simp add: utf8_len_def)

lemma read_simple_escape:
  "simple_escape e = Some c \<Longrightarrow> read_escape (reader_at (e # t) off) = Ok (c, reader_at t (off + utf8_len e))"
  by (simp add: read_escape_def)

lemma read_chars_write_char:
  "read_chars acc (reader_at (write_char c @ t) off) =
   read_chars (acc @ [c]) (reader_at t (off + byte_len (write_char c)))"
proof -
  have simple: "\<exists>e. write_char c = [92, e] \<and> simple_escape e = Some c \<and> utf8_len e = 1"
    if "c \<in> {34, 92, 8, 12, 10, 13, 9}"
    using that by (auto simp: write_char_def simple_escape_def utf8_len_def)
  have other: "if c < 32 then write_char c = 92 # 117 # map (\<lambda>shift. hex_char (drop_bit shift c mod 16)) [12, 8, 4, 0]
      else write_char c = [c] \<and> c \<noteq> 34 \<and> c \<noteq> 92" if "c \<notin> {34, 92, 8, 12, 10, 13, 9}"
    using that by (simp add: write_char_def)
  show ?thesis
  proof (cases "c \<in> {34, 92, 8, 12, 10, 13, 9}")
    case True
    from simple [OF this] obtain e where "write_char c = [92, e]" "simple_escape e = Some c" "utf8_len e = 1"
      by blast
    then show ?thesis
      using read_chars_escaped [OF read_simple_escape [of e c t "off + 1"], of acc]
      by (simp add: utf8_len_def)
  next
    case False
    note other = other [OF this]
    show ?thesis
    proof (cases "c < 32")
      case True
      then have w: "write_char c = 92 # 117 # map (\<lambda>shift. hex_char (drop_bit shift c mod 16)) [12, 8, 4, 0]"
        using other by simp
      have "byte_len (write_char c) = 6" unfolding w by (simp add: hex_char_ascii) (simp add: utf8_len_def)
      then show ?thesis
        using read_chars_escaped [OF read_control_escape [OF True, of t "off + 1"], of acc]
        by (simp add: w add.assoc add.commute [of 6])
    next
      case False
      then show ?thesis using other read_chars_plain by simp
    qed
  qed
qed

lemma read_chars_write:
  "read_chars acc (reader_at (concat (map write_char t) @ 34 # rest) off) =
   Ok (acc @ t, reader_at rest (off + byte_len (concat (map write_char t)) + 1))"
proof (induction t arbitrary: acc off)
  case Nil
  then show ?case by (subst read_chars.simps) (simp add: utf8_len_def)
next
  case (Cons c t)
  then show ?case by (simp add: read_chars_write_char add.assoc)
qed

lemma read_string_write:
  assumes "nf t"
  shows "read_string nf (reader_at (write_text t @ rest) off) = Ok (t, reader_at rest (off + byte_len (write_text t)))"
  using assms by (simp add: read_string_def write_text_def read_chars_write utf8_len_def)

subsection \<open>Numbers\<close>

text \<open>What may follow a value inside a document, or its end.\<close>

definition ends_before :: "utext \<Rightarrow> bool" where
  "ends_before t = (case t of [] \<Rightarrow> True | c # u \<Rightarrow> c \<in> {44, 93, 125})"

lemma ascii_lit [simp]: "ascii (lit s) = s"
  by (simp add: ascii_def lit_def comp_def)

lemma lit_append [simp]: "lit (s @ t) = lit s @ lit t" "lit [] = []" "lit (c # s) = of_char c # lit s"
  by (simp_all add: lit_def)

lemma lit_digits: "list_all is_digit (lit (fmt_nat n))"
  using fmt_nat_all_digits [of n]
  by (simp add: lit_def list_all_iff is_digit_def is_ascii_digit_def Let_def)

lemma byte_len_digits: "list_all is_digit t \<Longrightarrow> byte_len t = length t"
  by (induction t) (auto simp: is_digit_def utf8_len_def)

lemma lit_no_leading_zero: "\<not> (length (fmt_nat n) > 1 \<and> starts_with (lit (fmt_nat n)) [48])"
proof -
  have "starts_with (lit s) [48] \<Longrightarrow> first s = Some CHR ''0''" for s
    by (cases s) (auto simp: of_char_eq_iff [of _ "CHR ''0''", simplified])
  then show ?thesis using fmt_nat_no_leading_zero by blast
qed

lemma read_number_write:
  assumes "i128_min \<le> n" "n \<le> i128_max" "ends_before rest"
  shows "read_number (reader_at (lit (fmt_int n) @ rest) off) =
         Ok (CInteger n, reader_at rest (off + byte_len (lit (fmt_int n))))"
proof -
  define ds where "ds = lit (fmt_nat (nat \<bar>n\<bar>))"
  have nonempty: "ds \<noteq> []" using fmt_nat_nonempty by (simp add: ds_def lit_def)
  have digits: "list_all is_digit ds" by (simp add: ds_def lit_digits)
  have rest: "takeWhile is_digit (ds @ rest) = ds" "dropWhile is_digit (ds @ rest) = rest"
    using digits assms(3)
    by (auto simp: list_all_iff takeWhile_append dropWhile_append ends_before_def is_digit_def split: list.splits)
  have first_digit: "first (ds @ rest) \<noteq> Some 45"
    using nonempty digits by (cases ds) (auto simp: is_digit_def)
  have stop: "first rest \<notin> {Some 46, Some 101, Some 69}"
    using assms(3) by (auto simp: ends_before_def split: list.splits)
  have val: "int (digits_value (ascii ds)) = \<bar>n\<bar>" by (simp add: ds_def digits_value_fmt_nat)
  have checked: "i128_checked n = Some n" using assms by simp
  have lead: "\<not> (byte_len ds > 1 \<and> starts_with ds [48])"
    using lit_no_leading_zero [of "nat \<bar>n\<bar>"] byte_len_digits [OF digits] by (simp add: ds_def lit_def)
  show ?thesis
  proof (cases "n < 0")
    case True
    then have w: "lit (fmt_int n) = 45 # ds" and v: "- \<bar>n\<bar> = n" by (simp_all add: ds_def fmt_int_def)
    show ?thesis
      using nonempty lead stop checked
      by (simp add: read_number_def w bump_while_at rest utf8_len_def Let_def val v del: i128_checked_Some)
  next
    case False
    then have w: "lit (fmt_int n) = ds" and v: "\<bar>n\<bar> = n" by (simp_all add: ds_def fmt_int_def)
    show ?thesis
      using nonempty lead stop checked first_digit
      by (simp add: read_number_def w bump_while_at rest Let_def val v del: i128_checked_Some)
  qed
qed

subsection \<open>Values\<close>

lemma write_value_head:
  obtains c t where "write_value v = c # t" "\<not> is_json_space c" "c \<noteq> 93" "c \<noteq> 125"
proof -
  have "\<exists>c t. write_value v = c # t \<and> \<not> is_json_space c \<and> c \<noteq> 93 \<and> c \<noteq> 125"
  proof (cases v)
    case (CInteger n)
    obtain d t where "fmt_nat (nat \<bar>n\<bar>) = d # t" using fmt_nat_nonempty by (meson neq_Nil_conv)
    moreover from this have "is_digit (of_char d)" using lit_digits [of "nat \<bar>n\<bar>"] by simp
    ultimately show ?thesis using CInteger by (auto simp: fmt_int_def is_json_space_def is_digit_def)
  next
    case (CBool b)
    then show ?thesis by (cases b) (simp_all add: is_json_space_def)
  qed (auto simp: is_json_space_def write_text_def)
  with that show thesis by blast
qed

text \<open>A value is read from its text, whatever may follow it in a document.\<close>

definition reads_back :: "nat \<Rightarrow> (utext \<Rightarrow> bool) \<Rightarrow> nat \<Rightarrow> canonical_value \<Rightarrow> bool" where
  "reads_back bound nf d v \<longleftrightarrow>
     (\<forall>rest off. ends_before rest \<longrightarrow>
        read_value bound nf d (reader_at (write_value v @ rest) off) =
        Ok (v, reader_at rest (off + byte_len (write_value v))))"

lemma reads_backD:
  "reads_back bound nf d v \<Longrightarrow> ends_before rest \<Longrightarrow>
   read_value bound nf d (reader_at (write_value v @ rest) off) =
   Ok (v, reader_at rest (off + byte_len (write_value v)))"
  by (simp add: reads_back_def)

lemma ends_before_simps [simp]: "ends_before []" "ends_before (c # t) \<longleftrightarrow> c \<in> {44, 93, 125}"
  by (simp_all add: ends_before_def)

lemma separators [simp]: "utf8_len 44 = 1" "utf8_len 93 = 1" "utf8_len 125 = 1" "utf8_len 58 = 1" "utf8_len 91 = 1"
  "utf8_len 123 = 1" "\<not> is_json_space 44" "\<not> is_json_space 93" "\<not> is_json_space 125" "\<not> is_json_space 58"
  "\<not> is_json_space 34"
  by (simp_all add: utf8_len_def is_json_space_def)

lemma skip_before_value [simp]:
  "skip_whitespace (reader_at (write_value v @ t) off) = reader_at (write_value v @ t) off"
  by (rule write_value_head [of v]) simp

lemma skip_before_text [simp]:
  "skip_whitespace (reader_at (write_text s @ t) off) = reader_at (write_text s @ t) off"
  by (simp add: write_text_def)

lemma list_items_write:
  assumes "\<forall>v \<in> set (v # vs). reads_back bound nf d v"
  shows "list_items bound nf d acc (reader_at (join_words [44] (map write_value (v # vs)) @ 93 # rest) off) =
         Ok (CList (acc @ v # vs), reader_at rest (off + byte_len (join_words [44] (map write_value (v # vs))) + 1))"
  using assms
proof (induction vs arbitrary: v acc off)
  case Nil
  then have "reads_back bound nf d v" by simp
  from reads_backD [OF this, of "93 # rest" off] show ?case
    by (subst list_items.simps) simp
next
  case (Cons w vs)
  then have v: "reads_back bound nf d v" and ws: "\<forall>v \<in> set (w # vs). reads_back bound nf d v" by simp_all
  show ?case
    using reads_backD [OF v, of "44 # join_words [44] (map write_value (w # vs)) @ 93 # rest" off] Cons.IH [OF ws]
    by (subst list_items.simps) (simp add: add.assoc)
qed

lemma bt_insert_last: "bt_wf (acc @ (k, v) # es) \<Longrightarrow> bt_insert k v acc = acc @ [(k, v)]"
  by (induction acc) (fastforce simp: bt_wf_Cons)+

lemma bt_contains_last: "bt_wf (acc @ (k, v) # es) \<Longrightarrow> \<not> bt_contains acc k"
  using bt_wf_distinct [of "acc @ (k, v) # es"] by (simp add: bt_contains_def map_of_eq_None_iff)

abbreviation write_entry :: "utext \<times> canonical_value \<Rightarrow> utext" where
  "write_entry e \<equiv> write_text (fst e) @ [58] @ write_value (snd e)"

lemma map_items_step:
  assumes "bt_wf (acc @ e # es)" "nf (fst e)" "reads_back bound nf d (snd e)" "ends_before (c # rest)"
  shows "map_items bound nf d acc (reader_at (write_entry e @ c # rest) off) =
         (let r = reader_at (c # rest) (off + byte_len (write_entry e)) in
          if c = 44 then map_items bound nf d (acc @ [e]) (bump 44 r)
          else if c = 125 then Ok (CMap (acc @ [e]), bump 125 r)
          else Err (syntax_error r (lit ''expected `,` or `}`'')))"
proof -
  obtain k v where e: "e = (k, v)" by fastforce
  have "\<not> is_json_space c" using assms(4) by (auto simp: is_json_space_def)
  moreover have "bt_insert k v acc = acc @ [e]" "\<not> bt_contains acc k"
    using bt_insert_last [of acc k v es] bt_contains_last [of acc k v es] assms(1) by (simp_all add: e)
  ultimately show ?thesis
    using reads_backD [OF assms(3,4)] assms(2)
    by (subst map_items.simps) (simp add: e Let_def read_string_write add.assoc add.commute add.left_commute cong: if_cong)
qed

lemma map_items_write:
  assumes "bt_wf (acc @ e # es)" "\<forall>e \<in> set (e # es). nf (fst e) \<and> reads_back bound nf d (snd e)"
  shows "map_items bound nf d acc (reader_at (join_words [44] (map write_entry (e # es)) @ 125 # rest) off) =
         Ok (CMap (acc @ e # es), reader_at rest (off + byte_len (join_words [44] (map write_entry (e # es))) + 1))"
  using assms
proof (induction es arbitrary: e acc off)
  case Nil
  then show ?case using map_items_step [OF Nil(1), of nf bound d 125 rest off] by (simp add: Let_def)
next
  case (Cons f es)
  then have wf: "bt_wf ((acc @ [e]) @ f # es)" and rest: "\<forall>e \<in> set (f # es). nf (fst e) \<and> reads_back bound nf d (snd e)"
    by simp_all
  show ?case
    using map_items_step [OF Cons.prems(1), of nf bound d 44 "join_words [44] (map write_entry (f # es)) @ 125 # rest" off]
      Cons.prems(2) Cons.IH [OF wf rest] by (simp add: Let_def add.assoc)
qed

text \<open>Scalars are read at any depth below the bound.\<close>

lemma reads_back_scalars:
  assumes "d < bound"
  shows "reads_back bound nf d CNull" "reads_back bound nf d (CBool b)"
    "canonical_typed (CInteger n) \<Longrightarrow> reads_back bound nf d (CInteger n)"
    "nf t \<Longrightarrow> reads_back bound nf d (CText t)"
proof -
  show "reads_back bound nf d CNull"
    using assms by (simp add: reads_back_def read_value.simps read_literal_def)
  show "reads_back bound nf d (CBool b)"
    using assms by (cases b) (simp_all add: reads_back_def read_value.simps read_literal_def)
  show "reads_back bound nf d (CText t)" if "nf t"
  proof -
    obtain u where u: "write_text t = 34 # u" by (simp add: write_text_def)
    show ?thesis
      using assms read_string_write [of nf t, OF that]
      by (simp add: reads_back_def read_value.simps u)
  qed
  show "reads_back bound nf d (CInteger n)" if "canonical_typed (CInteger n)"
  proof -
    obtain e u where "fmt_nat (nat \<bar>n\<bar>) = e # u" using fmt_nat_nonempty by (meson neq_Nil_conv)
    moreover from this have "is_digit (of_char e)" using lit_digits [of "nat \<bar>n\<bar>"] by simp
    ultimately obtain c t where w: "lit (fmt_int n) = c # t" and c: "c = 45 \<or> is_digit c"
      by (cases "n < 0") (auto simp: fmt_int_def)
    then have "c \<notin> {110, 116, 102, 34, 91, 123}" by (auto simp: is_digit_def)
    then show ?thesis
      using assms that read_number_write [of n] c w
      by (simp add: reads_back_def read_value.simps)
  qed
qed

lemma reads_back_list:
  assumes "d < bound" "\<forall>v \<in> set vs. reads_back bound nf (Suc d) v"
  shows "reads_back bound nf d (CList vs)"
proof (cases vs)
  case Nil
  then show ?thesis using assms(1) by (simp add: reads_back_def read_value.simps)
next
  case (Cons v ws)
  obtain c t where "write_value v = c # t" "\<not> is_json_space c" "c \<noteq> 93" by (rule write_value_head)
  then obtain u where u: "join_words [44] (map write_value vs) = c # u"
    by (cases ws) (simp_all add: Cons)
  show ?thesis
    using assms list_items_write [of v ws bound nf "Suc d" "[]"] \<open>\<not> is_json_space c\<close> \<open>c \<noteq> 93\<close> u
    by (simp add: reads_back_def read_value.simps Cons [symmetric] add.assoc)
qed

lemma reads_back_map:
  assumes "d < bound" "bt_wf es" "\<forall>e \<in> set es. nf (fst e) \<and> reads_back bound nf (Suc d) (snd e)"
  shows "reads_back bound nf d (CMap es)"
proof (cases es)
  case Nil
  then show ?thesis using assms(1) by (simp add: reads_back_def read_value.simps)
next
  case (Cons e fs)
  obtain u where u: "join_words [44] (map write_entry es) = 34 # u"
    by (cases fs) (simp_all add: Cons write_text_def)
  show ?thesis
    using assms map_items_write [of "[]" e fs nf bound "Suc d"] u
    by (simp add: reads_back_def read_value.simps Cons [symmetric] add.assoc)
qed

lemma read_value_write:
  "canonical_typed v \<Longrightarrow> normalized nf v \<Longrightarrow> d + nesting v \<le> bound \<Longrightarrow> reads_back bound nf d v"
proof (induction v arbitrary: d)
  case (CList vs)
  have "Suc d + nesting v \<le> bound" if "v \<in> set vs" for v
    using CList.prems(3) foldr_max_upper [of "nesting v" "map nesting vs"] that by simp
  then show ?case using CList by (intro reads_back_list) (simp_all add: list_all_iff)
next
  case (CMap es)
  have "Suc d + nesting (snd e) \<le> bound" if "e \<in> set es" for e
    using CMap.prems(3) foldr_max_upper [of "nesting (snd e)" "map (\<lambda>e. nesting (snd e)) es"] that by simp
  moreover have "snd e \<in> Basic_BNFs.snds e" for e :: "utext \<times> canonical_value" by (simp add: snds.simps)
  ultimately show ?case using CMap by (intro reads_back_map) (simp_all add: list_all_iff)
qed (simp_all add: reads_back_scalars)

section \<open>What the reader returns\<close>

text \<open>The reader stays inside its text, so what it leaves is text again.\<close>

lemma is_text_simps [simp]:
  "is_text []" "is_text (c # t) \<longleftrightarrow> is_scalar c \<and> is_text t" "is_text (s @ t) \<longleftrightarrow> is_text s \<and> is_text t"
  by (simp_all add: is_text_def)

lemma is_text_dropWhile: "is_text t \<Longrightarrow> is_text (dropWhile p t)"
  by (induction t) auto

lemma is_text_skip [simp]: "is_text (unread r) \<Longrightarrow> is_text (unread (skip_whitespace r))"
  by (simp add: skip_whitespace_def is_text_dropWhile)

lemma is_text_tl: "is_text t \<Longrightarrow> is_text (tl t)"
  by (cases t) auto

lemma is_text_bump [simp]: "is_text (unread r) \<Longrightarrow> is_text (unread (bump c r))"
  by (simp add: bump_def is_text_tl)

lemma is_text_drop [simp]: "is_text t \<Longrightarrow> is_text (drop n t)"
  by (metis append_take_drop_id is_text_simps(3))

lemma read_code_unit_text: "read_code_unit r = Inr (c, r') \<Longrightarrow> is_text (unread r) \<Longrightarrow> is_text (unread r')"
  by (auto simp: read_code_unit_def skip_bytes_Some split: option.splits)

lemma read_unicode_escape_text:
  "read_unicode_escape r = Inr (c, r') \<Longrightarrow> is_text (unread r) \<Longrightarrow> is_scalar c \<and> is_text (unread r')"
  by (auto simp: read_unicode_escape_def char_from_u32_def split: sum.splits option.splits if_splits
      dest!: read_code_unit_text)

lemma read_escape_text:
  "read_escape r = Inr (c, r') \<Longrightarrow> is_text (unread r) \<Longrightarrow> is_scalar c \<and> is_text (unread r')"
  by (auto simp: read_escape_def Let_def simple_escape_def is_scalar_def split: option.splits if_splits
      dest!: read_unicode_escape_text)

lemma read_chars_text:
  "read_chars acc r = Inr (t, r') \<Longrightarrow> is_text (unread r) \<Longrightarrow> is_text acc \<Longrightarrow> is_text t \<and> is_text (unread r')"
proof (induction acc r rule: read_chars.induct)
  case (1 acc r)
  obtain c u where u: "unread r = c # u"
    using "1.prems" by (subst (asm) read_chars.simps) (auto split: list.splits)
  note step = "1.prems"(1) [unfolded read_chars.simps [of acc r] u list.case Let_def]
  have c: "is_scalar c" and bumped: "is_text (unread (bump c r))" using "1.prems"(2) u by (auto simp: bump_def)
  consider "c = 34" | "c = 92" | "c \<noteq> 34" "c \<noteq> 92" "\<not> c < 32"
    using step by (fastforce split: if_splits)
  then show ?case
  proof cases
    case 1
    then show ?thesis using step bumped "1.prems"(3) by auto
  next
    case 2
    then obtain d r2 where d: "read_escape (bump c r) = Inr (d, r2)" and rec: "read_chars (acc @ [d]) r2 = Inr (t, r')"
      using step by (auto split: sum.splits)
    from read_escape_text [OF d bumped] show ?thesis
      using "1.IH"(1) [OF u refl _ 2 d refl rec] 2 "1.prems"(3) by simp
  next
    case 3
    then show ?thesis using "1.IH"(2) [OF u refl 3] step c bumped "1.prems"(3) by simp
  qed
qed

lemma read_string_text:
  "read_string nf r = Inr (t, r') \<Longrightarrow> is_text (unread r) \<Longrightarrow> is_text t \<and> nf t \<and> is_text (unread r')"
  by (fastforce simp: read_string_def expect_def split: sum.splits if_splits dest: read_chars_text)

lemma expect_text: "expect c r = Inr r' \<Longrightarrow> is_text (unread r) \<Longrightarrow> is_text (unread r')"
  by (auto simp: expect_def split: if_splits)

lemma read_literal_text: "read_literal l v r = Inr (w, r') \<Longrightarrow> is_text (unread r) \<Longrightarrow> w = v \<and> is_text (unread r')"
  by (auto simp: read_literal_def is_text_drop split: if_splits)

lemma read_number_text:
  "read_number r = Inr (v, r') \<Longrightarrow> is_text (unread r) \<Longrightarrow>
   (\<exists>n. v = CInteger n \<and> i128_min \<le> n \<and> n \<le> i128_max) \<and> is_text (unread r')"
  by (auto simp: read_number_def Let_def is_text_dropWhile is_text_tl bump_def split: if_splits option.splits)

definition readable :: "nat \<Rightarrow> (utext \<Rightarrow> bool) \<Rightarrow> nat \<Rightarrow> canonical_value \<Rightarrow> bool" where
  "readable bound nf d v \<longleftrightarrow> canonical_typed v \<and> normalized nf v \<and> d + nesting v \<le> bound"

lemma readable_list:
  "d < bound \<Longrightarrow> list_all (readable bound nf (Suc d)) vs \<Longrightarrow> readable bound nf d (CList vs)"
proof -
  assume d: "d < bound" and vs: "list_all (readable bound nf (Suc d)) vs"
  then have "foldr max (map nesting vs) 0 \<le> bound - Suc d" by (auto simp: foldr_max_le readable_def list_all_iff)
  with d vs show ?thesis by (auto simp: readable_def list_all_iff)
qed

definition readable_entries :: "nat \<Rightarrow> (utext \<Rightarrow> bool) \<Rightarrow> nat \<Rightarrow> (utext, canonical_value) btree_map \<Rightarrow> bool" where
  "readable_entries bound nf d es \<longleftrightarrow>
     bt_wf es \<and> (\<forall>e \<in> set es. is_text (fst e) \<and> nf (fst e) \<and> readable bound nf d (snd e))"

lemma readable_map: "d < bound \<Longrightarrow> readable_entries bound nf (Suc d) es \<Longrightarrow> readable bound nf d (CMap es)"
proof -
  assume d: "d < bound" and es: "readable_entries bound nf (Suc d) es"
  then have "foldr max (map (\<lambda>e. nesting (snd e)) es) 0 \<le> bound - Suc d"
    by (auto simp: foldr_max_le readable_def readable_entries_def)
  with d es show ?thesis by (auto simp: readable_def readable_entries_def list_all_iff)
qed

lemma set_bt_insert: "set (bt_insert k v m) \<subseteq> insert (k, v) (set m)"
  by (induction m) auto

lemma readable_entries_insert:
  "readable_entries bound nf d es \<Longrightarrow> is_text k \<Longrightarrow> nf k \<Longrightarrow> readable bound nf d v \<Longrightarrow>
   readable_entries bound nf d (bt_insert k v es)"
  using set_bt_insert [of k v es] by (fastforce simp: readable_entries_def)

lemma reader_sound:
  "read_value bound nf d r = Inr (v, r') \<Longrightarrow> is_text (unread r) \<Longrightarrow> readable bound nf d v \<and> is_text (unread r')"
  "list_items bound nf d' vs r = Inr (v, r') \<Longrightarrow> is_text (unread r) \<Longrightarrow> list_all (readable bound nf d') vs \<Longrightarrow>
     (\<exists>ws. v = CList ws \<and> list_all (readable bound nf d') ws) \<and> is_text (unread r')"
  "map_items bound nf d' es r = Inr (v, r') \<Longrightarrow> is_text (unread r) \<Longrightarrow> readable_entries bound nf d' es \<Longrightarrow>
     (\<exists>fs. v = CMap fs \<and> readable_entries bound nf d' fs) \<and> is_text (unread r')"
proof (induction bound nf d r and bound nf d' vs r and bound nf d' es r arbitrary: v r' and v r' and v r'
    rule: read_value_list_items_map_items.induct)
  case (1 bound nf d r)
  note step = "1.prems"(1) [unfolded read_value.simps [of bound nf d r] Let_def]
  obtain c u where u: "unread r = c # u" and d: "\<not> bound \<le> d"
    using step by (auto split: list.splits if_splits)
  have flat: "readable bound nf d w" if "canonical_typed w" "normalized nf w" "nesting w = 1" for w
    using d that by (simp add: readable_def)
  consider "c = 91" | "c = 123" | "c \<noteq> 91" "c \<noteq> 123" by blast
  then show ?case
  proof cases
    case 1
    show ?thesis
    proof (cases "peek (skip_whitespace (bump 91 r)) = Some 93")
      case True
      then show ?thesis using step d "1.prems"(2) readable_list [of d bound nf "[]"] by (auto simp: 1 u)
    next
      case False
      then show ?thesis
        using "1.IH"(1) [OF d u _ _ _ _ 1 refl False] step d "1.prems"(2) readable_list [of d bound nf]
        by (fastforce simp: 1 u)
    qed
  next
    case 2
    have empty: "readable_entries bound nf (Suc d) []" by (simp add: readable_entries_def)
    show ?thesis
    proof (cases "peek (skip_whitespace (bump 123 r)) = Some 125")
      case True
      then show ?thesis using step d "1.prems"(2) readable_map [OF _ empty] by (auto simp: 2 u)
    next
      case False
      then show ?thesis
        using "1.IH"(2) [OF d u _ _ _ _ _ 2 refl False] step d "1.prems"(2) readable_map [of d bound nf] empty
        by (fastforce simp: 2 u)
    qed
  next
    case 3
    then show ?thesis
      using step [unfolded u list.case] d "1.prems"(2)
      by (auto simp: unexpected_def flat split: if_splits sum.splits
          dest: read_literal_text read_string_text read_number_text)
  qed
next
  case (2 bound nf d vs r)
  note step = "2.prems"(1) [unfolded list_items.simps [of bound nf d vs r] Let_def]
  obtain w r1 where r1: "read_value bound nf d (skip_whitespace r) = Inr (w, r1)"
    using step by (auto split: sum.splits)
  have w: "readable bound nf d w" "is_text (unread r1)" using "2.IH"(1) [OF r1] "2.prems"(2) by simp_all
  show ?case
  proof (cases "peek (skip_whitespace r1) = Some 44")
    case True
    then show ?thesis using "2.IH"(2) [OF r1 refl refl True] step w "2.prems"(3) by (simp add: r1)
  next
    case False
    then show ?thesis using step w "2.prems"(3) by (auto simp: r1 split: if_splits)
  qed
next
  case (3 bound nf d es r)
  note step = "3.prems"(1) [unfolded map_items.simps [of bound nf d es r] Let_def]
  obtain key r1 where r1: "read_string nf (skip_whitespace r) = Inr (key, r1)" and fresh: "\<not> bt_contains es key"
    using step by (auto split: sum.splits if_splits)
  obtain r2 where r2: "expect 58 (skip_whitespace r1) = Inr r2"
    using step fresh by (auto simp: r1 split: sum.splits)
  obtain w r3 where r3: "read_value bound nf d (skip_whitespace r2) = Inr (w, r3)"
    using step fresh by (auto simp: r1 r2 split: sum.splits)
  have key: "is_text key" "nf key" "is_text (unread r1)" using read_string_text [OF r1] "3.prems"(2) by simp_all
  have "is_text (unread r2)" using expect_text [OF r2] key by simp
  then have w: "readable bound nf d w" "is_text (unread r3)"
    using "3.IH"(1) [OF r1 refl fresh r2 r3] by simp_all
  have es': "readable_entries bound nf d (bt_insert key w es)"
    using readable_entries_insert [OF "3.prems"(3) key(1,2) w(1)] .
  show ?case
  proof (cases "peek (skip_whitespace r3) = Some 44")
    case True
    then show ?thesis
      using "3.IH"(2) [OF r1 refl fresh r2 r3 refl refl refl True] step fresh w es' by (simp add: r1 r2 r3)
  next
    case False
    then show ?thesis using step fresh w es' by (auto simp: r1 r2 r3 split: if_splits)
  qed
qed

section \<open>Documents\<close>

lemma is_text_lit: "is_text (lit s)"
proof -
  have "is_scalar (of_char c)" for c
    using nat_of_char_less_256 [of c] unfolding is_scalar_def by linarith
  then show ?thesis by (induction s) simp_all
qed

lemma hex_char_scalar: "n < 16 \<Longrightarrow> is_scalar (hex_char n)"
  by (simp add: hex_char_def is_scalar_def)

lemma is_text_write_char: "is_scalar c \<Longrightarrow> is_text (write_char c)"
  by (simp add: write_char_def hex_char_scalar) (simp add: is_scalar_def)

lemma is_text_write_text: "is_text t \<Longrightarrow> is_text (write_text t)"
proof -
  have "is_text t \<Longrightarrow> is_text (concat (map write_char t))" by (induction t) (simp_all add: is_text_write_char)
  then show "is_text t \<Longrightarrow> is_text (write_text t)" by (simp add: write_text_def is_scalar_def)
qed

lemma is_text_join: "is_text (join_words [44] ts) \<longleftrightarrow> list_all is_text ts"
proof (induction "[44] :: utext" ts rule: join_words.induct)
qed (auto simp: is_scalar_def)

lemma is_text_write: "canonical_typed v \<Longrightarrow> is_text (write_value v)"
proof (induction v)
  case (CBool b)
  then show ?case by (cases b) (simp_all add: is_text_lit del: lit_append)
next
  case (CList vs)
  then show ?case by (simp add: is_text_join list_all_iff) (simp add: is_scalar_def)
next
  case (CMap es)
  have "snd e \<in> Basic_BNFs.snds e" for e :: "utext \<times> canonical_value" by (simp add: snds.simps)
  with CMap show ?case by (simp add: is_text_join list_all_iff is_text_write_text) (simp add: is_scalar_def)
qed (simp_all add: is_text_lit is_text_write_text del: lit_append)

text \<open>Writing loses nothing: the text of a value determines it, at any depth.\<close>

lemma write_value_inject:
  assumes "canonical_typed v" "canonical_typed w" "write_value v = write_value w"
  shows "v = w"
proof -
  let ?bound = "max (nesting v) (nesting w)"
  have all: "normalized (\<lambda>_. True) x" for x
    by (induction x) (auto simp: list_all_iff snds.simps)
  have "reads_back ?bound (\<lambda>_. True) 0 v" "reads_back ?bound (\<lambda>_. True) 0 w"
    using assms(1,2) all by (auto intro: read_value_write)
  from this [THEN reads_backD, of "[]" 0] assms(3) show ?thesis by simp
qed

lemma to_canonical_bytes_inject:
  "canonical_typed v \<Longrightarrow> canonical_typed w \<Longrightarrow> to_canonical_bytes v = to_canonical_bytes w \<longleftrightarrow> v = w"
  by (auto simp: to_canonical_bytes_def utf8.spell_inject is_text_write intro: write_value_inject)

lemma from_json_slice_sound: "from_json_slice nf bytes = Ok v \<Longrightarrow> readable MAX_DEPTH nf 0 v"
proof -
  assume "from_json_slice nf bytes = Ok v"
  then obtain t r where t: "from_utf8 bytes = Some t"
    and r: "read_value MAX_DEPTH nf 0 (skip_whitespace (reader_at t 0)) = Inr (v, r)"
    by (auto simp: from_json_slice_def Let_def split: option.splits sum.splits if_splits)
  from t have "is_text t" by (simp add: from_utf8_iff)
  then show ?thesis using reader_sound(1) [OF r] by simp
qed

lemma from_json_slice_bytes:
  assumes "readable MAX_DEPTH nf 0 v"
  shows "from_json_slice nf (to_canonical_bytes v) = Ok v"
proof -
  have "canonical_typed v" and reads: "reads_back MAX_DEPTH nf 0 v"
    using assms read_value_write [of v nf 0 MAX_DEPTH] by (simp_all add: readable_def)
  then have "from_utf8 (to_canonical_bytes v) = Some (write_value v)"
    by (simp add: from_utf8_iff to_canonical_bytes_def is_text_write)
  then show ?thesis
    using reads_backD [OF reads, of "[]" 0] skip_before_value [of v "[]" 0]
    by (simp add: from_json_slice_def)
qed

lemma verify_canonical_iff:
  "verify_canonical nf bytes = Ok v \<longleftrightarrow> readable MAX_DEPTH nf 0 v \<and> bytes = to_canonical_bytes v"
  using from_json_slice_sound [of nf bytes v] from_json_slice_bytes [of nf v]
  by (auto simp: verify_canonical_def split: sum.splits if_splits)

interpretation document: one_spelling to_canonical_bytes "\<lambda>bytes. ok (verify_canonical nf bytes)"
  "readable MAX_DEPTH nf 0" for nf
  by unfold_locales (simp add: verify_canonical_iff)

section \<open>The serializer\<close>

text \<open>What the types of a document guarantee: integers of their width, text of scalar values.\<close>

fun in_kind :: "int_kind \<Rightarrow> int \<Rightarrow> bool" where
  "in_kind I8 n = (- (2 ^ 7) \<le> n \<and> n < 2 ^ 7)"
| "in_kind I16 n = (- (2 ^ 15) \<le> n \<and> n < 2 ^ 15)"
| "in_kind I32 n = (- (2 ^ 31) \<le> n \<and> n < 2 ^ 31)"
| "in_kind I64 n = (- (2 ^ 63) \<le> n \<and> n < 2 ^ 63)"
| "in_kind I128 n = (- (2 ^ 127) \<le> n \<and> n < 2 ^ 127)"
| "in_kind U8 n = (0 \<le> n \<and> n < 2 ^ 8)"
| "in_kind U16 n = (0 \<le> n \<and> n < 2 ^ 16)"
| "in_kind U32 n = (0 \<le> n \<and> n < 2 ^ 32)"
| "in_kind U64 n = (0 \<le> n \<and> n < 2 ^ 64)"
| "in_kind U128 n = (0 \<le> n \<and> n < 2 ^ 128)"

fun serde_typed :: "serde_value \<Rightarrow> bool" and call_typed :: "map_call \<Rightarrow> bool" where
  "serde_typed (SInt kind n) = in_kind kind n"
| "serde_typed (SChar c) = is_scalar c"
| "serde_typed (SStr t) = is_text t"
| "serde_typed (SSome s) = serde_typed s"
| "serde_typed (SUnitVariant name index variant) = is_text variant"
| "serde_typed (SNewtypeStruct name s) = serde_typed s"
| "serde_typed (SNewtypeVariant name index variant s) = (is_text variant \<and> serde_typed s)"
| "serde_typed (SSeq ss) = (\<forall>s \<in> set ss. serde_typed s)"
| "serde_typed (STuple ss) = (\<forall>s \<in> set ss. serde_typed s)"
| "serde_typed (STupleStruct name ss) = (\<forall>s \<in> set ss. serde_typed s)"
| "serde_typed (STupleVariant name index variant ss) = (is_text variant \<and> (\<forall>s \<in> set ss. serde_typed s))"
| "serde_typed (SMap calls) = (\<forall>c \<in> set calls. call_typed c)"
| "serde_typed (SStruct name fs) = (\<forall>f \<in> set fs. is_text (fst f) \<and> serde_typed (snd f))"
| "serde_typed (SStructVariant name index variant fs) =
     (is_text variant \<and> (\<forall>f \<in> set fs. is_text (fst f) \<and> serde_typed (snd f)))"
| "serde_typed s = True"
| "call_typed (MKey s) = serde_typed s"
| "call_typed (MValue s) = serde_typed s"

text \<open>The names of fields and of variants with a payload, which become keys unexamined.\<close>

fun names_normalized :: "(utext \<Rightarrow> bool) \<Rightarrow> serde_value \<Rightarrow> bool"
  and call_normalized :: "(utext \<Rightarrow> bool) \<Rightarrow> map_call \<Rightarrow> bool" where
  "names_normalized nf (SSome s) = names_normalized nf s"
| "names_normalized nf (SNewtypeStruct name s) = names_normalized nf s"
| "names_normalized nf (SNewtypeVariant name index variant s) = (nf variant \<and> names_normalized nf s)"
| "names_normalized nf (SSeq ss) = (\<forall>s \<in> set ss. names_normalized nf s)"
| "names_normalized nf (STuple ss) = (\<forall>s \<in> set ss. names_normalized nf s)"
| "names_normalized nf (STupleStruct name ss) = (\<forall>s \<in> set ss. names_normalized nf s)"
| "names_normalized nf (STupleVariant name index variant ss) = (nf variant \<and> (\<forall>s \<in> set ss. names_normalized nf s))"
| "names_normalized nf (SMap calls) = (\<forall>c \<in> set calls. call_normalized nf c)"
| "names_normalized nf (SStruct name fs) = (\<forall>f \<in> set fs. nf (fst f) \<and> names_normalized nf (snd f))"
| "names_normalized nf (SStructVariant name index variant fs) =
     (nf variant \<and> (\<forall>f \<in> set fs. nf (fst f) \<and> names_normalized nf (snd f)))"
| "names_normalized nf s = True"
| "call_normalized nf (MKey s) = True"
| "call_normalized nf (MValue s) = names_normalized nf s"

text \<open>Floating point anywhere in the document, keys included.\<close>

fun has_float :: "serde_value \<Rightarrow> bool" and call_has_float :: "map_call \<Rightarrow> bool" where
  "has_float SF32 = True"
| "has_float SF64 = True"
| "has_float (SSome s) = has_float s"
| "has_float (SNewtypeStruct name s) = has_float s"
| "has_float (SNewtypeVariant name index variant s) = has_float s"
| "has_float (SSeq ss) = (\<exists>s \<in> set ss. has_float s)"
| "has_float (STuple ss) = (\<exists>s \<in> set ss. has_float s)"
| "has_float (STupleStruct name ss) = (\<exists>s \<in> set ss. has_float s)"
| "has_float (STupleVariant name index variant ss) = (\<exists>s \<in> set ss. has_float s)"
| "has_float (SMap calls) = (\<exists>c \<in> set calls. call_has_float c)"
| "has_float (SStruct name fs) = (\<exists>f \<in> set fs. has_float (snd f))"
| "has_float (SStructVariant name index variant fs) = (\<exists>f \<in> set fs. has_float (snd f))"
| "has_float s = False"
| "call_has_float (MKey s) = has_float s"
| "call_has_float (MValue s) = has_float s"

definition good_entries ::
  "(utext \<Rightarrow> bool) \<Rightarrow> (canonical_value \<Rightarrow> bool) \<Rightarrow> (utext, canonical_value) btree_map \<Rightarrow> bool" where
  "good_entries K V es \<longleftrightarrow> bt_wf es \<and> (\<forall>e \<in> set es. K (fst e) \<and> V (snd e))"

lemma good_entries_Nil [simp]: "good_entries K V []"
  by (simp add: good_entries_def)

lemma good_entries_insert: "good_entries K V es \<Longrightarrow> K k \<Longrightarrow> V v \<Longrightarrow> good_entries K V (bt_insert k v es)"
  using set_bt_insert [of k v es] by (fastforce simp: good_entries_def)

lemma good_entries_map_insert:
  "map_insert k v m = Ok m' \<Longrightarrow> good_entries K V (map_entries m) \<Longrightarrow> K k \<Longrightarrow> V v \<Longrightarrow>
   good_entries K V (map_entries m') \<and> pending_key m' = pending_key m"
  by (auto simp: map_insert_def good_entries_insert split: if_splits)

lemma key_typed: "serialize_key nf us s = Ok k \<Longrightarrow> serde_typed s \<Longrightarrow> is_text k"
  by (induction nf us s rule: serialize_key.induct) (auto simp: key_str_def split: if_splits)

lemma key_normalized: "serialize_key nf us s = Ok k \<Longrightarrow> nf k"
  by (induction nf us s rule: serialize_key.induct) (auto simp: key_str_def split: if_splits)

lemma key_no_float: "serialize_key nf us s = Ok k \<Longrightarrow> \<not> has_float s"
  by (induction nf us s rule: serialize_key.induct) (auto split: if_splits)

lemma in_kind_i128: "in_kind kind n \<Longrightarrow> kind \<noteq> U128 \<or> n \<le> i128_max \<Longrightarrow> i128_min \<le> n \<and> n \<le> i128_max"
  by (cases kind) (auto simp: i128_min_def i128_max_def)

lemma good_entries_single [simp]: "good_entries K V [(k, v)] \<longleftrightarrow> K k \<and> V v"
  by (simp add: good_entries_def bt_wf_def)

lemma typed_map: "canonical_typed (CMap es) \<longleftrightarrow> good_entries is_text canonical_typed es"
  by (auto simp: good_entries_def list_all_iff)

lemma normalized_map: "good_entries nf (normalized nf) es \<Longrightarrow> normalized nf (CMap es)"
  by (auto simp: good_entries_def list_all_iff)

lemmas serializer_induct =
  to_canonical_value_serialize_elements_serialize_calls_serialize_struct_fields_serialize_variant_fields.induct

lemma serializer_typed:
  "to_canonical_value nf us s = Ok v \<Longrightarrow> serde_typed s \<Longrightarrow> canonical_typed v"
  "serialize_elements nf us ss = Ok vs \<Longrightarrow> \<forall>s \<in> set ss. serde_typed s \<Longrightarrow> list_all canonical_typed vs"
  "serialize_calls nf us calls m = Ok m' \<Longrightarrow> \<forall>c \<in> set calls. call_typed c \<Longrightarrow>
     good_entries is_text canonical_typed (map_entries m) \<Longrightarrow> pred_option is_text (pending_key m) \<Longrightarrow>
     good_entries is_text canonical_typed (map_entries m')"
  "serialize_struct_fields nf us fs m = Ok m' \<Longrightarrow> \<forall>f \<in> set fs. is_text (fst f) \<and> serde_typed (snd f) \<Longrightarrow>
     good_entries is_text canonical_typed (map_entries m) \<Longrightarrow> good_entries is_text canonical_typed (map_entries m')"
  "serialize_variant_fields nf us fs es = Ok es' \<Longrightarrow> \<forall>f \<in> set fs. is_text (fst f) \<and> serde_typed (snd f) \<Longrightarrow>
     good_entries is_text canonical_typed es \<Longrightarrow> good_entries is_text canonical_typed es'"
  by (induction nf us s and nf us ss and nf us calls m and nf us fs m and nf us fs es
      arbitrary: v and vs and m' and m' and es' rule: serializer_induct)
    (auto simp: canonical_text_def one_entry_def typed_map in_kind_i128 good_entries_insert key_typed
      simp del: canonical_typed.simps(6) split: if_splits option.splits dest: good_entries_map_insert)

lemma serializer_normalized:
  "to_canonical_value nf us s = Ok v \<Longrightarrow> names_normalized nf s \<Longrightarrow> normalized nf v"
  "serialize_elements nf us ss = Ok vs \<Longrightarrow> \<forall>s \<in> set ss. names_normalized nf s \<Longrightarrow> list_all (normalized nf) vs"
  "serialize_calls nf us calls m = Ok m' \<Longrightarrow> \<forall>c \<in> set calls. call_normalized nf c \<Longrightarrow>
     good_entries nf (normalized nf) (map_entries m) \<Longrightarrow> pred_option nf (pending_key m) \<Longrightarrow>
     good_entries nf (normalized nf) (map_entries m')"
  "serialize_struct_fields nf us fs m = Ok m' \<Longrightarrow> \<forall>f \<in> set fs. nf (fst f) \<and> names_normalized nf (snd f) \<Longrightarrow>
     good_entries nf (normalized nf) (map_entries m) \<Longrightarrow> good_entries nf (normalized nf) (map_entries m')"
  "serialize_variant_fields nf us fs es = Ok es' \<Longrightarrow> \<forall>f \<in> set fs. nf (fst f) \<and> names_normalized nf (snd f) \<Longrightarrow>
     good_entries nf (normalized nf) es \<Longrightarrow> good_entries nf (normalized nf) es'"
  by (induction nf us s and nf us ss and nf us calls m and nf us fs m and nf us fs es
      arbitrary: v and vs and m' and m' and es' rule: serializer_induct)
    (auto simp: canonical_text_def one_entry_def normalized_map good_entries_insert key_normalized
      simp del: normalized.simps(6) split: if_splits option.splits dest: good_entries_map_insert)

lemma serializer_no_float:
  "to_canonical_value nf us s = Ok v \<Longrightarrow> \<not> has_float s"
  "serialize_elements nf us ss = Ok vs \<Longrightarrow> \<forall>s \<in> set ss. \<not> has_float s"
  "serialize_calls nf us calls m = Ok m' \<Longrightarrow> \<forall>c \<in> set calls. \<not> call_has_float c"
  "serialize_struct_fields nf us fs m = Ok m' \<Longrightarrow> \<forall>f \<in> set fs. \<not> has_float (snd f)"
  "serialize_variant_fields nf us fs es = Ok es' \<Longrightarrow> \<forall>f \<in> set fs. \<not> has_float (snd f)"
  by (induction nf us s and nf us ss and nf us calls m and nf us fs m and nf us fs es
      arbitrary: v and vs and m' and m' and es' rule: serializer_induct)
    (auto split: if_splits option.splits dest: key_no_float)

section \<open>The contract of the encoding\<close>

text \<open>Two values of the canonical data model have the same bytes exactly when they are the same
  value: canonical bytes, and so the digests taken over them, neither depend on how a value was
  built nor confuse two values.\<close>

theorem canonical_bytes_identify_values:
  assumes "canonical_typed v" "canonical_typed w"
  shows "to_canonical_bytes v = to_canonical_bytes w \<longleftrightarrow> v = w"
  using assms by (rule to_canonical_bytes_inject)

theorem canonical_bytes_identify_values_witness:
  "to_canonical_bytes (CList [CInteger (- 12), CMap [(lit ''a'', CNull)]]) \<noteq>
   to_canonical_bytes (CList [CInteger (- 12), CMap [(lit ''a'', CText [10])]])"
  using canonical_bytes_identify_values
    [of "CList [CInteger (- 12), CMap [(lit ''a'', CNull)]]" "CList [CInteger (- 12), CMap [(lit ''a'', CText [10])]]"]
  by (simp add: bt_wf_def is_scalar_def i128_min_def i128_max_def)

text \<open>C16. \<open>verify_canonical\<close> accepts a byte string as a value exactly when the value is well typed,
  all its text and keys are normalised, it is nested at most 128 deep, and the bytes are the
  canonical bytes of that value. The reader is total, so every other byte string is an error.\<close>

theorem verify_canonical_exact:
  "verify_canonical nf bytes = Ok v \<longleftrightarrow>
   canonical_typed v \<and> normalized nf v \<and> nesting v \<le> 128 \<and> bytes = to_canonical_bytes v"
  by (auto simp: verify_canonical_iff readable_def MAX_DEPTH_def)

text \<open>Whatever the lenient reader accepts has canonical bytes that the strict reader accepts as
  the same value: presentation is lost on the way and nothing else.\<close>

theorem lenient_read_canonicalises:
  assumes "from_json_slice nf bytes = Ok v"
  shows "verify_canonical nf (to_canonical_bytes v) = Ok v"
  using document.read_spell [OF from_json_slice_sound [OF assms]] by simp

lemma lenient_example: "from_json_slice nf (into_bytes (lit ''[ {} , true ]'')) = Ok (CList [CMap [], CBool True])"
proof -
  have "from_utf8 (into_bytes (lit ''[ {} , true ]'')) = Some (lit ''[ {} , true ]'')"
    unfolding from_utf8_iff using is_text_lit by blast
  then show ?thesis
    by (simp add: from_json_slice_def read_value.simps list_items.simps MAX_DEPTH_def read_literal_def Let_def
        skip_whitespace_def is_json_space_def bump_def peek_def utf8_len_def)
qed

theorem lenient_read_canonicalises_witness:
  "verify_canonical (\<lambda>_. True) (to_canonical_bytes (CList [CMap [], CBool True])) = Ok (CList [CMap [], CBool True])"
  by (rule lenient_read_canonicalises [OF lenient_example])

text \<open>C17. A document whose names are normalised, once encoded, is read back from its bytes as the
  value it denotes if that value is nested at most 128 deep, and from no bytes of the strict reader
  if it is nested deeper: the encoder has no such bound.\<close>

theorem encoded_document_reads_back:
  assumes "serde_typed s" "names_normalized nf s" "canonical_bytes_of nf us s = Ok bytes"
  shows "\<exists>v. to_canonical_value nf us s = Ok v \<and>
           (if nesting v \<le> 128 then verify_canonical nf bytes = Ok v else \<not> is_ok (verify_canonical nf bytes))"
proof -
  from assms(3) obtain v where v: "to_canonical_value nf us s = Ok v" and b: "bytes = to_canonical_bytes v"
    by (auto simp: canonical_bytes_of_def)
  have t: "canonical_typed v" and n: "normalized nf v"
    using serializer_typed(1) [OF v assms(1)] serializer_normalized(1) [OF v assms(2)] .
  have "v = w" if "verify_canonical nf bytes = Ok w" for w
    using that t b by (auto simp: verify_canonical_iff readable_def to_canonical_bytes_inject)
  then have "verify_canonical nf bytes = Ok w \<Longrightarrow> nesting v \<le> 128" for w
    by (auto simp: verify_canonical_iff readable_def MAX_DEPTH_def)
  then have "is_ok (verify_canonical nf bytes) \<Longrightarrow> nesting v \<le> 128"
    by (cases "verify_canonical nf bytes") auto
  moreover have "nesting v \<le> 128 \<Longrightarrow> verify_canonical nf bytes = Ok v"
    using t n b by (simp add: verify_canonical_iff readable_def MAX_DEPTH_def)
  ultimately show ?thesis using v by auto
qed

theorem encoded_document_reads_back_witness:
  "\<exists>v. to_canonical_value (\<lambda>_. True) (\<lambda>_. []) (SStruct [] [(lit ''n'', SSome (SInt U64 7)), (lit ''a'', SNone)]) = Ok v \<and>
     (if nesting v \<le> 128
      then verify_canonical (\<lambda>_. True) (to_canonical_bytes (CMap [(lit ''a'', CNull), (lit ''n'', CInteger 7)])) = Ok v
      else \<not> is_ok (verify_canonical (\<lambda>_. True) (to_canonical_bytes (CMap [(lit ''a'', CNull), (lit ''n'', CInteger 7)]))))"
  by (rule encoded_document_reads_back)
     (simp_all add: is_text_lit is_scalar_def canonical_bytes_of_def map_insert_def bt_contains_def)

text \<open>A document with floating point anywhere, in a value or in a key, has no canonical bytes.\<close>

theorem float_has_no_canonical_bytes:
  assumes "has_float s"
  shows "\<not> is_ok (canonical_bytes_of nf us s)"
  using assms serializer_no_float(1) [of nf us s]
  by (cases "to_canonical_value nf us s") (auto simp: canonical_bytes_of_def)

theorem float_has_no_canonical_bytes_witness:
  "\<not> is_ok (canonical_bytes_of (\<lambda>_. True) (\<lambda>_. []) (SMap [MKey (SStr (lit ''rate'')), MValue (SSeq [SSome SF64])]))"
  by (rule float_has_no_canonical_bytes) simp

section \<open>Divergences\<close>

text \<open>The four characters of an escape are read with \<open>from_str_radix\<close>, which takes a plus sign: the
  reader accepts \<open>\u+041\<close>, which is not JSON, as the letter A.\<close>

theorem plus_sign_escape:
  "read_string (\<lambda>_. True) (reader_at (lit [CHR 0x22, CHR 0x5C] @ lit ''u+041'' @ lit [CHR 0x22]) 0) =
   Ok (lit ''A'', reader_at [] 8)"
proof -
  have "read_code_unit (reader_at [43, 48, 52, 49, 34] (Suc (Suc (Suc 0)))) = Ok (65, reader_at [34] 7)"
    by (simp add: read_code_unit_def from_str_radix_16_def strip_prefix_def hex_digit_def utf8_len_def)
  then have "read_escape (reader_at [117, 43, 48, 52, 49, 34] (Suc (Suc 0))) = Ok (65, reader_at [34] 7)"
    by (simp add: read_escape_def simple_escape_def read_unicode_escape_def char_from_u32_def is_scalar_def utf8_len_def)
  then show ?thesis
    by (simp add: read_string_def read_chars.simps utf8_len_def)
qed

text \<open>The names of fields are not tested for normalisation, so a document can have canonical bytes
  that the strict reader refuses.\<close>

theorem unnormalised_field_name:
  assumes "\<not> nf name" "is_text name"
  shows "\<exists>bytes. canonical_bytes_of nf us (SStruct record_name [(name, SNone)]) = Ok bytes \<and>
           \<not> is_ok (verify_canonical nf bytes)"
proof -
  let ?v = "CMap [(name, CNull)]"
  have "verify_canonical nf (to_canonical_bytes ?v) \<noteq> Ok w" for w
    using assms to_canonical_bytes_inject [of ?v w] by (auto simp: verify_canonical_iff readable_def bt_wf_def)
  then have "\<not> is_ok (verify_canonical nf (to_canonical_bytes ?v))"
    by (cases "verify_canonical nf (to_canonical_bytes ?v)") auto
  then show ?thesis by (simp add: canonical_bytes_of_def map_insert_def)
qed

end
