(* ===== verification/Workflow_Graph.thy ===== *)
theory Workflow_Graph
  imports Ordered_Map "HOL-Library.Product_Lexorder"
begin

text \<open>
  Workflow definitions and the graph of their steps (\<open>crates/core/src/domain/workflow.rs\<close>,
  \<open>workflow_graph.rs\<close>): construction with every refusal, the topological sort that keeps the
  declared positions, and the queries a scheduler asks of the graph. Identifiers are non-empty
  text and are compared as text; a position is an \<open>i32\<close>, here an integer.

  \<open>sort\<close> subtracts from an unsigned counter. \<open>kahn\<close> answers \<open>None\<close> where that subtraction would
  overflow; the graphs \<open>new\<close> builds never get there.
\<close>

section \<open>Statuses and definitions\<close>

datatype workflow_status = Draft | Enabled | Disabled

datatype workflow_run_status =
    WQueued | WRunning | WRemoved | WSucceeded | WFailed | WCancelled | WTimedOut | WSkipped

datatype dependency_policy = Hard | Soft | Always

datatype parse_domain_value_error = ParseDomainValueError string string

definition is_terminal_run :: "workflow_run_status \<Rightarrow> bool" where
  "is_terminal_run s = (s \<in> {WRemoved, WSucceeded, WFailed, WCancelled, WTimedOut, WSkipped})"

fun workflow_status_str :: "workflow_status \<Rightarrow> string" where
  "workflow_status_str Draft = ''draft''"
| "workflow_status_str Enabled = ''enabled''"
| "workflow_status_str Disabled = ''disabled''"

definition workflow_status_from_str :: "string \<Rightarrow> (parse_domain_value_error, workflow_status) result" where
  "workflow_status_from_str s =
     (if s = ''draft'' then Ok Draft
      else if s = ''enabled'' then Ok Enabled
      else if s = ''disabled'' then Ok Disabled
      else Err (ParseDomainValueError ''workflow status'' s))"

fun workflow_run_status_str :: "workflow_run_status \<Rightarrow> string" where
  "workflow_run_status_str WQueued = ''queued''"
| "workflow_run_status_str WRunning = ''running''"
| "workflow_run_status_str WRemoved = ''removed''"
| "workflow_run_status_str WSucceeded = ''succeeded''"
| "workflow_run_status_str WFailed = ''failed''"
| "workflow_run_status_str WCancelled = ''cancelled''"
| "workflow_run_status_str WTimedOut = ''timed_out''"
| "workflow_run_status_str WSkipped = ''skipped''"

definition run_status_from_str :: "string \<Rightarrow> (parse_domain_value_error, workflow_run_status) result" where
  "run_status_from_str s =
     (if s = ''queued'' then Ok WQueued
      else if s = ''running'' then Ok WRunning
      else if s = ''removed'' then Ok WRemoved
      else if s = ''succeeded'' then Ok WSucceeded
      else if s = ''failed'' then Ok WFailed
      else if s = ''cancelled'' then Ok WCancelled
      else if s = ''timed_out'' then Ok WTimedOut
      else if s = ''skipped'' then Ok WSkipped
      else Err (ParseDomainValueError ''workflow run status'' s))"

fun policy_str :: "dependency_policy \<Rightarrow> string" where
  "policy_str Hard = ''hard''"
| "policy_str Soft = ''soft''"
| "policy_str Always = ''always''"

definition policy_from_str :: "string \<Rightarrow> (parse_domain_value_error, dependency_policy) result" where
  "policy_from_str s =
     (if s = ''hard'' then Ok Hard
      else if s = ''soft'' then Ok Soft
      else if s = ''always'' then Ok Always
      else Err (ParseDomainValueError ''workflow dependency policy'' s))"

type_synonym step_id = string

record workflow_step =
  ws_id :: step_id
  ws_workflow :: string
  ws_position :: int
  ws_name :: string
  ws_job_definition :: string
  ws_pool :: string
  ws_timeout :: "u64 option"

record step_dependency =
  dep_from :: step_id
  dep_to :: step_id
  dep_policy :: dependency_policy

record workflow_definition =
  wd_id :: string
  wd_name :: string
  wd_description :: string
  wd_status :: workflow_status
  wd_steps :: "workflow_step list"
  wd_dependencies :: "step_dependency list"
  wd_deadline :: "u64 option"

definition dependency_new :: "step_id \<Rightarrow> step_id \<Rightarrow> step_dependency" where
  "dependency_new a b = \<lparr>dep_from = a, dep_to = b, dep_policy = Hard\<rparr>"

definition workflow_with_dependencies ::
  "string \<Rightarrow> string \<Rightarrow> string \<Rightarrow> workflow_status \<Rightarrow> workflow_step list \<Rightarrow> step_dependency list \<Rightarrow> workflow_definition" where
  "workflow_with_dependencies i name description status steps deps =
     \<lparr>wd_id = i, wd_name = name, wd_description = description, wd_status = status, wd_steps = steps,
      wd_dependencies = deps, wd_deadline = None\<rparr>"

text \<open>Without declared dependencies the steps form a chain in the order they are given.\<close>

fun chain :: "workflow_step list \<Rightarrow> step_dependency list" where
  "chain (a # b # steps) = dependency_new (ws_id a) (ws_id b) # chain (b # steps)"
| "chain steps = []"

definition workflow_new ::
  "string \<Rightarrow> string \<Rightarrow> string \<Rightarrow> workflow_status \<Rightarrow> workflow_step list \<Rightarrow> workflow_definition" where
  "workflow_new i name description status steps =
     workflow_with_dependencies i name description status steps (chain steps)"

section \<open>Construction\<close>

datatype workflow_graph_error =
    StepFromAnotherWorkflow step_id string string
  | UnknownStep step_id
  | SelfDependency step_id
  | DuplicateDependency step_id step_id
  | CycleDetected
  | DuplicateStepId step_id

record workflow_graph =
  wg_nodes :: "(step_id, workflow_step) btree_map"
  wg_outgoing :: "(step_id, step_id list) btree_map"
  wg_incoming :: "(step_id, step_id list) btree_map"
  wg_incoming_dependencies :: "(step_id, step_dependency list) btree_map"
  wg_order :: "step_id list"

definition add_node ::
  "string \<Rightarrow> (step_id, workflow_step) btree_map \<Rightarrow> workflow_step \<Rightarrow> (workflow_graph_error, (step_id, workflow_step) btree_map) result" where
  "add_node wid nodes step =
     (if ws_workflow step \<noteq> wid then Err (StepFromAnotherWorkflow (ws_id step) (ws_workflow step) wid)
      else if bt_contains nodes (ws_id step) then Err (DuplicateStepId (ws_id step))
      else Ok (bt_insert (ws_id step) step nodes))"

text \<open>\<open>get_mut\<close> on a key that is present.\<close>

definition bt_modify :: "'k \<Rightarrow> ('v \<Rightarrow> 'v) \<Rightarrow> ('k, 'v) btree_map \<Rightarrow> ('k, 'v) btree_map" where
  "bt_modify k f m = map (\<lambda>(k', v). if k' = k then (k', f v) else (k', v)) m"

record edge_state =
  es_edges :: "(step_id \<times> step_id) btree_set"
  es_outgoing :: "(step_id, step_id list) btree_map"
  es_incoming :: "(step_id, step_id list) btree_map"
  es_dependencies :: "(step_id, step_dependency list) btree_map"

definition add_edge ::
  "(step_id, workflow_step) btree_map \<Rightarrow> edge_state \<Rightarrow> step_dependency \<Rightarrow> (workflow_graph_error, edge_state) result" where
  "add_edge nodes st dep =
     (let a = dep_from dep; b = dep_to dep in
      if \<not> bt_contains nodes a then Err (UnknownStep a)
      else if \<not> bt_contains nodes b then Err (UnknownStep b)
      else if a = b then Err (SelfDependency a)
      else if (a, b) \<in> set (es_edges st) then Err (DuplicateDependency a b)
      else if \<not> bt_contains (es_outgoing st) a then Err (UnknownStep a)
      else if \<not> bt_contains (es_incoming st) b then Err (UnknownStep b)
      else if \<not> bt_contains (es_dependencies st) b then Err (UnknownStep b)
      else Ok \<lparr>es_edges = bs_insert (a, b) (es_edges st),
               es_outgoing = bt_modify a (\<lambda>xs. xs @ [b]) (es_outgoing st),
               es_incoming = bt_modify b (\<lambda>xs. xs @ [a]) (es_incoming st),
               es_dependencies = bt_modify b (\<lambda>ds. ds @ [dep]) (es_dependencies st)\<rparr>)"

definition no_adjacent :: "('k, 'v) btree_map \<Rightarrow> ('k, 'w list) btree_map" where
  "no_adjacent nodes = map (\<lambda>k. (k, [])) (bt_keys nodes)"

definition sort_adjacent :: "('k, 'v::linorder list) btree_map \<Rightarrow> ('k, 'v list) btree_map" where
  "sort_adjacent m = map (\<lambda>(k, vs). (k, sort vs)) m"

section \<open>The topological sort\<close>

text \<open>One child of the step that was just taken: its count of open prerequisites goes down, and it
  is ready when none is left.\<close>

type_synonym kahn_state = "(int \<times> step_id) btree_set \<times> (step_id, nat) btree_map"

definition release_child ::
  "(step_id, workflow_step) btree_map \<Rightarrow> step_id \<Rightarrow> kahn_state \<Rightarrow> kahn_state option" where
  "release_child nodes child = (\<lambda>(ready, degrees).
     case map_of degrees child of
       None \<Rightarrow> Some (ready, degrees)
     | Some degree \<Rightarrow>
         if degree = 0 then None
         else
           (let degrees' = bt_modify child (\<lambda>d. d - 1) degrees in
            if degree - 1 = 0 then
              (case map_of nodes child of
                 Some step \<Rightarrow> Some (bs_insert (ws_position step, child) ready, degrees')
               | None \<Rightarrow> Some (ready, degrees'))
            else Some (ready, degrees')))"

fun release_children ::
  "(step_id, workflow_step) btree_map \<Rightarrow> step_id list \<Rightarrow> kahn_state \<Rightarrow> kahn_state option" where
  "release_children nodes [] st = Some st"
| "release_children nodes (c # cs) st = Option.bind (release_child nodes c st) (release_children nodes cs)"

definition open_prerequisites :: "kahn_state \<Rightarrow> nat" where
  "open_prerequisites st = length (fst st) + sum_list (map snd (snd st))"

lemma length_bs_insert: "length (bs_insert x s) \<le> Suc (length s)"
  by (induction s) auto

lemma sum_bt_modify:
  "map_of m k = Some d \<Longrightarrow> 0 < d \<Longrightarrow>
   Suc (sum_list (map snd (bt_modify k (\<lambda>d. d - 1) m))) \<le> sum_list (map snd (m :: ('k \<times> nat) list))"
proof (induction m)
  case (Cons kv m)
  have keep: "sum_list (map snd (bt_modify k (\<lambda>d. d - 1) m)) \<le> sum_list (map snd m)"
    by (induction m) (auto simp: bt_modify_def intro: add_mono)
  from Cons show ?case
    by (cases kv) (use keep in \<open>auto simp: bt_modify_def split: if_splits\<close>)
qed simp

lemma release_child_measure:
  "release_child nodes c st = Some st' \<Longrightarrow> open_prerequisites st' \<le> open_prerequisites st"
proof -
  assume st': "release_child nodes c st = Some st'"
  obtain ready degrees where st: "st = (ready, degrees)" by fastforce
  show ?thesis
  proof (cases "map_of degrees c")
    case None
    then show ?thesis using st' by (simp add: st release_child_def)
  next
    case (Some d)
    with st' have d: "0 < d" by (auto simp: st release_child_def split: if_splits)
    note less = sum_bt_modify [OF Some d]
    from st' Some d obtain ready' where "st' = (ready', bt_modify c (\<lambda>d. d - 1) degrees)" "length ready' \<le> Suc (length ready)"
      using length_bs_insert [of _ ready]
      by (auto simp: st release_child_def Let_def split: if_splits option.splits)
    then show ?thesis using less by (simp add: open_prerequisites_def st)
  qed
qed

lemma release_children_measure:
  "release_children nodes cs st = Some st' \<Longrightarrow> open_prerequisites st' \<le> open_prerequisites st"
  by (induction cs arbitrary: st) (auto simp: bind_eq_Some_conv dest: release_child_measure intro: le_trans)

text \<open>The loop: the ready step with the least position, then the least identifier, comes next.\<close>

function kahn ::
  "(step_id, workflow_step) btree_map \<Rightarrow> (step_id, step_id list) btree_map \<Rightarrow> kahn_state \<Rightarrow> step_id list
   \<Rightarrow> step_id list option" where
  "kahn nodes outgoing (ready, degrees) taken =
     (case ready of
        [] \<Rightarrow> Some taken
      | key # ready' \<Rightarrow>
          (let i = snd key in
           case map_of outgoing i of
             None \<Rightarrow> kahn nodes outgoing (ready', degrees) (taken @ [i])
           | Some children \<Rightarrow>
               (case release_children nodes children (ready', degrees) of
                  None \<Rightarrow> None
                | Some st \<Rightarrow> kahn nodes outgoing st (taken @ [i]))))"
  by pat_completeness auto
termination
proof (relation "measure (\<lambda>(nodes, outgoing, st, taken). open_prerequisites st)", goal_cases)
  case (3 nodes outgoing ready degrees taken key ready' i children st)
  then have "open_prerequisites st \<le> open_prerequisites (ready', degrees)"
    by (simp add: release_children_measure)
  then show ?case using 3 by (cases st) (simp add: open_prerequisites_def)
qed (auto simp: open_prerequisites_def)

declare kahn.simps [simp del]

definition initial_ready ::
  "(step_id, workflow_step) btree_map \<Rightarrow> (step_id, nat) btree_map \<Rightarrow> (int \<times> step_id) btree_set" where
  "initial_ready nodes degrees =
     bs_collect (filter_map (\<lambda>(i, degree).
       if degree = 0 then map_option (\<lambda>step. (ws_position step, i)) (map_of nodes i) else None) degrees)"

definition topological_sort ::
  "(step_id, workflow_step) btree_map \<Rightarrow> (step_id, step_id list) btree_map \<Rightarrow> (step_id, step_id list) btree_map
   \<Rightarrow> (workflow_graph_error, step_id list) result option" where
  "topological_sort nodes outgoing incoming =
     (let degrees = map (\<lambda>(i, parents). (i, length parents)) incoming in
      case kahn nodes outgoing (initial_ready nodes degrees, degrees) [] of
        None \<Rightarrow> None
      | Some taken \<Rightarrow> Some (if length taken \<noteq> length nodes then Err CycleDetected else Ok taken))"

definition workflow_graph_new ::
  "string \<Rightarrow> workflow_step list \<Rightarrow> step_dependency list \<Rightarrow> (workflow_graph_error, workflow_graph) result option" where
  "workflow_graph_new wid steps deps =
     (case try_fold (add_node wid) [] steps of
        Inl e \<Rightarrow> Some (Err e)
      | Inr nodes \<Rightarrow>
          (case try_fold (add_edge nodes)
                  \<lparr>es_edges = [], es_outgoing = no_adjacent nodes, es_incoming = no_adjacent nodes,
                   es_dependencies = no_adjacent nodes\<rparr> deps of
             Inl e \<Rightarrow> Some (Err e)
           | Inr st \<Rightarrow>
               (let outgoing = sort_adjacent (es_outgoing st); incoming = sort_adjacent (es_incoming st) in
                case topological_sort nodes outgoing incoming of
                  None \<Rightarrow> None
                | Some (Inl e) \<Rightarrow> Some (Err e)
                | Some (Inr order) \<Rightarrow>
                    Some (Ok \<lparr>wg_nodes = nodes, wg_outgoing = outgoing, wg_incoming = incoming,
                              wg_incoming_dependencies = es_dependencies st, wg_order = order\<rparr>))))"

section \<open>Queries\<close>

definition roots :: "workflow_graph \<Rightarrow> workflow_step list" where
  "roots g = filter_map (map_of (wg_nodes g))
     (filter (\<lambda>i. case map_of (wg_incoming g) i of None \<Rightarrow> False | Some parents \<Rightarrow> parents = []) (wg_order g))"

definition ready_steps :: "workflow_graph \<Rightarrow> step_id btree_set \<Rightarrow> step_id btree_set \<Rightarrow> workflow_step list" where
  "ready_steps g started succeeded = filter_map (map_of (wg_nodes g))
     (filter (\<lambda>i. i \<notin> set started \<and>
        (case map_of (wg_incoming g) i of
           None \<Rightarrow> False
         | Some parents \<Rightarrow> list_all (\<lambda>p. p \<in> set succeeded) parents)) (wg_order g))"

definition dependency_met :: "(step_id, workflow_run_status) btree_map \<Rightarrow> step_dependency \<Rightarrow> bool" where
  "dependency_met states dep =
     (let parent_status = map_of states (dep_from dep) in
      if dep_policy dep = Hard then parent_status = Some WSucceeded
      else (case parent_status of None \<Rightarrow> False | Some s \<Rightarrow> is_terminal_run s))"

definition ready_steps_with_policies ::
  "workflow_graph \<Rightarrow> step_id btree_set \<Rightarrow> (step_id, workflow_run_status) btree_map \<Rightarrow> workflow_step list" where
  "ready_steps_with_policies g started states = filter_map (map_of (wg_nodes g))
     (filter (\<lambda>i. i \<notin> set started \<and>
        (case map_of (wg_incoming_dependencies g) i of
           None \<Rightarrow> False
         | Some parents \<Rightarrow> list_all (dependency_met states) parents)) (wg_order g))"

definition dependency_broken :: "(step_id, workflow_run_status) btree_map \<Rightarrow> step_dependency \<Rightarrow> bool" where
  "dependency_broken states dep =
     (dep_policy dep = Hard \<and>
      (case map_of states (dep_from dep) of
         None \<Rightarrow> False
       | Some s \<Rightarrow> s \<in> {WFailed, WCancelled, WTimedOut, WSkipped}))"

definition blocked_steps_after_terminal_failure ::
  "workflow_graph \<Rightarrow> step_id btree_set \<Rightarrow> (step_id, workflow_run_status) btree_map \<Rightarrow> workflow_step list" where
  "blocked_steps_after_terminal_failure g started states = filter_map (map_of (wg_nodes g))
     (filter (\<lambda>i.
        (case map_of (wg_incoming_dependencies g) i of
           None \<Rightarrow> False
         | Some parents \<Rightarrow> list_ex (dependency_broken states) parents))
      (filter (\<lambda>i. i \<notin> set started) (wg_order g)))"

end
