(* ===== verification/Job_Runs.thy ===== *)
theory Job_Runs
  imports Ordered_Map "HOL-Library.Product_Lexorder"
begin

text \<open>
  Job runs: the aggregate with its state machine (\<open>crates/core/src/domain/job.rs\<close>), the table the
  workers share (\<open>crates/postgres/src/job_runs.rs\<close>, \<open>repositories.rs\<close>), and the decisions of a worker
  (\<open>crates/application/src/execution.rs\<close>).

  The table is the list of its rows by identifier. Every operation is one SQL statement, so it is
  one atomic step; \<open>now()\<close> is an argument, in microseconds, and so are the rows and pools that
  another transaction holds locked while work is leased. A column that is NULL is \<open>None\<close>, and a
  comparison with it does not hold.
\<close>

section \<open>The aggregate\<close>

datatype job_run_status =
    JQueued | JLeased | JRunning | JSucceeded | JFailed | JCancelled | JTimedOut | JRetryScheduled

definition job_is_terminal :: "job_run_status \<Rightarrow> bool" where
  "job_is_terminal s = (s \<in> {JSucceeded, JFailed, JCancelled, JTimedOut})"

fun job_status_str :: "job_run_status \<Rightarrow> string" where
  "job_status_str JQueued = ''queued''"
| "job_status_str JLeased = ''leased''"
| "job_status_str JRunning = ''running''"
| "job_status_str JSucceeded = ''succeeded''"
| "job_status_str JFailed = ''failed''"
| "job_status_str JCancelled = ''cancelled''"
| "job_status_str JTimedOut = ''timed_out''"
| "job_status_str JRetryScheduled = ''retry_scheduled''"

datatype job_transition = Lease | StartAttempt | Succeed | Fail | Cancel | TimeOut | ScheduleRetry | Requeue

fun transition_target :: "job_transition \<Rightarrow> job_run_status" where
  "transition_target Lease = JLeased"
| "transition_target StartAttempt = JRunning"
| "transition_target Succeed = JSucceeded"
| "transition_target Fail = JFailed"
| "transition_target Cancel = JCancelled"
| "transition_target TimeOut = JTimedOut"
| "transition_target ScheduleRetry = JRetryScheduled"
| "transition_target Requeue = JQueued"

datatype state_transition_error = StateTransitionError job_run_status job_run_status

definition is_allowed_transition :: "job_run_status \<Rightarrow> job_run_status \<Rightarrow> bool" where
  "is_allowed_transition a b =
     (case a of
        JQueued \<Rightarrow> b \<in> {JLeased, JCancelled}
      | JLeased \<Rightarrow> b \<in> {JRunning, JCancelled}
      | JRunning \<Rightarrow> b \<in> {JSucceeded, JFailed, JTimedOut, JCancelled}
      | JFailed \<Rightarrow> b = JRetryScheduled
      | JTimedOut \<Rightarrow> b = JRetryScheduled
      | JRetryScheduled \<Rightarrow> b = JQueued
      | _ \<Rightarrow> False)"

record job_run =
  run_ident :: string
  run_definition :: string
  run_pool :: string
  run_input :: string
  run_job_status :: job_run_status
  run_attempts :: u32
  run_created :: int

definition job_run_new :: "string \<Rightarrow> string \<Rightarrow> string \<Rightarrow> job_run" where
  "job_run_new i definition_id pool =
     \<lparr>run_ident = i, run_definition = definition_id, run_pool = pool, run_input = ''{}'',
      run_job_status = JQueued, run_attempts = 0, run_created = 0\<rparr>"

definition with_input :: "job_run \<Rightarrow> string \<Rightarrow> (string, job_run) result" where
  "with_input run input =
     (if trim input = [] then Err ''job run input cannot be empty'' else Ok (run\<lparr>run_input := input\<rparr>))"

definition transition_to :: "job_run \<Rightarrow> job_run_status \<Rightarrow> (state_transition_error, job_run) result" where
  "transition_to run next =
     (if is_allowed_transition (run_job_status run) next then Ok (run\<lparr>run_job_status := next\<rparr>)
      else Err (StateTransitionError (run_job_status run) next))"

definition apply_transition :: "job_run \<Rightarrow> job_transition \<Rightarrow> (state_transition_error, job_run) result" where
  "apply_transition run t =
     and_then (transition_to run (transition_target t))
       (\<lambda>run'. Ok (if t = StartAttempt then run'\<lparr>run_attempts := run_attempts run' + 1\<rparr> else run'))"

section \<open>The table\<close>

datatype job_store_error = AttemptOverflow | InvalidPersistedValue string

record job_row =
  row_definition :: string
  row_pool :: string
  row_input :: string
  row_status :: job_run_status
  row_attempts :: int
  row_lease_owner :: "string option"
  row_lease_expires :: "int option"
  row_heartbeat :: "int option"
  row_retry_ready :: "int option"
  row_timeout :: "int option"
  row_created :: int

type_synonym job_table = "(string, job_row) btree_map"

definition seconds :: "int \<Rightarrow> int" where
  "seconds n = n * 1000000"

definition due :: "int \<Rightarrow> int option \<Rightarrow> bool" where
  "due now t = (case t of None \<Rightarrow> False | Some x \<Rightarrow> x \<le> now)"

definition not_due :: "int \<Rightarrow> int option \<Rightarrow> bool" where
  "not_due now t = (case t of None \<Rightarrow> False | Some x \<Rightarrow> now < x)"

definition row_to_job_run :: "string \<Rightarrow> job_row \<Rightarrow> (job_store_error, job_run) result" where
  "row_to_job_run i row =
     (if trim i = [] then Err (InvalidPersistedValue ''JobRunId cannot be empty'')
      else if trim (row_definition row) = [] then Err (InvalidPersistedValue ''JobDefinitionId cannot be empty'')
      else if trim (row_pool row) = [] then Err (InvalidPersistedValue ''execution pool name cannot be empty'')
      else if row_attempts row < 0 then Err (InvalidPersistedValue ''negative attempt count'')
      else Ok \<lparr>run_ident = i, run_definition = row_definition row, run_pool = row_pool row,
               run_input = row_input row, run_job_status = row_status row,
               run_attempts = word_of_int (row_attempts row), run_created = row_created row\<rparr>)"

definition find_by_id :: "job_table \<Rightarrow> string \<Rightarrow> (job_store_error, job_run option) result" where
  "find_by_id t i =
     (case map_of t i of
        None \<Rightarrow> Ok None
      | Some row \<Rightarrow> and_then (row_to_job_run i row) (\<lambda>run. Ok (Some run)))"

text \<open>\<open>i32::try_from\<close> on the attempt count.\<close>

definition attempts_i32 :: "u32 \<Rightarrow> (job_store_error, int) result" where
  "attempts_i32 n = (if uint n < 2 ^ 31 then Ok (uint n) else Err AttemptOverflow)"

text \<open>\<open>save\<close> inserts a run, or overwrites the row of one that is not terminal, except that a run in
  flight is not put back into the queue.\<close>

definition save :: "int \<Rightarrow> job_run \<Rightarrow> job_table \<Rightarrow> (job_store_error, job_table) result" where
  "save now run t =
     and_then (attempts_i32 (run_attempts run)) (\<lambda>attempts.
       case map_of t (run_ident run) of
         None \<Rightarrow>
           Ok (bt_insert (run_ident run)
             \<lparr>row_definition = run_definition run, row_pool = run_pool run, row_input = run_input run,
              row_status = run_job_status run, row_attempts = attempts, row_lease_owner = None,
              row_lease_expires = None, row_heartbeat = None, row_retry_ready = None, row_timeout = None,
              row_created = now\<rparr> t)
       | Some row \<Rightarrow>
           if \<not> job_is_terminal (row_status row) \<and> (row_status row = JQueued \<or> run_job_status run \<noteq> JQueued)
           then Ok (bt_insert (run_ident run)
             (row\<lparr>row_status := run_job_status run, row_pool := run_pool run, row_input := run_input run,
                  row_attempts := attempts\<rparr>) t)
           else Ok t)"

text \<open>Leasing. \<open>limits\<close> holds the capacity of each pool, \<open>held\<close> the rows another transaction has locked or
  that are newer than the statement's snapshot, and \<open>pool_held\<close> the pools whose advisory lock another
  transaction has. A locked row is read again in its present state \<open>t\<close>, but the leases of a pool are
  counted in the snapshot \<open>seen\<close>, which under \<open>READ COMMITTED\<close> is taken when the statement begins and so
  may be older than the advisory lock.\<close>

definition pool_limit :: "(string \<times> int) list \<Rightarrow> int \<Rightarrow> string \<Rightarrow> int" where
  "pool_limit limits fallback pool = (case map_of limits pool of None \<Rightarrow> fallback | Some n \<Rightarrow> n)"

definition active_in_pool :: "int \<Rightarrow> string \<Rightarrow> job_table \<Rightarrow> nat" where
  "active_in_pool now pool t =
     length (filter (\<lambda>(i, row). row_pool row = pool \<and> row_status row \<in> {JLeased, JRunning} \<and>
                       not_due now (row_lease_expires row)) t)"

definition leasable :: "int \<Rightarrow> bool \<Rightarrow> job_row \<Rightarrow> bool" where
  "leasable now reattach row =
     (row_status row = JQueued \<or> reattach \<and> row_status row = JRunning \<and> due now (row_lease_expires row))"

definition lease_candidates ::
  "int \<Rightarrow> (string \<times> int) list \<Rightarrow> int \<Rightarrow> bool \<Rightarrow> (string \<Rightarrow> bool) \<Rightarrow> job_table \<Rightarrow> (string \<times> job_row) list" where
  "lease_candidates now limits fallback reattach held t =
     take 32 (sort_key (\<lambda>(i, row). (row_created row, i))
       (filter (\<lambda>(i, row). leasable now reattach row \<and> pool_limit limits fallback (row_pool row) > 0 \<and> \<not> held i) t))"

definition lease_row :: "int \<Rightarrow> string \<Rightarrow> int \<Rightarrow> job_row \<Rightarrow> job_row" where
  "lease_row now worker lease_seconds row =
     row\<lparr>row_status := (if row_status row = JRunning then JRunning else JLeased), row_lease_owner := Some worker,
         row_lease_expires := Some (now + seconds lease_seconds), row_heartbeat := Some now\<rparr>"

definition lease_next_queued_run_with_limits ::
  "int \<Rightarrow> string \<Rightarrow> int \<Rightarrow> (string \<times> int) list \<Rightarrow> int \<Rightarrow> bool \<Rightarrow> (string \<Rightarrow> bool) \<Rightarrow> (string \<Rightarrow> bool) \<Rightarrow> job_table \<Rightarrow> job_table
   \<Rightarrow> (job_store_error, job_run option) result \<times> job_table" where
  "lease_next_queued_run_with_limits now worker lease_seconds limits fallback reattach held pool_held seen t =
     (case find (\<lambda>(i, row). \<not> pool_held (row_pool row) \<and>
               int (active_in_pool now (row_pool row) seen) < pool_limit limits fallback (row_pool row))
             (lease_candidates now limits fallback reattach held t) of
        None \<Rightarrow> (Ok None, t)
      | Some (i, row) \<Rightarrow>
          (let row' = lease_row now worker lease_seconds row in
           (and_then (row_to_job_run i row') (\<lambda>run. Ok (Some run)), bt_insert i row' t)))"

definition i32_max :: int where
  "i32_max = 2147483647"

definition lease_next_queued_run ::
  "int \<Rightarrow> string \<Rightarrow> int \<Rightarrow> (string \<Rightarrow> bool) \<Rightarrow> (string \<Rightarrow> bool) \<Rightarrow> job_table \<Rightarrow> job_table
   \<Rightarrow> (job_store_error, job_run option) result \<times> job_table" where
  "lease_next_queued_run now worker lease_seconds held pool_held seen t =
     lease_next_queued_run_with_limits now worker lease_seconds [] i32_max False held pool_held seen t"

text \<open>The limits of the configuration are bound as 32-bit integers; a later entry of the same name
  wins, and a pool that is not configured has no capacity.\<close>

fun limits_i32 :: "(string \<times> u32) list \<Rightarrow> (job_store_error, (string \<times> int) list) result" where
  "limits_i32 [] = Ok []"
| "limits_i32 ((name, limit) # rest) =
     (if uint limit > i32_max then Err (InvalidPersistedValue (''pool limit is too large: '' @ name))
      else and_then (limits_i32 rest) (\<lambda>ls. Ok ((name, uint limit) # ls)))"

definition lease_with_pool_limits ::
  "int \<Rightarrow> string \<Rightarrow> int \<Rightarrow> (string \<times> u32) list \<Rightarrow> bool \<Rightarrow> (string \<Rightarrow> bool) \<Rightarrow> (string \<Rightarrow> bool) \<Rightarrow> job_table \<Rightarrow> job_table
   \<Rightarrow> (job_store_error, job_run option) result \<times> job_table" where
  "lease_with_pool_limits now worker lease_seconds pool_limits reattach held pool_held seen t =
     (case limits_i32 pool_limits of
        Inl e \<Rightarrow> (Err e, t)
      | Inr limits \<Rightarrow>
          lease_next_queued_run_with_limits now worker lease_seconds (rev limits) 0 reattach held pool_held seen t)"

definition heartbeat_run :: "int \<Rightarrow> string \<Rightarrow> string \<Rightarrow> int \<Rightarrow> job_table \<Rightarrow> bool \<times> job_table" where
  "heartbeat_run now i worker lease_seconds t =
     (case map_of t i of
        Some row \<Rightarrow>
          if row_lease_owner row = Some worker \<and> row_status row \<in> {JLeased, JRunning}
          then (True, bt_insert i (row\<lparr>row_heartbeat := Some now,
                  row_lease_expires := Some (now + seconds lease_seconds)\<rparr>) t)
          else (False, t)
      | None \<Rightarrow> (False, t))"

definition cancel_run :: "string \<Rightarrow> job_table \<Rightarrow> (job_store_error, job_run option) result \<times> job_table" where
  "cancel_run i t =
     (case map_of t i of
        Some row \<Rightarrow>
          if row_status row \<in> {JQueued, JLeased, JRunning, JRetryScheduled} then
            (let row' = row\<lparr>row_status := JCancelled, row_lease_owner := None, row_lease_expires := None,
                            row_heartbeat := None, row_retry_ready := None\<rparr> in
             (and_then (row_to_job_run i row') (\<lambda>run. Ok (Some run)), bt_insert i row' t))
          else (find_by_id t i, t)
      | None \<Rightarrow> (find_by_id t i, t))"

text \<open>Finishing an attempt, with the delay of a retry as an \<open>i32\<close> number of seconds.\<close>

definition finish_running_attempt ::
  "int \<Rightarrow> string \<Rightarrow> u32 \<Rightarrow> string \<Rightarrow> job_run_status \<Rightarrow> u64 option \<Rightarrow> job_table
   \<Rightarrow> (job_store_error, job_run option) result \<times> job_table" where
  "finish_running_attempt now i attempts worker status delay t =
     (case attempts_i32 attempts of
        Inl e \<Rightarrow> (Err e, t)
      | Inr n \<Rightarrow>
          if (case delay of None \<Rightarrow> False | Some s \<Rightarrow> uint s > i32_max)
          then (Err (InvalidPersistedValue ''retry delay is too large''), t)
          else
            (case map_of t i of
               Some row \<Rightarrow>
                 if row_attempts row = n \<and> row_lease_owner row = Some worker \<and> row_status row = JRunning then
                   (let row' = row\<lparr>row_status := status, row_lease_owner := None, row_lease_expires := None,
                                   row_heartbeat := None,
                                   row_retry_ready := map_option (\<lambda>s. now + seconds (uint s)) delay\<rparr> in
                    (and_then (row_to_job_run i row') (\<lambda>run. Ok (Some run)), bt_insert i row' t))
                 else (Ok None, t)
             | None \<Rightarrow> (Ok None, t)))"

definition update_rows :: "(job_row \<Rightarrow> bool) \<Rightarrow> (job_row \<Rightarrow> job_row) \<Rightarrow> job_table \<Rightarrow> job_table" where
  "update_rows p f t = map (\<lambda>(i, row). (i, if p row then f row else row)) t"

definition promote_ready_retries :: "int \<Rightarrow> job_table \<Rightarrow> job_table" where
  "promote_ready_retries now t =
     update_rows (\<lambda>row. row_status row = JRetryScheduled \<and> due now (row_retry_ready row))
       (\<lambda>row. row\<lparr>row_status := JQueued, row_retry_ready := None\<rparr>) t"

definition recover_expired_leases_for_runner :: "int \<Rightarrow> bool \<Rightarrow> job_table \<Rightarrow> job_table" where
  "recover_expired_leases_for_runner now preserve_running t =
     update_rows (\<lambda>row. (row_status row = JLeased \<or> \<not> preserve_running \<and> row_status row = JRunning) \<and>
                        due now (row_lease_expires row))
       (\<lambda>row. row\<lparr>row_status := JQueued, row_lease_owner := None, row_lease_expires := None, row_heartbeat := None\<rparr>) t"

definition recover_expired_leases :: "int \<Rightarrow> job_table \<Rightarrow> job_table" where
  "recover_expired_leases now t = recover_expired_leases_for_runner now False t"

definition is_run_cancelled :: "string \<Rightarrow> job_table \<Rightarrow> bool" where
  "is_run_cancelled i t = (case map_of t i of None \<Rightarrow> False | Some row \<Rightarrow> row_status row = JCancelled)"

definition job_run_timeout_seconds :: "string \<Rightarrow> job_table \<Rightarrow> (job_store_error, u64 option) result" where
  "job_run_timeout_seconds i t =
     (case map_of t i of
        None \<Rightarrow> Ok None
      | Some row \<Rightarrow>
          (case row_timeout row of
             None \<Rightarrow> Ok None
           | Some n \<Rightarrow>
               if n < 0
               then Err (InvalidPersistedValue ''out of range integral type conversion attempted'')
               else Ok (Some (word_of_int n))))"

definition active_leased_run_ids :: "job_table \<Rightarrow> (job_store_error, string list) result" where
  "active_leased_run_ids t =
     (let ids = map fst (filter (\<lambda>(i, row). row_status row \<in> {JLeased, JRunning}) t) in
      if list_ex (\<lambda>i. trim i = []) ids then Err (InvalidPersistedValue ''JobRunId cannot be empty'') else Ok ids)"

section \<open>The worker's decisions\<close>

datatype worker_tick_outcome =
    NoRunAvailable | RunSucceeded | RunFailed | RunTimedOut | RunCancelled | RunRetryScheduled

datatype run_outcome = OutSucceeded | OutFailed | OutTimedOut | OutCancelled

text \<open>A third of the lease, at least a second.\<close>

definition heartbeat_seconds :: "i64 \<Rightarrow> u64 option" where
  "heartbeat_seconds lease_seconds =
     (case u64_try_from_i64 lease_seconds of
        None \<Rightarrow> None
      | Some s \<Rightarrow> if s > 0 then Some (max (s div 3) 1) else None)"

definition retry_decision ::
  "job_run \<Rightarrow> u32 \<Rightarrow> u64 \<Rightarrow> job_run_status \<Rightarrow> worker_tick_outcome
   \<Rightarrow> job_run_status \<times> u64 option \<times> worker_tick_outcome" where
  "retry_decision run max_attempts delay failed_status exhausted =
     (if run_attempts run < max_attempts then (JRetryScheduled, Some delay, RunRetryScheduled)
      else (failed_status, None, exhausted))"

text \<open>The status an attempt ends with: a rejected artifact fails it for good.\<close>

definition final_status ::
  "job_run \<Rightarrow> u32 \<Rightarrow> u64 \<Rightarrow> bool \<Rightarrow> run_outcome \<Rightarrow> job_run_status \<times> u64 option \<times> worker_tick_outcome" where
  "final_status run max_attempts delay rejected out =
     (if rejected then (JFailed, None, RunFailed)
      else case out of
        OutSucceeded \<Rightarrow> (JSucceeded, None, RunSucceeded)
      | OutCancelled \<Rightarrow> (JCancelled, None, RunCancelled)
      | OutFailed \<Rightarrow> retry_decision run max_attempts delay JFailed RunFailed
      | OutTimedOut \<Rightarrow> retry_decision run max_attempts delay JTimedOut RunTimedOut)"

end
