(* ===== verification/Workflow_Runs.thy ===== *)
theory Workflow_Runs
  imports Workflow_Graph Job_Runs
begin

text \<open>
  Runs of a workflow (\<open>crates/postgres/src/workflow_runs.rs\<close>): the snapshot a run pins of its
  definition, creation, removal, cancellation and resumption, and the scheduler's transaction that
  starts, skips and finishes steps.

  The state holds the three tables the transactions share, the runs, the step runs and the job runs,
  beside the workflow definitions. A transaction is one step: it returns the state it commits, or an
  error, after which the state is the one before it. An insertion that breaks a constraint of the
  schema (\<open>migrations/\<close>) is such an error. \<open>now()\<close> is an argument, and so are the identifiers
  \<open>generated_store_id\<close> makes, the outcome of the advisory lock and the job definitions that exist.
\<close>

section \<open>Snapshots\<close>

text \<open>The values of \<open>serde_json\<close>; a number that is not an integer is kept as its text.\<close>

datatype json =
    JsonNull
  | JsonBool bool
  | JsonInt int
  | JsonFloat string
  | JsonText string
  | JsonArray "json list"
  | JsonObject "(string \<times> json) list"

fun json_get :: "json \<Rightarrow> string \<Rightarrow> json option" where
  "json_get (JsonObject fs) key = map_of fs key"
| "json_get j key = None"

fun json_str :: "json \<Rightarrow> string option" where
  "json_str (JsonText s) = Some s"
| "json_str j = None"

fun json_array :: "json \<Rightarrow> json list option" where
  "json_array (JsonArray js) = Some js"
| "json_array j = None"

fun json_i64 :: "json \<Rightarrow> int option" where
  "json_i64 (JsonInt n) = (if - (2 ^ 63) \<le> n \<and> n < 2 ^ 63 then Some n else None)"
| "json_i64 j = None"

fun json_u64 :: "json \<Rightarrow> u64 option" where
  "json_u64 (JsonInt n) = (if 0 \<le> n \<and> n < 2 ^ 64 then Some (word_of_int n) else None)"
| "json_u64 j = None"

definition json_seconds :: "u64 option \<Rightarrow> json" where
  "json_seconds t = (case t of None \<Rightarrow> JsonNull | Some s \<Rightarrow> JsonInt (uint s))"

definition step_json :: "workflow_step \<Rightarrow> json" where
  "step_json step =
     JsonObject
       [(''id'', JsonText (ws_id step)),
        (''position'', JsonInt (ws_position step)),
        (''name'', JsonText (ws_name step)),
        (''job_definition_id'', JsonText (ws_job_definition step)),
        (''execution_pool'', JsonText (ws_pool step)),
        (''timeout_seconds'', json_seconds (ws_timeout step))]"

definition dependency_json :: "step_dependency \<Rightarrow> json" where
  "dependency_json dep =
     JsonObject
       [(''from_step_id'', JsonText (dep_from dep)),
        (''to_step_id'', JsonText (dep_to dep)),
        (''policy'', JsonText (policy_str (dep_policy dep)))]"

definition workflow_snapshot_json :: "workflow_definition \<Rightarrow> json" where
  "workflow_snapshot_json w =
     JsonObject
       [(''steps'', JsonArray (map step_json (wd_steps w))),
        (''dependencies'', JsonArray (map dependency_json (wd_dependencies w))),
        (''deadline_seconds'', json_seconds (wd_deadline w))]"

datatype wf_store_error =
    WInvalidPersistedValue string
  | WGraph workflow_graph_error
  | WDatabase
  | WPanic

definition invalid_snapshot :: "string \<Rightarrow> wf_store_error" where
  "invalid_snapshot message = WInvalidPersistedValue (''invalid workflow snapshot: '' @ message)"

definition snapshot_string :: "json \<Rightarrow> string \<Rightarrow> (wf_store_error, string) result" where
  "snapshot_string j key =
     (case Option.bind (json_get j key) json_str of
        None \<Rightarrow> Err (invalid_snapshot (''missing string field '' @ key))
      | Some s \<Rightarrow> Ok s)"

definition snapshot_i32 :: "json \<Rightarrow> string \<Rightarrow> (wf_store_error, int) result" where
  "snapshot_i32 j key =
     (case Option.bind (json_get j key) json_i64 of
        None \<Rightarrow> Err (invalid_snapshot (''missing integer field '' @ key))
      | Some n \<Rightarrow>
          if - (2 ^ 31) \<le> n \<and> n < 2 ^ 31 then Ok n
          else Err (invalid_snapshot (''integer field '' @ key @ '' out of range'')))"

definition snapshot_optional_u64 :: "json \<Rightarrow> string \<Rightarrow> (wf_store_error, u64 option) result" where
  "snapshot_optional_u64 j key =
     (case json_get j key of
        None \<Rightarrow> Ok None
      | Some JsonNull \<Rightarrow> Ok None
      | Some v \<Rightarrow>
          (case json_u64 v of
             None \<Rightarrow> Err (invalid_snapshot (''field '' @ key @ '' must be unsigned integer''))
           | Some n \<Rightarrow> Ok (Some n)))"

text \<open>The constructors of the identifiers refuse blank text.\<close>

definition persisted_id :: "string \<Rightarrow> string \<Rightarrow> (wf_store_error, string) result" where
  "persisted_id type_name s = (if trim s = [] then Err (WInvalidPersistedValue (type_name @ '' cannot be empty'')) else Ok s)"

definition step_from_snapshot :: "string \<Rightarrow> json \<Rightarrow> (wf_store_error, workflow_step) result" where
  "step_from_snapshot wid j =
     and_then (snapshot_string j ''id'') (\<lambda>i. and_then (persisted_id ''WorkflowStepId'' i) (\<lambda>i.
     and_then (snapshot_i32 j ''position'') (\<lambda>position.
     and_then (snapshot_string j ''name'') (\<lambda>name.
     and_then (snapshot_string j ''job_definition_id'') (\<lambda>d. and_then (persisted_id ''JobDefinitionId'' d) (\<lambda>d.
     and_then (snapshot_string j ''execution_pool'') (\<lambda>pool. and_then (persisted_id ''execution pool name'' pool) (\<lambda>pool.
     and_then (snapshot_optional_u64 j ''timeout_seconds'') (\<lambda>timeout.
       Ok \<lparr>ws_id = i, ws_workflow = wid, ws_position = position, ws_name = name, ws_job_definition = d,
           ws_pool = pool, ws_timeout = timeout\<rparr>)))))))))"

definition dependency_from_snapshot :: "json \<Rightarrow> (wf_store_error, step_dependency) result" where
  "dependency_from_snapshot j =
     and_then (snapshot_string j ''from_step_id'') (\<lambda>a. and_then (persisted_id ''WorkflowStepId'' a) (\<lambda>a.
     and_then (snapshot_string j ''to_step_id'') (\<lambda>b. and_then (persisted_id ''WorkflowStepId'' b) (\<lambda>b.
       case policy_from_str (case Option.bind (json_get j ''policy'') json_str of None \<Rightarrow> ''hard'' | Some p \<Rightarrow> p) of
         Inl (ParseDomainValueError kind v) \<Rightarrow> Err (WInvalidPersistedValue (''unknown '' @ kind @ '' '' @ v))
       | Inr policy \<Rightarrow> Ok \<lparr>dep_from = a, dep_to = b, dep_policy = policy\<rparr>))))"

definition workflow_from_snapshot :: "string \<Rightarrow> json \<Rightarrow> (wf_store_error, workflow_definition) result" where
  "workflow_from_snapshot wid j =
     (case Option.bind (json_get j ''steps'') json_array of
        None \<Rightarrow> Err (invalid_snapshot ''missing steps'')
      | Some steps_json \<Rightarrow>
          and_then (try_map (step_from_snapshot wid) steps_json) (\<lambda>steps.
            case Option.bind (json_get j ''dependencies'') json_array of
              None \<Rightarrow> Err (invalid_snapshot ''missing dependencies'')
            | Some deps_json \<Rightarrow>
                and_then (try_map dependency_from_snapshot deps_json) (\<lambda>deps.
                and_then (snapshot_optional_u64 j ''deadline_seconds'') (\<lambda>deadline.
                  Ok ((workflow_with_dependencies wid [] [] Enabled steps deps)\<lparr>wd_deadline := deadline\<rparr>)))))"

section \<open>The tables\<close>

record wf_run_row =
  wr_workflow :: string
  wr_automation :: "string option"
  wr_input :: string
  wr_status :: workflow_run_status
  wr_position :: int
  wr_snapshot :: "json option"
  wr_deadline :: "int option"
  wr_created :: int
  wr_finished :: "int option"

record step_run_row =
  sr_id :: string
  sr_run :: string
  sr_step :: step_id
  sr_job :: "string option"
  sr_position :: int
  sr_status :: workflow_run_status

record wf_state =
  wf_runs :: "(string, wf_run_row) btree_map"
  wf_steps :: "step_run_row list"
  wf_jobs :: job_table
  wf_definitions :: "string \<Rightarrow> workflow_definition option"

record workflow_run =
  wrun_id :: string
  wrun_workflow :: string
  wrun_automation :: "string option"
  wrun_input :: string
  wrun_status :: workflow_run_status
  wrun_position :: int
  wrun_created :: int

definition row_to_workflow_run :: "string \<Rightarrow> wf_run_row \<Rightarrow> (wf_store_error, workflow_run) result" where
  "row_to_workflow_run r row =
     and_then (persisted_id ''WorkflowRunId'' r) (\<lambda>i.
     and_then (persisted_id ''WorkflowId'' (wr_workflow row)) (\<lambda>w.
     and_then (case wr_automation row of None \<Rightarrow> Ok None
               | Some a \<Rightarrow> and_then (persisted_id ''AutomationId'' a) (\<lambda>a. Ok (Some a))) (\<lambda>automation.
       Ok \<lparr>wrun_id = i, wrun_workflow = w, wrun_automation = automation, wrun_input = wr_input row,
           wrun_status = wr_status row, wrun_position = wr_position row, wrun_created = wr_created row\<rparr>)))"

definition find_workflow_run :: "string \<Rightarrow> wf_state \<Rightarrow> (wf_store_error, workflow_run option) result" where
  "find_workflow_run r S =
     (case map_of (wf_runs S) r of
        None \<Rightarrow> Ok None
      | Some row \<Rightarrow> and_then (row_to_workflow_run r row) (\<lambda>run. Ok (Some run)))"

definition is_open :: "workflow_run_status \<Rightarrow> bool" where
  "is_open s = (s \<in> {WQueued, WRunning})"

definition workflow_has_active_runs :: "string \<Rightarrow> wf_state \<Rightarrow> bool" where
  "workflow_has_active_runs w S = list_ex (\<lambda>(r, row). wr_workflow row = w \<and> is_open (wr_status row)) (wf_runs S)"

definition step_runs_of :: "string \<Rightarrow> wf_state \<Rightarrow> step_run_row list" where
  "step_runs_of r S = filter (\<lambda>row. sr_run row = r) (wf_steps S)"

definition list_workflow_step_runs :: "string \<Rightarrow> wf_state \<Rightarrow> step_run_row list" where
  "list_workflow_step_runs r S = sort_key sr_position (step_runs_of r S)"

text \<open>\<open>i64::try_from(seconds).ok()\<close>.\<close>

definition seconds_i64 :: "u64 option \<Rightarrow> int option" where
  "seconds_i64 t = (case t of None \<Rightarrow> None | Some s \<Rightarrow> if uint s < 2 ^ 63 then Some (uint s) else None)"

definition deadline_after :: "int \<Rightarrow> int option \<Rightarrow> int option" where
  "deadline_after now t = map_option (\<lambda>s. now + seconds s) t"

section \<open>Creation, removal, cancellation, resumption\<close>

definition create_workflow_run ::
  "int \<Rightarrow> string \<Rightarrow> string option \<Rightarrow> string \<Rightarrow> string \<Rightarrow> wf_state \<Rightarrow> (wf_store_error, workflow_run \<times> wf_state) result" where
  "create_workflow_run now wid automation r input S =
     (case wf_definitions S wid of
        None \<Rightarrow> Err (WInvalidPersistedValue (''workflow '' @ wid @ '' not found''))
      | Some w \<Rightarrow>
          if bt_contains (wf_runs S) r then Err WDatabase
          else
            Ok (\<lparr>wrun_id = r, wrun_workflow = wid, wrun_automation = automation, wrun_input = input,
                 wrun_status = WQueued, wrun_position = 0, wrun_created = now\<rparr>,
                S\<lparr>wf_runs := bt_insert r
                  \<lparr>wr_workflow = wid, wr_automation = automation, wr_input = input, wr_status = WQueued,
                   wr_position = 0, wr_snapshot = Some (workflow_snapshot_json w),
                   wr_deadline = deadline_after now (seconds_i64 (wd_deadline w)), wr_created = now,
                   wr_finished = None\<rparr> (wf_runs S)\<rparr>))"

definition workflow_run_snapshot :: "string \<Rightarrow> wf_state \<Rightarrow> json option \<times> int option" where
  "workflow_run_snapshot wid S =
     (if trim wid = [] then (None, None)
      else case wf_definitions S wid of
        None \<Rightarrow> (None, None)
      | Some w \<Rightarrow> (Some (workflow_snapshot_json w), seconds_i64 (wd_deadline w)))"

definition set_run :: "string \<Rightarrow> (wf_run_row \<Rightarrow> wf_run_row) \<Rightarrow> wf_state \<Rightarrow> wf_state" where
  "set_run r f S = S\<lparr>wf_runs := bt_modify r f (wf_runs S)\<rparr>"

definition finish_workflow_run_in :: "int \<Rightarrow> string \<Rightarrow> workflow_run_status \<Rightarrow> wf_state \<Rightarrow> wf_state" where
  "finish_workflow_run_in now r status S = set_run r (\<lambda>row. row\<lparr>wr_status := status, wr_finished := Some now\<rparr>) S"

definition remove_queued_workflow_run ::
  "int \<Rightarrow> string \<Rightarrow> wf_state \<Rightarrow> (wf_store_error, workflow_run option) result \<times> wf_state" where
  "remove_queued_workflow_run now r S =
     (case map_of (wf_runs S) r of
        Some row \<Rightarrow>
          if wr_status row = WQueued \<and> step_runs_of r S = [] then
            (let S' = finish_workflow_run_in now r WRemoved S in (find_workflow_run r S', S'))
          else (find_workflow_run r S, S)
      | None \<Rightarrow> (find_workflow_run r S, S))"

text \<open>Cancelling the job of a step leaves its lease owner in place.\<close>

definition cancel_job_row :: "job_row \<Rightarrow> job_row" where
  "cancel_job_row row =
     row\<lparr>row_status := JCancelled, row_lease_expires := None, row_heartbeat := None, row_retry_ready := None\<rparr>"

definition cancel_jobs :: "string list \<Rightarrow> job_table \<Rightarrow> job_table" where
  "cancel_jobs js t =
     map (\<lambda>(j, row). (j, if j \<in> set js \<and> row_status row \<in> {JQueued, JLeased, JRunning, JRetryScheduled}
                         then cancel_job_row row else row)) t"

definition active_step :: "string \<Rightarrow> step_run_row \<Rightarrow> bool" where
  "active_step r row = (sr_run row = r \<and> is_open (sr_status row))"

definition close_active_steps :: "string \<Rightarrow> workflow_run_status \<Rightarrow> wf_state \<Rightarrow> wf_state" where
  "close_active_steps r status S =
     S\<lparr>wf_jobs := cancel_jobs (filter_map sr_job (filter (active_step r) (wf_steps S))) (wf_jobs S),
       wf_steps := map (\<lambda>row. if active_step r row then row\<lparr>sr_status := status\<rparr> else row) (wf_steps S)\<rparr>"

definition cancel_running_workflow_run ::
  "int \<Rightarrow> string \<Rightarrow> wf_state \<Rightarrow> (wf_store_error, workflow_run option) result \<times> wf_state" where
  "cancel_running_workflow_run now r S =
     (let open_run = (case map_of (wf_runs S) r of None \<Rightarrow> False | Some row \<Rightarrow> wr_status row = WRunning);
          active = (if open_run then filter (active_step r) (wf_steps S) else []) in
      if active = [] then (find_workflow_run r S, S)
      else if list_ex (\<lambda>row. sr_job row = None) active then (Err WDatabase, S)
      else
        (let S' = finish_workflow_run_in now r WCancelled (close_active_steps r WCancelled S) in
         (find_workflow_run r S', S')))"

text \<open>The deadline a resumed run gets: that of the snapshot, or else that of the definition. Snapshots
  hold it as a number or null.\<close>

definition resumed_deadline :: "wf_run_row \<Rightarrow> wf_state \<Rightarrow> (wf_store_error, int option) result" where
  "resumed_deadline row S =
     (let live = Option.bind (wf_definitions S (wr_workflow row)) (\<lambda>w. seconds_i64 (wd_deadline w)) in
      case Option.bind (wr_snapshot row) (\<lambda>j. json_get j ''deadline_seconds'') of
        None \<Rightarrow> Ok live
      | Some JsonNull \<Rightarrow> Ok live
      | Some v \<Rightarrow> (case json_i64 v of None \<Rightarrow> Err WDatabase | Some n \<Rightarrow> Ok (Some n)))"

definition max_position :: "int list \<Rightarrow> int" where
  "max_position ps = (case ps of [] \<Rightarrow> 0 | p # rest \<Rightarrow> foldl max p rest)"

definition resume_workflow_run ::
  "int \<Rightarrow> string \<Rightarrow> wf_state \<Rightarrow> (wf_store_error, workflow_run option) result \<times> wf_state" where
  "resume_workflow_run now r S =
     (case map_of (wf_runs S) r of
        None \<Rightarrow> (Ok None, S)
      | Some row \<Rightarrow>
          if wr_status row \<notin> {WFailed, WTimedOut} then (find_workflow_run r S, S)
          else
            (let discard = (\<lambda>s. sr_run s = r \<and> sr_status s \<noteq> WSucceeded);
                 js = filter_map sr_job (filter discard (wf_steps S));
                 kept = filter (\<lambda>s. \<not> discard s) (wf_steps S) in
             if list_ex (\<lambda>s. list_ex (\<lambda>j. sr_job s = Some j) js) kept then (Err WDatabase, S)
             else case resumed_deadline row S of
               Inl e \<Rightarrow> (Err e, S)
             | Inr deadline \<Rightarrow>
                 (let S' = set_run r (\<lambda>row. row\<lparr>wr_status := WRunning,
                            wr_position := max_position (map sr_position (filter (\<lambda>s. sr_run s = r \<and> sr_status s = WSucceeded) kept)),
                            wr_finished := None, wr_deadline := deadline_after now deadline\<rparr>)
                          (S\<lparr>wf_steps := kept, wf_jobs := filter (\<lambda>(j, jr). j \<notin> set js) (wf_jobs S)\<rparr>) in
                  (find_workflow_run r S', S'))))"

section \<open>Reconciliation\<close>

fun sync_status :: "job_run_status \<Rightarrow> workflow_run_status" where
  "sync_status JSucceeded = WSucceeded"
| "sync_status JFailed = WFailed"
| "sync_status JCancelled = WCancelled"
| "sync_status JTimedOut = WTimedOut"
| "sync_status JLeased = WRunning"
| "sync_status JRunning = WRunning"
| "sync_status s = WQueued"

definition sync_step :: "string \<Rightarrow> job_table \<Rightarrow> step_run_row \<Rightarrow> step_run_row" where
  "sync_step r jobs row =
     (if sr_run row = r then
        (case Option.bind (sr_job row) (map_of jobs) of
           None \<Rightarrow> row
         | Some jr \<Rightarrow> row\<lparr>sr_status := sync_status (row_status jr)\<rparr>)
      else row)"

definition sync_steps :: "string \<Rightarrow> wf_state \<Rightarrow> wf_state" where
  "sync_steps r S = S\<lparr>wf_steps := map (sync_step r (wf_jobs S)) (wf_steps S)\<rparr>"

text \<open>What the step runs say of the progress of the run.\<close>

record wf_progress =
  pr_started :: "step_id btree_set"
  pr_states :: "(step_id, workflow_run_status) btree_map"
  pr_active :: nat
  pr_failed :: bool

definition note_step :: "wf_progress \<Rightarrow> step_run_row \<Rightarrow> (wf_store_error, wf_progress) result" where
  "note_step p row =
     and_then (persisted_id ''WorkflowStepId'' (sr_step row)) (\<lambda>i.
       Ok \<lparr>pr_started = bs_insert i (pr_started p),
           pr_states = bt_insert i (sr_status row) (pr_states p),
           pr_active = (if sr_status row \<in> {WQueued, WRunning} then pr_active p + 1 else pr_active p),
           pr_failed = (pr_failed p \<or> sr_status row \<in> {WFailed, WCancelled, WTimedOut})\<rparr>)"

definition no_progress :: wf_progress where
  "no_progress = \<lparr>pr_started = [], pr_states = [], pr_active = 0, pr_failed = False\<rparr>"

definition progress_of :: "string \<Rightarrow> wf_state \<Rightarrow> (wf_store_error, wf_progress) result" where
  "progress_of r S = try_fold note_step no_progress (step_runs_of r S)"

definition all_done :: "workflow_definition \<Rightarrow> wf_progress \<Rightarrow> bool" where
  "all_done w p =
     (length (pr_states p) = length (wd_steps w) \<and>
      list_all (\<lambda>(i, s). s \<in> {WSucceeded, WSkipped}) (pr_states p))"

text \<open>The insertions, with the constraints of the two tables.\<close>

definition insert_job_run ::
  "int \<Rightarrow> (string \<Rightarrow> bool) \<Rightarrow> string \<Rightarrow> workflow_step \<Rightarrow> string \<Rightarrow> wf_state \<Rightarrow> (wf_store_error, wf_state) result" where
  "insert_job_run now known j step input S =
     (let timeout = seconds_i64 (ws_timeout step) in
      if bt_contains (wf_jobs S) j \<or> \<not> known (ws_job_definition step) \<or> timeout = Some 0 then Err WDatabase
      else Ok (S\<lparr>wf_jobs := bt_insert j
        \<lparr>row_definition = ws_job_definition step, row_pool = ws_pool step, row_input = input, row_status = JQueued,
         row_attempts = 0, row_lease_owner = None, row_lease_expires = None, row_heartbeat = None,
         row_retry_ready = None, row_timeout = timeout, row_created = now\<rparr> (wf_jobs S)\<rparr>))"

definition insert_step_run :: "step_run_row \<Rightarrow> wf_state \<Rightarrow> (wf_store_error, wf_state) result" where
  "insert_step_run row S =
     (if sr_position row \<le> 0 \<or> \<not> bt_contains (wf_runs S) (sr_run row) \<or>
         (case sr_job row of None \<Rightarrow> False | Some j \<Rightarrow> \<not> bt_contains (wf_jobs S) j) \<or>
         list_ex (\<lambda>other. sr_id other = sr_id row \<or>
           sr_run other = sr_run row \<and> (sr_step other = sr_step row \<or> sr_position other = sr_position row)) (wf_steps S)
      then Err WDatabase
      else Ok (S\<lparr>wf_steps := wf_steps S @ [row]\<rparr>))"

definition start_step ::
  "int \<Rightarrow> (string \<Rightarrow> bool) \<Rightarrow> string \<Rightarrow> string \<Rightarrow> string \<times> string \<Rightarrow> workflow_step \<Rightarrow> wf_state \<Rightarrow> (wf_store_error, wf_state) result" where
  "start_step now known r input new_ids step S =
     and_then (insert_job_run now known (fst new_ids) step input S)
       (insert_step_run
         \<lparr>sr_id = snd new_ids, sr_run = r, sr_step = ws_id step, sr_job = Some (fst new_ids),
          sr_position = ws_position step, sr_status = WQueued\<rparr>)"

definition skip_step :: "string \<Rightarrow> string \<Rightarrow> workflow_step \<Rightarrow> wf_state \<Rightarrow> (wf_store_error, wf_state) result" where
  "skip_step r new_id step =
     insert_step_run
       \<lparr>sr_id = new_id, sr_run = r, sr_step = ws_id step, sr_job = None, sr_position = ws_position step,
        sr_status = WSkipped\<rparr>"

fun start_steps ::
  "int \<Rightarrow> (string \<Rightarrow> bool) \<Rightarrow> string \<Rightarrow> string \<Rightarrow> (nat \<Rightarrow> string \<times> string) \<Rightarrow> nat \<Rightarrow> workflow_step list \<Rightarrow> wf_state
   \<Rightarrow> (wf_store_error, wf_state) result" where
  "start_steps now known r input ids k [] S = Ok S"
| "start_steps now known r input ids k (step # steps) S =
     and_then (start_step now known r input (ids k) step S) (start_steps now known r input ids (Suc k) steps)"

fun skip_steps ::
  "string \<Rightarrow> (nat \<Rightarrow> string \<times> string) \<Rightarrow> nat \<Rightarrow> workflow_step list \<Rightarrow> wf_state \<Rightarrow> (wf_store_error, wf_state) result" where
  "skip_steps r ids k [] S = Ok S"
| "skip_steps r ids k (step # steps) S = and_then (skip_step r (snd (ids k)) step S) (skip_steps r ids (Suc k) steps)"

definition progress_position ::
  "workflow_definition \<Rightarrow> wf_progress \<Rightarrow> workflow_step list \<Rightarrow> workflow_step list \<Rightarrow> int" where
  "progress_position w p ready skipped =
     max_position (map ws_position (filter (\<lambda>s. ws_id s \<in> set (pr_started p)) (wd_steps w) @ ready @ skipped))"

definition run_workflow :: "wf_run_row \<Rightarrow> wf_state \<Rightarrow> (wf_store_error, workflow_definition) result" where
  "run_workflow run S =
     (case wr_snapshot run of
        Some j \<Rightarrow> workflow_from_snapshot (wr_workflow run) j
      | None \<Rightarrow>
          (case wf_definitions S (wr_workflow run) of
             None \<Rightarrow> Err (WInvalidPersistedValue (''workflow '' @ wr_workflow run @ '' not found''))
           | Some w \<Rightarrow> Ok w))"

definition run_graph :: "workflow_definition \<Rightarrow> (wf_store_error, workflow_graph) result" where
  "run_graph w =
     (case workflow_graph_new (wd_id w) (wd_steps w) (wd_dependencies w) of
        None \<Rightarrow> Err WPanic
      | Some (Inl e) \<Rightarrow> Err (WGraph e)
      | Some (Inr g) \<Rightarrow> Ok g)"

text \<open>What the transaction does once the progress is known: the steps that become ready are started;
  when nothing runs and nothing is ready after a failure, the steps it blocks are skipped, and when
  there are none of those either the run has failed.\<close>

definition steps_to_skip :: "workflow_graph \<Rightarrow> wf_progress \<Rightarrow> workflow_step list \<Rightarrow> workflow_step list" where
  "steps_to_skip g p ready =
     (if pr_failed p \<and> pr_active p = 0 \<and> ready = []
      then blocked_steps_after_terminal_failure g (pr_started p) (pr_states p) else [])"

definition settle_run ::
  "int \<Rightarrow> string \<Rightarrow> wf_run_row \<Rightarrow> workflow_definition \<Rightarrow> wf_progress \<Rightarrow> workflow_step list \<Rightarrow> workflow_step list \<Rightarrow> wf_state
   \<Rightarrow> wf_state" where
  "settle_run now r run w p ready skipped S =
     (if pr_failed p \<and> pr_active p = 0 \<and> ready = [] \<and> skipped = [] then finish_workflow_run_in now r WFailed S
      else if ready \<noteq> [] \<or> wr_status run = WQueued
      then set_run r (\<lambda>row. row\<lparr>wr_status := WRunning,
             wr_position := max (wr_position row) (progress_position w p ready skipped)\<rparr>) S
      else S)"

definition advance ::
  "int \<Rightarrow> (string \<Rightarrow> bool) \<Rightarrow> (nat \<Rightarrow> string \<times> string) \<Rightarrow> string \<Rightarrow> wf_run_row \<Rightarrow> workflow_definition \<Rightarrow> workflow_graph
   \<Rightarrow> wf_progress \<Rightarrow> wf_state \<Rightarrow> (wf_store_error, bool \<times> wf_state) result" where
  "advance now known ids r run w g p S =
     (let ready = ready_steps_with_policies g (pr_started p) (pr_states p);
          skipped = steps_to_skip g p ready in
      and_then (start_steps now known r (wr_input run) ids 0 ready S) (\<lambda>S1.
      and_then (skip_steps r ids (length ready) skipped S1) (\<lambda>S2.
        Ok (ready \<noteq> [] \<or> pr_failed p, settle_run now r run w p ready skipped S2))))"

definition reconcile_workflow_run ::
  "int \<Rightarrow> bool \<Rightarrow> (string \<Rightarrow> bool) \<Rightarrow> (nat \<Rightarrow> string \<times> string) \<Rightarrow> string \<Rightarrow> wf_state
   \<Rightarrow> (wf_store_error, bool \<times> wf_state) result" where
  "reconcile_workflow_run now acquired known ids r S =
     (if \<not> acquired then Ok (False, S)
      else case map_of (wf_runs S) r of
        None \<Rightarrow> Ok (False, S)
      | Some run \<Rightarrow>
          if \<not> is_open (wr_status run) then Ok (False, S)
          else and_then (row_to_workflow_run r run) (\<lambda>_.
            if due now (wr_deadline run)
            then Ok (True, finish_workflow_run_in now r WTimedOut (close_active_steps r WTimedOut S))
            else
              and_then (run_workflow run S) (\<lambda>w.
              and_then (run_graph w) (\<lambda>g.
                let S1 = sync_steps r S in
                and_then (progress_of r S1) (\<lambda>p.
                  if all_done w p then Ok (True, finish_workflow_run_in now r WSucceeded S1)
                  else advance now known ids r run w g p S1)))))"

text \<open>The scheduler's round over the oldest open runs, and a worker's round after a job has ended.
  A round stops at the first transaction that fails; the ones before it are committed.\<close>

fun reconcile_all ::
  "int \<Rightarrow> bool \<Rightarrow> (string \<Rightarrow> bool) \<Rightarrow> (string \<Rightarrow> nat \<Rightarrow> string \<times> string) \<Rightarrow> string list \<Rightarrow> nat \<Rightarrow> wf_state
   \<Rightarrow> (wf_store_error, nat) result \<times> wf_state" where
  "reconcile_all now acquired known ids [] n S = (Ok n, S)"
| "reconcile_all now acquired known ids (r # rs) n S =
     (case reconcile_workflow_run now acquired known (ids r) r S of
        Inl e \<Rightarrow> (Err e, S)
      | Inr (advanced, S') \<Rightarrow> reconcile_all now acquired known ids rs (if advanced then n + 1 else n) S')"

definition advance_workflow_runs ::
  "int \<Rightarrow> bool \<Rightarrow> (string \<Rightarrow> bool) \<Rightarrow> (string \<Rightarrow> nat \<Rightarrow> string \<times> string) \<Rightarrow> wf_state
   \<Rightarrow> (wf_store_error, nat) result \<times> wf_state" where
  "advance_workflow_runs now acquired known ids S =
     reconcile_all now acquired known ids
       (take 50 (map fst (sort_key (\<lambda>(r, run). wr_created run) (filter (\<lambda>(r, run). is_open (wr_status run)) (wf_runs S))))) 0 S"

definition advance_workflow_runs_for_job_run ::
  "int \<Rightarrow> bool \<Rightarrow> (string \<Rightarrow> bool) \<Rightarrow> (string \<Rightarrow> nat \<Rightarrow> string \<times> string) \<Rightarrow> string \<Rightarrow> wf_state
   \<Rightarrow> (wf_store_error, nat) result \<times> wf_state" where
  "advance_workflow_runs_for_job_run now acquired known ids j S =
     reconcile_all now acquired known ids (remdups (map sr_run (filter (\<lambda>row. sr_job row = Some j) (wf_steps S)))) 0 S"

end
