(* ===== verification/Workflow_Order.thy ===== *)
theory Workflow_Order
  imports Workflow_Graph
begin

text \<open>
  What \<open>WorkflowGraph::new\<close> promises: it never overflows its counters, it accepts exactly the
  declarations that describe an acyclic graph over the steps of one workflow, and the order it
  computes lists every step once, after all its prerequisites.
\<close>

section \<open>Nodes and edges\<close>

lemma add_nodes_Ok:
  "try_fold (add_node wid) m steps = Ok nodes \<longleftrightarrow>
   (\<forall>s \<in> set steps. ws_workflow s = wid \<and> \<not> bt_contains m (ws_id s)) \<and> distinct (map ws_id steps) \<and>
   nodes = btree.build (map (\<lambda>s. (ws_id s, s)) steps) m"
proof (induction steps arbitrary: m)
  case Nil
  then show ?case by (auto simp: btree.build_def)
next
  case (Cons s steps)
  show ?case
  proof (cases "ws_workflow s = wid \<and> \<not> bt_contains m (ws_id s)")
    case True
    then have "add_node wid m s = Ok (bt_insert (ws_id s) s m)" by (simp add: add_node_def)
    then show ?thesis using True by (auto simp: Cons.IH btree.build_def) (metis imageI)
  next
    case False
    then have "add_node wid m s \<noteq> Ok x" for x by (simp add: add_node_def)
    then show ?thesis using False by (cases "add_node wid m s") auto
  qed
qed

definition known_nodes :: "workflow_step list \<Rightarrow> (step_id, workflow_step) btree_map \<Rightarrow> bool" where
  "known_nodes steps nodes \<longleftrightarrow>
     bt_wf nodes \<and> map_of nodes = map_of (map (\<lambda>s. (ws_id s, s)) steps) \<and> length nodes = length steps"

lemma known_nodes_build:
  assumes "distinct (map ws_id steps)"
  shows "known_nodes steps (btree.build (map (\<lambda>s. (ws_id s, s)) steps) [])"
proof -
  let ?kvs = "map (\<lambda>s. (ws_id s, s)) steps"
  let ?nodes = "btree.build ?kvs []"
  have wf: "bt_wf ?nodes" using btree.invar_build [of "[]" ?kvs] by simp
  have d: "distinct (map fst ?kvs)" using assms by (simp add: comp_def)
  then have get: "map_of ?nodes = map_of ?kvs" using btree.get_build [of "[]" ?kvs] by simp
  have "set (map fst ?nodes) = set (map fst ?kvs)"
    using arg_cong [OF get, of dom] unfolding dom_map_of_conv_image_fst by (simp add: image_image)
  then have "length (map fst ?nodes) = length (map fst ?kvs)"
    unfolding distinct_card [OF d, symmetric] distinct_card [OF bt_wf_distinct [OF wf], symmetric] by (rule arg_cong)
  with wf get show ?thesis by (simp add: known_nodes_def)
qed

lemma contains_keys: "bt_contains m k \<longleftrightarrow> k \<in> fst ` set m"
  by (auto simp: bt_contains_def map_of_eq_None_iff)

lemma known_nodes_keys: "known_nodes steps nodes \<Longrightarrow> fst ` set nodes = ws_id ` set steps"
proof -
  assume a: "known_nodes steps nodes"
  have "dom (map_of nodes) = dom (map_of (map (\<lambda>s. (ws_id s, s)) steps))" using a by (simp add: known_nodes_def)
  then have "fst ` set nodes = fst ` (\<lambda>s. (ws_id s, s)) ` set steps"
    unfolding dom_map_of_conv_image_fst by simp
  then show ?thesis unfolding image_image by simp
qed

lemma known_nodes_contains: "known_nodes steps nodes \<Longrightarrow> bt_contains nodes i \<longleftrightarrow> i \<in> ws_id ` set steps"
  by (simp only: contains_keys known_nodes_keys)

text \<open>The edges a list of dependencies declares.\<close>

abbreviation edge :: "step_dependency \<Rightarrow> step_id \<times> step_id" where
  "edge d \<equiv> (dep_from d, dep_to d)"

definition declared_edges :: "step_dependency list \<Rightarrow> (step_id \<times> step_id) set" where
  "declared_edges deps = edge ` set deps"

text \<open>The state of the loop over the dependencies once \<open>deps\<close> have been added.\<close>

definition declared_adjacency :: "(step_id, workflow_step) btree_map \<Rightarrow> step_dependency list \<Rightarrow> edge_state \<Rightarrow> bool" where
  "declared_adjacency nodes deps st \<longleftrightarrow>
     set (es_edges st) = declared_edges deps \<and>
     map fst (es_outgoing st) = map fst nodes \<and> map fst (es_incoming st) = map fst nodes \<and>
     map fst (es_dependencies st) = map fst nodes \<and>
     (\<forall>k \<in> fst ` set nodes.
        map_of (es_outgoing st) k = Some (map dep_to (filter (\<lambda>d. dep_from d = k) deps)) \<and>
        map_of (es_incoming st) k = Some (map dep_from (filter (\<lambda>d. dep_to d = k) deps)) \<and>
        map_of (es_dependencies st) k = Some (filter (\<lambda>d. dep_to d = k) deps))"

lemma map_of_bt_modify: "map_of (bt_modify k f m) k' = (if k' = k then map_option f (map_of m k') else map_of m k')"
  by (induction m) (auto simp: bt_modify_def)

lemma fst_bt_modify [simp]: "map fst (bt_modify k f m) = map fst m"
  by (induction m) (auto simp: bt_modify_def)

lemma no_adjacent_get: "k \<in> fst ` set nodes \<Longrightarrow> map_of (no_adjacent nodes) k = Some []"
  unfolding no_adjacent_def bt_keys_def by (induction nodes) auto

lemma fst_no_adjacent [simp]: "map fst (no_adjacent nodes) = map fst nodes"
  by (simp add: no_adjacent_def bt_keys_def comp_def)

lemma declared_adjacency_init:
  "declared_adjacency nodes [] \<lparr>es_edges = [], es_outgoing = no_adjacent nodes, es_incoming = no_adjacent nodes,
     es_dependencies = no_adjacent nodes\<rparr>"
  by (auto simp: declared_adjacency_def declared_edges_def no_adjacent_get)

definition dependency_valid :: "(step_id, workflow_step) btree_map \<Rightarrow> step_dependency \<Rightarrow> bool" where
  "dependency_valid nodes d \<longleftrightarrow>
     bt_contains nodes (dep_from d) \<and> bt_contains nodes (dep_to d) \<and> dep_from d \<noteq> dep_to d"

lemma contains_same_keys: "map fst m = map fst m' \<Longrightarrow> bt_contains m k \<longleftrightarrow> bt_contains m' k"
  unfolding contains_keys by (metis list.set_map)

lemma add_edge_step:
  assumes "declared_adjacency nodes ds st"
  shows "case add_edge nodes st d of
           Inl e \<Rightarrow> \<not> (dependency_valid nodes d \<and> edge d \<notin> declared_edges ds)
         | Inr st' \<Rightarrow> dependency_valid nodes d \<and> edge d \<notin> declared_edges ds \<and> declared_adjacency nodes (ds @ [d]) st'"
proof -
  have same: "bt_contains (es_outgoing st) k \<longleftrightarrow> bt_contains nodes k" "bt_contains (es_incoming st) k \<longleftrightarrow> bt_contains nodes k"
    "bt_contains (es_dependencies st) k \<longleftrightarrow> bt_contains nodes k" for k
    using assms contains_same_keys unfolding declared_adjacency_def by metis+
  have edges: "set (es_edges st) = declared_edges ds" using assms by (simp add: declared_adjacency_def)
  show ?thesis
  proof (cases "dependency_valid nodes d \<and> edge d \<notin> declared_edges ds")
    case True
    then show ?thesis
      using assms by (auto simp: add_edge_def Let_def dependency_valid_def same edges declared_adjacency_def declared_edges_def map_of_bt_modify)
  next
    case False
    then show ?thesis by (auto simp: add_edge_def Let_def dependency_valid_def edges same split: sum.splits)
  qed
qed

lemma add_edges:
  assumes "declared_adjacency nodes ds st"
  shows "case try_fold (add_edge nodes) st deps of
           Inl e \<Rightarrow> \<not> ((\<forall>d \<in> set deps. dependency_valid nodes d) \<and> distinct (map edge deps) \<and>
                      declared_edges ds \<inter> declared_edges deps = {})
         | Inr st' \<Rightarrow> (\<forall>d \<in> set deps. dependency_valid nodes d) \<and> distinct (map edge deps) \<and>
                      declared_edges ds \<inter> declared_edges deps = {} \<and> declared_adjacency nodes (ds @ deps) st'"
  using assms
proof (induction deps arbitrary: ds st)
  case Nil
  then show ?case by (simp add: declared_edges_def)
next
  case (Cons d deps)
  show ?case
  proof (cases "add_edge nodes st d")
    case (Inl e)
    with add_edge_step [OF Cons.prems, of d] show ?thesis by (auto simp: declared_edges_def)
  next
    case (Inr st')
    with add_edge_step [OF Cons.prems, of d]
    have d: "dependency_valid nodes d" "edge d \<notin> declared_edges ds" and st': "declared_adjacency nodes (ds @ [d]) st'" by auto
    have split: "declared_edges (ds @ [d]) \<inter> declared_edges deps = {} \<longleftrightarrow>
        edge d \<notin> declared_edges deps \<and> declared_edges ds \<inter> declared_edges deps = {}"
      by (auto simp: declared_edges_def)
    have cons: "declared_edges (d # deps) = insert (edge d) (declared_edges deps)"
      "edge d \<in> declared_edges deps \<longleftrightarrow> edge d \<in> set (map edge deps)" by (auto simp: declared_edges_def)
    from Cons.IH [OF st'] show ?thesis using Inr d split cons by (auto split: sum.splits)
  qed
qed

section \<open>The loop of the sort\<close>

definition position_of :: "(step_id, workflow_step) btree_map \<Rightarrow> step_id \<Rightarrow> int" where
  "position_of nodes i = ws_position (the (map_of nodes i))"

text \<open>Releasing the children of a step takes one open prerequisite from each of them.\<close>

lemma release_children_Some:
  assumes "bs_wf ready" "distinct cs"
    and "\<forall>c \<in> set cs. map_of nodes c \<noteq> None \<and> (\<exists>d > 0. map_of degrees c = Some d)"
  shows "\<exists>ready' degrees'. release_children nodes cs (ready, degrees) = Some (ready', degrees') \<and> bs_wf ready' \<and>
           set ready' = set ready \<union> {(position_of nodes c, c) |c. c \<in> set cs \<and> map_of degrees c = Some 1} \<and>
           map_of degrees' = (\<lambda>n. if n \<in> set cs then map_option (\<lambda>d. d - 1) (map_of degrees n) else map_of degrees n)"
  using assms
proof (induction cs arbitrary: ready degrees)
  case Nil
  then show ?case by auto
next
  case (Cons c cs)
  obtain d step where d: "map_of degrees c = Some d" "0 < d" and step: "map_of nodes c = Some step"
    using Cons.prems(3) by auto
  let ?degrees = "bt_modify c (\<lambda>d. d - 1) degrees"
  let ?ready = "if d = 1 then bs_insert (position_of nodes c, c) ready else ready"
  have first: "release_child nodes c (ready, degrees) = Some (?ready, ?degrees)"
    using d step by (auto simp: release_child_def position_of_def Let_def)
  have "bs_wf ?ready" using Cons.prems(1) by (simp add: bs_wf_insert)
  moreover have "\<forall>c' \<in> set cs. map_of nodes c' \<noteq> None \<and> (\<exists>d > 0. map_of ?degrees c' = Some d)"
    using Cons.prems(2,3) by (auto simp: map_of_bt_modify)
  ultimately obtain ready' degrees' where
    rest: "release_children nodes cs (?ready, ?degrees) = Some (ready', degrees')" "bs_wf ready'"
    and ready': "set ready' = set ?ready \<union> {(position_of nodes c', c') |c'. c' \<in> set cs \<and> map_of ?degrees c' = Some 1}"
    and degrees': "map_of degrees' = (\<lambda>n. if n \<in> set cs then map_option (\<lambda>d. d - 1) (map_of ?degrees n) else map_of ?degrees n)"
    using Cons.IH [of ?ready ?degrees] Cons.prems(2) by auto
  have "set ready' = set ready \<union> {(position_of nodes c', c') |c'. c' \<in> set (c # cs) \<and> map_of degrees c' = Some 1}"
    unfolding ready' using Cons.prems(2) d by (auto simp: map_of_bt_modify split: if_splits)
  moreover have "map_of degrees' = (\<lambda>n. if n \<in> set (c # cs) then map_option (\<lambda>d. d - 1) (map_of degrees n) else map_of degrees n)"
    unfolding degrees' using Cons.prems(2) by (auto simp: map_of_bt_modify)
  ultimately show ?case using first rest by auto
qed

text \<open>The invariant: the counter of a step is the number of its prerequisites not yet taken, the
  ready steps are those without one, and every step taken came after its prerequisites.\<close>

abbreviation open_parents :: "(step_id \<times> step_id) set \<Rightarrow> step_id list \<Rightarrow> step_id \<Rightarrow> step_id set" where
  "open_parents E taken n \<equiv> {p. (p, n) \<in> E} - set taken"

definition topological :: "(step_id \<times> step_id) set \<Rightarrow> step_id list \<Rightarrow> bool" where
  "topological E taken \<longleftrightarrow> (\<forall>xs n ys. taken = xs @ n # ys \<longrightarrow> {p. (p, n) \<in> E} \<subseteq> set xs)"

definition kahn_inv ::
  "(step_id, workflow_step) btree_map \<Rightarrow> (step_id \<times> step_id) set \<Rightarrow> kahn_state \<Rightarrow> step_id list \<Rightarrow> bool" where
  "kahn_inv nodes E st taken \<longleftrightarrow>
     distinct taken \<and> set taken \<subseteq> fst ` set nodes \<and> bs_wf (fst st) \<and>
     set (fst st) = {(position_of nodes n, n) |n. n \<in> fst ` set nodes \<and> n \<notin> set taken \<and> open_parents E taken n = {}} \<and>
     (\<forall>n. map_of (snd st) n = (if n \<in> fst ` set nodes then Some (card (open_parents E taken n)) else None)) \<and>
     topological E taken"

definition adjacent :: "(step_id, workflow_step) btree_map \<Rightarrow> (step_id \<times> step_id) set \<Rightarrow> (step_id, step_id list) btree_map \<Rightarrow> bool" where
  "adjacent nodes E outgoing \<longleftrightarrow>
     finite E \<and> E \<subseteq> fst ` set nodes \<times> fst ` set nodes \<and> (\<forall>n. (n, n) \<notin> E) \<and>
     (\<forall>i \<in> fst ` set nodes. \<exists>cs. map_of outgoing i = Some cs \<and> distinct cs \<and> set cs = {c. (i, c) \<in> E})"

text \<open>Taking a step \<open>i\<close> closes one prerequisite of each of its children, and of nothing else.\<close>

lemma open_parents_snoc:
  "open_parents E (taken @ [i]) n = open_parents E taken n - {i}"
  by auto

lemma open_parents_finite: "finite E \<Longrightarrow> finite (open_parents E taken n)"
proof (rule finite_subset)
  show "open_parents E taken n \<subseteq> fst ` E" by (auto intro: rev_image_eqI)
qed simp

lemma card_open_parents:
  assumes "i \<notin> set taken"
  shows "card (open_parents E (taken @ [i]) n) =
         (if (i, n) \<in> E then card (open_parents E taken n) - 1 else card (open_parents E taken n))"
  unfolding open_parents_snoc card_Diff_singleton_if using assms by simp

lemma card_one_member: "i \<in> A \<Longrightarrow> A = {i} \<longleftrightarrow> card A = 1"
  unfolding One_nat_def card_1_singleton_iff by auto

lemma no_open_parents:
  assumes "i \<notin> set taken"
  shows "open_parents E (taken @ [i]) n = {} \<longleftrightarrow>
         open_parents E taken n = {} \<or> (i, n) \<in> E \<and> card (open_parents E taken n) = 1"
proof (cases "(i, n) \<in> E")
  case True
  with assms have i: "i \<in> open_parents E taken n" by simp
  then have "open_parents E taken n - {i} = {} \<longleftrightarrow> open_parents E taken n = {i}" "open_parents E taken n \<noteq> {}" by auto
  moreover have "open_parents E taken n = {i} \<longleftrightarrow> card (open_parents E taken n) = 1"
    by (rule card_one_member [OF i])
  ultimately show ?thesis unfolding open_parents_snoc using True by simp
next
  case False
  then show ?thesis unfolding open_parents_snoc by auto
qed

lemma topologicalD: "topological E taken \<Longrightarrow> taken = xs @ n # ys \<Longrightarrow> (p, n) \<in> E \<Longrightarrow> p \<in> set xs"
  unfolding topological_def by blast

lemma topological_snoc:
  assumes "topological E taken" "open_parents E taken i = {}"
  shows "topological E (taken @ [i])"
  unfolding topological_def
proof (intro allI impI)
  fix xs n ys assume eq: "taken @ [i] = xs @ n # ys"
  show "{p. (p, n) \<in> E} \<subseteq> set xs"
  proof (cases ys rule: rev_cases)
    case Nil
    then show ?thesis using eq assms(2) by auto
  next
    case (snoc zs z)
    then have "taken = xs @ n # zs" using eq by simp
    then show ?thesis using assms(1) by (simp add: topological_def)
  qed
qed

lemma topological_before: "topological E taken \<Longrightarrow> n \<in> set taken \<Longrightarrow> (p, n) \<in> E \<Longrightarrow> p \<in> set taken"
  by (fastforce simp: topological_def dest: split_list)

lemma kahn_inv_head:
  assumes "kahn_inv nodes E (key # ready, degrees) taken"
  shows "key = (position_of nodes (snd key), snd key) \<and> snd key \<in> fst ` set nodes \<and> snd key \<notin> set taken \<and>
         open_parents E taken (snd key) = {}"
    and "bs_wf ready"
    and "set ready = {(position_of nodes n, n) |n. n \<in> fst ` set nodes \<and> n \<notin> set (taken @ [snd key]) \<and> open_parents E taken n = {}}"
proof -
  let ?R = "{(position_of nodes n, n) |n. n \<in> fst ` set nodes \<and> n \<notin> set taken \<and> open_parents E taken n = {}}"
  have wf: "bs_wf (key # ready)" and ready: "set (key # ready) = ?R" using assms by (simp_all add: kahn_inv_def)
  have "key \<in> ?R" unfolding ready [symmetric] by simp
  then show key: "key = (position_of nodes (snd key), snd key) \<and> snd key \<in> fst ` set nodes \<and> snd key \<notin> set taken \<and>
      open_parents E taken (snd key) = {}" by force
  show "bs_wf ready" using wf by (simp add: bs_wf_def)
  have "key \<notin> set ready" using wf by (auto simp: bs_wf_def)
  then have "set ready = ?R - {key}" unfolding ready [symmetric] by auto
  then show "set ready = {(position_of nodes n, n) |n. n \<in> fst ` set nodes \<and> n \<notin> set (taken @ [snd key]) \<and> open_parents E taken n = {}}"
    using key by auto
qed

lemma kahn_inv_step:
  assumes "adjacent nodes E outgoing" "kahn_inv nodes E (key # ready, degrees) taken"
    and "map_of outgoing (snd key) = Some cs"
  shows "\<exists>st. release_children nodes cs (ready, degrees) = Some st \<and> kahn_inv nodes E st (taken @ [snd key])"
proof -
  let ?N = "fst ` set nodes" and ?i = "snd key"
  note head = kahn_inv_head [OF assms(2)]
  have i: "?i \<in> ?N" "?i \<notin> set taken" "open_parents E taken ?i = {}" using head(1) by simp_all
  have degrees: "\<And>n. map_of degrees n = (if n \<in> ?N then Some (card (open_parents E taken n)) else None)"
    and topo: "topological E taken" and taken: "distinct taken" "set taken \<subseteq> ?N"
    using assms(2) by (simp_all add: kahn_inv_def)
  have E: "finite E" "E \<subseteq> ?N \<times> ?N" "(?i, ?i) \<notin> E" and cs: "distinct cs" "set cs = {c. (?i, c) \<in> E}"
    using assms(1,3) i(1) by (auto simp: adjacent_def)
  have kids: "\<forall>c \<in> set cs. map_of nodes c \<noteq> None \<and> (\<exists>d > 0. map_of degrees c = Some d)"
  proof
    fix c assume "c \<in> set cs"
    then have "(?i, c) \<in> E" "c \<in> ?N" using cs(2) E(2) by auto
    moreover from this have "0 < card (open_parents E taken c)"
      using i(2) open_parents_finite [OF E(1), of c taken] by (auto simp: card_gt_0_iff)
    ultimately show "map_of nodes c \<noteq> None \<and> (\<exists>d > 0. map_of degrees c = Some d)"
      by (simp add: degrees map_of_eq_None_iff)
  qed
  from release_children_Some [OF head(2) cs(1) kids] obtain r' d' where
    rel: "release_children nodes cs (ready, degrees) = Some (r', d')" "bs_wf r'"
    and r': "set r' = set ready \<union> {(position_of nodes c, c) |c. c \<in> set cs \<and> map_of degrees c = Some 1}"
    and d': "map_of d' = (\<lambda>n. if n \<in> set cs then map_option (\<lambda>d. d - 1) (map_of degrees n) else map_of degrees n)"
    by blast
  have "map_of d' n = (if n \<in> ?N then Some (card (open_parents E (taken @ [?i]) n)) else None)" for n
    unfolding d' card_open_parents [OF i(2)] using cs(2) by (simp add: degrees)
  moreover have "c \<notin> set (taken @ [?i])" if "c \<in> set cs" for c
    using that cs(2) E(3) i(2) topological_before [OF topo] by auto
  then have "set r' = {(position_of nodes n, n) |n. n \<in> ?N \<and> n \<notin> set (taken @ [?i]) \<and> open_parents E (taken @ [?i]) n = {}}"
    unfolding r' head(3) no_open_parents [OF i(2)] using cs(2) E(2) by (auto simp: degrees)
  ultimately have "kahn_inv nodes E (r', d') (taken @ [?i])"
    using taken rel(2) i topological_snoc [OF topo] by (simp add: kahn_inv_def)
  with rel(1) show ?thesis by blast
qed

lemma kahn_correct:
  assumes "adjacent nodes E outgoing" "kahn_inv nodes E (ready, degrees) taken"
  shows "\<exists>order degrees'. kahn nodes outgoing (ready, degrees) taken = Some order \<and> kahn_inv nodes E ([], degrees') order"
  using assms
proof (induction nodes outgoing "(ready, degrees)" taken arbitrary: ready degrees rule: kahn.induct)
  case (1 nodes outgoing ready degrees taken)
  show ?case
  proof (cases ready)
    case Nil
    then show ?thesis using "1.prems"(2) by (subst kahn.simps) auto
  next
    case (Cons key ready')
    then have inv: "kahn_inv nodes E (key # ready', degrees) taken" using "1.prems"(2) by simp
    have "snd key \<in> fst ` set nodes" using kahn_inv_head(1) [OF inv] by simp
    then obtain cs where cs: "map_of outgoing (snd key) = Some cs" using "1.prems"(1) by (auto simp: adjacent_def)
    obtain r d where st: "release_children nodes cs (ready', degrees) = Some (r, d)"
      and inv': "kahn_inv nodes E (r, d) (taken @ [snd key])"
      using kahn_inv_step [OF "1.prems"(1) inv cs] by auto
    show ?thesis
      using "1.hyps"(2) [OF Cons refl cs st "1.prems"(1) inv'] st cs by (subst kahn.simps) (simp add: Cons)
  qed
qed

section \<open>The sort\<close>

lemma map_of_sort_adjacent: "map_of (sort_adjacent m) k = map_option sort (map_of m k)"
  by (induction m) (auto simp: sort_adjacent_def)

lemma fst_sort_adjacent [simp]: "map fst (sort_adjacent m) = map fst m"
  by (induction m) (auto simp: sort_adjacent_def)

lemma distinct_targets: "distinct (map edge deps) \<Longrightarrow> distinct (map dep_to (filter (\<lambda>d. dep_from d = k) deps))"
  by (induction deps) (auto simp: image_iff)

lemma distinct_sources: "distinct (map edge deps) \<Longrightarrow> distinct (map dep_from (filter (\<lambda>d. dep_to d = k) deps))"
  by (induction deps) (auto simp: image_iff)

lemma declared_targets: "set (map dep_to (filter (\<lambda>d. dep_from d = k) deps)) = {c. (k, c) \<in> declared_edges deps}"
  by (auto simp: declared_edges_def image_iff)

lemma declared_sources: "set (map dep_from (filter (\<lambda>d. dep_to d = k) deps)) = {p. (p, k) \<in> declared_edges deps}"
  by (auto simp: declared_edges_def image_iff)

lemma adjacent_edges:
  assumes "declared_adjacency nodes deps st" "list_all (dependency_valid nodes) deps" "distinct (map edge deps)"
  shows "adjacent nodes (declared_edges deps) (sort_adjacent (es_outgoing st))"
proof -
  have "\<exists>cs. map_of (sort_adjacent (es_outgoing st)) i = Some cs \<and> distinct cs \<and> set cs = {c. (i, c) \<in> declared_edges deps}"
    if "i \<in> fst ` set nodes" for i
  proof -
    have "map_of (es_outgoing st) i = Some (map dep_to (filter (\<lambda>d. dep_from d = i) deps))"
      using assms(1) that unfolding declared_adjacency_def by blast
    then show ?thesis
      using distinct_targets [OF assms(3), of i] by (simp only: map_of_sort_adjacent) (simp add: declared_targets [symmetric])
  qed
  moreover have "declared_edges deps \<subseteq> fst ` set nodes \<times> fst ` set nodes" "(n, n) \<notin> declared_edges deps" for n
    using assms(2) by (auto simp: declared_edges_def list_all_iff dependency_valid_def contains_keys)
  ultimately show ?thesis by (simp add: adjacent_def declared_edges_def)
qed

lemma filter_map_degrees:
  assumes "distinct (map fst degrees)" "map fst degrees = map fst nodes"
  shows "set (initial_ready nodes degrees) = {(position_of nodes n, n) |n. n \<in> fst ` set nodes \<and> map_of degrees n = Some 0}"
proof -
  have keys: "n \<in> fst ` set degrees \<longleftrightarrow> n \<in> fst ` set nodes" for n using assms(2) by (metis list.set_map)
  have some: "\<exists>step. map_of nodes n = Some step" if "n \<in> fst ` set nodes" for n
    using that by (metis map_of_eq_None_iff option.exhaust)
  have entry: "(n, d) \<in> set degrees \<longleftrightarrow> map_of degrees n = Some d" for n d using assms(1) by (auto simp: map_of_is_SomeI dest: map_of_SomeD)
  have "x \<in> set (initial_ready nodes degrees) \<longleftrightarrow>
      (\<exists>n. n \<in> fst ` set nodes \<and> map_of degrees n = Some 0 \<and> x = (position_of nodes n, n))" for x
  proof
    assume "x \<in> set (initial_ready nodes degrees)"
    then obtain n d where nd: "(n, d) \<in> set degrees"
      and x: "(if d = 0 then map_option (\<lambda>step. (ws_position step, n)) (map_of nodes n) else None) = Some x"
      by (auto simp: initial_ready_def set_filter_map)
    then show "\<exists>n. n \<in> fst ` set nodes \<and> map_of degrees n = Some 0 \<and> x = (position_of nodes n, n)"
      using keys [of n] entry [of n d] by (intro exI [of _ n]) (force simp: position_of_def split: if_splits)
  next
    assume "\<exists>n. n \<in> fst ` set nodes \<and> map_of degrees n = Some 0 \<and> x = (position_of nodes n, n)"
    then obtain n where "n \<in> fst ` set nodes" "(n, 0) \<in> set degrees" "x = (position_of nodes n, n)" using entry by blast
    moreover from this obtain step where "map_of nodes n = Some step" using some by blast
    ultimately show "x \<in> set (initial_ready nodes degrees)"
      unfolding initial_ready_def set_bs_collect set_filter_map
      by (intro CollectI bexI [of _ "(n, 0)"]) (simp_all add: position_of_def)
  qed
  then show ?thesis by blast
qed

lemma kahn_inv_init:
  assumes "bt_wf nodes" "map fst degrees = map fst nodes" "finite E"
    and "\<And>n. n \<in> fst ` set nodes \<Longrightarrow> map_of degrees n = Some (card {p. (p, n) \<in> E})"
  shows "kahn_inv nodes E (initial_ready nodes degrees, degrees) []"
proof -
  have d: "distinct (map fst degrees)" using bt_wf_distinct [OF assms(1)] assms(2) by simp
  have none: "map_of degrees n = None" if "n \<notin> fst ` set nodes" for n
    using that assms(2) by (metis list.set_map map_of_eq_None_iff)
  have zero: "map_of degrees n = Some 0 \<longleftrightarrow> {p. (p, n) \<in> E} = {}" if "n \<in> fst ` set nodes" for n
    using assms(4) [OF that] open_parents_finite [OF assms(3), of n "[]"] by simp
  have "set (initial_ready nodes degrees) = {(position_of nodes n, n) |n. n \<in> fst ` set nodes \<and> {p. (p, n) \<in> E} = {}}"
    unfolding filter_map_degrees [OF d assms(2)] using zero by auto
  moreover have "bs_wf (initial_ready nodes degrees)" by (simp add: initial_ready_def bs_wf_collect)
  ultimately show ?thesis using assms(4) none by (auto simp: kahn_inv_def topological_def)
qed

text \<open>A complete order exists exactly when nothing depends on itself.\<close>

lemma takeWhile_until: "n \<notin> set xs \<Longrightarrow> takeWhile (\<lambda>m. m \<noteq> n) (xs @ n # ys) = xs"
  by (induction xs) auto

lemma topological_acyclic:
  assumes "topological E order" "E \<subseteq> set order \<times> set order" "distinct order"
  shows "acyclic E"
proof -
  define at_index where "at_index n = length (takeWhile (\<lambda>m. m \<noteq> n) order)" for n
  have "at_index p < at_index n" if "(p, n) \<in> E" for p n
  proof -
    have "n \<in> set order" using that assms(2) by auto
    then obtain xs ys where order: "order = xs @ n # ys" "n \<notin> set xs" by (meson split_list_first)
    then have "p \<in> set xs" using assms(1) that by (auto simp: topological_def)
    then obtain us vs where xs: "xs = us @ p # vs" "p \<notin> set us" by (meson split_list_first)
    have "at_index n = length xs" using order(2) by (simp only: at_index_def order(1) takeWhile_until not_False_eq_True)
    moreover have "at_index p = length us" using takeWhile_until [OF xs(2), of "vs @ n # ys"] by (simp add: at_index_def order(1) xs(1))
    ultimately show ?thesis by (simp add: xs)
  qed
  then have "E \<subseteq> measure at_index" by auto
  then show ?thesis by (meson acyclic_subset wf_acyclic wf_measure)
qed

lemma complete_order:
  assumes "kahn_inv nodes E ([], degrees) order" "finite E" "E \<subseteq> fst ` set nodes \<times> fst ` set nodes" "acyclic E"
  shows "set order = fst ` set nodes"
proof (rule ccontr)
  assume "set order \<noteq> fst ` set nodes"
  with assms(1) obtain m where "m \<in> fst ` set nodes - set order" by (auto simp: kahn_inv_def)
  moreover have "wf E" using assms(2,4) by (rule finite_acyclic_wf)
  ultimately obtain z where z: "z \<in> fst ` set nodes - set order" and least: "\<And>y. (y, z) \<in> E \<Longrightarrow> y \<notin> fst ` set nodes - set order"
    by (meson wfE_min)
  then have "open_parents E order z = {}" using assms(3) by auto
  moreover have "{(position_of nodes n, n) |n. n \<in> fst ` set nodes \<and> n \<notin> set order \<and> open_parents E order n = {}} = {}"
    using assms(1) by (simp add: kahn_inv_def)
  ultimately show False using z by blast
qed

lemma declared_adjacencyD:
  assumes "declared_adjacency nodes deps st" "k \<in> fst ` set nodes"
  shows "map_of (es_incoming st) k = Some (map dep_from (filter (\<lambda>d. dep_to d = k) deps))"
    and "map_of (es_dependencies st) k = Some (filter (\<lambda>d. dep_to d = k) deps)"
  using assms unfolding declared_adjacency_def by blast+

lemma map_of_lengths: "map_of (map (\<lambda>(i, xs). (i, length xs)) m) k = map_option length (map_of m k)"
  by (induction m) auto

lemma topological_sort_correct:
  assumes "bt_wf nodes" "declared_adjacency nodes deps st" "list_all (dependency_valid nodes) deps" "distinct (map edge deps)"
  shows "\<exists>order. topological_sort nodes (sort_adjacent (es_outgoing st)) (sort_adjacent (es_incoming st)) =
           Some (if acyclic (declared_edges deps) then Ok order else Err CycleDetected) \<and>
         (if acyclic (declared_edges deps)
          then distinct order \<and> set order = fst ` set nodes \<and> topological (declared_edges deps) order else True)"
proof -
  let ?E = "declared_edges deps" and ?incoming = "sort_adjacent (es_incoming st)"
  define degrees where "degrees = map (\<lambda>(i, parents). (i, length parents)) ?incoming"
  note adj = adjacent_edges [OF assms(2-4)]
  have E: "finite ?E" "?E \<subseteq> fst ` set nodes \<times> fst ` set nodes" using adj by (simp_all add: adjacent_def)
  have get: "map_of degrees n = map_option length (map_of ?incoming n)" for n
    unfolding degrees_def by (simp only: map_of_lengths)
  have "map_of degrees n = Some (card {p. (p, n) \<in> ?E})" if "n \<in> fst ` set nodes" for n
    unfolding get map_of_sort_adjacent declared_adjacencyD(1) [OF assms(2) that]
    using distinct_card [OF distinct_sources [OF assms(4), of n], unfolded declared_sources] by simp
  moreover have "map fst degrees = map fst nodes"
  proof -
    have "map fst degrees = map fst ?incoming" unfolding degrees_def by (simp only: map_map comp_def case_prod_unfold fst_conv)
    then show ?thesis using assms(2) by (simp add: declared_adjacency_def)
  qed
  ultimately have "kahn_inv nodes ?E (initial_ready nodes degrees, degrees) []"
    using assms(1) E(1) by (intro kahn_inv_init)
  from kahn_correct [OF adj this] obtain order degrees' where
    order: "kahn nodes (sort_adjacent (es_outgoing st)) (initial_ready nodes degrees, degrees) [] = Some order"
    and inv: "kahn_inv nodes ?E ([], degrees') order" by blast
  have props: "distinct order" "set order \<subseteq> fst ` set nodes" "topological ?E order" using inv by (simp_all add: kahn_inv_def)
  have "length order = length nodes \<longleftrightarrow> set order = fst ` set nodes"
    using props(1,2) bt_wf_distinct [OF assms(1)] distinct_card [of order] distinct_card [of "map fst nodes"]
    by (metis List.finite_set card_subset_eq length_map list.set_map)
  moreover have "set order = fst ` set nodes \<longleftrightarrow> acyclic ?E"
  proof
    assume "set order = fst ` set nodes"
    with E(2) have "?E \<subseteq> set order \<times> set order" by simp
    with props(3) show "acyclic ?E" using props(1) by (rule topological_acyclic)
  qed (rule complete_order [OF inv E])
  ultimately show ?thesis
    using order props by (auto simp: topological_sort_def degrees_def [symmetric] Let_def)
qed

section \<open>What a graph is\<close>

text \<open>Declarations of one workflow that form a graph without cycles.\<close>

definition well_declared :: "string \<Rightarrow> workflow_step list \<Rightarrow> step_dependency list \<Rightarrow> bool" where
  "well_declared wid steps deps \<longleftrightarrow>
     list_all (\<lambda>s. ws_workflow s = wid) steps \<and> distinct (map ws_id steps) \<and>
     list_all (\<lambda>d. dep_from d \<in> ws_id ` set steps \<and> dep_to d \<in> ws_id ` set steps \<and> dep_from d \<noteq> dep_to d) deps \<and>
     distinct (map edge deps) \<and> acyclic (declared_edges deps)"

text \<open>The graph of those declarations.\<close>

definition graph_of :: "workflow_step list \<Rightarrow> step_dependency list \<Rightarrow> workflow_graph \<Rightarrow> bool" where
  "graph_of steps deps g \<longleftrightarrow>
     known_nodes steps (wg_nodes g) \<and> distinct (wg_order g) \<and> set (wg_order g) = ws_id ` set steps \<and>
     topological (declared_edges deps) (wg_order g) \<and>
     (\<forall>i \<in> ws_id ` set steps. map_of (wg_incoming_dependencies g) i = Some (filter (\<lambda>d. dep_to d = i) deps))"

lemma workflow_graph_new_iff:
  "\<exists>r. workflow_graph_new wid steps deps = Some r \<and>
       (case r of Inl e \<Rightarrow> \<not> well_declared wid steps deps
                | Inr g \<Rightarrow> well_declared wid steps deps \<and> graph_of steps deps g)"
proof (cases "try_fold (add_node wid) [] steps")
  case (Inl e)
  then have "\<not> (list_all (\<lambda>s. ws_workflow s = wid) steps \<and> distinct (map ws_id steps))"
    using add_nodes_Ok [of wid "[]" steps] by (auto simp: list_all_iff)
  then show ?thesis using Inl by (auto simp: workflow_graph_new_def well_declared_def)
next
  case (Inr nodes)
  then have steps: "list_all (\<lambda>s. ws_workflow s = wid) steps" "distinct (map ws_id steps)"
    and nodes: "nodes = btree.build (map (\<lambda>s. (ws_id s, s)) steps) []"
    using add_nodes_Ok [of wid "[]" steps] by (auto simp: list_all_iff)
  have known: "known_nodes steps nodes" using known_nodes_build [OF steps(2)] nodes by simp
  then have valid: "dependency_valid nodes d \<longleftrightarrow>
      dep_from d \<in> ws_id ` set steps \<and> dep_to d \<in> ws_id ` set steps \<and> dep_from d \<noteq> dep_to d" for d
    by (simp only: dependency_valid_def known_nodes_contains)
  let ?init = "\<lparr>es_edges = [], es_outgoing = no_adjacent nodes, es_incoming = no_adjacent nodes, es_dependencies = no_adjacent nodes\<rparr>"
  note edges = add_edges [OF declared_adjacency_init [of nodes], of deps]
  show ?thesis
  proof (cases "try_fold (add_edge nodes) ?init deps")
    case (Inl e)
    then have "\<not> ((\<forall>d \<in> set deps. dependency_valid nodes d) \<and> distinct (map edge deps))"
      using edges by (auto simp: declared_edges_def)
    then show ?thesis using Inl Inr by (auto simp: workflow_graph_new_def well_declared_def valid list_all_iff)
  next
    case st: (Inr st)
    then have deps: "list_all (dependency_valid nodes) deps" "distinct (map edge deps)" "declared_adjacency nodes deps st"
      using edges by (auto simp: list_all_iff)
    have wf: "bt_wf nodes" using known by (simp add: known_nodes_def)
    obtain order where
      sorted: "topological_sort nodes (sort_adjacent (es_outgoing st)) (sort_adjacent (es_incoming st)) =
        Some (if acyclic (declared_edges deps) then Ok order else Err CycleDetected)"
      and order: "if acyclic (declared_edges deps)
        then distinct order \<and> set order = fst ` set nodes \<and> topological (declared_edges deps) order else True"
      using topological_sort_correct [OF wf deps(3,1,2)] by blast
    have declared: "well_declared wid steps deps \<longleftrightarrow> acyclic (declared_edges deps)"
      using steps deps(1,2) by (simp add: well_declared_def valid [symmetric] list_all_iff)
    show ?thesis
    proof (cases "acyclic (declared_edges deps)")
      case True
      then show ?thesis
        using Inr st sorted order declared known declared_adjacencyD(2) [OF deps(3)]
        by (simp add: workflow_graph_new_def graph_of_def Let_def known_nodes_keys [OF known, symmetric])
    next
      case False
      then show ?thesis using Inr st sorted declared by (simp add: workflow_graph_new_def Let_def)
    qed
  qed
qed

text \<open>C27. \<open>WorkflowGraph::new\<close> never overflows a counter, and accepts exactly the declarations whose
  steps are distinct and belong to the workflow, whose dependencies are distinct and join two
  different declared steps, and which contain no cycle.\<close>

theorem workflow_graph_accepts_exactly:
  "workflow_graph_new wid steps deps \<noteq> None \<and>
   ((\<exists>g. workflow_graph_new wid steps deps = Some (Ok g)) \<longleftrightarrow> well_declared wid steps deps)"
proof -
  from workflow_graph_new_iff [of wid steps deps] obtain r where "workflow_graph_new wid steps deps = Some r"
    "case r of Inl e \<Rightarrow> \<not> well_declared wid steps deps | Inr g \<Rightarrow> well_declared wid steps deps \<and> graph_of steps deps g" by blast
  then show ?thesis by (cases r) auto
qed

text \<open>C28. The order of an accepted graph lists every step of the workflow exactly once, and every step
  after all the steps it depends on.\<close>

theorem workflow_order_respects_dependencies:
  assumes "workflow_graph_new wid steps deps = Some (Ok g)"
  shows "distinct (wg_order g) \<and> set (wg_order g) = ws_id ` set steps \<and>
         (if d \<in> set deps then \<exists>xs ys zs. wg_order g = xs @ dep_from d # ys @ dep_to d # zs else True)"
proof -
  have g: "graph_of steps deps g" and well: "well_declared wid steps deps"
    using workflow_graph_new_iff [of wid steps deps] assms by auto
  have "\<exists>xs ys zs. wg_order g = xs @ dep_from d # ys @ dep_to d # zs" if "d \<in> set deps"
  proof -
    have "dep_to d \<in> set (wg_order g)" using g well that by (auto simp: graph_of_def well_declared_def list_all_iff)
    then obtain us zs where us: "wg_order g = us @ dep_to d # zs" by (meson split_list)
    moreover have "(dep_from d, dep_to d) \<in> declared_edges deps" using that by (auto simp: declared_edges_def)
    ultimately have "dep_from d \<in> set us" using g by (auto simp: graph_of_def dest: topologicalD)
    then obtain xs ys where "us = xs @ dep_from d # ys" by (meson split_list)
    then show ?thesis using us by auto
  qed
  then show ?thesis using g by (simp add: graph_of_def)
qed

definition example_step :: "step_id \<Rightarrow> int \<Rightarrow> workflow_step" where
  "example_step i position =
     \<lparr>ws_id = i, ws_workflow = ''w'', ws_position = position, ws_name = i, ws_job_definition = ''j'', ws_pool = ''p'',
      ws_timeout = None\<rparr>"

lemma example_declared:
  "well_declared ''w'' [example_step ''a'' 2, example_step ''b'' 1] [dependency_new ''a'' ''b'']"
  by (simp add: well_declared_def example_step_def dependency_new_def declared_edges_def acyclic_def trancl_insert)

theorem workflow_order_respects_dependencies_witness:
  "\<exists>g xs ys zs. workflow_graph_new ''w'' [example_step ''a'' 2, example_step ''b'' 1] [dependency_new ''a'' ''b''] = Some (Ok g) \<and>
     wg_order g = xs @ ''a'' # ys @ ''b'' # zs"
proof -
  obtain g where g: "workflow_graph_new ''w'' [example_step ''a'' 2, example_step ''b'' 1] [dependency_new ''a'' ''b''] = Some (Ok g)"
    using workflow_graph_new_iff [of "''w''" "[example_step ''a'' 2, example_step ''b'' 1]" "[dependency_new ''a'' ''b'']"]
      example_declared by (elim exE) (case_tac r; simp)
  show ?thesis
    using g workflow_order_respects_dependencies [OF g, of "dependency_new ''a'' ''b''"] by (simp add: dependency_new_def)
qed

end
