(* ===== verification/Job_Facts.thy ===== *)
theory Job_Facts
  imports Job_Runs
begin

text \<open>
  What the shared table of job runs guarantees however many workers use it, and in whatever order
  their statements interleave: a terminal run is final and a lease finishes at most one attempt. Two
  things are not kept. The capacity of a pool can be passed, because its leases are counted in a
  snapshot older than its lock; and the start of an attempt is not fenced by the lease.
\<close>

section \<open>Histories of the table\<close>

text \<open>The statements of the job store. The writes of a workflow's reconciliation and cancellation to the
  same table, which are guarded by a status that is not terminal, and the deletion of a resumed
  workflow's runs are modelled with the workflows.\<close>

datatype job_op =
    OpSave int job_run
  | OpLease int string int "(string \<times> u32) list" bool "string \<Rightarrow> bool" "string \<Rightarrow> bool" job_table
  | OpLeaseAny int string int "string \<Rightarrow> bool" "string \<Rightarrow> bool" job_table
  | OpHeartbeat int string string int
  | OpCancel string
  | OpFinish int string u32 string job_run_status "u64 option"
  | OpPromote int
  | OpRecover int bool

fun job_exec :: "job_op \<Rightarrow> job_table \<Rightarrow> job_table" where
  "job_exec (OpSave now run) t = (case save now run t of Inl e \<Rightarrow> t | Inr t' \<Rightarrow> t')"
| "job_exec (OpLease now worker s limits reattach held pool_held seen) t =
     snd (lease_with_pool_limits now worker s limits reattach held pool_held seen t)"
| "job_exec (OpLeaseAny now worker s held pool_held seen) t = snd (lease_next_queued_run now worker s held pool_held seen t)"
| "job_exec (OpHeartbeat now i worker s) t = snd (heartbeat_run now i worker s t)"
| "job_exec (OpCancel i) t = snd (cancel_run i t)"
| "job_exec (OpFinish now i n worker status delay) t = snd (finish_running_attempt now i n worker status delay t)"
| "job_exec (OpPromote now) t = promote_ready_retries now t"
| "job_exec (OpRecover now preserve) t = recover_expired_leases_for_runner now preserve t"

fun is_lease_op :: "job_op \<Rightarrow> bool" where
  "is_lease_op (OpLease now worker s limits reattach held pool_held seen) = True"
| "is_lease_op (OpLeaseAny now worker s held pool_held seen) = True"
| "is_lease_op op = False"

fun rewrites_run :: "string \<Rightarrow> job_op \<Rightarrow> bool" where
  "rewrites_run i (OpSave now run) = (run_ident run = i)"
| "rewrites_run i (OpCancel j) = (j = i)"
| "rewrites_run i op = False"

inductive job_reachable :: "job_table \<Rightarrow> bool" where
  empty_table: "job_reachable []"
| statement: "job_reachable t \<Longrightarrow> job_reachable (job_exec op t)"

section \<open>One statement\<close>

lemma map_of_update_rows [simp]:
  "map_of (update_rows p f t) i = map_option (\<lambda>row. if p row then f row else row) (map_of t i)"
  by (induction t) (auto simp: update_rows_def)

lemma fst_update_rows [simp]: "map fst (update_rows p f t) = map fst t"
  by (induction t) (auto simp: update_rows_def)

lemma bt_wf_update_rows [simp]: "bt_wf t \<Longrightarrow> bt_wf (update_rows p f t)"
  by (simp add: bt_wf_def)

text \<open>A lease takes a row of the table that can be leased, and nothing else changes.\<close>

lemma lease_found:
  assumes "bt_wf t"
  shows "lease_next_queued_run_with_limits now worker s limits fallback reattach held pool_held seen t = (Ok None, t) \<or>
    (\<exists>i row. map_of t i = Some row \<and> leasable now reattach row \<and>
       int (active_in_pool now (row_pool row) seen) < pool_limit limits fallback (row_pool row) \<and>
       lease_next_queued_run_with_limits now worker s limits fallback reattach held pool_held seen t =
         (and_then (row_to_job_run i (lease_row now worker s row)) (\<lambda>run. Ok (Some run)),
          bt_insert i (lease_row now worker s row) t))"
proof -
  let ?free = "\<lambda>(i, row). \<not> pool_held (row_pool row) \<and>
      int (active_in_pool now (row_pool row) seen) < pool_limit limits fallback (row_pool row)"
  let ?candidates = "lease_candidates now limits fallback reattach held t"
  show ?thesis
  proof (cases "find ?free ?candidates")
    case None
    then show ?thesis by (simp add: lease_next_queued_run_with_limits_def)
  next
    case (Some p)
    obtain i row where p: "p = (i, row)" by fastforce
    with Some find_SomeD [of ?free ?candidates p] have c: "(i, row) \<in> set ?candidates" and free: "?free (i, row)" by auto
    from c have "(i, row) \<in> set t" "leasable now reattach row"
      by (auto simp: lease_candidates_def dest: in_set_takeD)
    moreover from this have "map_of t i = Some row" using bt_wf_distinct [OF assms] by simp
    ultimately show ?thesis
      using Some free by (intro disjI2 exI [of _ i] exI [of _ row]) (simp add: p lease_next_queued_run_with_limits_def Let_def)
  qed
qed

lemma lease_effect:
  assumes "bt_wf t" "is_lease_op op"
  shows "job_exec op t = t \<or>
    (\<exists>now worker s reattach i row. map_of t i = Some row \<and> leasable now reattach row \<and>
       job_exec op t = bt_insert i (lease_row now worker s row) t)"
proof (cases op)
  case (OpLease now worker s limits reattach held pool_held seen)
  show ?thesis
  proof (cases "limits_i32 limits")
    case (Inr ls)
    then show ?thesis
      using lease_found [OF assms(1), of now worker s "rev ls" 0 reattach held pool_held seen]
      by (simp add: OpLease lease_with_pool_limits_def) (metis snd_conv)
  qed (simp add: OpLease lease_with_pool_limits_def)
next
  case (OpLeaseAny now worker s held pool_held seen)
  then show ?thesis
    using lease_found [OF assms(1), of now worker s "[]" i32_max False held pool_held seen]
    by (simp add: lease_next_queued_run_def) (metis snd_conv)
qed (use assms(2) in simp_all)

lemma bt_wf_job_exec: "bt_wf t \<Longrightarrow> bt_wf (job_exec op t)"
proof (cases "is_lease_op op")
  case True
  assume wf: "bt_wf t"
  with lease_effect [OF wf True] show ?thesis by auto
next
  case False
  assume "bt_wf t"
  with False show ?thesis
    by (cases op)
       (auto simp: save_def heartbeat_run_def cancel_run_def finish_running_attempt_def promote_ready_retries_def
          recover_expired_leases_for_runner_def Let_def split: sum.splits option.splits elim!: and_then.elims)
qed

lemma job_reachable_wf: "job_reachable t \<Longrightarrow> bt_wf t"
  by (induction rule: job_reachable.induct) (simp_all add: bt_wf_job_exec)

lemma job_reachable_history: "job_reachable t \<Longrightarrow> job_reachable (fold job_exec ops t)"
  by (induction ops arbitrary: t) (auto intro: job_reachable.intros)

text \<open>An invariant of a row that every admitted statement keeps holds after any history.\<close>

lemma row_invariant:
  assumes "bt_wf t" "map_of t i = Some row" "P row" "list_all A ops"
    and "\<And>t op row. bt_wf t \<Longrightarrow> A op \<Longrightarrow> map_of t i = Some row \<Longrightarrow> P row \<Longrightarrow> \<exists>row'. map_of (job_exec op t) i = Some row' \<and> P row'"
  shows "\<exists>row'. map_of (fold job_exec ops t) i = Some row' \<and> P row'"
  using assms(1-4)
proof (induction ops arbitrary: t row)
  case (Cons op ops)
  then obtain row' where "map_of (job_exec op t) i = Some row'" "P row'" using assms(5) by fastforce
  with Cons show ?case by (auto simp: bt_wf_job_exec)
qed simp

lemma save_row:
  assumes "map_of t i = Some row"
  shows "\<exists>row'. map_of (job_exec (OpSave now run) t) i = Some row' \<and>
           (row' = row \<or> run_ident run = i \<and> \<not> job_is_terminal (row_status row) \<and>
              (\<exists>n. row' = row\<lparr>row_status := run_job_status run, row_pool := run_pool run,
                              row_input := run_input run, row_attempts := n\<rparr>))"
  using assms by (cases "attempts_i32 (run_attempts run)") (auto simp: save_def split: option.splits)

lemmas statement_defs =
  heartbeat_run_def cancel_run_def finish_running_attempt_def promote_ready_retries_def
  recover_expired_leases_for_runner_def

lemma terminal_row_step:
  assumes "bt_wf t" "map_of t i = Some row" "job_is_terminal (row_status row)"
  shows "map_of (job_exec op t) i = Some row"
proof (cases "is_lease_op op")
  case True
  then show ?thesis
    using lease_effect [OF assms(1) True] assms(2,3) by (auto simp: leasable_def job_is_terminal_def)
next
  case False
  then show ?thesis
  proof (cases op)
    case (OpSave now run)
    then show ?thesis using save_row [OF assms(2), of now run] assms(3) by auto
  qed (use assms(2,3) in \<open>auto simp: statement_defs job_is_terminal_def Let_def split: option.splits sum.splits\<close>)
qed

lemma unleased_row_step:
  assumes "map_of t i = Some row" "row_lease_owner row = None" "\<not> is_lease_op op"
  shows "\<exists>row'. map_of (job_exec op t) i = Some row' \<and> row_lease_owner row' = None"
proof (cases op)
  case (OpSave now run)
  then show ?thesis using save_row [OF assms(1), of now run] assms(2) by auto
qed (use assms in \<open>auto simp: statement_defs Let_def split: option.splits sum.splits\<close>)

definition orphaned :: "job_row \<Rightarrow> bool" where
  "orphaned row \<longleftrightarrow> row_status row = JRunning \<and> row_lease_owner row = None \<and> row_lease_expires row = None"

lemma orphaned_row_step:
  assumes "bt_wf t" "map_of t i = Some row" "orphaned row" "\<not> rewrites_run i op"
  shows "map_of (job_exec op t) i = Some row"
proof (cases "is_lease_op op")
  case True
  then show ?thesis
    using lease_effect [OF assms(1) True] assms(2,3) by (auto simp: leasable_def orphaned_def due_def)
next
  case False
  then show ?thesis
  proof (cases op)
    case (OpSave now run)
    then show ?thesis using save_row [OF assms(2), of now run] assms(4) by auto
  qed (use assms(2-4) in \<open>auto simp: statement_defs orphaned_def due_def Let_def split: option.splits sum.splits\<close>)
qed

section \<open>Terminal runs, leases and capacity\<close>

text \<open>C21. Once a run is terminal its row never changes again, whatever statements follow: not even a
  late start, heartbeat or completion of a worker that still believes it owns the run.\<close>

theorem terminal_job_is_final:
  assumes "job_reachable t" "map_of t i = Some row" "job_is_terminal (row_status row)"
  shows "map_of (fold job_exec ops t) i = Some row"
proof -
  have "\<exists>row'. map_of (fold job_exec ops t) i = Some row' \<and> row' = row"
    using job_reachable_wf [OF assms(1)] assms(2) refl
    by (rule row_invariant [where A = "\<lambda>_. True"])
       (use assms(3) terminal_row_step in \<open>auto simp: list_all_iff\<close>)
  then show ?thesis by blast
qed

definition example_run :: job_run where
  "example_run = job_run_new ''r'' ''d'' ''p''"

definition example_row :: "job_run_status \<Rightarrow> job_row" where
  "example_row status =
     \<lparr>row_definition = ''d'', row_pool = ''p'', row_input = ''{}'', row_status = status, row_attempts = 0,
      row_lease_owner = None, row_lease_expires = None, row_heartbeat = None, row_retry_ready = None,
      row_timeout = None, row_created = 0\<rparr>"

lemma example_saved: "job_exec (OpSave 0 example_run) [] = [(''r'', example_row JQueued)]"
  by (simp add: save_def attempts_i32_def example_run_def job_run_new_def example_row_def)

lemma example_cancelled: "job_exec (OpCancel ''r'') [(''r'', example_row JQueued)] = [(''r'', example_row JCancelled)]"
  by (simp add: cancel_run_def example_row_def Let_def)

lemma example_reachable: "job_reachable [(''r'', example_row JQueued)]"
  using job_reachable.statement [OF job_reachable.empty_table, of "OpSave 0 example_run"] by (simp only: example_saved)

theorem terminal_job_is_final_witness:
  "map_of (fold job_exec [OpSave 9 (example_run\<lparr>run_job_status := JRunning\<rparr>), OpPromote 10] [(''r'', example_row JCancelled)])
     ''r'' = Some (example_row JCancelled)"
proof (rule terminal_job_is_final)
  show "job_reachable [(''r'', example_row JCancelled)]"
    using job_reachable.statement [OF example_reachable, of "OpCancel ''r''"] by (simp only: example_cancelled)
qed (simp_all add: example_row_def job_is_terminal_def)

lemma finished_unleased:
  assumes "finish_running_attempt now i n worker status delay t = (Ok (Some run), t')"
  shows "\<exists>row. map_of t' i = Some row \<and> row_lease_owner row = None"
  using assms by (auto simp: finish_running_attempt_def Let_def split: sum.splits option.splits if_splits)

text \<open>C22. A lease finishes at most one attempt: after a worker has finished a run, no worker can
  finish it again, under any attempt number, until the run is leased again.\<close>

theorem a_lease_finishes_once:
  assumes "job_reachable t"
    and "finish_running_attempt now i n worker status delay t = (Ok (Some run), t')"
    and "list_all (\<lambda>op. \<not> is_lease_op op) ops"
  shows "fst (finish_running_attempt now' i n' worker' status' delay' (fold job_exec ops t')) \<noteq> Ok (Some run')"
proof -
  have wf: "bt_wf t'"
    using bt_wf_job_exec [OF job_reachable_wf [OF assms(1)], of "OpFinish now i n worker status delay"] assms(2) by simp
  obtain row where row: "map_of t' i = Some row" "row_lease_owner row = None" using finished_unleased [OF assms(2)] by blast
  have "\<exists>row'. map_of (fold job_exec ops t') i = Some row' \<and> row_lease_owner row' = None"
    using wf row assms(3) by (rule row_invariant) (rule unleased_row_step)
  then show ?thesis by (auto simp: finish_running_attempt_def split: sum.splits)
qed

text \<open>The history of an example: the run is saved, leased, started and finished.\<close>

definition started_run :: job_run where
  "started_run = example_run\<lparr>run_job_status := JRunning, run_attempts := 1\<rparr>"

definition running_table :: job_table where
  "running_table = fold job_exec [OpLeaseAny 0 ''w'' 30 (\<lambda>_. False) (\<lambda>_. False) [], OpSave 1 started_run] [(''r'', example_row JQueued)]"

lemma example_leased:
  "lease_next_queued_run_with_limits 0 ''w'' 30 limits n False (\<lambda>_. False) (\<lambda>_. False) [] [(''r'', example_row JQueued)] =
     (if pool_limit limits n ''p'' > 0
      then (Ok (Some (example_run\<lparr>run_job_status := JLeased\<rparr>)), [(''r'', lease_row 0 ''w'' 30 (example_row JQueued))])
      else (Ok None, [(''r'', example_row JQueued)]))"
  by (simp add: lease_next_queued_run_with_limits_def lease_candidates_def leasable_def active_in_pool_def example_row_def
        row_to_job_run_def lease_row_def Let_def example_run_def job_run_new_def trim_def is_whitespace_def)

lemma running_table_eq:
  "running_table = [(''r'', (lease_row 0 ''w'' 30 (example_row JQueued))\<lparr>row_status := JRunning, row_attempts := 1\<rparr>)]"
  by (simp add: running_table_def lease_next_queued_run_def example_leased pool_limit_def i32_max_def save_def
        attempts_i32_def started_run_def example_run_def job_run_new_def job_is_terminal_def)
     (simp add: lease_row_def example_row_def)

theorem a_lease_finishes_once_witness:
  "\<forall>now'. fst (finish_running_attempt now' ''r'' 1 ''w'' JFailed None
     (fold job_exec [OpPromote 5, OpRecover 99 False] (job_exec (OpFinish 2 ''r'' 1 ''w'' JSucceeded None) running_table)))
   \<noteq> Ok (Some started_run)"
proof
  fix now'
  let ?done = "finish_running_attempt 2 ''r'' 1 ''w'' JSucceeded None running_table"
  have "job_reachable running_table"
    unfolding running_table_def by (intro job_reachable_history example_reachable)
  moreover have "?done = (Ok (Some (started_run\<lparr>run_job_status := JSucceeded\<rparr>)), snd ?done)"
    by (simp add: running_table_eq finish_running_attempt_def attempts_i32_def Let_def row_to_job_run_def lease_row_def
          example_row_def started_run_def example_run_def job_run_new_def trim_def is_whitespace_def)
  ultimately show "fst (finish_running_attempt now' ''r'' 1 ''w'' JFailed None
      (fold job_exec [OpPromote 5, OpRecover 99 False] (job_exec (OpFinish 2 ''r'' 1 ''w'' JSucceeded None) running_table)))
    \<noteq> Ok (Some started_run)"
    unfolding job_exec.simps by (rule a_lease_finishes_once) simp
qed

text \<open>The capacity of a pool is not kept: a statement that begins before another lease of the pool commits,
  and gets the pool's lock after it, counts the leases of its own snapshot. Two workers lease two runs
  of a pool with room for one.\<close>

definition two_queued :: job_table where
  "two_queued = [(''q'', example_row JQueued), (''r'', example_row JQueued)]"

theorem stale_count_passes_capacity:
  "let t = job_exec (OpLease 0 ''w'' 30 [(''p'', 1)] False (\<lambda>_. False) (\<lambda>_. False) two_queued) two_queued;
       t' = job_exec (OpLease 1 ''v'' 30 [(''p'', 1)] False (\<lambda>_. False) (\<lambda>_. False) two_queued) t
   in map (\<lambda>(i, row). (i, row_lease_owner row)) t' = [(''q'', Some ''w''), (''r'', Some ''v'')] \<and> active_in_pool 1 ''p'' t' = 2"
  by code_simp

section \<open>The unfenced start\<close>

text \<open>A worker whose lease expired and was recovered before it started the attempt still writes
  the run as running, because the write is guarded by the status and not by the lease. The row is
  then running without a lease: its own worker's heartbeat fails, and no recovery, lease, heartbeat,
  completion or promotion ever changes it; only another unfenced write or a cancellation does.\<close>

theorem stale_start_strands_the_run:
  assumes "job_reachable t" "map_of t i = Some row"
    and "row_status row = JQueued" "row_lease_owner row = None" "row_lease_expires row = None"
    and "run_ident run = i" "run_job_status run = JRunning" "uint (run_attempts run) < 2 ^ 31"
    and "list_all (\<lambda>op. \<not> rewrites_run i op) ops"
  shows "\<exists>row'. map_of (fold job_exec ops (job_exec (OpSave now run) t)) i = Some row' \<and> orphaned row' \<and>
           \<not> fst (heartbeat_run now' i worker s (fold job_exec ops (job_exec (OpSave now run) t)))"
proof -
  let ?t = "job_exec (OpSave now run) t"
  have wf: "bt_wf ?t" by (rule bt_wf_job_exec [OF job_reachable_wf [OF assms(1)]])
  obtain row1 where row1: "map_of ?t i = Some row1" "orphaned row1"
    using assms by (auto simp: save_def attempts_i32_def orphaned_def job_is_terminal_def)
  have "\<exists>row'. map_of (fold job_exec ops ?t) i = Some row' \<and> orphaned row'"
    using wf row1 assms(9) by (rule row_invariant) (auto simp: orphaned_row_step)
  then show ?thesis by (auto simp: heartbeat_run_def orphaned_def)
qed

theorem stale_start_strands_the_run_witness:
  "\<exists>row'. map_of (fold job_exec [OpRecover 90 False, OpLeaseAny 91 ''v'' 30 (\<lambda>_. False) (\<lambda>_. False) []]
             (job_exec (OpSave 1 started_run) [(''r'', example_row JQueued)])) ''r'' = Some row' \<and> orphaned row' \<and>
     \<not> fst (heartbeat_run 92 ''r'' ''w'' 30
             (fold job_exec [OpRecover 90 False, OpLeaseAny 91 ''v'' 30 (\<lambda>_. False) (\<lambda>_. False) []]
               (job_exec (OpSave 1 started_run) [(''r'', example_row JQueued)])))"
  by (rule stale_start_strands_the_run [OF example_reachable, where row = "example_row JQueued"])
     (simp_all add: example_row_def started_run_def example_run_def job_run_new_def)

end
