(* ===== verification/Workflow_Facts.thy ===== *)
theory Workflow_Facts
  imports Workflow_Runs Workflow_Order Job_Facts
begin

text \<open>
  The snapshot of a workflow reads back as the definition it was taken of, and the invariant of the
  tables of workflow runs: what every step run says of its job, of the steps it depends on and, when
  it was skipped, of the failure behind it. Every part of a transaction keeps it.
\<close>

section \<open>The snapshot\<close>

lemma policy_round_trip [simp]: "policy_from_str (policy_str p) = Ok p"
  by (cases p) (simp_all add: policy_from_str_def)

lemma seconds_round_trip:
  "json_get j key = Some (json_seconds t) \<Longrightarrow> snapshot_optional_u64 j key = Ok t"
  using uint_lt2p [of "the t"]
  by (cases t) (auto simp: snapshot_optional_u64_def json_seconds_def)

definition step_readable :: "string \<Rightarrow> workflow_step \<Rightarrow> bool" where
  "step_readable wid step \<longleftrightarrow> trim (ws_id step) \<noteq> [] \<and> trim (ws_job_definition step) \<noteq> [] \<and> trim (ws_pool step) \<noteq> [] \<and>
     ws_workflow step = wid \<and> - (2 ^ 31) \<le> ws_position step \<and> ws_position step < 2 ^ 31"

definition dependency_readable :: "step_dependency \<Rightarrow> bool" where
  "dependency_readable dep \<longleftrightarrow> trim (dep_from dep) \<noteq> [] \<and> trim (dep_to dep) \<noteq> []"

lemma step_round_trip: "step_readable wid step \<Longrightarrow> step_from_snapshot wid (step_json step) = Ok step"
  using seconds_round_trip [of "step_json step" "''timeout_seconds''" "ws_timeout step"]
  by (simp add: step_from_snapshot_def step_json_def snapshot_string_def snapshot_i32_def persisted_id_def step_readable_def)

lemma dependency_round_trip: "dependency_readable dep \<Longrightarrow> dependency_from_snapshot (dependency_json dep) = Ok dep"
  by (simp add: dependency_from_snapshot_def dependency_json_def snapshot_string_def persisted_id_def dependency_readable_def)

lemma try_map_back: "(\<And>x. x \<in> set xs \<Longrightarrow> f (g x) = Ok x) \<Longrightarrow> try_map f (map g xs) = Ok xs"
  by (induction xs) auto

text \<open>C29. The snapshot a run pins reads back as the definition it was taken of: the same steps,
  dependencies and deadline. (The name, the description and the status are not part of it.)\<close>

theorem snapshot_reads_back:
  assumes "list_all (step_readable (wd_id w)) (wd_steps w)" "list_all dependency_readable (wd_dependencies w)"
  shows "workflow_from_snapshot (wd_id w) (workflow_snapshot_json w) = Ok (w\<lparr>wd_name := [], wd_description := [], wd_status := Enabled\<rparr>)"
proof -
  have "try_map (step_from_snapshot (wd_id w)) (map step_json (wd_steps w)) = Ok (wd_steps w)"
    by (rule try_map_back) (use assms(1) in \<open>auto simp: step_round_trip list_all_iff\<close>)
  moreover have "try_map dependency_from_snapshot (map dependency_json (wd_dependencies w)) = Ok (wd_dependencies w)"
    by (rule try_map_back) (use assms(2) in \<open>auto simp: dependency_round_trip list_all_iff\<close>)
  moreover have "snapshot_optional_u64 (workflow_snapshot_json w) ''deadline_seconds'' = Ok (wd_deadline w)"
    by (rule seconds_round_trip) (simp add: workflow_snapshot_json_def)
  ultimately show ?thesis
    by (simp add: workflow_from_snapshot_def workflow_snapshot_json_def workflow_with_dependencies_def)
qed

definition example_workflow :: workflow_definition where
  "example_workflow =
     (workflow_with_dependencies ''w'' ''name'' [] Draft [example_step ''a'' 2, example_step ''b'' 1]
       [dependency_new ''a'' ''b''])\<lparr>wd_deadline := Some 60\<rparr>"

theorem snapshot_reads_back_witness:
  "workflow_from_snapshot ''w'' (workflow_snapshot_json example_workflow) =
     Ok (example_workflow\<lparr>wd_name := [], wd_description := [], wd_status := Enabled\<rparr>)"
  using snapshot_reads_back [of example_workflow]
  by (simp add: example_workflow_def workflow_with_dependencies_def step_readable_def dependency_readable_def
        example_step_def dependency_new_def trim_def is_whitespace_def)

text \<open>What a workflow read from a snapshot has.\<close>

lemma read_workflow:
  assumes "workflow_from_snapshot wid j = Ok w"
  shows "wd_id w = wid" "step \<in> set (wd_steps w) \<Longrightarrow> trim (ws_id step) \<noteq> []"
proof -
  obtain js where w: "wd_id w = wid" "try_map (step_from_snapshot wid) js = Ok (wd_steps w)"
    using assms by (auto simp: workflow_from_snapshot_def workflow_with_dependencies_def split: option.splits)
  then show "wd_id w = wid" by simp
  assume "step \<in> set (wd_steps w)"
  then obtain j where "step_from_snapshot wid j = Ok step" using try_map_set [OF w(2)] by blast
  then show "trim (ws_id step) \<noteq> []" by (auto simp: step_from_snapshot_def persisted_id_def split: if_splits)
qed

section \<open>The invariant\<close>

definition pinned_workflow :: "wf_state \<Rightarrow> string \<Rightarrow> workflow_definition option" where
  "pinned_workflow S r =
     (case map_of (wf_runs S) r of
        None \<Rightarrow> None
      | Some run \<Rightarrow>
          (case wr_snapshot run of
             None \<Rightarrow> None
           | Some j \<Rightarrow> (case workflow_from_snapshot (wr_workflow run) j of Inl e \<Rightarrow> None | Inr w \<Rightarrow> Some w)))"

definition job_status :: "wf_state \<Rightarrow> step_run_row \<Rightarrow> job_run_status option" where
  "job_status S row = Option.bind (sr_job row) (\<lambda>j. map_option row_status (map_of (wf_jobs S) j))"

definition ended_badly :: "wf_state \<Rightarrow> step_run_row \<Rightarrow> bool" where
  "ended_badly S row \<longleftrightarrow> job_status S row \<in> Some ` {JFailed, JCancelled, JTimedOut}"

definition succeeded_step :: "wf_state \<Rightarrow> string \<Rightarrow> step_id \<Rightarrow> bool" where
  "succeeded_step S r i \<longleftrightarrow>
     (\<exists>row \<in> set (wf_steps S). sr_run row = r \<and> sr_step row = i \<and> sr_status row = WSucceeded \<and> job_status S row = Some JSucceeded)"

definition keeps_success :: "wf_state \<Rightarrow> wf_state \<Rightarrow> bool" where
  "keeps_success S S' \<longleftrightarrow> (\<forall>r i. succeeded_step S r i \<longrightarrow> succeeded_step S' r i)"

definition hard_dependencies_met :: "wf_state \<Rightarrow> step_run_row \<Rightarrow> bool" where
  "hard_dependencies_met S row \<longleftrightarrow>
     (\<forall>w. pinned_workflow S (sr_run row) = Some w \<longrightarrow>
       (\<forall>dep \<in> set (wd_dependencies w). dep_to dep = sr_step row \<and> dep_policy dep = Hard \<longrightarrow>
          succeeded_step S (sr_run row) (dep_from dep)))"

definition declared_step :: "wf_state \<Rightarrow> step_run_row \<Rightarrow> bool" where
  "declared_step S row \<longleftrightarrow>
     (\<forall>w. pinned_workflow S (sr_run row) = Some w \<longrightarrow>
       (\<exists>step \<in> set (wd_steps w). ws_id step = sr_step row \<and> ws_position step = sr_position row))"

definition step_row_ok :: "wf_state \<Rightarrow> step_run_row \<Rightarrow> bool" where
  "step_row_ok S row \<longleftrightarrow>
     bt_contains (wf_runs S) (sr_run row) \<and> declared_step S row \<and>
     (case sr_job row of
        None \<Rightarrow> sr_status row = WSkipped \<and> (\<exists>row' \<in> set (wf_steps S). sr_run row' = sr_run row \<and> ended_badly S row')
      | Some j \<Rightarrow>
          sr_status row \<in> {WQueued, WRunning, WSucceeded, WFailed, WCancelled, WTimedOut} \<and> job_status S row \<noteq> None \<and>
          (sr_status row = WSucceeded \<longrightarrow> job_status S row = Some JSucceeded) \<and> hard_dependencies_met S row)"

definition wf_inv :: "wf_state \<Rightarrow> bool" where
  "wf_inv S \<longleftrightarrow> bt_wf (wf_jobs S) \<and> bt_wf (wf_runs S) \<and>
     distinct (map (\<lambda>row. (sr_run row, sr_step row)) (wf_steps S)) \<and> list_all (step_row_ok S) (wf_steps S)"

lemmas row_ok_defs = step_row_ok_def declared_step_def hard_dependencies_met_def

text \<open>A later state, in which runs keep what they pinned, jobs that ended keep their status, and every
  step run is still there, a succeeded one as such.\<close>

definition extends :: "wf_state \<Rightarrow> wf_state \<Rightarrow> (step_run_row \<Rightarrow> step_run_row) \<Rightarrow> bool" where
  "extends S S' f \<longleftrightarrow>
     (\<forall>r. bt_contains (wf_runs S) r \<longrightarrow> bt_contains (wf_runs S') r \<and> pinned_workflow S' r = pinned_workflow S r) \<and>
     (\<forall>j jr. map_of (wf_jobs S) j = Some jr \<longrightarrow>
        (\<exists>jr'. map_of (wf_jobs S') j = Some jr' \<and> (job_is_terminal (row_status jr) \<longrightarrow> row_status jr' = row_status jr))) \<and>
     (\<forall>row \<in> set (wf_steps S). f row \<in> set (wf_steps S') \<and>
        (\<exists>s. f row = row\<lparr>sr_status := s\<rparr> \<and> (sr_status row = WSucceeded \<longrightarrow> s = WSucceeded)))"

lemma row_same_status: "\<exists>s. row = row\<lparr>sr_status := s\<rparr> \<and> (sr_status row = WSucceeded \<longrightarrow> s = WSucceeded)"
  by (rule exI [of _ "sr_status row"]) simp

lemma extends_job_status:
  assumes "extends S S' f" "job_status S row = Some s"
  shows "\<exists>s'. job_status S' row = Some s' \<and> (job_is_terminal s \<longrightarrow> s' = s)"
  using assms by (cases "sr_job row") (fastforce simp: extends_def job_status_def)+

lemma extends_row:
  assumes "extends S S' f" "row \<in> set (wf_steps S)"
  shows "f row \<in> set (wf_steps S')" "sr_run (f row) = sr_run row" "sr_step (f row) = sr_step row"
    "sr_job (f row) = sr_job row" "sr_position (f row) = sr_position row"
    "sr_status row = WSucceeded \<Longrightarrow> sr_status (f row) = WSucceeded"
  using assms by (auto simp: extends_def)

lemma job_status_same_job: "sr_job a = sr_job b \<Longrightarrow> job_status S a = job_status S b"
  by (simp add: job_status_def)

lemma extends_ended:
  assumes "extends S S' f" "row \<in> set (wf_steps S)" "job_status S row = Some s" "job_is_terminal s"
  shows "job_status S' (f row) = Some s"
  using extends_job_status [OF assms(1,3)] assms(4) extends_row(4) [OF assms(1,2)] job_status_same_job by metis

lemma extends_succeeded:
  assumes "extends S S' f" "succeeded_step S r i"
  shows "succeeded_step S' r i"
proof -
  obtain row where row: "row \<in> set (wf_steps S)" "sr_run row = r" "sr_step row = i" "sr_status row = WSucceeded"
    "job_status S row = Some JSucceeded" using assms(2) by (auto simp: succeeded_step_def)
  have "job_status S' (f row) = Some JSucceeded"
    by (rule extends_ended [OF assms(1) row(1,5)]) (simp add: job_is_terminal_def)
  then show ?thesis using extends_row [OF assms(1) row(1)] row by (auto simp: succeeded_step_def)
qed

lemma extends_ended_badly:
  assumes "extends S S' f" "row \<in> set (wf_steps S)" "ended_badly S row"
  shows "ended_badly S' (f row)"
  using assms(3) extends_ended [OF assms(1,2)] by (fastforce simp: ended_badly_def job_is_terminal_def)

text \<open>The rows of the earlier state are still in order, given what their new status says of their job.\<close>

lemma extends_row_ok:
  assumes "extends S S' f" "row \<in> set (wf_steps S)" "step_row_ok S row"
    and "sr_job row = None \<Longrightarrow> sr_status (f row) = sr_status row"
    and "sr_job row \<noteq> None \<Longrightarrow> sr_status (f row) \<in> {WQueued, WRunning, WSucceeded, WFailed, WCancelled, WTimedOut}"
    and "sr_job row \<noteq> None \<Longrightarrow> sr_status (f row) = WSucceeded \<Longrightarrow> job_status S' row = Some JSucceeded"
  shows "step_row_ok S' (f row)"
proof -
  note row = extends_row [OF assms(1,2)]
  have run: "bt_contains (wf_runs S') (sr_run row)" "pinned_workflow S' (sr_run row) = pinned_workflow S (sr_run row)"
    using assms(1,3) by (auto simp: extends_def step_row_ok_def)
  have declared: "declared_step S' (f row)" using assms(3) run row by (simp add: row_ok_defs)
  show ?thesis
  proof (cases "sr_job row")
    case None
    then obtain row' where "row' \<in> set (wf_steps S)" "sr_run row' = sr_run row" "ended_badly S row'"
      using assms(3) by (auto simp: step_row_ok_def)
    then have "\<exists>row' \<in> set (wf_steps S'). sr_run row' = sr_run row \<and> ended_badly S' row'"
      using extends_row [OF assms(1)] extends_ended_badly [OF assms(1)] by metis
    then show ?thesis using None assms(3,4) declared run row by (simp add: step_row_ok_def)
  next
    case (Some j)
    have "hard_dependencies_met S' (f row)"
      using assms(3) Some run row extends_succeeded [OF assms(1)] by (auto simp: row_ok_defs)
    moreover have "job_status S' row \<noteq> None"
      using assms(3) Some extends_job_status [OF assms(1)] by (fastforce simp: step_row_ok_def)
    moreover have "job_status S' (f row) = job_status S' row" using row(4) by (rule job_status_same_job)
    ultimately show ?thesis using Some assms(5,6) declared run row by (auto simp: step_row_ok_def)
  qed
qed

lemma wf_inv_rows: "wf_inv S \<Longrightarrow> row \<in> set (wf_steps S) \<Longrightarrow> step_row_ok S row"
  by (simp add: wf_inv_def list_all_iff)

lemma wf_inv_update:
  assumes "wf_inv S" "extends S S' f" "wf_steps S' = map f (wf_steps S)" "bt_wf (wf_jobs S')" "bt_wf (wf_runs S')"
    and "\<And>row. row \<in> set (wf_steps S) \<Longrightarrow> sr_job row = None \<Longrightarrow> sr_status (f row) = sr_status row"
    and "\<And>row. row \<in> set (wf_steps S) \<Longrightarrow> sr_job row \<noteq> None \<Longrightarrow>
           sr_status (f row) \<in> {WQueued, WRunning, WSucceeded, WFailed, WCancelled, WTimedOut}"
    and "\<And>row. row \<in> set (wf_steps S) \<Longrightarrow> sr_job row \<noteq> None \<Longrightarrow> sr_status (f row) = WSucceeded \<Longrightarrow>
           job_status S' row = Some JSucceeded"
  shows "wf_inv S'"
proof -
  have "map (\<lambda>row. (sr_run row, sr_step row)) (wf_steps S') = map (\<lambda>row. (sr_run row, sr_step row)) (wf_steps S)"
    using extends_row(2,3) [OF assms(2)] by (simp add: assms(3))
  then have "distinct (map (\<lambda>row. (sr_run row, sr_step row)) (wf_steps S'))" using assms(1) by (simp only: wf_inv_def)
  moreover have "step_row_ok S' (f row)" if "row \<in> set (wf_steps S)" for row
    by (rule extends_row_ok [OF assms(2) that wf_inv_rows [OF assms(1) that] assms(6) [OF that] assms(7) [OF that] assms(8) [OF that]])
  then have "list_all (step_row_ok S') (wf_steps S')" by (simp add: assms(3) list_all_iff)
  ultimately show ?thesis using assms(4,5) by (simp add: wf_inv_def)
qed

text \<open>A change that leaves the step runs alone.\<close>

lemma wf_inv_same_steps:
  assumes "wf_inv S" "extends S S' id" "wf_steps S' = wf_steps S" "bt_wf (wf_jobs S')" "bt_wf (wf_runs S')"
  shows "wf_inv S'"
proof (rule wf_inv_update [OF assms(1,2) _ assms(4,5)])
  fix row assume row: "row \<in> set (wf_steps S)" "sr_job row \<noteq> None"
  then have ok: "step_row_ok S row" using wf_inv_rows [OF assms(1)] by blast
  then show "sr_status (id row) \<in> {WQueued, WRunning, WSucceeded, WFailed, WCancelled, WTimedOut}"
    using row by (auto simp: step_row_ok_def)
  assume "sr_status (id row) = WSucceeded"
  then show "job_status S' row = Some JSucceeded"
    using ok row extends_ended [OF assms(2) row(1), of JSucceeded] by (auto simp: step_row_ok_def job_is_terminal_def)
qed (use assms(3) in simp_all)

lemma wf_inv_add_row:
  assumes "wf_inv S" "extends S S' id" "wf_steps S' = wf_steps S @ [row]" "bt_wf (wf_jobs S')" "bt_wf (wf_runs S')"
    and "\<forall>other \<in> set (wf_steps S). sr_run other = sr_run row \<longrightarrow> sr_step other \<noteq> sr_step row" "step_row_ok S' row"
  shows "wf_inv S'"
proof -
  have "step_row_ok S' old" if old: "old \<in> set (wf_steps S)" for old
  proof -
    have ok: "step_row_ok S old" using wf_inv_rows [OF assms(1) old] .
    have "step_row_ok S' (id old)"
    proof (rule extends_row_ok [OF assms(2) old ok])
      assume some: "sr_job old \<noteq> None"
      then show "sr_status (id old) \<in> {WQueued, WRunning, WSucceeded, WFailed, WCancelled, WTimedOut}"
        using ok by (auto simp: step_row_ok_def)
      assume "sr_status (id old) = WSucceeded"
      then show "job_status S' old = Some JSucceeded"
        using ok some extends_ended [OF assms(2) old, of JSucceeded] by (auto simp: step_row_ok_def job_is_terminal_def)
    qed simp
    then show ?thesis by simp
  qed
  moreover have "distinct (map (\<lambda>row. (sr_run row, sr_step row)) (wf_steps S'))"
    using assms(1,6) by (auto simp: assms(3) wf_inv_def)
  ultimately show ?thesis using assms(1,3,4,5,7) by (auto simp: wf_inv_def list_all_iff)
qed

section \<open>The operations keep it\<close>

lemma map_of_modify [simp]: "map_of (bt_modify k f m) k' = (if k' = k then map_option f (map_of m k') else map_of m k')"
  by (rule map_of_bt_modify)

lemma bt_wf_modify [simp]: "bt_wf (bt_modify k f m) = bt_wf m"
  by (simp add: bt_wf_def)

lemma pinned_same_runs [simp]: "pinned_workflow (S\<lparr>wf_steps := x\<rparr>) = pinned_workflow S"
  "pinned_workflow (S\<lparr>wf_jobs := y\<rparr>) = pinned_workflow S"
  by (simp_all add: pinned_workflow_def fun_eq_iff)

definition keeps_pin :: "(wf_run_row \<Rightarrow> wf_run_row) \<Rightarrow> bool" where
  "keeps_pin f \<longleftrightarrow> (\<forall>run. wr_snapshot (f run) = wr_snapshot run \<and> wr_workflow (f run) = wr_workflow run)"

lemma pinned_set_run: "keeps_pin f \<Longrightarrow> pinned_workflow (set_run r f S) r' = pinned_workflow S r'"
  by (auto simp: pinned_workflow_def set_run_def keeps_pin_def split: option.splits)

lemma extends_set_run: "keeps_pin f \<Longrightarrow> extends S (set_run r f S) id"
  by (auto simp: extends_def pinned_set_run bt_contains_def) (auto simp: set_run_def intro: row_same_status)

lemma wf_inv_set_run: "wf_inv S \<Longrightarrow> keeps_pin f \<Longrightarrow> wf_inv (set_run r f S)"
  by (rule wf_inv_same_steps [OF _ extends_set_run]) (auto simp: set_run_def wf_inv_def)

lemma wf_inv_finish: "wf_inv S \<Longrightarrow> wf_inv (finish_workflow_run_in now r status S)"
  unfolding finish_workflow_run_in_def by (rule wf_inv_set_run) (simp_all add: keeps_pin_def)

lemma job_exec_keeps:
  assumes "bt_wf t" "map_of t i = Some row"
  shows "\<exists>row'. map_of (job_exec op t) i = Some row' \<and> (job_is_terminal (row_status row) \<longrightarrow> row_status row' = row_status row)"
proof (cases "job_is_terminal (row_status row)")
  case True
  then show ?thesis using terminal_row_step [OF assms True] by blast
next
  case False
  show ?thesis
  proof (cases "is_lease_op op")
    case True
    then show ?thesis using lease_effect [OF assms(1) True] assms(2) False by auto
  next
    case nolease: False
    then show ?thesis
    proof (cases op)
      case (OpSave now run)
      then show ?thesis using save_row [OF assms(2), of now run] False by blast
    qed (use assms(2) False in \<open>auto simp: statement_defs Let_def split: option.splits sum.splits\<close>)
  qed
qed

lemma map_of_cancel_jobs:
  "map_of (cancel_jobs js t) j = map_option (\<lambda>row. if j \<in> set js \<and> row_status row \<in> {JQueued, JLeased, JRunning, JRetryScheduled}
     then cancel_job_row row else row) (map_of t j)"
  by (induction t) (auto simp: cancel_jobs_def)

lemma bt_wf_cancel_jobs [simp]: "bt_wf (cancel_jobs js t) = bt_wf t"
proof -
  have "map fst (cancel_jobs js t) = map fst t" by (induction t) (auto simp: cancel_jobs_def)
  then show ?thesis by (simp add: bt_wf_def)
qed

lemma wf_inv_close_active:
  assumes "wf_inv S" "status \<in> {WCancelled, WTimedOut}"
  shows "wf_inv (close_active_steps r status S)"
proof -
  let ?f = "\<lambda>row. if active_step r row then row\<lparr>sr_status := status\<rparr> else row"
  let ?S = "close_active_steps r status S"
  have open_succ: "\<not> active_step r row" if "sr_status row = WSucceeded" for row
    using that by (simp add: active_step_def is_open_def)
  have ext: "extends S ?S ?f"
    by (auto simp: extends_def close_active_steps_def pinned_workflow_def map_of_cancel_jobs job_is_terminal_def open_succ
        intro: row_same_status)
  show ?thesis
  proof (rule wf_inv_update [OF assms(1) ext])
    fix row assume row: "row \<in> set (wf_steps S)"
    note ok = wf_inv_rows [OF assms(1) row]
    show "sr_job row = None \<Longrightarrow> sr_status (?f row) = sr_status row"
      using ok by (auto simp: step_row_ok_def active_step_def is_open_def)
    assume some: "sr_job row \<noteq> None"
    then show "sr_status (?f row) \<in> {WQueued, WRunning, WSucceeded, WFailed, WCancelled, WTimedOut}"
      using ok assms(2) by (auto simp: step_row_ok_def)
    assume "sr_status (?f row) = WSucceeded"
    then have "sr_status row = WSucceeded" using assms(2) by (auto split: if_splits)
    then have "job_status S row = Some JSucceeded" using ok some by (auto simp: step_row_ok_def)
    then show "job_status ?S row = Some JSucceeded"
      using extends_job_status [OF ext] by (fastforce simp: job_is_terminal_def)
  qed (use assms(1) in \<open>simp_all add: close_active_steps_def wf_inv_def\<close>)
qed

lemma wf_inv_sync:
  assumes "wf_inv S"
  shows "wf_inv (sync_steps r S)"
proof -
  let ?f = "sync_step r (wf_jobs S)"
  have status: "sr_status (?f row) = (if sr_run row = r \<and> job_status S row \<noteq> None then sync_status (the (job_status S row)) else sr_status row)" for row
    by (cases "sr_job row") (auto simp: sync_step_def job_status_def split: option.splits)
  have keeps: "?f row = row\<lparr>sr_status := sr_status (?f row)\<rparr>" for row
    by (auto simp: sync_step_def split: option.splits)
  have succ: "sr_status (?f row) = WSucceeded" if "row \<in> set (wf_steps S)" "sr_status row = WSucceeded" for row
    using wf_inv_rows [OF assms that(1)] that(2) by (cases "sr_job row") (auto simp: status step_row_ok_def)
  have ext: "extends S (sync_steps r S) ?f"
    using keeps succ by (auto simp: extends_def sync_steps_def bt_contains_def)
  show ?thesis
  proof (rule wf_inv_update [OF assms ext])
    fix row assume row: "row \<in> set (wf_steps S)"
    note ok = wf_inv_rows [OF assms row]
    show "sr_job row = None \<Longrightarrow> sr_status (?f row) = sr_status row" by (simp add: status job_status_def)
    have sync: "sync_status s \<in> {WQueued, WRunning, WSucceeded, WFailed, WCancelled, WTimedOut}" for s by (cases s) auto
    assume some: "sr_job row \<noteq> None"
    then show "sr_status (?f row) \<in> {WQueued, WRunning, WSucceeded, WFailed, WCancelled, WTimedOut}"
      using ok sync unfolding status by (auto simp: step_row_ok_def simp del: insert_iff)
    assume succeeded: "sr_status (?f row) = WSucceeded"
    have "sync_status s = WSucceeded \<Longrightarrow> s = JSucceeded" for s by (cases s) auto
    with succeeded some ok have "job_status S row = Some JSucceeded"
      by (auto simp: status step_row_ok_def split: if_splits)
    then show "job_status (sync_steps r S) row = Some JSucceeded" by (simp add: job_status_def sync_steps_def)
  qed (use assms in \<open>simp_all add: sync_steps_def wf_inv_def\<close>)
qed

subsection \<open>New step runs\<close>

definition declares :: "wf_state \<Rightarrow> string \<Rightarrow> workflow_step \<Rightarrow> bool" where
  "declares S r step \<longleftrightarrow> (\<forall>w. pinned_workflow S r = Some w \<longrightarrow> step \<in> set (wd_steps w))"

definition can_start :: "wf_state \<Rightarrow> string \<Rightarrow> workflow_step \<Rightarrow> bool" where
  "can_start S r step \<longleftrightarrow> declares S r step \<and>
     (\<forall>w. pinned_workflow S r = Some w \<longrightarrow>
       (\<forall>dep \<in> set (wd_dependencies w). dep_to dep = ws_id step \<and> dep_policy dep = Hard \<longrightarrow> succeeded_step S r (dep_from dep)))"

definition can_skip :: "wf_state \<Rightarrow> string \<Rightarrow> workflow_step \<Rightarrow> bool" where
  "can_skip S r step \<longleftrightarrow> declares S r step \<and> (\<exists>row \<in> set (wf_steps S). sr_run row = r \<and> ended_badly S row)"

lemma extends_can:
  assumes "extends S S' id" "bt_contains (wf_runs S) r"
  shows "can_start S r step \<Longrightarrow> can_start S' r step" "can_skip S r step \<Longrightarrow> can_skip S' r step"
proof -
  have pin: "pinned_workflow S' r = pinned_workflow S r" using assms by (simp add: extends_def)
  show "can_start S r step \<Longrightarrow> can_start S' r step"
    using extends_succeeded [OF assms(1)] by (auto simp: can_start_def declares_def pin)
  show "can_skip S r step \<Longrightarrow> can_skip S' r step"
    using extends_ended_badly [OF assms(1)] extends_row(1) [OF assms(1)] by (fastforce simp: can_skip_def declares_def pin)
qed

lemma insert_step_run_Ok:
  assumes "insert_step_run row S = Ok S'"
  shows "S' = S\<lparr>wf_steps := wf_steps S @ [row]\<rparr>" "bt_contains (wf_runs S) (sr_run row)"
    "\<forall>other \<in> set (wf_steps S). sr_run other = sr_run row \<longrightarrow> sr_step other \<noteq> sr_step row"
  using assms by (auto simp: insert_step_run_def list_ex_iff split: if_splits)

lemma start_step_Ok:
  assumes "wf_inv S" "start_step now known r input new_ids step S = Ok S'"
  shows "bt_contains (wf_runs S) r" "extends S S' id" "length (step_runs_of r S') = Suc (length (step_runs_of r S))"
    "wf_runs S' = wf_runs S" "can_start S r step \<Longrightarrow> wf_inv S'"
proof -
  let ?row = "\<lparr>sr_id = snd new_ids, sr_run = r, sr_step = ws_id step, sr_job = Some (fst new_ids),
          sr_position = ws_position step, sr_status = WQueued\<rparr>"
  let ?jr = "\<lparr>row_definition = ws_job_definition step, row_pool = ws_pool step, row_input = input, row_status = JQueued,
         row_attempts = 0, row_lease_owner = None, row_lease_expires = None, row_heartbeat = None,
         row_retry_ready = None, row_timeout = seconds_i64 (ws_timeout step), row_created = now\<rparr>"
  have new: "map_of (wf_jobs S) (fst new_ids) = None"
    and ins: "insert_step_run ?row (S\<lparr>wf_jobs := bt_insert (fst new_ids) ?jr (wf_jobs S)\<rparr>) = Ok S'"
    using assms(2) by (auto simp: start_step_def insert_job_run_def Let_def bt_contains_def split: if_splits)
  note S' = insert_step_run_Ok [OF ins]
  from S'(2) show run: "bt_contains (wf_runs S) r" by simp
  show ext: "extends S S' id" using new by (auto simp: S'(1) extends_def bt_contains_def intro: row_same_status)
  show "length (step_runs_of r S') = Suc (length (step_runs_of r S))" "wf_runs S' = wf_runs S" by (simp_all add: S'(1) step_runs_of_def)
  assume "can_start S r step"
  then have can: "can_start S' r step" using extends_can(1) [OF ext run] by simp
  show "wf_inv S'"
  proof (rule wf_inv_add_row [OF assms(1) ext])
    show "step_row_ok S' ?row"
      using can run by (auto simp: row_ok_defs can_start_def declares_def job_status_def S'(1))
  qed (use S'(3) assms(1) in \<open>simp_all add: S'(1) wf_inv_def\<close>)
qed

lemma skip_step_Ok:
  assumes "wf_inv S" "skip_step r new_id step S = Ok S'"
  shows "bt_contains (wf_runs S) r" "extends S S' id" "length (step_runs_of r S') = Suc (length (step_runs_of r S))"
    "wf_runs S' = wf_runs S" "can_skip S r step \<Longrightarrow> wf_inv S'"
proof -
  let ?row = "\<lparr>sr_id = new_id, sr_run = r, sr_step = ws_id step, sr_job = None, sr_position = ws_position step,
        sr_status = WSkipped\<rparr>"
  note S' = insert_step_run_Ok [OF assms(2) [unfolded skip_step_def]]
  from S'(2) show run: "bt_contains (wf_runs S) r" by simp
  show ext: "extends S S' id" by (auto simp: S'(1) extends_def intro: row_same_status)
  show "length (step_runs_of r S') = Suc (length (step_runs_of r S))" "wf_runs S' = wf_runs S" by (simp_all add: S'(1) step_runs_of_def)
  assume "can_skip S r step"
  then have can: "can_skip S' r step" using extends_can(2) [OF ext run] by simp
  show "wf_inv S'"
  proof (rule wf_inv_add_row [OF assms(1) ext])
    show "step_row_ok S' ?row" using can run by (auto simp: row_ok_defs can_skip_def declares_def S'(1))
  qed (use S'(3) assms(1) in \<open>simp_all add: S'(1) wf_inv_def\<close>)
qed

lemma start_steps_Ok:
  assumes "wf_inv S" "start_steps now known r input ids k steps S = Ok S'" "\<forall>step \<in> set steps. can_start S r step"
  shows "wf_inv S' \<and> wf_runs S' = wf_runs S \<and> length (step_runs_of r S') = length (step_runs_of r S) + length steps \<and>
    keeps_success S S'"
  using assms
proof (induction steps arbitrary: S k)
  case (Cons step steps)
  then obtain S1 where S1: "start_step now known r input (ids k) step S = Ok S1"
    and rest: "start_steps now known r input ids (Suc k) steps S1 = Ok S'" by auto
  note one = start_step_Ok [OF Cons.prems(1) S1]
  have "\<forall>step \<in> set steps. can_start S1 r step" using Cons.prems(3) extends_can(1) [OF one(2,1)] by simp
  moreover have "keeps_success S S1" using extends_succeeded [OF one(2)] by (simp add: keeps_success_def)
  ultimately show ?case using Cons.IH [OF _ rest] one Cons.prems(3) by (simp add: keeps_success_def)
qed (simp add: keeps_success_def)

lemma skip_steps_Ok:
  assumes "wf_inv S" "skip_steps r ids k steps S = Ok S'" "\<forall>step \<in> set steps. can_skip S r step"
  shows "wf_inv S' \<and> wf_runs S' = wf_runs S \<and> length (step_runs_of r S') = length (step_runs_of r S) + length steps \<and>
    keeps_success S S'"
  using assms
proof (induction steps arbitrary: S k)
  case (Cons step steps)
  then obtain S1 where S1: "skip_step r (snd (ids k)) step S = Ok S1" and rest: "skip_steps r ids (Suc k) steps S1 = Ok S'" by auto
  note one = skip_step_Ok [OF Cons.prems(1) S1]
  have "\<forall>step \<in> set steps. can_skip S1 r step" using Cons.prems(3) extends_can(2) [OF one(2,1)] by simp
  moreover have "keeps_success S S1" using extends_succeeded [OF one(2)] by (simp add: keeps_success_def)
  ultimately show ?case using Cons.IH [OF _ rest] one Cons.prems(3) by (simp add: keeps_success_def)
qed (simp add: keeps_success_def)

subsection \<open>What the scheduler sees\<close>

definition sees :: "step_run_row list \<Rightarrow> wf_progress \<Rightarrow> bool" where
  "sees rows p \<longleftrightarrow>
     set (pr_started p) = sr_step ` set rows \<and> bt_wf (pr_states p) \<and> fst ` set (pr_states p) = sr_step ` set rows \<and>
     (\<forall>row \<in> set rows. map_of (pr_states p) (sr_step row) = Some (sr_status row)) \<and>
     (pr_active p = 0 \<longleftrightarrow> (\<forall>row \<in> set rows. \<not> is_open (sr_status row))) \<and>
     (pr_failed p \<longleftrightarrow> (\<exists>row \<in> set rows. sr_status row \<in> {WFailed, WCancelled, WTimedOut}))"

lemma sees_note:
  assumes "sees rows p" "note_step p row = Ok p'" "sr_step row \<notin> sr_step ` set rows"
  shows "sees (rows @ [row]) p'"
proof -
  have p': "p' = \<lparr>pr_started = bs_insert (sr_step row) (pr_started p), pr_states = bt_insert (sr_step row) (sr_status row) (pr_states p),
       pr_active = (if is_open (sr_status row) then pr_active p + 1 else pr_active p),
       pr_failed = (pr_failed p \<or> sr_status row \<in> {WFailed, WCancelled, WTimedOut})\<rparr>"
    using assms(2) unfolding note_step_def persisted_id_def is_open_def
    by (cases "trim (sr_step row) = []") (auto simp del: insert_iff)
  have "map_of (pr_states p') (sr_step old) = Some (sr_status old)" if "old \<in> set (rows @ [row])" for old
  proof (cases "old = row")
    case False
    then have "old \<in> set rows" using that by simp
    moreover from this have "sr_step old \<noteq> sr_step row" using assms(3) by (metis imageI)
    moreover have "\<forall>old \<in> set rows. map_of (pr_states p) (sr_step old) = Some (sr_status old)"
      using assms(1) unfolding sees_def by blast
    ultimately show ?thesis by (simp add: p')
  qed (simp add: p')
  then show ?thesis
    using assms(1) by (simp add: sees_def p' fst_set_bt_insert del: insert_iff) blast
qed

lemma sees_all:
  "sees pre p \<Longrightarrow> try_fold note_step p rows = Ok p' \<Longrightarrow> distinct (map sr_step (pre @ rows)) \<Longrightarrow> sees (pre @ rows) p'"
proof (induction rows arbitrary: pre p)
  case (Cons row rows)
  then obtain p1 where p1: "note_step p row = Ok p1" and rest: "try_fold note_step p1 rows = Ok p'"
    by (auto split: sum.splits)
  have "sees (pre @ [row]) p1" by (rule sees_note [OF Cons.prems(1) p1]) (use Cons.prems(3) in auto)
  then have "sees ((pre @ [row]) @ rows) p'" by (rule Cons.IH [OF _ rest]) (use Cons.prems(3) in simp)
  then show ?case by simp
qed simp

lemma distinct_step_runs: "wf_inv S \<Longrightarrow> distinct (map sr_step (step_runs_of r S))"
proof -
  assume "wf_inv S"
  then have "distinct (map (\<lambda>row. (sr_run row, sr_step row)) (wf_steps S))" by (simp add: wf_inv_def)
  then show ?thesis unfolding step_runs_of_def by (induction "wf_steps S" arbitrary: S) (auto simp: distinct_map inj_on_def)
qed

lemma progress_sees: "wf_inv S \<Longrightarrow> progress_of r S = Ok p \<Longrightarrow> sees (step_runs_of r S) p"
  using sees_all [of "[]" no_progress "step_runs_of r S" p] distinct_step_runs [of S r]
  by (simp add: progress_of_def) (simp add: sees_def no_progress_def)

lemma run_graph_of:
  assumes "run_graph w = Ok g"
  shows "graph_of (wd_steps w) (wd_dependencies w) g" "well_declared (wd_id w) (wd_steps w) (wd_dependencies w)"
  using assms workflow_graph_new_iff [of "wd_id w" "wd_steps w" "wd_dependencies w"]
  by (auto simp: run_graph_def split: option.splits sum.splits)

lemma graph_node:
  assumes "graph_of steps deps g" "map_of (wg_nodes g) i = Some step"
  shows "step \<in> set steps" "ws_id step = i"
  using assms by (auto simp: graph_of_def known_nodes_def dest!: map_of_SomeD)

lemma graph_parents:
  assumes "graph_of steps deps g" "i \<in> set (wg_order g)" "map_of (wg_incoming_dependencies g) i = Some ds"
  shows "ds = filter (\<lambda>d. dep_to d = i) deps"
  using assms by (auto simp: graph_of_def)

lemma seen_state:
  assumes "sees rows p" "map_of (pr_states p) i = Some s"
  shows "\<exists>row \<in> set rows. sr_step row = i \<and> sr_status row = s"
proof -
  have "i \<in> fst ` set (pr_states p)" using assms(2) by (force dest: map_of_SomeD)
  then obtain row where "row \<in> set rows" "sr_step row = i" using assms(1) by (auto simp: sees_def)
  then show ?thesis using assms by (auto simp: sees_def)
qed

lemma in_step_runs: "row \<in> set (step_runs_of r S) \<longleftrightarrow> row \<in> set (wf_steps S) \<and> sr_run row = r"
  by (auto simp: step_runs_of_def)

lemma ready_can_start:
  assumes "wf_inv S" "sees (step_runs_of r S) p" "run_graph w = Ok g" "\<And>w'. pinned_workflow S r = Some w' \<Longrightarrow> w' = w"
    and "step \<in> set (ready_steps_with_policies g (pr_started p) (pr_states p))"
  shows "can_start S r step"
proof -
  note g = run_graph_of(1) [OF assms(3)]
  obtain i ds where i: "i \<in> set (wg_order g)" "map_of (wg_incoming_dependencies g) i = Some ds"
    "list_all (dependency_met (pr_states p)) ds" "map_of (wg_nodes g) i = Some step"
    using assms(5) by (auto simp: ready_steps_with_policies_def set_filter_map split: option.splits)
  have "succeeded_step S r (dep_from dep)"
    if "dep \<in> set (wd_dependencies w)" "dep_to dep = ws_id step" "dep_policy dep = Hard" for dep
  proof -
    have "dep \<in> set ds" using that graph_parents [OF g i(1,2)] graph_node(2) [OF g i(4)] by simp
    then have "map_of (pr_states p) (dep_from dep) = Some WSucceeded"
      using i(3) that(3) by (auto simp: list_all_iff dependency_met_def)
    then obtain row where row: "row \<in> set (step_runs_of r S)" "sr_step row = dep_from dep" "sr_status row = WSucceeded"
      using seen_state [OF assms(2)] by blast
    then have "step_row_ok S row" using wf_inv_rows [OF assms(1)] by (simp add: in_step_runs)
    then have "job_status S row = Some JSucceeded" using row(3) by (auto simp: step_row_ok_def split: option.splits)
    then show ?thesis using row by (auto simp: succeeded_step_def in_step_runs)
  qed
  then show ?thesis using graph_node(1) [OF g i(4)] assms(4) by (auto simp: can_start_def declares_def)
qed

definition synced :: "string \<Rightarrow> wf_state \<Rightarrow> bool" where
  "synced r S \<longleftrightarrow> (\<forall>row \<in> set (step_runs_of r S). sr_job row \<noteq> None \<longrightarrow> (\<exists>s. job_status S row = Some s \<and> sr_status row = sync_status s))"

lemma synced_sync:
  assumes "wf_inv S"
  shows "synced r (sync_steps r S)"
  unfolding synced_def
proof (intro ballI impI)
  fix row assume "row \<in> set (step_runs_of r (sync_steps r S))" and some: "sr_job row \<noteq> None"
  then obtain old where old: "old \<in> set (wf_steps S)" "row = sync_step r (wf_jobs S) old" "sr_run row = r"
    by (auto simp: in_step_runs sync_steps_def)
  have run: "sr_run old = r" and job: "sr_job old = sr_job row"
    using old(2,3) by (auto simp: sync_step_def split: option.splits if_splits)
  obtain j jr where j: "sr_job old = Some j" "map_of (wf_jobs S) j = Some jr"
    using wf_inv_rows [OF assms old(1)] some job by (auto simp: step_row_ok_def job_status_def split: option.splits)
  then have "row = old\<lparr>sr_status := sync_status (row_status jr)\<rparr>" using old(2) run by (simp add: sync_step_def)
  then show "\<exists>s. job_status (sync_steps r S) row = Some s \<and> sr_status row = sync_status s"
    using j by (simp add: job_status_def sync_steps_def)
qed

lemma failed_ended_badly:
  assumes "wf_inv S" "synced r S" "row \<in> set (step_runs_of r S)"
  shows "sr_status row \<in> {WFailed, WCancelled, WTimedOut} \<longleftrightarrow> ended_badly S row"
proof (cases "sr_job row")
  case None
  have "step_row_ok S row" using wf_inv_rows [OF assms(1)] assms(3) by (simp add: in_step_runs)
  then show ?thesis using None by (auto simp: step_row_ok_def ended_badly_def job_status_def)
next
  case (Some j)
  then obtain s where s: "job_status S row = Some s" "sr_status row = sync_status s" using assms(2,3) by (auto simp: synced_def)
  show ?thesis by (cases s) (simp_all add: s ended_badly_def)
qed

lemma blocked_can_skip:
  assumes "wf_inv S" "synced r S" "sees (step_runs_of r S) p" "run_graph w = Ok g" "\<And>w'. pinned_workflow S r = Some w' \<Longrightarrow> w' = w"
    and "pr_failed p" "step \<in> set (blocked_steps_after_terminal_failure g (pr_started p) (pr_states p))"
  shows "can_skip S r step"
proof -
  obtain row where row: "row \<in> set (step_runs_of r S)" "sr_status row \<in> {WFailed, WCancelled, WTimedOut}"
    using assms(3,6) unfolding sees_def by blast
  then have bad: "ended_badly S row" using failed_ended_badly [OF assms(1,2)] by blast
  moreover have "step \<in> set (wd_steps w)"
    using assms(7) graph_node(1) [OF run_graph_of(1) [OF assms(4)]]
    by (auto simp: blocked_steps_after_terminal_failure_def set_filter_map)
  ultimately show ?thesis using row(1) assms(5) by (auto simp: can_skip_def declares_def in_step_runs)
qed

subsection \<open>Every transaction\<close>

lemma contains_run: "map_of (wf_runs S) r = Some run \<Longrightarrow> bt_contains (wf_runs S) r"
  by (simp add: bt_contains_def)

lemma pinned_sync [simp]: "pinned_workflow (sync_steps r S) = pinned_workflow S"
  by (simp add: sync_steps_def)

lemma run_workflow_pinned:
  assumes "map_of (wf_runs S) r = Some run" "run_workflow run S = Ok w" "pinned_workflow S r = Some w'"
  shows "w' = w"
  using assms by (auto simp: pinned_workflow_def run_workflow_def split: option.splits sum.splits)

lemma wf_inv_settle: "wf_inv S \<Longrightarrow> wf_inv (settle_run now r run w p ready skipped S)"
  by (simp add: settle_run_def wf_inv_finish) (auto intro!: wf_inv_set_run simp: keeps_pin_def)

text \<open>The states between the insertions of a transaction that commits.\<close>

lemma advance_states:
  assumes "wf_inv S" "synced r S" "sees (step_runs_of r S) p" "run_graph w = Ok g"
    and "\<And>w'. pinned_workflow S r = Some w' \<Longrightarrow> w' = w" "advance now known ids r run w g p S = Ok (b, S')"
  shows "\<exists>ready skipped S2. ready = ready_steps_with_policies g (pr_started p) (pr_states p) \<and>
     skipped = steps_to_skip g p ready \<and> wf_inv S2 \<and> wf_runs S2 = wf_runs S \<and>
     length (step_runs_of r S2) = length (step_runs_of r S) + length ready + length skipped \<and>
     keeps_success S S2 \<and> S' = settle_run now r run w p ready skipped S2"
proof -
  let ?ready = "ready_steps_with_policies g (pr_started p) (pr_states p)"
  let ?skipped = "steps_to_skip g p ?ready"
  obtain S1 S2 where S1: "start_steps now known r (wr_input run) ids 0 ?ready S = Ok S1"
    and S2: "skip_steps r ids (length ?ready) ?skipped S1 = Ok S2" and S': "S' = settle_run now r run w p ?ready ?skipped S2"
    using assms(6) by (auto simp: advance_def Let_def)
  have one: "wf_inv S1 \<and> wf_runs S1 = wf_runs S \<and> length (step_runs_of r S1) = length (step_runs_of r S) + length ?ready \<and>
    keeps_success S S1"
    using start_steps_Ok [OF assms(1) S1] ready_can_start [OF assms(1,3,4,5)] by blast
  have "\<forall>step \<in> set ?skipped. can_skip S1 r step"
  proof (cases "pr_failed p \<and> pr_active p = 0 \<and> ?ready = []")
    case True
    then have "S1 = S" using S1 by simp
    then show ?thesis using True blocked_can_skip [OF assms(1-5)] by (simp add: steps_to_skip_def)
  qed (auto simp: steps_to_skip_def)
  then show ?thesis using skip_steps_Ok [OF _ S2] one S' by (intro exI [of _ ?ready] exI [of _ ?skipped] exI [of _ S2]) (simp add: keeps_success_def)
qed

lemma advance_Ok:
  assumes "wf_inv S" "synced r S" "sees (step_runs_of r S) p" "run_graph w = Ok g"
    and "\<And>w'. pinned_workflow S r = Some w' \<Longrightarrow> w' = w" "advance now known ids r run w g p S = Ok (b, S')"
  shows "wf_inv S'"
  using advance_states [OF assms] wf_inv_settle by blast

text \<open>The ways a reconciliation ends.\<close>

lemma reconcile_outcome:
  assumes "wf_inv S" "reconcile_workflow_run now acquired known ids r S = Ok (b, S')"
  obtains (unchanged) "S' = S"
  | (deadline) "S' = finish_workflow_run_in now r WTimedOut (close_active_steps r WTimedOut S)"
  | (progress) run w g p where "map_of (wf_runs S) r = Some run" "run_graph w = Ok g"
      "wf_inv (sync_steps r S)" "synced r (sync_steps r S)" "sees (step_runs_of r (sync_steps r S)) p"
      "\<And>w'. pinned_workflow (sync_steps r S) r = Some w' \<Longrightarrow> w' = w"
      "all_done w p \<and> S' = finish_workflow_run_in now r WSucceeded (sync_steps r S) \<or>
       advance now known ids r run w g p (sync_steps r S) = Ok (b, S')"
proof (cases "S' = S")
  case False
  obtain run where run: "map_of (wf_runs S) r = Some run" "is_open (wr_status run)"
    using assms(2) False by (auto simp: reconcile_workflow_run_def split: if_splits option.splits)
  show thesis
  proof (cases "due now (wr_deadline run)")
    case True
    then show thesis using deadline assms(2) False run by (auto simp: reconcile_workflow_run_def split: if_splits)
  next
    case nodeadline: False
    obtain w g p where w: "run_workflow run S = Ok w" and g: "run_graph w = Ok g" and p: "progress_of r (sync_steps r S) = Ok p"
      and S': "all_done w p \<and> S' = finish_workflow_run_in now r WSucceeded (sync_steps r S) \<or>
        advance now known ids r run w g p (sync_steps r S) = Ok (b, S')"
      using assms(2) False run nodeadline by (auto simp: reconcile_workflow_run_def Let_def split: if_splits)
    show thesis
      by (rule progress [OF run(1) g wf_inv_sync [OF assms(1)] synced_sync [OF assms(1)]
            progress_sees [OF wf_inv_sync [OF assms(1)] p] _ S']) (use run_workflow_pinned [OF run(1) w] in simp)
  qed
qed (rule unchanged)

lemma map_of_filter_key: "map_of (filter (\<lambda>(j, jr). P j) t) j = (if P j then map_of t j else None)"
  by (induction t) auto

text \<open>Resuming keeps the succeeded steps, and their jobs with them.\<close>

lemma wf_inv_resume:
  assumes "wf_inv S" "discard = (\<lambda>s. sr_run s = r \<and> sr_status s \<noteq> WSucceeded)"
    and "kept = filter (\<lambda>s. \<not> discard s) (wf_steps S)" "js = filter_map sr_job (filter discard (wf_steps S))"
    and "\<not> list_ex (\<lambda>s. list_ex (\<lambda>j. sr_job s = Some j) js) kept"
  shows "wf_inv (S\<lparr>wf_steps := kept, wf_jobs := filter (\<lambda>(j, jr). j \<notin> set js) (wf_jobs S)\<rparr>)"
proof -
  let ?S = "S\<lparr>wf_steps := kept, wf_jobs := filter (\<lambda>(j, jr). j \<notin> set js) (wf_jobs S)\<rparr>"
  have status: "job_status ?S row = job_status S row" if "row \<in> set kept" for row
    using assms(5) that by (cases "sr_job row") (auto simp: job_status_def map_of_filter_key list_ex_iff)
  have succeeded: "succeeded_step ?S q i" if "succeeded_step S q i" for q i
    using that status by (auto simp: succeeded_step_def assms(2,3))
  have "step_row_ok ?S row" if row: "row \<in> set kept" for row
  proof -
    have old: "row \<in> set (wf_steps S)" "\<not> discard row" using row by (auto simp: assms(3))
    note ok = wf_inv_rows [OF assms(1) old(1)]
    show ?thesis
    proof (cases "sr_job row")
      case None
      then have "sr_run row \<noteq> r" using ok old(2) by (auto simp: step_row_ok_def assms(2))
      moreover obtain row' where "row' \<in> set (wf_steps S)" "sr_run row' = sr_run row" "ended_badly S row'"
        using ok None by (auto simp: step_row_ok_def)
      ultimately have "row' \<in> set kept" "sr_run row' = sr_run row" "ended_badly ?S row'"
        using status by (auto simp: assms(2,3) ended_badly_def)
      then show ?thesis using ok None by (auto simp: row_ok_defs)
    next
      case (Some j)
      then show ?thesis using ok status [OF row] succeeded by (auto simp: row_ok_defs)
    qed
  qed
  moreover have "distinct (map (\<lambda>row. (sr_run row, sr_step row)) kept)"
    using assms(1) by (simp add: wf_inv_def assms(3) distinct_map_filter)
  ultimately show ?thesis using assms(1) by (simp add: wf_inv_def list_all_iff bt_wf_filter)
qed

end
