(* ===== verification/Workflow_Safety.thy ===== *)
theory Workflow_Safety
  imports Workflow_Facts
begin

text \<open>
  What holds of every run of a workflow, however the scheduler, the workers and the users interleave:
  no step starts before the steps it depends on have succeeded, a run succeeds only when all its
  steps have, and a reconciliation of a run whose jobs have all ended makes progress.
\<close>

section \<open>Histories\<close>

text \<open>Transactions, each of them one step. Runs that triggers create (\<open>Triggers\<close>) enter the table as the
  ones \<open>create_workflow_run\<close> enters. A cancellation is one step too: step runs that a reconciliation
  inserts while the cancellation waits for its locks are not seen by it.\<close>

datatype wf_op =
    WfDefine "string \<Rightarrow> workflow_definition option"
  | WfCreate int string "string option" string string
  | WfRemove int string
  | WfCancel int string
  | WfResume int string
  | WfReconcile int bool "string \<Rightarrow> bool" "nat \<Rightarrow> string \<times> string" string
  | WfJob job_op

fun wf_exec :: "wf_op \<Rightarrow> wf_state \<Rightarrow> wf_state" where
  "wf_exec (WfDefine d) S = S\<lparr>wf_definitions := d\<rparr>"
| "wf_exec (WfCreate now wid a r input) S =
     (case create_workflow_run now wid a r input S of Inl e \<Rightarrow> S | Inr (run, S') \<Rightarrow> S')"
| "wf_exec (WfRemove now r) S = snd (remove_queued_workflow_run now r S)"
| "wf_exec (WfCancel now r) S = snd (cancel_running_workflow_run now r S)"
| "wf_exec (WfResume now r) S = snd (resume_workflow_run now r S)"
| "wf_exec (WfReconcile now acquired known ids r) S =
     (case reconcile_workflow_run now acquired known ids r S of Inl e \<Rightarrow> S | Inr (b, S') \<Rightarrow> S')"
| "wf_exec (WfJob op) S = S\<lparr>wf_jobs := job_exec op (wf_jobs S)\<rparr>"

inductive wf_reachable :: "wf_state \<Rightarrow> bool" where
  no_runs: "wf_reachable \<lparr>wf_runs = [], wf_steps = [], wf_jobs = [], wf_definitions = d\<rparr>"
| transaction: "wf_reachable S \<Longrightarrow> wf_reachable (wf_exec op S)"

text \<open>A run that has succeeded has succeeded in every step of the workflow it pinned.\<close>

definition all_succeeded :: "wf_state \<Rightarrow> string \<Rightarrow> bool" where
  "all_succeeded S r \<longleftrightarrow> (\<forall>w. pinned_workflow S r = Some w \<longrightarrow> list_all (\<lambda>step. succeeded_step S r (ws_id step)) (wd_steps w))"

definition success_inv :: "wf_state \<Rightarrow> bool" where
  "success_inv S \<longleftrightarrow> (\<forall>r run. map_of (wf_runs S) r = Some run \<longrightarrow> wr_status run = WSucceeded \<longrightarrow> all_succeeded S r)"

lemma success_inv_keep:
  assumes "success_inv S" "keeps_success S S'" "\<And>r. bt_contains (wf_runs S) r \<Longrightarrow> pinned_workflow S' r = pinned_workflow S r"
    and "\<And>r run. map_of (wf_runs S') r = Some run \<Longrightarrow> wr_status run = WSucceeded \<Longrightarrow>
           (\<exists>old. map_of (wf_runs S) r = Some old \<and> wr_status old = WSucceeded) \<or> all_succeeded S' r"
  shows "success_inv S'"
  unfolding success_inv_def
proof (intro allI impI)
  fix r run assume run: "map_of (wf_runs S') r = Some run" "wr_status run = WSucceeded"
  show "all_succeeded S' r"
  proof (cases "\<exists>old. map_of (wf_runs S) r = Some old \<and> wr_status old = WSucceeded")
    case True
    then have "all_succeeded S r" "pinned_workflow S' r = pinned_workflow S r"
      using assms(1,3) by (auto simp: success_inv_def bt_contains_def)
    then show ?thesis using assms(2) by (auto simp: all_succeeded_def keeps_success_def list_all_iff)
  qed (use assms(4) [OF run] in blast)
qed

lemma keeps_success_extends: "extends S S' f \<Longrightarrow> keeps_success S S'"
  using extends_succeeded by (auto simp: keeps_success_def)

lemma keeps_success_trans: "keeps_success S S' \<Longrightarrow> keeps_success S' S'' \<Longrightarrow> keeps_success S S''"
  by (simp add: keeps_success_def)

lemma keeps_success_refl [simp]: "keeps_success S S"
  by (simp add: keeps_success_def)

lemma succeeded_set_run [simp]: "succeeded_step (set_run r f S) q i = succeeded_step S q i"
  by (simp add: succeeded_step_def job_status_def set_run_def)

lemma set_run_runs: "map_of (wf_runs (set_run r f S)) q = (if q = r then map_option f (map_of (wf_runs S) q) else map_of (wf_runs S) q)"
  by (simp add: set_run_def)

lemma success_same_runs: "success_inv S \<Longrightarrow> keeps_success S S' \<Longrightarrow> wf_runs S' = wf_runs S \<Longrightarrow> success_inv S'"
  by (rule success_inv_keep [of S]) (auto simp: pinned_workflow_def)

lemma success_set_run:
  assumes "success_inv S" "keeps_pin f" "\<And>run. wr_status (f run) \<noteq> WSucceeded"
  shows "success_inv (set_run r f S)"
  using assms(1)
proof (rule success_inv_keep)
  fix q run assume "map_of (wf_runs (set_run r f S)) q = Some run" "wr_status run = WSucceeded"
  then show "(\<exists>old. map_of (wf_runs S) q = Some old \<and> wr_status old = WSucceeded) \<or> all_succeeded (set_run r f S) q"
    using assms(3) by (auto simp: set_run_runs split: if_splits)
qed (use assms(2) in \<open>simp_all add: keeps_success_def pinned_set_run\<close>)

lemma success_finish:
  "success_inv S \<Longrightarrow> status \<noteq> WSucceeded \<Longrightarrow> success_inv (finish_workflow_run_in now r status S)"
  unfolding finish_workflow_run_in_def by (rule success_set_run) (simp_all add: keeps_pin_def)

lemma success_settle: "success_inv S \<Longrightarrow> success_inv (settle_run now r run w p ready skipped S)"
  by (simp add: settle_run_def success_finish) (auto intro!: success_set_run simp: keeps_pin_def)

lemma rows_declared:
  assumes "wf_inv S" "pinned_workflow S r = Some w"
  shows "sr_step ` set (step_runs_of r S) \<subseteq> ws_id ` set (wd_steps w)"
proof
  fix i assume "i \<in> sr_step ` set (step_runs_of r S)"
  then obtain row where "row \<in> set (wf_steps S)" "sr_run row = r" "i = sr_step row" by (auto simp: in_step_runs)
  then show "i \<in> ws_id ` set (wd_steps w)"
    using wf_inv_rows [OF assms(1)] assms(2) by (force simp: step_row_ok_def declared_step_def)
qed

text \<open>When no step is left that runs or has failed, none was skipped either.\<close>

lemma none_skipped:
  assumes "wf_inv S" "synced r S" "\<forall>row \<in> set (step_runs_of r S). sr_status row \<notin> {WFailed, WCancelled, WTimedOut}"
    and "row \<in> set (step_runs_of r S)"
  shows "sr_job row \<noteq> None"
proof
  assume none: "sr_job row = None"
  have "step_row_ok S row" "sr_run row = r" using wf_inv_rows [OF assms(1)] assms(4) by (simp_all add: in_step_runs)
  then obtain row' where "row' \<in> set (step_runs_of r S)" "ended_badly S row'"
    using none by (auto simp: step_row_ok_def in_step_runs)
  then show False using failed_ended_badly [OF assms(1,2)] assms(3) by blast
qed

lemma succeeded_row:
  assumes "wf_inv S" "row \<in> set (step_runs_of r S)" "sr_status row = WSucceeded"
  shows "succeeded_step S r (sr_step row)"
proof -
  have "step_row_ok S row" using wf_inv_rows [OF assms(1)] assms(2) by (simp add: in_step_runs)
  then have "job_status S row = Some JSucceeded" using assms(3) by (auto simp: step_row_ok_def split: option.splits)
  then show ?thesis using assms(2,3) by (auto simp: succeeded_step_def in_step_runs)
qed

lemma sees_states:
  assumes "sees rows p"
  shows "distinct (map fst (pr_states p))" "length (pr_states p) = card (sr_step ` set rows)"
proof -
  have wf: "bt_wf (pr_states p)" and keys: "fst ` set (pr_states p) = sr_step ` set rows" using assms by (simp_all add: sees_def)
  from wf show d: "distinct (map fst (pr_states p))" by (rule bt_wf_distinct)
  show "length (pr_states p) = card (sr_step ` set rows)" using distinct_card [OF d] keys by simp
qed

lemma states_cover:
  assumes "wf_inv S" "sees (step_runs_of r S) p" "pinned_workflow S r = Some w" "length (pr_states p) = length (wd_steps w)"
    and "distinct (map ws_id (wd_steps w))"
  shows "sr_step ` set (step_runs_of r S) = ws_id ` set (wd_steps w)"
proof (rule card_subset_eq [OF _ rows_declared [OF assms(1,3)]])
  show "card (sr_step ` set (step_runs_of r S)) = card (ws_id ` set (wd_steps w))"
    using sees_states(2) [OF assms(2)] assms(4) distinct_card [OF assms(5)] by simp
qed simp

lemma all_done_succeeded:
  assumes "wf_inv S" "synced r S" "sees (step_runs_of r S) p" "run_graph w = Ok g"
    and "\<And>w'. pinned_workflow S r = Some w' \<Longrightarrow> w' = w" "all_done w p"
  shows "all_succeeded S r"
  unfolding all_succeeded_def list_all_iff
proof (intro allI impI ballI)
  fix w' step assume w': "pinned_workflow S r = Some w'" "step \<in> set (wd_steps w')"
  then have pin: "pinned_workflow S r = Some w" "step \<in> set (wd_steps w)" using assms(5) by blast+
  have status: "sr_status row \<in> {WSucceeded, WSkipped}" if "row \<in> set (step_runs_of r S)" for row
  proof -
    have "map_of (pr_states p) (sr_step row) = Some (sr_status row)" using assms(3) that by (simp add: sees_def)
    then show ?thesis using assms(6) by (auto simp: all_done_def list_all_iff dest!: map_of_SomeD)
  qed
  have "ws_id step \<in> sr_step ` set (step_runs_of r S)"
    using states_cover [OF assms(1,3) pin(1)] assms(6) run_graph_of(2) [OF assms(4)] pin(2)
    by (simp add: all_done_def well_declared_def)
  then obtain row where row: "row \<in> set (step_runs_of r S)" "sr_step row = ws_id step" by auto
  have "sr_job row \<noteq> None" by (rule none_skipped [OF assms(1,2) _ row(1)]) (use status in fastforce)
  moreover have "step_row_ok S row" using wf_inv_rows [OF assms(1)] row(1) by (simp add: in_step_runs)
  ultimately have "sr_status row = WSucceeded" using status [OF row(1)] by (auto simp: step_row_ok_def)
  then show "succeeded_step S r (ws_id step)" using succeeded_row [OF assms(1) row(1)] row(2) by simp
qed

lemma keeps_success_sync:
  assumes "wf_inv S"
  shows "keeps_success S (sync_steps r S)"
  unfolding keeps_success_def
proof (intro allI impI)
  fix q i assume "succeeded_step S q i"
  then obtain row where row: "row \<in> set (wf_steps S)" "sr_run row = q" "sr_step row = i" "sr_status row = WSucceeded"
    "job_status S row = Some JSucceeded" by (auto simp: succeeded_step_def)
  have "sync_step r (wf_jobs S) row = row"
    using row(4,5) by (cases "sr_job row") (auto simp: sync_step_def job_status_def)
  then have "row \<in> set (wf_steps (sync_steps r S))" using row(1) by (force simp: sync_steps_def)
  then show "succeeded_step (sync_steps r S) q i" using row by (auto simp: succeeded_step_def job_status_def sync_steps_def)
qed

lemma keeps_success_close: "keeps_success S (close_active_steps r status S)"
  unfolding keeps_success_def
proof (intro allI impI)
  fix q i assume "succeeded_step S q i"
  then obtain row where row: "row \<in> set (wf_steps S)" "sr_run row = q" "sr_step row = i" "sr_status row = WSucceeded"
    "job_status S row = Some JSucceeded" by (auto simp: succeeded_step_def)
  have "row \<in> set (wf_steps (close_active_steps r status S))"
    using row(1,4) by (force simp: close_active_steps_def active_step_def is_open_def)
  then show "succeeded_step (close_active_steps r status S) q i"
    using row by (cases "sr_job row") (auto simp: succeeded_step_def job_status_def close_active_steps_def map_of_cancel_jobs)
qed

lemma success_all_done:
  assumes "success_inv S" "all_succeeded S r"
  shows "success_inv (finish_workflow_run_in now r WSucceeded S)"
proof (rule success_inv_keep [OF assms(1)])
  fix q run
  assume "map_of (wf_runs (finish_workflow_run_in now r WSucceeded S)) q = Some run" "wr_status run = WSucceeded"
  then show "(\<exists>old. map_of (wf_runs S) q = Some old \<and> wr_status old = WSucceeded) \<or>
      all_succeeded (finish_workflow_run_in now r WSucceeded S) q"
    using assms(2)
    by (auto simp: finish_workflow_run_in_def set_run_runs all_succeeded_def pinned_set_run keeps_pin_def split: if_splits)
qed (simp_all add: finish_workflow_run_in_def keeps_success_def pinned_set_run keeps_pin_def)

lemma reconcile_keeps:
  assumes "wf_inv S" "success_inv S" "reconcile_workflow_run now acquired known ids r S = Ok (b, S')"
  shows "wf_inv S' \<and> success_inv S'"
  using assms(1,3)
proof (cases rule: reconcile_outcome)
  case unchanged
  then show ?thesis using assms by simp
next
  case deadline
  have "success_inv (close_active_steps r WTimedOut S)"
    by (rule success_same_runs [OF assms(2) keeps_success_close]) (simp add: close_active_steps_def)
  then show ?thesis using deadline assms(1) by (simp add: wf_inv_finish wf_inv_close_active success_finish)
next
  case (progress run w g p)
  have sync: "success_inv (sync_steps r S)"
    by (rule success_same_runs [OF assms(2) keeps_success_sync [OF assms(1)]]) (simp add: sync_steps_def)
  from progress(7) show ?thesis
  proof
    assume "all_done w p \<and> S' = finish_workflow_run_in now r WSucceeded (sync_steps r S)"
    then show ?thesis
      using all_done_succeeded [OF progress(3,4,5,2,6)] success_all_done [OF sync] wf_inv_finish [OF progress(3)] by blast
  next
    assume "advance now known ids r run w g p (sync_steps r S) = Ok (b, S')"
    from advance_states [OF progress(3,4,5,2,6) this] show ?thesis
      using wf_inv_settle success_settle success_same_runs [OF sync] by auto
  qed
qed

lemma resume_keeps:
  assumes "wf_inv S" "success_inv S"
  shows "wf_inv (snd (resume_workflow_run now r S)) \<and> success_inv (snd (resume_workflow_run now r S))"
proof -
  let ?discard = "\<lambda>s. sr_run s = r \<and> sr_status s \<noteq> WSucceeded"
  let ?js = "filter_map sr_job (filter ?discard (wf_steps S))"
  let ?kept = "filter (\<lambda>s. \<not> ?discard s) (wf_steps S)"
  let ?S = "S\<lparr>wf_steps := ?kept, wf_jobs := filter (\<lambda>(j, jr). j \<notin> set ?js) (wf_jobs S)\<rparr>"
  consider "snd (resume_workflow_run now r S) = S"
    | f where "\<not> list_ex (\<lambda>s. list_ex (\<lambda>j. sr_job s = Some j) ?js) ?kept" "snd (resume_workflow_run now r S) = set_run r f ?S"
        "keeps_pin f" "\<And>run. wr_status (f run) \<noteq> WSucceeded"
    by (cases "map_of (wf_runs S) r") (fastforce simp: resume_workflow_run_def Let_def keeps_pin_def split: sum.splits if_splits)+
  then show ?thesis
  proof cases
    case (2 f)
    have kept: "wf_inv ?S" by (rule wf_inv_resume [OF assms(1) refl refl refl 2(1)])
    have "keeps_success S ?S"
      unfolding keeps_success_def
    proof (intro allI impI)
      fix q i assume "succeeded_step S q i"
      then obtain row where row: "row \<in> set (wf_steps S)" "sr_run row = q" "sr_step row = i" "sr_status row = WSucceeded"
        "job_status S row = Some JSucceeded" by (auto simp: succeeded_step_def)
      then have "row \<in> set ?kept" by simp
      moreover from this have "job_status ?S row = job_status S row"
        using 2(1) by (cases "sr_job row") (auto simp: job_status_def map_of_filter_key list_ex_iff)
      ultimately show "succeeded_step ?S q i" using row unfolding succeeded_step_def by force
    qed
    then have "success_inv ?S" by (rule success_same_runs [OF assms(2)]) simp
    then show ?thesis unfolding 2(2) using kept wf_inv_set_run success_set_run 2(3,4) by blast
  qed (use assms in simp)
qed

lemma transaction_keeps:
  assumes "wf_inv S" "success_inv S"
  shows "wf_inv (wf_exec op S) \<and> success_inv (wf_exec op S)"
proof (cases op)
  case (WfDefine d)
  have "extends S (wf_exec op S) id" by (auto simp: WfDefine extends_def pinned_workflow_def intro: row_same_status)
  then show ?thesis
    using wf_inv_same_steps [OF assms(1)] success_same_runs [OF assms(2) keeps_success_extends] assms(1)
    by (simp add: WfDefine wf_inv_def)
next
  case (WfCreate now wid a r input)
  show ?thesis
  proof (cases "create_workflow_run now wid a r input S")
    case (Inr result)
    let ?S = "snd result"
    from Inr obtain new where new: "\<not> bt_contains (wf_runs S) r" "?S = S\<lparr>wf_runs := bt_insert r new (wf_runs S)\<rparr>" "wr_status new = WQueued"
      by (auto simp: create_workflow_run_def split: option.splits if_splits)
    then have ext: "extends S ?S id"
      by (auto simp: extends_def pinned_workflow_def bt_contains_def intro: row_same_status split: option.splits)
    have "success_inv ?S"
      by (rule success_inv_keep [OF assms(2) keeps_success_extends [OF ext]]) (use ext new in \<open>auto simp: extends_def split: if_splits\<close>)
    moreover have "wf_inv ?S" by (rule wf_inv_same_steps [OF assms(1) ext]) (use assms(1) in \<open>simp_all add: new(2) wf_inv_def\<close>)
    ultimately show ?thesis using Inr by (auto simp: WfCreate split: prod.splits)
  qed (use assms in \<open>simp add: WfCreate\<close>)
next
  case (WfRemove now r)
  then show ?thesis
    using assms by (auto simp: remove_queued_workflow_run_def Let_def wf_inv_finish success_finish split: option.splits)
next
  case (WfCancel now r)
  have "success_inv (close_active_steps r WCancelled S)"
    by (rule success_same_runs [OF assms(2) keeps_success_close]) (simp add: close_active_steps_def)
  then show ?thesis
    using assms WfCancel wf_inv_close_active [OF assms(1)]
    by (simp add: cancel_running_workflow_run_def Let_def wf_inv_finish success_finish)
next
  case (WfResume now r)
  then show ?thesis using resume_keeps [OF assms] by simp
next
  case (WfReconcile now acquired known ids r)
  then show ?thesis using assms reconcile_keeps [OF assms] by (auto split: sum.splits)
next
  case (WfJob jop)
  have wf: "bt_wf (wf_jobs S)" using assms(1) by (simp add: wf_inv_def)
  have ext: "extends S (wf_exec op S) id"
    using job_exec_keeps [OF wf] by (auto simp: WfJob extends_def intro: row_same_status)
  then show ?thesis
    using wf_inv_same_steps [OF assms(1) ext] success_same_runs [OF assms(2) keeps_success_extends [OF ext]]
      bt_wf_job_exec [OF wf] assms(1) by (simp add: WfJob wf_inv_def)
qed

lemma reachable_inv: "wf_reachable S \<Longrightarrow> wf_inv S \<and> success_inv S"
proof (induction rule: wf_reachable.induct)
  case (transaction S op)
  then show ?case using transaction_keeps by blast
qed (simp add: wf_inv_def success_inv_def)

section \<open>An example history\<close>

text \<open>A workflow of two steps, the second after the first, run to its end.\<close>

definition pipeline :: workflow_definition where
  "pipeline = workflow_with_dependencies ''w'' [] [] Enabled [example_step ''a'' 1, example_step ''b'' 2] [dependency_new ''a'' ''b'']"

definition new_ids :: "char \<Rightarrow> nat \<Rightarrow> string \<times> string" where
  "new_ids c n = (replicate (Suc n) c, replicate (Suc n) c)"

definition run_job :: "int \<Rightarrow> string \<Rightarrow> wf_op list" where
  "run_job now i =
     [WfJob (OpLeaseAny now ''worker'' 30 (\<lambda>_. False) (\<lambda>_. False) []),
      WfJob (OpSave (now + 1) ((job_run_new i ''j'' ''p'')\<lparr>run_job_status := JRunning, run_attempts := 1\<rparr>)),
      WfJob (OpFinish (now + 2) i 1 ''worker'' JSucceeded None)]"

definition history :: "wf_op list" where
  "history =
     [WfCreate 0 ''w'' None ''r'' ''{}'', WfReconcile 1 True (\<lambda>_. True) (new_ids CHR ''j'') ''r''] @ run_job 2 ''j'' @
     [WfReconcile 5 True (\<lambda>_. True) (new_ids CHR ''k'') ''r''] @ run_job 6 ''k'' @
     [WfReconcile 9 True (\<lambda>_. True) (new_ids CHR ''l'') ''r'']"

definition state_after :: "nat \<Rightarrow> wf_state" where
  "state_after n = fold wf_exec (take n history) \<lparr>wf_runs = [], wf_steps = [], wf_jobs = [], wf_definitions = [''w'' \<mapsto> pipeline]\<rparr>"

lemma wf_reachable_history: "wf_reachable S \<Longrightarrow> wf_reachable (fold wf_exec ops S)"
  by (induction ops arbitrary: S) (auto intro: wf_reachable.transaction)

lemma state_after_reachable: "wf_reachable (state_after n)"
  unfolding state_after_def by (intro wf_reachable_history wf_reachable.no_runs)

definition step_row :: "string \<Rightarrow> step_id \<Rightarrow> int \<Rightarrow> workflow_run_status \<Rightarrow> step_run_row" where
  "step_row i step position status =
     \<lparr>sr_id = i, sr_run = ''r'', sr_step = step, sr_job = Some i, sr_position = position, sr_status = status\<rparr>"

lemma second_step_started:
  "wf_steps (state_after 6) = [step_row ''j'' ''a'' 1 WSucceeded, step_row ''k'' ''b'' 2 WQueued]"
  by code_simp

lemma run_finished: "map_option wr_status (map_of (wf_runs (state_after 10)) ''r'') = Some WSucceeded"
  by code_simp

lemma history_pins:
  "pinned_workflow (state_after 5) ''r'' = Some pipeline"
  "pinned_workflow (state_after 6) ''r'' = Some pipeline"
  "pinned_workflow (state_after 10) ''r'' = Some pipeline"
  by code_simp+

lemma pipeline_graph: "\<exists>g. run_graph pipeline = Ok g"
proof -
  have "(case run_graph pipeline of Inl e \<Rightarrow> False | Inr g \<Rightarrow> True)" by code_simp
  then show ?thesis by (auto split: sum.splits)
qed

section \<open>What every history keeps\<close>

text \<open>C6. No step of a workflow starts before the steps it strictly depends on: in every state that
  any interleaving of the scheduler, the workers and the users can reach, each hard dependency of a
  step that was given a job names a step of the same run that has succeeded, with its job.\<close>

theorem step_starts_after_its_dependencies:
  assumes "wf_reachable S" "row \<in> set (wf_steps S)" "sr_job row = Some j" "pinned_workflow S (sr_run row) = Some w"
    and "dep \<in> set (wd_dependencies w)" "dep_to dep = sr_step row" "dep_policy dep = Hard"
  shows "\<exists>parent \<in> set (wf_steps S). sr_run parent = sr_run row \<and> sr_step parent = dep_from dep \<and>
           sr_status parent = WSucceeded \<and> job_status S parent = Some JSucceeded"
proof -
  have "step_row_ok S row" using reachable_inv [OF assms(1)] wf_inv_rows assms(2) by blast
  then show ?thesis using assms(3-7) by (auto simp: step_row_ok_def hard_dependencies_met_def succeeded_step_def)
qed

theorem step_starts_after_its_dependencies_witness:
  "\<exists>parent \<in> set (wf_steps (state_after 6)). sr_run parent = ''r'' \<and> sr_step parent = ''a'' \<and>
     sr_status parent = WSucceeded \<and> job_status (state_after 6) parent = Some JSucceeded"
  using step_starts_after_its_dependencies [OF state_after_reachable [of 6], of "step_row ''k'' ''b'' 2 WQueued" "''k''" pipeline
      "dependency_new ''a'' ''b''"]
  by (simp add: second_step_started history_pins step_row_def pipeline_def workflow_with_dependencies_def dependency_new_def)

text \<open>C7. A workflow run that is recorded as succeeded has succeeded in every step of the definition it
  pinned, each with a job that succeeded; no step of it was skipped.\<close>

theorem success_means_every_step:
  assumes "wf_reachable S" "map_of (wf_runs S) r = Some run" "wr_status run = WSucceeded"
    and "pinned_workflow S r = Some w" "step \<in> set (wd_steps w)"
  shows "\<exists>row \<in> set (wf_steps S). sr_run row = r \<and> sr_step row = ws_id step \<and> sr_status row = WSucceeded \<and>
           job_status S row = Some JSucceeded"
  using reachable_inv [OF assms(1)] assms(2-5)
  by (auto simp: success_inv_def all_succeeded_def list_all_iff succeeded_step_def)

theorem success_means_every_step_witness:
  "\<exists>row \<in> set (wf_steps (state_after 10)). sr_run row = ''r'' \<and> sr_step row = ''b'' \<and> sr_status row = WSucceeded \<and>
     job_status (state_after 10) row = Some JSucceeded"
proof -
  obtain run where run: "map_of (wf_runs (state_after 10)) ''r'' = Some run" "wr_status run = WSucceeded"
    using run_finished by auto
  have "example_step ''b'' 2 \<in> set (wd_steps pipeline)" by (simp add: pipeline_def workflow_with_dependencies_def)
  from success_means_every_step [OF state_after_reachable run history_pins(3) this] show ?thesis
    by (simp add: example_step_def)
qed

section \<open>Progress\<close>

text \<open>Steps for which rows can be inserted: their identifiers and positions are not taken, and the
  identifiers still to be generated are not in use.\<close>

definition insertable :: "(string \<Rightarrow> bool) \<Rightarrow> string \<Rightarrow> (nat \<Rightarrow> string \<times> string) \<Rightarrow> nat \<Rightarrow> workflow_step list \<Rightarrow> wf_state \<Rightarrow> bool" where
  "insertable known r ids k steps S \<longleftrightarrow>
     bt_contains (wf_runs S) r \<and> distinct (map ws_id steps) \<and> distinct (map ws_position steps) \<and>
     (\<forall>n \<ge> k. \<not> bt_contains (wf_jobs S) (fst (ids n)) \<and> snd (ids n) \<notin> sr_id ` set (wf_steps S)) \<and>
     (\<forall>step \<in> set steps. known (ws_job_definition step) \<and> 0 < ws_position step \<and> ws_timeout step \<noteq> Some 0 \<and>
        (\<forall>row \<in> set (wf_steps S). sr_run row = r \<longrightarrow> sr_step row \<noteq> ws_id step \<and> sr_position row \<noteq> ws_position step))"

definition fresh_ids :: "(nat \<Rightarrow> string \<times> string) \<Rightarrow> bool" where
  "fresh_ids ids \<longleftrightarrow> inj (fst \<circ> ids) \<and> inj (snd \<circ> ids)"

lemma fresh_ids_later: "fresh_ids ids \<Longrightarrow> Suc k \<le> n \<Longrightarrow> fst (ids n) \<noteq> fst (ids k) \<and> snd (ids n) \<noteq> snd (ids k)"
  by (auto simp: fresh_ids_def inj_def) (metis Suc_n_not_le_n)+

lemma insert_total:
  assumes "insertable known r ids k (step # steps) S" "fresh_ids ids"
    and "sr_id row = snd (ids k)" "sr_run row = r" "sr_step row = ws_id step" "sr_position row = ws_position step"
    and "sr_job row = None \<or> sr_job row = Some (fst (ids k))" "jobs = wf_jobs S \<or> jobs = bt_insert (fst (ids k)) jr (wf_jobs S)"
    and "sr_job row \<noteq> None \<Longrightarrow> bt_contains jobs (fst (ids k))"
  shows "\<exists>S'. insert_step_run row (S\<lparr>wf_jobs := jobs\<rparr>) = Ok S' \<and> insertable known r ids (Suc k) steps S'"
proof -
  let ?S = "S\<lparr>wf_jobs := jobs, wf_steps := wf_steps S @ [row]\<rparr>"
  have "snd (ids k) \<notin> sr_id ` set (wf_steps S)" using assms(1) by (simp add: insertable_def)
  then have "\<forall>other \<in> set (wf_steps S). sr_id other \<noteq> snd (ids k)" by (metis imageI)
  then have "insert_step_run row (S\<lparr>wf_jobs := jobs\<rparr>) = Ok ?S"
    using assms(1,3-7,9) by (auto simp: insert_step_run_def insertable_def list_ex_iff split: option.splits)
  moreover have "insertable known r ids (Suc k) steps ?S"
    using assms(1,3-6,8) fresh_ids_later [OF assms(2)]
    by (auto simp: insertable_def bt_contains_def image_iff Suc_le_eq)
  ultimately show ?thesis by blast
qed

lemma start_steps_total:
  "insertable known r ids k steps S \<Longrightarrow> fresh_ids ids \<Longrightarrow> \<exists>S'. start_steps now known r input ids k steps S = Ok S'"
proof (induction steps arbitrary: k S)
  case (Cons step steps)
  let ?row = "\<lparr>sr_id = snd (ids k), sr_run = r, sr_step = ws_id step, sr_job = Some (fst (ids k)),
          sr_position = ws_position step, sr_status = WQueued\<rparr>"
  have "seconds_i64 (ws_timeout step) \<noteq> Some 0"
    using Cons.prems(1) by (auto simp: insertable_def seconds_i64_def uint_0_iff split: option.splits)
  then obtain jr where jr: "insert_job_run now known (fst (ids k)) step input S = Ok (S\<lparr>wf_jobs := bt_insert (fst (ids k)) jr (wf_jobs S)\<rparr>)"
    using Cons.prems(1) by (auto simp: insert_job_run_def insertable_def Let_def)
  obtain S1 where "insert_step_run ?row (S\<lparr>wf_jobs := bt_insert (fst (ids k)) jr (wf_jobs S)\<rparr>) = Ok S1"
    "insertable known r ids (Suc k) steps S1"
    using insert_total [OF Cons.prems, of ?row "bt_insert (fst (ids k)) jr (wf_jobs S)" jr] by (auto simp: bt_contains_def)
  then show ?case using Cons.IH Cons.prems(2) jr by (simp add: start_step_def)
qed simp

lemma skip_steps_total:
  "insertable known r ids k steps S \<Longrightarrow> fresh_ids ids \<Longrightarrow> \<exists>S'. skip_steps r ids k steps S = Ok S'"
proof (induction steps arbitrary: k S)
  case (Cons step steps)
  let ?row = "\<lparr>sr_id = snd (ids k), sr_run = r, sr_step = ws_id step, sr_job = None, sr_position = ws_position step,
        sr_status = WSkipped\<rparr>"
  obtain S1 where "insert_step_run ?row S = Ok S1" "insertable known r ids (Suc k) steps S1"
    using insert_total [OF Cons.prems, of ?row "wf_jobs S"] by auto
  then show ?case using Cons.IH Cons.prems(2) by (simp add: skip_step_def)
qed simp

lemma distinct_nodes:
  assumes "distinct xs" "\<And>i step. f i = Some step \<Longrightarrow> ws_id step = i"
  shows "distinct (map ws_id (filter_map f xs))"
  using assms(1)
proof (induction xs)
  case (Cons i xs)
  then show ?case using assms(2) by (auto simp: set_filter_map split: option.splits)
qed simp

lemma progress_total:
  assumes "wf_inv S" "pinned_workflow S r = Some w" "\<And>step. step \<in> set (wd_steps w) \<Longrightarrow> trim (ws_id step) \<noteq> []"
  shows "\<exists>p. progress_of r S = Ok p"
proof -
  have "\<forall>row \<in> set (step_runs_of r S). trim (sr_step row) \<noteq> []"
  proof
    fix row assume "row \<in> set (step_runs_of r S)"
    then have "sr_step row \<in> ws_id ` set (wd_steps w)" using rows_declared [OF assms(1,2)] by blast
    then show "trim (sr_step row) \<noteq> []" using assms(3) by auto
  qed
  moreover have "\<forall>row \<in> set rows. trim (sr_step row) \<noteq> [] \<Longrightarrow> \<exists>p'. try_fold note_step p rows = Ok p'" for rows p
    by (induction rows arbitrary: p) (simp_all add: note_step_def persisted_id_def)
  ultimately show ?thesis unfolding progress_of_def by blast
qed

text \<open>Steps of the pinned workflow that have no run yet can all be inserted.\<close>

lemma unstarted_insertable:
  assumes "wf_inv S" "map_of (wf_runs S) r = Some run" "pinned_workflow S r = Some w" "set steps \<subseteq> set (wd_steps w)"
    and "distinct (map ws_id steps)" "\<forall>step \<in> set steps. ws_id step \<notin> sr_step ` set (step_runs_of r S)"
    and "distinct (map ws_position (wd_steps w))"
    and "list_all (\<lambda>step. known (ws_job_definition step) \<and> 0 < ws_position step \<and> ws_timeout step \<noteq> Some 0) (wd_steps w)"
    and "\<forall>n. \<not> bt_contains (wf_jobs S) (fst (ids n)) \<and> snd (ids n) \<notin> sr_id ` set (wf_steps S)"
  shows "insertable known r ids k steps S"
proof -
  have inj: "inj_on ws_position (set (wd_steps w))" using assms(7) by (simp add: distinct_map)
  have "distinct (map ws_position steps)"
    using assms(4,5) inj by (auto simp: distinct_map intro: inj_on_subset)
  moreover have "sr_step row \<noteq> ws_id step \<and> sr_position row \<noteq> ws_position step"
    if step: "step \<in> set steps" and here: "row \<in> set (wf_steps S)" "sr_run row = r" for step row
  proof -
    have row: "row \<in> set (step_runs_of r S)" using here by (simp add: in_step_runs)
    have "step_row_ok S row" using wf_inv_rows [OF assms(1) here(1)] .
    then obtain own where own: "own \<in> set (wd_steps w)" "ws_id own = sr_step row" "ws_position own = sr_position row"
      using here(2) assms(3) by (auto simp: step_row_ok_def declared_step_def)
    have "sr_step row \<noteq> ws_id step" using assms(6) step row by (metis imageI)
    then show ?thesis using own inj step assms(4) by (metis inj_on_def subsetD)
  qed
  moreover have "bt_contains (wf_runs S) r" using assms(2) by (simp add: bt_contains_def)
  ultimately show ?thesis using assms(4,5,8,9) by (auto simp: insertable_def list_all_iff)
qed

text \<open>The first step of the order that has no run yet is ready when all that have one succeeded.\<close>

lemma some_step_ready:
  assumes "run_graph w = Ok g" "sees rows p" "\<forall>row \<in> set rows. sr_status row = WSucceeded"
    and "step \<in> set (wd_steps w)" "ws_id step \<notin> sr_step ` set rows"
  shows "ready_steps_with_policies g (pr_started p) (pr_states p) \<noteq> []"
proof -
  note g = run_graph_of [OF assms(1)]
  have "\<exists>i \<in> set (wg_order g). i \<notin> sr_step ` set rows" using g(1) assms(4,5) by (auto simp: graph_of_def)
  then obtain xs i ys where i: "wg_order g = xs @ i # ys" "i \<notin> sr_step ` set rows" "\<forall>j \<in> set xs. j \<in> sr_step ` set rows"
    using split_list_first_prop [of "wg_order g" "\<lambda>i. i \<notin> sr_step ` set rows"] by auto
  have "dependency_met (pr_states p) dep" if "dep \<in> set (wd_dependencies w)" "dep_to dep = i" for dep
  proof -
    have "(dep_from dep, i) \<in> declared_edges (wd_dependencies w)" using that by (auto simp: declared_edges_def)
    then have "dep_from dep \<in> set xs" using g(1) i(1) by (auto simp: graph_of_def dest: topologicalD)
    then obtain row where "row \<in> set rows" "dep_from dep = sr_step row" using i(3) by auto
    then have "map_of (pr_states p) (dep_from dep) = Some WSucceeded" using assms(2,3) by (simp add: sees_def)
    then show ?thesis by (simp add: dependency_met_def is_terminal_run_def)
  qed
  moreover have "i \<in> ws_id ` set (wd_steps w)" using g(1) i(1) by (auto simp: graph_of_def)
  moreover obtain node where "map_of (wg_nodes g) i = Some node"
    using g(1) calculation(2) known_nodes_contains [of "wd_steps w" "wg_nodes g" i] by (auto simp: graph_of_def bt_contains_def)
  ultimately have "node \<in> set (ready_steps_with_policies g (pr_started p) (pr_states p))"
    using i g(1) assms(2)
    by (auto simp: ready_steps_with_policies_def set_filter_map graph_of_def sees_def list_all_iff intro!: exI [of _ i])
  then show ?thesis by auto
qed

lemma sync_row: "sr_run (sync_step r jobs row) = sr_run row" "sr_id (sync_step r jobs row) = sr_id row"
  "sr_job (sync_step r jobs row) = sr_job row"
  by (auto simp: sync_step_def split: option.splits)

lemma sync_ids: "wf_jobs (sync_steps r S) = wf_jobs S" "sr_id ` set (wf_steps (sync_steps r S)) = sr_id ` set (wf_steps S)"
  by (auto simp: sync_steps_def image_image sync_row)

lemma sync_jobs:
  assumes "\<forall>row \<in> set (step_runs_of r S). \<forall>s. job_status S row = Some s \<longrightarrow> P s"
  shows "\<forall>row \<in> set (step_runs_of r (sync_steps r S)). \<forall>s. job_status (sync_steps r S) row = Some s \<longrightarrow> P s"
proof (intro ballI allI impI)
  fix row s assume row: "row \<in> set (step_runs_of r (sync_steps r S))" "job_status (sync_steps r S) row = Some s"
  then obtain old where old: "old \<in> set (wf_steps S)" "row = sync_step r (wf_jobs S) old" "sr_run row = r"
    by (auto simp: in_step_runs sync_steps_def)
  then have "old \<in> set (step_runs_of r S)" "row = sync_step r (wf_jobs S) old" by (simp_all add: in_step_runs sync_row)
  moreover from this row(2) have "job_status S old = Some s" by (simp add: job_status_def sync_steps_def sync_row)
  ultimately show "P s" using assms by blast
qed

lemma step_runs_sync: "length (step_runs_of r (sync_steps r S)) = length (step_runs_of r S)"
  by (simp add: step_runs_of_def sync_steps_def List.filter_map comp_def sync_row)

lemma no_active:
  assumes "wf_inv S" "synced r S" "\<forall>row \<in> set (step_runs_of r S). \<forall>s. job_status S row = Some s \<longrightarrow> job_is_terminal s"
    and "row \<in> set (step_runs_of r S)"
  shows "\<not> is_open (sr_status row)"
proof (cases "sr_job row")
  case None
  have "step_row_ok S row" using wf_inv_rows [OF assms(1)] assms(4) by (simp add: in_step_runs)
  then show ?thesis using None by (simp add: step_row_ok_def is_open_def)
next
  case (Some j)
  then obtain s where "job_status S row = Some s" "sr_status row = sync_status s" using assms(2,4) by (auto simp: synced_def)
  then show ?thesis using assms(3,4) by (cases s) (auto simp: is_open_def job_is_terminal_def)
qed

text \<open>A round in which no job runs starts a step, skips one, or finishes the run.\<close>

lemma settled_progress:
  assumes "wf_inv S" "synced r S" "sees (step_runs_of r S) p" "run_graph w = Ok g" "pinned_workflow S r = Some w"
    and "pr_active p = 0" "\<not> all_done w p" "ready = ready_steps_with_policies g (pr_started p) (pr_states p)"
    and "ready = []"
  shows "pr_failed p"
proof (rule ccontr)
  assume ok: "\<not> pr_failed p"
  have good: "\<forall>row \<in> set (step_runs_of r S). sr_status row \<notin> {WFailed, WCancelled, WTimedOut}"
    using assms(3) ok unfolding sees_def by blast
  have succ: "\<forall>row \<in> set (step_runs_of r S). sr_status row = WSucceeded"
  proof
    fix row assume row: "row \<in> set (step_runs_of r S)"
    have "sr_job row \<noteq> None" by (rule none_skipped [OF assms(1,2) good row])
    moreover have "step_row_ok S row" using wf_inv_rows [OF assms(1)] row by (simp add: in_step_runs)
    moreover have "\<not> is_open (sr_status row)" using assms(3,6) row by (simp add: sees_def)
    ultimately show "sr_status row = WSucceeded" using good row by (auto simp: step_row_ok_def is_open_def)
  qed
  have all: "sr_step ` set (step_runs_of r S) = ws_id ` set (wd_steps w)"
    using some_step_ready [OF assms(4,3) succ] rows_declared [OF assms(1,5)] assms(8,9) by blast
  have "length (pr_states p) = length (wd_steps w)"
    using sees_states(2) [OF assms(3)] all run_graph_of(2) [OF assms(4)] distinct_card [of "map ws_id (wd_steps w)"]
    by (simp add: well_declared_def)
  moreover have "s = WSucceeded" if "(i, s) \<in> set (pr_states p)" for i s
  proof -
    have "map_of (pr_states p) i = Some s" using sees_states(1) [OF assms(3)] that by simp
    then show ?thesis using seen_state [OF assms(3)] succ by blast
  qed
  ultimately show False using assms(7) by (auto simp: all_done_def list_all_iff)
qed

text \<open>Steps the scheduler picks are steps of the workflow without a run, each picked once.\<close>

lemma picked_steps:
  assumes "run_graph w = Ok g" "sees rows p"
    and "steps = ready_steps_with_policies g (pr_started p) (pr_states p) \<or>
         steps = blocked_steps_after_terminal_failure g (pr_started p) (pr_states p)"
  shows "set steps \<subseteq> set (wd_steps w)" "distinct (map ws_id steps)" "\<forall>step \<in> set steps. ws_id step \<notin> sr_step ` set rows"
proof -
  note g = run_graph_of(1) [OF assms(1)]
  have started: "set (pr_started p) = sr_step ` set rows" using assms(2) by (simp add: sees_def)
  show "set steps \<subseteq> set (wd_steps w)" "\<forall>step \<in> set steps. ws_id step \<notin> sr_step ` set rows"
    using assms(3) graph_node [OF g] started
    by (auto simp: ready_steps_with_policies_def blocked_steps_after_terminal_failure_def set_filter_map)
  have "distinct (wg_order g)" using g by (simp add: graph_of_def)
  then show "distinct (map ws_id steps)"
    using assms(3) distinct_nodes [OF _ graph_node(2) [OF g]]
    by (auto simp: ready_steps_with_policies_def blocked_steps_after_terminal_failure_def)
qed

lemma advance_total:
  assumes "wf_inv S" "map_of (wf_runs S) r = Some run" "pinned_workflow S r = Some w" "run_graph w = Ok g"
    and "sees (step_runs_of r S) p" "fresh_ids ids" "distinct (map ws_position (wd_steps w))"
    and "list_all (\<lambda>step. known (ws_job_definition step) \<and> 0 < ws_position step \<and> ws_timeout step \<noteq> Some 0) (wd_steps w)"
    and "\<forall>n. \<not> bt_contains (wf_jobs S) (fst (ids n)) \<and> snd (ids n) \<notin> sr_id ` set (wf_steps S)"
  shows "\<exists>b S'. advance now known ids r run w g p S = Ok (b, S')"
proof -
  let ?ready = "ready_steps_with_policies g (pr_started p) (pr_states p)"
  let ?blocked = "blocked_steps_after_terminal_failure g (pr_started p) (pr_states p)"
  have ins: "insertable known r ids k steps S" if "steps = ?ready \<or> steps = ?blocked" for steps k
    by (rule unstarted_insertable [OF assms(1-3) picked_steps [OF assms(4,5) that] assms(7-9)])
  show ?thesis
  proof (cases "?ready = []")
    case True
    obtain S2 where "skip_steps r ids 0 ?blocked S = Ok S2" using skip_steps_total [OF ins assms(6)] by blast
    then show ?thesis using True by (auto simp: advance_def steps_to_skip_def Let_def)
  next
    case False
    obtain S1 where "start_steps now known r (wr_input run) ids 0 ?ready S = Ok S1"
      using start_steps_total [OF ins assms(6)] by blast
    then show ?thesis using False by (auto simp: advance_def steps_to_skip_def Let_def)
  qed
qed

text \<open>C5. A round of reconciliation makes progress. When the run is open, before its deadline, and every
  job it started has ended, a reconciliation that gets the lock commits, and it either finishes the
  run or gives a run to at least one more step of the workflow. The other hypotheses: the run's row
  and its pinned definition can be read and its graph is accepted; positions are distinct and
  positive, no time-out is zero and every job definition is known, as the constraints of the schema
  ask of the insertions; and the generated identifiers are new. Nothing is said of a job that does not
  end (\<open>stale_start_strands_the_run\<close>), nor of a run that the scheduler does not come to:
  \<open>advance_workflow_runs\<close> takes the fifty oldest and stops at the first error.\<close>

theorem reconciliation_makes_progress:
  assumes "wf_reachable S" "map_of (wf_runs S) r = Some run" "is_open (wr_status run)" "\<not> due now (wr_deadline run)"
    and "row_to_workflow_run r run = Ok v" "pinned_workflow S r = Some w" "run_graph w = Ok g"
    and "\<forall>row \<in> set (step_runs_of r S). \<forall>s. job_status S row = Some s \<longrightarrow> job_is_terminal s"
    and "fresh_ids ids" "distinct (map ws_position (wd_steps w))"
    and "list_all (\<lambda>step. known (ws_job_definition step) \<and> 0 < ws_position step \<and> ws_timeout step \<noteq> Some 0) (wd_steps w)"
    and "\<forall>n. \<not> bt_contains (wf_jobs S) (fst (ids n)) \<and> snd (ids n) \<notin> sr_id ` set (wf_steps S)"
  shows "\<exists>b S' run'. reconcile_workflow_run now True known ids r S = Ok (b, S') \<and> map_of (wf_runs S') r = Some run' \<and>
           (is_terminal_run (wr_status run') \<or> length (step_runs_of r S) < length (step_runs_of r S'))"
proof -
  let ?S = "sync_steps r S"
  have inv: "wf_inv S" using reachable_inv [OF assms(1)] by blast
  note S = wf_inv_sync [OF inv] synced_sync [OF inv]
  have run: "map_of (wf_runs ?S) r = Some run" and pin: "pinned_workflow ?S r = Some w"
    using assms(2,6) by (simp_all add: sync_steps_def)
  obtain j where snap: "workflow_from_snapshot (wr_workflow run) j = Ok w" and w: "run_workflow run S = Ok w"
    using assms(2,6) by (auto simp: pinned_workflow_def run_workflow_def split: option.splits sum.splits)
  obtain p where p: "progress_of r ?S = Ok p" using progress_total [OF S(1) pin read_workflow(2) [OF snap]] by blast
  note sees = progress_sees [OF S(1) p]
  have reconcile: "reconcile_workflow_run now True known ids r S =
      (if all_done w p then Ok (True, finish_workflow_run_in now r WSucceeded ?S) else advance now known ids r run w g p ?S)"
    using assms(2-5,7) w p by (simp add: reconcile_workflow_run_def)
  show ?thesis
  proof (cases "all_done w p")
    case True
    then show ?thesis
      using reconcile run by (auto simp: finish_workflow_run_in_def set_run_runs is_terminal_run_def)
  next
    case False
    have "\<forall>n. \<not> bt_contains (wf_jobs ?S) (fst (ids n)) \<and> snd (ids n) \<notin> sr_id ` set (wf_steps ?S)"
      using assms(12) by (simp add: sync_ids) 
    from advance_total [OF S(1) run pin assms(7) sees assms(9-11) this]
    obtain b S' where S': "advance now known ids r run w g p ?S = Ok (b, S')" by blast
    from advance_states [OF S sees assms(7) _ S'] pin obtain ready skipped S2 where
      ready: "ready = ready_steps_with_policies g (pr_started p) (pr_states p)" "skipped = steps_to_skip g p ready"
      and S2: "wf_runs S2 = wf_runs ?S" "length (step_runs_of r S2) = length (step_runs_of r ?S) + length ready + length skipped"
      "S' = settle_run now r run w p ready skipped S2" by auto
    have active: "pr_active p = 0" using sees no_active [OF S sync_jobs [OF assms(8)]] by (simp add: sees_def)
    have "pr_failed p" if "ready = []"
      by (rule settled_progress [OF S sees assms(7) pin active False ready(1) that])
    then show ?thesis
      using reconcile False S' S2 run active step_runs_sync [of r S]
      by (cases "ready = []"; cases "skipped = []")
         (auto simp: settle_run_def finish_workflow_run_in_def set_run_runs is_terminal_run_def step_runs_of_def set_run_def)
  qed
qed

lemma new_ids_fresh: "fresh_ids (new_ids c)"
  unfolding fresh_ids_def inj_def comp_def new_ids_def by (auto dest: arg_cong [where f = length])

lemma first_step_done:
  "map fst (wf_jobs (state_after 5)) = [''j'']" "wf_steps (state_after 5) = [step_row ''j'' ''a'' 1 WQueued]"
  "job_status (state_after 5) (step_row ''j'' ''a'' 1 WQueued) = Some JSucceeded"
  "map_option wr_status (map_of (wf_runs (state_after 5)) ''r'') = Some WRunning"
  "map_option wr_deadline (map_of (wf_runs (state_after 5)) ''r'') = Some None"
  "map_option (\<lambda>run. ok (row_to_workflow_run ''r'' run) \<noteq> None) (map_of (wf_runs (state_after 5)) ''r'') = Some True"
  by code_simp+

theorem reconciliation_makes_progress_witness:
  "\<exists>b S' run'. reconcile_workflow_run 5 True (\<lambda>_. True) (new_ids CHR ''k'') ''r'' (state_after 5) = Ok (b, S') \<and>
     map_of (wf_runs S') ''r'' = Some run' \<and>
     (is_terminal_run (wr_status run') \<or> length (step_runs_of ''r'' (state_after 5)) < length (step_runs_of ''r'' S'))"
proof -
  obtain run where run: "map_of (wf_runs (state_after 5)) ''r'' = Some run" using first_step_done(4) by auto
  obtain v where v: "row_to_workflow_run ''r'' run = Ok v" using first_step_done(6) run by auto
  obtain g where g: "run_graph pipeline = Ok g" using pipeline_graph by blast
  show ?thesis
  proof (rule reconciliation_makes_progress [OF state_after_reachable run _ _ v history_pins(1) g _ new_ids_fresh])
    show "is_open (wr_status run)" "\<not> due 5 (wr_deadline run)"
      using first_step_done(4,5) run by (simp_all add: is_open_def due_def)
    show "\<forall>row \<in> set (step_runs_of ''r'' (state_after 5)). \<forall>s. job_status (state_after 5) row = Some s \<longrightarrow> job_is_terminal s"
      using first_step_done(2,3) by (simp add: in_step_runs job_is_terminal_def)
    show "\<forall>n. \<not> bt_contains (wf_jobs (state_after 5)) (fst (new_ids CHR ''k'' n)) \<and>
        snd (new_ids CHR ''k'' n) \<notin> sr_id ` set (wf_steps (state_after 5))"
      unfolding contains_keys set_map [symmetric] first_step_done(1,2) by (simp add: new_ids_def step_row_def)
  qed (simp_all add: pipeline_def workflow_with_dependencies_def example_step_def)
qed

end
