(* ===== verification/Progress.thy ===== *)
theory Progress
  imports Decide
begin

text \<open>
  Bounds and progress of the decision core: loops stay within what they declare, a
  loop-free graph that passed the structural checks never gets stuck, and the repair routes
  and bounds that do not do what they declare.
\<close>

section \<open>Loops stay within their bounds\<close>

lemma start_iteration_from:
  assumes "decide d s now = StartIteration r i"
  obtains reg spec where "reg \<in> set (regions (workflow_graph d))" "region_kind reg = Loop spec"
    "decide_one_loop d s reg spec = Some (StartIteration r i)" "region_id reg = r"
proof -
  have "decide_next d s now = StartIteration r i" using assms by (rule decide_not_fail) simp
  then have "decide_iteration d s = Some (StartIteration r i)"
  proof (cases rule: decide_next_cases)
    case active
    from active(5) [symmetric] show ?thesis
      using decide_work_range [of d s] by (cases rule: decide_active_cases) (auto dest: decide_ranges)
  qed (use decide_waiting_range [of s now] in \<open>auto simp: decide_cancellation_Some dest: decide_ranges\<close>)
  then show ?thesis
  proof (rule decide_iteration_Some)
    fix reg spec
    assume *: "reg \<in> set (regions (workflow_graph d))" "region_kind reg = Loop spec"
      "decide_one_loop d s reg spec = Some (StartIteration r i)"
    from decide_one_loop_Some [OF *(3)] have "region_id reg = r" by auto
    then show ?thesis using that * by blast
  qed
qed

text \<open>C33. A loop goes round at most as often as it declares: an iteration is opened only while
  the loop has not stopped and has none open, after the first one only on a continuation
  that was read as true, and the number of iterations begun after opening it is at most the
  declared maximum.\<close>

theorem iterations_bounded:
  assumes "decide d s now = StartIteration r i" "run_fold log = Ok s"
    and "\<forall>reg \<in> set (regions (workflow_graph d)). \<forall>spec. region_kind reg = Loop spec \<longrightarrow>
           max_iterations (loop_budget spec) \<noteq> 0"
  shows "\<exists>reg spec. reg \<in> set (regions (workflow_graph d)) \<and> region_id reg = r \<and> region_kind reg = Loop spec \<and>
           stopped (loop_progress_of s r) = None \<and> i = finished_iterations (loop_progress_of s r) \<and>
           started (loop_progress_of s r) = finished_iterations (loop_progress_of s r) \<and>
           started (loop_progress_of s r) < max_iterations (loop_budget spec) \<and>
           saturating_add (started (loop_progress_of s r)) 1 \<le> max_iterations (loop_budget spec) \<and>
           (i \<noteq> 0 \<longrightarrow>
              control_value_of s (evaluated_by (loop_continuation spec))
                (as_str (continuation_port (loop_continuation spec))) = Some (ControlBool True))"
proof -
  from assms(1) obtain reg spec where reg: "reg \<in> set (regions (workflow_graph d))" "region_kind reg = Loop spec"
      and one: "decide_one_loop d s reg spec = Some (StartIteration r i)" and id: "region_id reg = r"
    by (rule start_iteration_from)
  let ?p = "loop_progress_of s r"
  from decide_one_loop_Some [OF one] id have p: "stopped ?p = None" "i = finished_iterations ?p"
      "\<not> started ?p > finished_iterations ?p"
      and why: "finished_iterations ?p = 0 \<or>
         control_value_of s (evaluated_by (loop_continuation spec)) (as_str (continuation_port (loop_continuation spec)))
           = Some (ControlBool True) \<and> started ?p < max_iterations (loop_budget spec)"
    by auto
  have "finished_iterations ?p \<le> started ?p"
    using run_fold_wf [OF assms(2)] unfolding run_wf_def by blast
  with p(3) have eq: "started ?p = finished_iterations ?p" by (simp add: not_less order_antisym)
  have max: "max_iterations (loop_budget spec) \<noteq> 0" using assms(3) reg by blast
  have less: "started ?p < max_iterations (loop_budget spec)"
    using why max eq by (auto simp: word_neq_0_conv)
  then have "saturating_add (started ?p) 1 \<le> max_iterations (loop_budget spec)"
    by (simp add: word_le_nat_alt word_less_nat_alt unat_saturating_add)
  then show ?thesis using reg id p eq less why by auto
qed

definition sample_looping :: workflow where
  "sample_looping = sample_workflow \<lparr>workflow_graph := sample_loop_graph\<rparr>"

lemma sample_looping_step:
  "decide sample_looping (sample_running \<lparr>next_position := 2, started_at := Some 5\<rparr>) 7 =
     StartIteration (Identifier ''loop'') 0"
proof -
  let ?s = "sample_running \<lparr>next_position := 2, started_at := Some 5\<rparr>"
  have regs: "regions (workflow_graph sample_looping) = [sample_region]"
    by (simp add: sample_looping_def sample_regions)
  have fresh: "loop_progress_of ?s r = loop_progress_default" for r
    by (simp add: loop_progress_of_def sample_running_def initial_state_def bt_get_or_def)
  have quiet: "running ?s = []" "failures ?s = []" "outstanding ?s = []" "uncertain ?s = []"
      "status ?s = Running" "cancel_requested ?s = None" "started_at ?s = Some 5"
      "state_spent ?s = \<lparr>spent_wall_ms = 0, spent_tokens = 0, spent_cost_micro_units = 0, spent_effects = 0\<rparr>"
    by (simp_all add: sample_running_def initial_state_def)
  have "decide_loop sample_looping ?s = None"
    using fresh quiet
    by (simp add: decide_loop_def regs decide_loop_region_def sample_region_def Let_def loop_progress_default_def
        exhausted_def sample_spec_def invariant_failure_def)
  moreover have "decide_failure sample_looping ?s = None"
    using quiet by (simp add: decide_failure_def unresolved_failures_def bt_keys_def)
  moreover have "region_is_reachable sample_looping ?s sample_region"
    by (simp add: region_is_reachable_def predecessors_of_def sample_looping_def sample_loop_graph_def
        sample_region_def edges_def bt_values_def bs_remove_def)
  then have "decide_iteration sample_looping ?s = Some (StartIteration (Identifier ''loop'') 0)"
    using fresh
    by (simp add: decide_iteration_def regs decide_one_loop_def sample_region_def loop_progress_default_def)
  moreover have "timed_out_node sample_looping ?s 7 = None" using quiet by (simp add: timed_out_node_def)
  moreover have "\<not> run_deadline_passed sample_looping ?s 7"
    using quiet
    by (simp add: run_deadline_passed_def elapsed_reaches_def sample_looping_def sample_workflow_def deterministic_def
        i64_saturating_sub_def i64_min_def i64_max_def u64_try_from_i64_def)
  ultimately show ?thesis
    using quiet
    by (simp add: decide_def decide_next_def decide_outstanding_effect_def decide_cancellation_def decide_active_def
        is_fail_def)
qed

theorem iterations_bounded_witness:
  "\<exists>s. run_fold (take 2 sample_log) = Ok s \<and>
     decide sample_looping s 7 = StartIteration (Identifier ''loop'') 0 \<and>
     started (loop_progress_of s (Identifier ''loop'')) < 3"
proof -
  let ?s = "sample_running \<lparr>next_position := 2, started_at := Some 5\<rparr>"
  have fold: "run_fold (take 2 sample_log) = Ok ?s"
    by (simp add: run_fold_def sample_log_def sample_running_def initial_state_def apply_recorded_def)
  have regs: "regions (workflow_graph sample_looping) = [sample_region]"
    by (simp add: sample_looping_def sample_regions)
  have kind: "region_kind sample_region = Loop sample_spec" by (simp add: sample_region_def)
  have step: "decide sample_looping ?s 7 = StartIteration (Identifier ''loop'') 0"
    by (simp add: sample_looping_step)
  from iterations_bounded [OF step fold] regs kind have "started (loop_progress_of ?s (Identifier ''loop'')) < 3"
    by (auto simp: sample_spec_def)
  then show ?thesis using fold step by blast
qed

section \<open>A repair that repeats\<close>

definition sample_failing :: run_state where
  "sample_failing = sample_running \<lparr>failures :=
     [(Identifier ''work'', [\<lparr>failure_kind_of = StaleReference, failure_detail = ''late''\<rparr>])]\<rparr>"

definition sample_repairing :: "route \<Rightarrow> workflow" where
  "sample_repairing r = sample_looping \<lparr>workflow_graph := sample_loop_graph \<lparr>graph_regions :=
     [(Identifier ''loop'', sample_region \<lparr>region_kind := Loop (sample_spec \<lparr>loop_repairs :=
        [\<lparr>repair_failure = StaleReference, repair_route = r\<rparr>]\<rparr>)\<rparr>)]\<rparr>\<rparr>"

lemma sample_failing_first:
  "first (unresolved_failures sample_failing) =
     Some (Identifier ''work'', \<lparr>failure_kind_of = StaleReference, failure_detail = ''late''\<rparr>)"
  by (simp add: unresolved_failures_def unresolved_failure_def sample_failing_def sample_running_def initial_state_def
      bt_keys_def bt_contains_def failures_of_def bt_get_or_def last_of_def)

lemma sample_repairing_regions:
  "region_of_node (workflow_graph (sample_repairing r)) (Identifier ''work'') =
     Some (sample_region \<lparr>region_kind := Loop (sample_spec \<lparr>loop_repairs :=
        [\<lparr>repair_failure = StaleReference, repair_route = r\<rparr>]\<rparr>)\<rparr>)"
  by (simp add: region_of_node_def regions_def bt_values_def sample_repairing_def sample_region_def region_contains_def)

text \<open>The failure that is answered first stays the first one while nothing happens to its node.\<close>

lemma first_filter_map: "first (filter_map f xs) = find_map f xs"
  by (induction xs) (auto split: option.splits)

lemma find_map_drop:
  assumes "find_map f xs = Some y" "\<And>x. x \<noteq> t \<Longrightarrow> g x = f x" "g t = None" "f t \<noteq> Some y"
  shows "find_map g xs = Some y"
  using assms(1)
proof (induction xs)
  case (Cons x xs)
  then show ?case using assms(2-4) by (cases "x = t"; cases "f x") auto
qed simp

text \<open>A repair that is handed to another node does not end: once the other node has run to
  its end the failed node is still neither running nor finished, so the same failure is
  found again and the same repair is started again, without any count of the hand-overs.\<close>

theorem handed_repair_repeats:
  assumes "decide_failure d s = Some (StartNode t)" "first (unresolved_failures s) = Some (n, f)" "t \<noteq> n"
    and "apply_event s at (NodeStarted t) = Ok s1" "apply_event s1 at' (NodeFinished t outs ctl) = Ok s2"
  shows "first (unresolved_failures s2) = Some (n, f) \<and> decide_failure d s2 = Some (StartNode t)"
proof -
  have same: "failures s2 = failures s" "loops s2 = loops s"
    and keys: "bt_contains (finished s2) t" "\<And>m. m \<noteq> t \<Longrightarrow> bt_contains (finished s2) m = bt_contains (finished s) m"
      "\<And>m. m \<noteq> t \<Longrightarrow> bt_contains (running s2) m = bt_contains (running s) m"
    using assms(4,5) by (auto simp: bt_contains_def split: if_splits)
  then have run: "unresolved_failure s2 t = None" "\<And>m. m \<noteq> t \<Longrightarrow> unresolved_failure s2 m = unresolved_failure s m"
    by (simp_all add: unresolved_failure_def failures_of_def)
  have first: "first (unresolved_failures s2) = Some (n, f)"
    using assms(2) unfolding unresolved_failures_def first_filter_map same
    by (rule find_map_drop [where t = t]) (use run assms(3) in auto)
  have count: "failure_count s2 n k = failure_count s n k" for k
    by (simp add: failure_count_def failures_of_def same)
  have repair: "repair_for spec s2 n k = repair_for spec s n k" for spec k
    unfolding repair_for_def count ..
  have progress: "loop_progress_of s2 r = loop_progress_of s r" for r by (simp add: loop_progress_of_def same)
  have "decide_failure d s2 = decide_failure d s"
    unfolding decide_failure_def first assms(2) by (simp only: option.case prod.case repair progress)
  then show ?thesis using first assms(1) by simp
qed

theorem handed_repair_repeats_witness:
  "\<exists>s1 s2. apply_event sample_failing 8 (NodeStarted (Identifier ''enter'')) = Ok s1 \<and>
     apply_event s1 9 (NodeFinished (Identifier ''enter'') [] []) = Ok s2 \<and>
     decide_failure (sample_repairing (RouteRepair (Identifier ''enter''))) s2 = Some (StartNode (Identifier ''enter''))"
proof -
  have fresh: "loop_progress_of sample_failing r = loop_progress_default" for r
    by (simp add: loop_progress_of_def sample_failing_def sample_running_def initial_state_def bt_get_or_def)
  have hand: "decide_failure (sample_repairing (RouteRepair (Identifier ''enter''))) sample_failing =
      Some (StartNode (Identifier ''enter''))"
    by (simp add: decide_failure_def sample_failing_first sample_repairing_regions fresh loop_progress_default_def
        repair_for_def loops_route_for_def)
  obtain s1 s2 where s: "apply_event sample_failing 8 (NodeStarted (Identifier ''enter'')) = Ok s1"
      "apply_event s1 9 (NodeFinished (Identifier ''enter'') [] []) = Ok s2"
    by (simp add: bt_contains_def sample_failing_def sample_running_def initial_state_def)
  from handed_repair_repeats [OF hand sample_failing_first _ s] s show ?thesis by auto
qed

section \<open>A loop-free graph never gets stuck\<close>

lemma graph_new_nodes:
  assumes "graph_new parts = Ok g"
  shows "set (bt_keys (graph_nodes g)) = node_id ` set (nodes g)"
proof -
  obtain xs where k: "keyed ''node'' node_id xs = Ok (graph_nodes g)"
    using assms by (auto simp: graph_new_def)
  have wf: "bt_wf (graph_nodes g)" using keyed_get [OF k] by blast
  have "fst p = node_id (snd p)" if "p \<in> set (graph_nodes g)" for p
    using that keyed_get [OF k, of "fst p" "snd p"] map_of_is_SomeI [OF bt_wf_distinct [OF wf], of "fst p" "snd p"]
    by simp
  then show ?thesis by (force simp: bt_keys_def nodes_def bt_values_def)
qed

lemma check_edge_sources_declared:
  assumes "check_edge g e = Ok ()" "Some m \<in> endpoint_node ` set (edge_sources e)"
  shows "m \<in> set (bt_keys (graph_nodes g))"
proof -
  from assms(1) obtain sources where
      "list_all2 (\<lambda>x y. source_port g e x = Ok y) (edge_sources e) sources"
    by (rule check_edge_parts)
  moreover from assms(2) obtain x where x: "x \<in> set (edge_sources e)" "endpoint_node x = Some m" by force
  ultimately obtain y where "source_port g e x = Ok y"
    by (auto simp: list_all2_conv_all_nth in_set_conv_nth)
  with x(2) show ?thesis
    by (cases x) (auto simp: source_port_def graph_node_def bt_keys_def dom_map_of_conv_image_fst [symmetric]
        split: option.splits)
qed

lemma first_unfinished:
  assumes "finite U" "U \<noteq> {}" "\<forall>m \<in> U. (m, m) \<notin> R\<^sup>+"
  obtains n where "n \<in> U" "\<forall>m. (m, n) \<in> R \<longrightarrow> m \<notin> U"
proof -
  have "(R \<inter> U \<times> U)\<^sup>+ \<subseteq> R\<^sup>+ \<inter> U \<times> U"
    using trancl_mono_subset [of "R \<inter> U \<times> U" R] trancl_subset_Sigma [of "R \<inter> U \<times> U" U] by blast
  then have "acyclic (R \<inter> U \<times> U)" using assms(3) by (auto simp: acyclic_def)
  then have "wf (R \<inter> U \<times> U)" using assms(1) by (simp add: finite_acyclic_wf)
  then obtain n where "n \<in> U" "\<forall>m. (m, n) \<in> R \<inter> U \<times> U \<longrightarrow> m \<notin> U"
    using assms(2) by (metis ex_in_conv wfE_min)
  then show ?thesis using that by blast
qed

lemma loop_free_settles:
  assumes "\<forall>r \<in> set (regions (workflow_graph d)). \<not> permits_cycles (region_kind r)"
  shows "predecessor_is_settled d s n m = has_finished s m" "iteration_is_open_for d s n"
proof -
  have "\<not> permits_cycles (region_kind r)" if "region_of_node (workflow_graph d) k = Some r" for k r
    using that assms by (auto simp: region_of_node_def dest: find_SomeD)
  then show "predecessor_is_settled d s n m = has_finished s m" "iteration_is_open_for d s n"
    by (auto simp: predecessor_is_settled_def iteration_is_open_for_def split: option.splits)
qed

lemma work_never_stuck:
  assumes "graph_new parts = Ok (workflow_graph d)" "graph_check (workflow_graph d) granted budget = Ok ()"
    and loops: "\<forall>r \<in> set (regions (workflow_graph d)). \<not> permits_cycles (region_kind r)"
    and control: "\<forall>c \<in> set (graph_control (workflow_graph d)).
                    control_from c \<in> node_id ` set (nodes (workflow_graph d))"
    and "running s = []"
  shows "decide_work d s \<noteq> Idle"
proof -
  let ?g = "workflow_graph d"
  define U where "U = {n \<in> node_id ` set (nodes ?g). \<not> has_finished s n}"
  from assms(2) have parts: "check_cycles ?g = Ok ()" "\<forall>e \<in> set (edges ?g). check_edge ?g e = Ok ()"
    by (auto simp: graph_check_def try_for_each_eq_Inr)
  have declared: "m \<in> node_id ` set (nodes ?g)" if "feeds ?g m n" for m n
    using that parts(2) control check_edge_sources_declared graph_new_nodes [OF assms(1)]
    unfolding feeds_def by blast
  show ?thesis
  proof (cases "U = {}")
    case True
    then have "list_all (\<lambda>n. has_finished s (node_id n)) (nodes ?g)" by (auto simp: U_def list_all_iff)
    then show ?thesis using assms(5) by (simp add: decide_work_def split: option.splits)
  next
    case False
    have "\<forall>m \<in> U. (m, m) \<notin> (graph_flow ?g)\<^sup>+"
      using check_cycles_acyclic [OF loops parts(1)] graph_new_nodes [OF assms(1)] by (auto simp: U_def)
    with False obtain n where n: "n \<in> U" "\<forall>m. feeds ?g m n \<longrightarrow> m \<notin> U"
      using first_unfinished [of U "graph_flow ?g"] by (auto simp: U_def)
    then obtain x where x: "x \<in> set (nodes ?g)" "node_id x = n" "\<not> has_finished s n" by (auto simp: U_def)
    have "\<forall>m \<in> set (predecessors_of ?g n). has_finished s m"
      using n(2) declared by (auto simp: set_predecessors_of U_def)
    then have "node_is_ready d s x"
      using x assms(5) loop_free_settles [OF loops] by (simp add: node_is_ready_def list_all_iff)
    then have "next_ready_node d s \<noteq> None" using x(1) by (auto simp: next_ready_node_def find_None_iff)
    then show ?thesis by (auto simp: decide_work_def split: option.splits)
  qed
qed

text \<open>C32. A run never stalls: on a graph that was built and passed the structural checks, with no
  loop region and no control edge from an undeclared node, the decision is to do nothing
  only if the run has ended, or it is waiting, or some node is still running.\<close>

theorem idle_only_for_a_reason:
  assumes "graph_new parts = Ok (workflow_graph d)" "graph_check (workflow_graph d) granted budget = Ok ()"
    and "\<forall>r \<in> set (regions (workflow_graph d)). \<not> permits_cycles (region_kind r)"
    and "\<forall>c \<in> set (graph_control (workflow_graph d)).
           control_from c \<in> node_id ` set (nodes (workflow_graph d))"
    and "decide d s now = Idle"
  shows "status_is_terminal (status s) \<or>
         status s = Waiting \<and> (\<forall>until. waiting_on s = Some (Timer until) \<longrightarrow> now < until) \<or>
         status s = Running \<and> running s \<noteq> []"
proof -
  have "decide_next d s now = Idle" using assms(5) by (rule decide_not_fail) simp
  then show ?thesis
  proof (cases rule: decide_next_cases)
    case waiting
    then show ?thesis by (auto simp: decide_waiting_def split: option.splits wait.splits if_splits)
  next
    case active
    from active(5) [symmetric] show ?thesis
    proof (cases rule: decide_active_cases)
      case work
      then show ?thesis using work_never_stuck [OF assms(1-4), of s] active(1) by auto
    qed (auto dest: decide_ranges)
  qed (auto simp: decide_cancellation_Some dest: decide_ranges)
qed

definition sample_pair :: workflow where
  "sample_pair = sample_workflow \<lparr>workflow_budget := deterministic 0, workflow_graph :=
     \<lparr>graph_nodes = [(Identifier ''a'', sample_node ''a''), (Identifier ''b'', sample_node ''b'')], graph_edges = [],
      graph_control = [ControlEdge (Identifier ''a'') (Identifier ''b'')], graph_branches = [], graph_regions = [],
      graph_inputs = [], graph_outputs = []\<rparr>\<rparr>"

lemma sample_pair_built: "graph_new (sample_parts [''a'', ''b'']) = Ok (workflow_graph sample_pair)"
  by code_simp

lemma sample_pair_checked: "graph_check (workflow_graph sample_pair) [] (deterministic 5) = Ok ()"
  by code_simp

theorem idle_only_for_a_reason_witness:
  "decide sample_pair (sample_running \<lparr>running := [(Identifier ''a'', 3)]\<rparr>) 3 = Idle \<and>
   running (sample_running \<lparr>running := [(Identifier ''a'', 3)]\<rparr>) \<noteq> []"
proof -
  let ?s = "sample_running \<lparr>running := [(Identifier ''a'', 3)]\<rparr>"
  have idle: "decide sample_pair ?s 3 = Idle"
    by code_simp
  show ?thesis
    using idle_only_for_a_reason [OF sample_pair_built sample_pair_checked _ _ idle] idle
    by (simp add: sample_pair_def regions_def bt_values_def nodes_def sample_node_def sample_running_def)
qed

text \<open>The structural checks do not look at the ends of control edges: a graph whose only node
  is ordered after a node that does not exist passes them, and its run, with nothing
  running and no deadline, is left idle at every time without ever running the node.\<close>

definition sample_ghost :: workflow where
  "sample_ghost = sample_workflow \<lparr>workflow_budget := deterministic 0, workflow_graph :=
     \<lparr>graph_nodes = [(Identifier ''a'', sample_node ''a'')], graph_edges = [],
      graph_control = [ControlEdge (Identifier ''ghost'') (Identifier ''a'')], graph_branches = [], graph_regions = [],
      graph_inputs = [], graph_outputs = []\<rparr>\<rparr>"

theorem undeclared_control_stalls:
  "graph_check (workflow_graph sample_ghost) [] (deterministic 5) = Ok () \<and>
   status sample_running = Running \<and> running sample_running = [] \<and>
   \<not> has_finished sample_running (Identifier ''a'') \<and> (\<forall>now. decide sample_ghost sample_running now = Idle)"
proof (intro conjI allI)
  show "graph_check (workflow_graph sample_ghost) [] (deterministic 5) = Ok ()" by code_simp
  show "status sample_running = Running" "running sample_running = []"
      "\<not> has_finished sample_running (Identifier ''a'')"
    by (simp_all add: sample_running_def initial_state_def has_finished_def bt_contains_def)
  have nodes: "nodes (workflow_graph sample_ghost) = [sample_node ''a'']"
    by (simp add: nodes_def bt_values_def sample_ghost_def)
  have "decide_work sample_ghost sample_running = Idle" by code_simp
  moreover have "decide_loop sample_ghost sample_running = None" "decide_failure sample_ghost sample_running = None"
      "decide_iteration sample_ghost sample_running = None" by code_simp+
  moreover have "outstanding sample_running = []" "uncertain sample_running = []" "status sample_running = Running"
      "cancel_requested sample_running = None" "running sample_running = []" "started_at sample_running = None"
    by (simp_all add: sample_running_def initial_state_def)
  ultimately show "decide sample_ghost sample_running now = Idle" for now
    by (simp add: decide_def decide_next_def decide_outstanding_effect_def decide_cancellation_def decide_active_def
        is_fail_def timed_out_node_def run_deadline_passed_def)
qed

end
