(* ===== verification/Workflow_Adapter.thy ===== *)
theory Workflow_Adapter
  imports Certificates Progress Workflow_Order
begin

text \<open>
  Job workflows as definitions of the intermediate representation
  (\<open>crates/ir-adapters/src/workflow.rs\<close>, \<open>lib.rs\<close>): each step becomes an effect node with opaque
  ports, each dependency a control edge. A workflow whose graph is accepted is translated to a
  definition that is admitted, and the decision core finds the same steps ready as the
  scheduler of workflows does. What the translation does to deadlines is the last section.
\<close>

section \<open>The translation\<close>

datatype 'ce adapter_error =
    AdapterIdentifier string identifier_error
  | AdapterUnsupported capability_error
  | AdapterNotAdmissible "'ce admission_refusal"

record adaptation_note =
  note_construct :: string
  note_detail :: string

record adapted =
  adapted_definition :: workflow
  adapted_notes :: "adaptation_note list"

definition is_lossless :: "adapted \<Rightarrow> bool" where
  "is_lossless a = (adapted_notes a = [])"

definition JOB_EXECUTION :: string where
  "JOB_EXECUTION = ''job-execution''"

definition DEFAULT_STEP_MS :: u64 where
  "DEFAULT_STEP_MS = 3600000"

definition opaque_step_value :: value_schema where
  "opaque_step_value = SJson ''a job's inputs and outputs are not modelled by the current workflow DAG''"

definition adapter_identifier :: "string \<Rightarrow> string \<Rightarrow> ('ce adapter_error, ident) result" where
  "adapter_identifier s what = map_err (AdapterIdentifier what) (parse s)"

text \<open>\<open>saturating_mul(1_000)\<close> on an unsigned 64-bit count of seconds.\<close>

definition to_millis :: "u64 \<Rightarrow> u64" where
  "to_millis n = (if uint n * 1000 < 2 ^ 64 then n * 1000 else - 1)"

definition step_wall_ms :: "u64 option \<Rightarrow> u64" where
  "step_wall_ms t = (case t of None \<Rightarrow> DEFAULT_STEP_MS | Some n \<Rightarrow> to_millis n)"

definition adapt_step :: "workflow_step \<Rightarrow> ('ce adapter_error, node) result" where
  "adapt_step step =
     and_then (adapter_identifier (ws_id step) ''workflow step id'') (\<lambda>i.
     and_then (adapter_identifier ''upstream'' ''port'') (\<lambda>upstream.
     and_then (adapter_identifier ''result'' ''port'') (\<lambda>outcome.
     and_then (adapter_identifier JOB_EXECUTION ''capability'') (\<lambda>capability.
     and_then (adapter_identifier ''run-job'' ''effect'') (\<lambda>run_job.
       Ok \<lparr>node_id = i, node_name = ws_name step, node_kind = EffectNode,
           node_inputs = [input_port_new upstream opaque_step_value],
           node_outputs = [output_port_new outcome opaque_step_value],
           node_capabilities = [capability],
           node_effects = [\<lparr>effect_id = run_job, effect_kind = EffExternalSideEffect,
             effect_target = ws_job_definition step, effect_capability = capability,
             effect_idempotency = NonIdempotent, effect_reversibility = Irreversible\<rparr>],
           node_budget = \<lparr>wall_ms = step_wall_ms (ws_timeout step), tokens = 0, cost_micro_units = 0, effect_count = 1\<rparr>,
           node_provider = None, node_sub_workflow = None\<rparr>)))))"

definition adapt_dependency :: "step_dependency \<Rightarrow> ('ce adapter_error, control_edge) result" where
  "adapt_dependency dep =
     and_then (adapter_identifier (dep_from dep) ''workflow step id'') (\<lambda>a.
     and_then (adapter_identifier (dep_to dep) ''workflow step id'') (\<lambda>b. Ok (ControlEdge a b)))"

definition adaptation_notes :: "workflow_definition \<Rightarrow> adaptation_note list" where
  "adaptation_notes w =
     (let soft = length (filter (\<lambda>d. dep_policy d \<noteq> Hard) (wd_dependencies w)) in
      \<lparr>note_construct = ''workflow step'',
       note_detail = ''a job's inputs and outputs are not modelled, so its ports are opaque''\<rparr> #
      (if soft > 0 then
         [\<lparr>note_construct = ''workflow step dependency'',
           note_detail = fmt_nat soft @ '' dependencies are soft or always-run; IR v1 carries the '' @
             ''ordering but not the rule for continuing past a failed predecessor''\<rparr>]
       else []))"

definition adapted_budget :: "workflow_definition \<Rightarrow> resource_budget" where
  "adapted_budget w =
     \<lparr>wall_ms = max (step_wall_ms (wd_deadline w)) DEFAULT_STEP_MS, tokens = 0, cost_micro_units = 0,
      effect_count = (if length (wd_steps w) < 2 ^ 32 then of_nat (length (wd_steps w)) else - 1)\<rparr>"

definition from_workflow :: "workflow_definition \<Rightarrow> ('ce adapter_error, adapted) result" where
  "from_workflow w =
     and_then (try_map adapt_step (wd_steps w)) (\<lambda>ns.
     and_then (try_map adapt_dependency (wd_dependencies w)) (\<lambda>control.
     and_then (map_err (\<lambda>e. AdapterNotAdmissible
         \<lparr>refusal_code = GraphInvalid, refusal_owner = OwnerRuntime, refusal_detail = GraphRefused e\<rparr>)
         (graph_new \<lparr>builder_nodes = ns, builder_edges = [], builder_control = control, builder_branches = [],
            builder_regions = [], builder_inputs = [], builder_outputs = []\<rparr>)) (\<lambda>g.
     and_then (adapter_identifier (wd_id w) ''workflow id'') (\<lambda>i.
     and_then (adapter_identifier JOB_EXECUTION ''capability'') (\<lambda>capability.
     and_then (adapter_identifier ''capsulet/job-runner'' ''tool'') (\<lambda>tool.
     and_then (map_err AdapterUnsupported
         (capability_set_new [\<lparr>capability_id = capability, capability_grant = grant.Tool tool\<rparr>])) (\<lambda>granted.
       Ok \<lparr>adapted_definition =
             \<lparr>workflow_schema_version = IR_SCHEMA_VERSION, workflow_id = i, workflow_version = ''1'',
              workflow_name = wd_name w, workflow_assurance = Observe, workflow_capabilities = granted,
              workflow_budget = adapted_budget w, workflow_graph = g, workflow_boundaries = [],
              workflow_contracts = []\<rparr>,
           adapted_notes = adaptation_notes w\<rparr>)))))))"

section \<open>What a translated workflow is\<close>

definition step_node :: "workflow_step \<Rightarrow> node" where
  "step_node step =
     \<lparr>node_id = Identifier (ws_id step), node_name = ws_name step, node_kind = EffectNode,
      node_inputs = [input_port_new (Identifier ''upstream'') opaque_step_value],
      node_outputs = [output_port_new (Identifier ''result'') opaque_step_value],
      node_capabilities = [Identifier JOB_EXECUTION],
      node_effects = [\<lparr>effect_id = Identifier ''run-job'', effect_kind = EffExternalSideEffect,
        effect_target = ws_job_definition step, effect_capability = Identifier JOB_EXECUTION,
        effect_idempotency = NonIdempotent, effect_reversibility = Irreversible\<rparr>],
      node_budget = \<lparr>wall_ms = step_wall_ms (ws_timeout step), tokens = 0, cost_micro_units = 0, effect_count = 1\<rparr>,
      node_provider = None, node_sub_workflow = None\<rparr>"

definition step_edge :: "step_dependency \<Rightarrow> control_edge" where
  "step_edge dep = ControlEdge (Identifier (dep_from dep)) (Identifier (dep_to dep))"

definition step_graph :: "workflow_definition \<Rightarrow> graph" where
  "step_graph w =
     \<lparr>graph_nodes = btree.build (map (\<lambda>x. (node_id x, x)) (map step_node (wd_steps w))) [], graph_edges = [],
      graph_control = bs_collect (map step_edge (wd_dependencies w)), graph_branches = [], graph_regions = [],
      graph_inputs = [], graph_outputs = []\<rparr>"

definition legal_names :: "workflow_definition \<Rightarrow> bool" where
  "legal_names w \<longleftrightarrow> valid_identifier (wd_id w) \<and> list_all (\<lambda>step. valid_identifier (ws_id step)) (wd_steps w) \<and>
     list_all (\<lambda>dep. valid_identifier (dep_from dep) \<and> valid_identifier (dep_to dep)) (wd_dependencies w)"

lemma fixed_identifiers:
  "parse ''upstream'' = Ok (Identifier ''upstream'')" "parse ''result'' = Ok (Identifier ''result'')"
  "parse JOB_EXECUTION = Ok (Identifier JOB_EXECUTION)" "parse ''run-job'' = Ok (Identifier ''run-job'')"
  "parse ''capsulet/job-runner'' = Ok (Identifier ''capsulet/job-runner'')"
  by code_simp+

lemma adapter_identifier_Ok: "adapter_identifier s what = Ok i \<longleftrightarrow> valid_identifier s \<and> i = Identifier s"
  by (simp add: adapter_identifier_def parse_eq_Ok_iff)

lemma fixed_names:
  "adapter_identifier ''upstream'' what = Ok (Identifier ''upstream'')"
  "adapter_identifier ''result'' what = Ok (Identifier ''result'')"
  "adapter_identifier JOB_EXECUTION what = Ok (Identifier JOB_EXECUTION)"
  "adapter_identifier ''run-job'' what = Ok (Identifier ''run-job'')"
  "adapter_identifier ''capsulet/job-runner'' what = Ok (Identifier ''capsulet/job-runner'')"
  unfolding adapter_identifier_def fixed_identifiers by simp_all

lemma adapt_step_Ok: "(adapt_step step :: ('ce adapter_error, node) result) = Ok n \<longleftrightarrow> valid_identifier (ws_id step) \<and> n = step_node step"
proof -
  have "(adapt_step step :: ('ce adapter_error, node) result) = and_then (adapter_identifier (ws_id step) ''workflow step id'')
      (\<lambda>i. Ok ((step_node step)\<lparr>node_id := i\<rparr>))"
    unfolding adapt_step_def fixed_names and_then.simps by (simp only: step_node_def node.update_convs)
  then show ?thesis by (auto simp: adapter_identifier_Ok step_node_def)
qed

lemma adapt_dependency_Ok:
  "adapt_dependency dep = Ok c \<longleftrightarrow> (valid_identifier (dep_from dep) \<and> valid_identifier (dep_to dep)) \<and> c = step_edge dep"
  by (auto simp: adapt_dependency_def step_edge_def adapter_identifier_Ok)

lemma try_map_eq_Ok: "(\<And>x y. f x = Ok y \<longleftrightarrow> P x \<and> y = g x) \<Longrightarrow> try_map f xs = Ok ys \<longleftrightarrow> list_all P xs \<and> ys = map g xs"
  by (induction xs arbitrary: ys) auto

lemma distinct_node_ids: "distinct (map node_id (map step_node steps)) \<longleftrightarrow> distinct (map ws_id steps)"
proof -
  have "map node_id (map step_node steps) = map Identifier (map ws_id steps)" by (simp add: step_node_def)
  then show ?thesis by (simp add: distinct_map inj_on_def)
qed

lemma from_workflow_Ok:
  "from_workflow w = Ok a \<longleftrightarrow>
     legal_names w \<and> distinct (map ws_id (wd_steps w)) \<and>
     a = \<lparr>adapted_definition =
            \<lparr>workflow_schema_version = IR_SCHEMA_VERSION, workflow_id = Identifier (wd_id w), workflow_version = ''1'',
             workflow_name = wd_name w, workflow_assurance = Observe,
             workflow_capabilities = [(Identifier JOB_EXECUTION, grant.Tool (Identifier ''capsulet/job-runner''))],
             workflow_budget = adapted_budget w, workflow_graph = step_graph w, workflow_boundaries = [],
             workflow_contracts = []\<rparr>,
          adapted_notes = adaptation_notes w\<rparr>"
proof -
  have set_new: "capability_set_new [\<lparr>capability_id = i, capability_grant = x\<rparr>] = Ok granted \<longleftrightarrow> granted = [(i, x)]" for i x granted
    by (auto simp: capability_set_new_def bt_try_build_eq_Ok btree.build_def)
  have "keyed what key [] = Ok m \<longleftrightarrow> m = []" for what and key :: "'x \<Rightarrow> ident" and m
    by (simp add: keyed_eq_Ok btree.build_def)
  then show ?thesis
    unfolding from_workflow_def legal_names_def
    by (auto simp: try_map_eq_Ok [OF adapt_step_Ok] try_map_eq_Ok [OF adapt_dependency_Ok] graph_new_def keyed_eq_Ok
        distinct_node_ids [simplified] adapter_identifier_Ok fixed_names set_new step_graph_def btree.build_def)
qed

lemma step_graph_nodes:
  assumes "distinct (map ws_id (wd_steps w))"
  shows "set (nodes (step_graph w)) = step_node ` set (wd_steps w)"
    "set (bt_keys (graph_nodes (step_graph w))) = (\<lambda>step. Identifier (ws_id step)) ` set (wd_steps w)"
proof -
  have k: "keyed ''node'' node_id (map step_node (wd_steps w)) = Ok (graph_nodes (step_graph w))"
    unfolding keyed_eq_Ok distinct_node_ids using assms by (simp add: step_graph_def)
  note get = keyed_get [OF k]
  have wf: "bt_wf (graph_nodes (step_graph w))" using get by blast
  have node: "v \<in> set (nodes (step_graph w)) \<longleftrightarrow> v \<in> set (map step_node (wd_steps w))" for v
  proof
    assume "v \<in> set (nodes (step_graph w))"
    then obtain k where "(k, v) \<in> set (graph_nodes (step_graph w))" by (auto simp: nodes_def bt_values_def)
    then show "v \<in> set (map step_node (wd_steps w))" using get [of k v] bt_wf_distinct [OF wf] by simp
  next
    assume "v \<in> set (map step_node (wd_steps w))"
    then have "map_of (graph_nodes (step_graph w)) (node_id v) = Some v" using get [of "node_id v" v] by simp
    then show "v \<in> set (nodes (step_graph w))" by (force simp: nodes_def bt_values_def dest: map_of_SomeD)
  qed
  then show nodes: "set (nodes (step_graph w)) = step_node ` set (wd_steps w)" by (simp add: set_eq_iff)
  have "graph_new \<lparr>builder_nodes = map step_node (wd_steps w), builder_edges = [], builder_control = map step_edge (wd_dependencies w),
      builder_branches = [], builder_regions = [], builder_inputs = [], builder_outputs = []\<rparr> = Ok (step_graph w)"
    using k by (simp add: graph_new_def) (simp add: keyed_eq_Ok btree.build_def step_graph_def)
  from graph_new_nodes [OF this]
  show "set (bt_keys (graph_nodes (step_graph w))) = (\<lambda>step. Identifier (ws_id step)) ` set (wd_steps w)"
    by (simp add: nodes image_image step_node_def)
qed

lemma step_graph_feeds: "feeds (step_graph w) m n \<longleftrightarrow> (as_str m, as_str n) \<in> declared_edges (wd_dependencies w)"
proof -
  have "feeds (step_graph w) m n \<longleftrightarrow> (\<exists>dep \<in> set (wd_dependencies w). m = Identifier (dep_from dep) \<and> n = Identifier (dep_to dep))"
    by (auto simp: feeds_def step_graph_def edges_def bt_values_def step_edge_def)
  also have "\<dots> \<longleftrightarrow> (as_str m, as_str n) \<in> declared_edges (wd_dependencies w)"
    by (cases m; cases n) (auto simp: declared_edges_def)
  finally show ?thesis .
qed

lemma step_graph_acyclic:
  assumes "acyclic (declared_edges (wd_dependencies w))"
  shows "(m, m) \<notin> (graph_flow (step_graph w))\<^sup>+"
proof -
  have "(as_str m, as_str n) \<in> (declared_edges (wd_dependencies w))\<^sup>+" if "(m, n) \<in> (graph_flow (step_graph w))\<^sup>+" for m n
    using that by (induction rule: trancl_induct) (auto simp: step_graph_feeds intro: trancl_into_trancl)
  then show ?thesis using assms by (auto simp: acyclic_def)
qed

lemma step_node_checked:
  "node_check (step_node step) [(Identifier JOB_EXECUTION, grant.Tool (Identifier ''capsulet/job-runner''))] = Ok ()"
  by (simp add: node_check_def step_node_def check_node_capability_def grant_of_def check_node_provider_def
        check_node_effect_def effect_check_def)

section \<open>Admission and readiness\<close>

lemma ready_steps_hard:
  assumes "graph_of steps deps g" "distinct (map ws_id steps)" "list_all (\<lambda>dep. dep_policy dep = Hard) deps"
  shows "step \<in> set (ready_steps_with_policies g begun states) \<longleftrightarrow>
    step \<in> set steps \<and> ws_id step \<notin> set begun \<and>
    (\<forall>dep \<in> set deps. dep_to dep = ws_id step \<longrightarrow> map_of states (dep_from dep) = Some WSucceeded)"
proof -
  have node: "map_of (wg_nodes g) i = Some step \<longleftrightarrow> step \<in> set steps \<and> ws_id step = i" for i
  proof -
    have "map_of (wg_nodes g) = map_of (map (\<lambda>s. (ws_id s, s)) steps)" using assms(1) by (simp add: graph_of_def known_nodes_def)
    moreover have "distinct (map fst (map (\<lambda>s. (ws_id s, s)) steps))" using assms(2) by (simp add: comp_def)
    ultimately show ?thesis by (auto simp: map_of_eq_Some_iff)
  qed
  have met: "dependency_met states dep \<longleftrightarrow> map_of states (dep_from dep) = Some WSucceeded" if "dep \<in> set deps" for dep
    using assms(3) that by (simp add: dependency_met_def list_all_iff)
  have "step \<in> set (ready_steps_with_policies g begun states) \<longleftrightarrow>
      (\<exists>i \<in> set (wg_order g). i \<notin> set begun \<and> list_all (dependency_met states) (filter (\<lambda>d. dep_to d = i) deps) \<and>
         map_of (wg_nodes g) i = Some step)"
    using assms(1) unfolding ready_steps_with_policies_def set_filter_map graph_of_def by force
  also have "\<dots> \<longleftrightarrow> step \<in> set steps \<and> ws_id step \<notin> set begun \<and>
      (\<forall>dep \<in> set deps. dep_to dep = ws_id step \<longrightarrow> map_of states (dep_from dep) = Some WSucceeded)"
    using assms(1) met by (auto simp: node graph_of_def list_all_iff)
  finally show ?thesis .
qed

text \<open>C25. Translating a workflow whose graph is accepted and whose names are legal identifiers always
  succeeds, and the definition it gives passes every structural check of admission: it is admitted
  when it has a digest, and the only refusal left is that of the canonical encoder, which refuses text
  that is not normalised, as the names and job targets of a workflow may be.\<close>

theorem adapted_workflow_passes_admission:
  assumes "workflow_graph_new (wd_id w) (wd_steps w) (wd_dependencies w) = Some (Ok g)" "legal_names w"
  shows "\<exists>a. (from_workflow w :: ('ce adapter_error, adapted) result) = Ok a \<and>
    admit digest_of (adapted_definition a) =
      (case digest_of (adapted_definition a) of
         Inl e \<Rightarrow> Err (admission_refusal_new SchemaInvalid (NoCanonicalEncoding e))
       | Inr dg \<Rightarrow> Ok \<lparr>admission_definition = dg, admission_rules = admission_codes\<rparr>)"
proof -
  have well: "well_declared (wd_id w) (wd_steps w) (wd_dependencies w)"
    using workflow_graph_new_iff [of "wd_id w" "wd_steps w" "wd_dependencies w"] assms(1) by auto
  then have d: "distinct (map ws_id (wd_steps w))" and acyc: "acyclic (declared_edges (wd_dependencies w))"
    by (simp_all add: well_declared_def)
  obtain a where a: "(from_workflow w :: ('ce adapter_error, adapted) result) = Ok a"
    using from_workflow_Ok [of w] assms(2) d by blast
  let ?d = "adapted_definition a"
  have def: "workflow_graph ?d = step_graph w" "workflow_boundaries ?d = []" "workflow_contracts ?d = []"
    "workflow_capabilities ?d = [(Identifier JOB_EXECUTION, grant.Tool (Identifier ''capsulet/job-runner''))]"
    using a unfolding from_workflow_Ok by simp_all
  have "check_cycles (step_graph w) = Ok ()" by (rule check_cycles_complete) (use step_graph_acyclic [OF acyc] in blast)
  then have "graph_check (step_graph w) (workflow_capabilities ?d) (workflow_budget ?d) = Ok ()"
    using step_graph_nodes(1) [OF d] step_node_checked
    by (simp add: graph_check_def try_for_each_eq_Inr def(4))
       (simp add: step_graph_def check_regions_def regions_def edges_def check_branches_def branches_def bt_values_def)
  then have "admit digest_of ?d =
      (case digest_of ?d of
         Inl e \<Rightarrow> Err (admission_refusal_new SchemaInvalid (NoCanonicalEncoding e))
       | Inr dg \<Rightarrow> Ok \<lparr>admission_definition = dg, admission_rules = admission_codes\<rparr>)"
    by (simp add: admit_def def check_boundaries_def check_contracts_def split: sum.split)
  then show ?thesis using a by blast
qed

definition declared_pair :: workflow_definition where
  "declared_pair = workflow_with_dependencies ''w'' [] [] Enabled [example_step ''a'' 2, example_step ''b'' 1]
     [dependency_new ''a'' ''b'']"

lemma declared_pair_graph:
  obtains g where "workflow_graph_new (wd_id declared_pair) (wd_steps declared_pair) (wd_dependencies declared_pair) = Some (Ok g)"
  using workflow_graph_new_iff [of "wd_id declared_pair" "wd_steps declared_pair" "wd_dependencies declared_pair"] example_declared
  by (auto simp: declared_pair_def workflow_with_dependencies_def split: sum.splits) (metis sum.exhaust)

lemma declared_pair_legal: "legal_names declared_pair"
  by code_simp

theorem adapted_workflow_passes_admission_witness:
  "\<exists>a. (from_workflow declared_pair :: (unit adapter_error, adapted) result) = Ok a \<and>
     admit (\<lambda>_. Ok sample_digest :: (unit, digest) result) (adapted_definition a) =
       Ok \<lparr>admission_definition = sample_digest, admission_rules = admission_codes\<rparr> \<and>
     admit (\<lambda>_. Err () :: (unit, digest) result) (adapted_definition a) =
       Err (admission_refusal_new SchemaInvalid (NoCanonicalEncoding ()))"
proof -
  obtain g where g: "workflow_graph_new (wd_id declared_pair) (wd_steps declared_pair) (wd_dependencies declared_pair) = Some (Ok g)"
    by (rule declared_pair_graph)
  from adapted_workflow_passes_admission [OF g declared_pair_legal, where 'ce = unit and digest_of = "\<lambda>_. Ok sample_digest :: (unit, digest) result"]
    adapted_workflow_passes_admission [OF g declared_pair_legal, where 'ce = unit and digest_of = "\<lambda>_. Err () :: (unit, digest) result"]
  show ?thesis by auto
qed

text \<open>C26. The two schedulers agree: of a workflow whose dependencies are all hard, the decision core
  finds ready exactly the steps that the workflow scheduler finds ready, when both are told the same
  steps have started and succeeded.\<close>

theorem adapted_steps_ready_alike:
  assumes "workflow_graph_new (wd_id w) (wd_steps w) (wd_dependencies w) = Some (Ok g)" "from_workflow w = Ok a"
    and "list_all (\<lambda>dep. dep_policy dep = Hard) (wd_dependencies w)"
    and "\<And>i. i \<in> set begun \<longleftrightarrow> has_finished s (Identifier i) \<or> bt_contains (running s) (Identifier i)"
    and "\<And>i. map_of states i = Some WSucceeded \<longleftrightarrow> has_finished s (Identifier i)"
  shows "{node_id n |n. n \<in> set (nodes (workflow_graph (adapted_definition a))) \<and> node_is_ready (adapted_definition a) s n} =
         (\<lambda>step. Identifier (ws_id step)) ` set (ready_steps_with_policies g begun states)"
proof -
  have well: "well_declared (wd_id w) (wd_steps w) (wd_dependencies w)" and g: "graph_of (wd_steps w) (wd_dependencies w) g"
    using workflow_graph_new_iff [of "wd_id w" "wd_steps w" "wd_dependencies w"] assms(1) by auto
  have d: "distinct (map ws_id (wd_steps w))" using well by (simp add: well_declared_def)
  let ?d = "adapted_definition a"
  have graph: "workflow_graph ?d = step_graph w" using assms(2) unfolding from_workflow_Ok by simp
  have loops: "\<forall>r \<in> set (regions (workflow_graph ?d)). \<not> permits_cycles (region_kind r)"
    by (simp add: graph step_graph_def regions_def bt_values_def)
  let ?ready = "\<lambda>i. i \<notin> set begun \<and> (\<forall>dep \<in> set (wd_dependencies w). dep_to dep = i \<longrightarrow> map_of states (dep_from dep) = Some WSucceeded)"
  have distinct_ends: "dep_from dep \<noteq> dep_to dep" if "dep \<in> set (wd_dependencies w)" for dep
    using well that by (auto simp: well_declared_def list_all_iff)
  have preds: "set (predecessors_of (step_graph w) (Identifier i)) =
      {Identifier (dep_from dep) |dep. dep \<in> set (wd_dependencies w) \<and> dep_to dep = i}" for i
  proof (rule set_eqI)
    fix m show "m \<in> set (predecessors_of (step_graph w) (Identifier i)) \<longleftrightarrow>
        m \<in> {Identifier (dep_from dep) |dep. dep \<in> set (wd_dependencies w) \<and> dep_to dep = i}"
      using distinct_ends by (cases m) (auto simp: set_predecessors_of step_graph_feeds declared_edges_def)
  qed
  have left: "node_is_ready ?d s (step_node step) \<longleftrightarrow> ?ready (ws_id step)" for step
    using loop_free_settles [OF loops]
    by (auto simp: node_is_ready_def list_all_iff graph preds assms(4,5) step_node_def)
  have core: "(\<exists>n. n \<in> set (nodes (workflow_graph ?d)) \<and> node_is_ready ?d s n \<and> node_id n = x) \<longleftrightarrow>
      (\<exists>step \<in> set (wd_steps w). ?ready (ws_id step) \<and> x = Identifier (ws_id step))" for x
    unfolding graph step_graph_nodes(1) [OF d] using left by (auto simp: step_node_def)
  have scheduler: "(\<exists>step \<in> set (ready_steps_with_policies g begun states). x = Identifier (ws_id step)) \<longleftrightarrow>
      (\<exists>step \<in> set (wd_steps w). ?ready (ws_id step) \<and> x = Identifier (ws_id step))" for x
    using ready_steps_hard [OF g d assms(3)] by auto
  show ?thesis
  proof (rule set_eqI)
    fix x
    have "x \<in> {node_id n |n. n \<in> set (nodes (workflow_graph ?d)) \<and> node_is_ready ?d s n} \<longleftrightarrow>
        (\<exists>n. n \<in> set (nodes (workflow_graph ?d)) \<and> node_is_ready ?d s n \<and> node_id n = x)" by blast
    then show "x \<in> {node_id n |n. n \<in> set (nodes (workflow_graph ?d)) \<and> node_is_ready ?d s n} \<longleftrightarrow>
        x \<in> (\<lambda>step. Identifier (ws_id step)) ` set (ready_steps_with_policies g begun states)"
      unfolding image_iff core scheduler .
  qed
qed

theorem adapted_steps_ready_alike_witness:
  "\<exists>g a. workflow_graph_new (wd_id declared_pair) (wd_steps declared_pair) (wd_dependencies declared_pair) = Some (Ok g) \<and>
     (from_workflow declared_pair :: (unit adapter_error, adapted) result) = Ok a \<and>
     {node_id n |n. n \<in> set (nodes (workflow_graph (adapted_definition a))) \<and> node_is_ready (adapted_definition a) sample_running n} =
       (\<lambda>step. Identifier (ws_id step)) ` set (ready_steps_with_policies g [] [])"
proof -
  obtain g where g: "workflow_graph_new (wd_id declared_pair) (wd_steps declared_pair) (wd_dependencies declared_pair) = Some (Ok g)"
    by (rule declared_pair_graph)
  have "distinct (map ws_id (wd_steps declared_pair))"
    by (simp add: declared_pair_def workflow_with_dependencies_def example_step_def)
  then obtain a where a: "(from_workflow declared_pair :: (unit adapter_error, adapted) result) = Ok a"
    using from_workflow_Ok [of declared_pair] declared_pair_legal by blast
  have "{node_id n |n. n \<in> set (nodes (workflow_graph (adapted_definition a))) \<and> node_is_ready (adapted_definition a) sample_running n} =
      (\<lambda>step. Identifier (ws_id step)) ` set (ready_steps_with_policies g [] [])"
    by (rule adapted_steps_ready_alike [OF g a])
       (simp_all add: declared_pair_def workflow_with_dependencies_def dependency_new_def sample_running_def initial_state_def
          has_finished_def bt_contains_def)
  with g a show ?thesis by blast
qed

section \<open>Deadlines\<close>

text \<open>The budget of the definition is never below an hour.\<close>

theorem deadline_is_not_carried:
  assumes "from_workflow w = Ok a" "case wd_deadline w of None \<Rightarrow> True | Some n \<Rightarrow> uint n \<le> 3600"
  shows "wall_ms (workflow_budget (adapted_definition a)) = 3600000"
proof -
  have "to_millis n \<le> 3600000" if "uint n \<le> 3600" for n
  proof -
    have "uint (n * 1000) = uint n * 1000" using that by (simp add: uint_word_ariths)
    then show ?thesis using that by (simp add: to_millis_def word_le_def)
  qed
  then have "step_wall_ms (wd_deadline w) \<le> DEFAULT_STEP_MS"
    using assms(2) by (auto simp: step_wall_ms_def DEFAULT_STEP_MS_def split: option.splits)
  then show ?thesis
    using assms(1) unfolding from_workflow_Ok by (simp add: adapted_budget_def DEFAULT_STEP_MS_def max_absorb2)
qed

end
