(* ===== verification/Triggers.thy ===== *)
theory Triggers
  imports Workflow_Runs
begin

text \<open>
  Automations and what sets them off: condition trees (\<open>crates/core/src/domain/automation.rs\<close>), the
  store of automations and trigger graphs (\<open>crates/postgres/src/automations.rs\<close>), the durable queue
  of trigger events with its leases (\<open>crates/postgres/src/trigger_events.rs\<close>), its retention, and
  the scheduler's interval automations (\<open>crates/postgres/src/workflow_runs.rs\<close>).

  One record holds the tables these transactions share, the workflow runs among them. A transaction
  returns the state it commits, or an error, after which the state is the one before it; a constraint
  of \<open>migrations/\<close> that it breaks is such an error. Instants are in microseconds. A \<open>jsonb\<close> column
  holds the value of the text stored in it.
\<close>

section \<open>Names and kinds\<close>

definition trigger_name_new :: "string \<Rightarrow> (string, string) result" where
  "trigger_name_new v = (if trim v = [] then Err ''trigger name cannot be empty'' else Ok v)"

datatype trigger_kind = TManual | TSchedule | TSql | TWebhook | TCustom

fun trigger_kind_str :: "trigger_kind \<Rightarrow> string" where
  "trigger_kind_str TManual = ''manual''"
| "trigger_kind_str TSchedule = ''schedule''"
| "trigger_kind_str TSql = ''sql''"
| "trigger_kind_str TWebhook = ''webhook''"
| "trigger_kind_str TCustom = ''custom''"

definition trigger_kind_from_str :: "string \<Rightarrow> (parse_domain_value_error, trigger_kind) result" where
  "trigger_kind_from_str s =
     (if s = ''manual'' then Ok TManual
      else if s = ''schedule'' then Ok TSchedule
      else if s = ''sql'' then Ok TSql
      else if s = ''webhook'' then Ok TWebhook
      else if s = ''custom'' then Ok TCustom
      else Err (ParseDomainValueError ''trigger kind'' s))"

datatype automation_status = AutoEnabled | AutoDisabled

fun automation_status_str :: "automation_status \<Rightarrow> string" where
  "automation_status_str AutoEnabled = ''enabled''"
| "automation_status_str AutoDisabled = ''disabled''"

definition automation_status_from_str :: "string \<Rightarrow> (parse_domain_value_error, automation_status) result" where
  "automation_status_from_str s =
     (if s = ''enabled'' then Ok AutoEnabled
      else if s = ''disabled'' then Ok AutoDisabled
      else Err (ParseDomainValueError ''automation status'' s))"

section \<open>Conditions\<close>

datatype condition_expr =
    CondTrigger string
  | CondAll "condition_expr list"
  | CondAny "condition_expr list"

fun cond_evaluate :: "condition_expr \<Rightarrow> string set \<Rightarrow> bool" where
  "cond_evaluate (CondTrigger t) satisfied = (t \<in> satisfied)"
| "cond_evaluate (CondAll es) satisfied = list_all (\<lambda>e. cond_evaluate e satisfied) es"
| "cond_evaluate (CondAny es) satisfied = list_ex (\<lambda>e. cond_evaluate e satisfied) es"

fun cond_validate :: "condition_expr \<Rightarrow> (string, unit) result" where
  "cond_validate (CondTrigger t) = Ok ()"
| "cond_validate (CondAll es) =
     (if es = [] then Err ''condition groups cannot be empty'' else try_for_each cond_validate es)"
| "cond_validate (CondAny es) =
     (if es = [] then Err ''condition groups cannot be empty'' else try_for_each cond_validate es)"

fun validate_references :: "string set \<Rightarrow> condition_expr \<Rightarrow> (string, unit) result" where
  "validate_references names (CondTrigger t) =
     and_then (cond_validate (CondTrigger t)) (\<lambda>u.
       if t \<in> names then Ok () else Err (''condition references unknown trigger: '' @ t))"
| "validate_references names (CondAll es) =
     and_then (cond_validate (CondAll es)) (\<lambda>u. try_for_each (validate_references names) es)"
| "validate_references names (CondAny es) =
     and_then (cond_validate (CondAny es)) (\<lambda>u. try_for_each (validate_references names) es)"

text \<open>\<open>value.get(field).and_then(Value::as_array)\<close>, and the same for text and booleans.\<close>

definition array_field :: "json \<Rightarrow> string \<Rightarrow> json list option" where
  "array_field j field = Option.bind (json_get j field) json_array"

definition text_field :: "json \<Rightarrow> string \<Rightarrow> string option" where
  "text_field j field = Option.bind (json_get j field) json_str"

fun json_bool :: "json \<Rightarrow> bool option" where
  "json_bool (JsonBool b) = Some b"
| "json_bool j = None"

definition bool_field :: "json \<Rightarrow> string \<Rightarrow> bool option" where
  "bool_field j field = Option.bind (json_get j field) json_bool"

definition i64_field :: "json \<Rightarrow> string \<Rightarrow> int option" where
  "i64_field j field = Option.bind (json_get j field) json_i64"

lemma array_field_size: "array_field j field = Some js \<Longrightarrow> x \<in> set js \<Longrightarrow> size x < size j"
proof -
  assume "array_field j field = Some js" and x: "x \<in> set js"
  then obtain fs where j: "j = JsonObject fs" "map_of fs field = Some (JsonArray js)"
    by (cases j) (auto simp: array_field_def bind_eq_Some_conv elim!: json_array.elims)
  have "size x < size (JsonArray js)" using size_list_estimation' [OF x, of "size x" size] by simp
  also have "\<dots> \<le> size_list (size_prod (\<lambda>x. 0) size) fs"
    using size_list_estimation' [OF map_of_SomeD [OF j(2)], of "size (JsonArray js)" "size_prod (\<lambda>x. 0) size"] by simp
  finally show ?thesis by (simp add: j(1))
qed

section \<open>The tables\<close>

record automation =
  au_id :: string
  au_name :: string
  au_description :: string
  au_workflow :: string
  au_input :: string
  au_status :: automation_status

record automation_row =
  ar_automation :: automation
  ar_condition :: json
  ar_next_fire :: "int option"

record automation_trigger =
  at_automation :: string
  at_name :: string
  at_kind :: trigger_kind
  at_config :: json
  at_plugin :: "string option"
  at_enabled :: bool

record trigger_plugin =
  tp_id :: string
  tp_name :: string
  tp_description :: string
  tp_image :: string
  tp_command :: "string list"
  tp_schema :: json

datatype event_status = EvPending | EvLeased | EvEvaluated | EvFailed

record trigger_event =
  tev_id :: string
  tev_automation :: string
  tev_trigger :: string
  tev_correlation :: string
  tev_payload :: json
  tev_occurred :: int

record queued_row =
  te_event :: trigger_event
  te_idempotency :: string
  te_status :: event_status
  te_available :: int
  te_owner :: "string option"
  te_expires :: "int option"
  te_attempts :: int
  te_error :: "string option"
  te_updated :: int

text \<open>Cursors hold whole seconds: nothing else is written to them.\<close>

record cursor_row =
  cur_next :: int
  cur_last :: "int option"

record custom_row =
  cu_next_poll :: int
  cu_owner :: "string option"
  cu_expires :: "int option"
  cu_error :: "string option"

record runtime_row =
  rt_error :: "string option"
  rt_failures :: int
  rt_success :: "int option"

record trigger_state =
  tr_automations :: "(string, automation_row) btree_map"
  tr_triggers :: "(string, automation_trigger) btree_map"
  tr_plugins :: "(string, trigger_plugin) btree_map"
  tr_events :: "queued_row list"
  tr_evaluations :: "(string \<times> string, string) btree_map"
  tr_cursors :: "(string \<times> string, cursor_row) btree_map"
  tr_custom :: "(string \<times> string, custom_row) btree_map"
  tr_runtime :: "(string \<times> string, runtime_row) btree_map"
  tr_workflows :: wf_state

definition no_triggers :: "wf_state \<Rightarrow> trigger_state" where
  "no_triggers W =
     \<lparr>tr_automations = [], tr_triggers = [], tr_plugins = [], tr_events = [], tr_evaluations = [], tr_cursors = [],
      tr_custom = [], tr_runtime = [], tr_workflows = W\<rparr>"

section \<open>Automations and trigger graphs\<close>

definition row_to_automation :: "automation_row \<Rightarrow> (wf_store_error, automation) result" where
  "row_to_automation row =
     (let a = ar_automation row in
      and_then (persisted_id ''AutomationId'' (au_id a)) (\<lambda>i.
      and_then (persisted_id ''WorkflowId'' (au_workflow a)) (\<lambda>w. Ok a)))"

definition find_automation :: "string \<Rightarrow> trigger_state \<Rightarrow> (wf_store_error, automation option) result" where
  "find_automation i S =
     (case map_of (tr_automations S) i of
        None \<Rightarrow> Ok None
      | Some row \<Rightarrow> and_then (row_to_automation row) (\<lambda>a. Ok (Some a)))"

text \<open>The rows \<open>set_automation_status\<close> and \<open>replace_automation_triggers\<close> give a time to fire: the text of
  \<open>interval_seconds\<close> is all digits, and the number is positive. (A number beyond \<open>integer\<close>, at which
  the cast fails, is not modelled.)\<close>

definition interval_digits :: "automation_trigger \<Rightarrow> int option" where
  "interval_digits t =
     (case json_get (at_config t) ''interval_seconds'' of
        Some (JsonInt n) \<Rightarrow> if 0 \<le> n then Some n else None
      | Some (JsonText s) \<Rightarrow>
          if s \<noteq> [] \<and> list_all (\<lambda>c. 48 \<le> (of_char c :: nat) \<and> of_char c \<le> (57 :: nat)) s
          then Some (foldl (\<lambda>n c. n * 10 + int (of_char c) - 48) 0 s) else None
      | _ \<Rightarrow> None)"

definition interval_triggers :: "string \<Rightarrow> trigger_state \<Rightarrow> automation_trigger list" where
  "interval_triggers a S =
     filter (\<lambda>t. at_automation t = a \<and> at_kind t = TSchedule \<and> at_enabled t \<and>
                 (case interval_digits t of None \<Rightarrow> False | Some n \<Rightarrow> 0 < n))
            (bt_values (tr_triggers S))"

definition next_fire_for :: "int \<Rightarrow> automation_row \<Rightarrow> automation_status \<Rightarrow> trigger_state \<Rightarrow> int option" where
  "next_fire_for now row status S =
     (if status = AutoEnabled \<and> interval_triggers (au_id (ar_automation row)) S \<noteq> []
      then (case ar_next_fire row of Some t \<Rightarrow> Some t | None \<Rightarrow> Some now) else None)"

definition upsert_automation :: "automation \<Rightarrow> trigger_state \<Rightarrow> (wf_store_error, trigger_state) result" where
  "upsert_automation a S =
     (if wf_definitions (tr_workflows S) (au_workflow a) = None then Err WDatabase
      else Ok (S\<lparr>tr_automations := bt_insert (au_id a)
        (case map_of (tr_automations S) (au_id a) of
           None \<Rightarrow> \<lparr>ar_automation = a, ar_condition = JsonObject [], ar_next_fire = None\<rparr>
         | Some row \<Rightarrow> row\<lparr>ar_automation := a\<rparr>) (tr_automations S)\<rparr>))"

definition set_automation_status ::
  "int \<Rightarrow> string \<Rightarrow> automation_status \<Rightarrow> trigger_state \<Rightarrow> (wf_store_error, automation option) result \<times> trigger_state" where
  "set_automation_status now i status S =
     (case map_of (tr_automations S) i of
        None \<Rightarrow> (Ok None, S)
      | Some row \<Rightarrow>
          (let row' = row\<lparr>ar_automation := (ar_automation row)\<lparr>au_status := status\<rparr>,
                          ar_next_fire := next_fire_for now row status S\<rparr> in
           (and_then (row_to_automation row') (\<lambda>a. Ok (Some a)),
            S\<lparr>tr_automations := bt_insert i row' (tr_automations S)\<rparr>)))"

text \<open>Deleting a row deletes the rows that refer to it with \<open>ON DELETE CASCADE\<close>.\<close>

definition without_trigger_rows :: "string \<Rightarrow> trigger_state \<Rightarrow> trigger_state" where
  "without_trigger_rows a S =
     S\<lparr>tr_triggers := filter (\<lambda>(i, t). at_automation t \<noteq> a) (tr_triggers S),
       tr_custom := filter (\<lambda>((b, n), r). b \<noteq> a) (tr_custom S),
       tr_runtime := filter (\<lambda>((b, n), r). b \<noteq> a) (tr_runtime S)\<rparr>"

definition delete_automation :: "string \<Rightarrow> trigger_state \<Rightarrow> bool \<times> trigger_state" where
  "delete_automation a S =
     (let W = tr_workflows S;
          S' = (without_trigger_rows a S)
            \<lparr>tr_automations := bt_remove a (tr_automations S),
             tr_events := filter (\<lambda>row. tev_automation (te_event row) \<noteq> a) (tr_events S),
             tr_evaluations := filter (\<lambda>((b, k), r). b \<noteq> a) (tr_evaluations S),
             tr_cursors := filter (\<lambda>((b, n), r). b \<noteq> a) (tr_cursors S),
             tr_workflows := W\<lparr>wf_runs := map (\<lambda>(i, run). (i, if wr_automation run = Some a
                                                  then run\<lparr>wr_automation := None\<rparr> else run)) (wf_runs W)\<rparr>\<rparr> in
      (bt_contains (tr_automations S) a, S'))"

definition trigger_row_id :: "string \<Rightarrow> string \<Rightarrow> string" where
  "trigger_row_id a name = a @ ''_'' @ name"

definition insert_trigger :: "string \<Rightarrow> trigger_state \<Rightarrow> automation_trigger \<Rightarrow> (wf_store_error, trigger_state) result" where
  "insert_trigger a S t =
     (let i = trigger_row_id a (at_name t) in
      if \<not> bt_contains (tr_automations S) a \<or> bt_contains (tr_triggers S) i \<or>
         list_ex (\<lambda>u. at_automation u = a \<and> at_name u = at_name t) (bt_values (tr_triggers S)) \<or>
         (case at_plugin t of None \<Rightarrow> False | Some p \<Rightarrow> \<not> bt_contains (tr_plugins S) p)
      then Err WDatabase
      else Ok (S\<lparr>tr_triggers := bt_insert i (t\<lparr>at_automation := a\<rparr>) (tr_triggers S)\<rparr>))"

definition replace_automation_triggers ::
  "int \<Rightarrow> string \<Rightarrow> automation_trigger list \<Rightarrow> json \<Rightarrow> trigger_state \<Rightarrow> (wf_store_error, trigger_state) result" where
  "replace_automation_triggers now a triggers condition S =
     and_then (try_fold (insert_trigger a) (without_trigger_rows a S) triggers) (\<lambda>S'.
       case map_of (tr_automations S') a of
         None \<Rightarrow> Ok S'
       | Some row \<Rightarrow>
           Ok (S'\<lparr>tr_automations := bt_insert a
             (row\<lparr>ar_condition := condition,
                  ar_next_fire := next_fire_for now row (au_status (ar_automation row)) S'\<rparr>) (tr_automations S')\<rparr>))"

definition row_to_automation_trigger :: "automation_trigger \<Rightarrow> (wf_store_error, automation_trigger) result" where
  "row_to_automation_trigger t =
     and_then (persisted_id ''AutomationId'' (at_automation t)) (\<lambda>a.
     and_then (map_err WInvalidPersistedValue (trigger_name_new (at_name t))) (\<lambda>n. Ok t))"

definition list_automation_triggers ::
  "string \<Rightarrow> trigger_state \<Rightarrow> (wf_store_error, automation_trigger list \<times> json) result" where
  "list_automation_triggers a S =
     and_then (try_map row_to_automation_trigger
                 (sort_key at_name (filter (\<lambda>t. at_automation t = a) (bt_values (tr_triggers S))))) (\<lambda>ts.
       Ok (ts, case map_of (tr_automations S) a of None \<Rightarrow> JsonObject [] | Some row \<Rightarrow> ar_condition row))"

definition upsert_custom_trigger_plugin :: "trigger_plugin \<Rightarrow> trigger_state \<Rightarrow> trigger_state" where
  "upsert_custom_trigger_plugin p S = S\<lparr>tr_plugins := bt_insert (tp_id p) p (tr_plugins S)\<rparr>"

definition find_custom_trigger_plugin :: "string \<Rightarrow> trigger_state \<Rightarrow> trigger_plugin option" where
  "find_custom_trigger_plugin i S = map_of (tr_plugins S) i"

section \<open>The queue of trigger events\<close>

abbreviation group_of :: "queued_row \<Rightarrow> string \<times> string" where
  "group_of row \<equiv> (tev_automation (te_event row), tev_correlation (te_event row))"

abbreviation delivery_of :: "queued_row \<Rightarrow> string \<times> string \<times> string" where
  "delivery_of row \<equiv> (tev_automation (te_event row), tev_trigger (te_event row), te_idempotency row)"

abbreviation row_event_id :: "queued_row \<Rightarrow> string" where
  "row_event_id row \<equiv> tev_id (te_event row)"

definition enqueue_trigger_event ::
  "int \<Rightarrow> trigger_event \<Rightarrow> string \<Rightarrow> trigger_state \<Rightarrow> (wf_store_error, bool \<times> trigger_state) result" where
  "enqueue_trigger_event now ev key S =
     (if list_ex (\<lambda>row. delivery_of row = (tev_automation ev, tev_trigger ev, key)) (tr_events S) then Ok (False, S)
      else if list_ex (\<lambda>row. row_event_id row = tev_id ev) (tr_events S) \<or>
              \<not> bt_contains (tr_automations S) (tev_automation ev) then Err WDatabase
      else Ok (True, S\<lparr>tr_events := tr_events S @
        [\<lparr>te_event = ev, te_idempotency = key, te_status = EvPending, te_available = now, te_owner = None,
          te_expires = None, te_attempts = 0, te_error = None, te_updated = now\<rparr>]\<rparr>))"

definition claimable :: "int \<Rightarrow> queued_row \<Rightarrow> bool" where
  "claimable now row = (te_status row = EvPending \<or> te_status row = EvLeased \<and> due now (te_expires row))"

definition in_order :: "queued_row list \<Rightarrow> queued_row list" where
  "in_order rows = sort_key (\<lambda>row. (tev_occurred (te_event row), row_event_id row)) rows"

definition lease_event :: "int \<Rightarrow> string \<Rightarrow> int \<Rightarrow> queued_row \<Rightarrow> queued_row" where
  "lease_event now owner lease_seconds row =
     row\<lparr>te_status := EvLeased, te_owner := Some owner, te_expires := Some (now + seconds lease_seconds),
         te_attempts := te_attempts row + 1, te_updated := now\<rparr>"

definition modify_events :: "(queued_row \<Rightarrow> bool) \<Rightarrow> (queued_row \<Rightarrow> queued_row) \<Rightarrow> trigger_state \<Rightarrow> trigger_state" where
  "modify_events p f S = S\<lparr>tr_events := map (\<lambda>row. if p row then f row else row) (tr_events S)\<rparr>"

text \<open>The candidate alone is leased, but all events of its group that have not failed are read.
  \<open>held\<close> tells the rows another transaction has locked, which \<open>SKIP LOCKED\<close> passes over.\<close>

definition group_events :: "string \<times> string \<Rightarrow> trigger_state \<Rightarrow> trigger_event list" where
  "group_events g S = map te_event (in_order (filter (\<lambda>row. group_of row = g \<and> te_status row \<noteq> EvFailed) (tr_events S)))"

definition lease_candidate :: "int \<Rightarrow> (string \<Rightarrow> bool) \<Rightarrow> trigger_state \<Rightarrow> queued_row option" where
  "lease_candidate now held S =
     first (in_order (filter (\<lambda>row. te_available row \<le> now \<and> claimable now row \<and> \<not> held (row_event_id row)) (tr_events S)))"

definition lease_trigger_group ::
  "int \<Rightarrow> (string \<Rightarrow> bool) \<Rightarrow> string \<Rightarrow> int \<Rightarrow> trigger_state \<Rightarrow> trigger_event list \<times> trigger_state" where
  "lease_trigger_group now held owner lease_seconds S =
     (case lease_candidate now held S of
        None \<Rightarrow> ([], S)
      | Some c \<Rightarrow>
          (let S' = modify_events (\<lambda>row. row_event_id row = row_event_id c \<and> claimable now row)
                      (lease_event now owner lease_seconds) S in
           (group_events (group_of c) S', S')))"

definition leased_by :: "string \<Rightarrow> string \<times> string \<Rightarrow> queued_row \<Rightarrow> bool" where
  "leased_by owner g row = (group_of row = g \<and> te_status row = EvLeased \<and> te_owner row = Some owner)"

text \<open>The run is inserted unless the group has one or a run bears its id; the run refers to an
  automation and a workflow that exist.\<close>

definition create_group_run ::
  "int \<Rightarrow> string \<times> string \<Rightarrow> string \<Rightarrow> string \<Rightarrow> string \<Rightarrow> trigger_state \<Rightarrow> (wf_store_error, bool \<times> trigger_state) result" where
  "create_group_run now g wid r input S =
     (let W = tr_workflows S; (snapshot, deadline) = workflow_run_snapshot wid W in
      if bt_contains (tr_evaluations S) g \<or> bt_contains (wf_runs W) r then Ok (False, S)
      else if wf_definitions W wid = None \<or> \<not> bt_contains (tr_automations S) (fst g) then Err WDatabase
      else Ok (True, S\<lparr>tr_workflows := W\<lparr>wf_runs := bt_insert r
             \<lparr>wr_workflow = wid, wr_automation = Some (fst g), wr_input = input, wr_status = WQueued, wr_position = 0,
              wr_snapshot = snapshot, wr_deadline = deadline_after now deadline, wr_created = now,
              wr_finished = None\<rparr> (wf_runs W)\<rparr>,
           tr_evaluations := bt_insert g r (tr_evaluations S)\<rparr>))"

definition complete_trigger_group ::
  "int \<Rightarrow> string \<Rightarrow> string \<times> string \<Rightarrow> string \<Rightarrow> string \<Rightarrow> string \<Rightarrow> bool \<Rightarrow> trigger_state
   \<Rightarrow> (wf_store_error, bool \<times> trigger_state) result" where
  "complete_trigger_group now owner g wid r input satisfied S =
     and_then (if satisfied then create_group_run now g wid r input S else Ok (False, S)) (\<lambda>(created, S').
       Ok (created, modify_events (leased_by owner g)
             (\<lambda>row. row\<lparr>te_status := EvEvaluated, te_owner := None, te_expires := None, te_updated := now\<rparr>) S'))"

definition retry_trigger_group ::
  "int \<Rightarrow> string \<Rightarrow> string \<times> string \<Rightarrow> string \<Rightarrow> int \<Rightarrow> int \<Rightarrow> trigger_state \<Rightarrow> trigger_state" where
  "retry_trigger_group now owner g error retry_seconds max_attempts S =
     modify_events (leased_by owner g)
       (\<lambda>row. row\<lparr>te_status := (if te_attempts row \<ge> max_attempts then EvFailed else EvPending),
                  te_available := now + seconds retry_seconds, te_owner := None, te_expires := None,
                  te_error := Some error, te_updated := now\<rparr>) S"

definition days :: "int \<Rightarrow> int" where
  "days n = seconds (n * 86400)"

definition cleanup_old_trigger_events :: "int \<Rightarrow> int \<Rightarrow> trigger_state \<Rightarrow> nat \<times> trigger_state" where
  "cleanup_old_trigger_events now retention_days S =
     (let old = (\<lambda>row. te_status row \<in> {EvEvaluated, EvFailed} \<and> te_updated row < now - days retention_days) in
      (length (filter old (tr_events S)), S\<lparr>tr_events := filter (\<lambda>row. \<not> old row) (tr_events S)\<rparr>))"

section \<open>Schedule cursors\<close>

record schedule_trigger =
  st_automation :: string
  st_name :: string
  st_config :: json

definition automation_enabled :: "string \<Rightarrow> trigger_state \<Rightarrow> bool" where
  "automation_enabled a S =
     (case map_of (tr_automations S) a of None \<Rightarrow> False | Some row \<Rightarrow> au_status (ar_automation row) = AutoEnabled)"

definition list_runtime_triggers :: "trigger_kind \<Rightarrow> trigger_state \<Rightarrow> schedule_trigger list" where
  "list_runtime_triggers kind S =
     map (\<lambda>t. \<lparr>st_automation = at_automation t, st_name = at_name t, st_config = at_config t\<rparr>)
       (sort_key (\<lambda>t. (at_automation t, at_name t))
         (filter (\<lambda>t. at_kind t = kind \<and> at_enabled t \<and> automation_enabled (at_automation t) S) (bt_values (tr_triggers S))))"

definition get_or_init_schedule_cursor ::
  "string \<Rightarrow> string \<Rightarrow> int \<Rightarrow> trigger_state \<Rightarrow> (wf_store_error, int \<times> trigger_state) result" where
  "get_or_init_schedule_cursor a n initial S =
     (case map_of (tr_cursors S) (a, n) of
        Some cur \<Rightarrow> Ok (cur_next cur, S)
      | None \<Rightarrow>
          if bt_contains (tr_automations S) a
          then Ok (initial, S\<lparr>tr_cursors := bt_insert (a, n) \<lparr>cur_next = initial, cur_last = None\<rparr> (tr_cursors S)\<rparr>)
          else Err WDatabase)"

definition schedule_event :: "string \<Rightarrow> string \<Rightarrow> int \<Rightarrow> trigger_event" where
  "schedule_event a n due_epoch =
     \<lparr>tev_id = ''evt_'' @ a @ ''_'' @ n @ ''_'' @ fmt_int due_epoch, tev_automation = a, tev_trigger = n,
      tev_correlation = fmt_int due_epoch, tev_payload = JsonObject [(''scheduled_at'', JsonInt due_epoch)],
      tev_occurred = seconds due_epoch\<rparr>"

definition schedule_delivery :: "int \<Rightarrow> string" where
  "schedule_delivery due_epoch = ''schedule-'' @ fmt_int due_epoch"

text \<open>The cursor is compared and advanced in one statement; its event is inserted in the same
  transaction.\<close>

definition fire_due_schedule ::
  "int \<Rightarrow> schedule_trigger \<Rightarrow> int \<Rightarrow> int \<Rightarrow> trigger_state \<Rightarrow> (wf_store_error, bool \<times> trigger_state) result" where
  "fire_due_schedule now t due_epoch next_epoch S =
     (let k = (st_automation t, st_name t) in
      case map_of (tr_cursors S) k of
        None \<Rightarrow> Ok (False, S)
      | Some cur \<Rightarrow>
          if cur_next cur = due_epoch \<and> seconds (cur_next cur) \<le> now then
            and_then (enqueue_trigger_event now (schedule_event (fst k) (snd k) due_epoch) (schedule_delivery due_epoch)
              (S\<lparr>tr_cursors := bt_insert k \<lparr>cur_next = next_epoch, cur_last = Some (cur_next cur)\<rparr> (tr_cursors S)\<rparr>))
              (\<lambda>(inserted, S'). Ok (True, S'))
          else Ok (False, S))"

section \<open>Custom triggers and the state of pollers\<close>

record custom_runtime_trigger =
  ct_automation :: string
  ct_name :: string
  ct_config :: json
  ct_image :: string
  ct_command :: "string list"
  ct_epoch :: int

definition find_trigger :: "string \<times> string \<Rightarrow> trigger_state \<Rightarrow> automation_trigger option" where
  "find_trigger k S = find (\<lambda>t. (at_automation t, at_name t) = k) (bt_values (tr_triggers S))"

definition init_custom_runtime :: "int \<Rightarrow> trigger_state \<Rightarrow> trigger_state" where
  "init_custom_runtime now S =
     S\<lparr>tr_custom := fold (\<lambda>t rows. let k = (at_automation t, at_name t) in
           if bt_contains rows k then rows
           else bt_insert k \<lparr>cu_next_poll = now, cu_owner = None, cu_expires = None, cu_error = None\<rparr> rows)
         (filter (\<lambda>t. at_kind t = TCustom \<and> at_enabled t \<and> automation_enabled (at_automation t) S) (bt_values (tr_triggers S)))
         (tr_custom S)\<rparr>"

definition pollable :: "int \<Rightarrow> trigger_state \<Rightarrow> (string \<times> string) \<times> custom_row \<Rightarrow> bool" where
  "pollable now S = (\<lambda>(k, row).
     cu_next_poll row \<le> now \<and> (cu_owner row = None \<or> due now (cu_expires row)) \<and>
     (case find_trigger k S of None \<Rightarrow> False | Some t \<Rightarrow> at_enabled t) \<and> automation_enabled (fst k) S)"

text \<open>\<open>extract(epoch FROM t)::bigint\<close> rounds to the nearest second.\<close>

definition epoch_bigint :: "int \<Rightarrow> int" where
  "epoch_bigint t = (if 0 \<le> t then (t + 500000) div 1000000 else - ((500000 - t) div 1000000))"

text \<open>A row whose trigger names no plugin is leased all the same, and nothing is returned for it.\<close>

definition claim_custom_trigger ::
  "int \<Rightarrow> (string \<times> string \<Rightarrow> bool) \<Rightarrow> string \<Rightarrow> int \<Rightarrow> trigger_state \<Rightarrow> custom_runtime_trigger option \<times> trigger_state" where
  "claim_custom_trigger now held owner lease_seconds S =
     (let S1 = init_custom_runtime now S in
      case first (sort_key (\<lambda>(k, row). (cu_next_poll row, k)) (filter (\<lambda>x. pollable now S1 x \<and> \<not> held (fst x)) (tr_custom S1))) of
        None \<Rightarrow> (None, S1)
      | Some (k, row) \<Rightarrow>
          (Option.bind (find_trigger k S1) (\<lambda>t. Option.bind (at_plugin t) (\<lambda>p. map_option (\<lambda>plugin.
              \<lparr>ct_automation = fst k, ct_name = snd k, ct_config = at_config t, ct_image = tp_image plugin,
               ct_command = tp_command plugin, ct_epoch = epoch_bigint (cu_next_poll row)\<rparr>) (find_custom_trigger_plugin p S1))),
           S1\<lparr>tr_custom := bt_insert k (row\<lparr>cu_owner := Some owner, cu_expires := Some (now + seconds lease_seconds)\<rparr>)
                (tr_custom S1)\<rparr>))"

definition release_custom :: "int \<Rightarrow> string \<Rightarrow> string \<times> string \<Rightarrow> int \<Rightarrow> string option \<Rightarrow> trigger_state \<Rightarrow> trigger_state" where
  "release_custom now owner k poll error S =
     (case map_of (tr_custom S) k of
        None \<Rightarrow> S
      | Some row \<Rightarrow>
          if cu_owner row = Some owner
          then S\<lparr>tr_custom := bt_insert k
                  \<lparr>cu_next_poll = now + seconds (max poll 1), cu_owner = None, cu_expires = None, cu_error = error\<rparr> (tr_custom S)\<rparr>
          else S)"

definition complete_custom_trigger ::
  "int \<Rightarrow> string \<Rightarrow> custom_runtime_trigger \<Rightarrow> int \<Rightarrow> trigger_event option \<Rightarrow> string \<Rightarrow> trigger_state
   \<Rightarrow> (wf_store_error, bool \<times> trigger_state) result" where
  "complete_custom_trigger now owner t poll event key S =
     and_then (case event of None \<Rightarrow> Ok (False, S) | Some ev \<Rightarrow> enqueue_trigger_event now ev key S) (\<lambda>(inserted, S').
       Ok (inserted, release_custom now owner (ct_automation t, ct_name t) poll None S'))"

definition fail_custom_trigger :: "int \<Rightarrow> string \<Rightarrow> custom_runtime_trigger \<Rightarrow> string \<Rightarrow> int \<Rightarrow> trigger_state \<Rightarrow> trigger_state" where
  "fail_custom_trigger now owner t error retry S =
     release_custom now owner (ct_automation t, ct_name t) retry (Some error) S"

text \<open>The runtime state refers to a trigger that exists.\<close>

definition record_trigger_runtime_success ::
  "int \<Rightarrow> string \<times> string \<Rightarrow> trigger_state \<Rightarrow> (wf_store_error, trigger_state) result" where
  "record_trigger_runtime_success now k S =
     (if find_trigger k S = None then Err WDatabase
      else Ok (S\<lparr>tr_runtime := bt_insert k \<lparr>rt_error = None, rt_failures = 0, rt_success = Some now\<rparr> (tr_runtime S)\<rparr>))"

definition record_trigger_runtime_failure ::
  "string \<times> string \<Rightarrow> string \<Rightarrow> trigger_state \<Rightarrow> (wf_store_error, trigger_state) result" where
  "record_trigger_runtime_failure k error S =
     (if find_trigger k S = None then Err WDatabase
      else Ok (S\<lparr>tr_runtime := bt_insert k
        (case map_of (tr_runtime S) k of
           None \<Rightarrow> \<lparr>rt_error = Some error, rt_failures = 1, rt_success = None\<rparr>
         | Some row \<Rightarrow> row\<lparr>rt_error := Some error, rt_failures := rt_failures row + 1\<rparr>) (tr_runtime S)\<rparr>))"

section \<open>Interval automations\<close>

text \<open>The scheduler first reads the automations that are due, one interval for each, and then starts
  each in a transaction of its own.\<close>

definition due_interval_automations :: "int \<Rightarrow> trigger_state \<Rightarrow> (string \<times> string \<times> int) list" where
  "due_interval_automations now S =
     take 25 (filter_map (\<lambda>(a, row).
         if au_status (ar_automation row) = AutoEnabled \<and> due now (ar_next_fire row)
         then map_option (\<lambda>n. (a, au_workflow (ar_automation row), n))
                (Option.bind (first (interval_triggers a S)) interval_digits)
         else None) (tr_automations S))"

definition fire_interval :: "int \<Rightarrow> string \<times> string \<times> int \<Rightarrow> string \<Rightarrow> trigger_state \<Rightarrow> (wf_store_error, trigger_state) result" where
  "fire_interval now = (\<lambda>(a, wid, interval) r S.
     let W = tr_workflows S; (snapshot, deadline) = workflow_run_snapshot wid W in
     if bt_contains (wf_runs W) r \<or> wf_definitions W wid = None \<or> \<not> bt_contains (tr_automations S) a then Err WDatabase
     else Ok (S\<lparr>tr_workflows := W\<lparr>wf_runs := bt_insert r
            \<lparr>wr_workflow = wid, wr_automation = Some a, wr_input = ''{}'', wr_status = WQueued, wr_position = 0,
             wr_snapshot = snapshot, wr_deadline = deadline_after now deadline, wr_created = now, wr_finished = None\<rparr>
            (wf_runs W)\<rparr>,
          tr_automations := bt_modify a (\<lambda>row. row\<lparr>ar_next_fire := Some (now + seconds interval)\<rparr>) (tr_automations S)\<rparr>))"

fun fire_intervals ::
  "int \<Rightarrow> (nat \<Rightarrow> string) \<Rightarrow> nat \<Rightarrow> (string \<times> string \<times> int) list \<Rightarrow> trigger_state \<Rightarrow> (wf_store_error, nat) result \<times> trigger_state" where
  "fire_intervals now ids n [] S = (Ok n, S)"
| "fire_intervals now ids n (d # ds) S =
     (case fire_interval now d (ids n) S of
        Inl e \<Rightarrow> (Err e, S)
      | Inr S' \<Rightarrow> fire_intervals now ids (Suc n) ds S')"

definition trigger_due_interval_automations ::
  "int \<Rightarrow> (nat \<Rightarrow> string) \<Rightarrow> trigger_state \<Rightarrow> (wf_store_error, nat) result \<times> trigger_state" where
  "trigger_due_interval_automations now ids S = fire_intervals now ids 0 (due_interval_automations now S) S"

end
