(* ===== verification/Trigger_Evaluator.thy ===== *)
theory Trigger_Evaluator
  imports Triggers Wire_Text
begin

text \<open>
  The trigger evaluator (\<open>crates/evaluator/src\<close>): production of events from schedules, SQL polls and
  custom plugins, evaluation of a correlation group against its automation's condition, and the tick
  that composes them.

  Outside the repository, and so arguments: the calendar (the \<open>cron\<close>, \<open>chrono\<close> and \<open>chrono-tz\<close>
  crates), SHA-256, the databases SQL triggers poll, the runner of plugin images and the parser of
  JSON text. A tick reads one clock.
\<close>

section \<open>Errors and identities\<close>

datatype evaluator_error =
    EvStore wf_store_error
  | EvEmptyGroup
  | EvMixedGroup
  | EvAutomationNotFound string
  | EvInvalidDefinition string
  | EvInvalidJson
  | EvClock string

text \<open>The calendar: \<open>cal_parse\<close> reads a cron expression, whose value gives the first occurrence after an
  instant, in seconds, in a time zone; \<open>cal_instant\<close> tells the seconds \<open>timestamp_opt\<close> accepts.\<close>

record cron_calendar =
  cal_zone :: "string \<Rightarrow> bool"
  cal_parse :: "string \<Rightarrow> (string, string \<Rightarrow> int \<Rightarrow> int option) result"
  cal_instant :: "int \<Rightarrow> bool"

text \<open>\<open>ex_databases\<close> gives, for a configured connection, the answer of a read-only query; \<open>ex_plugin\<close>
  the outcome and the logs of a plugin's run; \<open>ex_message\<close> the text of an error of the database driver
  or of the JSON parser.\<close>

record externals =
  ex_calendar :: cron_calendar
  ex_sha :: "string \<Rightarrow> u8 list"
  ex_databases :: "string \<Rightarrow> (string \<Rightarrow> (wf_store_error, bool) result) option"
  ex_plugin :: "custom_runtime_trigger \<Rightarrow> (evaluator_error, string \<times> string option) result"
  ex_json :: "string \<Rightarrow> json option"
  ex_message :: "evaluator_error \<Rightarrow> string"

definition evaluator_message :: "externals \<Rightarrow> evaluator_error \<Rightarrow> string" where
  "evaluator_message E e =
     (case e of
        EvStore s \<Rightarrow> ex_message E e
      | EvEmptyGroup \<Rightarrow> ''trigger event group is empty''
      | EvMixedGroup \<Rightarrow> ''leased trigger events do not share one automation and correlation key''
      | EvAutomationNotFound a \<Rightarrow> ''automation not found: '' @ a
      | EvInvalidDefinition m \<Rightarrow> ''invalid automation trigger definition: '' @ m
      | EvInvalidJson \<Rightarrow> ''invalid condition JSON: '' @ ex_message E e
      | EvClock m \<Rightarrow> ''system clock error: '' @ m)"

text \<open>The first twelve bytes of a SHA-256 digest in hexadecimal.\<close>

definition short_digest :: "(string \<Rightarrow> u8 list) \<Rightarrow> string \<Rightarrow> string" where
  "short_digest sha v = map char_of (concat (map fmt_hex (take 12 (sha v))))"

definition nul :: string where
  "nul = [CHR 0x00]"

definition deterministic_run_id :: "(string \<Rightarrow> u8 list) \<Rightarrow> string \<Rightarrow> string \<Rightarrow> string" where
  "deterministic_run_id sha a k = ''trigger_'' @ short_digest sha (a @ nul @ k)"

definition deterministic_event_id :: "(string \<Rightarrow> u8 list) \<Rightarrow> string \<Rightarrow> string \<Rightarrow> string \<Rightarrow> string" where
  "deterministic_event_id sha a n delivery = ''evt_'' @ short_digest sha (a @ nul @ n @ nul @ delivery)"

section \<open>Conditions\<close>

definition valid_condition :: "condition_expr \<Rightarrow> (evaluator_error, condition_expr) result" where
  "valid_condition e = and_then (map_err EvInvalidDefinition (cond_validate e)) (\<lambda>u. Ok e)"

function condition_from_json :: "json \<Rightarrow> (evaluator_error, condition_expr) result" where
  "condition_from_json j =
     (case text_field j ''trigger'' of
        Some t \<Rightarrow> and_then (map_err EvInvalidDefinition (trigger_name_new t)) (\<lambda>n. Ok (CondTrigger n))
      | None \<Rightarrow>
          (case array_field j ''all'' of
             Some js \<Rightarrow> and_then (try_map condition_from_json js) (\<lambda>es. valid_condition (CondAll es))
           | None \<Rightarrow>
               (case array_field j ''any'' of
                  Some js \<Rightarrow> and_then (try_map condition_from_json js) (\<lambda>es. valid_condition (CondAny es))
                | None \<Rightarrow> Err (EvInvalidDefinition ''condition must contain trigger, all, or any''))))"
  by pat_completeness auto
termination
  by (relation "measure size") (auto dest: array_field_size)

declare condition_from_json.simps [simp del]

section \<open>Schedules\<close>

definition read_schedule :: "cron_calendar \<Rightarrow> json \<Rightarrow> (evaluator_error, int \<Rightarrow> int option) result" where
  "read_schedule cal config =
     (case text_field config ''cron'' of
        None \<Rightarrow> Err (EvInvalidDefinition ''schedule trigger requires cron'')
      | Some expression \<Rightarrow>
          (let zone = (case text_field config ''timezone'' of None \<Rightarrow> ''UTC'' | Some z \<Rightarrow> z) in
           if \<not> cal_zone cal zone then Err (EvInvalidDefinition (''unknown schedule timezone: '' @ zone))
           else case cal_parse cal expression of
             Inl m \<Rightarrow> Err (EvInvalidDefinition (''invalid cron expression: '' @ m))
           | Inr after \<Rightarrow> Ok (after zone)))"

definition produce_schedule ::
  "externals \<Rightarrow> int \<Rightarrow> schedule_trigger \<Rightarrow> trigger_state \<Rightarrow> (evaluator_error, bool) result \<times> trigger_state" where
  "produce_schedule E now t S =
     (case read_schedule (ex_calendar E) (st_config t) of
        Inl e \<Rightarrow> (Err e, S)
      | Inr after \<Rightarrow>
          (case after now of
             None \<Rightarrow> (Err (EvInvalidDefinition ''cron expression has no future occurrence''), S)
           | Some initial \<Rightarrow>
               (case get_or_init_schedule_cursor (st_automation t) (st_name t) initial S of
                  Inl e \<Rightarrow> (Err (EvStore e), S)
                | Inr (due_epoch, S1) \<Rightarrow>
                    if due_epoch > now div 1000000 then (Ok False, S1)
                    else if \<not> cal_instant (ex_calendar E) due_epoch then (Err (EvInvalidDefinition ''invalid schedule cursor''), S1)
                    else case after (seconds due_epoch) of
                      None \<Rightarrow> (Err (EvInvalidDefinition ''cron expression has no next occurrence''), S1)
                    | Some next_epoch \<Rightarrow>
                        (case fire_due_schedule now t due_epoch next_epoch S1 of
                           Inl e \<Rightarrow> (Err (EvStore e), S1)
                         | Inr (fired, S2) \<Rightarrow> (Ok fired, S2)))))"

text \<open>The loop over the triggers of one kind: the outcome of each is recorded, and only a failure to
  record it ends the loop.\<close>

fun poll_triggers ::
  "externals \<Rightarrow> (schedule_trigger \<Rightarrow> trigger_state \<Rightarrow> (evaluator_error, bool) result \<times> trigger_state)
   \<Rightarrow> int \<Rightarrow> nat \<Rightarrow> schedule_trigger list \<Rightarrow> trigger_state \<Rightarrow> (evaluator_error, nat) result \<times> trigger_state" where
  "poll_triggers E produce now n [] S = (Ok n, S)"
| "poll_triggers E produce now n (t # ts) S =
     (let k = (st_automation t, st_name t); (outcome, S1) = produce t S in
      case (case outcome of
              Inr b \<Rightarrow> record_trigger_runtime_success now k S1
            | Inl e \<Rightarrow> record_trigger_runtime_failure k (evaluator_message E e) S1) of
        Inl e \<Rightarrow> (Err (EvStore e), S1)
      | Inr S2 \<Rightarrow> poll_triggers E produce now (case outcome of Inr True \<Rightarrow> Suc n | _ \<Rightarrow> n) ts S2)"

definition produce_due_schedules ::
  "externals \<Rightarrow> int \<Rightarrow> trigger_state \<Rightarrow> (evaluator_error, nat) result \<times> trigger_state" where
  "produce_due_schedules E now S =
     poll_triggers E (produce_schedule E now) now 0 (list_runtime_triggers TSchedule S) S"

section \<open>SQL polls\<close>

definition ascii_lowercase :: "char \<Rightarrow> char" where
  "ascii_lowercase c = (if 65 \<le> (of_char c :: nat) \<and> of_char c \<le> (90 :: nat) then char_of (of_char c + 32 :: nat) else c)"

definition trim_end_char :: "char \<Rightarrow> string \<Rightarrow> string" where
  "trim_end_char c s = rev (dropWhile (\<lambda>x. x = c) (rev s))"

definition str_starts_with :: "string \<Rightarrow> string \<Rightarrow> bool" where
  "str_starts_with p s = (take (length p) s = p)"

definition validate_read_query :: "string \<Rightarrow> (evaluator_error, unit) result" where
  "validate_read_query query =
     (let normalized = trim (trim_end_char (CHR '';'') (trim query)); lower = map ascii_lowercase normalized in
      if CHR '';'' \<in> set normalized \<or> \<not> (str_starts_with ''select '' lower \<or> str_starts_with ''with '' lower)
      then Err (EvInvalidDefinition ''SQL trigger query must be one SELECT or WITH statement'')
      else Ok ())"

definition poll_seconds_of :: "json \<Rightarrow> int" where
  "poll_seconds_of config = max (case i64_field config ''poll_seconds'' of None \<Rightarrow> 60 | Some n \<Rightarrow> n) 1"

definition sql_event :: "(string \<Rightarrow> u8 list) \<Rightarrow> int \<Rightarrow> int \<Rightarrow> schedule_trigger \<Rightarrow> trigger_event" where
  "sql_event sha epoch bucket t =
     \<lparr>tev_id = deterministic_event_id sha (st_automation t) (st_name t) (''sql-'' @ fmt_int bucket),
      tev_automation = st_automation t, tev_trigger = st_name t, tev_correlation = fmt_int bucket,
      tev_payload = JsonObject [(''matched'', JsonBool True), (''observed_at'', JsonInt epoch)],
      tev_occurred = seconds epoch\<rparr>"

definition produce_sql ::
  "externals \<Rightarrow> int \<Rightarrow> schedule_trigger \<Rightarrow> trigger_state
   \<Rightarrow> (evaluator_error, bool) result \<times> trigger_state" where
  "produce_sql E now t S =
     (let config = st_config t; epoch = now div 1000000 in
      case text_field config ''connection_name'' of
        None \<Rightarrow> (Err (EvInvalidDefinition ''sql trigger requires connection_name''), S)
      | Some connection \<Rightarrow>
          (case text_field config ''query'' of
             None \<Rightarrow> (Err (EvInvalidDefinition ''sql trigger requires query''), S)
           | Some query \<Rightarrow>
               (case validate_read_query query of
                  Inl e \<Rightarrow> (Err e, S)
                | Inr u \<Rightarrow>
                    (case ex_databases E connection of
                       None \<Rightarrow> (Err (EvInvalidDefinition (''unknown SQL connection: '' @ connection)), S)
                     | Some ask \<Rightarrow>
                         (case ask query of
                            Inl e \<Rightarrow> (Err (EvStore e), S)
                          | Inr False \<Rightarrow> (Ok False, S)
                          | Inr True \<Rightarrow>
                              (let bucket = epoch - epoch mod poll_seconds_of config in
                               case enqueue_trigger_event now (sql_event (ex_sha E) epoch bucket t) (''sql-'' @ fmt_int bucket) S of
                                 Inl e \<Rightarrow> (Err (EvStore e), S)
                               | Inr (inserted, S') \<Rightarrow> (Ok inserted, S')))))))"

definition produce_due_sql ::
  "externals \<Rightarrow> int \<Rightarrow> trigger_state \<Rightarrow> (evaluator_error, nat) result \<times> trigger_state" where
  "produce_due_sql E now S =
     poll_triggers E (produce_sql E now) now 0 (list_runtime_triggers TSql S) S"

section \<open>Custom plugins\<close>

fun text_lines :: "string \<Rightarrow> string \<Rightarrow> string list" where
  "text_lines acc [] = (if acc = [] then [] else [rev acc])"
| "text_lines acc (c # s) =
     (if c = CHR 0x0A then rev (case acc of [] \<Rightarrow> [] | d # rest \<Rightarrow> if d = CHR 0x0D then rest else acc) # text_lines [] s
      else text_lines (c # acc) s)"

definition parse_output :: "externals \<Rightarrow> string \<Rightarrow> (evaluator_error, json) result" where
  "parse_output E logs =
     (case find (\<lambda>line. trim line \<noteq> []) (rev (text_lines [] logs)) of
        None \<Rightarrow> Err (EvInvalidDefinition ''custom trigger produced no JSON output'')
      | Some line \<Rightarrow>
          (case ex_json E line of
             None \<Rightarrow> Err EvInvalidJson
           | Some output \<Rightarrow>
               if bool_field output ''matched'' = None
               then Err (EvInvalidDefinition ''custom trigger output requires boolean matched'')
               else if (case json_get output ''payload'' of
                          None \<Rightarrow> False | Some (JsonObject fs) \<Rightarrow> False | Some JsonNull \<Rightarrow> False | Some j \<Rightarrow> True)
               then Err (EvInvalidDefinition ''custom trigger payload must be a JSON object or null'')
               else Ok output))"

text \<open>What follows the run of the plugin.\<close>

definition execute_plugin :: "externals \<Rightarrow> custom_runtime_trigger \<Rightarrow> (evaluator_error, json) result" where
  "execute_plugin E t =
     and_then (ex_plugin E t) (\<lambda>(outcome, logs).
       if outcome \<noteq> ''Succeeded''
       then Err (EvInvalidDefinition (''custom trigger exited with '' @ outcome @ '': '' @
                   trim (case logs of None \<Rightarrow> [] | Some l \<Rightarrow> l)))
       else parse_output E (case logs of None \<Rightarrow> [] | Some l \<Rightarrow> l))"

definition process_claim ::
  "externals \<Rightarrow> int \<Rightarrow> string \<Rightarrow> custom_runtime_trigger \<Rightarrow> trigger_state \<Rightarrow> (evaluator_error, bool \<times> trigger_state) result" where
  "process_claim E now owner t S =
     and_then (execute_plugin E t) (\<lambda>result.
       let bucket = ct_epoch t; delivery = ''custom-'' @ fmt_int bucket;
           correlation = (case text_field result ''correlation_key'' of None \<Rightarrow> fmt_int bucket | Some k \<Rightarrow> k) in
       case bool_field result ''matched'' of
         None \<Rightarrow> Err (EvInvalidDefinition ''custom trigger output requires boolean matched'')
       | Some matched \<Rightarrow>
           (let event =
              (if matched then Some
                 \<lparr>tev_id = deterministic_event_id (ex_sha E) (ct_automation t) (ct_name t) delivery,
                  tev_automation = ct_automation t, tev_trigger = ct_name t, tev_correlation = correlation,
                  tev_payload = (case json_get result ''payload'' of None \<Rightarrow> JsonNull | Some j \<Rightarrow> j),
                  tev_occurred = seconds (now div 1000000)\<rparr>
               else None) in
            and_then (map_err EvStore (complete_custom_trigger now owner t (poll_seconds_of (ct_config t)) event delivery S))
              (\<lambda>(inserted, S'). Ok (matched, S'))))"

definition produce_due_event ::
  "externals \<Rightarrow> int \<Rightarrow> (string \<times> string \<Rightarrow> bool) \<Rightarrow> string \<Rightarrow> int \<Rightarrow> trigger_state
   \<Rightarrow> (evaluator_error, bool) result \<times> trigger_state" where
  "produce_due_event E now held owner lease_seconds S =
     (case claim_custom_trigger now held owner lease_seconds S of
        (None, S1) \<Rightarrow> (Ok False, S1)
      | (Some t, S1) \<Rightarrow>
          (case process_claim E now owner t S1 of
             Inr (matched, S2) \<Rightarrow> (Ok matched, S2)
           | Inl e \<Rightarrow> (Err e, fail_custom_trigger now owner t (evaluator_message E e) 30 S1)))"

section \<open>Evaluation of a group\<close>

record group_verdict =
  vd_group :: "string \<times> string"
  vd_workflow :: string
  vd_run :: string
  vd_input :: string
  vd_satisfied :: bool

definition enabled_names :: "automation_trigger list \<Rightarrow> string list" where
  "enabled_names ts = map at_name (filter at_enabled ts)"

text \<open>The part of \<open>evaluate_group\<close> that reads the automation and decides, and the whole of it.\<close>

definition assess_group :: "externals \<Rightarrow> trigger_event list \<Rightarrow> trigger_state \<Rightarrow> (evaluator_error, group_verdict) result" where
  "assess_group E events S =
     (case events of
        [] \<Rightarrow> Err EvEmptyGroup
      | f # rest \<Rightarrow>
          if list_ex (\<lambda>ev. tev_automation ev \<noteq> tev_automation f \<or> tev_correlation ev \<noteq> tev_correlation f) events
          then Err EvMixedGroup
          else if trim (tev_automation f) = [] then Err (EvInvalidDefinition ''AutomationId cannot be empty'')
          else
            and_then (map_err EvStore (find_automation (tev_automation f) S)) (\<lambda>found.
              case found of
                None \<Rightarrow> Err (EvAutomationNotFound (tev_automation f))
              | Some a \<Rightarrow>
                  and_then (map_err EvStore (list_automation_triggers (tev_automation f) S)) (\<lambda>(ts, condition_json).
                  and_then (map_err EvInvalidDefinition (try_map trigger_name_new
                      (filter (\<lambda>n. n \<in> set (enabled_names ts)) (map tev_trigger events)))) (\<lambda>satisfied_triggers.
                  and_then (condition_from_json condition_json) (\<lambda>condition.
                    Ok \<lparr>vd_group = (tev_automation f, tev_correlation f), vd_workflow = au_workflow a,
                        vd_run = deterministic_run_id (ex_sha E) (tev_automation f) (tev_correlation f),
                        vd_input = au_input a,
                        vd_satisfied = (au_status a = AutoEnabled \<and> cond_evaluate condition (set satisfied_triggers))\<rparr>)))))"

definition complete_verdict ::
  "int \<Rightarrow> string \<Rightarrow> group_verdict \<Rightarrow> trigger_state \<Rightarrow> (wf_store_error, bool \<times> trigger_state) result" where
  "complete_verdict now owner v S =
     complete_trigger_group now owner (vd_group v) (vd_workflow v) (vd_run v) (vd_input v) (vd_satisfied v) S"

definition evaluate_group ::
  "externals \<Rightarrow> int \<Rightarrow> string \<Rightarrow> trigger_event list \<Rightarrow> trigger_state \<Rightarrow> (evaluator_error, trigger_state) result" where
  "evaluate_group E now owner events S =
     and_then (assess_group E events S) (\<lambda>v.
     and_then (map_err EvStore (complete_verdict now owner v S)) (\<lambda>(created, S'). Ok S'))"

definition retry_delay_seconds :: "trigger_event list \<Rightarrow> int" where
  "retry_delay_seconds events = min (2 ^ min (length events) 6) 60"

definition DEFAULT_LEASE_SECONDS :: int where "DEFAULT_LEASE_SECONDS = 60"
definition DEFAULT_MAX_ATTEMPTS :: int where "DEFAULT_MAX_ATTEMPTS = 8"

definition retry_group :: "externals \<Rightarrow> int \<Rightarrow> string \<Rightarrow> trigger_event list \<Rightarrow> evaluator_error \<Rightarrow> trigger_state \<Rightarrow> trigger_state" where
  "retry_group E now owner events e S =
     (case events of
        [] \<Rightarrow> S
      | f # rest \<Rightarrow> retry_trigger_group now owner (tev_automation f, tev_correlation f) (evaluator_message E e)
                     (retry_delay_seconds events) DEFAULT_MAX_ATTEMPTS S)"

definition evaluator_tick ::
  "externals \<Rightarrow> int \<Rightarrow> (string \<times> string \<Rightarrow> bool) \<Rightarrow> (string \<Rightarrow> bool) \<Rightarrow> string \<Rightarrow> trigger_state
   \<Rightarrow> (evaluator_error, bool) result \<times> trigger_state" where
  "evaluator_tick E now custom_held held owner S =
     (case produce_due_schedules E now S of
        (Inl e, S1) \<Rightarrow> (Err e, S1)
      | (Inr n, S1) \<Rightarrow>
     (case produce_due_sql E now S1 of
        (Inl e, S2) \<Rightarrow> (Err e, S2)
      | (Inr m, S2) \<Rightarrow>
     (case produce_due_event E now custom_held owner (max DEFAULT_LEASE_SECONDS 600) S2 of
        (Inl e, S3) \<Rightarrow> (Err e, S3)
      | (Inr b, S3) \<Rightarrow>
     (case lease_trigger_group now held owner DEFAULT_LEASE_SECONDS S3 of
        (events, S4) \<Rightarrow>
          if events = [] then (Ok False, S4)
          else case evaluate_group E now owner events S4 of
            Inl e \<Rightarrow> (Err e, retry_group E now owner events e S4)
          | Inr S5 \<Rightarrow> (Ok True, S5)))))"

end
