(* ===== verification/Trigger_System.thy ===== *)
theory Trigger_System
  imports Trigger_Evaluator Workflow_Safety
begin

text \<open>
  Several evaluators over one queue. Each holds at most one group at a time, as \<open>tick\<close> does: it leases,
  reads the automation and decides, and completes or hands the group back, and may stop between any two
  of these. Deliveries, pollers, retention, changes of the automations and the workflow scheduler are
  interleaved with them at every transaction. A transaction is one step: the lease has locked its row
  when it reads the group, and what commits after that statement is as if it came after the lease; a
  completion inserts its run under a unique id and then marks rows that nobody else may mark; a
  schedule's cursor is compared and advanced by one statement.

  Beside the tables the state records two histories: the events that were ever queued, in their order,
  and the groups for which a run was created.
\<close>

datatype phase =
    Idle
  | Holding "trigger_event list"
  | Decided "trigger_event list" group_verdict

record trig_system =
  sy_store :: trigger_state
  sy_phase :: "nat \<Rightarrow> phase"
  sy_queued :: "trigger_event list"
  sy_created :: "(string \<times> string) list"

datatype trig_action =
    Deliver int trigger_event string
  | InitCursor string string int
  | Fire int schedule_trigger int int
  | ClaimCustom int "string \<times> string \<Rightarrow> bool" string int
  | CompleteCustom int string custom_runtime_trigger int "trigger_event option" string
  | FailCustom int string custom_runtime_trigger string int
  | NoteSuccess int "string \<times> string"
  | NoteFailure "string \<times> string" string
  | Lease int "string \<Rightarrow> bool" int nat
  | Assess nat
  | Complete int nat
  | Retry int nat evaluator_error
  | Crash nat
  | Sweep int int
  | Upsert automation
  | SetStatus int string automation_status
  | ReplaceTriggers int string "automation_trigger list" json
  | DeleteAutomation string
  | Plugin trigger_plugin
  | FireInterval int "string \<times> string \<times> int" string
  | Workflows wf_op

text \<open>A transaction that fails leaves the tables as they were.\<close>

definition committed :: "'s \<Rightarrow> ('e, 's) result \<Rightarrow> 's" where
  "committed S r = (case r of Inl e \<Rightarrow> S | Inr S' \<Rightarrow> S')"

definition committed_snd :: "'s \<Rightarrow> ('e, 'a \<times> 's) result \<Rightarrow> 's" where
  "committed_snd S r = (case r of Inl e \<Rightarrow> S | Inr (a, S') \<Rightarrow> S')"

text \<open>The transactions that involve no evaluation.\<close>

fun table_exec :: "trig_action \<Rightarrow> trigger_state \<Rightarrow> trigger_state" where
  "table_exec (Deliver now ev key) S = committed_snd S (enqueue_trigger_event now ev key S)"
| "table_exec (InitCursor a n initial) S = committed_snd S (get_or_init_schedule_cursor a n initial S)"
| "table_exec (Fire now t d n) S = committed_snd S (fire_due_schedule now t d n S)"
| "table_exec (ClaimCustom now held owner lease) S = snd (claim_custom_trigger now held owner lease S)"
| "table_exec (CompleteCustom now owner t poll ev key) S = committed_snd S (complete_custom_trigger now owner t poll ev key S)"
| "table_exec (FailCustom now owner t e retry) S = fail_custom_trigger now owner t e retry S"
| "table_exec (NoteSuccess now k) S = committed S (record_trigger_runtime_success now k S)"
| "table_exec (NoteFailure k e) S = committed S (record_trigger_runtime_failure k e S)"
| "table_exec (Sweep now d) S = snd (cleanup_old_trigger_events now d S)"
| "table_exec (Upsert a) S = committed S (upsert_automation a S)"
| "table_exec (SetStatus now a status) S = snd (set_automation_status now a status S)"
| "table_exec (ReplaceTriggers now a ts c) S = committed S (replace_automation_triggers now a ts c S)"
| "table_exec (DeleteAutomation a) S = snd (delete_automation a S)"
| "table_exec (Plugin p) S = upsert_custom_trigger_plugin p S"
| "table_exec (FireInterval now d r) S = committed S (fire_interval now d r S)"
| "table_exec (Workflows op) S = S\<lparr>tr_workflows := wf_exec op (tr_workflows S)\<rparr>"
| "table_exec _ S = S"

definition arrivals :: "trigger_state \<Rightarrow> trigger_state \<Rightarrow> trigger_event list" where
  "arrivals S S' = map te_event (filter (\<lambda>row. \<not> list_ex (\<lambda>r. row_event_id r = row_event_id row) (tr_events S)) (tr_events S'))"

text \<open>\<open>owner p\<close> is the name evaluator \<open>p\<close> leases under.\<close>

fun trig_exec :: "externals \<Rightarrow> (nat \<Rightarrow> string) \<Rightarrow> trig_action \<Rightarrow> trig_system \<Rightarrow> trig_system" where
  "trig_exec E owner (Lease now held lease_seconds p) S =
     (if sy_phase S p \<noteq> Idle then S
      else case lease_trigger_group now held (owner p) lease_seconds (sy_store S) of
        (events, T) \<Rightarrow> S\<lparr>sy_store := T, sy_phase := (sy_phase S)(p := if events = [] then Idle else Holding events)\<rparr>)"
| "trig_exec E owner (Assess p) S =
     (case sy_phase S p of
        Holding events \<Rightarrow>
          (case assess_group E events (sy_store S) of
             Inl e \<Rightarrow> S
           | Inr v \<Rightarrow> S\<lparr>sy_phase := (sy_phase S)(p := Decided events v)\<rparr>)
      | _ \<Rightarrow> S)"
| "trig_exec E owner (Complete now p) S =
     (case sy_phase S p of
        Decided events v \<Rightarrow>
          (case complete_verdict now (owner p) v (sy_store S) of
             Inl e \<Rightarrow> S
           | Inr (created, T) \<Rightarrow>
               S\<lparr>sy_store := T, sy_phase := (sy_phase S)(p := Idle),
                 sy_created := sy_created S @ (if created then [vd_group v] else [])\<rparr>)
      | _ \<Rightarrow> S)"
| "trig_exec E owner (Retry now p e) S =
     (case sy_phase S p of
        Idle \<Rightarrow> S
      | Holding events \<Rightarrow>
          S\<lparr>sy_store := retry_group E now (owner p) events e (sy_store S), sy_phase := (sy_phase S)(p := Idle)\<rparr>
      | Decided events v \<Rightarrow>
          S\<lparr>sy_store := retry_group E now (owner p) events e (sy_store S), sy_phase := (sy_phase S)(p := Idle)\<rparr>)"
| "trig_exec E owner (Crash p) S = S\<lparr>sy_phase := (sy_phase S)(p := Idle)\<rparr>"
| "trig_exec E owner act S =
     (let T = table_exec act (sy_store S) in
      S\<lparr>sy_store := T, sy_queued := sy_queued S @ arrivals (sy_store S) T\<rparr>)"

fun evaluates :: "trig_action \<Rightarrow> bool" where
  "evaluates (Lease now held secs p) = True"
| "evaluates (Assess p) = True"
| "evaluates (Complete now p) = True"
| "evaluates (Retry now p e) = True"
| "evaluates (Crash p) = True"
| "evaluates _ = False"

lemma trig_exec_table:
  "\<not> evaluates act \<Longrightarrow> trig_exec E owner act S =
     S\<lparr>sy_store := table_exec act (sy_store S), sy_queued := sy_queued S @ arrivals (sy_store S) (table_exec act (sy_store S))\<rparr>"
  by (cases act) (simp_all add: Let_def)

lemma action_cases:
  obtains (Lease) now held secs p where "act = Lease now held secs p" | (Assess) p where "act = Assess p"
  | (Complete) now p where "act = Complete now p" | (Retry) now p e where "act = Retry now p e"
  | (Crash) p where "act = Crash p" | (Table) "\<not> evaluates act"
  by (cases act) auto

definition started_system :: "trigger_state \<Rightarrow> trig_system" where
  "started_system T = \<lparr>sy_store = T, sy_phase = (\<lambda>p. Idle), sy_queued = [], sy_created = []\<rparr>"

text \<open>The states the actions \<open>allowed\<close> admits lead to, from tables with no event and no evaluation.\<close>

inductive trig_reach :: "externals \<Rightarrow> (nat \<Rightarrow> string) \<Rightarrow> (trig_action \<Rightarrow> bool) \<Rightarrow> trigger_state \<Rightarrow> trig_system \<Rightarrow> bool"
  for E owner allowed T where
  start: "tr_events T = [] \<Longrightarrow> tr_evaluations T = [] \<Longrightarrow> trig_reach E owner allowed T (started_system T)"
| act: "trig_reach E owner allowed T S \<Longrightarrow> allowed act \<Longrightarrow> trig_reach E owner allowed T (trig_exec E owner act S)"

section \<open>Runs are never deleted\<close>

lemma set_run_keys [simp]: "map fst (wf_runs (set_run r f W)) = map fst (wf_runs W)"
  by (auto simp: set_run_def bt_modify_def)

lemma start_steps_runs: "start_steps now known r input ids k steps W = Ok W' \<Longrightarrow> wf_runs W' = wf_runs W"
proof (induction steps arbitrary: k W)
  case (Cons step steps)
  then show ?case by (fastforce simp: start_step_def insert_job_run_def insert_step_run_def Let_def split: if_splits)
qed simp

lemma skip_steps_runs: "skip_steps r ids k steps W = Ok W' \<Longrightarrow> wf_runs W' = wf_runs W"
proof (induction steps arbitrary: k W)
  case (Cons step steps)
  then show ?case by (fastforce simp: skip_step_def insert_step_run_def split: if_splits)
qed simp

lemma settle_run_keys: "map fst (wf_runs (settle_run now r run w p ready skipped W)) = map fst (wf_runs W)"
  by (simp add: settle_run_def finish_workflow_run_in_def)

lemma advance_run_keys: "advance now known ids r run w g p W = Ok (b, W') \<Longrightarrow> map fst (wf_runs W') = map fst (wf_runs W)"
  unfolding advance_def Let_def by (auto simp: settle_run_keys dest!: start_steps_runs skip_steps_runs)

lemma close_steps_runs [simp]: "wf_runs (close_active_steps r status W) = wf_runs W"
  by (simp add: close_active_steps_def)

lemma finish_run_keys [simp]: "map fst (wf_runs (finish_workflow_run_in now r status W)) = map fst (wf_runs W)"
  by (simp add: finish_workflow_run_in_def)

lemma reconcile_run_keys:
  assumes "reconcile_workflow_run now acquired known ids r W = Ok (b, W')"
  shows "map fst (wf_runs W') = map fst (wf_runs W)"
proof (cases "acquired \<and> (\<exists>run. map_of (wf_runs W) r = Some run \<and> is_open (wr_status run))")
  case True
  then obtain run where run: "map_of (wf_runs W) r = Some run" "is_open (wr_status run)" by blast
  have sync: "wf_runs (sync_steps r W) = wf_runs W" by (simp add: sync_steps_def)
  show ?thesis
  proof (cases "due now (wr_deadline run)")
    case deadline: True
    then show ?thesis using assms True run by (auto simp: reconcile_workflow_run_def)
  next
    case False
    then obtain w g p where "all_done w p \<and> W' = finish_workflow_run_in now r WSucceeded (sync_steps r W) \<or>
        advance now known ids r run w g p (sync_steps r W) = Ok (b, W')"
      using assms True run by (auto simp: reconcile_workflow_run_def Let_def split: if_splits)
    then show ?thesis using advance_run_keys by (metis finish_run_keys sync)
  qed
next
  case False
  then show ?thesis using assms by (auto simp: reconcile_workflow_run_def split: option.splits if_split_asm)
qed

text \<open>What a table contains is decided by its keys.\<close>

lemma contains_iff_key: "bt_contains m k \<longleftrightarrow> k \<in> set (map fst m)"
  by (auto simp: bt_contains_def map_of_eq_None_iff)

lemma wf_exec_run_keys: "set (map fst (wf_runs W)) \<subseteq> set (map fst (wf_runs (wf_exec op W)))"
proof (cases op)
  case (WfReconcile now acquired known ids q)
  then show ?thesis by (auto dest!: reconcile_run_keys split: sum.splits simp flip: set_map)
next
  case (WfCreate now wid a r input)
  then show ?thesis by (auto simp: create_workflow_run_def fst_set_bt_insert split: sum.splits option.splits)
next
  case (WfRemove now r)
  then show ?thesis by (simp add: remove_queued_workflow_run_def Let_def finish_run_keys del: set_map split: option.split)
next
  case (WfCancel now r)
  then show ?thesis by (simp add: cancel_running_workflow_run_def Let_def del: set_map)
next
  case (WfResume now r)
  then show ?thesis by (simp add: resume_workflow_run_def Let_def del: set_map split: option.split sum.split)
qed simp_all

lemma wf_exec_keeps_run: "bt_contains (wf_runs W) r \<Longrightarrow> bt_contains (wf_runs (wf_exec op W)) r"
  using subsetD [OF wf_exec_run_keys] by (simp add: contains_iff_key)

section \<open>One run for a group\<close>

abbreviation runs_of :: "trigger_state \<Rightarrow> (string, wf_run_row) btree_map" where
  "runs_of T \<equiv> wf_runs (tr_workflows T)"

definition group_run_id :: "externals \<Rightarrow> string \<times> string \<Rightarrow> string" where
  "group_run_id E g = deterministic_run_id (ex_sha E) (fst g) (snd g)"

definition has_run :: "externals \<Rightarrow> trigger_state \<Rightarrow> string \<times> string \<Rightarrow> bool" where
  "has_run E T g = bt_contains (runs_of T) (group_run_id E g)"

lemma enqueue_outcome:
  assumes "enqueue_trigger_event now ev key T = Ok (b, T')"
  obtains "T' = T" "\<not> b" "\<exists>row \<in> set (tr_events T). delivery_of row = (tev_automation ev, tev_trigger ev, key)"
  | "T' = T\<lparr>tr_events := tr_events T @ [\<lparr>te_event = ev, te_idempotency = key, te_status = EvPending, te_available = now,
        te_owner = None, te_expires = None, te_attempts = 0, te_error = None, te_updated = now\<rparr>]\<rparr>" "b"
    "\<forall>row \<in> set (tr_events T). row_event_id row \<noteq> tev_id ev"
    "\<forall>row \<in> set (tr_events T). delivery_of row \<noteq> (tev_automation ev, tev_trigger ev, key)"
  using assms by (auto simp: enqueue_trigger_event_def list_ex_iff split: if_splits)

lemma enqueue_frame:
  "enqueue_trigger_event now ev key T = Ok (b, T') \<Longrightarrow>
     tr_workflows T' = tr_workflows T \<and> tr_evaluations T' = tr_evaluations T \<and> tr_automations T' = tr_automations T \<and>
     tr_triggers T' = tr_triggers T \<and> tr_cursors T' = tr_cursors T"
  by (elim enqueue_outcome) auto

lemma assess_verdict:
  assumes "assess_group E events T = Ok v"
  shows "vd_run v = group_run_id E (vd_group v)" "list_all (\<lambda>ev. (tev_automation ev, tev_correlation ev) = vd_group v) events"
    "events \<noteq> []"
  using assms
  by (auto simp: assess_group_def group_run_id_def list_all_iff list_ex_iff split: list.splits if_splits option.splits)

lemma complete_run:
  assumes "complete_verdict now owner v T = Ok (created, T')" "vd_run v = group_run_id E (vd_group v)"
  shows "has_run E T g \<Longrightarrow> has_run E T' g" "created \<Longrightarrow> \<not> has_run E T (vd_group v) \<and> has_run E T' (vd_group v)"
  using assms
  by (auto simp: complete_verdict_def complete_trigger_group_def create_group_run_def has_run_def modify_events_def Let_def
      split: if_splits prod.splits)

lemma retry_frame [simp]:
  "tr_workflows (retry_group E now owner events e T) = tr_workflows T"
  "tr_evaluations (retry_group E now owner events e T) = tr_evaluations T"
  "tr_automations (retry_group E now owner events e T) = tr_automations T"
  "tr_triggers (retry_group E now owner events e T) = tr_triggers T"
  "tr_cursors (retry_group E now owner events e T) = tr_cursors T"
  by (cases events; simp add: retry_group_def retry_trigger_group_def modify_events_def)+

lemma lease_frame:
  assumes "lease_trigger_group now held owner secs T = (events, T')"
  shows "tr_workflows T' = tr_workflows T" "tr_evaluations T' = tr_evaluations T" "tr_automations T' = tr_automations T"
    "tr_triggers T' = tr_triggers T" "tr_cursors T' = tr_cursors T"
  using assms by (auto simp: lease_trigger_group_def modify_events_def Let_def split: option.splits)

lemma insert_triggers_frame:
  "try_fold (insert_trigger a) T ts = Ok T' \<Longrightarrow>
     tr_workflows T' = tr_workflows T \<and> tr_evaluations T' = tr_evaluations T \<and> tr_automations T' = tr_automations T \<and>
     tr_events T' = tr_events T \<and> tr_cursors T' = tr_cursors T"
  by (induction ts arbitrary: T) (fastforce simp: insert_trigger_def Let_def split: sum.splits if_splits)+

lemma replace_frame:
  assumes "replace_automation_triggers now a ts c T = Ok T'"
  shows "tr_workflows T' = tr_workflows T" "tr_evaluations T' = tr_evaluations T" "tr_events T' = tr_events T"
    "tr_cursors T' = tr_cursors T"
  using assms
  by (auto simp: replace_automation_triggers_def without_trigger_rows_def dest!: insert_triggers_frame split: option.splits)

lemma custom_frame [simp]:
  "tr_workflows (release_custom now owner k poll e T) = tr_workflows T"
  "tr_evaluations (release_custom now owner k poll e T) = tr_evaluations T"
  "tr_automations (release_custom now owner k poll e T) = tr_automations T"
  "tr_triggers (release_custom now owner k poll e T) = tr_triggers T"
  "tr_events (release_custom now owner k poll e T) = tr_events T"
  "tr_cursors (release_custom now owner k poll e T) = tr_cursors T"
  by (auto simp: release_custom_def split: option.splits)

lemma claim_frame [simp]:
  "tr_workflows (snd (claim_custom_trigger now held owner secs T)) = tr_workflows T"
  "tr_evaluations (snd (claim_custom_trigger now held owner secs T)) = tr_evaluations T"
  "tr_automations (snd (claim_custom_trigger now held owner secs T)) = tr_automations T"
  "tr_triggers (snd (claim_custom_trigger now held owner secs T)) = tr_triggers T"
  "tr_events (snd (claim_custom_trigger now held owner secs T)) = tr_events T"
  "tr_cursors (snd (claim_custom_trigger now held owner secs T)) = tr_cursors T"
  by (simp_all add: claim_custom_trigger_def init_custom_runtime_def Let_def split: option.split)

text \<open>The transactions that touch neither runs nor evaluations.\<close>

lemma fire_frame:
  assumes "fire_due_schedule now t d n T = Ok (b, T')"
  shows "tr_workflows T' = tr_workflows T" "tr_evaluations T' = tr_evaluations T" "tr_automations T' = tr_automations T"
    "tr_triggers T' = tr_triggers T"
  using assms by (auto simp: fire_due_schedule_def Let_def dest!: enqueue_frame split: option.splits if_splits)

lemma complete_custom_frame:
  assumes "complete_custom_trigger now owner t poll ev key T = Ok (b, T')"
  shows "tr_workflows T' = tr_workflows T" "tr_evaluations T' = tr_evaluations T" "tr_automations T' = tr_automations T"
    "tr_triggers T' = tr_triggers T" "tr_cursors T' = tr_cursors T"
  using assms by (auto simp: complete_custom_trigger_def dest!: enqueue_frame split: option.splits)

lemma table_exec_workflows:
  "tr_workflows (table_exec act T) = tr_workflows T \<or> (\<exists>op. act = Workflows op) \<or> (\<exists>a. act = DeleteAutomation a) \<or>
   (\<exists>now d r. act = FireInterval now d r)"
  by (cases act)
    (auto simp: committed_def committed_snd_def get_or_init_schedule_cursor_def upsert_automation_def set_automation_status_def
      upsert_custom_trigger_plugin_def cleanup_old_trigger_events_def fail_custom_trigger_def
      record_trigger_runtime_success_def record_trigger_runtime_failure_def Let_def
      dest: enqueue_frame fire_frame complete_custom_frame replace_frame split: sum.splits option.splits)

lemma fire_interval_keeps:
  "fire_interval now d r T = Ok T' \<Longrightarrow> bt_contains (runs_of T) q \<Longrightarrow> bt_contains (runs_of T') q"
  by (cases d) (auto simp: fire_interval_def Let_def split: if_splits prod.splits)

lemma table_exec_keeps_run: "has_run E T g \<Longrightarrow> has_run E (table_exec act T) g"
proof -
  assume g: "has_run E T g"
  consider "tr_workflows (table_exec act T) = tr_workflows T" | op where "act = Workflows op"
    | a where "act = DeleteAutomation a" | now d r where "act = FireInterval now d r"
    using table_exec_workflows by blast
  then show ?thesis
  proof cases
    case (3 a)
    then show ?thesis using g by (auto simp: has_run_def delete_automation_def Let_def contains_iff_key image_image case_prod_beta')
  qed (use g in \<open>auto simp: has_run_def wf_exec_keeps_run committed_def fire_interval_keeps split: sum.splits\<close>)
qed

definition created_inv :: "externals \<Rightarrow> trig_system \<Rightarrow> bool" where
  "created_inv E S \<longleftrightarrow>
     distinct (sy_created S) \<and> (\<forall>g \<in> set (sy_created S). has_run E (sy_store S) g) \<and>
     (\<forall>p events v. sy_phase S p = Decided events v \<longrightarrow> vd_run v = group_run_id E (vd_group v))"

lemma created_inv_table:
  assumes "created_inv E S"
  shows "created_inv E (S\<lparr>sy_store := table_exec act (sy_store S), sy_queued := q\<rparr>)"
  using assms table_exec_keeps_run by (auto simp: created_inv_def)

lemma created_inv_exec:
  assumes "created_inv E S"
  shows "created_inv E (trig_exec E owner act S)"
proof (cases act rule: action_cases)
  case (Lease now held secs p)
  show ?thesis
    using assms lease_frame(1) [of now held "owner p" secs "sy_store S"]
    by (auto simp: Lease created_inv_def has_run_def split: prod.splits)
next
  case (Assess p)
  then show ?thesis
    using assms by (auto simp: created_inv_def assess_verdict split: phase.splits sum.splits)
next
  case (Complete now p)
  show ?thesis
  proof (cases "sy_phase S p")
    case (Decided events v)
    then have v: "vd_run v = group_run_id E (vd_group v)" using assms by (simp add: created_inv_def)
    show ?thesis
    proof (cases "complete_verdict now (owner p) v (sy_store S)")
      case (Inr result)
      then show ?thesis
        using assms Decided complete_run [OF _ v, of now "owner p" "sy_store S" "fst result" "snd result"]
        by (auto simp: Complete created_inv_def split: prod.splits)
    qed (use assms Decided in \<open>simp add: Complete\<close>)
  qed (use assms in \<open>simp_all add: Complete\<close>)
next
  case (Retry now p e)
  then show ?thesis using assms by (auto simp: created_inv_def has_run_def split: phase.splits)
next
  case (Crash p)
  then show ?thesis using assms by (auto simp: created_inv_def)
next
  case Table
  then show ?thesis using created_inv_table [OF assms] by (simp add: trig_exec_table)
qed

lemma created_inv_reach: "trig_reach E owner allowed T S \<Longrightarrow> created_inv E S"
proof (induction rule: trig_reach.induct)
  case start
  show ?case by (simp add: created_inv_def started_system_def)
qed (rule created_inv_exec)

text \<open>C9. A correlation group starts at most one workflow run, however evaluators interleave, stop, lose
  their lease or share a name, and whatever happens to the automation in between: the groups for
  which \<open>complete_trigger_group\<close> reported a run as created are distinct, and the run of each is in the
  table under the id derived from the group. (Its \<open>NOT EXISTS\<close> and \<open>ON CONFLICT\<close> clauses are both
  needed: deleting an automation deletes its evaluations, but not the run.)\<close>

theorem group_starts_one_run:
  assumes "trig_reach E owner allowed T S"
  shows "distinct (sy_created S) \<and>
         (\<forall>g \<in> set (sy_created S). bt_contains (runs_of (sy_store S)) (deterministic_run_id (ex_sha E) (fst g) (snd g)))"
  using created_inv_reach [OF assms] by (auto simp: created_inv_def has_run_def group_run_id_def)

end
