(* ===== verification/Trigger_Safety.thy ===== *)
theory Trigger_Safety
  imports Trigger_System
begin

text \<open>
  No trigger is lost and none is made up: while the automations stay as they are, a group whose events
  satisfy the condition has its run once its events are evaluated, and a group has a run only when
  events that were queued satisfy it. The first needs evaluators that lease under different names.
\<close>

section \<open>Conditions are monotone\<close>

lemma cond_mono: "cond_evaluate c M \<Longrightarrow> M \<subseteq> N \<Longrightarrow> cond_evaluate c N"
  by (induction c) (auto simp: list_all_iff list_ex_iff)

lemma cond_empty: "cond_validate c = Ok () \<Longrightarrow> \<not> cond_evaluate c {}"
proof (induction c)
  case (CondAll es)
  then obtain e where "e \<in> set es" by (cases es) auto
  then show ?case using CondAll by (auto simp: try_for_each_eq_Inr list_all_iff split: if_splits)
next
  case (CondAny es)
  then show ?case by (auto simp: try_for_each_eq_Inr list_ex_iff split: if_splits)
qed simp

lemma condition_from_json_valid: "condition_from_json j = Ok c \<Longrightarrow> cond_validate c = Ok ()"
  by (subst (asm) condition_from_json.simps) (auto simp: valid_condition_def split: option.splits)

text \<open>What evaluation decides of the names of the events.\<close>

definition group_satisfied :: "string \<Rightarrow> string set \<Rightarrow> trigger_state \<Rightarrow> bool" where
  "group_satisfied a names T =
     (case find_automation a T of
        Inr (Some au) \<Rightarrow>
          (case list_automation_triggers a T of
             Inr (ts, condition_json) \<Rightarrow>
               (case condition_from_json condition_json of
                  Inr c \<Rightarrow> au_status au = AutoEnabled \<and> cond_evaluate c (names \<inter> set (enabled_names ts))
                | Inl e \<Rightarrow> False)
           | Inl e \<Rightarrow> False)
      | _ \<Rightarrow> False)"

lemma group_satisfied_iff:
  "group_satisfied a names T \<longleftrightarrow>
     (\<exists>au ts j c. find_automation a T = Ok (Some au) \<and> list_automation_triggers a T = Ok (ts, j) \<and>
        condition_from_json j = Ok c \<and> au_status au = AutoEnabled \<and> cond_evaluate c (names \<inter> set (enabled_names ts)))"
proof (cases "find_automation a T")
  case (Inr found)
  show ?thesis
  proof (cases found)
    case (Some au)
    show ?thesis
    proof (cases "list_automation_triggers a T")
      case listed: (Inr p)
      obtain ts j where p: "p = (ts, j)" by (cases p)
      show ?thesis by (cases "condition_from_json j") (simp_all add: group_satisfied_def Inr Some listed p)
    qed (simp add: group_satisfied_def Inr Some)
  qed (simp add: group_satisfied_def Inr)
qed (simp add: group_satisfied_def)

lemma group_satisfied_mono: "group_satisfied a M T \<Longrightarrow> M \<subseteq> N \<Longrightarrow> group_satisfied a N T"
  unfolding group_satisfied_iff using cond_mono by (metis Int_mono subset_refl)

lemma group_satisfied_empty: "\<not> group_satisfied a {} T"
  by (auto simp: group_satisfied_iff dest: condition_from_json_valid cond_empty)

lemma try_map_name: "try_map trigger_name_new xs = Ok ys \<Longrightarrow> ys = xs"
  by (induction xs arbitrary: ys) (auto simp: trigger_name_new_def split: if_splits)

lemma assess_satisfied:
  assumes "assess_group E events T = Ok v"
  shows "vd_satisfied v = group_satisfied (fst (vd_group v)) (tev_trigger ` set events) T"
proof -
  obtain f rest where f: "events = f # rest" using assms by (cases events) (auto simp: assess_group_def)
  from assms obtain au ts j c names where
    read: "find_automation (tev_automation f) T = Ok (Some au)" "list_automation_triggers (tev_automation f) T = Ok (ts, j)"
      "condition_from_json j = Ok c"
    and names: "try_map trigger_name_new (filter (\<lambda>n. n \<in> set (enabled_names ts)) (map tev_trigger events)) = Ok names"
    and v: "vd_group v = (tev_automation f, tev_correlation f)"
      "vd_satisfied v = (au_status au = AutoEnabled \<and> cond_evaluate c (set names))"
    by (auto simp: assess_group_def f simp del: list.map filter.simps split: if_split_asm option.split_asm)
  have "set names = tev_trigger ` set events \<inter> set (enabled_names ts)"
    unfolding try_map_name [OF names] by auto
  then show ?thesis using read by (simp add: v group_satisfied_def)
qed

section \<open>Actions that keep the automations\<close>

fun redefines :: "trig_action \<Rightarrow> bool" where
  "redefines (Upsert a) = True"
| "redefines (SetStatus now a status) = True"
| "redefines (ReplaceTriggers now a ts c) = True"
| "redefines (DeleteAutomation a) = True"
| "redefines _ = False"

lemma group_satisfied_frame:
  assumes "tr_triggers T' = tr_triggers T"
    and "map_option (\<lambda>row. (ar_automation row, ar_condition row)) (map_of (tr_automations T') a) =
         map_option (\<lambda>row. (ar_automation row, ar_condition row)) (map_of (tr_automations T) a)"
  shows "group_satisfied a N T' = group_satisfied a N T"
proof -
  have "find_automation a T' = find_automation a T" "list_automation_triggers a T' = list_automation_triggers a T"
    using assms
    by (cases "map_of (tr_automations T) a"; cases "map_of (tr_automations T') a";
        simp add: find_automation_def list_automation_triggers_def row_to_automation_def)+
  then show ?thesis unfolding group_satisfied_iff by simp
qed

lemma fire_interval_automations:
  assumes "fire_interval now d r T = Ok T'"
  shows "tr_triggers T' = tr_triggers T" "tr_events T' = tr_events T" "tr_evaluations T' = tr_evaluations T"
    "tr_cursors T' = tr_cursors T"
    "map_option (\<lambda>row. (ar_automation row, ar_condition row)) (map_of (tr_automations T') a) =
     map_option (\<lambda>row. (ar_automation row, ar_condition row)) (map_of (tr_automations T) a)"
  using assms
  by (cases d; auto simp: fire_interval_def Let_def map_of_bt_modify option.map_comp comp_def split: if_splits prod.splits)+

lemma table_exec_automations:
  assumes "\<not> redefines act" "\<And>now d r. act \<noteq> FireInterval now d r"
  shows "tr_triggers (table_exec act T) = tr_triggers T" "tr_automations (table_exec act T) = tr_automations T"
  using assms
  by (cases act; auto dest: enqueue_frame fire_frame complete_custom_frame
      simp: committed_def committed_snd_def get_or_init_schedule_cursor_def
      upsert_custom_trigger_plugin_def cleanup_old_trigger_events_def fail_custom_trigger_def
      record_trigger_runtime_success_def record_trigger_runtime_failure_def Let_def split: sum.splits option.splits)+

lemma table_exec_keeps_policy:
  assumes "\<not> redefines act"
  shows "group_satisfied a N (table_exec act T) = group_satisfied a N T"
proof (cases "\<exists>now d r. act = FireInterval now d r")
  case True
  then show ?thesis
    using group_satisfied_frame [OF fire_interval_automations(1,5)] by (auto simp: committed_def split: sum.splits)
next
  case False
  then show ?thesis using table_exec_automations [OF assms] by (intro group_satisfied_frame) auto
qed

lemma complete_frame:
  assumes "complete_verdict now owner v T = Ok (created, T')"
  shows "tr_triggers T' = tr_triggers T" "tr_automations T' = tr_automations T" "tr_cursors T' = tr_cursors T"
  using assms
  by (auto simp: complete_verdict_def complete_trigger_group_def create_group_run_def modify_events_def Let_def
      split: if_splits prod.splits)

lemma exec_keeps_policy:
  assumes "\<not> redefines act"
  shows "group_satisfied a N (sy_store (trig_exec E owner act S)) = group_satisfied a N (sy_store S)"
proof (cases act rule: action_cases)
  case (Lease now held secs p)
  obtain events T' where leased: "lease_trigger_group now held (owner p) secs (sy_store S) = (events, T')" by fastforce
  have "group_satisfied a N T' = group_satisfied a N (sy_store S)"
    by (rule group_satisfied_frame) (simp_all add: lease_frame [OF leased])
  then show ?thesis by (simp add: Lease leased)
next
  case (Complete now p)
  show ?thesis
  proof (cases "sy_phase S p")
    case (Decided events v)
    show ?thesis
    proof (cases "complete_verdict now (owner p) v (sy_store S)")
      case (Inr result)
      then have ok: "complete_verdict now (owner p) v (sy_store S) = Ok (fst result, snd result)" by simp
      have "group_satisfied a N (snd result) = group_satisfied a N (sy_store S)"
        by (rule group_satisfied_frame) (simp_all add: complete_frame [OF ok])
      then show ?thesis by (simp add: Complete Decided Inr case_prod_beta')
    qed (simp add: Complete Decided)
  qed (simp_all add: Complete)
next
  case Table
  then show ?thesis using table_exec_keeps_policy [OF assms] by (simp add: trig_exec_table)
next
  case (Retry now p e)
  have "group_satisfied a N (retry_group E now (owner p) events e (sy_store S)) = group_satisfied a N (sy_store S)" for events
    by (rule group_satisfied_frame) simp_all
  then show ?thesis by (simp add: Retry split: phase.split)
qed (auto split: phase.splits sum.splits)

lemma policy_reach:
  "trig_reach E owner (\<lambda>act. \<not> redefines act) T S \<Longrightarrow> group_satisfied a N (sy_store S) = group_satisfied a N T"
  by (induction rule: trig_reach.induct) (simp_all add: started_system_def exec_keeps_policy)

section \<open>What the queue held up to an event\<close>

text \<open>\<open>along g Q B rows\<close>: \<open>Q\<close> holds of every row and the events of group \<open>g\<close> that stand before it or in it
  and have not failed, \<open>B\<close> being those before the first row. Rows are in the order they were queued.\<close>

definition live :: "string \<times> string \<Rightarrow> queued_row \<Rightarrow> trigger_event set" where
  "live g row = (if group_of row = g \<and> te_status row \<noteq> EvFailed then {te_event row} else {})"

fun along :: "string \<times> string \<Rightarrow> (trigger_event set \<Rightarrow> queued_row \<Rightarrow> bool) \<Rightarrow> trigger_event set \<Rightarrow> queued_row list \<Rightarrow> bool" where
  "along g Q B [] = True"
| "along g Q B (row # rows) = (Q (B \<union> live g row) row \<and> along g Q (B \<union> live g row) rows)"

lemma along_map:
  assumes "along g Q B rows" "B' \<subseteq> B" "\<And>row. row \<in> set rows \<Longrightarrow> live g (f row) \<subseteq> live g row"
    and "\<And>M N row. row \<in> set rows \<Longrightarrow> Q N row \<Longrightarrow> M \<subseteq> N \<Longrightarrow> Q' M (f row)"
  shows "along g Q' B' (map f rows)"
  using assms
proof (induction rows arbitrary: B B')
  case (Cons row rows)
  have sub: "B' \<union> live g (f row) \<subseteq> B \<union> live g row" using Cons.prems(2) Cons.prems(3) [of row] by auto
  have "along g Q' (B' \<union> live g (f row)) (map f rows)"
    by (rule Cons.IH [OF _ sub]) (use Cons.prems in auto)
  moreover have "Q' (B' \<union> live g (f row)) (f row)" using Cons.prems(1,4) sub by auto
  ultimately show ?case by simp
qed simp

lemma along_filter:
  assumes "along g Q B rows" "B' \<subseteq> B" "\<And>M N row. Q N row \<Longrightarrow> M \<subseteq> N \<Longrightarrow> Q M row"
  shows "along g Q B' (filter P rows)"
  using assms(1,2)
proof (induction rows arbitrary: B B')
  case (Cons row rows)
  then have here: "Q (B \<union> live g row) row" and rest: "along g Q (B \<union> live g row) rows" by auto
  have "along g Q B' (filter P rows)" "along g Q (B' \<union> live g row) (filter P rows)"
    using Cons.IH [OF rest, of B'] Cons.IH [OF rest, of "B' \<union> live g row"] Cons.prems(2) by auto
  moreover have "Q (B' \<union> live g row) row" by (rule assms(3) [OF here]) (use Cons.prems(2) in auto)
  ultimately show ?case by simp
qed simp

lemma along_append:
  "along g Q B (rows @ new) \<longleftrightarrow> along g Q B rows \<and> along g Q (B \<union> (\<Union>row \<in> set rows. live g row)) new"
  by (induction rows arbitrary: B) (auto simp: Un_assoc)

lemma along_all:
  assumes "\<And>row M. row \<in> set rows \<Longrightarrow> M \<subseteq> B \<union> (\<Union>row \<in> set rows. live g row) \<Longrightarrow> Q M row"
  shows "along g Q B rows"
  using assms
proof (induction rows arbitrary: B)
  case (Cons row rows)
  show ?case
  proof (simp, rule conjI)
    show "Q (B \<union> live g row) row" by (rule Cons.prems) auto
    show "along g Q (B \<union> live g row) rows" by (rule Cons.IH, rule Cons.prems) auto
  qed
qed simp

lemma along_conj: "along g (\<lambda>B row. P B row \<and> Q B row) B rows \<longleftrightarrow> along g P B rows \<and> along g Q B rows"
  by (induction rows arbitrary: B) auto

text \<open>The last row of those \<open>K\<close> selects has them all before it.\<close>

lemma along_last:
  assumes "along g (\<lambda>M row. K row \<longrightarrow> \<not> bad M) B rows" "\<And>M N. bad M \<Longrightarrow> M \<subseteq> N \<Longrightarrow> bad N" "\<not> bad B"
    and "\<And>row. row \<in> set rows \<Longrightarrow> live g row \<noteq> {} \<Longrightarrow> K row"
  shows "\<not> bad (B \<union> (\<Union>row \<in> set rows. live g row))"
  using assms(1,3,4)
proof (induction rows arbitrary: B)
  case (Cons row rows)
  have "\<not> bad (B \<union> live g row)"
  proof (cases "live g row = {}")
    case False
    then have "K row" using Cons.prems(3) [of row] by simp
    then show ?thesis using Cons.prems(1) by simp
  qed (use Cons.prems in simp)
  then have "\<not> bad (B \<union> live g row \<union> (\<Union>row \<in> set rows. live g row))"
    using Cons.IH [of "B \<union> live g row"] Cons.prems(1,3) by simp
  then show ?case by (simp add: Un_assoc)
qed simp

section \<open>Nothing is lost\<close>

abbreviation event_group :: "trigger_event \<Rightarrow> string \<times> string" where
  "event_group ev \<equiv> (tev_automation ev, tev_correlation ev)"

fun held_events :: "phase \<Rightarrow> trigger_event list option" where
  "held_events Idle = None"
| "held_events (Holding events) = Some events"
| "held_events (Decided events v) = Some events"

text \<open>Whoever holds a group has read all that stood in the queue up to the rows it has leased.\<close>

definition has_read :: "string \<Rightarrow> trigger_event list \<Rightarrow> queued_row list \<Rightarrow> bool" where
  "has_read holder events rows \<longleftrightarrow>
     (\<exists>g. events \<noteq> [] \<and> (\<forall>ev \<in> set events. event_group ev = g) \<and>
        along g (\<lambda>M row. leased_by holder g row \<longrightarrow> M \<subseteq> set events) {} rows)"

text \<open>What stood in the queue up to an evaluated event does not satisfy the condition.\<close>

definition unmet :: "trigger_state \<Rightarrow> string \<times> string \<Rightarrow> queued_row list \<Rightarrow> bool" where
  "unmet T g rows \<longleftrightarrow>
     along g (\<lambda>M row. group_of row = g \<and> te_status row = EvEvaluated \<longrightarrow> \<not> group_satisfied (fst g) (tev_trigger ` M) T) {} rows"

definition kept_inv :: "externals \<Rightarrow> (nat \<Rightarrow> string) \<Rightarrow> trigger_state \<Rightarrow> trig_system \<Rightarrow> bool" where
  "kept_inv E owner T S \<longleftrightarrow>
     (\<forall>g r. map_of (tr_evaluations (sy_store S)) g = Some r \<longrightarrow> has_run E (sy_store S) g) \<and>
     (\<forall>p events v. sy_phase S p = Decided events v \<longrightarrow>
        vd_run v = group_run_id E (vd_group v) \<and> list_all (\<lambda>ev. event_group ev = vd_group v) events \<and>
        vd_satisfied v = group_satisfied (fst (vd_group v)) (tev_trigger ` set events) T) \<and>
     (\<forall>p events. held_events (sy_phase S p) = Some events \<longrightarrow> has_read (owner p) events (tr_events (sy_store S))) \<and>
     (\<forall>g. \<not> has_run E (sy_store S) g \<longrightarrow> unmet T g (tr_events (sy_store S)))"

lemma kept_invD:
  assumes "kept_inv E owner T S"
  shows "map_of (tr_evaluations (sy_store S)) g = Some r \<Longrightarrow> has_run E (sy_store S) g"
    and "sy_phase S p = Decided events v \<Longrightarrow> vd_run v = group_run_id E (vd_group v)"
    and "sy_phase S p = Decided events v \<Longrightarrow> list_all (\<lambda>ev. event_group ev = vd_group v) events"
    and "sy_phase S p = Decided events v \<Longrightarrow> vd_satisfied v = group_satisfied (fst (vd_group v)) (tev_trigger ` set events) T"
    and "held_events (sy_phase S p) = Some events \<Longrightarrow> has_read (owner p) events (tr_events (sy_store S))"
    and "\<not> has_run E (sy_store S) g \<Longrightarrow> unmet T g (tr_events (sy_store S))"
  using assms unfolding kept_inv_def by blast+

lemma has_read_map:
  assumes "has_read holder events rows" "\<And>row g. live g (f row) \<subseteq> live g row" "\<And>row g. leased_by holder g (f row) \<Longrightarrow> leased_by holder g row"
  shows "has_read holder events (map f rows)"
proof -
  obtain g where g: "events \<noteq> []" "\<forall>ev \<in> set events. event_group ev = g"
    and along: "along g (\<lambda>M row. leased_by holder g row \<longrightarrow> M \<subseteq> set events) {} rows"
    using assms(1) by (auto simp: has_read_def)
  have "along g (\<lambda>M row. leased_by holder g row \<longrightarrow> M \<subseteq> set events) {} (map f rows)"
    by (rule along_map [OF along]) (use assms(2) [of g] assms(3) [of g] in blast)+
  then show ?thesis unfolding has_read_def using g by blast
qed

lemma unmet_weaken:
  "C \<longrightarrow> \<not> group_satisfied a (tev_trigger ` N) T \<Longrightarrow> M \<subseteq> N \<Longrightarrow> (C' \<Longrightarrow> C) \<Longrightarrow> C' \<longrightarrow> \<not> group_satisfied a (tev_trigger ` M) T"
  by (metis group_satisfied_mono image_mono)

lemma unmet_map:
  assumes "unmet T g rows" "\<And>row. live g (f row) \<subseteq> live g row"
    and "\<And>row. group_of (f row) = g \<Longrightarrow> te_status (f row) = EvEvaluated \<Longrightarrow> group_of row = g \<and> te_status row = EvEvaluated"
  shows "unmet T g (map f rows)"
  using assms(1) unfolding unmet_def
proof (rule along_map)
  show "live g (f row) \<subseteq> live g row" for row by (rule assms(2))
  show "group_of (f row) = g \<and> te_status (f row) = EvEvaluated \<longrightarrow> \<not> group_satisfied (fst g) (tev_trigger ` M) T"
    if "group_of row = g \<and> te_status row = EvEvaluated \<longrightarrow> \<not> group_satisfied (fst g) (tev_trigger ` N) T" "M \<subseteq> N" for M N row
    using that by (rule unmet_weaken) (use assms(3) in blast)
qed simp

lemma has_read_filter: "has_read holder events rows \<Longrightarrow> has_read holder events (filter P rows)"
proof -
  assume "has_read holder events rows"
  then obtain g where g: "events \<noteq> []" "\<forall>ev \<in> set events. event_group ev = g"
    and along: "along g (\<lambda>M row. leased_by holder g row \<longrightarrow> M \<subseteq> set events) {} rows"
    by (auto simp: has_read_def)
  have "along g (\<lambda>M row. leased_by holder g row \<longrightarrow> M \<subseteq> set events) {} (filter P rows)"
    by (rule along_filter [OF along]) auto
  then show ?thesis unfolding has_read_def using g by blast
qed

lemma unmet_filter: "unmet T g rows \<Longrightarrow> unmet T g (filter P rows)"
  unfolding unmet_def by (erule along_filter) (simp, erule (1) unmet_weaken)

lemma has_read_pending: "has_read holder events rows \<Longrightarrow> te_status row = EvPending \<Longrightarrow> has_read holder events (rows @ [row])"
  by (auto simp: has_read_def along_append leased_by_def)

lemma unmet_pending: "unmet T g rows \<Longrightarrow> te_status row = EvPending \<Longrightarrow> unmet T g (rows @ [row])"
  by (simp add: unmet_def along_append)

text \<open>How the transactions without evaluation change the queue.\<close>

lemma enqueue_events:
  assumes "enqueue_trigger_event now ev key T = Ok (b, T')"
  shows "tr_events T' = tr_events T \<or>
    (\<exists>row. te_status row = EvPending \<and> tr_events T' = tr_events T @ [row] \<and> row_event_id row \<notin> row_event_id ` set (tr_events T))"
  using assms by (rule enqueue_outcome) force+

lemma fire_events:
  assumes "fire_due_schedule now t d n T = Ok (b, T')"
  shows "tr_events T' = tr_events T \<or>
    (\<exists>row. te_status row = EvPending \<and> tr_events T' = tr_events T @ [row] \<and> row_event_id row \<notin> row_event_id ` set (tr_events T))"
  using assms by (auto simp: fire_due_schedule_def Let_def dest!: enqueue_events split: option.splits if_splits)

lemma complete_custom_events:
  assumes "complete_custom_trigger now owner t poll ev key T = Ok (b, T')"
  shows "tr_events T' = tr_events T \<or>
    (\<exists>row. te_status row = EvPending \<and> tr_events T' = tr_events T @ [row] \<and> row_event_id row \<notin> row_event_id ` set (tr_events T))"
  using assms by (auto simp: complete_custom_trigger_def dest!: enqueue_events split: option.splits)

lemma table_exec_events:
  obtains P where "tr_events (table_exec act T) = filter P (tr_events T)"
  | row where "te_status row = EvPending" "tr_events (table_exec act T) = tr_events T @ [row]"
    "row_event_id row \<notin> row_event_id ` set (tr_events T)"
proof (cases "tr_events (table_exec act T) = tr_events T")
  case True
  then show thesis using that(1) [of "\<lambda>row. True"] by simp
next
  case False
  then show thesis
    using that
    by (cases act)
      (auto simp: committed_def committed_snd_def get_or_init_schedule_cursor_def upsert_custom_trigger_plugin_def
        cleanup_old_trigger_events_def fail_custom_trigger_def record_trigger_runtime_success_def
        record_trigger_runtime_failure_def upsert_automation_def set_automation_status_def delete_automation_def
        replace_frame fire_interval_automations Let_def
        dest!: enqueue_events fire_events complete_custom_events split: sum.splits option.splits if_splits)
qed

lemma table_exec_evaluations: "\<not> redefines act \<Longrightarrow> tr_evaluations (table_exec act T) = tr_evaluations T"
  by (cases act)
    (auto dest: enqueue_frame fire_frame complete_custom_frame
      simp: committed_def committed_snd_def get_or_init_schedule_cursor_def fire_interval_automations
      upsert_custom_trigger_plugin_def cleanup_old_trigger_events_def fail_custom_trigger_def
      record_trigger_runtime_success_def record_trigger_runtime_failure_def Let_def split: sum.splits option.splits)

lemma kept_inv_table:
  assumes "kept_inv E owner T S" "\<not> redefines act"
  shows "kept_inv E owner T (S\<lparr>sy_store := table_exec act (sy_store S), sy_queued := q\<rparr>)"
proof -
  have run: "has_run E (sy_store S) g \<Longrightarrow> has_run E (table_exec act (sy_store S)) g" for g by (rule table_exec_keeps_run)
  have "has_read holder events (tr_events (table_exec act (sy_store S)))"
    if "has_read holder events (tr_events (sy_store S))" for holder events
    by (rule table_exec_events [of act "sy_store S"]) (use that has_read_filter has_read_pending in auto)
  moreover have "unmet T g (tr_events (table_exec act (sy_store S)))" if "unmet T g (tr_events (sy_store S))" for g
    by (rule table_exec_events [of act "sy_store S"]) (use that unmet_filter unmet_pending in auto)
  ultimately show ?thesis
    using assms(1) run by (simp add: kept_inv_def table_exec_evaluations [OF assms(2)]) blast
qed

lemma in_group_events: "set (group_events g T) = (\<Union>row \<in> set (tr_events T). live g row)"
  by (auto simp: group_events_def in_order_def live_def)

text \<open>A lease changes the candidate alone and reads its whole group.\<close>

lemma lease_outcome:
  assumes "lease_trigger_group now held holder secs T = (events, T')"
  obtains f where "tr_events T' = map f (tr_events T)" "\<And>g row. live g (f row) = live g row"
    "\<And>row. te_status (f row) = EvEvaluated \<Longrightarrow> f row = row"
    "\<And>other g row. leased_by other g (f row) \<Longrightarrow> other \<noteq> holder \<Longrightarrow> f row = row"
    "\<And>row. group_of (f row) = group_of row"
    "events \<noteq> [] \<Longrightarrow> \<exists>g. set events = (\<Union>row \<in> set (tr_events T'). live g row) \<and> (\<forall>ev \<in> set events. event_group ev = g)"
proof (cases "lease_candidate now held T")
  case None
  then show thesis using assms by (intro that [of id]) (simp_all add: lease_trigger_group_def)
next
  case (Some c)
  let ?f = "\<lambda>row. if row_event_id row = row_event_id c \<and> claimable now row then lease_event now holder secs row else row"
  show thesis
  proof (rule that [of ?f])
    show "tr_events T' = map ?f (tr_events T)"
      using assms by (auto simp: lease_trigger_group_def Some modify_events_def Let_def)
    show "\<exists>g. set events = (\<Union>row \<in> set (tr_events T'). live g row) \<and> (\<forall>ev \<in> set events. event_group ev = g)"
      using assms
      by (intro exI [of _ "group_of c"]) (auto simp: lease_trigger_group_def Some Let_def in_group_events live_def split: if_splits)
  qed (auto simp: live_def lease_event_def claimable_def leased_by_def)
qed

lemma lease_candidate_group:
  assumes "lease_trigger_group now held holder secs T = (events, T')"
  shows "events = [] \<Longrightarrow> T' = T"
proof (cases "lease_candidate now held T")
  case (Some c)
  assume "events = []"
  have c: "c \<in> set (tr_events T)" "claimable now c"
    using first_SomeD [OF Some [unfolded lease_candidate_def]] by (auto simp: in_order_def)
  have "events = group_events (group_of c) T'" "lease_event now holder secs c \<in> set (tr_events T')"
    using assms c by (auto simp: lease_trigger_group_def Some Let_def modify_events_def)
  moreover have "live (group_of c) (lease_event now holder secs c) = {te_event c}" by (simp add: live_def lease_event_def)
  ultimately have "te_event c \<in> set events" using in_group_events [of "group_of c" T'] by blast
  then show ?thesis using \<open>events = []\<close> by simp
qed (use assms in \<open>simp add: lease_trigger_group_def\<close>)

lemma kept_inv_lease:
  assumes "kept_inv E owner T S" "inj owner" "lease_trigger_group now held (owner p) secs (sy_store S) = (events, T')" "events \<noteq> []"
  shows "kept_inv E owner T (S\<lparr>sy_store := T', sy_phase := (sy_phase S)(p := Holding events)\<rparr>)"
proof -
  obtain f where f: "tr_events T' = map f (tr_events (sy_store S))" "\<And>g row. live g (f row) = live g row"
    "\<And>row. te_status (f row) = EvEvaluated \<Longrightarrow> f row = row"
    "\<And>other g row. leased_by other g (f row) \<Longrightarrow> other \<noteq> owner p \<Longrightarrow> f row = row"
    "\<And>row. group_of (f row) = group_of row"
    and read: "events \<noteq> [] \<Longrightarrow> \<exists>g. set events = (\<Union>row \<in> set (tr_events T'). live g row) \<and> (\<forall>ev \<in> set events. event_group ev = g)"
    by (rule lease_outcome [OF assms(3)]) (rule that)
  have new: "has_read (owner p) events (tr_events T')"
  proof -
    obtain g where g: "set events = (\<Union>row \<in> set (tr_events T'). live g row)" "\<forall>ev \<in> set events. event_group ev = g"
      using read [OF assms(4)] by blast
    have "along g (\<lambda>M row. leased_by (owner p) g row \<longrightarrow> M \<subseteq> set events) {} (tr_events T')"
      by (rule along_all) (simp add: g(1))
    then show ?thesis unfolding has_read_def using g(2) assms(4) by blast
  qed
  have old: "has_read (owner q) evs (tr_events T')" if "has_read (owner q) evs (tr_events (sy_store S))" "q \<noteq> p" for q evs
  proof -
    have "owner q \<noteq> owner p" using assms(2) that(2) by (simp add: inj_eq)
    then have "leased_by (owner q) g row" if "leased_by (owner q) g (f row)" for g row using f(4) [OF that] that by simp
    then show ?thesis unfolding f(1) by (intro has_read_map [OF that(1)]) (simp_all add: f(2))
  qed
  have un: "unmet T g (tr_events T')" if "unmet T g (tr_events (sy_store S))" for g
    unfolding f(1)
  proof (rule unmet_map [OF that])
    show "group_of row = g \<and> te_status row = EvEvaluated" if "group_of (f row) = g" "te_status (f row) = EvEvaluated" for row
      using that f(3) [OF that(2)] by simp
  qed (simp add: f(2))
  have same: "has_run E T' g = has_run E (sy_store S) g" for g by (simp add: has_run_def lease_frame [OF assms(3)])
  show ?thesis
    using assms(1) new old un by (auto simp: kept_inv_def same lease_frame [OF assms(3)])
qed

lemma kept_inv_idle:
  assumes "kept_inv E owner T S"
  shows "kept_inv E owner T (S\<lparr>sy_phase := (sy_phase S)(p := Idle)\<rparr>)"
  using assms by (auto simp: kept_inv_def)

lemma kept_inv_retry:
  assumes "kept_inv E owner T S"
  shows "kept_inv E owner T (S\<lparr>sy_store := retry_group E now (owner p) events e (sy_store S), sy_phase := (sy_phase S)(p := Idle)\<rparr>)"
proof (cases events)
  case Nil
  then have "retry_group E now (owner p) events e (sy_store S) = sy_store S" by (simp add: retry_group_def)
  then show ?thesis using kept_inv_idle [OF assms, of p] by simp
next
  case (Cons ev rest)
  let ?T = "retry_group E now (owner p) events e (sy_store S)"
  define f where "f row = (if leased_by (owner p) (event_group ev) row
    then row\<lparr>te_status := (if te_attempts row \<ge> DEFAULT_MAX_ATTEMPTS then EvFailed else EvPending),
             te_available := now + seconds (retry_delay_seconds events), te_owner := None, te_expires := None,
             te_error := Some (evaluator_message E e), te_updated := now\<rparr> else row)" for row
  have rows: "tr_events ?T = map f (tr_events (sy_store S))"
    by (simp add: Cons retry_group_def retry_trigger_group_def modify_events_def f_def)
  have live: "live g (f row) \<subseteq> live g row" for g row by (auto simp: f_def live_def leased_by_def)
  have "has_read holder evs (tr_events ?T)" if "has_read holder evs (tr_events (sy_store S))" for holder evs
    unfolding rows by (rule has_read_map [OF that live]) (auto simp: f_def leased_by_def split: if_splits)
  moreover have "unmet T g (tr_events ?T)" if "unmet T g (tr_events (sy_store S))" for g
    unfolding rows by (rule unmet_map [OF that live]) (auto simp: f_def split: if_splits)
  moreover have "has_run E ?T g = has_run E (sy_store S) g" for g by (simp add: has_run_def)
  ultimately show ?thesis using assms by (auto simp: kept_inv_def)
qed

text \<open>What a completed evaluation does to the rows it had leased.\<close>

definition evaluated_row :: "int \<Rightarrow> string \<Rightarrow> string \<times> string \<Rightarrow> queued_row \<Rightarrow> queued_row" where
  "evaluated_row now holder g row =
     (if leased_by holder g row
      then row\<lparr>te_status := EvEvaluated, te_owner := None, te_expires := None, te_updated := now\<rparr> else row)"

lemma evaluated_row_event [simp]: "te_event (evaluated_row now holder g row) = te_event row"
  by (simp add: evaluated_row_def)

lemma evaluated_row_live: "live g (evaluated_row now holder h row) = live g row"
  by (auto simp: evaluated_row_def live_def leased_by_def)

lemma complete_events:
  assumes "complete_verdict now holder v T = Ok (created, T')"
  shows "tr_events T' = map (evaluated_row now holder (vd_group v)) (tr_events T)"
  using assms
  by (auto simp: complete_verdict_def complete_trigger_group_def create_group_run_def modify_events_def evaluated_row_def Let_def
      split: if_splits prod.splits)

lemma complete_evaluations:
  assumes "complete_verdict now holder v T = Ok (created, T')"
  shows "map_of (tr_evaluations T') g = Some r \<Longrightarrow> map_of (tr_evaluations T) g = Some r \<or> g = vd_group v \<and> vd_satisfied v"
    and "vd_satisfied v \<Longrightarrow> bt_contains (tr_evaluations T) (vd_group v) \<or> bt_contains (runs_of T') (vd_run v)"
  using assms
  by (auto simp: complete_verdict_def complete_trigger_group_def create_group_run_def modify_events_def Let_def
      split: if_splits prod.splits)

lemma complete_outcome:
  assumes "complete_verdict now holder v T = Ok (created, T')" "vd_run v = group_run_id E (vd_group v)"
    and "\<forall>g r. map_of (tr_evaluations T) g = Some r \<longrightarrow> has_run E T g"
  shows "vd_satisfied v \<Longrightarrow> has_run E T' (vd_group v)"
    and "map_of (tr_evaluations T') g = Some r \<Longrightarrow> has_run E T' g"
proof -
  have mono: "has_run E T h \<Longrightarrow> has_run E T' h" for h by (rule complete_run [OF assms(1,2)])
  show satisfied: "vd_satisfied v \<Longrightarrow> has_run E T' (vd_group v)"
    using complete_evaluations(2) [OF assms(1)] assms(2,3) mono [of "vd_group v"]
    unfolding bt_contains_def has_run_def by (metis not_None_eq)
  show "map_of (tr_evaluations T') g = Some r \<Longrightarrow> has_run E T' g"
    using complete_evaluations(1) [OF assms(1)] satisfied assms(3) mono by blast
qed

lemma unmet_complete:
  assumes "unmet T (vd_group v) rows" "has_read holder events rows" "list_all (\<lambda>ev. event_group ev = vd_group v) events"
    and "\<not> group_satisfied (fst (vd_group v)) (tev_trigger ` set events) T"
  shows "unmet T (vd_group v) (map (evaluated_row now holder (vd_group v)) rows)"
proof -
  let ?g = "vd_group v"
  have "along ?g (\<lambda>M row. leased_by holder ?g row \<longrightarrow> M \<subseteq> set events) {} rows"
  proof -
    obtain g where g: "events \<noteq> []" "\<forall>ev \<in> set events. event_group ev = g"
      and along: "along g (\<lambda>M row. leased_by holder g row \<longrightarrow> M \<subseteq> set events) {} rows"
      using assms(2) unfolding has_read_def by blast
    have "g = ?g" using g assms(3) by (cases events) auto
    then show ?thesis using along by simp
  qed
  then have "along ?g (\<lambda>M row. (group_of row = ?g \<and> te_status row = EvEvaluated \<longrightarrow> \<not> group_satisfied (fst ?g) (tev_trigger ` M) T) \<and>
      (leased_by holder ?g row \<longrightarrow> M \<subseteq> set events)) {} rows"
    using assms(1) by (simp add: along_conj unmet_def)
  then show ?thesis unfolding unmet_def
  proof (rule along_map)
    fix M N row
    assume row: "(group_of row = ?g \<and> te_status row = EvEvaluated \<longrightarrow> \<not> group_satisfied (fst ?g) (tev_trigger ` N) T) \<and>
      (leased_by holder ?g row \<longrightarrow> N \<subseteq> set events)" and sub: "M \<subseteq> N"
    show "group_of (evaluated_row now holder ?g row) = ?g \<and> te_status (evaluated_row now holder ?g row) = EvEvaluated \<longrightarrow>
      \<not> group_satisfied (fst ?g) (tev_trigger ` M) T"
    proof (cases "leased_by holder ?g row")
      case True
      then have "tev_trigger ` M \<subseteq> tev_trigger ` set events" using row sub by blast
      then show ?thesis using assms(4) group_satisfied_mono by blast
    next
      case False
      then show ?thesis using unmet_weaken [OF conjunct1 [OF row] sub] by (simp add: evaluated_row_def)
    qed
  qed (simp_all add: evaluated_row_live)
qed

lemma kept_inv_complete:
  assumes "kept_inv E owner T S" "sy_phase S p = Decided events v"
    and "complete_verdict now (owner p) v (sy_store S) = Ok (created, T')"
  shows "kept_inv E owner T (S\<lparr>sy_store := T', sy_phase := (sy_phase S)(p := Idle), sy_created := c\<rparr>)"
proof -
  note v = kept_invD(2-4) [OF assms(1,2)]
  have read: "has_read (owner p) events (tr_events (sy_store S))" by (rule kept_invD(5) [OF assms(1)]) (simp add: assms(2))
  have "\<forall>g r. map_of (tr_evaluations (sy_store S)) g = Some r \<longrightarrow> has_run E (sy_store S) g"
    using assms(1) unfolding kept_inv_def by blast
  note outcome = complete_events [OF assms(3)] complete_outcome [OF assms(3) v(1) this]
  have mono: "has_run E (sy_store S) g \<Longrightarrow> has_run E T' g" for g by (rule complete_run [OF assms(3) v(1)])
  have "has_read holder evs (tr_events T')" if "has_read holder evs (tr_events (sy_store S))" for holder evs
    unfolding outcome(1)
    by (rule has_read_map [OF that], simp add: evaluated_row_live) (auto simp: evaluated_row_def leased_by_def split: if_splits)
  moreover have "unmet T g (tr_events T')" if "\<not> has_run E T' g" for g
  proof -
    have unmet: "unmet T g (tr_events (sy_store S))" using kept_invD(6) [OF assms(1)] mono that by blast
    show ?thesis
    proof (cases "g = vd_group v")
      case True
      then have "\<not> vd_satisfied v" using outcome(2) that by blast
      then show ?thesis using unmet_complete [OF _ read v(2)] unmet v(3) True outcome(1) by simp
    next
      case False
      then show ?thesis
        unfolding outcome(1)
        by (intro unmet_map [OF unmet], simp add: evaluated_row_live)
          (auto simp: evaluated_row_def leased_by_def split: if_splits)
    qed
  qed
  ultimately show ?thesis using assms(1) outcome(3) by (auto simp: kept_inv_def)
qed

lemma kept_inv_exec:
  assumes "kept_inv E owner T S" "inj owner" "\<not> redefines act"
    and "\<And>a N. group_satisfied a N (sy_store S) = group_satisfied a N T"
  shows "kept_inv E owner T (trig_exec E owner act S)"
proof (cases act rule: action_cases)
  case (Lease now held secs p)
  obtain events T' where leased: "lease_trigger_group now held (owner p) secs (sy_store S) = (events, T')" by fastforce
  show ?thesis
  proof (cases "events = []")
    case True
    then have "T' = sy_store S"
      using leased lease_candidate_group [OF leased] by simp
    then show ?thesis using True assms(1) kept_inv_idle [OF assms(1), of p] by (simp add: Lease leased)
  next
    case False
    then show ?thesis using assms(1) kept_inv_lease [OF assms(1,2) leased False] by (simp add: Lease leased)
  qed
next
  case (Assess p)
  show ?thesis
  proof (cases "sy_phase S p")
    case (Holding events)
    then show ?thesis
      using assms(1) assess_verdict assess_satisfied assms(4)
      by (auto simp: Assess kept_inv_def split: sum.splits)
  qed (use assms(1) in \<open>simp_all add: Assess\<close>)
next
  case (Complete now p)
  show ?thesis
  proof (cases "sy_phase S p")
    case (Decided events v)
    show ?thesis
      using assms(1) kept_inv_complete [OF assms(1) Decided] by (auto simp: Complete Decided split: sum.splits)
  qed (use assms(1) in \<open>simp_all add: Complete\<close>)
next
  case (Retry now p e)
  then show ?thesis using assms(1) kept_inv_retry [OF assms(1)] by (simp split: phase.split)
next
  case (Crash p)
  then show ?thesis using kept_inv_idle [OF assms(1)] by simp
next
  case Table
  then show ?thesis using kept_inv_table [OF assms(1,3)] by (simp add: trig_exec_table)
qed

lemma kept_inv_reach:
  assumes "trig_reach E owner (\<lambda>act. \<not> redefines act) T S" "inj owner"
  shows "kept_inv E owner T S"
  using assms(1)
proof (induction rule: trig_reach.induct)
  case start
  then show ?case by (simp add: kept_inv_def started_system_def unmet_def)
next
  case (act S act)
  then show ?case using kept_inv_exec [OF act.IH assms(2) act.hyps(2)] policy_reach [OF act.hyps(1)] by blast
qed

lemma events_of_group:
  assumes "\<forall>row \<in> set rows. group_of row = g \<longrightarrow> te_status row \<in> {EvEvaluated, EvFailed}"
  shows "(\<Union>row \<in> set rows. live g row) = te_event ` {row \<in> set rows. group_of row = g \<and> te_status row = EvEvaluated}"
  using assms by (auto simp: live_def)

section \<open>Nothing is made up\<close>

definition source_inv :: "trigger_state \<Rightarrow> trig_system \<Rightarrow> bool" where
  "source_inv T S \<longleftrightarrow>
     (\<forall>row \<in> set (tr_events (sy_store S)). te_event row \<in> set (sy_queued S)) \<and>
     (\<forall>p events. held_events (sy_phase S p) = Some events \<longrightarrow> set events \<subseteq> set (sy_queued S)) \<and>
     (\<forall>p events v. sy_phase S p = Decided events v \<longrightarrow> list_all (\<lambda>ev. event_group ev = vd_group v) events \<and>
        vd_satisfied v = group_satisfied (fst (vd_group v)) (tev_trigger ` set events) T) \<and>
     (\<forall>g \<in> set (sy_created S). group_satisfied (fst g) (tev_trigger ` {ev \<in> set (sy_queued S). event_group ev = g}) T)"

lemma group_satisfied_more:
  "group_satisfied a (tev_trigger ` {ev \<in> A. event_group ev = g}) T \<Longrightarrow> A \<subseteq> B \<Longrightarrow>
   group_satisfied a (tev_trigger ` {ev \<in> B. event_group ev = g}) T"
  by (erule group_satisfied_mono) auto

lemma source_inv_table:
  assumes "source_inv T S"
  shows "source_inv T (S\<lparr>sy_store := table_exec act (sy_store S),
           sy_queued := sy_queued S @ arrivals (sy_store S) (table_exec act (sy_store S))\<rparr>)"
proof -
  have "te_event row \<in> set (sy_queued S) \<union> set (arrivals (sy_store S) (table_exec act (sy_store S)))"
    if "row \<in> set (tr_events (table_exec act (sy_store S)))" for row
    by (rule table_exec_events [of act "sy_store S"])
      (use assms that in \<open>auto simp: source_inv_def arrivals_def list_ex_iff image_iff\<close>)
  moreover have "group_satisfied (fst g) (tev_trigger ` {ev \<in> set (sy_queued S) \<union> set new. event_group ev = g}) T"
    if "g \<in> set (sy_created S)" for g new
    by (rule group_satisfied_more [of _ "set (sy_queued S)"]) (use assms that in \<open>simp_all add: source_inv_def\<close>)
  ultimately show ?thesis using assms by (simp add: source_inv_def) blast
qed

lemma source_inv_same_rows:
  assumes "source_inv T S" "te_event ` set (tr_events T') \<subseteq> te_event ` set (tr_events (sy_store S))"
  shows "source_inv T (S\<lparr>sy_store := T', sy_phase := (sy_phase S)(p := Idle)\<rparr>)"
proof -
  have "te_event ` set (tr_events (sy_store S)) \<subseteq> set (sy_queued S)" using assms(1) unfolding source_inv_def by blast
  then have "\<forall>row \<in> set (tr_events T'). te_event row \<in> set (sy_queued S)" using assms(2) by blast
  then show ?thesis using assms(1) by (simp add: source_inv_def)
qed

lemma complete_created:
  "complete_verdict now holder v T = Ok (created, T') \<Longrightarrow> created \<Longrightarrow> vd_satisfied v"
  by (auto simp: complete_verdict_def complete_trigger_group_def split: if_splits)

lemma lease_events_same:
  "lease_trigger_group now held holder secs T = (events, T') \<Longrightarrow> map te_event (tr_events T') = map te_event (tr_events T)"
  by (auto simp: lease_trigger_group_def modify_events_def lease_event_def Let_def split: option.splits)

lemma source_inv_exec:
  assumes "source_inv T S" "\<And>a N. group_satisfied a N (sy_store S) = group_satisfied a N T"
  shows "source_inv T (trig_exec E owner act S)"
proof (cases act rule: action_cases)
  case (Lease now held secs p)
  obtain events T' where leased: "lease_trigger_group now held (owner p) secs (sy_store S) = (events, T')" by fastforce
  have rows: "te_event ` set (tr_events T') = te_event ` set (tr_events (sy_store S))"
    using lease_events_same [OF leased] by (metis set_map)
  have "set events \<subseteq> te_event ` set (tr_events T')"
    using leased by (auto simp: lease_trigger_group_def Let_def group_events_def in_order_def split: option.splits)
  then have "set events \<subseteq> set (sy_queued S)" using assms(1) unfolding rows source_inv_def by blast
  moreover have "source_inv T (S\<lparr>sy_store := T', sy_phase := (sy_phase S)(p := Idle)\<rparr>)"
    by (rule source_inv_same_rows [OF assms(1)]) (simp add: rows)
  ultimately show ?thesis using assms(1) by (simp add: Lease leased source_inv_def)
next
  case (Assess p)
  show ?thesis
  proof (cases "sy_phase S p")
    case (Holding events)
    then have "set events \<subseteq> set (sy_queued S)" using assms(1) unfolding source_inv_def by (metis held_events.simps(2))
    then show ?thesis
      using Holding assms(1) assess_verdict(2) assess_satisfied assms(2)
      by (auto simp: Assess source_inv_def split: sum.splits)
  qed (use assms(1) in \<open>simp_all add: Assess\<close>)
next
  case (Complete now p)
  show ?thesis
  proof (cases "sy_phase S p")
    case (Decided events v)
    show ?thesis
    proof (cases "complete_verdict now (owner p) v (sy_store S)")
      case (Inr result)
      obtain created T' where r: "result = (created, T')" by (cases result)
      have rows: "te_event ` set (tr_events T') = te_event ` set (tr_events (sy_store S))"
        using complete_events [OF Inr [unfolded r]] by (simp add: image_image)
      have "group_satisfied (fst (vd_group v)) (tev_trigger ` {ev \<in> set (sy_queued S). event_group ev = vd_group v}) T" if created
      proof (rule group_satisfied_mono)
        show "group_satisfied (fst (vd_group v)) (tev_trigger ` set events) T"
          using complete_created [OF Inr [unfolded r] that] assms(1) Decided by (simp add: source_inv_def)
        show "tev_trigger ` set events \<subseteq> tev_trigger ` {ev \<in> set (sy_queued S). event_group ev = vd_group v}"
        proof (intro image_mono subsetI CollectI conjI)
          fix ev assume ev: "ev \<in> set events"
          show "ev \<in> set (sy_queued S)" using ev assms(1) Decided unfolding source_inv_def by (metis held_events.simps(3) subsetD)
          show "event_group ev = vd_group v" using ev assms(1) Decided unfolding source_inv_def list_all_iff by metis
        qed
      qed
      moreover have "source_inv T (S\<lparr>sy_store := T', sy_phase := (sy_phase S)(p := Idle)\<rparr>)"
        by (rule source_inv_same_rows [OF assms(1)]) (simp add: rows)
      ultimately show ?thesis by (simp add: Complete Decided Inr r source_inv_def) blast
    qed (use assms(1) in \<open>simp add: Complete Decided\<close>)
  qed (use assms(1) in \<open>simp_all add: Complete\<close>)
next
  case (Retry now p e)
  have "te_event ` set (tr_events (retry_group E now (owner p) events e (sy_store S))) \<subseteq> te_event ` set (tr_events (sy_store S))" for events
    by (cases events) (auto simp: retry_group_def retry_trigger_group_def modify_events_def)
  then show ?thesis using assms(1) source_inv_same_rows [OF assms(1)] by (simp add: Retry split: phase.split)
next
  case (Crash p)
  then show ?thesis using source_inv_same_rows [OF assms(1), of "sy_store S" p] by simp
next
  case Table
  then show ?thesis using source_inv_table [OF assms(1)] by (simp add: trig_exec_table)
qed

lemma source_inv_reach: "trig_reach E owner (\<lambda>act. \<not> redefines act) T S \<Longrightarrow> source_inv T S"
proof (induction rule: trig_reach.induct)
  case start
  then show ?case by (simp add: source_inv_def started_system_def)
next
  case (act S act)
  then show ?case using source_inv_exec [OF act.IH] policy_reach [OF act.hyps(1)] by blast
qed

section \<open>What an automation asks for\<close>

text \<open>The condition of an automation, as its JSON says it: a name is met by an event of that trigger,
  \<open>all\<close> by every part and \<open>any\<close> by one. A condition is well formed when every name and every group in
  it is not empty.\<close>

inductive condition_met :: "string set \<Rightarrow> json \<Rightarrow> bool" for names where
  named: "text_field j ''trigger'' = Some t \<Longrightarrow> t \<in> names \<Longrightarrow> condition_met names j"
| all_of: "text_field j ''trigger'' = None \<Longrightarrow> array_field j ''all'' = Some js \<Longrightarrow>
    (\<And>x. x \<in> set js \<Longrightarrow> condition_met names x) \<Longrightarrow> condition_met names j"
| any_of: "text_field j ''trigger'' = None \<Longrightarrow> array_field j ''all'' = None \<Longrightarrow> array_field j ''any'' = Some js \<Longrightarrow>
    x \<in> set js \<Longrightarrow> condition_met names x \<Longrightarrow> condition_met names j"

inductive well_formed_condition :: "json \<Rightarrow> bool" where
  "text_field j ''trigger'' = Some t \<Longrightarrow> trim t \<noteq> [] \<Longrightarrow> well_formed_condition j"
| "text_field j ''trigger'' = None \<Longrightarrow> array_field j ''all'' = Some js \<Longrightarrow> js \<noteq> [] \<Longrightarrow>
    (\<And>x. x \<in> set js \<Longrightarrow> well_formed_condition x) \<Longrightarrow> well_formed_condition j"
| "text_field j ''trigger'' = None \<Longrightarrow> array_field j ''all'' = None \<Longrightarrow> array_field j ''any'' = Some js \<Longrightarrow> js \<noteq> [] \<Longrightarrow>
    (\<And>x. x \<in> set js \<Longrightarrow> well_formed_condition x) \<Longrightarrow> well_formed_condition j"

text \<open>Names of events meet an automation when it is enabled, its rows can be read, its condition is well
  formed, and the names among its enabled triggers meet the condition.\<close>

definition triggers_of :: "string \<Rightarrow> trigger_state \<Rightarrow> automation_trigger set" where
  "triggers_of a T = {t \<in> set (bt_values (tr_triggers T)). at_automation t = a}"

definition automation_met :: "string \<Rightarrow> string set \<Rightarrow> trigger_state \<Rightarrow> bool" where
  "automation_met a names T \<longleftrightarrow>
     (\<exists>row. map_of (tr_automations T) a = Some row \<and> au_status (ar_automation row) = AutoEnabled \<and>
        trim (au_id (ar_automation row)) \<noteq> [] \<and> trim (au_workflow (ar_automation row)) \<noteq> [] \<and>
        (\<forall>t \<in> triggers_of a T. trim (at_automation t) \<noteq> [] \<and> trim (at_name t) \<noteq> []) \<and>
        well_formed_condition (ar_condition row) \<and>
        condition_met (names \<inter> {at_name t |t. t \<in> triggers_of a T \<and> at_enabled t}) (ar_condition row))"

lemma try_map_same:
  assumes "\<And>x y. f x = Ok y \<Longrightarrow> y = x"
  shows "try_map f xs = Ok ys \<longleftrightarrow> ys = xs \<and> (\<forall>x \<in> set xs. f x = Ok x)"
  by (induction xs arbitrary: ys) (auto dest: assms)

lemma try_map_each: "try_map f xs = Ok ys \<longleftrightarrow> list_all2 (\<lambda>x y. f x = Ok y) xs ys"
proof (induction xs arbitrary: ys)
  case (Cons x xs)
  then show ?case by (cases ys) auto
qed (auto simp: list_all2_Nil)

lemma try_map_total: "(\<exists>ys. try_map f xs = Ok ys) \<longleftrightarrow> (\<forall>x \<in> set xs. \<exists>y. f x = Ok y)"
proof (induction xs)
  case (Cons x xs)
  then show ?case by (auto; metis)
qed simp

lemma read_group:
  assumes "try_map condition_from_json js = Ok es"
  shows "list_all (\<lambda>e. cond_validate e = Ok ()) es" "es = [] \<longleftrightarrow> js = []"
proof -
  show "list_all (\<lambda>e. cond_validate e = Ok ()) es"
    by (auto simp: list_all_iff dest!: try_map_set [OF assms] intro: condition_from_json_valid)
  show "es = [] \<longleftrightarrow> js = []" using assms list_all2_lengthD [of _ js es] by (auto simp: try_map_each)
qed

lemma valid_groups:
  assumes "list_all (\<lambda>e. cond_validate e = Ok ()) es"
  shows "valid_condition (CondAll es) = Ok c \<longleftrightarrow> es \<noteq> [] \<and> c = CondAll es"
    "valid_condition (CondAny es) = Ok c \<longleftrightarrow> es \<noteq> [] \<and> c = CondAny es"
  using assms by (auto simp: valid_condition_def try_for_each_eq_Inr list_all_iff)

lemma read_groups:
  assumes "Cond \<in> {CondAll, CondAny}"
  shows "and_then (try_map condition_from_json js) (\<lambda>es. valid_condition (Cond es)) = Ok c \<longleftrightarrow>
    js \<noteq> [] \<and> (\<exists>es. list_all2 (\<lambda>x e. condition_from_json x = Ok e) js es \<and> c = Cond es)"
proof (cases "try_map condition_from_json js")
  case (Inl e)
  then have "\<nexists>es. list_all2 (\<lambda>x e. condition_from_json x = Ok e) js es" by (simp flip: try_map_each)
  then show ?thesis by (simp add: Inl)
next
  case (Inr es)
  then have es: "list_all2 (\<lambda>x e. condition_from_json x = Ok e) js es' \<longleftrightarrow> es' = es" for es' by (auto simp flip: try_map_each)
  have "valid_condition (Cond es) = Ok c \<longleftrightarrow> es \<noteq> [] \<and> c = Cond es"
    using assms valid_groups [OF read_group(1) [OF Inr]] by blast
  then show ?thesis by (simp add: Inr es read_group(2) [OF Inr])
qed

lemmas read_all = read_groups [of CondAll, OF insertI1]
lemmas read_any = read_groups [of CondAny, OF insertI2 [OF insertI1]]

lemma condition_from_json_iff:
  "condition_from_json j = Ok c \<longleftrightarrow>
     (case text_field j ''trigger'' of
        Some t \<Rightarrow> trim t \<noteq> [] \<and> c = CondTrigger t
      | None \<Rightarrow>
          (case array_field j ''all'' of
             Some js \<Rightarrow> js \<noteq> [] \<and> (\<exists>es. list_all2 (\<lambda>x e. condition_from_json x = Ok e) js es \<and> c = CondAll es)
           | None \<Rightarrow>
               (case array_field j ''any'' of
                  Some js \<Rightarrow> js \<noteq> [] \<and> (\<exists>es. list_all2 (\<lambda>x e. condition_from_json x = Ok e) js es \<and> c = CondAny es)
                | None \<Rightarrow> False)))"
  by (cases "text_field j ''trigger''"; cases "array_field j ''all''"; cases "array_field j ''any''")
    (simp_all add: condition_from_json.simps [of j] read_all read_any trigger_name_new_def del: and_then_eq_Inr, auto)

lemma well_formed_condition_iff:
  "well_formed_condition j \<longleftrightarrow>
     (case text_field j ''trigger'' of
        Some t \<Rightarrow> trim t \<noteq> []
      | None \<Rightarrow>
          (case array_field j ''all'' of
             Some js \<Rightarrow> js \<noteq> [] \<and> (\<forall>x \<in> set js. well_formed_condition x)
           | None \<Rightarrow>
               (case array_field j ''any'' of
                  Some js \<Rightarrow> js \<noteq> [] \<and> (\<forall>x \<in> set js. well_formed_condition x)
                | None \<Rightarrow> False)))"
  by (subst well_formed_condition.simps) (auto split: option.splits)

lemma condition_met_iff:
  "condition_met names j \<longleftrightarrow>
     (case text_field j ''trigger'' of
        Some t \<Rightarrow> t \<in> names
      | None \<Rightarrow>
          (case array_field j ''all'' of
             Some js \<Rightarrow> \<forall>x \<in> set js. condition_met names x
           | None \<Rightarrow>
               (case array_field j ''any'' of
                  Some js \<Rightarrow> \<exists>x \<in> set js. condition_met names x
                | None \<Rightarrow> False)))"
  by (subst condition_met.simps) (auto split: option.splits)

lemma list_all2_total: "(\<exists>ys. list_all2 P xs ys) \<longleftrightarrow> (\<forall>x \<in> set xs. \<exists>y. P x y)"
  by (induction xs) (auto simp: list_all2_Cons1)

lemma list_all2_same:
  assumes "list_all2 P xs ys" "\<And>x y. x \<in> set xs \<Longrightarrow> P x y \<Longrightarrow> Q x \<longleftrightarrow> R y"
  shows "(\<forall>x \<in> set xs. Q x) \<longleftrightarrow> list_all R ys" "(\<exists>x \<in> set xs. Q x) \<longleftrightarrow> list_ex R ys"
  using assms by (induction rule: list_all2_induct) simp_all

text \<open>Reading the condition accepts the well formed ones, and what is read is met alike.\<close>

lemma read_condition_total: "(\<exists>c. condition_from_json j = Ok c) \<longleftrightarrow> well_formed_condition j"
proof (induction j rule: condition_from_json.induct)
  case (1 j)
  then show ?case
    by (subst condition_from_json_iff, subst well_formed_condition_iff)
      (auto simp: list_all2_total split: option.splits)
qed

lemma read_condition_met: "condition_from_json j = Ok c \<Longrightarrow> cond_evaluate c names \<longleftrightarrow> condition_met names j"
proof (induction j arbitrary: c rule: condition_from_json.induct)
  case (1 j)
  note read = 1(3) [unfolded condition_from_json_iff [of j]]
  note parts = list_all2_same [where P = "\<lambda>x e. condition_from_json x = Ok e" and Q = "condition_met names" and R = "\<lambda>e. cond_evaluate e names"]
  show ?case
  proof (cases "text_field j ''trigger''")
    case None
    show ?thesis
    proof (cases "array_field j ''all''")
      case (Some js)
      obtain es where es: "list_all2 (\<lambda>x e. condition_from_json x = Ok e) js es" "c = CondAll es" using read None Some by auto
      have "(\<forall>x \<in> set js. condition_met names x) \<longleftrightarrow> list_all (\<lambda>e. cond_evaluate e names) es"
        by (rule parts(1) [OF es(1)]) (use 1(2) [OF None Some] in simp)
      then show ?thesis by (simp add: condition_met_iff [of names j] None Some es(2))
    next
      case no_all: None
      show ?thesis
      proof (cases "array_field j ''any''")
        case (Some js)
        obtain es where es: "list_all2 (\<lambda>x e. condition_from_json x = Ok e) js es" "c = CondAny es" using read None no_all Some by auto
        have "(\<exists>x \<in> set js. condition_met names x) \<longleftrightarrow> list_ex (\<lambda>e. cond_evaluate e names) es"
          by (rule parts(2) [OF es(1)]) (use 1(1) [OF None no_all Some] in simp)
        then show ?thesis by (simp add: condition_met_iff [of names j] None no_all Some es(2))
      qed (use read None no_all in simp)
    qed
  qed (use read in \<open>simp add: condition_met_iff [of names j]\<close>)
qed

lemma row_to_automation_trigger_same: "row_to_automation_trigger t = Ok u \<longleftrightarrow> u = t \<and> trim (at_automation t) \<noteq> [] \<and> trim (at_name t) \<noteq> []"
  by (auto simp: row_to_automation_trigger_def persisted_id_def trigger_name_new_def)

lemma list_automation_triggers_Ok:
  "list_automation_triggers a T = Ok (ts, j) \<longleftrightarrow>
     ts = sort_key at_name (filter (\<lambda>t. at_automation t = a) (bt_values (tr_triggers T))) \<and>
     (\<forall>t \<in> triggers_of a T. trim (at_automation t) \<noteq> [] \<and> trim (at_name t) \<noteq> []) \<and>
     j = (case map_of (tr_automations T) a of None \<Rightarrow> JsonObject [] | Some row \<Rightarrow> ar_condition row)"
  using try_map_same [of row_to_automation_trigger]
  by (auto simp: list_automation_triggers_def row_to_automation_trigger_same triggers_of_def)

lemma find_automation_Some:
  "find_automation a T = Ok (Some au) \<longleftrightarrow>
     (\<exists>row. map_of (tr_automations T) a = Some row \<and> au = ar_automation row \<and>
        trim (au_id (ar_automation row)) \<noteq> [] \<and> trim (au_workflow (ar_automation row)) \<noteq> [])"
  by (auto simp: find_automation_def row_to_automation_def persisted_id_def Let_def split: option.splits)

lemma group_satisfied_met: "group_satisfied a names T \<longleftrightarrow> automation_met a names T"
proof -
  have enabled: "set (enabled_names (sort_key at_name (filter (\<lambda>t. at_automation t = a) (bt_values (tr_triggers T))))) =
      {at_name t |t. t \<in> triggers_of a T \<and> at_enabled t}"
    by (auto simp: enabled_names_def triggers_of_def)
  show ?thesis
    unfolding group_satisfied_iff automation_met_def find_automation_Some list_automation_triggers_Ok
      read_condition_total [symmetric]
    by (auto simp: enabled read_condition_met; metis read_condition_met)
qed

section \<open>The properties\<close>

text \<open>C8. No satisfied group is dropped: while no automation is edited, enabled, disabled or deleted, and
  when the evaluators lease under different names, a group with no event left pending or leased has
  a run if its evaluated events satisfy the condition of the enabled automation. Events may arrive
  while an evaluator holds the group, and evaluators may stop or lose their lease at any point;
  events that failed eight times do not count.\<close>

theorem satisfied_group_has_run:
  assumes "inj owner" "trig_reach E owner (\<lambda>act. \<not> redefines act) T S"
    and "\<forall>row \<in> set (tr_events (sy_store S)). group_of row = g \<longrightarrow> te_status row \<in> {EvEvaluated, EvFailed}"
    and "automation_met (fst g)
           (tev_trigger ` te_event ` {row \<in> set (tr_events (sy_store S)). group_of row = g \<and> te_status row = EvEvaluated}) T"
  shows "bt_contains (runs_of (sy_store S)) (deterministic_run_id (ex_sha E) (fst g) (snd g))"
proof (rule ccontr)
  assume "\<not> ?thesis"
  then have "unmet T g (tr_events (sy_store S))"
    using kept_invD(6) [OF kept_inv_reach [OF assms(2,1)]] by (simp add: has_run_def group_run_id_def)
  then have "\<not> group_satisfied (fst g) (tev_trigger ` ({} \<union> (\<Union>row \<in> set (tr_events (sy_store S)). live g row))) T"
    unfolding unmet_def
  proof (rule along_last)
    show "group_satisfied (fst g) (tev_trigger ` N) T" if "group_satisfied (fst g) (tev_trigger ` M) T" "M \<subseteq> N" for M N
      using that by (meson group_satisfied_mono image_mono)
    show "group_of row = g \<and> te_status row = EvEvaluated" if "row \<in> set (tr_events (sy_store S))" "live g row \<noteq> {}" for row
      using that assms(3) by (auto simp: live_def split: if_splits)
  qed (simp add: group_satisfied_empty)
  then show False using assms(4) by (simp add: events_of_group [OF assms(3)] group_satisfied_met)
qed

text \<open>C10. No run is made up: while no automation is edited, enabled, disabled or deleted, a run is created
  only for a group of which the events that were queued satisfy the condition of the enabled
  automation.\<close>

theorem run_has_its_triggers:
  assumes "trig_reach E owner (\<lambda>act. \<not> redefines act) T S" "g \<in> set (sy_created S)"
  shows "automation_met (fst g) (tev_trigger ` {ev \<in> set (sy_queued S). event_group ev = g}) T"
  using source_inv_reach [OF assms(1)] assms(2) by (simp add: source_inv_def group_satisfied_met)

end
