(* ===== verification/Trigger_Schedules.thy ===== *)
theory Trigger_Schedules
  imports Trigger_Safety
begin

text \<open>
  Schedules: several evaluators poll the same cron trigger, and each of its occurrences is queued once,
  in order. What edits of a schedule and interval automations do is stated at the end.
\<close>

section \<open>What the queue gains\<close>

abbreviation for_trigger :: "string \<times> string \<Rightarrow> trigger_event \<Rightarrow> bool" where
  "for_trigger k ev \<equiv> (tev_automation ev, tev_trigger ev) = k"

lemma arrivals_filter: "tr_events T' = filter P (tr_events T) \<Longrightarrow> arrivals T T' = []"
  by (auto simp: arrivals_def list_ex_iff filter_empty_conv)

lemma arrivals_new:
  "tr_events T' = tr_events T @ [row] \<Longrightarrow> row_event_id row \<notin> row_event_id ` set (tr_events T) \<Longrightarrow> arrivals T T' = [te_event row]"
proof -
  assume rows: "tr_events T' = tr_events T @ [row]" and "row_event_id row \<notin> row_event_id ` set (tr_events T)"
  then have "\<not> list_ex (\<lambda>r. row_event_id r = row_event_id row) (tr_events T)"
    unfolding list_ex_iff by (metis image_eqI)
  moreover have "filter (\<lambda>row. \<not> list_ex (\<lambda>r. row_event_id r = row_event_id row) (tr_events T)) (tr_events T) = []"
    by (auto simp: filter_empty_conv list_ex_iff)
  ultimately show ?thesis by (simp add: arrivals_def rows)
qed

text \<open>The actions other than deliveries for \<open>k\<close>: schedules of \<open>k\<close> are advanced by \<open>nx\<close>, its automation is not deleted.\<close>

fun on_schedule :: "string \<times> string \<Rightarrow> (int \<Rightarrow> int) \<Rightarrow> trig_action \<Rightarrow> bool" where
  "on_schedule k nx (Deliver now ev key) = (\<not> for_trigger k ev)"
| "on_schedule k nx (CompleteCustom now owner t poll ev key) = (case ev of None \<Rightarrow> True | Some e \<Rightarrow> \<not> for_trigger k e)"
| "on_schedule k nx (Fire now t d m) = ((st_automation t, st_name t) = k \<longrightarrow> m = nx d)"
| "on_schedule k nx (DeleteAutomation a) = (a \<noteq> fst k)"
| "on_schedule k nx _ = True"

definition occurrence :: "(int \<Rightarrow> int) \<Rightarrow> int \<Rightarrow> nat \<Rightarrow> int" where
  "occurrence nx e i = (nx ^^ i) e"

lemma occurrence_simps [simp]: "occurrence nx e 0 = e" "occurrence nx e (Suc i) = nx (occurrence nx e i)"
  by (simp_all add: occurrence_def)

lemma occurrence_less:
  assumes "\<And>e. e < nx e"
  shows "i < m \<Longrightarrow> occurrence nx e i < occurrence nx e m"
proof (induction m)
  case (Suc m)
  then show ?case using assms [of "occurrence nx e m"] by (cases "i = m") auto
qed simp

lemma fmt_nat_no_sign: "fmt_nat m \<noteq> CHR ''-'' # s"
proof
  assume "fmt_nat m = CHR ''-'' # s"
  then obtain d where "d < 10" "CHR ''-'' = digit_char d" using fmt_nat_digits [of "CHR ''-''" m] by auto
  then have "(of_char (CHR ''-'') :: nat) = 48 + d" using of_char_digit by metis
  then show False by simp
qed

lemma fmt_int_inj: "fmt_int m = fmt_int n \<Longrightarrow> m = n"
  by (auto simp: fmt_int_def fmt_nat_no_sign fmt_nat_no_sign [symmetric] dest!: fmt_nat_inj split: if_splits)

lemma schedule_delivery_inj: "schedule_delivery d = schedule_delivery e \<Longrightarrow> d = e"
  by (simp add: schedule_delivery_def fmt_int_inj)

definition sched_inv :: "string \<times> string \<Rightarrow> (int \<Rightarrow> int) \<Rightarrow> int \<Rightarrow> nat \<Rightarrow> trig_system \<Rightarrow> bool" where
  "sched_inv k nx e m S \<longleftrightarrow>
     (case map_of (tr_cursors (sy_store S)) k of None \<Rightarrow> m = 0 | Some cur \<Rightarrow> cur_next cur = occurrence nx e m) \<and>
     filter (for_trigger k) (sy_queued S) = map (\<lambda>i. schedule_event (fst k) (snd k) (occurrence nx e i)) [0..<m] \<and>
     (\<forall>row \<in> set (tr_events (sy_store S)). for_trigger k (te_event row) \<longrightarrow>
        (\<exists>i < m. te_idempotency row = schedule_delivery (occurrence nx e i)))"

text \<open>Transactions that leave the cursor of \<open>k\<close> and add no event for it.\<close>

definition passes :: "string \<times> string \<Rightarrow> trigger_state \<Rightarrow> trigger_state \<Rightarrow> bool" where
  "passes k T T' \<longleftrightarrow>
     map_of (tr_cursors T') k = map_of (tr_cursors T) k \<and>
     ((\<exists>P. tr_events T' = filter P (tr_events T)) \<or>
      (\<exists>row. tr_events T' = tr_events T @ [row] \<and> row_event_id row \<notin> row_event_id ` set (tr_events T) \<and>
             \<not> for_trigger k (te_event row)))"

lemma passes_inv:
  assumes "sched_inv k nx e m S" "passes k (sy_store S) T'"
  shows "sched_inv k nx e m (S\<lparr>sy_store := T', sy_queued := sy_queued S @ arrivals (sy_store S) T'\<rparr>)"
  using assms by (auto simp: sched_inv_def passes_def arrivals_filter arrivals_new)

lemma passes_same: "tr_cursors T' = tr_cursors T \<Longrightarrow> tr_events T' = tr_events T \<Longrightarrow> passes k T T'"
  unfolding passes_def by (auto intro: exI [of _ "\<lambda>row. True"])

lemma enqueue_passes:
  assumes "enqueue_trigger_event now ev key T = Ok (b, T')" "\<not> for_trigger k ev"
  shows "passes k T T'"
  using assms(1)
proof (rule enqueue_outcome)
  assume "T' = T"
  then show ?thesis by (simp add: passes_same)
qed (use assms(2) in \<open>force simp: passes_def\<close>)

section \<open>Each occurrence once\<close>

lemma fire_passes:
  assumes "fire_due_schedule now t d n T = Ok (b, T')" "(st_automation t, st_name t) \<noteq> k"
  shows "passes k T T'"
proof (cases "tr_events T' = tr_events T \<and> tr_cursors T' = tr_cursors T")
  case False
  then obtain cur inserted where
    "enqueue_trigger_event now (schedule_event (st_automation t) (st_name t) d) (schedule_delivery d)
       (T\<lparr>tr_cursors := bt_insert (st_automation t, st_name t) cur (tr_cursors T)\<rparr>) = Ok (inserted, T')"
    using assms(1) by (auto simp: fire_due_schedule_def Let_def split: option.splits if_splits)
  from enqueue_passes [OF this, of k] show ?thesis
    using assms(2) by (auto simp: passes_def schedule_event_def)
qed (simp add: passes_same)

text \<open>The cursor of \<open>k\<close> advances with the event of the occurrence it stood at.\<close>

lemma fire_inv:
  assumes "sched_inv k nx e m S" "\<And>e. e < nx e" "fire_due_schedule now t d (nx d) (sy_store S) = Ok (b, T')"
    and "(st_automation t, st_name t) = k"
  shows "\<exists>m'. sched_inv k nx e m' (S\<lparr>sy_store := T', sy_queued := sy_queued S @ arrivals (sy_store S) T'\<rparr>)"
proof (cases "\<exists>cur. map_of (tr_cursors (sy_store S)) k = Some cur \<and> cur_next cur = d \<and> seconds d \<le> now")
  case True
  then obtain cur where cur: "map_of (tr_cursors (sy_store S)) k = Some cur" "cur_next cur = d" by blast
  have d: "d = occurrence nx e m" using assms(1) cur by (simp add: sched_inv_def)
  let ?T = "sy_store S\<lparr>tr_cursors := bt_insert k \<lparr>cur_next = nx d, cur_last = Some d\<rparr> (tr_cursors (sy_store S))\<rparr>"
  obtain inserted where enq: "enqueue_trigger_event now (schedule_event (fst k) (snd k) d) (schedule_delivery d) ?T = Ok (inserted, T')"
    using assms(3,4) True cur by (auto simp: fire_due_schedule_def Let_def)
  show ?thesis
    using enq
  proof (rule enqueue_outcome)
    assume "\<exists>row \<in> set (tr_events ?T). delivery_of row =
      (tev_automation (schedule_event (fst k) (snd k) d), tev_trigger (schedule_event (fst k) (snd k) d), schedule_delivery d)"
    then obtain row where row: "row \<in> set (tr_events (sy_store S))" "for_trigger k (te_event row)" "te_idempotency row = schedule_delivery d"
      by (auto simp: schedule_event_def)
    then obtain i where i: "i < m" "schedule_delivery d = schedule_delivery (occurrence nx e i)"
      using assms(1) by (auto simp: sched_inv_def)
    have "d = occurrence nx e i" by (rule schedule_delivery_inj [OF i(2)])
    moreover have "occurrence nx e i < occurrence nx e m" using i(1) by (intro occurrence_less assms(2))
    ultimately show ?thesis using d by simp
  next
    assume T': "T' = ?T\<lparr>tr_events := tr_events ?T @ [\<lparr>te_event = schedule_event (fst k) (snd k) d,
        te_idempotency = schedule_delivery d, te_status = EvPending, te_available = now, te_owner = None, te_expires = None,
        te_attempts = 0, te_error = None, te_updated = now\<rparr>]\<rparr>"
      and fresh: "\<forall>row \<in> set (tr_events ?T). row_event_id row \<noteq> tev_id (schedule_event (fst k) (snd k) d)"
    have notin: "tev_id (schedule_event (fst k) (snd k) d) \<notin> row_event_id ` set (tr_events (sy_store S))"
      using fresh by force
    have "arrivals (sy_store S) T' = [schedule_event (fst k) (snd k) d]"
      using arrivals_new [of T' "sy_store S" "last (tr_events T')"] notin by (simp add: T')
    moreover have "for_trigger k (schedule_event (fst k) (snd k) d)" by (simp add: schedule_event_def)
    ultimately have "sched_inv k nx e (Suc m) (S\<lparr>sy_store := T', sy_queued := sy_queued S @ arrivals (sy_store S) T'\<rparr>)"
      using assms(1) by (auto simp: sched_inv_def T' d less_Suc_eq)
    then show ?thesis by blast
  qed
next
  case False
  then have "T' = sy_store S" using assms(3,4) by (auto simp: fire_due_schedule_def Let_def split: option.splits if_split_asm)
  then show ?thesis by (intro exI) (simp only:, rule passes_inv [OF assms(1) passes_same [OF refl refl]])
qed

lemma complete_custom_passes:
  assumes "complete_custom_trigger now owner t poll ev key T = Ok (b, T')" "case ev of None \<Rightarrow> True | Some e \<Rightarrow> \<not> for_trigger k e"
  shows "passes k T T'"
  using assms enqueue_passes [of now _ key T _ _ k]
  by (auto simp: complete_custom_trigger_def passes_same split: option.splits) (fastforce simp: passes_def)

text \<open>A cursor is made once; no other transaction touches it.\<close>

lemma table_exec_passes:
  assumes "on_schedule k nx act" "\<And>now t d m. act = Fire now t d m \<Longrightarrow> (st_automation t, st_name t) \<noteq> k"
    and "\<And>initial. act \<noteq> InitCursor (fst k) (snd k) initial"
  shows "passes k T (table_exec act T)"
proof (cases act)
  case (Deliver now ev key)
  then show ?thesis using assms(1) enqueue_passes by (auto simp: committed_snd_def passes_same split: sum.splits)
next
  case (InitCursor a n initial)
  then have "(a, n) \<noteq> k" using assms(3) [of initial] by auto
  then show ?thesis
    by (auto simp: InitCursor committed_snd_def get_or_init_schedule_cursor_def passes_def split: sum.splits option.splits
        intro: exI [of _ "\<lambda>row. True"])
next
  case (Fire now t d m)
  then show ?thesis using assms(2) fire_passes by (auto simp: committed_snd_def passes_same split: sum.splits)
next
  case (CompleteCustom now owner t poll ev key)
  then show ?thesis using assms(1) complete_custom_passes by (auto simp: committed_snd_def passes_same split: sum.splits)
next
  case (DeleteAutomation a)
  have "map_of (filter (\<lambda>((b, n), r). b \<noteq> a) m) k = map_of m k" if "a \<noteq> fst k" for m :: "((string \<times> string) \<times> cursor_row) list"
    using that by (induction m) auto
  then show ?thesis using assms(1) by (auto simp: DeleteAutomation delete_automation_def passes_def Let_def)
next
  case (Sweep now d)
  then show ?thesis by (auto simp: cleanup_old_trigger_events_def passes_def Let_def)
qed (auto intro!: passes_same simp: committed_def upsert_custom_trigger_plugin_def fail_custom_trigger_def
    record_trigger_runtime_success_def record_trigger_runtime_failure_def upsert_automation_def set_automation_status_def
    replace_frame fire_interval_automations Let_def split: sum.splits option.splits)

lemma init_inv:
  assumes "sched_inv k nx e m S" "act = InitCursor (fst k) (snd k) initial"
  shows "\<exists>e' m'. sched_inv k nx e' m'
    (S\<lparr>sy_store := table_exec act (sy_store S), sy_queued := sy_queued S @ arrivals (sy_store S) (table_exec act (sy_store S))\<rparr>)"
proof (cases "map_of (tr_cursors (sy_store S)) k = None \<and> bt_contains (tr_automations (sy_store S)) (fst k)")
  case True
  let ?T = "table_exec act (sy_store S)"
  have T: "?T = sy_store S\<lparr>tr_cursors := bt_insert k \<lparr>cur_next = initial, cur_last = None\<rparr> (tr_cursors (sy_store S))\<rparr>"
    using True by (simp add: assms(2) committed_snd_def get_or_init_schedule_cursor_def)
  have "arrivals (sy_store S) ?T = []" by (rule arrivals_filter [of _ "\<lambda>row. True"]) (simp add: T)
  then have "sched_inv k nx initial 0 (S\<lparr>sy_store := ?T, sy_queued := sy_queued S @ arrivals (sy_store S) ?T\<rparr>)"
    using assms(1) True by (auto simp: sched_inv_def T)
  then show ?thesis by blast
next
  case False
  then have "table_exec act (sy_store S) = sy_store S"
    by (auto simp: assms(2) committed_snd_def get_or_init_schedule_cursor_def split: option.splits)
  then show ?thesis using passes_inv [OF assms(1) passes_same] by metis
qed

lemma sched_inv_rows:
  assumes "sched_inv k nx e m S" "tr_cursors T' = tr_cursors (sy_store S)"
    and "map (\<lambda>row. (te_event row, te_idempotency row)) (tr_events T') =
         map (\<lambda>row. (te_event row, te_idempotency row)) (tr_events (sy_store S))"
  shows "sched_inv k nx e m (S\<lparr>sy_store := T', sy_phase := f, sy_created := c\<rparr>)"
proof -
  let ?pairs = "\<lambda>rows. (\<lambda>row. (te_event row, te_idempotency row)) ` set rows"
  have "?pairs (tr_events T') = ?pairs (tr_events (sy_store S))" using assms(3) by (metis set_map)
  then have old: "\<exists>old \<in> set (tr_events (sy_store S)). te_event old = te_event row \<and> te_idempotency old = te_idempotency row"
    if "row \<in> set (tr_events T')" for row
  proof -
    have "(te_event row, te_idempotency row) \<in> ?pairs (tr_events (sy_store S))"
      unfolding \<open>?pairs (tr_events T') = ?pairs (tr_events (sy_store S))\<close> [symmetric] using that by blast
    then show ?thesis by auto
  qed
  have "\<exists>i < m. te_idempotency row = schedule_delivery (occurrence nx e i)"
    if "row \<in> set (tr_events T')" "for_trigger k (te_event row)" for row
    using old [OF that(1)] that(2) assms(1) unfolding sched_inv_def by metis
  then show ?thesis using assms(1,2) by (simp add: sched_inv_def)
qed

lemma modify_rows:
  assumes "\<And>row. te_event (f row) = te_event row \<and> te_idempotency (f row) = te_idempotency row"
  shows "map (\<lambda>row. (te_event row, te_idempotency row)) (tr_events (modify_events p f T)) =
         map (\<lambda>row. (te_event row, te_idempotency row)) (tr_events T)"
  using assms by (simp add: modify_events_def)

lemma sched_inv_exec:
  assumes "sched_inv k nx e m S" "\<And>e. e < nx e" "on_schedule k nx act"
  shows "\<exists>e' m'. sched_inv k nx e' m' (trig_exec E owner act S)"
proof (cases act rule: action_cases)
  case (Lease now held secs p)
  obtain events T' where leased: "lease_trigger_group now held (owner p) secs (sy_store S) = (events, T')" by fastforce
  have "map (\<lambda>row. (te_event row, te_idempotency row)) (tr_events T') =
        map (\<lambda>row. (te_event row, te_idempotency row)) (tr_events (sy_store S))"
    using leased
    by (auto simp: lease_trigger_group_def Let_def lease_event_def modify_rows split: option.splits)
  from sched_inv_rows [OF assms(1) lease_frame(5) [OF leased] this, where c = "sy_created S"] show ?thesis
    using assms(1) by (auto simp: Lease leased)
next
  case (Assess p)
  show ?thesis
    using assms(1) sched_inv_rows [OF assms(1) refl refl, where c = "sy_created S"]
    by (auto simp: Assess split: phase.splits sum.splits)
next
  case (Complete now p)
  show ?thesis
  proof (cases "sy_phase S p")
    case (Decided events v)
    show ?thesis
    proof (cases "complete_verdict now (owner p) v (sy_store S)")
      case (Inr result)
      obtain created T' where r: "result = (created, T')" by (cases result)
      have "map (\<lambda>row. (te_event row, te_idempotency row)) (tr_events T') =
            map (\<lambda>row. (te_event row, te_idempotency row)) (tr_events (sy_store S))"
        using complete_events [OF Inr [unfolded r]] by (simp add: evaluated_row_def)
      note inv = sched_inv_rows [OF assms(1) complete_frame(3) [OF Inr [unfolded r]] this]
      have "trig_exec E owner act S = S\<lparr>sy_store := T', sy_phase := (sy_phase S)(p := Idle),
              sy_created := sy_created S @ (if created then [vd_group v] else [])\<rparr>"
        by (simp add: Complete Decided Inr r)
      then show ?thesis using inv by metis
    qed (use assms(1) in \<open>auto simp: Complete Decided\<close>)
  qed (use assms(1) in \<open>auto simp: Complete\<close>)
next
  case (Retry now p x)
  have "map (\<lambda>row. (te_event row, te_idempotency row)) (tr_events (retry_group E now (owner p) events x (sy_store S))) =
        map (\<lambda>row. (te_event row, te_idempotency row)) (tr_events (sy_store S))" for events
    by (cases events) (simp_all add: retry_group_def retry_trigger_group_def modify_rows)
  from sched_inv_rows [OF assms(1) retry_frame(5) this, where c = "sy_created S"] show ?thesis
    using assms(1) by (auto simp: Retry split: phase.splits)
next
  case (Crash p)
  show ?thesis using sched_inv_rows [OF assms(1) refl refl, where c = "sy_created S"] by (auto simp: Crash)
next
  case Table
  consider (fire) now t d n where "act = Fire now t d n" "(st_automation t, st_name t) = k"
    | (init) initial where "act = InitCursor (fst k) (snd k) initial"
    | (other) "passes k (sy_store S) (table_exec act (sy_store S))"
    using table_exec_passes [OF assms(3)] by blast
  then show ?thesis
  proof cases
    case fire
    have nx: "n = nx d" using assms(3) fire by simp
    show ?thesis
      using fire_inv [OF assms(1,2) _ fire(2), of now d] passes_inv [OF assms(1) passes_same [OF refl refl]]
      by (cases "fire_due_schedule now t d n (sy_store S)") (auto simp: fire nx Let_def committed_snd_def)
  next
    case init
    show ?thesis unfolding trig_exec_table [OF Table] by (rule init_inv [OF assms(1) init])
  next
    case other
    show ?thesis unfolding trig_exec_table [OF Table] using passes_inv [OF assms(1) other] by (intro exI)
  qed
qed

text \<open>C11. Every occurrence of a schedule is queued exactly once and in order, however many evaluators poll
  it, stop or run late: the events ever queued for a cron trigger are those of the occurrences from
  the first one to the one before the cursor. The calendar's promise is that the next occurrence is
  later; the schedule is not edited and its automation not deleted (\<open>on_schedule\<close>), nobody else
  delivers events for the trigger, and the cursor was not there before.\<close>

theorem schedule_fires_each_occurrence_once:
  assumes "\<And>e. e < nx e" "trig_reach E owner (on_schedule (a, n) nx) T S" "map_of (tr_cursors T) (a, n) = None"
  shows "\<exists>e m. filter (\<lambda>ev. tev_automation ev = a \<and> tev_trigger ev = n) (sy_queued S) =
           map (\<lambda>i. schedule_event a n (occurrence nx e i)) [0..<m] \<and>
         (case map_of (tr_cursors (sy_store S)) (a, n) of None \<Rightarrow> m = 0 | Some cur \<Rightarrow> cur_next cur = occurrence nx e m)"
proof -
  from assms(2) have "\<exists>e m. sched_inv (a, n) nx e m S"
  proof (induction rule: trig_reach.induct)
    case start
    then show ?case using assms(3) by (auto simp: sched_inv_def started_system_def)
  next
    case (act S act)
    then show ?case using sched_inv_exec [OF _ assms(1)] by blast
  qed
  then show ?thesis by (auto simp: sched_inv_def)
qed

text \<open>Polling a schedule makes its cursor and fires the occurrence the cursor stands at, with the next one
  the calendar gives.\<close>

lemma produce_schedule_fires:
  assumes "read_schedule (ex_calendar E) (st_config t) = Ok after"
  obtains "snd (produce_schedule E now t T) = T"
  | initial where "snd (produce_schedule E now t T) = table_exec (InitCursor (st_automation t) (st_name t) initial) T"
  | initial d n where "after (seconds d) = Some n"
      "snd (produce_schedule E now t T) =
         table_exec (Fire now t d n) (table_exec (InitCursor (st_automation t) (st_name t) initial) T)"
proof (cases "after now")
  case None
  then show thesis using that(1) by (simp add: produce_schedule_def assms)
next
  case (Some initial)
  show thesis
  proof (cases "get_or_init_schedule_cursor (st_automation t) (st_name t) initial T")
    case (Inl e)
    then show thesis using that(1) by (simp add: produce_schedule_def assms Some)
  next
    case (Inr result)
    obtain d T1 where r: "result = (d, T1)" by (cases result)
    have T1: "table_exec (InitCursor (st_automation t) (st_name t) initial) T = T1" by (simp add: Inr r committed_snd_def)
    show thesis
    proof (cases "d \<le> now div 1000000 \<and> cal_instant (ex_calendar E) d \<and> after (seconds d) \<noteq> None")
      case True
      then obtain n where n: "after (seconds d) = Some n" by blast
      show thesis
        by (rule that(3) [OF n, where initial = initial], unfold T1)
          (use True n in \<open>auto simp: produce_schedule_def assms Some Inr r committed_snd_def split: sum.splits\<close>)
    next
      case False
      then show thesis
        by (intro that(2) [of initial], unfold T1)
          (auto simp: produce_schedule_def assms Some Inr r split: option.splits)
    qed
  qed
qed

section \<open>Edits and intervals\<close>

text \<open>A cursor outlives the schedule it was made for: while it stands in the future, polling fires
  nothing, whatever cron expression the trigger has now.\<close>

theorem edited_schedule_waits_for_the_old_one:
  assumes "map_of (tr_cursors T) (st_automation t, st_name t) = Some cur" "cur_next cur > now div 1000000"
  shows "snd (produce_schedule E now t T) = T"
    and "replace_automation_triggers edited (st_automation t) ts c T = Ok T' \<Longrightarrow>
           map_of (tr_cursors T') (st_automation t, st_name t) = Some cur"
  using assms
  by (auto simp: produce_schedule_def get_or_init_schedule_cursor_def replace_frame split: sum.splits option.splits)

text \<open>Two schedulers that read a due interval automation before either has started it both start it,
  each with a run of its own; and the run is given an empty input, not the automation's.\<close>

theorem interval_starts_twice:
  assumes "fire_interval now (a, w, n) r T = Ok T'" "r' \<noteq> r" "\<not> bt_contains (runs_of T) r'"
  shows "\<exists>T''. fire_interval now (a, w, n) r' T' = Ok T'' \<and>
           (\<forall>i \<in> {r, r'}. \<exists>run. map_of (runs_of T'') i = Some run \<and> wr_automation run = Some a \<and> wr_input run = ''{}'')"
  using assms
  by (auto simp: fire_interval_def Let_def bt_contains_def map_of_bt_modify split: if_splits prod.splits)

end
