(* ===== verification/Trigger_Cases.thy ===== *)
theory Trigger_Cases
  imports Trigger_Schedules
begin

text \<open>
  An automation that waits for two webhooks, and a schedule: the properties of the trigger evaluator at
  these, and a trigger that is lost when two evaluators lease under one name.
\<close>

definition example_outside :: externals where
  "example_outside =
     \<lparr>ex_calendar = \<lparr>cal_zone = (\<lambda>z. True), cal_parse = (\<lambda>s. Ok (\<lambda>z t. Some (t div 1000000 + 60))), cal_instant = (\<lambda>t. True)\<rparr>,
      ex_sha = map (\<lambda>c. of_nat (of_char c)), ex_databases = (\<lambda>c. None), ex_plugin = (\<lambda>t. Err EvInvalidJson),
      ex_json = (\<lambda>s. None), ex_message = (\<lambda>e. [])\<rparr>"

definition webhook_trigger :: "string \<Rightarrow> automation_trigger" where
  "webhook_trigger n =
     \<lparr>at_automation = ''a'', at_name = n, at_kind = TWebhook, at_config = JsonObject [], at_plugin = None, at_enabled = True\<rparr>"

definition both_of :: "string \<Rightarrow> string \<Rightarrow> json" where
  "both_of x y = JsonObject [(''all'', JsonArray [JsonObject [(''trigger'', JsonText x)], JsonObject [(''trigger'', JsonText y)]])]"

definition example_tables :: trigger_state where
  "example_tables = (no_triggers \<lparr>wf_runs = [], wf_steps = [], wf_jobs = [], wf_definitions = [''w'' \<mapsto> pipeline]\<rparr>)
     \<lparr>tr_automations := [(''a'', \<lparr>ar_automation = \<lparr>au_id = ''a'', au_name = [], au_description = [], au_workflow = ''w'',
          au_input = ''{}'', au_status = AutoEnabled\<rparr>, ar_condition = both_of ''x'' ''y'', ar_next_fire = None\<rparr>)],
      tr_triggers := [(''a_x'', webhook_trigger ''x''), (''a_y'', webhook_trigger ''y'')]\<rparr>"

definition example_event :: "string \<Rightarrow> int \<Rightarrow> trigger_event" where
  "example_event n t = \<lparr>tev_id = n, tev_automation = ''a'', tev_trigger = n, tev_correlation = ''k'', tev_payload = JsonNull, tev_occurred = t\<rparr>"

definition after_actions :: "(nat \<Rightarrow> string) \<Rightarrow> trig_action list \<Rightarrow> trig_system" where
  "after_actions owner acts = foldl (\<lambda>S act. trig_exec example_outside owner act S) (started_system example_tables) acts"

lemma after_actions_reach: "list_all allowed acts \<Longrightarrow> trig_reach example_outside owner allowed example_tables (after_actions owner acts)"
proof (induction acts rule: rev_induct)
  case Nil
  then show ?case by (auto simp: after_actions_def example_tables_def no_triggers_def intro: trig_reach.start)
next
  case (snoc act acts)
  then show ?case by (auto simp: after_actions_def intro: trig_reach.act)
qed

text \<open>The second webhook arrives while evaluator 0 holds the group with the first, and evaluator 1 leases
  it before evaluator 0 is done.\<close>

definition two_evaluators :: "trig_action list" where
  "two_evaluators =
     [Deliver 0 (example_event ''x'' 0) ''d1'', Lease 1 (\<lambda>i. False) 60 0, Deliver 2 (example_event ''y'' 1) ''d2'',
      Lease 3 (\<lambda>i. False) 60 1, Assess 0, Complete 4 0]"

definition both_finish :: "trig_action list" where
  "both_finish = two_evaluators @ [Assess 1, Complete 5 1]"

definition named_apart :: "nat \<Rightarrow> string" where
  "named_apart p = ''evaluator-'' @ fmt_nat p"

lemma named_apart_inj: "inj named_apart"
  by (auto simp: inj_def named_apart_def dest: fmt_nat_inj)

lemma both_finish_creates: "sy_created (after_actions named_apart both_finish) = [(''a'', ''k'')]"
  by code_simp

theorem group_starts_one_run_witness:
  "sy_created (after_actions named_apart both_finish) = [(''a'', ''k'')] \<and>
   bt_contains (runs_of (sy_store (after_actions named_apart both_finish))) (deterministic_run_id (ex_sha example_outside) ''a'' ''k'')"
  using group_starts_one_run [OF after_actions_reach [of "\<lambda>act. True" both_finish named_apart]]
  by (simp add: both_finish_creates list_all_iff)

lemma both_finish_evaluates:
  "\<forall>row \<in> set (tr_events (sy_store (after_actions named_apart both_finish))). te_status row = EvEvaluated"
  by code_simp

lemma both_finish_satisfied:
  "group_satisfied ''a'' (tev_trigger ` te_event ` {row \<in> set (tr_events (sy_store (after_actions named_apart both_finish))).
     group_of row = (''a'', ''k'') \<and> te_status row = EvEvaluated}) example_tables"
  by code_simp

lemma two_evaluators_keep: "list_all (\<lambda>act. \<not> redefines act) both_finish" "list_all (\<lambda>act. \<not> redefines act) two_evaluators"
  by (simp_all add: both_finish_def two_evaluators_def)

theorem satisfied_group_has_run_witness:
  "bt_contains (runs_of (sy_store (after_actions named_apart both_finish))) (deterministic_run_id (ex_sha example_outside) ''a'' ''k'')"
  using satisfied_group_has_run [OF named_apart_inj after_actions_reach [OF two_evaluators_keep(1)], of "(''a'', ''k'')"]
    both_finish_evaluates both_finish_satisfied
  by (simp add: group_satisfied_met)

theorem run_has_its_triggers_witness:
  "automation_met ''a'' (tev_trigger ` {ev \<in> set (sy_queued (after_actions named_apart both_finish)). event_group ev = (''a'', ''k'')})
     example_tables"
  using run_has_its_triggers [OF after_actions_reach [OF two_evaluators_keep(1)], of "(''a'', ''k'')" named_apart]
  by (simp add: both_finish_creates)

text \<open>With one name for both, evaluator 0 marks as evaluated what evaluator 1 has leased; when evaluator 1
  then stops, both events are evaluated, they satisfy the automation, and there is no run.\<close>

definition one_name :: "trig_action list" where
  "one_name = two_evaluators @ [Crash 1]"

theorem shared_name_loses_a_trigger:
  "let T = sy_store (after_actions (\<lambda>p. ''evaluator-1'') one_name) in
   map te_status (tr_events T) = [EvEvaluated, EvEvaluated] \<and>
   automation_met ''a'' (tev_trigger ` te_event ` set (tr_events T)) example_tables \<and> runs_of T = []"
  unfolding group_satisfied_met [symmetric] by code_simp

text \<open>Two evaluators poll a schedule of every minute; the second is late with the first occurrence.\<close>

definition every_minute :: schedule_trigger where
  "every_minute = \<lparr>st_automation = ''a'', st_name = ''s'', st_config = JsonObject [(''cron'', JsonText ''0 * * * * *'')]\<rparr>"

definition two_pollers :: "trig_action list" where
  "two_pollers =
     [InitCursor ''a'' ''s'' 60, InitCursor ''a'' ''s'' 120, Fire 60000000 every_minute 60 120, Fire 60000001 every_minute 60 120,
      Fire 120000000 every_minute 120 180]"

lemma two_pollers_queue:
  "map tev_correlation (sy_queued (after_actions named_apart two_pollers)) = [''60'', ''120'']"
  by code_simp

lemma two_pollers_on_schedule: "list_all (on_schedule (''a'', ''s'') (\<lambda>e. e + 60)) two_pollers"
  by (simp add: two_pollers_def every_minute_def)

lemma example_cursors [simp]: "tr_cursors example_tables = []"
  by (simp add: example_tables_def no_triggers_def)

theorem schedule_fires_each_occurrence_once_witness:
  "map tev_correlation (sy_queued (after_actions named_apart two_pollers)) = [''60'', ''120''] \<and>
   (\<exists>e m. filter (\<lambda>ev. tev_automation ev = ''a'' \<and> tev_trigger ev = ''s'') (sy_queued (after_actions named_apart two_pollers)) =
           map (\<lambda>i. schedule_event ''a'' ''s'' (occurrence (\<lambda>e. e + 60) e i)) [0..<m] \<and>
         (case map_of (tr_cursors (sy_store (after_actions named_apart two_pollers))) (''a'', ''s'') of
            None \<Rightarrow> m = 0 | Some cur \<Rightarrow> cur_next cur = occurrence (\<lambda>e. e + 60) e m))"
  using schedule_fires_each_occurrence_once [of "\<lambda>e. e + 60", OF _ after_actions_reach [OF two_pollers_on_schedule], of named_apart]
  by (simp add: two_pollers_queue)

end
