(* ===== verification/Spec2Isabelle.thy ===== *)
theory Spec2Isabelle
  imports Worker_Safety Assurance Bundles Canonical_Facts Workflow_Safety Workflow_Adapter Trigger_Cases
begin

text \<open>
  A verification development for Capsulet, a platform that runs typed graphs of model,
  checker and effect nodes under declared bounds. A \<^emph>\<open>definition\<close> (\<open>crates/ir\<close>) declares
  the graph, its regions and loops, what every port may be trusted with and what every
  effect needs. A \<^emph>\<open>run\<close> of a definition is a log of events (\<open>crates/runtime\<close>): its state is
  the fold of the log, and a pure decision core reads the definition, the state and the time
  and says what happens next. The log, the signal inbox and the effect ledger are tables
  (\<open>crates/postgres/src/ir_*.rs\<close> and the triggers of \<open>migrations/20260906*.sql\<close>), and graph
  workers (\<open>crates/graph-worker\<close>) lease runs, decide, execute and append under a fencing
  epoch. What a run may claim is a \<^emph>\<open>certificate\<close>: obligations with their evidence, sealed by
  a digest, which a gate reads before a protected boundary is crossed. Claims about text are
  decided by a \<^emph>\<open>kernel\<close> (\<open>crates/kernel\<close>) that walks an untrusted derivation. Beside the graphs
  the platform runs \<^emph>\<open>workflows\<close> of container jobs (\<open>crates/core\<close>, \<open>crates/application\<close>,
  \<open>crates/postgres\<close>): workers lease job runs from a shared table, a scheduler reconciles each
  workflow run with its jobs, and an adapter (\<open>crates/ir-adapters\<close>) describes a workflow as a
  definition. \<^emph>\<open>Automations\<close> start workflows: producers queue trigger events, and evaluators
  (\<open>crates/evaluator\<close>) lease groups of them and decide a condition. The development follows those
  paths from the declarations to several workers over one store, to the gate, to the verdict of the
  kernel, and from a trigger to the end of a workflow run.

  \<^bold>\<open>Declarations.\<close>
  \<^item> \<open>Prelude\<close> and \<open>Ordered_Map\<close>: results as a sum type, saturating arithmetic on words,
    decimal text, the iterator idioms of the source, and ordered maps and sets as sorted
    lists with a canonical form.
  \<^item> \<open>Identifiers\<close> (\<open>ir/src/id.rs\<close>, \<open>digest.rs\<close>), \<open>Value_Schema\<close> (\<open>value.rs\<close>),
    \<open>Capability_Effect\<close> (\<open>capability.rs\<close>, \<open>effect.rs\<close>), \<open>Trust\<close> (\<open>trust.rs\<close>, \<open>port.rs\<close>),
    \<open>Node_Region\<close> (\<open>node.rs\<close>, \<open>region.rs\<close>, \<open>loop_region.rs\<close>), \<open>Definitions\<close>
    (\<open>definition.rs\<close>, \<open>correctness/obligation.rs\<close>): the declared data with every check.
    Schema compatibility is a preorder where the middle schema has no optional fields and
    not one in general; the meet of trust classes never strengthens; a checked node
    separates the duties of proposing, verifying and acting.
  \<^item> \<open>Graph\<close> (\<open>graph.rs\<close>): construction, edges and regions. Construction does not depend on
    the order of declaration, an accepted edge has earned the trust it delivers, and
    accepted regions narrow what they were given at every depth.
  \<^item> \<open>Graph_Cycles\<close>: the depth-first search for cycles is compared with reachability in
    the flow relation. It is exact without loop regions, every reported cycle is real, and
    a cycle that shares a node with a declared loop can be missed.

  \<^bold>\<open>Runs.\<close>
  \<^item> \<open>Run_Log\<close> and \<open>Run_History\<close> (\<open>runtime/src/event.rs\<close>, \<open>state.rs\<close>): events, state and
    fold, and the facts about folded logs: their shape, well-formed states, the reading
    of the state from the log.
  \<^item> \<open>Effect_Protocol\<close> (\<open>effect.rs\<close>), \<open>Loop_Control\<close> (\<open>loops.rs\<close>), \<open>Stopping\<close>
    (\<open>failure.rs\<close>), \<open>Waits\<close> (\<open>wait.rs\<close>): keys and claims, budgets and stopping rules,
    time-outs, compensation and cancellation, suspension and signals.
  \<^item> \<open>Decide\<close> and \<open>Progress\<close> (\<open>decide.rs\<close>): the decision core. Effects are decided
    safely, runs end owing nothing, iterations are bounded, and a run of a
    checked loop-free graph is idle only for a reason.

  \<^bold>\<open>Storage and workers.\<close>
  \<^item> \<open>Run_Store\<close> and \<open>Store_Facts\<close>: the tables, one definition per statement, the triggers
    that project status, wake-up time and ledger. The locale \<open>fenced_log\<close> states what a
    worker relies on (a lease advances the epoch, a stale append changes nothing, an
    accepted append extends the log by one event) and is interpreted by the statements.
  \<^item> \<open>Graph_Worker\<close>: each \<open>async fn\<close> of the worker is a \<open>script\<close>, the tree of its
    interactions with the world; \<open>perform\<close> runs one against a store and an environment.
  \<^item> \<open>Worker_System\<close> and \<open>Worker_Safety\<close>: any number of workers take turns at single
    interactions, crash, and lose leases. A monitor is a property of the log that every
    script obeys at every interaction; the locales \<open>holder_monitor\<close> and \<open>session_monitor\<close>
    lift it to all interleavings and are interpreted for the claim phase, the calls and
    the keys. A non-idempotent effect is performed at most once per accepted claim, and
    every call for one effect presents one key.

  \<^bold>\<open>Certificates and the gate.\<close>
  \<^item> \<open>Certificates\<close> (\<open>ir/src/admission.rs\<close>, \<open>correctness/certificate.rs\<close>, \<open>coverage.rs\<close>,
    \<open>trust.rs\<close>, \<open>runtime/src/certify.rs\<close>, \<open>kernel/src/workflow.rs\<close>): admission of a definition,
    certificate bodies and seals, coverage of a contract, the admission of a verification
    record, the evidence a log gives, and the assembly of a certificate. A value is classed
    verified only by a certificate that earned it.
  \<^item> \<open>Assurance\<close> (\<open>ir/src/assurance.rs\<close>): the boundary gate. Its decision is compared with the
    clauses of the policy as they are documented: it opens exactly when each of them holds, as long
    as the age of the evidence fits into 64 bits.
  \<^item> \<open>Wire_Text\<close> (\<open>ir/src/digest.rs\<close>, \<open>version.rs\<close>): the text of digests and schema versions.

  \<^bold>\<open>The claim kernel.\<close>
  \<^item> \<open>Quantity\<close> (\<open>kernel/src/quantity.rs\<close>): exact numbers; every answer is the rational one.
  \<^item> \<open>Citation_Text\<close>, \<open>Citation_Value\<close>, \<open>Phrasing\<close> (\<open>text.rs\<close>, \<open>value.rs\<close>, \<open>phrasing.rs\<close> of
    the kernel and \<open>core/src/domain/phrasing.rs\<close>): Unicode text as code points with byte
    offsets, whole-word containment, the grammars of numbers, money and dates, and when a
    sentence states a relation.
  \<^item> \<open>Claim_Kernel\<close> (\<open>lib.rs\<close>, \<open>ir.rs\<close>, \<open>error.rs\<close>, \<open>certificate.rs\<close>, \<open>snapshot.rs\<close> of the kernel
    and the provenance check of \<open>core/src/domain/memory.rs\<close>) and \<open>Kernel_Soundness\<close>: the rules
    with their errors and records, the relation \<open>establishes\<close>, which has neither, and its part
    \<open>evidenced\<close> that rests on stored evidence. The verdict on a derivation from a citation is
    exactly what the evidence supports, an accepted citation rests on stored text, and every
    proposal is decided within the depth bound. Two leaves are taken at their word: an arithmetic
    step has no premise and concludes any proposition, and an attested claim need only be active.

  \<^bold>\<open>Replay.\<close>
  \<^item> \<open>Replay\<close> (\<open>kernel/src/replay.rs\<close>, \<open>family.rs\<close>, \<open>snapshot_document.rs\<close>): checking a
    certificate again from the bytes it cites. It is reproduced exactly when it is still
    justified.
  \<^item> \<open>Bundles\<close> (\<open>kernel/src/bundle.rs\<close>): certificates with their evidence as base64 text. A
    bundle of intact evidence is read and checked as intact, and replays like that evidence when
    the inputs of the deterministic verifiers are cited.

  \<^bold>\<open>Bytes.\<close>
  \<^item> \<open>Canonical\<close> (\<open>ir/src/canonical.rs\<close>): canonical values, their bytes, and the serializer over
    the data model of \<open>serde\<close>; UTF-8 is written out. \<open>Json_Reader\<close> (\<open>reader.rs\<close>): the reader, with
    every error and its position. \<open>Canonical_Facts\<close>: values and canonical bytes are in one to one
    correspondence, the strict reader accepts exactly the canonical bytes, what the encoder
    writes reads back within the depth bound, and floating point has no bytes. The locale
    \<open>one_spelling\<close> of \<open>Wire_Text\<close> states what a format with one text per value promises, and is
    interpreted by digests, by UTF-8 and by canonical documents.

  \<^bold>\<open>Workflows and jobs.\<close>
  \<^item> \<open>Workflow_Graph\<close> (\<open>core/src/domain/workflow.rs\<close>, \<open>workflow_graph.rs\<close>) and \<open>Workflow_Order\<close>:
    definitions, the construction of the graph and its topological sort. A graph is accepted
    exactly when its declarations are well formed and acyclic; the unsigned counters of the sort
    never underflow; the order respects the dependencies.
  \<^item> \<open>Job_Runs\<close> (\<open>job.rs\<close>, \<open>postgres/src/job_runs.rs\<close>, \<open>repositories.rs\<close>, \<open>application/src/execution.rs\<close>)
    and \<open>Job_Facts\<close>: the table of job runs, one definition per statement, and what holds after
    any sequence of statements of any workers: a terminal run is final, a lease finishes at most
    one attempt. The start of an attempt is not fenced, and can strand a run; the leases of a pool
    are counted in a snapshot older than the pool's lock, and its capacity can be passed.
  \<^item> \<open>Workflow_Runs\<close> (\<open>postgres/src/workflow_runs.rs\<close>), \<open>Workflow_Facts\<close> and \<open>Workflow_Safety\<close>:
    snapshots and the transactions on the tables of runs, step runs and job runs, with the
    constraints of the schema as errors. The invariant says what a step run knows of its job, of
    its dependencies and of the failure that made it skipped; it holds in every state that
    schedulers, workers and users reach together. No step starts before what it strictly depends
    on, a run succeeds only in all its steps, and a reconciliation of a run whose jobs have ended
    finishes it or starts a step.
  \<^item> \<open>Workflow_Adapter\<close> (\<open>ir-adapters/src/workflow.rs\<close>): an accepted workflow is translated to a
    definition that passes every check of admission but, possibly, that of the encoder, and in
    which the decision core finds the same steps ready. Its deadline is not carried exactly.

  \<^bold>\<open>Triggers.\<close>
  \<^item> \<open>Triggers\<close> (\<open>core/src/domain/automation.rs\<close>, \<open>postgres/src/automations.rs\<close>, \<open>trigger_events.rs\<close>,
    \<open>retention.rs\<close>, the interval automations of \<open>workflow_runs.rs\<close>): conditions, automations with
    their trigger graphs, the queue of events with its leases, schedule cursors and pollers, one
    definition per transaction over one record of tables.
  \<^item> \<open>Trigger_Evaluator\<close> (\<open>evaluator/src\<close>): the producers for schedules, SQL polls and plugins, the
    evaluation of a group, and the tick. The calendar, the polled databases, the runner of plugins,
    SHA-256 and the JSON parser are the fields of \<open>externals\<close>.
  \<^item> \<open>Trigger_System\<close>, \<open>Trigger_Safety\<close> and \<open>Trigger_Schedules\<close>: several evaluators, producers, editors
    and the workflow scheduler take turns at single transactions, and evaluators stop at any point.
    A group starts at most one run; while no automation changes, a group whose events satisfy its
    automation is not dropped when evaluators lease under different names, and a run is never made
    up; every occurrence of a schedule is queued once. \<open>Trigger_Cases\<close>: the examples, among them the
    trigger that is lost when two evaluators share a name.

  \<^bold>\<open>Bounds and fuel.\<close> Counters, attempts and epochs are words of the source's width with
  its saturating or checked arithmetic; times and \<open>BIGINT\<close> columns are integers with their
  64-bit range written out. The only fuel is \<open>steps_per_lease\<close>, which is the source's own
  bound on the turns of a pass; the depth bound of the kernel is the source's as well. All other recursion is structural or has a measure.

  \<^bold>\<open>Parameters.\<close> The executor's answers, both clocks, the rows other transactions have
  locked, the digests of node outputs, definitions, certificate bodies and proposals
  (canonical encoding followed by SHA-256), the lookup of stored definitions and
  certificates, the tables of Unicode (record \<open>unicode\<close>, and the test for a normalised text),
  JSON documents (record \<open>documents\<close>) and the text of a fold error are arguments; nothing is
  assumed of them. So are the identifiers generated for new rows and the job definitions that
  exist, of which progress needs that the first are new and the second there.

  \<^bold>\<open>Not modelled.\<close> Payloads as JSON (a payload is its event, a document its value), hashing, the
  messages of most errors, the contract language of the memory service, the connection pool and
  the other tables of the store; the tick of a job worker with its containers, logs and artifacts,
  agents, the HTTP API with its webhooks, the command line, the dashboard and the SDKs:
  input and output around services and libraries that are not part of the sources.
\<close>

end
